(* ===== verification/Prelude.thy ===== *)
theory Prelude
  imports Main "HOL-Library.Word" "HOL-Library.Monad_Syntax"
begin

text \<open>
  Shared vocabulary of the development: the integer types of the AVR target, checked array
  access, bulk writes into fixed-size buffers, and the few generic facts about lists and words
  the components use.

  Undefined behaviour of C++ (an index outside an array, a string copied past the end of its
  buffer) is the value \<open>None\<close> of an \<open>option\<close>; the components thread it with the \<open>do\<close> notation
  of \<open>Monad_Syntax\<close>. A theorem that an operation returns \<open>Some\<close> is therefore a memory-safety
  theorem.
\<close>

unbundle bit_operations_syntax

named_theorems model_defs "definitions of small model operations, for unfolding in proofs"

section \<open>Types\<close>

type_synonym byte = "8 word"
type_synonym vint = "16 word"

text \<open>\<open>int\<close> is 16 bits wide on the ATmega2560; \<open>int16\<close> wraps an integer result to that width.\<close>

definition int16 :: "int \<Rightarrow> int" where
  "int16 a = signed_take_bit 15 a"

lemma int16_id: "- 32768 \<le> a \<Longrightarrow> a < 32768 \<Longrightarrow> int16 a = a"
  by (simp add: int16_def signed_take_bit_int_eq_self)

lemma int16_sint [simp]: "int16 (sint (w :: vint)) = sint w"
  using sint_range_size [of w] by (simp add: word_size int16_id)

lemma int16_range: "- 32768 \<le> int16 a \<and> int16 a < 32768"
  using signed_take_bit_int_less_exp [of 15 a]
    signed_take_bit_int_greater_eq_minus_exp [of 15 a]
  by (simp add: int16_def)

lemma sint_vint_range: "- 32768 \<le> sint (w :: vint) \<and> sint w < 32768"
  using sint_range_size [of w] by (simp add: word_size)

section \<open>Checked array access\<close>

definition aget :: "'a list \<Rightarrow> int \<Rightarrow> 'a option" where
  "aget xs i = (if 0 \<le> i \<and> i < int (length xs) then Some (xs ! nat i) else None)"

definition aset :: "'a list \<Rightarrow> int \<Rightarrow> 'a \<Rightarrow> 'a list option" where
  "aset xs i v = (if 0 \<le> i \<and> i < int (length xs) then Some (xs[nat i := v]) else None)"

lemma aget_Some_iff [simp]:
  "aget xs i = Some v \<longleftrightarrow> 0 \<le> i \<and> i < int (length xs) \<and> v = xs ! nat i"
  by (auto simp: aget_def)

lemma aget_None_iff [simp]: "aget xs i = None \<longleftrightarrow> i < 0 \<or> int (length xs) \<le> i"
  by (auto simp: aget_def)

lemma aset_Some_iff [simp]:
  "aset xs i v = Some ys \<longleftrightarrow> 0 \<le> i \<and> i < int (length xs) \<and> ys = xs[nat i := v]"
  by (auto simp: aset_def)

lemma aset_None_iff [simp]: "aset xs i v = None \<longleftrightarrow> i < 0 \<or> int (length xs) \<le> i"
  by (auto simp: aset_def)

lemma aset_in [simp]:
  "0 \<le> i \<Longrightarrow> i < int (length xs) \<Longrightarrow> aset xs i v = Some (xs[nat i := v])"
  by (simp add: aset_def)

lemma aget_in [simp]:
  "0 \<le> i \<Longrightarrow> i < int (length xs) \<Longrightarrow> aget xs i = Some (xs ! nat i)"
  by (simp add: aget_def)

section \<open>Bulk writes\<close>

text \<open>\<open>put_at off xs buf\<close> overwrites \<open>buf\<close> from index \<open>off\<close> with \<open>xs\<close>, as \<open>memcpy\<close> and the byte
  loops of the code do; the callers keep it inside the buffer.\<close>

definition put_at :: "nat \<Rightarrow> 'a list \<Rightarrow> 'a list \<Rightarrow> 'a list" where
  "put_at off xs buf = take off buf @ xs @ drop (off + length xs) buf"

lemma length_put_at [simp]:
  "off + length xs \<le> length buf \<Longrightarrow> length (put_at off xs buf) = length buf"
  by (simp add: put_at_def)

lemma nth_put_at:
  assumes "off + length xs \<le> length buf" "i < length buf"
  shows "put_at off xs buf ! i =
    (if off \<le> i \<and> i < off + length xs then xs ! (i - off) else buf ! i)"
  using assms by (auto simp: put_at_def nth_append min_def)

lemma take_put_at_0 [simp]: "take (length xs) (put_at 0 xs buf) = xs"
  by (simp add: put_at_def)

lemma put_at_Nil [simp]: "put_at off [] buf = buf"
  by (simp add: put_at_def)

lemma take_put_at_prefix:
  assumes "off \<le> length buf" "n = off + length xs"
  shows "take n (put_at off xs buf) = take off buf @ xs"
  using assms by (simp add: put_at_def min_def)

lemma put_at_put_at:
  assumes "length (take off buf) = off" "off' = off + length xs"
    "off' + length ys \<le> length buf"
  shows "put_at off' ys (put_at off xs buf) = put_at off (xs @ ys) buf"
  using assms by (simp add: put_at_def min_def add.commute add.left_commute)

section \<open>Words\<close>

lemma bit_byte_high [simp]: "8 \<le> n \<Longrightarrow> \<not> bit (b :: byte) n"
  using bit_imp_le_length [of b n] by auto

lemma word_eq_iff_below:
  fixes x y :: "'a::len word"
  shows "x = y \<longleftrightarrow> (\<forall>n < LENGTH('a). bit x n = bit y n)"
  by (auto simp: bit_eq_iff intro: ccontr dest: bit_imp_le_length)

lemma unat_bound: "unat (w :: 'a::len word) < 2 ^ LENGTH('a)"
  by (rule unsigned_less)

lemma unat_byte_bound [simp]: "unat (b :: byte) < 256"
  using unat_bound [of b] by simp

lemma unat_ucast_up:
  "LENGTH('a) \<le> LENGTH('b) \<Longrightarrow> unat (ucast (w :: 'a::len word) :: 'b::len word) = unat w"
  by (simp add: unsigned_ucast_eq take_bit_nat_eq_self_iff
      order_less_le_trans [OF unat_bound])

lemma unat_ucast_down:
  "unat w < 2 ^ LENGTH('b) \<Longrightarrow> unat (ucast (w :: 'a::len word) :: 'b::len word) = unat w"
  by (simp add: unsigned_ucast_eq take_bit_nat_eq_self_iff)

lemma unat_of_nat_small:
  "n < 2 ^ LENGTH('a) \<Longrightarrow> unat (word_of_nat n :: 'a::len word) = n"
  by (simp add: unat_of_nat)

lemma word_of_unat: "unat w = n \<Longrightarrow> w = word_of_nat n"
  by auto

lemma nat_word_eq:
  assumes "a < 2 ^ LENGTH('a)" "b < 2 ^ LENGTH('a)"
  shows "(word_of_nat a :: 'a::len word) = word_of_nat b \<longleftrightarrow> a = b"
  using unat_of_nat_small [OF assms(1)] unat_of_nat_small [OF assms(2)] by metis

lemma unat_plus_small: "unat v + unat w < 2 ^ LENGTH('a) \<Longrightarrow> unat (v + w :: 'a::len word) = unat v + unat w"
  by (simp add: unat_word_ariths)

lemma unat_drop: "unat (drop_bit k w) = unat w div 2 ^ k"
  unfolding unat_drop_bit_eq by (simp add: drop_bit_eq_div)

lemma word_unat_eqI: "unat v = unat w \<Longrightarrow> v = (w :: 'a::len word)"
  by (rule unsigned_word_eqI)

lemma take_bit_word_small:
  "unat w < 2 ^ n \<Longrightarrow> take_bit n w = (w :: 'a::len word)"
  by (metis unsigned_take_bit_eq take_bit_nat_eq_self unsigned_word_eqI)

lemma join_bits:
  fixes a b :: "'a::len word"
  assumes "unat b < 2 ^ k" "2 ^ k * unat a < 2 ^ LENGTH('a)" "k < LENGTH('a)"
  shows "unat (push_bit k a OR b) = 2 ^ k * unat a + unat b"
proof -
  have b: "b = take_bit k b" using assms(1) by (simp add: take_bit_word_small)
  have "push_bit k a OR b = push_bit k a + b"
    by (subst b, subst (2) b, rule disjunctive_add [symmetric]) (auto simp: bit_simps)
  moreover have "unat (push_bit k a) = 2 ^ k * unat a"
  proof -
    have "unat (push_bit k a) = take_bit LENGTH('a) (push_bit k (unat a))" unfolding unsigned_push_bit_eq by simp
    also have "push_bit k (unat a) = 2 ^ k * unat a" by (simp add: push_bit_eq_mult)
    also have "take_bit LENGTH('a) (2 ^ k * unat a) = 2 ^ k * unat a" using assms(2) by (rule take_bit_nat_eq_self)
    finally show ?thesis .
  qed
  moreover have "2 ^ k * unat a + unat b < 2 ^ LENGTH('a)"
  proof -
    have e: "(2 :: nat) ^ LENGTH('a) = 2 ^ k * 2 ^ (LENGTH('a) - k)" using assms(3) by (simp flip: power_add)
    have "2 ^ k * unat a < 2 ^ k * 2 ^ (LENGTH('a) - k)" using assms(2) unfolding e .
    then have "unat a < 2 ^ (LENGTH('a) - k)" by simp
    then have "2 ^ k * (unat a + 1) \<le> 2 ^ k * 2 ^ (LENGTH('a) - k)" by (intro mult_le_mono) simp_all
    then show ?thesis using assms(1) e by simp
  qed
  ultimately show ?thesis by (simp add: unat_word_ariths)
qed

lemma xor_right_cancel: "a XOR c = b XOR c \<longleftrightarrow> a = (b :: 'a::len word)"
  by (metis xor.assoc xor.right_neutral xor_self_eq)

lemma xor_left_cancel: "c XOR a = c XOR b \<longleftrightarrow> a = (b :: 'a::len word)"
  by (metis xor.commute xor_right_cancel)

text \<open>Masking with a contiguous low mask is truncation; the bit lemmas know \<open>take_bit\<close>.\<close>

named_theorems and_masks "x AND 2^n - 1 as take_bit n x"

lemma and_mask_1 [and_masks]: "(x :: 'a::len word) AND 0x1 = take_bit 1 x"
  by (simp add: take_bit_eq_mask mask_eq_exp_minus_1)
lemma and_mask_4 [and_masks]: "(x :: 'a::len word) AND 0xF = take_bit 4 x"
  by (simp add: take_bit_eq_mask mask_eq_exp_minus_1)
lemma and_mask_5 [and_masks]: "(x :: 'a::len word) AND 0x1F = take_bit 5 x"
  by (simp add: take_bit_eq_mask mask_eq_exp_minus_1)
lemma and_mask_6 [and_masks]: "(x :: 'a::len word) AND 0x3F = take_bit 6 x"
  by (simp add: take_bit_eq_mask mask_eq_exp_minus_1)
lemma and_mask_8 [and_masks]: "(x :: 'a::len word) AND 0xFF = take_bit 8 x"
  by (simp add: take_bit_eq_mask mask_eq_exp_minus_1)
lemma and_mask_9 [and_masks]: "(x :: 'a::len word) AND 0x1FF = take_bit 9 x"
  by (simp add: take_bit_eq_mask mask_eq_exp_minus_1)
lemma and_mask_10 [and_masks]: "(x :: 'a::len word) AND 0x3FF = take_bit 10 x"
  by (simp add: take_bit_eq_mask mask_eq_exp_minus_1)
lemma and_mask_16 [and_masks]: "(x :: 'a::len word) AND 0xFFFF = take_bit 16 x"
  by (simp add: take_bit_eq_mask mask_eq_exp_minus_1)
lemma and_mask_45 [and_masks]: "(x :: 'a::len word) AND 0x1FFFFFFFFFFF = take_bit 45 x"
  by (simp add: take_bit_eq_mask mask_eq_exp_minus_1)

end
