(* ===== verification/SectorCache.thy ===== *)
theory SectorCache
  imports Prelude
begin

text \<open>
  The one-sector cache of \<open>lib/SdFat/src/common/FsCache.h\<close> and \<open>FsCache.cpp\<close>, on a block device. The
  device is a parameter: its operations work on a state \<open>'d\<close> of their own and may fail. The cache is
  specified as a flat store of sectors: \<open>view\<close> is what a reader sees, the cached sector first and the
  medium otherwise.
\<close>

section \<open>The block device\<close>

text \<open>
  The operations of \<open>FsBlockDevice\<close> that the library calls. A read gives the bytes it stored at the
  destination also when it fails. The two \<open>multi\<close> operations transfer a number of sectors.
\<close>

record 'd blockdev =
  dev_read :: "'d \<Rightarrow> 32 word \<Rightarrow> bool \<times> byte list \<times> 'd"
  dev_write :: "'d \<Rightarrow> 32 word \<Rightarrow> byte list \<Rightarrow> bool \<times> 'd"
  dev_reads :: "'d \<Rightarrow> 32 word \<Rightarrow> nat \<Rightarrow> bool \<times> byte list \<times> 'd"
  dev_writes :: "'d \<Rightarrow> 32 word \<Rightarrow> nat \<Rightarrow> byte list \<Rightarrow> bool \<times> 'd"
  dev_sync :: "'d \<Rightarrow> bool \<times> 'd"

text \<open>A sector has 512 bytes, on any device.\<close>

definition dev_ok :: "'d blockdev \<Rightarrow> bool" where
  "dev_ok D \<longleftrightarrow> (\<forall>d s ok b d'. dev_read D d s = (ok, b, d') \<longrightarrow> length b = 512) \<and>
     (\<forall>d s n ok b d'. dev_reads D d s n = (ok, b, d') \<longrightarrow> length b = 512 * n)"

text \<open>
  A card that works: every transfer succeeds, \<open>M d\<close> is what the medium holds in state \<open>d\<close>, reads
  return it and leave it alone, and a write changes the sectors written.
\<close>

definition put_sectors :: "32 word \<Rightarrow> nat \<Rightarrow> byte list \<Rightarrow> (32 word \<Rightarrow> byte list) \<Rightarrow> 32 word \<Rightarrow> byte list" where
  "put_sectors s n bs m = (\<lambda>t. if unat (t - s) < n then take 512 (drop (512 * unat (t - s)) bs) else m t)"

definition dev_works :: "'d blockdev \<Rightarrow> ('d \<Rightarrow> 32 word \<Rightarrow> byte list) \<Rightarrow> bool" where
  "dev_works D M \<longleftrightarrow>
     (\<forall>d s. length (M d s) = 512) \<and>
     (\<forall>d s. \<exists>d'. dev_read D d s = (True, M d s, d') \<and> M d' = M d) \<and>
     (\<forall>d s b. length b = 512 \<longrightarrow> (\<exists>d'. dev_write D d s b = (True, d') \<and> M d' = (M d)(s := b))) \<and>
     (\<forall>d s n. \<exists>d'. dev_reads D d s n = (True, concat (map (\<lambda>i. M d (s + word_of_nat i)) [0..<n]), d') \<and> M d' = M d) \<and>
     (\<forall>d s n b. length b = 512 * n \<longrightarrow> (\<exists>d'. dev_writes D d s n b = (True, d') \<and> M d' = put_sectors s n b (M d))) \<and>
     (\<forall>d. \<exists>d'. dev_sync D d = (True, d') \<and> M d' = M d)"

section \<open>The cache\<close>

text \<open>\<open>c_bound\<close> says that \<open>m_blockDev\<close> is not null; \<open>c_dev\<close> is the state of the device.\<close>

record 'd cache =
  c_status :: byte
  c_bound :: bool
  c_sector :: "32 word"
  c_mirror :: "32 word"
  c_buffer :: "byte list"
  c_dev :: 'd

abbreviation (input) CACHE_STATUS_DIRTY :: byte where "CACHE_STATUS_DIRTY \<equiv> 1"
abbreviation (input) CACHE_STATUS_MIRROR_FAT :: byte where "CACHE_STATUS_MIRROR_FAT \<equiv> 2"
abbreviation (input) CACHE_STATUS_MASK :: byte where "CACHE_STATUS_MASK \<equiv> 3"
abbreviation (input) CACHE_OPTION_NO_READ :: byte where "CACHE_OPTION_NO_READ \<equiv> 4"
abbreviation (input) CACHE_FOR_READ :: byte where "CACHE_FOR_READ \<equiv> 0"
abbreviation (input) CACHE_FOR_WRITE :: byte where "CACHE_FOR_WRITE \<equiv> 1"
abbreviation (input) CACHE_RESERVE_FOR_WRITE :: byte where "CACHE_RESERVE_FOR_WRITE \<equiv> 5"

definition cache_isDirty :: "'d cache \<Rightarrow> bool" where
  "cache_isDirty c \<longleftrightarrow> c_status c AND CACHE_STATUS_DIRTY \<noteq> 0"

definition cache_dirty :: "'d cache \<Rightarrow> 'd cache" where
  "cache_dirty c = c\<lparr>c_status := c_status c OR CACHE_STATUS_DIRTY\<rparr>"

definition cache_invalidate :: "'d cache \<Rightarrow> 'd cache" where
  "cache_invalidate c = c\<lparr>c_status := 0, c_sector := 0xFFFFFFFF\<rparr>"

definition cache_init :: "bool \<Rightarrow> 'd cache \<Rightarrow> 'd cache" where
  "cache_init bound c = cache_invalidate (c\<lparr>c_bound := bound\<rparr>)"

definition cache_setMirrorOffset :: "32 word \<Rightarrow> 'd cache \<Rightarrow> 'd cache" where
  "cache_setMirrorOffset off c = c\<lparr>c_mirror := off\<rparr>"

definition isCached :: "'d cache \<Rightarrow> 32 word \<Rightarrow> bool" where
  "isCached c sector \<longleftrightarrow> sector = c_sector c"

text \<open>The range test adds in 32 bits.\<close>

definition isCached_range :: "'d cache \<Rightarrow> 32 word \<Rightarrow> nat \<Rightarrow> bool" where
  "isCached_range c sector count \<longleftrightarrow> sector \<le> c_sector c \<and> c_sector c < sector + word_of_nat count"

definition FsCache_sync :: "'d blockdev \<Rightarrow> 'd cache \<Rightarrow> bool \<times> 'd cache" where
  "FsCache_sync D c =
     (if c_status c AND CACHE_STATUS_DIRTY \<noteq> 0
      then let (ok, d) = dev_write D (c_dev c) (c_sector c) (c_buffer c);
               c = c\<lparr>c_dev := d\<rparr>
           in if \<not> ok then (False, c)
              else let (ok, c) =
                     (if c_status c AND CACHE_STATUS_MIRROR_FAT \<noteq> 0
                      then let (ok, d) = dev_write D (c_dev c) (c_sector c + c_mirror c) (c_buffer c)
                           in (ok, c\<lparr>c_dev := d\<rparr>)
                      else (True, c))
                   in if \<not> ok then (False, c)
                      else (True, c\<lparr>c_status := c_status c AND NOT CACHE_STATUS_DIRTY\<rparr>)
      else (True, c))"

text \<open>The flag says that the returned pointer, to the buffer, is not null.\<close>

definition FsCache_prepare :: "'d blockdev \<Rightarrow> 32 word \<Rightarrow> byte \<Rightarrow> 'd cache \<Rightarrow> bool \<times> 'd cache" where
  "FsCache_prepare D sector opt c =
     (if \<not> c_bound c then (False, c)
      else let (ok, c) =
             (if c_sector c \<noteq> sector
              then let (ok, c) = FsCache_sync D c
                   in if \<not> ok then (False, c)
                      else let (ok, c) =
                             (if opt AND CACHE_OPTION_NO_READ = 0
                              then let (ok, b, d) = dev_read D (c_dev c) sector
                                   in (ok, c\<lparr>c_buffer := b, c_dev := d\<rparr>)
                              else (True, c))
                           in if \<not> ok then (False, c) else (True, c\<lparr>c_status := 0, c_sector := sector\<rparr>)
              else (True, c))
           in if \<not> ok then (False, c) else (True, c\<lparr>c_status := c_status c OR (opt AND CACHE_STATUS_MASK)\<rparr>))"

definition cacheSafeRead :: "'d blockdev \<Rightarrow> 32 word \<Rightarrow> 'd cache \<Rightarrow> bool \<times> byte list \<times> 'd cache" where
  "cacheSafeRead D sector c =
     (if isCached c sector then (True, take 512 (c_buffer c), c)
      else let (ok, b, d) = dev_read D (c_dev c) sector in (ok, b, c\<lparr>c_dev := d\<rparr>))"

definition cacheSafeReads :: "'d blockdev \<Rightarrow> 32 word \<Rightarrow> nat \<Rightarrow> 'd cache \<Rightarrow> bool \<times> byte list \<times> 'd cache" where
  "cacheSafeReads D sector count c =
     (let (ok, c) = (if isCached_range c sector count then FsCache_sync D c else (True, c))
      in if \<not> ok then (False, [], c)
         else let (ok, b, d) = dev_reads D (c_dev c) sector count in (ok, b, c\<lparr>c_dev := d\<rparr>))"

definition cacheSafeWrite :: "'d blockdev \<Rightarrow> 32 word \<Rightarrow> byte list \<Rightarrow> 'd cache \<Rightarrow> bool \<times> 'd cache" where
  "cacheSafeWrite D sector src c =
     (let c = (if isCached c sector then cache_invalidate c else c);
          (ok, d) = dev_write D (c_dev c) sector src
      in (ok, c\<lparr>c_dev := d\<rparr>))"

definition cacheSafeWrites :: "'d blockdev \<Rightarrow> 32 word \<Rightarrow> byte list \<Rightarrow> nat \<Rightarrow> 'd cache \<Rightarrow> bool \<times> 'd cache" where
  "cacheSafeWrites D sector src count c =
     (let c = (if isCached_range c sector count then cache_invalidate c else c);
          (ok, d) = dev_writes D (c_dev c) sector count src
      in (ok, c\<lparr>c_dev := d\<rparr>))"

definition cache_clear :: "'d blockdev \<Rightarrow> 'd cache \<Rightarrow> bool \<times> 'd cache" where
  "cache_clear D c =
     (let (ok, c) = (if cache_isDirty c then FsCache_sync D c else (True, c))
      in if \<not> ok then (False, c) else (True, cache_invalidate c))"

section \<open>The flat store\<close>

text \<open>What a reader sees at each sector; the sector number of an empty cache is not a sector.\<close>

definition view :: "('d \<Rightarrow> 32 word \<Rightarrow> byte list) \<Rightarrow> 'd cache \<Rightarrow> 32 word \<Rightarrow> byte list" where
  "view M c s = (if s = c_sector c \<and> s \<noteq> 0xFFFFFFFF then c_buffer c else M (c_dev c) s)"

lemma view_cong:
  "c_sector c' = c_sector c \<Longrightarrow> c_buffer c' = c_buffer c \<Longrightarrow> M (c_dev c') = M (c_dev c) \<Longrightarrow> view M c' = view M c"
  by (rule ext) (simp only: view_def)

lemma view_status [simp]: "view M (c\<lparr>c_status := st\<rparr>) = view M c"
  by (rule view_cong) simp_all

text \<open>A clean cached sector equals the medium, and only a real sector is dirty.\<close>

definition coherent :: "('d \<Rightarrow> 32 word \<Rightarrow> byte list) \<Rightarrow> 'd cache \<Rightarrow> bool" where
  "coherent M c \<longleftrightarrow> c_bound c \<and> length (c_buffer c) = 512 \<and>
     (cache_isDirty c \<longrightarrow> c_sector c \<noteq> 0xFFFFFFFF) \<and>
     (\<not> cache_isDirty c \<and> c_sector c \<noteq> 0xFFFFFFFF \<longrightarrow> c_buffer c = M (c_dev c) (c_sector c))"

text \<open>The sector a sync copies the cached sector to, if any.\<close>

definition mirror_of :: "'d cache \<Rightarrow> 32 word option" where
  "mirror_of c = (if cache_isDirty c \<and> c_status c AND CACHE_STATUS_MIRROR_FAT \<noteq> 0
     then Some (c_sector c + c_mirror c) else None)"

lemma dev_works_ok: "dev_works D M \<Longrightarrow> dev_read D d s = (ok, b, d') \<Longrightarrow> ok \<and> b = M d s \<and> M d' = M d \<and> length b = 512"
  unfolding dev_works_def by (metis prod.inject)

lemma dev_works_write: "dev_works D M \<Longrightarrow> length b = 512 \<Longrightarrow> dev_write D d s b = (ok, d') \<Longrightarrow> ok \<and> M d' = (M d)(s := b)"
  unfolding dev_works_def by (metis prod.inject)

lemma dev_works_sync: "dev_works D M \<Longrightarrow> dev_sync D d = (ok, d') \<Longrightarrow> ok \<and> M d' = M d"
  unfolding dev_works_def by (metis prod.inject)

lemma dirty_bit: "cache_isDirty c \<longleftrightarrow> bit (c_status c) 0"
  by (simp add: cache_isDirty_def and.commute [of _ 1] one_and_eq odd_iff_mod_2_eq_one bit_0)

lemma mirror_bit: "c_status c AND 2 \<noteq> 0 \<longleftrightarrow> bit (c_status c) 1"
  using bit_iff_and_push_bit_not_eq_0 [of "c_status c" 1] by (simp add: push_bit_eq_mult)

text \<open>The flat store once the cached sector has been written back.\<close>

definition flushed :: "('d \<Rightarrow> 32 word \<Rightarrow> byte list) \<Rightarrow> 'd cache \<Rightarrow> 32 word \<Rightarrow> byte list" where
  "flushed M c = (case mirror_of c of None \<Rightarrow> view M c | Some m \<Rightarrow> (view M c)(m := c_buffer c))"

lemma coherent_clean:
  assumes "coherent M c" "\<not> cache_isDirty c"
  shows "view M c = M (c_dev c)"
proof (rule ext)
  fix s show "view M c s = M (c_dev c) s"
    using assms by (cases "s = c_sector c") (auto simp: coherent_def view_def)
qed

lemma sync_spec:
  assumes "dev_works D M" "coherent M c"
  shows "\<exists>c'. FsCache_sync D c = (True, c') \<and> coherent M c' \<and> \<not> cache_isDirty c' \<and>
    c_sector c' = c_sector c \<and> c_mirror c' = c_mirror c \<and> c_buffer c' = c_buffer c \<and>
    (bit (c_status c') 1 = bit (c_status c) 1) \<and> view M c' = flushed M c"
proof (cases "cache_isDirty c")
  case False
  then have "flushed M c = view M c" "FsCache_sync D c = (True, c)"
    by (simp_all add: flushed_def mirror_of_def FsCache_sync_def cache_isDirty_def)
  with False assms(2) show ?thesis by auto
next
  case True
  have L: "length (c_buffer c) = 512" and S: "c_sector c \<noteq> 0xFFFFFFFF" and B: "c_bound c"
    using assms(2) True by (auto simp: coherent_def)
  obtain d1 where d1: "dev_write D (c_dev c) (c_sector c) (c_buffer c) = (True, d1)"
    "M d1 = (M (c_dev c))(c_sector c := c_buffer c)"
    using assms(1) L unfolding dev_works_def by blast
  obtain d2 where d2: "dev_write D d1 (c_sector c + c_mirror c) (c_buffer c) = (True, d2)"
    "M d2 = (M d1)(c_sector c + c_mirror c := c_buffer c)"
    using assms(1) L unfolding dev_works_def by blast
  define st where "st = c_status c AND NOT 1"
  have st: "\<not> bit st 0" "bit st 1 = bit (c_status c) 1" by (simp_all add: st_def bit_simps)
  let ?m = "bit (c_status c) 1"
  let ?c = "c\<lparr>c_dev := (if ?m then d2 else d1), c_status := st\<rparr>"
  have e: "FsCache_sync D c = (True, ?c)"
    using True d1(1) d2(1) by (simp add: FsCache_sync_def cache_isDirty_def mirror_bit st_def)
  have clean: "\<not> cache_isDirty ?c" using st(1) by (simp add: dirty_bit)
  have coh: "coherent M ?c"
    using L B S clean d1(2) d2(2) by (auto simp: coherent_def)
  have "view M ?c = flushed M c"
    unfolding coherent_clean [OF coh clean]
    using True d1(2) d2(2) S by (auto simp: flushed_def mirror_of_def mirror_bit view_def fun_eq_iff)
  then show ?thesis using e coh clean st(2) by (intro exI [of _ ?c]) simp
qed

lemma prepare_spec:
  assumes "dev_works D M" "coherent M c" "sector \<noteq> 0xFFFFFFFF" "opt AND CACHE_OPTION_NO_READ = 0"
  shows "\<exists>c'. FsCache_prepare D sector opt c = (True, c') \<and> coherent M c' \<and> c_sector c' = sector \<and>
    c_mirror c' = c_mirror c \<and> view M c' = (if c_sector c = sector then view M c else flushed M c) \<and>
    c_buffer c' = view M c' sector \<and>
    c_status c' = (if c_sector c = sector then c_status c else 0) OR (opt AND CACHE_STATUS_MASK)"
proof (cases "c_sector c = sector")
  case True
  let ?c = "c\<lparr>c_status := c_status c OR (opt AND 3)\<rparr>"
  have d: "cache_isDirty c \<Longrightarrow> cache_isDirty ?c" by (simp add: dirty_bit bit_simps)
  have "coherent M ?c" using assms(2,3) True d by (auto simp: coherent_def)
  moreover have "FsCache_prepare D sector opt c = (True, ?c)"
    using True assms(2) by (simp add: FsCache_prepare_def coherent_def)
  ultimately show ?thesis using True assms(3) by (intro exI [of _ ?c]) (simp add: view_def)
next
  case False
  obtain c1 where c1: "FsCache_sync D c = (True, c1)" "coherent M c1" "\<not> cache_isDirty c1"
    "c_mirror c1 = c_mirror c" "view M c1 = flushed M c"
    using sync_spec [OF assms(1,2)] by blast
  obtain d where d: "dev_read D (c_dev c1) sector = (True, M (c_dev c1) sector, d)" "M d = M (c_dev c1)"
    using assms(1) unfolding dev_works_def by blast
  have v1: "view M c1 = M (c_dev c1)" by (rule coherent_clean [OF c1(2,3)])
  let ?c = "c1\<lparr>c_buffer := M (c_dev c1) sector, c_dev := d, c_status := 0 OR (opt AND 3), c_sector := sector\<rparr>"
  have l: "length (M (c_dev c1) sector) = 512" using assms(1) by (simp add: dev_works_def)
  have "FsCache_prepare D sector opt c = (True, ?c)"
    using False assms(2,4) c1(1) d(1) by (simp add: FsCache_prepare_def coherent_def)
  moreover have "coherent M ?c" using c1(2) l d(2) assms(3) by (auto simp: coherent_def)
  moreover have "view M ?c = M (c_dev c1)" using d(2) by (auto simp: view_def fun_eq_iff)
  ultimately show ?thesis using False v1 c1(4,5) assms(3) by (intro exI [of _ ?c]) (simp add: view_def)
qed

text \<open>Reserving a sector for writing does not read it: the buffer keeps the bytes of the sector before.\<close>

lemma prepare_reserve_spec:
  assumes "dev_works D M" "coherent M c" "sector \<noteq> 0xFFFFFFFF"
  shows "\<exists>c'. FsCache_prepare D sector CACHE_RESERVE_FOR_WRITE c = (True, c') \<and> coherent M c' \<and> c_sector c' = sector \<and>
    c_mirror c' = c_mirror c \<and> c_buffer c' = c_buffer c \<and> cache_isDirty c' \<and>
    view M c' = (if c_sector c = sector then view M c else (flushed M c)(sector := c_buffer c)) \<and>
    c_status c' = (if c_sector c = sector then c_status c else 0) OR 1"
proof (cases "c_sector c = sector")
  case True
  let ?c = "c\<lparr>c_status := c_status c OR 1\<rparr>"
  have "cache_isDirty ?c" by (simp add: dirty_bit bit_simps)
  moreover from this have "coherent M ?c" using assms(2,3) True by (auto simp: coherent_def)
  moreover have "FsCache_prepare D sector 5 c = (True, ?c)"
    using True assms(2) by (simp add: FsCache_prepare_def coherent_def)
  ultimately show ?thesis using True by (intro exI [of _ ?c]) (simp add: view_def)
next
  case False
  obtain c1 where c1: "FsCache_sync D c = (True, c1)" "coherent M c1" "\<not> cache_isDirty c1"
    "c_mirror c1 = c_mirror c" "view M c1 = flushed M c" "c_buffer c1 = c_buffer c"
    using sync_spec [OF assms(1,2)] by blast
  have v1: "view M c1 = M (c_dev c1)" by (rule coherent_clean [OF c1(2,3)])
  let ?c = "c1\<lparr>c_status := 1, c_sector := sector\<rparr>"
  have "FsCache_prepare D sector 5 c = (True, ?c)"
    using False assms(2) c1(1) by (simp add: FsCache_prepare_def coherent_def)
  moreover have "cache_isDirty ?c" by (simp add: dirty_bit)
  moreover from this have "coherent M ?c" using c1(2) assms(3) by (auto simp: coherent_def)
  moreover have "view M ?c = (M (c_dev c1))(sector := c_buffer c)" using assms(3) c1(6) by (auto simp: view_def fun_eq_iff)
  ultimately show ?thesis using False v1 c1(4-6) by (intro exI [of _ ?c]) simp
qed

text \<open>Changing the buffer of a dirty cache is a write to the flat store.\<close>

lemma buffer_write:
  assumes "coherent M c" "cache_isDirty c" "length b = 512"
  shows "coherent M (c\<lparr>c_buffer := b\<rparr>)" "view M (c\<lparr>c_buffer := b\<rparr>) = (view M c)(c_sector c := b)"
  using assms by (auto simp: coherent_def view_def fun_eq_iff cache_isDirty_def)
end
