(* ===== verification/StreamProtocol.thy ===== *)
theory StreamProtocol
  imports Prelude
begin

text \<open>
  The packet format of \<open>lib/StreamProtocol/StreamProtocol.cpp\<close>: an 8-byte little-endian header
  (version, 45-bit packet length, fragment flag, payload type, user field), the payload and a
  CRC-32 of both. \<open>sp_encode_packet_buffer\<close> and \<open>sp_parse_packet\<close> keep the widths of the C code
  (\<open>uint8_t\<close>, \<open>uint16_t\<close>, \<open>uint32_t\<close>, \<open>uint64_t\<close> are words). A pointer that may be null is an
  option; \<open>packet\<close> and \<open>out_buffer\<close> are the arrays themselves.
\<close>

section \<open>Constants and types\<close>

abbreviation (input) SP_HEADER_SIZE :: nat where "SP_HEADER_SIZE \<equiv> 8"
abbreviation (input) SP_FRAGED :: byte where "SP_FRAGED \<equiv> 1"
abbreviation (input) SP_UNFRAGED :: byte where "SP_UNFRAGED \<equiv> 0"
abbreviation (input) SP_MAX_HEADER_LENGTH_VALUE :: "64 word" where
  "SP_MAX_HEADER_LENGTH_VALUE \<equiv> 0x1FFFFFFFFFFF"

datatype sp_result =
    SP_OK
  | SP_ERR_BUFFER_TOO_SMALL
  | SP_ERR_PAYLOAD_TOO_LARGE
  | SP_ERR_INVALID_ARGUMENT
  | SP_ERR_LENGTH_MISMATCH
  | SP_ERR_CRC_MISMATCH

record sp_parsed_packet =
  protocol_version :: byte
  packet_length :: "64 word"
  fragment_flag :: byte
  payload_type :: byte
  user_field :: "16 word"
  payload :: "byte list"
  payload_length :: "32 word"

text \<open>The contents of a fresh output structure; every successful parse overwrites all of it.\<close>

definition sp_blank_packet :: sp_parsed_packet where
  "sp_blank_packet = \<lparr> protocol_version = 0, packet_length = 0, fragment_flag = 0,
     payload_type = 0, user_field = 0, payload = [], payload_length = 0 \<rparr>"

section \<open>CRC-32\<close>

definition crc_bit :: "32 word \<Rightarrow> 32 word" where
  "crc_bit crc = (let mask = 0 - (crc AND 1) in drop_bit 1 crc XOR (0xEDB88320 AND mask))"

definition crc_byte :: "32 word \<Rightarrow> byte \<Rightarrow> 32 word" where
  "crc_byte crc b = (crc_bit ^^ 8) (crc XOR ucast b)"

definition sp_crc32 :: "byte list \<Rightarrow> nat \<Rightarrow> 32 word" where
  "sp_crc32 data len = NOT (foldl crc_byte 0xFFFFFFFF (take len data))"

section \<open>Little-endian byte strings\<close>

definition le_bytes :: "nat \<Rightarrow> 'a::len word \<Rightarrow> byte list" where
  "le_bytes n w = map (\<lambda>i. ucast (drop_bit (8 * i) w AND 0xFF)) [0..<n]"

definition le_word :: "nat \<Rightarrow> byte list \<Rightarrow> 'a::len word" where
  "le_word n bs = foldl (\<lambda>acc i. acc OR push_bit (8 * i) (ucast (bs ! i))) 0 [0..<n]"

section \<open>Encoding\<close>

definition sp_header_value ::
    "64 word \<Rightarrow> byte \<Rightarrow> byte \<Rightarrow> 16 word \<Rightarrow> 64 word" where
  "sp_header_value total_len_64 frag_flag ptype ufield =
     ((ucast (1 :: byte) AND 0x0F)
      OR push_bit 4 (total_len_64 AND 0x1FFFFFFFFFFF)
      OR push_bit 49 (ucast frag_flag AND 0x01)
      OR push_bit 50 (ucast ptype AND 0x0F)
      OR push_bit 54 (ucast ufield AND 0x3FF))"

definition sp_packet :: "byte list \<Rightarrow> byte \<Rightarrow> byte \<Rightarrow> 16 word \<Rightarrow> byte list" where
  "sp_packet pl frag_flag ptype ufield =
     (let total = word_of_nat (SP_HEADER_SIZE + length pl + 4) :: 64 word;
          body = le_bytes 8 (sp_header_value total frag_flag ptype ufield) @ pl
      in body @ le_bytes 4 (sp_crc32 body (length body)))"

definition sp_encode_packet_buffer ::
    "byte list option \<Rightarrow> 32 word \<Rightarrow> byte \<Rightarrow> byte \<Rightarrow> 16 word \<Rightarrow>
     byte list option \<Rightarrow> 32 word \<Rightarrow> 32 word option \<Rightarrow>
     sp_result \<times> byte list option \<times> 32 word option" where
  "sp_encode_packet_buffer payload_p plen frag_flag ptype ufield out_buffer cap out_length =
    (case (out_buffer, out_length) of
       (Some ob, Some ol) \<Rightarrow>
         if payload_p = None \<and> plen > 0 then (SP_ERR_INVALID_ARGUMENT, out_buffer, out_length)
         else if frag_flag \<noteq> SP_FRAGED \<and> frag_flag \<noteq> SP_UNFRAGED
           then (SP_ERR_INVALID_ARGUMENT, out_buffer, out_length)
         else if ptype > 0x0F then (SP_ERR_INVALID_ARGUMENT, out_buffer, out_length)
         else if ufield > 0x3FF then (SP_ERR_INVALID_ARGUMENT, out_buffer, out_length)
         else
           let total_len_64 = (8 + ucast plen + 4 :: 64 word) in
           if total_len_64 > ucast cap then (SP_ERR_BUFFER_TOO_SMALL, out_buffer, out_length)
           else if total_len_64 > SP_MAX_HEADER_LENGTH_VALUE
             then (SP_ERR_PAYLOAD_TOO_LARGE, out_buffer, out_length)
           else
             let total_len = (ucast total_len_64 :: 32 word);
                 header_value = sp_header_value total_len_64 frag_flag ptype ufield;
                 ob1 = put_at 0 (le_bytes 8 header_value) ob;
                 ob2 = (if plen > 0
                        then put_at SP_HEADER_SIZE (take (unat plen) (the payload_p)) ob1
                        else ob1);
                 crc = sp_crc32 ob2 (unat (8 + plen));
                 crc_offset = total_len - 4;
                 ob3 = put_at (unat crc_offset) (le_bytes 4 crc) ob2
             in (SP_OK, Some ob3, Some total_len)
     | _ \<Rightarrow> (SP_ERR_INVALID_ARGUMENT, out_buffer, out_length))"

section \<open>Parsing\<close>

definition sp_parse_packet ::
    "byte list option \<Rightarrow> 32 word \<Rightarrow> sp_parsed_packet option \<Rightarrow>
     sp_result \<times> sp_parsed_packet option" where
  "sp_parse_packet packet_p packet_len out_packet =
    (case (packet_p, out_packet) of
       (Some packet, Some out) \<Rightarrow>
         if packet_len < 8 + 4 then (SP_ERR_BUFFER_TOO_SMALL, out_packet)
         else
           let header_value = (le_word 8 packet :: 64 word);
               proto_version = (ucast (header_value AND 0x0F) :: byte);
               packet_length64 = drop_bit 4 header_value AND 0x1FFFFFFFFFFF;
               frag = (ucast (drop_bit 49 header_value AND 0x01) :: byte);
               ptype = (ucast (drop_bit 50 header_value AND 0x0F) :: byte);
               ufield = (ucast (drop_bit 54 header_value AND 0x3FF) :: 16 word)
           in
           if packet_length64 < 8 + 4 then (SP_ERR_BUFFER_TOO_SMALL, out_packet)
           else if ucast packet_len < packet_length64 then (SP_ERR_BUFFER_TOO_SMALL, out_packet)
           else
             let packet_length32 = (ucast packet_length64 :: 32 word);
                 crc_offset = packet_length32 - 4;
                 received_crc = (le_word 4 (drop (unat crc_offset) packet) :: 32 word);
                 computed_crc = sp_crc32 packet (unat (packet_length32 - 4))
             in
             if computed_crc \<noteq> received_crc then (SP_ERR_CRC_MISMATCH, out_packet)
             else (SP_OK, Some \<lparr> protocol_version = proto_version,
                                 packet_length = packet_length64,
                                 fragment_flag = frag,
                                 payload_type = ptype,
                                 user_field = ufield,
                                 payload = drop SP_HEADER_SIZE packet,
                                 payload_length = packet_length32 - 8 - 4 \<rparr>)
     | _ \<Rightarrow> (SP_ERR_INVALID_ARGUMENT, out_packet))"

text \<open>The argument ranges \<open>sp_encode_packet_buffer\<close> accepts.\<close>

definition sp_args_ok :: "byte \<Rightarrow> byte \<Rightarrow> 16 word \<Rightarrow> bool" where
  "sp_args_ok fr pt uf \<longleftrightarrow>
     (fr = SP_FRAGED \<or> fr = SP_UNFRAGED) \<and> pt \<le> 0x0F \<and> uf \<le> 0x3FF"

section \<open>Little-endian round trip\<close>


lemma length_le_bytes [simp]: "length (le_bytes n w) = n"
  by (simp add: le_bytes_def)

lemma nth_le_bytes [simp]:
  "i < n \<Longrightarrow> le_bytes n w ! i = ucast (drop_bit (8 * i) w AND 0xFF)"
  by (simp add: le_bytes_def)

lemma bit_le_bytes:
  fixes w :: "'a::len word"
  assumes "i < n"
  shows "bit (le_bytes n w ! i) j = (j < 8 \<and> bit w (8 * i + j))"
proof -
  have len: "bit w (8 * i + j) \<Longrightarrow> j < LENGTH('a)"
    using bit_imp_le_length [of w "8 * i + j"] by simp
  show ?thesis
    using assms len by (auto simp: bit_simps and_masks)
qed

lemma bit_le_word:
  "bit (le_word n bs :: 'a::len word) k =
     (k < LENGTH('a) \<and> k < 8 * n \<and> bit (bs ! (k div 8)) (k mod 8))"
proof (induction n)
  case 0
  then show ?case by (simp add: le_word_def)
next
  case (Suc n)
  have "(le_word (Suc n) bs :: 'a word) = le_word n bs OR push_bit (8 * n) (ucast (bs ! n))"
    by (simp add: le_word_def)
  moreover have "bit (push_bit (8 * n) (ucast (bs ! n)) :: 'a word) k =
      (k < LENGTH('a) \<and> 8 * n \<le> k \<and> k < 8 * Suc n \<and> bit (bs ! (k div 8)) (k mod 8))"
  proof (cases "8 * n \<le> k \<and> k < 8 * Suc n")
    case True
    then have d: "k div 8 = n" by auto
    then have "k mod 8 = k - 8 * n" using mult_div_mod_eq [of 8 k] by simp
    note this d
    with True show ?thesis by (auto simp: bit_simps)
  next
    case False
    then show ?thesis by (auto simp: bit_simps)
  qed
  ultimately show ?case using Suc by (auto simp: bit_simps)
qed

lemma le_word_le_bytes:
  assumes "8 * n = LENGTH('a)"
  shows "le_word n (le_bytes n w @ rest) = (w :: 'a::len word)"
proof (rule bit_word_eqI)
  fix k assume k: "k < LENGTH('a)"
  with assms have "k div 8 < n" by (simp add: less_mult_imp_div_less mult.commute)
  then have "bit ((le_bytes n w @ rest) ! (k div 8)) (k mod 8) = bit w (8 * (k div 8) + k mod 8)"
    by (simp add: nth_append bit_le_bytes del: nth_le_bytes)
  then show "bit (le_word n (le_bytes n w @ rest) :: 'a word) k = bit w k"
    using k assms by (simp add: bit_le_word)
qed

lemma le_word_cong:
  "(\<And>i. i < n \<Longrightarrow> bs ! i = bs' ! i) \<Longrightarrow> le_word n bs = le_word n bs'"
  unfolding le_word_def by (rule foldl_cong) auto


section \<open>Header fields\<close>

lemma sp_header_version:
  "(ucast (sp_header_value tot fr pt uf AND 0x0F) :: byte) = 1"
proof (rule bit_word_eqI)
  fix n assume "n < LENGTH(8)"
  then show "bit (ucast (sp_header_value tot fr pt uf AND 0x0F) :: byte) n = bit 1 n"
    by (auto simp: sp_header_value_def and_masks bit_simps)
qed

lemma sp_header_length:
  "drop_bit 4 (sp_header_value tot fr pt uf) AND 0x1FFFFFFFFFFF = take_bit 45 tot"
  by (rule bit_word_eqI) (auto simp: sp_header_value_def and_masks bit_simps)

lemma sp_header_frag:
  "(ucast (drop_bit 49 (sp_header_value tot fr pt uf) AND 0x01) :: byte) = take_bit 1 fr"
proof (rule bit_word_eqI)
  fix n assume "n < LENGTH(8)"
  have "bit (sp_header_value tot fr pt uf) 49 = bit fr 0"
    unfolding sp_header_value_def and_masks by (simp add: bit_simps del: take_bit_Suc_0 take_bit_of_1 flip: One_nat_def)
  then show "bit (ucast (drop_bit 49 (sp_header_value tot fr pt uf) AND 0x01) :: byte) n
      = bit (take_bit 1 fr) n"
    unfolding and_masks by (cases n) (simp_all add: bit_simps del: take_bit_Suc_0)
qed

lemma sp_header_ptype:
  "(ucast (drop_bit 50 (sp_header_value tot fr pt uf) AND 0x0F) :: byte) = take_bit 4 pt"
  by (rule bit_word_eqI) (auto simp: sp_header_value_def and_masks bit_simps)

lemma sp_header_ufield:
  "(ucast (drop_bit 54 (sp_header_value tot fr pt uf) AND 0x3FF) :: 16 word) = take_bit 10 uf"
  by (rule bit_word_eqI) (auto simp: sp_header_value_def and_masks bit_simps)

lemmas sp_header_fields =
  sp_header_version sp_header_length sp_header_frag sp_header_ptype sp_header_ufield


section \<open>Encoding and parsing whole packets\<close>

lemma length_sp_packet [simp]: "length (sp_packet pl fr pt uf) = 12 + length pl"
  by (simp add: sp_packet_def Let_def)

lemma sp_crc32_append [simp]: "n \<le> length xs \<Longrightarrow> sp_crc32 (xs @ ys) n = sp_crc32 xs n"
  by (simp add: sp_crc32_def)

lemma sp_crc32_take: "n \<le> m \<Longrightarrow> sp_crc32 (take m xs) n = sp_crc32 xs n"
  by (simp add: sp_crc32_def min_def)

lemma total_len_64_unat:
  fixes plen :: "32 word"
  shows "unat (8 + ucast plen + 4 :: 64 word) = 12 + unat plen"
  using unat_bound [of plen] by (simp add: unat_word_ariths unat_ucast_up)

lemma sp_encode_ok:
  assumes plen: "unat plen = length pl" and fr: "fr = SP_FRAGED \<or> fr = SP_UNFRAGED"
    and pt: "pt \<le> 0x0F" and uf: "uf \<le> 0x3FF"
    and cap: "12 + length pl \<le> unat cap" "unat cap \<le> length ob"
  shows "sp_encode_packet_buffer (Some pl) plen fr pt uf (Some ob) cap (Some ol)
    = (SP_OK, Some (put_at 0 (sp_packet pl fr pt uf) ob), Some (word_of_nat (12 + length pl)))"
proof -
  define tot where "tot = (8 + ucast plen + 4 :: 64 word)"
  have tot: "unat tot = 12 + length pl"
    using total_len_64_unat [of plen] plen by (simp add: tot_def)
  have lt: "12 + length pl < 2 ^ 32" using cap unat_bound [of cap] by simp
  have "unat (word_of_nat (8 + length pl + 4) :: 64 word) = 8 + length pl + 4"
    by (rule unat_of_nat_small) (use lt in simp)
  with tot have tot_word: "tot = word_of_nat (8 + length pl + 4)"
    by (intro word_unat_eqI) simp
  have le_cap: "\<not> ucast cap < tot"
    using tot cap by (simp add: word_less_nat_alt unat_ucast_up)
  have le_max: "\<not> SP_MAX_HEADER_LENGTH_VALUE < tot"
    using tot lt by (simp add: word_less_nat_alt)
  have n32: "unat (word_of_nat (12 + length pl) :: 32 word) = 12 + length pl"
    by (rule unat_of_nat_small) (use lt in simp)
  have t32: "(ucast tot :: 32 word) = word_of_nat (12 + length pl)"
    by (rule word_unat_eqI) (simp only: n32, use tot lt in \<open>simp add: unat_ucast_down\<close>)
  have "unat (w - 4) = 8 + length pl" if "unat w = 12 + length pl" for w :: "32 word"
    using that by (simp add: unat_sub word_le_nat_alt)
  from this [OF n32]
  have off: "unat (word_of_nat (12 + length pl) - 4 :: 32 word) = 8 + length pl" .
  have plen8: "unat (8 + plen) = 8 + length pl"
    using plen lt by (simp add: unat_word_ariths)
  define body where "body = le_bytes 8 (sp_header_value tot fr pt uf) @ pl"
  have lb: "length body = 8 + length pl" by (simp add: body_def)
  have ob2: "(if 0 < plen then put_at 8 (take (unat plen) (the (Some pl)))
        (put_at 0 (le_bytes 8 (sp_header_value tot fr pt uf)) ob)
      else put_at 0 (le_bytes 8 (sp_header_value tot fr pt uf)) ob) = put_at 0 body ob"
    using plen cap by (auto simp: body_def put_at_put_at word_greater_zero_iff unat_eq_0)
  have crc: "sp_crc32 (put_at 0 body ob) (8 + length pl) = sp_crc32 body (length body)"
    using lb by (simp add: put_at_def)
  have ob3: "put_at (8 + length pl) (le_bytes 4 c) (put_at 0 body ob)
      = put_at 0 (body @ le_bytes 4 c) ob" for c :: "32 word"
    using lb cap by (simp add: put_at_put_at)
  have pkt: "sp_packet pl fr pt uf = body @ le_bytes 4 (sp_crc32 body (length body))"
    by (simp only: sp_packet_def Let_def body_def tot_word)
  show ?thesis
    unfolding sp_encode_packet_buffer_def Let_def tot_def [symmetric] t32 off plen8 pkt
    using fr pt uf le_cap le_max
    by (simp only: ob2 crc ob3 option.case prod.case) (auto simp: not_less)
qed


lemma take_bit_args:
  assumes "sp_args_ok fr pt uf"
  shows "take_bit 1 fr = fr" "take_bit 4 pt = pt" "take_bit 10 uf = uf"
  using assms by (auto simp: sp_args_ok_def word_le_nat_alt intro!: take_bit_word_small)

lemma packet_header_word:
  assumes "take 8 p = take 8 (sp_packet pl fr pt uf)" "8 \<le> length p"
  shows "(le_word 8 p :: 64 word) = sp_header_value (word_of_nat (12 + length pl)) fr pt uf"
proof -
  have nth: "p ! i = (le_bytes 8 (sp_header_value (word_of_nat (8 + length pl + 4)) fr pt uf) @ []) ! i"
    if "i < 8" for i
  proof -
    have "p ! i = take 8 p ! i" using that by simp
    also have "\<dots> = le_bytes 8 (sp_header_value (word_of_nat (8 + length pl + 4)) fr pt uf) ! i"
      unfolding assms(1) using that by (simp add: sp_packet_def Let_def nth_append del: nth_le_bytes)
    finally show ?thesis by simp
  qed
  have "(le_word 8 p :: 64 word)
      = le_word 8 (le_bytes 8 (sp_header_value (word_of_nat (8 + length pl + 4)) fr pt uf) @ [])"
    using nth by (rule le_word_cong)
  also have "\<dots> = sp_header_value (word_of_nat (8 + length pl + 4)) fr pt uf"
    by (rule le_word_le_bytes) simp
  finally show ?thesis by (simp add: ac_simps)
qed

lemma take_bit_total:
  assumes "12 + n < 2 ^ 32"
  shows "take_bit 45 (word_of_nat (12 + n) :: 64 word) = word_of_nat (12 + n)"
    "unat (word_of_nat (12 + n) :: 64 word) = 12 + n"
    "unat (word_of_nat (12 + n) :: 32 word) = 12 + n"
    "(ucast (word_of_nat (12 + n) :: 64 word) :: 32 word) = word_of_nat (12 + n)"
proof -
  show a: "unat (word_of_nat (12 + n) :: 64 word) = 12 + n"
    by (rule unat_of_nat_small) (use assms in simp)
  show b: "unat (word_of_nat (12 + n) :: 32 word) = 12 + n"
    by (rule unat_of_nat_small) (use assms in simp)
  show "take_bit 45 (word_of_nat (12 + n) :: 64 word) = word_of_nat (12 + n)"
    by (rule take_bit_word_small) (simp only: a, use assms in simp)
  show "(ucast (word_of_nat (12 + n) :: 64 word) :: 32 word) = word_of_nat (12 + n)"
    by (rule word_unat_eqI) (subst unat_ucast_down, simp_all only: a b, use assms in simp)
qed

lemma sp_parse_incomplete:
  assumes hd: "take 8 p = take 8 (sp_packet pl fr pt uf)" "8 \<le> length p"
    and short: "unat n < 12 + length pl" "12 + length pl < 2 ^ 32"
  shows "sp_parse_packet (Some p) n (Some out) = (SP_ERR_BUFFER_TOO_SMALL, Some out)"
proof -
  note t = take_bit_total [OF short(2)]
  have "\<not> (word_of_nat (12 + length pl) :: 64 word) < 12"
    by (simp only: word_less_nat_alt t) simp
  moreover have "ucast n < (word_of_nat (12 + length pl) :: 64 word)"
    using short by (simp only: word_less_nat_alt t) (simp add: unat_ucast_up)
  ultimately show ?thesis
    by (simp add: sp_parse_packet_def Let_def packet_header_word [OF hd] sp_header_length t
        del: of_nat_add)
qed

lemma sp_parse_complete:
  assumes args: "sp_args_ok fr pt uf"
    and len: "12 + length pl \<le> unat n"
  shows "sp_parse_packet (Some (sp_packet pl fr pt uf @ rest)) n (Some out) =
    (SP_OK, Some \<lparr> protocol_version = 1, packet_length = word_of_nat (12 + length pl),
       fragment_flag = fr, payload_type = pt, user_field = uf,
       payload = drop 8 (sp_packet pl fr pt uf) @ rest,
       payload_length = word_of_nat (length pl) \<rparr>)"
proof -
  define p where "p = sp_packet pl fr pt uf @ rest"
  have small: "12 + length pl < 2 ^ 32" using len unat_bound [of n] by simp
  note t = take_bit_total [OF small]
  have hd: "(le_word 8 p :: 64 word) = sp_header_value (word_of_nat (12 + length pl)) fr pt uf"
    by (rule packet_header_word) (simp_all add: p_def)
  have c1: "\<not> n < 8 + 4" using len by (simp add: word_less_nat_alt)
  have c2: "\<not> (word_of_nat (12 + length pl) :: 64 word) < 8 + 4"
    by (simp only: word_less_nat_alt t) simp
  have c3: "\<not> ucast n < (word_of_nat (12 + length pl) :: 64 word)"
    using len by (simp only: word_less_nat_alt t) (simp add: unat_ucast_up)
  have "unat (w - 4) = 8 + length pl" if "unat w = 12 + length pl" for w :: "32 word"
    using that by (simp add: unat_sub word_le_nat_alt)
  note off = this [OF t(3)]
  define body where "body = le_bytes 8 (sp_header_value (word_of_nat (8 + length pl + 4)) fr pt uf) @ pl"
  have lb: "length body = 8 + length pl" by (simp add: body_def)
  have p: "p = body @ le_bytes 4 (sp_crc32 body (length body)) @ rest"
    by (simp add: p_def sp_packet_def Let_def body_def)
  have crc1: "(le_word 4 (drop (8 + length pl) p) :: 32 word) = sp_crc32 body (length body)"
    by (simp add: p lb le_word_le_bytes)
  have crc2: "sp_crc32 p (8 + length pl) = sp_crc32 body (length body)"
    by (simp add: p lb)
  have "w - 8 - 4 = word_of_nat (length pl)" if "w = word_of_nat (12 + length pl)" for w :: "32 word"
    using that by simp
  note pln = this [OF refl]
  have dr: "drop 8 p = drop 8 (sp_packet pl fr pt uf) @ rest"
    by (simp add: p_def)
  show ?thesis
    by (simp only: sp_parse_packet_def Let_def p_def [symmetric] hd sp_header_fields t off
        take_bit_args [OF args] option.case prod.case c1 c2 c3 if_False crc1 crc2 pln dr simp_thms)
qed


section \<open>The CRC is injective in every single byte\<close>

lemma crc_bit_alt:
  "crc_bit c = (if bit c 0 then drop_bit 1 c XOR 0xEDB88320 else drop_bit 1 c)"
proof -
  have "c AND 1 = of_bool (odd c)" by (simp add: and_one_eq mod_2_eq_odd)
  then show ?thesis by (simp add: crc_bit_def bit_0)
qed

lemma crc_bit_top: "bit (crc_bit c) 31 = bit c 0"
proof -
  have "bit (0xEDB88320 :: 32 word) 31" by (simp add: bit_iff_odd) 
  moreover have "\<not> bit (drop_bit 1 c) 31" by (auto simp: bit_simps dest: bit_imp_le_length)
  ultimately show ?thesis by (simp add: crc_bit_alt bit_xor_iff)
qed

lemma inj_crc_bit: "crc_bit c = crc_bit d \<Longrightarrow> c = d"
proof (rule bit_word_eqI)
  fix n assume eq: "crc_bit c = crc_bit d" and n: "n < LENGTH(32)"
  have b0: "bit c 0 = bit d 0" using eq crc_bit_top by metis
  with eq have "drop_bit 1 c = drop_bit 1 d"
    by (auto simp: crc_bit_alt xor_right_cancel split: if_splits)
  then have "bit (drop_bit 1 c) (n - 1) = bit (drop_bit 1 d) (n - 1)" by simp
  with b0 show "bit c n = bit d n" by (cases n) (auto simp: bit_drop_bit_eq)
qed

lemma inj_crc_bits: "(crc_bit ^^ k) c = (crc_bit ^^ k) d \<Longrightarrow> c = d"
  by (induction k) (auto dest: inj_crc_bit)

lemma crc_byte_inj_state: "crc_byte c b = crc_byte d b \<Longrightarrow> c = d"
  unfolding crc_byte_def by (drule inj_crc_bits) (simp add: xor_right_cancel)

lemma crc_byte_inj_data: "crc_byte c a = crc_byte c b \<Longrightarrow> a = b"
proof -
  assume "crc_byte c a = crc_byte c b"
  then have "(ucast a :: 32 word) = ucast b"
    unfolding crc_byte_def by (drule_tac inj_crc_bits) (simp add: xor_left_cancel)
  then have "unat (ucast a :: 32 word) = unat (ucast b :: 32 word)" by simp
  then show "a = b" by (intro word_unat_eqI) (simp add: unat_ucast_up)
qed

lemma crc_fold_inj: "foldl crc_byte c xs = foldl crc_byte d xs \<Longrightarrow> c = d"
  by (induction xs arbitrary: c d) (auto dest: crc_byte_inj_state)

lemma sp_crc32_one_byte:
  assumes "i < n" "n \<le> length xs" "v \<noteq> xs ! i"
  shows "sp_crc32 (xs[i := v]) n \<noteq> sp_crc32 xs n"
proof
  assume eq: "sp_crc32 (xs[i := v]) n = sp_crc32 xs n"
  define ys where "ys = take n xs"
  have i: "i < length ys" using assms by (simp add: ys_def)
  have v: "v \<noteq> ys ! i" using assms by (simp add: ys_def)
  have "take n (xs[i := v]) = ys[i := v]" by (simp add: ys_def take_update_swap)
  with eq have "NOT (foldl crc_byte 0xFFFFFFFF (ys[i := v])) = NOT (foldl crc_byte 0xFFFFFFFF ys)"
    unfolding sp_crc32_def by (simp add: ys_def)
  then have f: "foldl crc_byte 0xFFFFFFFF (ys[i := v]) = foldl crc_byte 0xFFFFFFFF ys"
    by (metis bit.double_compl)
  let ?c = "foldl crc_byte 0xFFFFFFFF (take i ys)"
  have a: "foldl crc_byte 0xFFFFFFFF ys = foldl crc_byte (crc_byte ?c (ys ! i)) (drop (Suc i) ys)"
    by (subst id_take_nth_drop [OF i]) (simp del: append_take_drop_id)
  have b: "foldl crc_byte 0xFFFFFFFF (ys[i := v]) = foldl crc_byte (crc_byte ?c v) (drop (Suc i) ys)"
    by (subst upd_conv_take_nth_drop [OF i]) simp
  from f [unfolded a b] have "crc_byte ?c v = crc_byte ?c (ys ! i)"
    by (rule crc_fold_inj)
  then show False using v crc_byte_inj_data by blast
qed

lemma sp_parse_SP_OK:
  assumes "sp_parse_packet (Some p) n (Some out) = (SP_OK, Some q)"
  shows "12 \<le> unat n" "12 \<le> unat (packet_length q)" "unat (packet_length q) \<le> unat n"
    "packet_length q = drop_bit 4 (le_word 8 p) AND 0x1FFFFFFFFFFF"
    "unat (payload_length q) = unat (packet_length q) - 12"
    "payload q = drop 8 p"
    "sp_crc32 p (unat (packet_length q) - 4) = le_word 4 (drop (unat (packet_length q) - 4) p)"
proof -
  define l where "l = drop_bit 4 (le_word 8 p :: 64 word) AND 0x1FFFFFFFFFFF"
  note e = assms [unfolded sp_parse_packet_def Let_def option.case prod.case, folded l_def]
  from e have c1: "\<not> n < 8 + 4" by (rule contrapos_pn) simp
  note e = e [unfolded if_not_P [OF c1]]
  from e have c2: "\<not> l < 8 + 4" by (rule contrapos_pn) simp
  note e = e [unfolded if_not_P [OF c2]]
  from e have c3: "\<not> ucast n < l" by (rule contrapos_pn) simp
  note e = e [unfolded if_not_P [OF c3]]
  from e have crc: "sp_crc32 p (unat (ucast l - 4 :: 32 word))
      = le_word 4 (drop (unat (ucast l - 4 :: 32 word)) p)"
    by (rule contrapos_pp) simp
  note e = e [unfolded crc]
  from e have ql: "packet_length q = l" and qp: "payload q = drop 8 p"
    and qn: "payload_length q = ucast l - 8 - 4"
    by auto
  note c = c1 c2 c3
  show "12 \<le> unat n" using c by (simp add: word_less_nat_alt)
  show l12: "12 \<le> unat (packet_length q)" using c ql by (simp add: word_less_nat_alt)
  show ln: "unat (packet_length q) \<le> unat n"
    using c ql by (simp add: word_less_nat_alt unat_ucast_up)
  show "packet_length q = drop_bit 4 (le_word 8 p) AND 0x1FFFFFFFFFFF"
    by (simp add: ql l_def)
  show "payload q = drop 8 p" by (rule qp)
  have u: "unat (ucast l :: 32 word) = unat l"
    using ln ql unat_bound [of n] by (intro unat_ucast_down) simp
  show "unat (payload_length q) = unat (packet_length q) - 12"
    using l12 by (simp add: qn ql unat_sub word_le_nat_alt u)
  have "unat (ucast l - 4 :: 32 word) = unat (packet_length q) - 4"
    using l12 by (simp add: ql unat_sub word_le_nat_alt u)
  with crc show "sp_crc32 p (unat (packet_length q) - 4) = le_word 4 (drop (unat (packet_length q) - 4) p)"
    by simp
qed


lemma le_word_inj:
  assumes "(le_word n xs :: 'a::len word) = le_word n ys" "8 * n \<le> LENGTH('a)" "i < n"
  shows "xs ! i = ys ! i"
proof (rule bit_word_eqI)
  fix j assume j: "j < LENGTH(8)"
  have "bit (le_word n xs :: 'a word) (8 * i + j) = bit (le_word n ys :: 'a word) (8 * i + j)"
    using assms(1) by simp
  moreover have "8 * i + j < 8 * n" "(8 * i + j) div 8 = i" "(8 * i + j) mod 8 = j"
    using assms(3) j by auto
  ultimately show "bit (xs ! i) j = bit (ys ! i) j"
    using assms(2) by (simp add: bit_le_word)
qed

lemma sp_parse_crc_mismatch:
  assumes "12 \<le> unat n" and l: "l = drop_bit 4 (le_word 8 p :: 64 word) AND 0x1FFFFFFFFFFF"
    and "12 \<le> unat l" "unat l \<le> unat n"
    and crc: "sp_crc32 p (unat l - 4) \<noteq> le_word 4 (drop (unat l - 4) p)"
  shows "sp_parse_packet (Some p) n (Some out) = (SP_ERR_CRC_MISMATCH, Some out)"
proof -
  have c: "\<not> n < 8 + 4" "\<not> l < 8 + 4" "\<not> ucast n < l"
    using assms by (simp_all add: word_less_nat_alt unat_ucast_up)
  have u: "unat (ucast l :: 32 word) = unat l"
    using assms(4) unat_bound [of n] by (intro unat_ucast_down) simp
  have o: "unat (ucast l - 4 :: 32 word) = unat l - 4"
    using assms(3) by (simp add: unat_sub word_le_nat_alt u)
  show ?thesis
    by (simp only: sp_parse_packet_def Let_def option.case prod.case l [symmetric] c if_False o
        crc not_False_eq_True if_True)
qed

lemma sp_packet_payload [simp]:
  "take (length pl) (drop 8 (sp_packet pl fr pt uf) @ rest) = pl"
  by (simp add: sp_packet_def Let_def)





lemma sp_header_value_of_fields:
  assumes "(ucast (h AND 0x0F) :: byte) = 1"
  shows "sp_header_value (drop_bit 4 h AND 0x1FFFFFFFFFFF)
     (ucast (drop_bit 49 h AND 0x01)) (ucast (drop_bit 50 h AND 0x0F))
     (ucast (drop_bit 54 h AND 0x3FF)) = h" (is "?H = h")
proof (rule bit_word_eqI)
  fix k assume k: "k < LENGTH(64)"
  have v: "bit h k = bit (1 :: byte) k" if "k < 4"
  proof -
    have "bit (ucast (h AND 0x0F) :: byte) k = bit h k"
      using that by (simp add: and_masks bit_simps)
    with assms show ?thesis by simp
  qed
  consider "k < 4" | "4 \<le> k \<and> k < 49" | "k = 49" | "50 \<le> k \<and> k < 54" | "54 \<le> k"
    by linarith
  then show "bit ?H k = bit h k"
  proof cases
    case 1
    then show ?thesis
      using v by (auto simp: sp_header_value_def and_masks bit_simps)
  next
    case 3
    then show ?thesis
      unfolding sp_header_value_def and_masks
      by (simp add: bit_simps del: take_bit_Suc_0 flip: One_nat_def)
  qed (use k in \<open>auto simp: sp_header_value_def and_masks bit_simps\<close>)
qed

lemma le_bytes_le_word:
  assumes "8 * n \<le> LENGTH('a)" "n \<le> length bs"
  shows "le_bytes n (le_word n bs :: 'a::len word) = take n bs"
proof (rule nth_equalityI)
  fix i assume "i < length (le_bytes n (le_word n bs :: 'a word))"
  then have i: "i < n" by simp
  have "le_bytes n (le_word n bs :: 'a word) ! i = bs ! i"
  proof (rule bit_word_eqI)
    fix j assume j: "j < LENGTH(8)"
    moreover have "8 * i + j < 8 * n" "(8 * i + j) div 8 = i" "(8 * i + j) mod 8 = j"
      using i j by auto
    ultimately show "bit (le_bytes n (le_word n bs :: 'a word) ! i) j = bit (bs ! i) j"
      using i assms by (simp add: bit_le_bytes bit_le_word del: nth_le_bytes)
  qed
  then show "le_bytes n (le_word n bs :: 'a word) ! i = take n bs ! i"
    using i by simp
qed (use assms in simp)


section \<open>Properties\<close>

text \<open>C22: a packet that \<open>sp_encode_packet_buffer\<close> writes into the caller's
  buffer parses back, with any amount of following bytes in the buffer, to version 1, the same flag,
  type, user field and payload; the length it reports is the length in the header.\<close>

theorem sp_encode_parse_roundtrip:
  assumes "unat plen = length pl" "sp_args_ok fr pt uf"
    and "12 + length pl \<le> unat cap" "unat cap \<le> length ob"
    and enc: "sp_encode_packet_buffer (Some pl) plen fr pt uf (Some ob) cap (Some ol)
      = (res, Some ob', Some len)"
    and "unat len \<le> unat n" "unat n \<le> length ob'"
  shows "res = SP_OK \<and> length ob' = length ob \<and>
    (\<exists>q. sp_parse_packet (Some ob') n (Some out) = (SP_OK, Some q) \<and>
       protocol_version q = 1 \<and> packet_length q = ucast len \<and>
       fragment_flag q = fr \<and> payload_type q = pt \<and> user_field q = uf \<and>
       take (unat (payload_length q)) (payload q) = pl)"
proof -
  have small: "12 + length pl < 2 ^ 32" using assms(3) unat_bound [of cap] by simp
  have e: "res = SP_OK" "ob' = put_at 0 (sp_packet pl fr pt uf) ob" "len = word_of_nat (12 + length pl)"
    using enc sp_encode_ok [of plen pl fr pt uf cap ob ol] assms by (simp_all add: sp_args_ok_def)
  have ob': "ob' = sp_packet pl fr pt uf @ drop (12 + length pl) ob"
    by (simp add: e put_at_def)
  have n: "12 + length pl \<le> unat n"
    using assms(6) take_bit_total(3) [OF small] by (simp only: e)
  have pn: "unat (word_of_nat (length pl) :: 32 word) = length pl"
    by (rule unat_of_nat_small) (use small in simp)
  have l64: "(ucast len :: 64 word) = word_of_nat (12 + length pl)"
  proof (rule word_unat_eqI)
    have "unat (ucast len :: 64 word) = unat len" by (rule unat_ucast_up) simp
    then show "unat (ucast len :: 64 word) = unat (word_of_nat (12 + length pl) :: 64 word)"
      by (simp only: e(3) take_bit_total(2,3) [OF small])
  qed
  show ?thesis
    using assms(3,4) pn l64
    by (simp add: e(1) ob' sp_parse_complete [OF assms(2) n] del: of_nat_add take_append)
qed

theorem sp_encode_parse_roundtrip_witness:
  "\<exists>ob' len q. sp_encode_packet_buffer (Some [0x6C, 0x73]) 2 SP_UNFRAGED 1 1
        (Some (replicate 16 0)) 16 (Some 0) = (SP_OK, Some ob', Some len) \<and>
     sp_parse_packet (Some ob') 16 (Some sp_blank_packet) = (SP_OK, Some q) \<and> user_field q = 1 \<and>
     take (unat (payload_length q)) (payload q) = [0x6C, 0x73]"
proof -
  have a: "sp_args_ok SP_UNFRAGED 1 1" by (simp add: sp_args_ok_def)
  have e: "sp_encode_packet_buffer (Some [0x6C, 0x73]) 2 SP_UNFRAGED 1 1
      (Some (replicate 16 0)) 16 (Some 0)
    = (SP_OK, Some (put_at 0 (sp_packet [0x6C, 0x73] SP_UNFRAGED 1 1) (replicate 16 0)), Some 14)"
    using sp_encode_ok [of 2 "[0x6C, 0x73]" SP_UNFRAGED 1 1 16 "replicate 16 0" 0] by simp
  show ?thesis
    using sp_encode_parse_roundtrip [OF _ a _ _ e, of 16 sp_blank_packet] e by auto
qed

text \<open>C31: the CRC rejects every single-byte corruption. If a buffer parses as a packet and
  one byte of it changes without changing the header's length field, the parser answers
  \<open>SP_ERR_CRC_MISMATCH\<close> and leaves the output structure alone.\<close>

theorem sp_parse_detects_byte_error:
  assumes ok: "sp_parse_packet (Some p) n (Some out) = (SP_OK, Some q)"
    and n: "unat n \<le> length p" and i: "i < unat (packet_length q)" and v: "v \<noteq> p ! i"
    and len: "drop_bit 4 (le_word 8 (p[i := v]) :: 64 word) AND 0x1FFFFFFFFFFF = packet_length q"
  shows "sp_parse_packet (Some (p[i := v])) n (Some out) = (SP_ERR_CRC_MISMATCH, Some out)"
proof -
  note f = sp_parse_SP_OK [OF ok]
  let ?m = "unat (packet_length q) - 4"
  have m: "?m \<le> length p" using f(3) n by simp
  have "sp_crc32 (p[i := v]) ?m \<noteq> le_word 4 (drop ?m (p[i := v]))"
  proof (cases "i < ?m")
    case True
    then have "drop ?m (p[i := v]) = drop ?m p" by simp
    with sp_crc32_one_byte [OF True m v] f(7) show ?thesis by simp
  next
    case False
    then have "sp_crc32 (p[i := v]) ?m = sp_crc32 p ?m" by (simp add: sp_crc32_def)
    moreover have "le_word 4 (drop ?m (p[i := v])) \<noteq> (le_word 4 (drop ?m p) :: 32 word)"
    proof
      assume "le_word 4 (drop ?m (p[i := v])) = (le_word 4 (drop ?m p) :: 32 word)"
      moreover have "i - ?m < 4" using i False f(2) by arith
      ultimately have "drop ?m (p[i := v]) ! (i - ?m) = drop ?m p ! (i - ?m)"
        by (intro le_word_inj [where 'a = 32 and n = 4]) simp_all
      then show False using v False m i n f(3) by simp
    qed
    ultimately show ?thesis using f(7) by simp
  qed
  then show ?thesis
    by (intro sp_parse_crc_mismatch) (use f len in \<open>simp_all\<close>)
qed

theorem sp_parse_detects_byte_error_witness:
  "sp_parse_packet (Some ((sp_packet [0x6C, 0x73] SP_UNFRAGED 1 1)[8 := 0])) 14 (Some sp_blank_packet)
     = (SP_ERR_CRC_MISMATCH, Some sp_blank_packet)"
proof -
  let ?p = "sp_packet [0x6C, 0x73] SP_UNFRAGED 1 1"
  have a: "sp_args_ok SP_UNFRAGED 1 1" by (simp add: sp_args_ok_def)
  obtain q where ok: "sp_parse_packet (Some ?p) 14 (Some sp_blank_packet) = (SP_OK, Some q)"
    and l: "packet_length q = 14"
    using sp_parse_complete [OF a, of "[0x6C, 0x73]" 14 "[]" sp_blank_packet] by simp
  have p8: "?p ! 8 = 0x6C" by (simp add: sp_packet_def Let_def nth_append)
  have "(le_word 8 (?p[8 := 0]) :: 64 word) = le_word 8 ?p"
    by (rule le_word_cong) simp
  then have len: "drop_bit 4 (le_word 8 (?p[8 := 0]) :: 64 word) AND 0x1FFFFFFFFFFF = packet_length q"
    using sp_parse_SP_OK(4) [OF ok] by simp
  show ?thesis
    by (rule sp_parse_detects_byte_error [OF ok _ _ _ len]) (simp_all add: l p8)
qed

theorem sp_encode_result_codes:
  "fst (sp_encode_packet_buffer payload_p plen fr pt uf (Some ob) cap (Some ol)) =
     (if payload_p = None \<and> 0 < plen then SP_ERR_INVALID_ARGUMENT
      else if sp_args_ok fr pt uf
        then (if unat cap < 12 + unat plen then SP_ERR_BUFFER_TOO_SMALL else SP_OK)
      else SP_ERR_INVALID_ARGUMENT) \<and>
   (fst (sp_encode_packet_buffer payload_p plen fr pt uf (Some ob) cap (Some ol)) = SP_OK \<or>
    snd (sp_encode_packet_buffer payload_p plen fr pt uf (Some ob) cap (Some ol)) = (Some ob, Some ol))"
proof -
  define tot where "tot = (8 + ucast plen + 4 :: 64 word)"
  have tot: "unat tot = 12 + unat plen"
    using total_len_64_unat [of plen] by (simp add: tot_def)
  have cap: "ucast cap < tot \<longleftrightarrow> unat cap < 12 + unat plen"
    using tot by (simp add: word_less_nat_alt unat_ucast_up)
  have le_max: "\<not> SP_MAX_HEADER_LENGTH_VALUE < tot"
    using tot unat_bound [of plen] by (simp add: word_less_nat_alt)
  have gt: "0x0F < pt \<longleftrightarrow> \<not> pt \<le> 0x0F" "0x3FF < uf \<longleftrightarrow> \<not> uf \<le> 0x3FF"
    by (simp_all add: not_le)
  have mx: "SP_MAX_HEADER_LENGTH_VALUE < tot \<longleftrightarrow> False" using le_max by simp
  show ?thesis
    unfolding sp_encode_packet_buffer_def Let_def tot_def [symmetric] cap sp_args_ok_def gt mx
      option.case prod.case if_False
    by (cases "pt \<le> 0x0F"; cases "uf \<le> 0x3FF"; cases "unat cap < 12 + unat plen";
        cases "payload_p = None \<and> 0 < plen"; cases "fr = SP_FRAGED"; cases "fr = SP_UNFRAGED";
        simp only: simp_thms if_True if_False fst_conv snd_conv)
qed

text \<open>C23: parsing inverts encoding. Whatever bytes \<open>sp_parse_packet\<close> accepts as
  a version 1 packet are the canonical encoding of the fields it reports, byte for byte.\<close>

theorem sp_parse_encode_roundtrip:
  assumes ok: "sp_parse_packet (Some p) n (Some out) = (SP_OK, Some q)"
    and n: "unat n \<le> length p" and v: "protocol_version q = 1"
  shows "sp_packet (take (unat (payload_length q)) (payload q))
      (fragment_flag q) (payload_type q) (user_field q) = take (unat (packet_length q)) p"
proof -
  note f = sp_parse_SP_OK [OF ok]
  define h where "h = (le_word 8 p :: 64 word)"
  let ?l = "unat (packet_length q)"
  from ok have flds: "fragment_flag q = ucast (drop_bit 49 h AND 0x01)"
    "payload_type q = ucast (drop_bit 50 h AND 0x0F)"
    "user_field q = ucast (drop_bit 54 h AND 0x3FF)"
    "protocol_version q = ucast (h AND 0x0F)"
    unfolding sp_parse_packet_def Let_def h_def by (auto split: if_split_asm)
  have lp: "?l \<le> length p" using f(3) n by simp
  let ?pl = "take (unat (payload_length q)) (payload q)"
  have lpl: "length ?pl = ?l - 12"
    using f lp by simp
  have tot: "(word_of_nat (8 + length ?pl + 4) :: 64 word) = packet_length q"
    using f(2) lpl by (intro word_unat_eqI) (simp add: unat_of_nat)
  have h: "sp_header_value (packet_length q) (fragment_flag q) (payload_type q) (user_field q) = h"
    using sp_header_value_of_fields [of h] v f(4) by (simp add: flds h_def)
  have "le_bytes 8 h = take 8 p"
    unfolding h_def using lp f(2) by (intro le_bytes_le_word) auto
  moreover have "?pl = take (?l - 12) (drop 8 p)" using f by simp
  ultimately have "le_bytes 8 h @ ?pl = take (8 + (?l - 12)) p"
    by (simp only: take_add)
  moreover have "8 + (?l - 12) = ?l - 4" using f(2) by simp
  ultimately have body: "le_bytes 8 h @ ?pl = take (?l - 4) p" by (simp only:)
  have crc: "le_bytes 4 (sp_crc32 p (?l - 4)) = take 4 (drop (?l - 4) p)"
    unfolding f(7) using lp f(2) by (intro le_bytes_le_word) auto
  have "sp_packet ?pl (fragment_flag q) (payload_type q) (user_field q)
      = take (?l - 4) p @ le_bytes 4 (sp_crc32 (take (?l - 4) p) (?l - 4))"
    unfolding sp_packet_def Let_def tot h body using lp by (simp add: min.absorb2)
  also have "\<dots> = take (?l - 4) p @ take 4 (drop (?l - 4) p)"
    by (simp only: sp_crc32_take [OF order_refl] crc)
  also have "\<dots> = take ?l p"
    using f(2) by (simp flip: take_add)
  finally show ?thesis .
qed

theorem sp_parse_encode_roundtrip_witness:
  "\<exists>q. sp_parse_packet (Some (sp_packet [0x2F] SP_UNFRAGED 1 3 @ [7])) 14 (Some sp_blank_packet)
        = (SP_OK, Some q) \<and>
      sp_packet (take (unat (payload_length q)) (payload q))
        (fragment_flag q) (payload_type q) (user_field q)
      = take (unat (packet_length q)) (sp_packet [0x2F] SP_UNFRAGED 1 3 @ [7])"
proof -
  have a: "sp_args_ok SP_UNFRAGED 1 3" by (simp add: sp_args_ok_def)
  obtain q where ok: "sp_parse_packet (Some (sp_packet [0x2F] SP_UNFRAGED 1 3 @ [7])) 14
      (Some sp_blank_packet) = (SP_OK, Some q)" and v: "protocol_version q = 1"
    using sp_parse_complete [OF a, of "[0x2F]" 14 "[7]" sp_blank_packet] by simp
  from sp_parse_encode_roundtrip [OF ok _ v] ok show ?thesis by auto
qed

end
