(* ===== verification/FatTable.thy ===== *)
theory FatTable
  imports SectorCache StreamProtocol
begin

text \<open>
  The FAT of a volume: \<open>lib/SdFat/src/FatLib/FatPartition.h\<close> and \<open>FatPartition.cpp\<close>, as the firmware
  compiles them (FAT16 and FAT32, one cache for FAT and data, no free cluster count).
\<close>

section \<open>Little-endian fields\<close>

definition getLe16 :: "byte list \<Rightarrow> nat \<Rightarrow> 16 word" where
  "getLe16 src off = le_word 2 (drop off src)"

definition getLe32 :: "byte list \<Rightarrow> nat \<Rightarrow> 32 word" where
  "getLe32 src off = le_word 4 (drop off src)"

definition setLe16 :: "nat \<Rightarrow> 16 word \<Rightarrow> byte list \<Rightarrow> byte list" where
  "setLe16 off src dst = put_at off (le_bytes 2 src) dst"

definition setLe32 :: "nat \<Rightarrow> 32 word \<Rightarrow> byte list \<Rightarrow> byte list" where
  "setLe32 off src dst = put_at off (le_bytes 4 src) dst"

section \<open>The volume\<close>

record 'd fatvol =
  v_cache :: "'d cache"
  v_sectorsPerCluster :: byte
  v_clusterSectorMask :: byte
  v_sectorsPerClusterShift :: nat
  v_fatType :: byte
  v_rootDirEntryCount :: "16 word"
  v_allocSearchStart :: "32 word"
  v_sectorsPerFat :: "32 word"
  v_dataStartSector :: "32 word"
  v_fatStartSector :: "32 word"
  v_lastCluster :: "32 word"
  v_rootDirStart :: "32 word"

abbreviation (input) FAT_TYPE_FAT16 :: byte where "FAT_TYPE_FAT16 \<equiv> 16"
abbreviation (input) FAT_TYPE_FAT32 :: byte where "FAT_TYPE_FAT32 \<equiv> 32"
abbreviation (input) FS_DIR_SIZE :: nat where "FS_DIR_SIZE \<equiv> 32"

definition bytesPerClusterShift :: "'d fatvol \<Rightarrow> nat" where
  "bytesPerClusterShift v = v_sectorsPerClusterShift v + 9"

definition bytesPerCluster :: "'d fatvol \<Rightarrow> 16 word" where
  "bytesPerCluster v = push_bit (v_sectorsPerClusterShift v) 512"

definition dirEntriesPerCluster :: "'d fatvol \<Rightarrow> 16 word" where
  "dirEntriesPerCluster v = ucast (v_sectorsPerCluster v) * 16"

definition clusterCount :: "'d fatvol \<Rightarrow> 32 word" where
  "clusterCount v = v_lastCluster v - 1"

definition volumeSectorCount :: "'d fatvol \<Rightarrow> 32 word" where
  "volumeSectorCount v = ucast (v_sectorsPerCluster v) * clusterCount v"

definition sectorOfCluster :: "'d fatvol \<Rightarrow> 32 word \<Rightarrow> byte" where
  "sectorOfCluster v position = ucast (drop_bit 9 position AND ucast (v_clusterSectorMask v))"

definition clusterStartSector :: "'d fatvol \<Rightarrow> 32 word \<Rightarrow> 32 word" where
  "clusterStartSector v cluster = v_dataStartSector v + push_bit (v_sectorsPerClusterShift v) (cluster - 2)"

definition isEOC :: "'d fatvol \<Rightarrow> 32 word \<Rightarrow> bool" where
  "isEOC v cluster \<longleftrightarrow> v_lastCluster v < cluster"

section \<open>Cache access\<close>

definition dataCachePrepare :: "'d blockdev \<Rightarrow> 32 word \<Rightarrow> byte \<Rightarrow> 'd fatvol \<Rightarrow> bool \<times> 'd fatvol" where
  "dataCachePrepare D sector options v =
     (let (ok, c) = FsCache_prepare D sector options (v_cache v) in (ok, v\<lparr>v_cache := c\<rparr>))"

definition fatCachePrepare :: "'d blockdev \<Rightarrow> 32 word \<Rightarrow> byte \<Rightarrow> 'd fatvol \<Rightarrow> bool \<times> 'd fatvol" where
  "fatCachePrepare D sector options v = dataCachePrepare D sector (options OR CACHE_STATUS_MIRROR_FAT) v"

definition cacheSyncData :: "'d blockdev \<Rightarrow> 'd fatvol \<Rightarrow> bool \<times> 'd fatvol" where
  "cacheSyncData D v = (let (ok, c) = FsCache_sync D (v_cache v) in (ok, v\<lparr>v_cache := c\<rparr>))"

definition cacheSync :: "'d blockdev \<Rightarrow> 'd fatvol \<Rightarrow> bool \<times> 'd fatvol" where
  "cacheSync D v =
     (let (ok, v) = cacheSyncData D v in
      if \<not> ok then (False, v)
      else let (ok, d) = dev_sync D (c_dev (v_cache v))
           in (ok, v\<lparr>v_cache := (v_cache v)\<lparr>c_dev := d\<rparr>\<rparr>))"

text \<open>The cached sector and a change of it through the pointer that \<open>prepare\<close> returns.\<close>

abbreviation cached :: "'d fatvol \<Rightarrow> byte list" where
  "cached v \<equiv> c_buffer (v_cache v)"

definition set_cached :: "byte list \<Rightarrow> 'd fatvol \<Rightarrow> 'd fatvol" where
  "set_cached b v = v\<lparr>v_cache := (v_cache v)\<lparr>c_buffer := b\<rparr>\<rparr>"

section \<open>FAT entries\<close>

text \<open>The result -1, 0 or 1 with the value stored.\<close>

datatype fat_result = FatError | FatEOC | FatNext "32 word"

definition fat_result :: "'d fatvol \<Rightarrow> 32 word \<Rightarrow> fat_result" where
  "fat_result v nxt = (if isEOC v nxt then FatEOC else FatNext nxt)"

definition fatGet :: "'d blockdev \<Rightarrow> 32 word \<Rightarrow> 'd fatvol \<Rightarrow> fat_result \<times> 'd fatvol" where
  "fatGet D cluster v =
     (if cluster < 2 \<or> v_lastCluster v < cluster then (FatError, v)
      else if v_fatType v = FAT_TYPE_FAT32
      then let sector = v_fatStartSector v + drop_bit 7 cluster;
               (ok, v) = fatCachePrepare D sector CACHE_FOR_READ v
           in if \<not> ok then (FatError, v)
              else let offset = unat (push_bit 2 cluster AND 0x1FF);
                       nxt = getLe32 (cached v) offset
                   in (fat_result v nxt, v)
      else if v_fatType v = FAT_TYPE_FAT16
      then let cluster = cluster AND 0xFFFF;
               sector = v_fatStartSector v + drop_bit 8 cluster;
               (ok, v) = fatCachePrepare D sector CACHE_FOR_READ v
           in if \<not> ok then (FatError, v)
              else let offset = unat (push_bit 1 cluster AND 0x1FF);
                       nxt = ucast (getLe16 (cached v) offset)
                   in (fat_result v nxt, v)
      else (FatError, v))"

definition fatPut :: "'d blockdev \<Rightarrow> 32 word \<Rightarrow> 32 word \<Rightarrow> 'd fatvol \<Rightarrow> bool \<times> 'd fatvol" where
  "fatPut D cluster val v =
     (if cluster < 2 \<or> v_lastCluster v < cluster then (False, v)
      else if v_fatType v = FAT_TYPE_FAT32
      then let sector = v_fatStartSector v + drop_bit 7 cluster;
               (ok, v) = fatCachePrepare D sector CACHE_FOR_WRITE v
           in if \<not> ok then (False, v)
              else let offset = unat (push_bit 2 cluster AND 0x1FF)
                   in (True, set_cached (setLe32 offset val (cached v)) v)
      else if v_fatType v = FAT_TYPE_FAT16
      then let cluster = cluster AND 0xFFFF;
               sector = v_fatStartSector v + drop_bit 8 cluster;
               (ok, v) = fatCachePrepare D sector CACHE_FOR_WRITE v
           in if \<not> ok then (False, v)
              else let offset = unat (push_bit 1 cluster AND 0x1FF)
                   in (True, set_cached (setLe16 offset (ucast val) (cached v)) v)
      else (False, v))"

definition fatPutEOC :: "'d blockdev \<Rightarrow> 32 word \<Rightarrow> 'd fatvol \<Rightarrow> bool \<times> 'd fatvol" where
  "fatPutEOC D cluster v = fatPut D cluster 0x0FFFFFFF v"

section \<open>Chains\<close>

text \<open>The search loop of \<open>allocateCluster\<close>: the cluster found, if any, and \<open>setStart\<close>. No result when
  the loop does not end.\<close>

partial_function (option) alloc_find ::
    "'d blockdev \<Rightarrow> 32 word \<Rightarrow> 32 word \<Rightarrow> bool \<Rightarrow> 'd fatvol \<Rightarrow> (32 word option \<times> bool \<times> 'd fatvol) option" where
  "alloc_find D current fnd setStart v =
     (if fnd + 1 > v_lastCluster v
      then if setStart then Some (None, setStart, v)
           else alloc_find D current (v_allocSearchStart v) True v
      else if fnd + 1 = current then Some (None, setStart, v)
      else case fatGet D (fnd + 1) v of
          (FatError, v) \<Rightarrow> Some (None, setStart, v)
        | (FatEOC, v) \<Rightarrow> alloc_find D current (fnd + 1) setStart v
        | (FatNext f, v) \<Rightarrow>
            if f = 0 then Some (Some (fnd + 1), setStart, v)
            else alloc_find D current (fnd + 1) setStart v)"

definition allocateCluster ::
    "'d blockdev \<Rightarrow> 32 word \<Rightarrow> 'd fatvol \<Rightarrow> (32 word option \<times> 'd fatvol) option" where
  "allocateCluster D current v =
     (let after = v_allocSearchStart v < current in
      do {
        (found, setStart, v) \<leftarrow>
          alloc_find D current (if after then current else v_allocSearchStart v) (\<not> after) v;
        (case found of
           None \<Rightarrow> Some (None, v)
         | Some fnd \<Rightarrow>
             let v = (if setStart then v\<lparr>v_allocSearchStart := fnd\<rparr> else v);
                 (ok, v) = fatPutEOC D fnd v
             in if \<not> ok then Some (None, v)
                else let (ok, v) = (if current \<noteq> 0 then fatPut D current fnd v else (True, v))
                     in Some (if ok then Some fnd else None, v)) })"

text \<open>The search loop of \<open>allocContiguous\<close>: the first and last cluster of the group.\<close>

partial_function (option) contiguous_find ::
    "'d blockdev \<Rightarrow> 32 word \<Rightarrow> 32 word \<Rightarrow> 32 word \<Rightarrow> bool \<Rightarrow> 'd fatvol
     \<Rightarrow> ((32 word \<times> 32 word) option \<times> bool \<times> 'd fatvol) option" where
  "contiguous_find D count bgn endc setStart v =
     (if endc > v_lastCluster v then Some (None, setStart, v)
      else case fatGet D endc v of
          (FatError, v) \<Rightarrow> Some (None, setStart, v)
        | (FatEOC, v) \<Rightarrow>
            contiguous_find D count (endc + 1) (endc + 1) (if bgn \<noteq> endc then False else setStart) v
        | (FatNext f, v) \<Rightarrow>
            if f \<noteq> 0
            then contiguous_find D count (endc + 1) (endc + 1) (if bgn \<noteq> endc then False else setStart) v
            else if endc - bgn + 1 = count then Some (Some (bgn, endc), setStart, v)
            else contiguous_find D count bgn (endc + 1) setStart v)"

text \<open>Linking the group backwards, with \<open>n\<close> links to go.\<close>

fun link_back :: "'d blockdev \<Rightarrow> nat \<Rightarrow> 32 word \<Rightarrow> 'd fatvol \<Rightarrow> bool \<times> 'd fatvol" where
  "link_back D 0 endc v = (True, v)"
| "link_back D (Suc n) endc v =
     (let (ok, v) = fatPut D (endc - 1) endc v in if \<not> ok then (False, v) else link_back D n (endc - 1) v)"

definition allocContiguous ::
    "'d blockdev \<Rightarrow> 32 word \<Rightarrow> 'd fatvol \<Rightarrow> (32 word option \<times> 'd fatvol) option" where
  "allocContiguous D count v = do {
     let start = v_allocSearchStart v + 1;
     (found, setStart, v) \<leftarrow> contiguous_find D count start start True v;
     (case found of
        None \<Rightarrow> Some (None, v)
      | Some (bgn, endc) \<Rightarrow>
          let v = (if setStart then v\<lparr>v_allocSearchStart := endc\<rparr> else v);
              (ok, v) = fatPutEOC D endc v
          in if \<not> ok then Some (None, v)
             else let (ok, v) = link_back D (unat (endc - bgn)) endc v
                  in Some (if ok then Some bgn else None, v)) }"

text \<open>The \<open>do\<close> loop of \<open>freeChain\<close>; no result when it does not end.\<close>

partial_function (option) freeChain :: "'d blockdev \<Rightarrow> 32 word \<Rightarrow> 'd fatvol \<Rightarrow> (bool \<times> 'd fatvol) option" where
  "freeChain D cluster v =
     (case fatGet D cluster v of (fg, v) \<Rightarrow>
      if fg = FatError then Some (False, v)
      else case fatPut D cluster 0 v of (ok, v) \<Rightarrow>
        if \<not> ok then Some (False, v)
        else case fg of
            FatNext nxt \<Rightarrow> freeChain D nxt
              (if cluster < v_allocSearchStart v then v\<lparr>v_allocSearchStart := cluster - 1\<rparr> else v)
          | _ \<Rightarrow> Some (True,
              if cluster < v_allocSearchStart v then v\<lparr>v_allocSearchStart := cluster - 1\<rparr> else v))"

section \<open>Counting free clusters\<close>

definition zero_entries :: "bool \<Rightarrow> nat \<Rightarrow> byte list \<Rightarrow> nat" where
  "zero_entries fat16 n b =
     length (filter (\<lambda>i. if fat16 then getLe16 b (2 * i) = 0 else getLe32 b (4 * i) = 0) [0..<n])"

function count_free ::
    "'d blockdev \<Rightarrow> bool \<Rightarrow> nat \<Rightarrow> 32 word \<Rightarrow> 32 word \<Rightarrow> 'd fatvol \<Rightarrow> 32 word option \<times> 'd fatvol" where
  "count_free D fat16 todo sector free v =
     (if todo = 0 then (Some free, v)
      else let (ok, v) = fatCachePrepare D sector CACHE_FOR_READ v
           in if \<not> ok then (None, v)
              else let n = min (if fat16 then 256 else 128) todo
                   in count_free D fat16 (todo - n) (sector + 1)
                        (free + word_of_nat (zero_entries fat16 n (cached v))) v)"
  by pat_completeness auto

termination by (relation "measure (\<lambda>(D, f, todo, r). todo)") auto

definition freeClusterCount :: "'d blockdev \<Rightarrow> 'd fatvol \<Rightarrow> 32 word \<times> 'd fatvol" where
  "freeClusterCount D v =
     (if v_fatType v = FAT_TYPE_FAT16 \<or> v_fatType v = FAT_TYPE_FAT32
      then case count_free D (v_fatType v = FAT_TYPE_FAT16) (unat (v_lastCluster v + 1)) (v_fatStartSector v) 0 v of
          (Some free, v) \<Rightarrow> (free, v)
        | (None, v) \<Rightarrow> (- 1, v)
      else (- 1, v))"

section \<open>Mounting\<close>

text \<open>The loop tries \<open>tmp\<close> = 1, 2, 4, ..., 128 and 0, which is where \<open>tmp <<= 1\<close> ends up.\<close>

definition cluster_shift :: "byte \<Rightarrow> nat option" where
  "cluster_shift spc = find (\<lambda>i. spc = push_bit i 1) [0..<9]"

text \<open>The geometry in the boot sector \<open>b\<close> of a volume that starts at \<open>volStart\<close>.\<close>

definition read_bpb :: "byte list \<Rightarrow> 32 word \<Rightarrow> 'd fatvol \<Rightarrow> bool \<times> 'd fatvol" where
  "read_bpb b volStart v =
     (if b ! 16 \<noteq> 2 \<or> getLe16 b 11 \<noteq> 512 then (False, v)
      else let spc = b ! 13;
               v = v\<lparr>v_sectorsPerCluster := spc, v_clusterSectorMask := spc - 1\<rparr>
           in case cluster_shift spc of
               None \<Rightarrow> (False, v\<lparr>v_sectorsPerClusterShift := 8\<rparr>)
             | Some shift \<Rightarrow>
                 let spf = (if getLe16 b 22 = 0 then getLe32 b 36 else ucast (getLe16 b 22));
                     fatStart = volStart + ucast (getLe16 b 14);
                     entries = getLe16 b 17;
                     rootStart = fatStart + 2 * spf;
                     dataStart = rootStart + ucast (drop_bit 9 (32 * entries + 512 - 1));
                     total = (if getLe16 b 19 = 0 then getLe32 b 32 else ucast (getLe16 b 19));
                     clusters = drop_bit shift (total - (dataStart - volStart));
                     v = v\<lparr>v_sectorsPerClusterShift := shift, v_sectorsPerFat := spf,
                           v_fatStartSector := fatStart, v_rootDirEntryCount := entries,
                           v_rootDirStart := rootStart, v_dataStartSector := dataStart,
                           v_lastCluster := clusters + 1\<rparr>
                 in if clusters < 4085 then (False, v\<lparr>v_fatType := 12\<rparr>)
                    else let v = (if clusters < 65525 then v\<lparr>v_fatType := FAT_TYPE_FAT16\<rparr>
                                  else v\<lparr>v_rootDirStart := getLe32 b 44, v_fatType := FAT_TYPE_FAT32\<rparr>)
                         in (True, v\<lparr>v_cache := cache_setMirrorOffset spf (v_cache v)\<rparr>))"

definition FatPartition_init ::
    "'d blockdev \<Rightarrow> bool \<Rightarrow> nat \<Rightarrow> 32 word \<Rightarrow> 'd fatvol \<Rightarrow> bool \<times> 'd fatvol" where
  "FatPartition_init D bound part volStart v =
     (let v = v\<lparr>v_fatType := 0, v_allocSearchStart := 1, v_cache := cache_init bound (v_cache v)\<rparr>;
          (found, v) =
            (if part = 0 then (Some volStart, v)
             else if part > 4 then (None, v)
             else let (ok, v) = dataCachePrepare D 0 CACHE_FOR_READ v
                  in if \<not> ok then (None, v)
                     else let mp = drop (446 + 16 * (part - 1)) (cached v)
                          in if mp ! 4 = 0 \<or> (mp ! 0 \<noteq> 0 \<and> mp ! 0 \<noteq> 0x80) then (None, v)
                             else (Some (getLe32 mp 8), v))
      in case found of
          None \<Rightarrow> (False, v)
        | Some volStart \<Rightarrow>
            let (ok, v) = dataCachePrepare D volStart CACHE_FOR_READ v
            in if \<not> ok then (False, v) else read_bpb (cached v) volStart v)"

end
