(* ===== verification/FatStore.thy ===== *)
theory FatStore
  imports FatTable
begin

text \<open>
  The volume as a flat store of sectors with two copies of a FAT: what the cached sector operations of
  \<open>FatPartition\<close> do to it, on a card that works. \<open>ent M v c\<close> is the FAT entry of cluster \<open>c\<close>; \<open>fat_now\<close> says
  what the entries became and that nothing outside the FATs changed.
\<close>

section \<open>Volumes\<close>

definition fat1 :: "'d fatvol \<Rightarrow> 32 word set" where
  "fat1 v = (\<lambda>i. v_fatStartSector v + word_of_nat i) ` {..<unat (v_sectorsPerFat v)}"

definition fat2 :: "'d fatvol \<Rightarrow> 32 word set" where
  "fat2 v = (\<lambda>s. s + v_sectorsPerFat v) ` fat1 v"

definition entries_per_sector :: "'d fatvol \<Rightarrow> nat" where
  "entries_per_sector v = (if v_fatType v = FAT_TYPE_FAT32 then 128 else 256)"

text \<open>The FAT is long enough for its clusters, both copies fit below the last sector number, and the end
  mark that the code writes is not a cluster number.\<close>

definition geo_ok :: "'d fatvol \<Rightarrow> bool" where
  "geo_ok v \<longleftrightarrow> (v_fatType v = FAT_TYPE_FAT16 \<or> v_fatType v = FAT_TYPE_FAT32) \<and>
     unat (v_fatStartSector v) + 2 * unat (v_sectorsPerFat v) < 2 ^ 32 - 1 \<and>
     unat (v_lastCluster v) < unat (v_sectorsPerFat v) * entries_per_sector v \<and>
     v_lastCluster v < (if v_fatType v = FAT_TYPE_FAT16 then 0xFFFF else 0x0FFFFFFF)"

abbreviation store :: "('d \<Rightarrow> 32 word \<Rightarrow> byte list) \<Rightarrow> 'd fatvol \<Rightarrow> 32 word \<Rightarrow> byte list" where
  "store M v \<equiv> view M (v_cache v)"

text \<open>The second FAT is a copy of the first, up to the cached sector that still has to be written.\<close>

definition vol_ok :: "('d \<Rightarrow> 32 word \<Rightarrow> byte list) \<Rightarrow> 'd fatvol \<Rightarrow> bool" where
  "vol_ok M v \<longleftrightarrow> geo_ok v \<and> coherent M (v_cache v) \<and> c_mirror (v_cache v) = v_sectorsPerFat v \<and>
     (bit (c_status (v_cache v)) 1 \<longrightarrow> c_sector (v_cache v) \<in> fat1 v) \<and>
     (\<forall>s \<in> fat1 v. store M v (s + v_sectorsPerFat v) = store M v s \<or>
        c_sector (v_cache v) = s \<and> cache_isDirty (v_cache v) \<and> bit (c_status (v_cache v)) 1)"

text \<open>Only the cache changed, and what can be read outside the second FAT did not.\<close>

definition same_store :: "('d \<Rightarrow> 32 word \<Rightarrow> byte list) \<Rightarrow> 'd fatvol \<Rightarrow> 'd fatvol \<Rightarrow> bool" where
  "same_store M v v' \<longleftrightarrow> (\<exists>c. v' = v\<lparr>v_cache := c\<rparr>) \<and> (\<forall>s. s \<notin> fat2 v \<longrightarrow> store M v' s = store M v s)"

lemma same_store_refl [simp]: "same_store M v v"
  by (auto simp: same_store_def intro: exI [of _ "v_cache v"])

lemma fat_geometry [simp]:
  "fat1 (v\<lparr>v_cache := c\<rparr>) = fat1 v" "fat2 (v\<lparr>v_cache := c\<rparr>) = fat2 v" "geo_ok (v\<lparr>v_cache := c\<rparr>) = geo_ok v"
  "entries_per_sector (v\<lparr>v_cache := c\<rparr>) = entries_per_sector v"
  by (simp_all add: fat1_def fat2_def geo_ok_def entries_per_sector_def)

lemma same_store_geometry:
  assumes "same_store M v v'"
  shows "fat1 v' = fat1 v" "fat2 v' = fat2 v" "geo_ok v' = geo_ok v" "v_fatType v' = v_fatType v"
    "v_lastCluster v' = v_lastCluster v" "v_fatStartSector v' = v_fatStartSector v"
    "v_sectorsPerFat v' = v_sectorsPerFat v" "v_allocSearchStart v' = v_allocSearchStart v"
  using assms by (auto simp: same_store_def)

lemma same_store_trans: "same_store M v v' \<Longrightarrow> same_store M v' v'' \<Longrightarrow> same_store M v v''"
  unfolding same_store_def by (elim conjE exE) (intro conjI exI, auto)

lemma unat_fat1:
  assumes "geo_ok v" "i < 2 * unat (v_sectorsPerFat v)"
  shows "unat (v_fatStartSector v + word_of_nat i) = unat (v_fatStartSector v) + i"
proof -
  have "i < 2 ^ 32" "unat (v_fatStartSector v) + i < 2 ^ 32" using assms by (auto simp: geo_ok_def)
  then show ?thesis by (simp add: unat_word_ariths unat_of_nat)
qed

lemma fat1_iff:
  assumes "geo_ok v"
  shows "s \<in> fat1 v \<longleftrightarrow> unat (v_fatStartSector v) \<le> unat s \<and> unat s < unat (v_fatStartSector v) + unat (v_sectorsPerFat v)"
proof
  assume "s \<in> fat1 v"
  then obtain i where "i < unat (v_sectorsPerFat v)" "s = v_fatStartSector v + word_of_nat i"
    by (auto simp: fat1_def)
  then show "unat (v_fatStartSector v) \<le> unat s \<and> unat s < unat (v_fatStartSector v) + unat (v_sectorsPerFat v)"
    using unat_fat1 [OF assms, of i] by simp
next
  assume a: "unat (v_fatStartSector v) \<le> unat s \<and> unat s < unat (v_fatStartSector v) + unat (v_sectorsPerFat v)"
  let ?i = "unat s - unat (v_fatStartSector v)"
  have "s = v_fatStartSector v + word_of_nat ?i"
    by (rule word_unat_eqI) (use a unat_fat1 [OF assms, of ?i] in auto)
  then show "s \<in> fat1 v" using a unfolding fat1_def by (intro image_eqI [of _ _ ?i]) auto
qed

lemma fat2_iff:
  assumes "geo_ok v"
  shows "s \<in> fat2 v \<longleftrightarrow> unat (v_fatStartSector v) + unat (v_sectorsPerFat v) \<le> unat s \<and>
    unat s < unat (v_fatStartSector v) + 2 * unat (v_sectorsPerFat v)"
proof
  assume "s \<in> fat2 v"
  then obtain t where t: "t \<in> fat1 v" "s = t + v_sectorsPerFat v" by (auto simp: fat2_def)
  have "unat s = unat t + unat (v_sectorsPerFat v)"
    using t fat1_iff [OF assms, of t] assms by (simp add: geo_ok_def unat_word_ariths)
  then show "unat (v_fatStartSector v) + unat (v_sectorsPerFat v) \<le> unat s \<and>
    unat s < unat (v_fatStartSector v) + 2 * unat (v_sectorsPerFat v)"
    using t(1) fat1_iff [OF assms, of t] by simp
next
  assume a: "unat (v_fatStartSector v) + unat (v_sectorsPerFat v) \<le> unat s \<and>
    unat s < unat (v_fatStartSector v) + 2 * unat (v_sectorsPerFat v)"
  let ?t = "s - v_sectorsPerFat v"
  have "unat ?t = unat s - unat (v_sectorsPerFat v)" using a by (intro unat_sub) (simp add: word_le_nat_alt)
  then have "?t \<in> fat1 v" unfolding fat1_iff [OF assms] using a by linarith
  then show "s \<in> fat2 v" unfolding fat2_def by (intro image_eqI [of _ _ ?t]) simp_all
qed

lemma fat_disjoint:
  assumes "geo_ok v"
  shows "s \<in> fat1 v \<Longrightarrow> s \<notin> fat2 v" "s \<in> fat1 v \<Longrightarrow> s \<noteq> 0xFFFFFFFF" "s \<in> fat1 v \<Longrightarrow> s + v_sectorsPerFat v \<in> fat2 v"
  using fat1_iff [OF assms, of s] fat2_iff [OF assms, of s] assms
  by (auto simp: geo_ok_def fat2_def)

lemma fat1_inj: "s + v_sectorsPerFat v = t + v_sectorsPerFat v \<longleftrightarrow> s = t"
  by simp

section \<open>The cache of a volume\<close>

lemma flushed_store:
  assumes "vol_ok M v" "s \<notin> fat2 v"
  shows "flushed M (v_cache v) s = store M v s"
proof (cases "mirror_of (v_cache v)")
  case (Some m)
  then have "bit (c_status (v_cache v)) 1" "m = c_sector (v_cache v) + v_sectorsPerFat v"
    using assms(1) by (auto simp: mirror_of_def mirror_bit vol_ok_def split: if_splits)
  then have "m \<in> fat2 v" using assms(1) by (auto simp: vol_ok_def fat2_def)
  then show ?thesis using assms(2) Some by (auto simp: flushed_def)
qed (simp add: flushed_def)

lemma flushed_mirrored:
  assumes "vol_ok M v" "s \<in> fat1 v"
  shows "flushed M (v_cache v) (s + v_sectorsPerFat v) = store M v s"
proof -
  have g: "geo_ok v" and mo: "c_mirror (v_cache v) = v_sectorsPerFat v" using assms(1) by (simp_all add: vol_ok_def)
  have n: "s \<noteq> 0xFFFFFFFF" using fat_disjoint(2) [OF g assms(2)] .
  show ?thesis
  proof (cases "mirror_of (v_cache v)")
    case None
    then have "\<not> (cache_isDirty (v_cache v) \<and> bit (c_status (v_cache v)) 1)"
      by (auto simp: mirror_of_def mirror_bit split: if_splits)
    then show ?thesis using assms None by (auto simp: flushed_def vol_ok_def)
  next
    case (Some m)
    then have m: "m = c_sector (v_cache v) + v_sectorsPerFat v"
      using mo by (auto simp: mirror_of_def split: if_splits)
    show ?thesis
    proof (cases "s = c_sector (v_cache v)")
      case True
      then show ?thesis using Some m n by (simp add: flushed_def view_def)
    next
      case False
      then have "store M v (s + v_sectorsPerFat v) = store M v s" using assms by (auto simp: vol_ok_def)
      then show ?thesis using Some m False by (simp add: flushed_def)
    qed
  qed
qed

lemma prepare_ok:
  assumes "dev_works D M" "vol_ok M v" "s \<notin> fat2 v" "s \<noteq> 0xFFFFFFFF" "opt AND CACHE_OPTION_NO_READ = 0"
    and "bit opt 1 \<Longrightarrow> s \<in> fat1 v" "bit opt 0 \<Longrightarrow> s \<in> fat1 v \<Longrightarrow> bit opt 1"
  shows "\<exists>v'. dataCachePrepare D s opt v = (True, v') \<and> vol_ok M v' \<and> same_store M v v' \<and>
    c_sector (v_cache v') = s \<and> cached v' = store M v s \<and>
    (bit opt 0 \<longrightarrow> cache_isDirty (v_cache v')) \<and> (bit opt 1 \<longrightarrow> bit (c_status (v_cache v')) 1)"
proof -
  let ?c = "v_cache v"
  have g: "geo_ok v" and coh: "coherent M ?c" and mo: "c_mirror ?c = v_sectorsPerFat v"
    using assms(2) by (simp_all add: vol_ok_def)
  obtain c' where c': "FsCache_prepare D s opt ?c = (True, c')" "coherent M c'" "c_sector c' = s"
    "c_mirror c' = c_mirror ?c" "view M c' = (if c_sector ?c = s then view M ?c else flushed M ?c)"
    "c_buffer c' = view M c' s"
    "c_status c' = (if c_sector ?c = s then c_status ?c else 0) OR (opt AND 3)"
    using prepare_spec [OF assms(1) coh assms(4,5)] by blast
  let ?v = "v\<lparr>v_cache := c'\<rparr>"
  have st: "bit (c_status c') n = (c_sector ?c = s \<and> bit (c_status ?c) n \<or> bit opt n)" if "n = 0 \<or> n = 1" for n
  proof -
    have "bit (3 :: byte) n" using that by (auto simp: bit_numeral_rec)
    then show ?thesis by (simp add: c'(7) bit_simps)
  qed
  have vw: "store M ?v t = store M v t" if "t \<notin> fat2 v" for t
    using that flushed_store [OF assms(2)] by (simp add: c'(5))
  have "vol_ok M ?v"
    unfolding vol_ok_def
  proof (intro conjI ballI impI)
    show "geo_ok ?v" "coherent M (v_cache ?v)" "c_mirror (v_cache ?v) = v_sectorsPerFat ?v"
      using g c' mo by simp_all
    show "c_sector (v_cache ?v) \<in> fat1 ?v" if "bit (c_status (v_cache ?v)) 1"
      using that st [of 1] assms(2,6) c'(3) by (auto simp: vol_ok_def)
  next
    fix t assume "t \<in> fat1 ?v"
    then have t: "t \<in> fat1 v" by simp
    show "store M ?v (t + v_sectorsPerFat ?v) = store M ?v t \<or>
        c_sector (v_cache ?v) = t \<and> cache_isDirty (v_cache ?v) \<and> bit (c_status (v_cache ?v)) 1"
    proof (cases "c_sector ?c = s")
      case True
      then show ?thesis using t assms(2) c'(3,5) st [of 0] st [of 1] by (auto simp: vol_ok_def dirty_bit)
    next
      case False
      then have "view M c' (t + v_sectorsPerFat v) = store M v t"
        using flushed_mirrored [OF assms(2) t] c'(5) by simp
      moreover have "view M c' t = store M v t" using vw [of t] fat_disjoint(1) [OF g t] by simp
      ultimately show ?thesis by simp
    qed
  qed
  moreover have "same_store M v ?v" using vw by (auto simp: same_store_def)
  moreover have "cached ?v = store M v s" using vw [of s] assms(3) c'(6) by simp
  moreover have "bit opt 0 \<longrightarrow> cache_isDirty (v_cache ?v)" "bit opt 1 \<longrightarrow> bit (c_status (v_cache ?v)) 1"
    using st [of 0] st [of 1] by (simp_all add: dirty_bit)
  ultimately show ?thesis using c'(1,3) by (intro exI [of _ ?v]) (simp add: dataCachePrepare_def)
qed

lemma set_cached_ok:
  assumes "vol_ok M v" "cache_isDirty (v_cache v)" "c_sector (v_cache v) = s" "s \<notin> fat2 v"
    and "s \<in> fat1 v \<Longrightarrow> bit (c_status (v_cache v)) 1" "length b = 512"
  shows "vol_ok M (set_cached b v)" "store M (set_cached b v) = (store M v)(s := b)"
proof -
  have g: "geo_ok v" and coh: "coherent M (v_cache v)" using assms(1) by (simp_all add: vol_ok_def)
  note B = buffer_write [OF coh assms(2,6)]
  show st: "store M (set_cached b v) = (store M v)(s := b)" using B(2) assms(3) by (simp add: set_cached_def)
  have d: "cache_isDirty (v_cache (set_cached b v))" using assms(2) by (simp add: set_cached_def cache_isDirty_def)
  show "vol_ok M (set_cached b v)"
    unfolding vol_ok_def st
  proof (intro conjI ballI impI)
    show "geo_ok (set_cached b v)" "coherent M (v_cache (set_cached b v))"
      "c_mirror (v_cache (set_cached b v)) = v_sectorsPerFat (set_cached b v)"
      using assms(1) B(1) by (simp_all add: set_cached_def vol_ok_def)
    show "c_sector (v_cache (set_cached b v)) \<in> fat1 (set_cached b v)" if "bit (c_status (v_cache (set_cached b v))) 1"
      using assms(1) that by (simp add: set_cached_def vol_ok_def)
  next
    fix t assume "t \<in> fat1 (set_cached b v)"
    then have t: "t \<in> fat1 v" by (simp add: set_cached_def)
    then have "t + v_sectorsPerFat v \<noteq> s" using fat_disjoint(3) [OF g t] assms(4) by auto
    then show "((store M v)(s := b)) (t + v_sectorsPerFat (set_cached b v)) = ((store M v)(s := b)) t \<or>
        c_sector (v_cache (set_cached b v)) = t \<and> cache_isDirty (v_cache (set_cached b v)) \<and>
        bit (c_status (v_cache (set_cached b v))) 1"
      using assms(1,3,5) t d by (auto simp: set_cached_def vol_ok_def)
  qed
qed

section \<open>Entries\<close>

text \<open>Reading a field back, after a write at the same or at another offset.\<close>

lemma take_drop_put_at:
  assumes "off + length xs \<le> length b"
  shows "take (length xs) (drop off (put_at off xs b)) = xs"
  using assms by (simp add: put_at_def)

lemma getLe32_setLe32:
  assumes "off + 4 \<le> length b"
  shows "getLe32 (setLe32 off w b) off = w"
proof -
  have "(le_word 4 (drop off (put_at off (le_bytes 4 w) b)) :: 32 word) = le_word 4 (le_bytes 4 w @ [])"
    by (rule le_word_cong) (use assms in \<open>simp add: nth_put_at\<close>)
  then show ?thesis using le_word_le_bytes [of 4 w "[]"] by (simp add: getLe32_def setLe32_def)
qed

lemma getLe16_setLe16:
  assumes "off + 2 \<le> length b"
  shows "getLe16 (setLe16 off w b) off = w"
proof -
  have "(le_word 2 (drop off (put_at off (le_bytes 2 w) b)) :: 16 word) = le_word 2 (le_bytes 2 w @ [])"
    by (rule le_word_cong) (use assms in \<open>simp add: nth_put_at\<close>)
  then show ?thesis using le_word_le_bytes [of 2 w "[]"] by (simp add: getLe16_def setLe16_def)
qed

lemma getLe32_other:
  assumes "off' + 4 \<le> off \<or> off + length xs \<le> off'" "off + length xs \<le> length b" "off' + 4 \<le> length b"
  shows "getLe32 (put_at off xs b) off' = getLe32 b off'"
  unfolding getLe32_def by (rule le_word_cong) (use assms in \<open>auto simp: nth_put_at\<close>)

lemma getLe16_other:
  assumes "off' + 2 \<le> off \<or> off + length xs \<le> off'" "off + length xs \<le> length b" "off' + 2 \<le> length b"
  shows "getLe16 (put_at off xs b) off' = getLe16 b off'"
  unfolding getLe16_def by (rule le_word_cong) (use assms in \<open>auto simp: nth_put_at\<close>)

lemma length_setLe [simp]:
  "off + 4 \<le> length b \<Longrightarrow> length (setLe32 off w b) = length b"
  "off + 2 \<le> length b \<Longrightarrow> length (setLe16 off w' b) = length b"
  by (simp_all add: setLe32_def setLe16_def)

text \<open>The sector and the offset of the entry of a cluster, and the entry itself.\<close>

definition valid_cluster :: "'d fatvol \<Rightarrow> 32 word \<Rightarrow> bool" where
  "valid_cluster v c \<longleftrightarrow> 2 \<le> c \<and> c \<le> v_lastCluster v"

definition fat_sector :: "'d fatvol \<Rightarrow> 32 word \<Rightarrow> 32 word" where
  "fat_sector v c = v_fatStartSector v + word_of_nat (unat c div entries_per_sector v)"

definition fat_offset :: "'d fatvol \<Rightarrow> 32 word \<Rightarrow> nat" where
  "fat_offset v c = (if v_fatType v = FAT_TYPE_FAT32 then 4 * (unat c mod 128) else 2 * (unat c mod 256))"

definition ent :: "('d \<Rightarrow> 32 word \<Rightarrow> byte list) \<Rightarrow> 'd fatvol \<Rightarrow> 32 word \<Rightarrow> 32 word" where
  "ent M v c =
     (let b = store M v (fat_sector v c) in
      if v_fatType v = FAT_TYPE_FAT32 then getLe32 b (fat_offset v c) else ucast (getLe16 b (fat_offset v c)))"

text \<open>What a FAT16 entry keeps of a value.\<close>

definition fit_entry :: "'d fatvol \<Rightarrow> 32 word \<Rightarrow> 32 word" where
  "fit_entry v val = (if v_fatType v = FAT_TYPE_FAT32 then val else ucast (ucast val :: 16 word))"

lemma push_bit_mask_offset:
  "unat (push_bit 2 c AND 0x1FF :: 32 word) = 4 * (unat c mod 128)"
  "unat (c * 2 AND 0x1FF :: 32 word) = 2 * (unat c mod 256)"
proof -
  have m: "(0x1FF :: 32 word) = mask 9" by (simp add: mask_eq_exp_minus_1)
  have d: "x mod 4294967296 mod 512 = x mod (512 :: nat)" for x by (rule mod_mod_cancel) simp
  have e: "unat c * 4 mod 512 = 4 * (unat c mod 128)" "unat c * 2 mod 512 = 2 * (unat c mod 256)"
    using mult_mod_right [of 4 "unat c" 128] mult_mod_right [of 2 "unat c" 256] by (simp_all add: mult.commute)
  show "unat (push_bit 2 c AND 0x1FF :: 32 word) = 4 * (unat c mod 128)"
    "unat (c * 2 AND 0x1FF :: 32 word) = 2 * (unat c mod 256)"
    unfolding m take_bit_eq_mask [symmetric]
    by (simp_all add: take_bit_eq_mod push_bit_eq_mult unat_mod unat_word_ariths d e)
qed

lemma fat_sector_code:
  assumes "geo_ok v" "valid_cluster v c"
  shows "v_fatType v = FAT_TYPE_FAT32 \<Longrightarrow> v_fatStartSector v + drop_bit 7 c = fat_sector v c"
    "v_fatType v = FAT_TYPE_FAT16 \<Longrightarrow> c AND 0xFFFF = c"
    "v_fatType v = FAT_TYPE_FAT16 \<Longrightarrow> v_fatStartSector v + drop_bit 8 c = fat_sector v c"
proof -
  show "v_fatType v = 32 \<Longrightarrow> v_fatStartSector v + drop_bit 7 c = fat_sector v c"
    "v_fatType v = 16 \<Longrightarrow> v_fatStartSector v + drop_bit 8 c = fat_sector v c"
    by (simp_all add: fat_sector_def entries_per_sector_def word_unat_eq_iff unat_drop_bit_eq drop_bit_eq_div
          unat_of_nat unat_word_ariths)
  assume "v_fatType v = 16"
  then have "c < 0xFFFF" using assms by (auto simp: geo_ok_def valid_cluster_def)
  then have "unat c < 65536" by (simp add: word_less_nat_alt)
  moreover have m: "(0xFFFF :: 32 word) = mask 16" by (simp add: mask_eq_exp_minus_1)
  ultimately show "c AND 0xFFFF = c"
    unfolding m take_bit_eq_mask [symmetric] by (simp add: take_bit_eq_mod word_unat_eq_iff unat_mod)
qed

lemma fat_sector_fat1:
  assumes "geo_ok v" "valid_cluster v c"
  shows "fat_sector v c \<in> fat1 v"
proof -
  have "unat c < unat (v_sectorsPerFat v) * entries_per_sector v"
    using assms by (auto simp: geo_ok_def valid_cluster_def word_le_nat_alt)
  then have "unat c div entries_per_sector v < unat (v_sectorsPerFat v)"
    by (simp add: less_mult_imp_div_less)
  then show ?thesis by (auto simp: fat1_def fat_sector_def)
qed

lemma fat_offset_bound:
  "v_fatType v = FAT_TYPE_FAT32 \<Longrightarrow> fat_offset v c + 4 \<le> 512" "v_fatType v \<noteq> FAT_TYPE_FAT32 \<Longrightarrow> fat_offset v c + 2 \<le> 512"
  by (simp_all add: fat_offset_def)

lemma fat_entry_distinct:
  assumes "geo_ok v" "valid_cluster v c" "valid_cluster v c'" "c \<noteq> c'" "fat_sector v c = fat_sector v c'"
  shows "unat c mod entries_per_sector v \<noteq> unat c' mod entries_per_sector v"
proof
  assume m: "unat c mod entries_per_sector v = unat c' mod entries_per_sector v"
  have "unat x div entries_per_sector v < 2 ^ 32" for x :: "32 word"
    using unat_bound [of x] by (auto intro: le_less_trans [OF div_le_dividend])
  moreover have "(word_of_nat (unat c div entries_per_sector v) :: 32 word) = word_of_nat (unat c' div entries_per_sector v)"
    using assms(5) by (simp add: fat_sector_def)
  ultimately have "unat c div entries_per_sector v = unat c' div entries_per_sector v"
    by (simp add: word_unat_eq_iff unat_of_nat)
  then have "unat c = unat c'" using m by (metis div_mult_mod_eq)
  then show False using assms(4) by (simp add: word_unat_eq_iff)
qed

lemma same_store_fields:
  "same_store M v v' \<Longrightarrow> fat_sector v' = fat_sector v"
  "same_store M v v' \<Longrightarrow> fat_offset v' = fat_offset v"
  "same_store M v v' \<Longrightarrow> v_fatType v' = v_fatType v"
  by (auto simp: same_store_def fat_sector_def fat_offset_def entries_per_sector_def)

lemma same_store_ent:
  assumes "same_store M v v'" "geo_ok v" "valid_cluster v c"
  shows "ent M v' c = ent M v c"
proof -
  have "store M v' (fat_sector v c) = store M v (fat_sector v c)"
    using assms fat_disjoint(1) [OF assms(2) fat_sector_fat1 [OF assms(2,3)]] by (auto simp: same_store_def)
  moreover have "fat_sector v' c = fat_sector v c" "fat_offset v' c = fat_offset v c" "v_fatType v' = v_fatType v"
    using assms(1) by (auto simp: same_store_def fat_sector_def fat_offset_def entries_per_sector_def)
  ultimately show ?thesis by (simp add: ent_def Let_def)
qed


section \<open>Reading and writing an entry\<close>

lemma fatGet_spec:
  assumes "dev_works D M" "vol_ok M v" "valid_cluster v c"
  shows "\<exists>v'. fatGet D c v = (fat_result v (ent M v c), v') \<and> vol_ok M v' \<and> same_store M v v'"
proof -
  have g: "geo_ok v" using assms(2) by (simp add: vol_ok_def)
  note S = fat_sector_fat1 [OF g assms(3)]
  obtain v' where v': "dataCachePrepare D (fat_sector v c) 2 v = (True, v')" "vol_ok M v'" "same_store M v v'"
    "cached v' = store M v (fat_sector v c)"
    using prepare_ok [OF assms(1,2) fat_disjoint(1) [OF g S] fat_disjoint(2) [OF g S], of 2] S
    by (auto simp: bit_numeral_rec)
  have f: "fat_result v' = fat_result v" "v_fatType v' = v_fatType v"
    using v'(3) by (auto simp: same_store_def fat_result_def isEOC_def)
  have n: "\<not> (c < 2 \<or> v_lastCluster v < c)" using assms(3) by (auto simp: valid_cluster_def not_less)
  have "fatGet D c v = (fat_result v (ent M v c), v')"
    using g n f v'(1,4) fat_sector_code [OF g assms(3)]
    by (auto simp: fatGet_def geo_ok_def fatCachePrepare_def ent_def fat_offset_def push_bit_mask_offset Let_def)
  then show ?thesis using v'(2,3) by blast
qed

text \<open>Only the cache and the search start changed, the entries are \<open>f\<close>, and what lies outside the two
  FATs is as before.\<close>

definition fat_now ::
    "('d \<Rightarrow> 32 word \<Rightarrow> byte list) \<Rightarrow> (32 word \<Rightarrow> 32 word) \<Rightarrow> 'd fatvol \<Rightarrow> 'd fatvol \<Rightarrow> bool" where
  "fat_now M f v v' \<longleftrightarrow> (\<exists>ca a. v' = v\<lparr>v_cache := ca, v_allocSearchStart := a\<rparr>) \<and>
     (\<forall>c. valid_cluster v c \<longrightarrow> ent M v' c = f c) \<and>
     (\<forall>s. s \<notin> fat1 v \<union> fat2 v \<longrightarrow> store M v' s = store M v s)"

lemma fat_now_fields:
  assumes "fat_now M f v v'"
  shows "fat1 v' = fat1 v" "fat2 v' = fat2 v" "v_fatType v' = v_fatType v" "valid_cluster v' = valid_cluster v"
    "v_lastCluster v' = v_lastCluster v" "fit_entry v' = fit_entry v" "fat_result v' = fat_result v" "isEOC v' = isEOC v"
    "clusterStartSector v' = clusterStartSector v" "v_sectorsPerCluster v' = v_sectorsPerCluster v"
    "v_dataStartSector v' = v_dataStartSector v" "v_sectorsPerClusterShift v' = v_sectorsPerClusterShift v"
    "v_rootDirStart v' = v_rootDirStart v" "v_rootDirEntryCount v' = v_rootDirEntryCount v"
    "v_clusterSectorMask v' = v_clusterSectorMask v" "geo_ok v' = geo_ok v"
  using assms by (auto simp: fat_now_def fat1_def fat2_def valid_cluster_def fit_entry_def fat_result_def isEOC_def
    geo_ok_def entries_per_sector_def clusterStartSector_def fun_eq_iff)

lemma fat_now_trans:
  assumes "fat_now M f v v'" "fat_now M g v' v''"
  shows "fat_now M g v v''"
proof -
  have "\<exists>ca a. v'' = v\<lparr>v_cache := ca, v_allocSearchStart := a\<rparr>"
    using assms unfolding fat_now_def by (elim conjE exE) (intro exI, simp)
  then show ?thesis using assms fat_now_fields(1,2,4) [OF assms(1)] by (simp add: fat_now_def)
qed

lemma fat_now_ent: "fat_now M f v v' \<Longrightarrow> valid_cluster v c \<Longrightarrow> ent M v' c = f c"
  by (simp add: fat_now_def)

lemma fat_now_cong: "fat_now M f v v' \<Longrightarrow> (\<And>c. valid_cluster v c \<Longrightarrow> f c = g c) \<Longrightarrow> fat_now M g v v'"
  by (simp add: fat_now_def)

lemma same_store_now: "same_store M v v' \<Longrightarrow> geo_ok v \<Longrightarrow> fat_now M (ent M v) v v'"
  using same_store_ent [of M v v']
  by (auto simp: fat_now_def same_store_def intro!: exI [of _ "v_allocSearchStart v"])

lemma search_start [simp]:
  "vol_ok M (v\<lparr>v_allocSearchStart := a\<rparr>) = vol_ok M v" "ent M (v\<lparr>v_allocSearchStart := a\<rparr>) = ent M v"
  "valid_cluster (v\<lparr>v_allocSearchStart := a\<rparr>) = valid_cluster v"
  by (auto simp: vol_ok_def geo_ok_def entries_per_sector_def fat1_def ent_def fat_sector_def fat_offset_def
    valid_cluster_def fun_eq_iff)

lemma fat_now_start: "fat_now M f v v' \<Longrightarrow> fat_now M f v (v'\<lparr>v_allocSearchStart := a\<rparr>)"
  unfolding fat_now_def by (elim conjE exE) (intro conjI exI, auto)

lemma ent_set_other:
  assumes "geo_ok v" "valid_cluster v c" "valid_cluster v c'" "c' \<noteq> c"
    and "length b = 512" "b = m (fat_sector v c)"
    and b'_def: "b' = (if v_fatType v = FAT_TYPE_FAT32 then setLe32 (fat_offset v c) val b else setLe16 (fat_offset v c) (ucast val) b)"
  shows "(if v_fatType v = FAT_TYPE_FAT32 then getLe32 ((m(fat_sector v c := b')) (fat_sector v c')) (fat_offset v c')
      else ucast (getLe16 ((m(fat_sector v c := b')) (fat_sector v c')) (fat_offset v c'))) =
     (if v_fatType v = FAT_TYPE_FAT32 then getLe32 (m (fat_sector v c')) (fat_offset v c')
      else ucast (getLe16 (m (fat_sector v c')) (fat_offset v c')))"
proof (cases "fat_sector v c' = fat_sector v c")
  case True
  have d: "unat c mod entries_per_sector v \<noteq> unat c' mod entries_per_sector v"
    by (rule fat_entry_distinct [OF assms(1-3)]) (use assms(4) True in simp_all)
  show ?thesis
  proof (cases "v_fatType v = 32")
    case t: True
    have "4 * (unat c' mod 128) + 4 \<le> 4 * (unat c mod 128) \<or> 4 * (unat c mod 128) + 4 \<le> 4 * (unat c' mod 128)"
      using d t by (auto simp: entries_per_sector_def)
    then show ?thesis using t True assms(5,6) fat_offset_bound [of v]
      by (simp add: b'_def setLe32_def fat_offset_def getLe32_other)
  next
    case t: False
    have "2 * (unat c' mod 256) + 2 \<le> 2 * (unat c mod 256) \<or> 2 * (unat c mod 256) + 2 \<le> 2 * (unat c' mod 256)"
      using d t by (auto simp: entries_per_sector_def)
    then show ?thesis using t True assms(5,6) fat_offset_bound [of v]
      by (simp add: b'_def setLe16_def fat_offset_def getLe16_other)
  qed
qed simp

lemma fatPut_spec:
  assumes "dev_works D M" "vol_ok M v" "valid_cluster v c"
  shows "\<exists>v'. fatPut D c val v = (True, v') \<and> vol_ok M v' \<and> fat_now M ((ent M v)(c := fit_entry v val)) v v' \<and>
    v_allocSearchStart v' = v_allocSearchStart v"
proof -
  have g: "geo_ok v" using assms(2) by (simp add: vol_ok_def)
  note S = fat_sector_fat1 [OF g assms(3)]
  let ?s = "fat_sector v c"
  obtain v1 where v1: "dataCachePrepare D ?s 3 v = (True, v1)" "vol_ok M v1" "same_store M v v1"
    "c_sector (v_cache v1) = ?s" "cached v1 = store M v ?s" "cache_isDirty (v_cache v1)" "bit (c_status (v_cache v1)) 1"
    using prepare_ok [OF assms(1,2) fat_disjoint(1) [OF g S] fat_disjoint(2) [OF g S], of 3] S
    by (auto simp: bit_numeral_rec)
  have L: "length (cached v1) = 512" using v1(2) by (simp add: vol_ok_def coherent_def)
  define b where "b = (if v_fatType v = FAT_TYPE_FAT32 then setLe32 (fat_offset v c) val (cached v1)
    else setLe16 (fat_offset v c) (ucast val) (cached v1))"
  have lb: "length b = 512" using L fat_offset_bound [of v c] by (auto simp: b_def)
  let ?v = "set_cached b v1"
  have n: "\<not> (c < 2 \<or> v_lastCluster v < c)" using assms(3) by (auto simp: valid_cluster_def not_less)
  have f: "v_fatType v1 = v_fatType v" using v1(3) by (auto simp: same_store_def)
  have e: "fatPut D c val v = (True, ?v)"
    using g n f v1(1) fat_sector_code [OF g assms(3)]
    by (auto simp: fatPut_def geo_ok_def fatCachePrepare_def b_def fat_offset_def push_bit_mask_offset Let_def)
  have s2: "?s \<notin> fat2 v1" "fat1 v1 = fat1 v" "fat2 v1 = fat2 v"
    using fat_disjoint(1) [OF g S] same_store_geometry [OF v1(3)] by simp_all
  note W = set_cached_ok [OF v1(2,6,4) s2(1) v1(7) lb]
  obtain ca where ca: "?v = v\<lparr>v_cache := ca\<rparr>" using v1(3) by (auto simp: same_store_def set_cached_def)
  have geo: "fat_sector ?v = fat_sector v" "fat_offset ?v = fat_offset v" "v_fatType ?v = v_fatType v"
    unfolding ca by (auto simp: fat_sector_def fat_offset_def entries_per_sector_def)
  have "ent M ?v c' = (if c' = c then fit_entry v val else ent M v c')" if v: "valid_cluster v c'" for c'
  proof (cases "c' = c")
    case True
    have "ent M ?v c = (if v_fatType v = 32 then getLe32 b (fat_offset v c) else ucast (getLe16 b (fat_offset v c)))"
      by (simp add: ent_def geo W(2))
    then show ?thesis using True L fat_offset_bound [of v c]
      by (auto simp: b_def getLe32_setLe32 getLe16_setLe16 fit_entry_def)
  next
    case False
    have "cached v1 = store M v1 ?s"
      using v1(3,5) fat_disjoint(1) [OF g S] by (simp add: same_store_def)
    then have "ent M ?v c' = ent M v1 c'"
      using ent_set_other [OF g assms(3) v False L _ b_def, of "store M v1"] same_store_fields [OF v1(3)]
      by (simp only: ent_def geo W(2) Let_def)
    then show ?thesis using same_store_ent [OF v1(3) g v] False by simp
  qed
  moreover have "store M ?v s = store M v s" if "s \<notin> fat1 v \<union> fat2 v" for s
    using that v1(3) S by (auto simp: W(2) same_store_def)
  ultimately show ?thesis using e ca W(1) by (auto simp: fat_now_def intro!: exI [of _ "v_allocSearchStart v"])
qed


text \<open>The same of the reading operation.\<close>

lemma fatGet_now:
  assumes "dev_works D M" "vol_ok M v" "valid_cluster v c"
  shows "\<exists>v'. fatGet D c v = (fat_result v (ent M v c), v') \<and> vol_ok M v' \<and> fat_now M (ent M v) v v' \<and>
    v_allocSearchStart v' = v_allocSearchStart v"
proof -
  obtain v' where v': "fatGet D c v = (fat_result v (ent M v c), v')" "vol_ok M v'" "same_store M v v'"
    using fatGet_spec [OF assms] by blast
  have "geo_ok v" using assms(2) by (simp add: vol_ok_def)
  then show ?thesis using v' same_store_now [OF v'(3)] same_store_geometry(8) [OF v'(3)] by blast
qed

lemma invalid_cluster:
  "\<not> valid_cluster v c \<Longrightarrow> fatGet D c v = (FatError, v)" "\<not> valid_cluster v c \<Longrightarrow> fatPut D c val v = (False, v)"
  by (auto simp: fatGet_def fatPut_def valid_cluster_def not_le)

end
