(* ===== verification/FatChains.thy ===== *)
theory FatChains
  imports FatStore
begin

text \<open>
  Cluster chains: what \<open>fatGet\<close> and \<open>fatPut\<close> promise their callers, as a locale, and what the chain
  operations of \<open>FatPartition.cpp\<close> do: \<open>freeChain\<close>, \<open>allocateCluster\<close> and the synchronisation of the FATs.
\<close>

section \<open>The interface of the FAT\<close>

text \<open>Following \<open>n\<close> links, as the loops of the file operations do; no result at the end mark or on an error.\<close>

fun follow :: "(32 word \<Rightarrow> 'v \<Rightarrow> fat_result \<times> 'v) \<Rightarrow> nat \<Rightarrow> 32 word \<Rightarrow> 'v \<Rightarrow> 32 word option \<times> 'v" where
  "follow get 0 c v = (Some c, v)"
| "follow get (Suc n) c v =
     (case get c v of (FatNext d, v) \<Rightarrow> follow get n d v | (_, v) \<Rightarrow> (None, v))"

text \<open>A list of clusters, each linked to the next, the last one to an end mark.\<close>

fun linked :: "(32 word \<Rightarrow> 32 word) \<Rightarrow> (32 word \<Rightarrow> bool) \<Rightarrow> 32 word list \<Rightarrow> bool" where
  "linked f eoc [] = False"
| "linked f eoc [c] = eoc (f c)"
| "linked f eoc (c # d # cs) \<longleftrightarrow> f c = d \<and> \<not> eoc d \<and> linked f eoc (d # cs)"

lemma linked_cong: "(\<And>c. c \<in> set cs \<Longrightarrow> f c = g c) \<Longrightarrow> linked f eoc cs = linked g eoc cs"
  by (induction f eoc cs rule: linked.induct) auto

lemma linked_heads: "linked f eoc cs \<Longrightarrow> linked f eoc ds \<Longrightarrow> hd cs = hd ds \<Longrightarrow> cs = ds"
proof (induction f eoc cs arbitrary: ds rule: linked.induct)
  case (2 f eoc c)
  then show ?case by (cases "(f, eoc, ds)" rule: linked.cases) auto
next
  case (3 f eoc c d cs)
  then obtain e es where ds: "ds = c # e # es"
    by (cases "(f, eoc, ds)" rule: linked.cases) auto
  then have e: "e = d" "linked f eoc (d # es)" using 3 by auto
  then have "d # cs = d # es" using 3(1) [of "d # es"] 3(2) by simp
  then show ?case using ds e by simp
qed simp

lemma linked_suffix: "linked f eoc (cs @ d # ds) \<Longrightarrow> linked f eoc (d # ds)"
  by (induction cs rule: induct_list012) (auto elim: linked.elims)

text \<open>No cluster is twice on a chain.\<close>

lemma linked_distinct: "linked f eoc cs \<Longrightarrow> distinct cs"
proof (induction f eoc cs rule: linked.induct)
  case (3 f eoc c d cs)
  have "c \<notin> set (d # cs)"
  proof
    assume "c \<in> set (d # cs)"
    then obtain xs ys where e: "d # cs = xs @ c # ys" by (meson split_list)
    have "linked f eoc ((c # xs) @ c # ys)" using 3(2) e by simp
    then have "linked f eoc (c # ys)" by (rule linked_suffix)
    then have "c # ys = c # d # cs" using linked_heads [of f eoc "c # ys" "c # d # cs"] 3(2) by simp
    then show False using arg_cong [OF e, of length] by simp
  qed
  then show ?case using 3 by auto
qed simp_all

text \<open>
  A FAT keeps a link for every valid cluster: reading returns it and changes no link; writing changes the
  one link. \<open>rel f v v'\<close> says that \<open>v'\<close> is the same volume as \<open>v\<close> with the links \<open>f\<close>.
\<close>

locale fat_table =
  fixes get :: "32 word \<Rightarrow> 'v \<Rightarrow> fat_result \<times> 'v" and put :: "32 word \<Rightarrow> 32 word \<Rightarrow> 'v \<Rightarrow> bool \<times> 'v"
    and inv :: "'v \<Rightarrow> bool" and link :: "'v \<Rightarrow> 32 word \<Rightarrow> 32 word" and valid eoc :: "'v \<Rightarrow> 32 word \<Rightarrow> bool"
    and fit :: "'v \<Rightarrow> 32 word \<Rightarrow> 32 word" and rel :: "(32 word \<Rightarrow> 32 word) \<Rightarrow> 'v \<Rightarrow> 'v \<Rightarrow> bool"
  assumes get_law: "inv v \<Longrightarrow> valid v c \<Longrightarrow>
      \<exists>v'. get c v = (if eoc v (link v c) then FatEOC else FatNext (link v c), v') \<and> inv v' \<and> rel (link v) v v'"
    and put_law: "inv v \<Longrightarrow> valid v c \<Longrightarrow>
      \<exists>v'. put c d v = (True, v') \<and> inv v' \<and> rel ((link v)(c := fit v d)) v v'"
    and get_bad: "\<not> valid v c \<Longrightarrow> get c v = (FatError, v)"
    and rel_links: "rel f v v' \<Longrightarrow> valid v c \<Longrightarrow> link v' c = f c"
    and rel_same: "rel f v v' \<Longrightarrow> valid v' = valid v \<and> eoc v' = eoc v \<and> fit v' = fit v"
    and rel_trans: "rel f v v' \<Longrightarrow> rel g v' v'' \<Longrightarrow> rel g v v''"
    and rel_cong: "rel f v v' \<Longrightarrow> (\<And>c. valid v c \<Longrightarrow> f c = g c) \<Longrightarrow> rel g v v'"
    and rel_refl: "rel (link v) v v"
begin

text \<open>What is put is what is read, and the links of the other clusters stay.\<close>

lemma put_get:
  assumes "inv v" "valid v c" "valid v e" "put c d v = (ok, v')"
  shows "ok \<and> inv v' \<and> (\<exists>v''. get e v' = (let n = if e = c then fit v d else link v e in
      if eoc v n then FatEOC else FatNext n, v''))"
proof -
  obtain w where w: "put c d v = (True, w)" "inv w" "rel ((link v)(c := fit v d)) v w"
    using put_law [OF assms(1,2)] by blast
  have "valid w e" "eoc w = eoc v" using rel_same [OF w(3)] assms(3) by simp_all
  then show ?thesis using w get_law [OF w(2), of e] rel_links [OF w(3) assms(3)] assms(4) by (auto simp: Let_def)
qed

text \<open>Following links along a chain reaches its members, and runs off a chain only at its end.\<close>

lemma follow_linked:
  assumes "inv v" "linked (link v) (eoc v) cs" "\<forall>c \<in> set cs. valid v c"
  shows "\<exists>v'. follow get n (hd cs) v = (if n < length cs then Some (cs ! n) else None, v') \<and> inv v' \<and> rel (link v) v v'"
  using assms
proof (induction n arbitrary: cs v)
  case 0
  then show ?case using rel_refl [of v] by (cases cs) auto
next
  case (Suc n)
  then obtain c ds where cs: "cs = c # ds" by (cases cs) auto
  obtain w where w: "get c v = (if eoc v (link v c) then FatEOC else FatNext (link v c), w)" "inv w" "rel (link v) v w"
    using get_law [of v c] Suc.prems cs by auto
  note same = rel_same [OF w(3)]
  show ?case
  proof (cases ds)
    case Nil
    then show ?thesis using w Suc.prems cs by auto
  next
    case (Cons d es)
    have "link w x = link v x" if "x \<in> set ds" for x using rel_links [OF w(3)] Suc.prems(3) cs that by auto
    then have "linked (link w) (eoc w) ds = linked (link v) (eoc v) ds"
      using same linked_cong [of ds "link w" "link v"] by simp
    then obtain u where "follow get n d w = (if n < length ds then Some (ds ! n) else None, u)" "inv u" "rel (link w) w u"
      using Suc.IH [of w ds] w(2) Suc.prems cs Cons same by auto
    moreover have "rel (link v) v u"
      using rel_trans [OF w(3) calculation(3)] rel_links [OF w(3)] by (rule rel_cong)
    ultimately show ?thesis using w(1) Suc.prems cs Cons by auto
  qed
qed

end


text \<open>The FAT of a volume on a working card keeps these promises.\<close>

definition fat_inv :: "'d blockdev \<Rightarrow> ('d \<Rightarrow> 32 word \<Rightarrow> byte list) \<Rightarrow> 'd fatvol \<Rightarrow> bool" where
  "fat_inv D M v \<longleftrightarrow> dev_works D M \<and> vol_ok M v"

lemma fat_now_refl: "fat_now M (ent M v) v v"
  by (auto simp: fat_now_def intro!: exI [of _ "v_cache v"] exI [of _ "v_allocSearchStart v"])

interpretation fat: fat_table "fatGet D" "fatPut D" "fat_inv D M" "ent M" valid_cluster isEOC fit_entry "fat_now M"
  for D :: "'d blockdev" and M
proof (unfold_locales, goal_cases)
  case (1 v c)
  then show ?case using fatGet_now [of D M v c] by (auto simp: fat_inv_def fat_result_def)
next
  case (2 v c d)
  then show ?case using fatPut_spec [of D M v c d] by (auto simp: fat_inv_def)
qed (auto simp: invalid_cluster fat_now_ent fat_now_fields fat_now_refl intro: fat_now_trans fat_now_cong)

section \<open>Freeing a chain\<close>

lemma ent_zero [simp]: "fit_entry v 0 = 0"
  by (simp add: fit_entry_def)

text \<open>The chain of \<open>c\<close>, with links \<open>f\<close>.\<close>

definition chain :: "('d \<Rightarrow> 32 word \<Rightarrow> byte list) \<Rightarrow> 'd fatvol \<Rightarrow> 32 word list \<Rightarrow> bool" where
  "chain M v cs \<longleftrightarrow> linked (ent M v) (isEOC v) cs \<and> (\<forall>c \<in> set cs. valid_cluster v c)"

lemma freeChain_step:
  assumes "fat_inv D M v" "valid_cluster v c"
  shows "\<exists>v'. fat_inv D M v' \<and> fat_now M ((ent M v)(c := 0)) v v' \<and>
    freeChain D c v = (if isEOC v (ent M v c) then Some (True, v') else freeChain D (ent M v c) v')"
proof -
  obtain v1 where v1: "fatGet D c v = (fat_result v (ent M v c), v1)" "vol_ok M v1" "fat_now M (ent M v) v v1"
    using fatGet_now assms unfolding fat_inv_def by blast
  have c1: "valid_cluster v1 c" using assms(2) by (simp add: fat_now_fields(4) [OF v1(3)])
  obtain v2 where v2: "fatPut D c 0 v1 = (True, v2)" "vol_ok M v2" "fat_now M ((ent M v1)(c := 0)) v1 v2"
    using fatPut_spec [OF _ v1(2) c1, of D 0] assms(1) by (auto simp: fat_inv_def)
  have now: "fat_now M ((ent M v)(c := 0)) v v2"
    using fat_now_trans [OF v1(3) v2(3)] by (rule fat_now_cong) (simp add: fat_now_ent [OF v1(3)])
  let ?v = "if c < v_allocSearchStart v2 then v2\<lparr>v_allocSearchStart := c - 1\<rparr> else v2"
  have "fat_now M ((ent M v)(c := 0)) v ?v" using now fat_now_start by auto
  moreover have "fat_inv D M ?v" using v2(2) assms(1) by (simp add: fat_inv_def)
  moreover have "freeChain D c v = (if isEOC v (ent M v c) then Some (True, ?v) else freeChain D (ent M v c) ?v)"
    by (subst freeChain.simps) (simp add: v1(1) v2(1) fat_result_def)
  ultimately show ?thesis by (intro exI [of _ ?v] conjI)
qed

lemma freeChain_frees:
  assumes "fat_inv D M v" "chain M v cs"
  shows "\<exists>v'. freeChain D (hd cs) v = Some (True, v') \<and> fat_inv D M v' \<and>
    fat_now M (\<lambda>c. if c \<in> set cs then 0 else ent M v c) v v'"
  using assms
proof (induction cs arbitrary: v rule: induct_list012)
  case 1
  then show ?case by (simp add: chain_def)
next
  case (2 c)
  then obtain v' where "fat_inv D M v'" "fat_now M ((ent M v)(c := 0)) v v'" "freeChain D c v = Some (True, v')"
    using freeChain_step [of D M v c] by (auto simp: chain_def)
  moreover from this(2) have "fat_now M (\<lambda>d. if d \<in> set [c] then 0 else ent M v d) v v'"
    by (rule fat_now_cong) simp
  ultimately show ?case by auto
next
  case (3 c d ds)
  have p: "ent M v c = d" "\<not> isEOC v d" "linked (ent M v) (isEOC v) (d # ds)" "valid_cluster v c"
    "\<forall>x \<in> set (d # ds). valid_cluster v x" using 3(4) by (auto simp: chain_def)
  have c: "c \<notin> set (d # ds)" using 3(4) linked_distinct [of "ent M v" "isEOC v" "c # d # ds"] by (simp add: chain_def)
  obtain v1 where v1: "fat_inv D M v1" "fat_now M ((ent M v)(c := 0)) v v1" "freeChain D c v = freeChain D d v1"
    using freeChain_step [OF 3(3) p(4)] p(1,2) by auto
  have e1: "ent M v1 x = ent M v x" if "x \<in> set (d # ds)" for x
    using fat_now_ent [OF v1(2)] p(5) that c by auto
  have "linked (ent M v1) (isEOC v1) (d # ds)"
    using p(3) linked_cong [of "d # ds" "ent M v1" "ent M v", OF e1] by (simp add: fat_now_fields [OF v1(2)])
  then have "chain M v1 (d # ds)" using p(5) by (simp add: chain_def fat_now_fields [OF v1(2)])
  from 3(2) [OF v1(1) this] obtain v2 where v2: "freeChain D d v1 = Some (True, v2)" "fat_inv D M v2"
    "fat_now M (\<lambda>x. if x \<in> set (d # ds) then 0 else ent M v1 x) v1 v2" by auto
  have "fat_now M (\<lambda>x. if x \<in> set (c # d # ds) then 0 else ent M v x) v v2"
    using fat_now_trans [OF v1(2) v2(3)] by (rule fat_now_cong) (use fat_now_ent [OF v1(2)] in auto)
  then show ?case using v1(3) v2 by auto
qed

text \<open>On any FAT the loop ends: each turn zeroes an entry, and a zero entry ends it.\<close>

definition used_clusters :: "('d \<Rightarrow> 32 word \<Rightarrow> byte list) \<Rightarrow> 'd fatvol \<Rightarrow> 32 word set" where
  "used_clusters M v = {c. valid_cluster v c \<and> ent M v c \<noteq> 0}"

lemma freeChain_ends:
  assumes "fat_inv D M v"
  shows "\<exists>ok v'. freeChain D c v = Some (ok, v') \<and> fat_inv D M v' \<and>
    (\<exists>f. fat_now M f v v' \<and> (\<forall>x. f x = 0 \<or> f x = ent M v x))"
  using assms
proof (induction "card (used_clusters M v)" arbitrary: v c rule: less_induct)
  case less
  show ?case
  proof (cases "valid_cluster v c")
    case False
    then show ?thesis using less.prems fat_now_refl [of M v]
      by (subst freeChain.simps) (auto simp: invalid_cluster intro!: exI [of _ "ent M v"])
  next
    case True
    obtain v1 where v1: "fat_inv D M v1" "fat_now M ((ent M v)(c := 0)) v v1"
      "freeChain D c v = (if isEOC v (ent M v c) then Some (True, v1) else freeChain D (ent M v c) v1)"
      using freeChain_step [OF less.prems True] by auto
    let ?f = "(ent M v)(c := 0)"
    consider (eoc) "isEOC v (ent M v c)" | (zero) "ent M v c = 0" "\<not> isEOC v (ent M v c)"
      | (more) "ent M v c \<noteq> 0" "\<not> isEOC v (ent M v c)" by blast
    then show ?thesis
    proof cases
      case eoc
      then show ?thesis using v1 by (intro exI [of _ True] exI [of _ v1] conjI exI [of _ ?f]) auto
    next
      case zero
      have "freeChain D 0 v1 = Some (False, v1)"
        by (subst freeChain.simps) (simp add: invalid_cluster valid_cluster_def)
      then show ?thesis using v1 zero by (intro exI [of _ False] exI [of _ v1] conjI exI [of _ ?f]) auto
    next
      case more
      have "used_clusters M v1 = used_clusters M v - {c}"
      proof (rule set_eqI)
        fix x
        show "x \<in> used_clusters M v1 \<longleftrightarrow> x \<in> used_clusters M v - {c}"
          using fat_now_ent [OF v1(2), of x] fat_now_fields(4) [OF v1(2)]
          by (cases "x = c"; cases "valid_cluster v x") (simp_all add: used_clusters_def)
      qed
      then have "card (used_clusters M v1) < card (used_clusters M v)"
        using True more by (metis (mono_tags, lifting) card_Diff1_less finite mem_Collect_eq used_clusters_def)
      from less.hyps [OF this v1(1), of "ent M v c"] obtain ok v2 f where
        v2: "freeChain D (ent M v c) v1 = Some (ok, v2)" "fat_inv D M v2" "fat_now M f v1 v2"
          "\<forall>x. f x = 0 \<or> f x = ent M v1 x" by auto
      let ?g = "\<lambda>x. if valid_cluster v x then f x else ent M v x"
      have "fat_now M ?g v v2" using fat_now_trans [OF v1(2) v2(3)] by (rule fat_now_cong) simp
      moreover have "?g x = 0 \<or> ?g x = ent M v x" for x
        using v2(4) fat_now_ent [OF v1(2), of x] by (metis fun_upd_apply)
      ultimately show ?thesis using v1(3) v2 more by (intro exI [of _ ok] exI [of _ v2] conjI exI [of _ ?g]) auto
    qed
  qed
qed


section \<open>Allocating a cluster\<close>

text \<open>The clusters from \<open>a\<close> up to but not including \<open>b\<close>, and the order in which the code tries them.\<close>

definition clusters :: "nat \<Rightarrow> nat \<Rightarrow> 32 word list" where
  "clusters a b = map word_of_nat [a..<b]"

definition alloc_order :: "'d fatvol \<Rightarrow> 32 word \<Rightarrow> 32 word list" where
  "alloc_order v current =
     (let start = Suc (unat (v_allocSearchStart v)); endc = Suc (unat (v_lastCluster v)) in
      if v_allocSearchStart v < current then clusters (Suc (unat current)) endc @ clusters start (unat current)
      else clusters start endc)"

lemma clusters_empty [simp]: "b \<le> a \<Longrightarrow> clusters a b = []"
  by (simp add: clusters_def)

lemma clusters_Cons: "a < b \<Longrightarrow> clusters a b = word_of_nat a # clusters (Suc a) b"
  by (simp add: clusters_def upt_conv_Cons)

lemma clusters_set: "b \<le> 2 ^ 32 \<Longrightarrow> c \<in> set (clusters a b) \<longleftrightarrow> a \<le> unat c \<and> unat c < b"
proof
  assume "b \<le> 2 ^ 32" "c \<in> set (clusters a b)"
  then obtain i where "c = word_of_nat i" "a \<le> i" "i < b" "i < 2 ^ 32" by (auto simp: clusters_def)
  then show "a \<le> unat c \<and> unat c < b" by (simp add: unat_of_nat)
next
  assume "a \<le> unat c \<and> unat c < b"
  then show "c \<in> set (clusters a b)" by (auto simp: clusters_def intro!: image_eqI [of _ _ "unat c"])
qed

lemma unat_add1: "unat (w :: 32 word) < 2 ^ 32 - 1 \<Longrightarrow> unat (w + 1) = Suc (unat w)"
  by (simp add: unat_word_ariths)

text \<open>The loop up to but not including \<open>stop\<close>, where it meets no end of the FAT and not the current cluster.\<close>

lemma alloc_find_run:
  assumes "fat_inv D M v" "1 \<le> fnd" "unat fnd < stop" "stop \<le> Suc (unat (v_lastCluster v))"
    and "\<not> (fnd < current \<and> unat current < stop)"
  shows "\<exists>v'. fat_inv D M v' \<and> fat_now M (ent M v) v v' \<and> v_allocSearchStart v' = v_allocSearchStart v \<and>
    alloc_find D current fnd b v =
     (case find (\<lambda>c. ent M v c = 0) (clusters (Suc (unat fnd)) stop) of
        Some c \<Rightarrow> Some (Some c, b, v') | None \<Rightarrow> alloc_find D current (word_of_nat (stop - 1)) b v')"
  using assms
proof (induction "stop - unat fnd" arbitrary: fnd v rule: less_induct)
  case less
  show ?case
  proof (cases "Suc (unat fnd) < stop")
    case False
    then have "stop = Suc (unat fnd)" using less.prems(3) by simp
    then show ?thesis using less.prems(1) fat_now_refl [of M v] by (auto intro!: exI [of _ v])
  next
    case True
    have last: "unat (v_lastCluster v) < 2 ^ 32 - 1"
      using less.prems(1) by (auto simp: fat_inv_def vol_ok_def geo_ok_def word_less_nat_alt split: if_splits)
    have s: "unat (fnd + 1) = Suc (unat fnd)" using True less.prems(4) last by (intro unat_add1) simp
    then have w: "word_of_nat (Suc (unat fnd)) = fnd + 1" by (simp add: add.commute)
    have cl: "clusters (Suc (unat fnd)) stop = (fnd + 1) # clusters (Suc (Suc (unat fnd))) stop"
      using clusters_Cons [OF True] w by simp
    have val: "valid_cluster v (fnd + 1)"
      using less.prems(2,4) True s by (simp add: valid_cluster_def word_le_nat_alt)
    obtain v1 where v1: "fatGet D (fnd + 1) v = (fat_result v (ent M v (fnd + 1)), v1)" "vol_ok M v1"
      "fat_now M (ent M v) v v1" "v_allocSearchStart v1 = v_allocSearchStart v"
      using fatGet_now val less.prems(1) unfolding fat_inv_def by blast
    have i1: "fat_inv D M v1" using less.prems(1) v1(2) by (simp add: fat_inv_def)
    have n: "\<not> fnd + 1 > v_lastCluster v" "fnd + 1 \<noteq> current"
      using less.prems(3-5) True s by (auto simp: word_less_nat_alt)
    have z: "\<not> isEOC v 0" by (simp add: isEOC_def)
    show ?thesis
    proof (cases "ent M v (fnd + 1) = 0")
      case e: True
      have "alloc_find D current fnd b v = Some (Some (fnd + 1), b, v1)"
        by (subst alloc_find.simps) (use n e z v1(1) in \<open>simp add: fat_result_def\<close>)
      then show ?thesis using i1 v1(3,4) e by (intro exI [of _ v1]) (simp add: cl)
    next
      case e: False
      have step: "alloc_find D current fnd b v = alloc_find D current (fnd + 1) b v1"
        by (subst alloc_find.simps) (use n e v1(1) in \<open>simp add: fat_result_def\<close>)
      have "\<exists>v'. fat_inv D M v' \<and> fat_now M (ent M v1) v1 v' \<and> v_allocSearchStart v' = v_allocSearchStart v1 \<and>
        alloc_find D current (fnd + 1) b v1 =
         (case find (\<lambda>c. ent M v1 c = 0) (clusters (Suc (unat (fnd + 1))) stop) of
            Some c \<Rightarrow> Some (Some c, b, v') | None \<Rightarrow> alloc_find D current (word_of_nat (stop - 1)) b v')"
        using True s less.prems i1 fat_now_fields(5) [OF v1(3)]
        by (intro less.hyps) (auto simp: word_less_nat_alt word_le_nat_alt)
      then obtain v2 where v2: "fat_inv D M v2" "fat_now M (ent M v1) v1 v2" "v_allocSearchStart v2 = v_allocSearchStart v1"
        "alloc_find D current (fnd + 1) b v1 =
         (case find (\<lambda>c. ent M v1 c = 0) (clusters (Suc (unat (fnd + 1))) stop) of
            Some c \<Rightarrow> Some (Some c, b, v2) | None \<Rightarrow> alloc_find D current (word_of_nat (stop - 1)) b v2)" by blast
      have "find (\<lambda>c. ent M v1 c = 0) (clusters (Suc (Suc (unat fnd))) stop) =
          find (\<lambda>c. ent M v c = 0) (clusters (Suc (Suc (unat fnd))) stop)"
      proof (rule find_cong [OF refl])
        fix c assume "c \<in> set (clusters (Suc (Suc (unat fnd))) stop)"
        then have "valid_cluster v c"
          using less.prems(2,4) last by (simp add: clusters_set valid_cluster_def word_le_nat_alt)
        then show "(ent M v1 c = 0) = (ent M v c = 0)" by (simp add: fat_now_ent [OF v1(3)])
      qed
      moreover have "fat_now M (ent M v) v v2"
        using fat_now_trans [OF v1(3) v2(2)] by (rule fat_now_cong) (simp add: fat_now_ent [OF v1(3)])
      ultimately show ?thesis using v2 v1(4) s e step
        by (intro exI [of _ v2]) (simp add: cl)
    qed
  qed
qed

text \<open>The search starts below the last cluster, at 1 on a volume just mounted.\<close>

definition search_ok :: "'d fatvol \<Rightarrow> bool" where
  "search_ok v \<longleftrightarrow> 1 \<le> v_allocSearchStart v \<and> v_allocSearchStart v \<le> v_lastCluster v"

lemma last_bound: "fat_inv D M v \<Longrightarrow> unat (v_lastCluster v) < 2 ^ 32 - 1"
  by (auto simp: fat_inv_def vol_ok_def geo_ok_def word_less_nat_alt split: if_splits)

lemma find_append: "find P (xs @ ys) = (case find P xs of None \<Rightarrow> find P ys | Some x \<Rightarrow> Some x)"
  by (induction xs) auto

lemma find_links_cong:
  assumes "fat_now M (ent M v) v v'" "1 \<le> a" "b \<le> unat (v_lastCluster v)"
  shows "find (\<lambda>c. ent M v' c = 0) (clusters (Suc a) (Suc b)) = find (\<lambda>c. ent M v c = 0) (clusters (Suc a) (Suc b))"
proof (rule find_cong [OF refl])
  fix c assume "c \<in> set (clusters (Suc a) (Suc b))"
  then have "valid_cluster v c"
    using assms(2,3) unat_bound [of "v_lastCluster v"] by (simp add: clusters_set valid_cluster_def word_le_nat_alt)
  then show "(ent M v' c = 0) = (ent M v c = 0)" by (simp add: fat_now_ent [OF assms(1)])
qed

lemma alloc_find_spec:
  assumes "fat_inv D M v" "search_ok v" "current = 0 \<or> valid_cluster v current"
  shows "\<exists>v' b. fat_inv D M v' \<and> fat_now M (ent M v) v v' \<and> v_allocSearchStart v' = v_allocSearchStart v \<and>
    alloc_find D current (if v_allocSearchStart v < current then current else v_allocSearchStart v)
      (\<not> v_allocSearchStart v < current) v = Some (find (\<lambda>c. ent M v c = 0) (alloc_order v current), b, v')"
proof -
  let ?s = "v_allocSearchStart v" and ?l = "unat (v_lastCluster v)" and ?P = "\<lambda>c. ent M v c = 0"
  have l: "?l < 2 ^ 32 - 1" by (rule last_bound [OF assms(1)])
  have past: "alloc_find D current (word_of_nat ?l) b w =
      (if b then Some (None, b, w) else alloc_find D current (v_allocSearchStart w) True w)"
    if "v_lastCluster w = v_lastCluster v" for b w
    by (subst alloc_find.simps) (use that unat_add1 [OF l] in \<open>simp add: word_less_nat_alt\<close>)
  show ?thesis
  proof (cases "?s < current")
    case False
    have "\<exists>v'. fat_inv D M v' \<and> fat_now M (ent M v) v v' \<and> v_allocSearchStart v' = v_allocSearchStart v \<and>
      alloc_find D current ?s True v = (case find ?P (clusters (Suc (unat ?s)) (Suc ?l)) of
        Some c \<Rightarrow> Some (Some c, True, v') | None \<Rightarrow> alloc_find D current (word_of_nat (Suc ?l - 1)) True v')"
      by (rule alloc_find_run) (use assms False in \<open>auto simp: search_ok_def word_le_nat_alt word_less_nat_alt\<close>)
    then obtain v1 where v1: "fat_inv D M v1" "fat_now M (ent M v) v v1" "v_allocSearchStart v1 = ?s"
      "alloc_find D current ?s True v = (case find ?P (clusters (Suc (unat ?s)) (Suc ?l)) of
        Some c \<Rightarrow> Some (Some c, True, v1) | None \<Rightarrow> alloc_find D current (word_of_nat (Suc ?l - 1)) True v1)" by blast
    then show ?thesis using False past [OF fat_now_fields(5) [OF v1(2)]]
      by (intro exI [of _ v1] exI [of _ True]) (auto simp: alloc_order_def split: option.split)
  next
    case True
    then have cur: "valid_cluster v current" using assms(3) by auto
    then have c: "1 \<le> current" "unat current \<le> ?l" "unat ?s < unat current"
      using True by (auto simp: valid_cluster_def word_le_nat_alt word_less_nat_alt)
    have "\<exists>v'. fat_inv D M v' \<and> fat_now M (ent M v) v v' \<and> v_allocSearchStart v' = v_allocSearchStart v \<and>
      alloc_find D current current False v = (case find ?P (clusters (Suc (unat current)) (Suc ?l)) of
        Some c \<Rightarrow> Some (Some c, False, v') | None \<Rightarrow> alloc_find D current (word_of_nat (Suc ?l - 1)) False v')"
      by (rule alloc_find_run) (use assms c in auto)
    then obtain v1 where v1: "fat_inv D M v1" "fat_now M (ent M v) v v1" "v_allocSearchStart v1 = ?s"
      "alloc_find D current current False v = (case find ?P (clusters (Suc (unat current)) (Suc ?l)) of
        Some c \<Rightarrow> Some (Some c, False, v1) | None \<Rightarrow> alloc_find D current (word_of_nat ?l) False v1)"
      unfolding diff_Suc_1 by blast
    have l1: "v_lastCluster v1 = v_lastCluster v" by (rule fat_now_fields(5) [OF v1(2)])
    have "\<exists>v'. fat_inv D M v' \<and> fat_now M (ent M v1) v1 v' \<and> v_allocSearchStart v' = v_allocSearchStart v1 \<and>
      alloc_find D current ?s True v1 = (case find (\<lambda>c. ent M v1 c = 0) (clusters (Suc (unat ?s)) (unat current)) of
        Some c \<Rightarrow> Some (Some c, True, v') | None \<Rightarrow> alloc_find D current (word_of_nat (unat current - 1)) True v')"
      by (rule alloc_find_run) (use assms c v1 l1 in \<open>auto simp: search_ok_def\<close>)
    then obtain v2 where v2: "fat_inv D M v2" "fat_now M (ent M v1) v1 v2" "v_allocSearchStart v2 = v_allocSearchStart v1"
      "alloc_find D current ?s True v1 = (case find (\<lambda>c. ent M v1 c = 0) (clusters (Suc (unat ?s)) (unat current)) of
        Some c \<Rightarrow> Some (Some c, True, v2) | None \<Rightarrow> alloc_find D current (word_of_nat (unat current - 1)) True v2)" by blast
    have f: "find (\<lambda>c. ent M v1 c = 0) (clusters (Suc (unat ?s)) (unat current)) = find ?P (clusters (Suc (unat ?s)) (unat current))"
      using find_links_cong [OF v1(2), of "unat ?s" "unat current - 1"] assms(2) c
      by (simp add: search_ok_def word_le_nat_alt)
    have n: "(word_of_nat (unat current - 1) :: 32 word) = current - 1"
      using c(3) by (simp add: of_nat_diff)
    have stop: "alloc_find D current (current - 1) True v2 = Some (None, True, v2)"
      by (subst alloc_find.simps) simp
    have now: "fat_now M (ent M v) v v2"
      using fat_now_trans [OF v1(2) v2(2)] by (rule fat_now_cong) (simp add: fat_now_ent [OF v1(2)])
    have order: "alloc_order v current = clusters (Suc (unat current)) (Suc ?l) @ clusters (Suc (unat ?s)) (unat current)"
      using True by (simp add: alloc_order_def)
    show ?thesis
    proof (cases "find ?P (clusters (Suc (unat current)) (Suc ?l))")
      case None
      then have "find ?P (alloc_order v current) = find ?P (clusters (Suc (unat ?s)) (unat current))"
        by (simp add: order find_append)
      then show ?thesis using None True v1 v2 now f n stop past [OF l1]
        by (intro exI [of _ v2] exI [of _ True]) (auto split: option.split)
    next
      case (Some x)
      then have "find ?P (alloc_order v current) = Some x" by (simp add: order find_append)
      then show ?thesis using Some True v1 by (intro exI [of _ v1] exI [of _ False]) simp
    qed
  qed
qed

lemma alloc_order_valid:
  assumes "fat_inv D M v" "search_ok v" "current = 0 \<or> valid_cluster v current" "c \<in> set (alloc_order v current)"
  shows "valid_cluster v c" "c \<noteq> current"
proof -
  have l: "unat (v_lastCluster v) < 2 ^ 32 - 1" by (rule last_bound [OF assms(1)])
  have "unat c \<le> unat (v_lastCluster v) \<and> unat (v_allocSearchStart v) < unat c \<and> unat c \<noteq> unat current"
    using assms(2-4) l unat_bound [of current]
    by (auto simp: alloc_order_def clusters_set search_ok_def valid_cluster_def word_le_nat_alt
      word_less_nat_alt Let_def not_less split: if_split_asm)
  then show "valid_cluster v c" "c \<noteq> current"
    using assms(2) by (auto simp: valid_cluster_def search_ok_def word_le_nat_alt)
qed

lemma fit_valid: "fat_inv D M v \<Longrightarrow> valid_cluster v c \<Longrightarrow> fit_entry v c = c"
proof -
  assume a: "fat_inv D M v" "valid_cluster v c"
  then have "unat c < 2 ^ 16" if "v_fatType v \<noteq> 32"
    using that by (auto simp: fat_inv_def vol_ok_def geo_ok_def valid_cluster_def word_less_nat_alt word_le_nat_alt)
  then show ?thesis by (auto simp: fit_entry_def word_unat_eq_iff unat_ucast_down)
qed

lemma fit_eoc: "fat_inv D M v \<Longrightarrow> isEOC v (fit_entry v 0x0FFFFFFF)"
  by (auto simp: fat_inv_def vol_ok_def geo_ok_def fit_entry_def isEOC_def split: if_split_asm)

text \<open>The links after \<open>n\<close> was put at the end of the chain that ended with \<open>current\<close>.\<close>

definition appended :: "('d \<Rightarrow> 32 word \<Rightarrow> byte list) \<Rightarrow> 'd fatvol \<Rightarrow> 32 word \<Rightarrow> 32 word \<Rightarrow> 32 word \<Rightarrow> 32 word" where
  "appended M v current n = (\<lambda>c. if c = n then fit_entry v 0x0FFFFFFF else if c = current then n else ent M v c)"

lemma allocateCluster_spec:
  assumes "fat_inv D M v" "search_ok v" "current = 0 \<or> valid_cluster v current"
  shows "\<exists>v'. allocateCluster D current v = Some (find (\<lambda>c. ent M v c = 0) (alloc_order v current), v') \<and>
    fat_inv D M v' \<and> search_ok v' \<and>
    fat_now M (case find (\<lambda>c. ent M v c = 0) (alloc_order v current) of
      None \<Rightarrow> ent M v | Some n \<Rightarrow> appended M v current n) v v'"
proof -
  obtain v1 b where v1: "fat_inv D M v1" "fat_now M (ent M v) v v1" "v_allocSearchStart v1 = v_allocSearchStart v"
    "alloc_find D current (if v_allocSearchStart v < current then current else v_allocSearchStart v)
      (\<not> v_allocSearchStart v < current) v = Some (find (\<lambda>c. ent M v c = 0) (alloc_order v current), b, v1)"
    using alloc_find_spec [OF assms] by blast
  have so1: "search_ok v1" using assms(2) v1(3) fat_now_fields(5) [OF v1(2)] by (simp add: search_ok_def)
  show ?thesis
  proof (cases "find (\<lambda>c. ent M v c = 0) (alloc_order v current)")
    case None
    then show ?thesis using v1 so1 by (intro exI [of _ v1]) (simp add: allocateCluster_def Let_def)
  next
    case (Some n)
    have n: "valid_cluster v n" "n \<noteq> current"
      using alloc_order_valid [OF assms] Some by (auto simp: find_Some_iff)
    let ?v = "if b then v1\<lparr>v_allocSearchStart := n\<rparr> else v1"
    have now1: "fat_now M (ent M v) v ?v" using v1(2) fat_now_start by auto
    have i1: "fat_inv D M ?v" using v1(1) by (simp add: fat_inv_def)
    have so: "search_ok ?v" using so1 n(1) fat_now_fields(5) [OF v1(2)] by (auto simp: search_ok_def valid_cluster_def word_le_nat_alt)
    note F = fat_now_fields [OF now1]
    obtain v2 where v2: "fatPut D n 0x0FFFFFFF ?v = (True, v2)" "vol_ok M v2"
      "fat_now M ((ent M ?v)(n := fit_entry ?v 0x0FFFFFFF)) ?v v2" "v_allocSearchStart v2 = v_allocSearchStart ?v"
      using fatPut_spec [of D M ?v n] i1 n(1) F(4) unfolding fat_inv_def by auto
    have now2: "fat_now M ((ent M v)(n := fit_entry v 0x0FFFFFFF)) v v2"
      using fat_now_trans [OF now1 v2(3)] by (rule fat_now_cong) (use fat_now_ent [OF now1] F(6) in auto)
    have i2: "fat_inv D M v2" using v2(2) assms(1) by (simp add: fat_inv_def)
    have so2: "search_ok v2" using so v2(4) fat_now_fields(5) [OF v2(3)] by (simp add: search_ok_def)
    show ?thesis
    proof (cases "current = 0")
      case True
      have "fat_now M (appended M v current n) v v2"
        using now2 by (rule fat_now_cong) (use True in \<open>auto simp: appended_def valid_cluster_def\<close>)
      then show ?thesis using Some v1(4) v2(1) i2 so2 True
        by (intro exI [of _ v2]) (simp add: allocateCluster_def Let_def fatPutEOC_def)
    next
      case False
      then have cur: "valid_cluster v current" using assms(3) by blast
      note G = fat_now_fields [OF now2]
      obtain v3 where v3: "fatPut D current n v2 = (True, v3)" "vol_ok M v3"
        "fat_now M ((ent M v2)(current := fit_entry v2 n)) v2 v3" "v_allocSearchStart v3 = v_allocSearchStart v2"
        using fatPut_spec [of D M v2 current] i2 cur G(4) unfolding fat_inv_def by auto
      have "fat_now M (appended M v current n) v v3"
        using fat_now_trans [OF now2 v3(3)]
        by (rule fat_now_cong) (use n fat_now_ent [OF now2] fit_valid [OF assms(1) n(1)] G(6) in \<open>auto simp: appended_def\<close>)
      moreover have "search_ok v3" using so2 v3(4) fat_now_fields(5) [OF v3(3)] by (simp add: search_ok_def)
      moreover have "fat_inv D M v3" using v3(2) assms(1) by (simp add: fat_inv_def)
      ultimately show ?thesis using Some v1(4) v2(1) v3(1) False
        by (intro exI [of _ v3]) (simp add: allocateCluster_def Let_def fatPutEOC_def)
    qed
  qed
qed

section \<open>A chain grows\<close>

text \<open>A cluster that is on a chain is not free.\<close>

lemma chain_used: "chain M v cs \<Longrightarrow> c \<in> set cs \<Longrightarrow> ent M v c \<noteq> 0"
proof -
  have "linked f eoc cs \<Longrightarrow> c \<in> set cs \<Longrightarrow> eoc (f c) \<or> f c \<in> set cs" for f eoc
    by (induction f eoc cs rule: linked.induct) auto
  then show "chain M v cs \<Longrightarrow> c \<in> set cs \<Longrightarrow> ent M v c \<noteq> 0"
    by (fastforce simp: chain_def isEOC_def valid_cluster_def)
qed

lemma linked_append1:
  "linked f eoc cs \<Longrightarrow> n \<notin> set cs \<Longrightarrow> \<not> eoc n \<Longrightarrow> eoc e \<Longrightarrow> linked (f(last cs := n, n := e)) eoc (cs @ [n])"
proof (induction f eoc cs rule: linked.induct)
  case (3 f eoc c d cs)
  have "c \<notin> set (d # cs)" using linked_distinct [OF 3(2)] by simp
  then have "c \<noteq> last (d # cs)" by (metis last_in_set list.distinct(1))
  moreover have "c \<noteq> n" using 3(3) by auto
  ultimately show ?case using 3 by simp
qed auto

lemma allocate_found:
  assumes "fat_inv D M v" "search_ok v" "current = 0 \<or> valid_cluster v current"
    and "allocateCluster D current v = Some (Some n, v')"
  shows "\<exists>w. allocateCluster D current v = Some (Some n, w) \<and> valid_cluster v n \<and> ent M v n = 0 \<and>
    fat_now M (appended M v current n) v w"
proof -
  let ?P = "\<lambda>c. ent M v c = 0"
  obtain w where w: "allocateCluster D current v = Some (find ?P (alloc_order v current), w)"
      "fat_now M (case find ?P (alloc_order v current) of None \<Rightarrow> ent M v | Some n \<Rightarrow> appended M v current n) v w"
    using allocateCluster_spec [OF assms(1-3)] by blast
  then have f: "find ?P (alloc_order v current) = Some n" using assms(4) by simp
  then have "valid_cluster v n" "ent M v n = 0"
    using alloc_order_valid(1) [OF assms(1-3), of n] by (auto simp: find_Some_iff)
  then show ?thesis using w f by auto
qed

lemma appended_others:
  assumes "fat_inv D M v" "valid_cluster v n" "ent M v n = 0" "fat_now M (appended M v current n) v v'"
    and "chain M v ds" "current \<notin> set ds"
  shows "chain M v' ds \<and> n \<notin> set ds"
proof -
  have n: "n \<notin> set ds" using chain_used [OF assms(5), of n] assms(3) by auto
  have "linked (ent M v') (isEOC v) ds = linked (ent M v) (isEOC v) ds"
    using assms(5,6) n fat_now_ent [OF assms(4)] by (intro linked_cong) (auto simp: appended_def chain_def)
  then show ?thesis using assms(5) n by (simp add: chain_def fat_now_fields [OF assms(4)])
qed

lemma appended_chain:
  assumes "fat_inv D M v" "chain M v cs" "valid_cluster v n" "ent M v n = 0"
    and "fat_now M (appended M v (last cs) n) v v'"
  shows "chain M v' (cs @ [n])"
proof -
  have n: "n \<notin> set cs" using chain_used [OF assms(2), of n] assms(4) by auto
  have "linked ((ent M v)(last cs := n, n := fit_entry v 0x0FFFFFFF)) (isEOC v) (cs @ [n])"
    using assms(2,3) n fit_eoc [OF assms(1)]
    by (intro linked_append1) (auto simp: chain_def isEOC_def valid_cluster_def)
  moreover have "linked (ent M v') (isEOC v) (cs @ [n]) = linked ((ent M v)(last cs := n, n := fit_entry v 0x0FFFFFFF)) (isEOC v) (cs @ [n])"
    by (rule linked_cong) (use assms(2,3) fat_now_ent [OF assms(5)] in \<open>auto simp: appended_def chain_def\<close>)
  ultimately show ?thesis using assms(2,3) by (auto simp: chain_def fat_now_fields [OF assms(5)])
qed

lemma appended_first:
  assumes "fat_inv D M v" "valid_cluster v n" "fat_now M (appended M v current n) v v'"
  shows "chain M v' [n]"
  using assms(2) fit_eoc [OF assms(1)] fat_now_ent [OF assms(3,2)]
  by (simp add: chain_def appended_def fat_now_fields [OF assms(3)])

end
