(* ===== verification/DemoCard.thy ===== *)
theory DemoCard
  imports FatChains
begin

text \<open>
  A working card as a HOL function and a small FAT16 volume on it, with a chain of two clusters. The
  witnesses of the theorems on the file system are stated on it.
\<close>

section \<open>A card in memory\<close>

text \<open>A card whose sectors are lists, with what is missing read as zero: an instance of a working device.\<close>

definition card :: "(32 word \<Rightarrow> byte list) \<Rightarrow> 32 word \<Rightarrow> byte list" where
  "card d s = take 512 (d s @ replicate 512 0)"

definition card_ops :: "(32 word \<Rightarrow> byte list) blockdev" where
  "card_ops = \<lparr>dev_read = \<lambda>d s. (True, card d s, d),
     dev_write = \<lambda>d s b. (True, d(s := b)),
     dev_reads = \<lambda>d s n. (True, concat (map (\<lambda>i. card d (s + word_of_nat i)) [0..<n]), d),
     dev_writes = \<lambda>d s n b. (True, put_sectors s n b (card d)),
     dev_sync = \<lambda>d. (True, d)\<rparr>"

lemma card_full: "length (d s) = 512 \<Longrightarrow> card d s = d s"
  by (simp add: card_def)

lemma card_works: "dev_works card_ops card"
proof -
  have "card (put_sectors s n b (card d)) = put_sectors s n b (card d)" if "length b = 512 * n" for s n b d
  proof (rule ext, rule card_full)
    fix t
    have "512 * n - 512 * unat (t - s) \<ge> 512" if "unat (t - s) < n"
      using mult_le_mono2 [of "Suc (unat (t - s))" n 512] that by (simp add: algebra_simps)
    then show "length (put_sectors s n b (card d) t) = 512"
      using that by (auto simp: put_sectors_def card_def)
  qed
  moreover have "card (d(s := b)) = (card d)(s := b)" if "length b = 512" for d s b
    using that by (auto simp: card_def fun_eq_iff)
  ultimately show ?thesis by (auto simp: dev_works_def card_ops_def card_def)
qed

text \<open>A FAT16 volume of 4085 clusters at sector 0, with the two clusters 2 and 3, filled with two letters, in one chain.\<close>

definition demo_fat :: "byte list" where
  "demo_fat = [0xF8, 0xFF, 0xFF, 0xFF, 3, 0, 0xFF, 0xFF] @ replicate 504 0"

definition demo_card :: "32 word \<Rightarrow> byte list" where
  "demo_card s = (if s = 1 \<or> s = 17 then demo_fat else if s = 65 then replicate 512 65
     else if s = 66 then replicate 512 66 else [])"

definition demo_vol :: "(32 word \<Rightarrow> byte list) fatvol" where
  "demo_vol = \<lparr>v_cache = \<lparr>c_status = 0, c_bound = True, c_sector = 0xFFFFFFFF, c_mirror = 16,
       c_buffer = replicate 512 0, c_dev = demo_card\<rparr>,
     v_sectorsPerCluster = 1, v_clusterSectorMask = 0, v_sectorsPerClusterShift = 0, v_fatType = 16,
     v_rootDirEntryCount = 512, v_allocSearchStart = 1, v_sectorsPerFat = 16, v_dataStartSector = 65,
     v_fatStartSector = 1, v_lastCluster = 4086, v_rootDirStart = 33\<rparr>"

lemma demo_store: "store card demo_vol = card demo_card"
  by (simp add: view_def demo_vol_def fun_eq_iff)

lemma demo_geo: "geo_ok demo_vol" "search_ok demo_vol"
  by (simp_all add: geo_ok_def demo_vol_def entries_per_sector_def search_ok_def)

lemma demo_inv: "fat_inv card_ops card demo_vol"
proof -
  have "store card demo_vol (s + 16) = store card demo_vol s" if "s \<in> fat1 demo_vol" for s
  proof -
    have "1 \<le> unat s \<and> unat s < 17" using that by (simp add: fat1_iff [OF demo_geo(1)]) (simp add: demo_vol_def)
    then have "s \<noteq> 17" "(s + 16 = 17) = (s = 1)" "s + 16 \<noteq> 1" "s \<noteq> 65" "s \<noteq> 66" "s + 16 \<noteq> 65" "s + 16 \<noteq> 66"
      by (auto simp: word_unat_eq_iff unat_word_ariths)
    then show ?thesis by (simp add: demo_store card_def demo_card_def)
  qed
  then have "vol_ok card demo_vol"
    using demo_geo(1) by (auto simp: vol_ok_def) (auto simp: demo_vol_def coherent_def cache_isDirty_def)
  then show ?thesis using card_works by (simp add: fat_inv_def)
qed

lemma demo_ent:
  "ent card demo_vol 2 = 3" "ent card demo_vol 3 = 0xFFFF" "2 < unat c \<Longrightarrow> unat c < 256 \<Longrightarrow> c \<noteq> 3 \<Longrightarrow> ent card demo_vol c = 0"
proof -
  have s: "fat_sector demo_vol c = 1" if "unat c < 256" for c
    using that by (simp add: fat_sector_def entries_per_sector_def demo_vol_def)
  have l: "length demo_fat = 512" by (simp add: demo_fat_def)
  have e: "ent card demo_vol c = ucast (getLe16 demo_fat (2 * unat c))" if "unat c < 256" for c
    using that s [OF that] l unfolding ent_def
    by (simp add: Let_def demo_store card_full demo_card_def) (simp add: demo_vol_def fat_offset_def)
  have w: "getLe16 demo_fat i = ucast (demo_fat ! i) OR push_bit 8 (ucast (demo_fat ! Suc i))" if "Suc i < 512" for i
    using that l by (simp add: getLe16_def le_word_def numeral_2_eq_2)
  show "ent card demo_vol 2 = 3" "ent card demo_vol 3 = 0xFFFF"
    by (simp_all add: e w) (simp_all add: demo_fat_def)
  assume c: "2 < unat c" "unat c < 256" "c \<noteq> 3"
  then have "4 \<le> unat c" using word_unat_eq_iff [of c 3] by simp
  then have "demo_fat ! (2 * unat c) = 0" "demo_fat ! Suc (2 * unat c) = 0"
    using c(2) by (simp_all add: demo_fat_def nth_append nth_Cons')
  then show "ent card demo_vol c = 0" using c by (simp add: e w)
qed

lemma demo_chain: "chain card demo_vol [2, 3]"
  by (simp add: chain_def demo_ent isEOC_def valid_cluster_def) (simp add: demo_vol_def)

end
