(* ===== verification/FatProperties.thy ===== *)
theory FatProperties
  imports DemoCard
begin

text \<open>
  The properties of the FAT and of cluster chains (\<open>lib/SdFat/src/FatLib/FatPartition.cpp\<close>), from the
  lemmas of \<open>FatStore\<close> and \<open>FatChains\<close>.
\<close>

section \<open>Properties of the FAT\<close>

text \<open>C13: \<open>fatGet\<close> after \<open>fatPut\<close>, through the sector cache, its
  write-back and the mirror FAT: the entry written reads back, cut to the width of the FAT type, and
  every other entry is what it was.\<close>

theorem fat_write_read:
  assumes "dev_works D M" "vol_ok M v" "valid_cluster v c" "valid_cluster v e" "fatPut D c val v = (ok, v')"
  shows "ok \<and> vol_ok M v' \<and>
    (\<exists>v''. fatGet D e v' = (fat_result v (if e = c then fit_entry v val else ent M v e), v''))"
  using fat.put_get [of D M v c e val ok v'] assms by (auto simp: fat_inv_def fat_result_def Let_def)

theorem fat_write_read_witness:
  "\<exists>v' v''. fatPut card_ops 4 9 demo_vol = (True, v') \<and> fatGet card_ops 4 v' = (FatNext 9, v'')"
proof -
  have c: "valid_cluster demo_vol 4" by (simp add: valid_cluster_def) (simp add: demo_vol_def)
  obtain ok v' where v': "fatPut card_ops 4 9 demo_vol = (ok, v')" by fastforce
  have "fat_result demo_vol (fit_entry demo_vol 9) = FatNext 9"
    by (simp add: fat_result_def fit_entry_def isEOC_def) (simp add: demo_vol_def)
  then show ?thesis
    using fat_write_read [OF _ _ c c v'] demo_inv v' by (auto simp: fat_inv_def)
qed

text \<open>C10: on a card that works, \<open>freeChain\<close> of the first cluster of a chain
  returns, succeeds, makes exactly the clusters of the chain free, keeps every other entry of the
  FAT and every sector outside the FATs, and keeps the volume consistent.\<close>

theorem free_chain_frees:
  assumes "dev_works D M" "vol_ok M v" "chain M v cs"
  shows "\<exists>v'. freeChain D (hd cs) v = Some (True, v') \<and> vol_ok M v' \<and>
    (\<forall>c. valid_cluster v c \<longrightarrow> ent M v' c = (if c \<in> set cs then 0 else ent M v c)) \<and>
    (\<forall>s. s \<notin> fat1 v \<union> fat2 v \<longrightarrow> store M v' s = store M v s)"
  using freeChain_frees [of D M v cs] assms by (auto simp: fat_inv_def fat_now_def)

theorem free_chain_frees_witness:
  "\<exists>v'. freeChain card_ops 2 demo_vol = Some (True, v') \<and> ent card v' 2 = 0 \<and> ent card v' 3 = 0"
proof -
  have "valid_cluster demo_vol 2" "valid_cluster demo_vol 3" using demo_chain by (simp_all add: chain_def)
  then show ?thesis
    using free_chain_frees [OF card_works _ demo_chain] demo_inv by (auto simp: fat_inv_def)
qed

text \<open>C14: \<open>freeChain\<close> returns from any cluster of any FAT, also when the chain
  runs in a circle, ends in a free cluster or points outside the volume, and it never changes an
  entry to anything but free.\<close>

theorem free_chain_terminates:
  assumes "dev_works D M" "vol_ok M v"
  shows "\<exists>ok v'. freeChain D c v = Some (ok, v') \<and> vol_ok M v' \<and>
    (\<forall>x. valid_cluster v x \<longrightarrow> ent M v' x = 0 \<or> ent M v' x = ent M v x)"
  using freeChain_ends [of D M v c] assms by (fastforce simp: fat_inv_def fat_now_def)

theorem free_chain_terminates_witness:
  "\<exists>ok v'. freeChain card_ops 5 demo_vol = Some (ok, v')"
  using free_chain_terminates [OF card_works, of demo_vol 5] demo_inv by (auto simp: fat_inv_def)


lemma demo_free: "find (\<lambda>c. ent card demo_vol c = 0) (alloc_order demo_vol 3) = Some 4"
proof -
  have "alloc_order demo_vol 3 = 4 # (clusters 5 4087 @ clusters (Suc (Suc 0)) 3)"
    using clusters_Cons [of 4 4087] by (simp add: alloc_order_def demo_vol_def)
  then show ?thesis using demo_ent(3) [of 4] by simp
qed


text \<open>C11: allocating a cluster after the last one of a chain gives the chain with a cluster
  that was free at its end, and every chain disjoint from it is still a chain without the new
  cluster: no cluster is ever shared by two files.\<close>

theorem allocate_extends_chain:
  assumes "dev_works D M" "vol_ok M v" "search_ok v" "chain M v cs"
    and "allocateCluster D (last cs) v = Some (Some n, v')"
  shows "chain M v' (cs @ [n]) \<and> ent M v n = 0 \<and>
    (\<forall>ds. chain M v ds \<and> set ds \<inter> set cs = {} \<longrightarrow> chain M v' ds \<and> n \<notin> set ds)"
proof -
  have i: "fat_inv D M v" using assms(1,2) by (simp add: fat_inv_def)
  have ne: "cs \<noteq> []" using assms(4) by (auto simp: chain_def)
  obtain w where "allocateCluster D (last cs) v = Some (Some n, w)" "valid_cluster v n" "ent M v n = 0"
    "fat_now M (appended M v (last cs) n) v w"
    using allocate_found [OF i assms(3) _ assms(5)] ne assms(4) by (auto simp: chain_def)
  moreover have "last cs \<notin> set ds" if "set ds \<inter> set cs = {}" for ds using that ne by auto
  ultimately show ?thesis using appended_chain [OF i assms(4)] appended_others [OF i] assms(5) by simp
qed

theorem allocate_extends_chain_witness:
  "\<exists>v'. allocateCluster card_ops 3 demo_vol = Some (Some 4, v') \<and> chain card v' [2, 3, 4]"
proof -
  have "valid_cluster demo_vol 3" "fat_inv card_ops card demo_vol" using demo_chain demo_inv by (simp_all add: chain_def)
  then obtain v' where v': "allocateCluster card_ops 3 demo_vol = Some (Some 4, v')"
    using allocateCluster_spec [OF _ demo_geo(2), of card_ops card 3] demo_free by auto
  then show ?thesis
    using allocate_extends_chain [OF card_works _ demo_geo(2) demo_chain, of 4 v'] demo_inv by (auto simp: fat_inv_def)
qed

text \<open>After a synchronisation the medium holds the flat store, and its two FATs are equal.\<close>

text \<open>C15: after \<open>cacheSync\<close> on a card that works the medium holds what the cache
  and the medium held together, and the two copies of the FAT on it are equal.\<close>

theorem sync_mirrors_fat:
  assumes "dev_works D M" "vol_ok M v"
  shows "\<exists>v'. cacheSync D v = (True, v') \<and> vol_ok M v' \<and>
    (\<forall>s. s \<notin> fat2 v \<longrightarrow> M (c_dev (v_cache v')) s = store M v s) \<and>
    (\<forall>s \<in> fat1 v. M (c_dev (v_cache v')) (s + v_sectorsPerFat v) = M (c_dev (v_cache v')) s)"
proof -
  have coh: "coherent M (v_cache v)" using assms(2) by (simp add: vol_ok_def)
  obtain c where c: "FsCache_sync D (v_cache v) = (True, c)" "coherent M c" "\<not> cache_isDirty c"
    "c_sector c = c_sector (v_cache v)" "c_mirror c = c_mirror (v_cache v)" "c_buffer c = c_buffer (v_cache v)"
    "bit (c_status c) 1 = bit (c_status (v_cache v)) 1" "view M c = flushed M (v_cache v)"
    using sync_spec [OF assms(1) coh] by blast
  obtain d where d: "dev_sync D (c_dev c) = (True, d)" "M d = M (c_dev c)"
    using assms(1) unfolding dev_works_def by blast
  let ?c = "c\<lparr>c_dev := d\<rparr>" and ?v = "v\<lparr>v_cache := c\<lparr>c_dev := d\<rparr>\<rparr>"
  have e: "cacheSync D v = (True, ?v)" using c(1) d(1) by (simp add: cacheSync_def cacheSyncData_def)
  have cd: "\<not> cache_isDirty ?c" using c(3) by (simp add: cache_isDirty_def)
  have cc: "coherent M ?c" using c(2) cd d(2) c(3) by (simp add: coherent_def)
  have m: "M d = flushed M (v_cache v)" using coherent_clean [OF c(2,3)] c(8) d(2) by simp
  have vw: "view M ?c = M d" using coherent_clean [OF cc cd] by simp
  have eq: "M d (s + v_sectorsPerFat v) = M d s" if "s \<in> fat1 v" for s
    using flushed_mirrored [OF assms(2) that] flushed_store [OF assms(2)] fat_disjoint(1) [OF _ that] assms(2)
    by (simp add: m vol_ok_def)
  then have "vol_ok M ?v"
    using assms(2) cc vw c(4,5,7) by (simp add: vol_ok_def)
  then show ?thesis using e eq m flushed_store [OF assms(2)] by (intro exI [of _ ?v]) simp
qed

theorem sync_mirrors_fat_witness:
  "\<exists>v'. cacheSync card_ops demo_vol = (True, v') \<and>
    card (c_dev (v_cache v')) (1 + 16) = card (c_dev (v_cache v')) 1"
proof -
  have "v_sectorsPerFat demo_vol = 16" "(1 :: 32 word) \<in> fat1 demo_vol"
    by (simp_all add: fat1_iff [OF demo_geo(1)]) (simp_all add: demo_vol_def)
  then show ?thesis
    using sync_mirrors_fat [OF card_works, of demo_vol] demo_inv unfolding fat_inv_def by metis
qed

end
