(* ===== verification/FatFile.thy ===== *)
theory FatFile
  imports FatProperties "HOL-Library.Monad_Syntax"
begin

text \<open>
  Files on a FAT volume: \<open>lib/SdFat/src/FatLib/FatFile.h\<close> and \<open>FatFile.cpp\<close>, without the operations on
  names, which are in \<open>FatNames\<close> and \<open>FatDir\<close>. There is one volume, so the pointer \<open>m_vol\<close> is not a field.
  An operation takes the file and the volume and returns them updated; \<open>None\<close> stands for a call that does
  not return (a loop over a damaged FAT). The date and time callback and the millisecond clock of the
  board are a parameter.
\<close>

section \<open>Files\<close>

record fatfile =
  f_attributes :: byte
  f_error :: byte
  f_flags :: byte
  f_lfnOrd :: byte
  f_dirIndex :: "16 word"
  f_dirCluster :: "32 word"
  f_curCluster :: "32 word"
  f_curPosition :: "32 word"
  f_dirSector :: "32 word"
  f_fileSize :: "32 word"
  f_firstCluster :: "32 word"

text \<open>The state after \<open>memset\<close>, and of a file object before its first use.\<close>

definition file_zero :: fatfile where
  "file_zero = \<lparr>f_attributes = 0, f_error = 0, f_flags = 0, f_lfnOrd = 0, f_dirIndex = 0, f_dirCluster = 0,
     f_curCluster = 0, f_curPosition = 0, f_dirSector = 0, f_fileSize = 0, f_firstCluster = 0\<rparr>"

text \<open>
  The board's clock: \<open>clk_callback\<close> is \<open>FsDateTime::callback\<close> (date, time, units of 10 ms), \<open>clk_millis\<close> is
  \<open>millis\<close>, and \<open>clk_default\<close> the build's constants \<open>FS_DEFAULT_DATE\<close> and \<open>FS_DEFAULT_TIME\<close>.
\<close>

record 'd fsclock =
  clk_callback :: "('d \<Rightarrow> 16 word \<times> 16 word \<times> byte) option"
  clk_millis :: "'d \<Rightarrow> 32 word"
  clk_default :: "16 word \<times> 16 word"

abbreviation (input) FS_ATTRIB_READ_ONLY :: byte where "FS_ATTRIB_READ_ONLY \<equiv> 0x01"
abbreviation (input) FS_ATTRIB_DIRECTORY :: byte where "FS_ATTRIB_DIRECTORY \<equiv> 0x10"
abbreviation (input) FS_ATTRIB_ARCHIVE :: byte where "FS_ATTRIB_ARCHIVE \<equiv> 0x20"
abbreviation (input) FS_ATTRIB_USER_SETTABLE :: byte where "FS_ATTRIB_USER_SETTABLE \<equiv> 0x27"
abbreviation (input) FS_ATTRIB_COPY :: byte where "FS_ATTRIB_COPY \<equiv> 0x37"
abbreviation (input) FILE_ATTR_CLOSED :: byte where "FILE_ATTR_CLOSED \<equiv> 0"
abbreviation (input) FILE_ATTR_FILE :: byte where "FILE_ATTR_FILE \<equiv> 0x08"
abbreviation (input) FILE_ATTR_SUBDIR :: byte where "FILE_ATTR_SUBDIR \<equiv> 0x10"
abbreviation (input) FILE_ATTR_ROOT_FIXED :: byte where "FILE_ATTR_ROOT_FIXED \<equiv> 0x40"
abbreviation (input) FILE_ATTR_ROOT32 :: byte where "FILE_ATTR_ROOT32 \<equiv> 0x80"
abbreviation (input) FILE_ATTR_ROOT :: byte where "FILE_ATTR_ROOT \<equiv> 0xC0"
abbreviation (input) FILE_ATTR_DIR :: byte where "FILE_ATTR_DIR \<equiv> 0xD0"
abbreviation (input) FILE_FLAG_READ :: byte where "FILE_FLAG_READ \<equiv> 0x01"
abbreviation (input) FILE_FLAG_WRITE :: byte where "FILE_FLAG_WRITE \<equiv> 0x02"
abbreviation (input) FILE_FLAG_APPEND :: byte where "FILE_FLAG_APPEND \<equiv> 0x08"
abbreviation (input) FILE_FLAG_PREALLOCATE :: byte where "FILE_FLAG_PREALLOCATE \<equiv> 0x20"
abbreviation (input) FILE_FLAG_CONTIGUOUS :: byte where "FILE_FLAG_CONTIGUOUS \<equiv> 0x40"
abbreviation (input) FILE_FLAG_DIR_DIRTY :: byte where "FILE_FLAG_DIR_DIRTY \<equiv> 0x80"
abbreviation (input) WRITE_ERROR :: byte where "WRITE_ERROR \<equiv> 0x1"
abbreviation (input) READ_ERROR :: byte where "READ_ERROR \<equiv> 0x2"
abbreviation (input) FAT_NAME_FREE :: byte where "FAT_NAME_FREE \<equiv> 0x00"
abbreviation (input) FAT_NAME_DELETED :: byte where "FAT_NAME_DELETED \<equiv> 0xE5"

definition has_attr :: "byte \<Rightarrow> fatfile \<Rightarrow> bool" where
  "has_attr a f \<longleftrightarrow> f_attributes f AND a \<noteq> 0"

definition has_flag :: "byte \<Rightarrow> fatfile \<Rightarrow> bool" where
  "has_flag a f \<longleftrightarrow> f_flags f AND a \<noteq> 0"

definition set_flag :: "byte \<Rightarrow> fatfile \<Rightarrow> fatfile" where
  "set_flag a f = f\<lparr>f_flags := f_flags f OR a\<rparr>"

definition clear_flag :: "byte \<Rightarrow> fatfile \<Rightarrow> fatfile" where
  "clear_flag a f = f\<lparr>f_flags := f_flags f AND NOT a\<rparr>"

definition set_error :: "byte \<Rightarrow> fatfile \<Rightarrow> fatfile" where
  "set_error a f = f\<lparr>f_error := f_error f OR a\<rparr>"

definition set_closed :: "fatfile \<Rightarrow> fatfile" where
  "set_closed f = f\<lparr>f_attributes := FILE_ATTR_CLOSED, f_flags := 0\<rparr>"

definition isContiguous :: "fatfile \<Rightarrow> bool" where "isContiguous f = has_flag FILE_FLAG_CONTIGUOUS f"
definition isDir :: "fatfile \<Rightarrow> bool" where "isDir f = has_attr FILE_ATTR_DIR f"
definition isFile :: "fatfile \<Rightarrow> bool" where "isFile f = has_attr FILE_ATTR_FILE f"
definition isSubDir :: "fatfile \<Rightarrow> bool" where "isSubDir f = has_attr FILE_ATTR_SUBDIR f"
definition isFileOrSubDir :: "fatfile \<Rightarrow> bool" where "isFileOrSubDir f \<longleftrightarrow> isFile f \<or> isSubDir f"
definition isLFN :: "fatfile \<Rightarrow> bool" where "isLFN f \<longleftrightarrow> f_lfnOrd f \<noteq> 0"
definition isOpen :: "fatfile \<Rightarrow> bool" where "isOpen f \<longleftrightarrow> f_attributes f \<noteq> 0"
definition isReadable :: "fatfile \<Rightarrow> bool" where "isReadable f = has_flag FILE_FLAG_READ f"
definition isReadOnly :: "fatfile \<Rightarrow> bool" where "isReadOnly f = has_attr FS_ATTRIB_READ_ONLY f"
definition isRoot :: "fatfile \<Rightarrow> bool" where "isRoot f = has_attr FILE_ATTR_ROOT f"
definition isRoot32 :: "fatfile \<Rightarrow> bool" where "isRoot32 f = has_attr FILE_ATTR_ROOT32 f"
definition isRootFixed :: "fatfile \<Rightarrow> bool" where "isRootFixed f = has_attr FILE_ATTR_ROOT_FIXED f"
definition isWritable :: "fatfile \<Rightarrow> bool" where "isWritable f = has_flag FILE_FLAG_WRITE f"

definition attrib_get :: "fatfile \<Rightarrow> int" where
  "attrib_get f = (if isFileOrSubDir f then uint (f_attributes f AND FS_ATTRIB_USER_SETTABLE) else - 1)"

definition available32 :: "fatfile \<Rightarrow> 32 word" where
  "available32 f = (if isFile f then f_fileSize f - f_curPosition f else 0)"

text \<open>\<open>INT_MAX\<close> of the board is 32767.\<close>

definition available :: "fatfile \<Rightarrow> int" where
  "available f = (if available32 f > 32767 then 32767 else uint (available32 f))"

definition getWriteError :: "fatfile \<Rightarrow> bool" where
  "getWriteError f = (if isOpen f then f_error f AND WRITE_ERROR \<noteq> 0 else True)"

section \<open>Directory entries\<close>

text \<open>Entry \<open>i\<close> of the cached sector, as the 32 bytes of a \<open>DirFat_t\<close>, and a change of it.\<close>

definition dir_at :: "nat \<Rightarrow> 'd fatvol \<Rightarrow> byte list" where
  "dir_at i v = take 32 (drop (32 * i) (cached v))"

definition upd_dir :: "nat \<Rightarrow> (byte list \<Rightarrow> byte list) \<Rightarrow> 'd fatvol \<Rightarrow> 'd fatvol" where
  "upd_dir i g v = set_cached (put_at (32 * i) (g (dir_at i v)) (cached v)) v"

definition cacheDirty :: "'d fatvol \<Rightarrow> 'd fatvol" where
  "cacheDirty v = v\<lparr>v_cache := cache_dirty (v_cache v)\<rparr>"

abbreviation dir_attributes :: "byte list \<Rightarrow> byte" where "dir_attributes e \<equiv> e ! 11"
abbreviation dir_caseFlags :: "byte list \<Rightarrow> byte" where "dir_caseFlags e \<equiv> e ! 12"

definition dir_cluster :: "byte list \<Rightarrow> 32 word" where
  "dir_cluster e = push_bit 16 (ucast (getLe16 e 20)) OR ucast (getLe16 e 26)"

definition isFatFile :: "byte list \<Rightarrow> bool" where
  "isFatFile e \<longleftrightarrow> dir_attributes e AND 0x18 = 0"

definition isFatFileOrSubdir :: "byte list \<Rightarrow> bool" where
  "isFatFileOrSubdir e \<longleftrightarrow> dir_attributes e AND 0x08 = 0"

definition isFatLongName :: "byte list \<Rightarrow> bool" where
  "isFatLongName e \<longleftrightarrow> dir_attributes e = 0x0F"

definition isFatSubdir :: "byte list \<Rightarrow> bool" where
  "isFatSubdir e \<longleftrightarrow> dir_attributes e AND 0x18 = 0x10"

definition lfnChecksum :: "byte list \<Rightarrow> byte" where
  "lfnChecksum name = foldl (\<lambda>sum c. (push_bit 7 (sum AND 1) OR drop_bit 1 sum) + c) 0 (take 11 name)"

definition FS_DATE :: "16 word \<Rightarrow> byte \<Rightarrow> byte \<Rightarrow> 16 word" where
  "FS_DATE year month day =
     (let year = year - 1980 in
      if year > 127 \<or> month > 12 \<or> day > 31 then 0
      else push_bit 9 year OR push_bit 5 (ucast month) OR ucast day)"

definition FS_YEAR :: "16 word \<Rightarrow> 16 word" where "FS_YEAR d = 1980 + drop_bit 9 d"
definition FS_MONTH :: "16 word \<Rightarrow> byte" where "FS_MONTH d = ucast (drop_bit 5 d) AND 0xF"
definition FS_DAY :: "16 word \<Rightarrow> byte" where "FS_DAY d = ucast (d AND 0x1F)"

definition FS_TIME :: "byte \<Rightarrow> byte \<Rightarrow> byte \<Rightarrow> 16 word" where
  "FS_TIME hour minute second =
     (if hour > 23 \<or> minute > 59 \<or> second > 59 then 0
      else push_bit 11 (ucast hour) OR push_bit 5 (ucast minute) OR drop_bit 1 (ucast second))"

definition FS_HOUR :: "16 word \<Rightarrow> byte" where "FS_HOUR t = ucast (drop_bit 11 t)"
definition FS_MINUTE :: "16 word \<Rightarrow> byte" where "FS_MINUTE t = ucast (drop_bit 5 t) AND 0x3F"
definition FS_SECOND :: "16 word \<Rightarrow> byte" where "FS_SECOND t = 2 * (ucast (t AND 0x1F))"

text \<open>The entry of the file in the cache: its number in the sector.\<close>

definition cacheDirEntry :: "'d blockdev \<Rightarrow> fatfile \<Rightarrow> byte \<Rightarrow> 'd fatvol \<Rightarrow> nat option \<times> 'd fatvol" where
  "cacheDirEntry D f action v =
     (let (ok, v) = dataCachePrepare D (f_dirSector f) action v
      in (if ok then Some (unat (f_dirIndex f AND 0xF)) else None, v))"

text \<open>The fields of the entry that \<open>sync\<close> writes.\<close>

definition sync_entry :: "fatfile \<Rightarrow> (16 word \<times> 16 word \<times> byte) option \<Rightarrow> byte list \<Rightarrow> byte list" where
  "sync_entry f now e =
     (let e = e[11 := f_attributes f AND FS_ATTRIB_COPY];
          e = (if isFile f then setLe32 28 (f_fileSize f) e else e);
          e = setLe16 26 (ucast (f_firstCluster f AND 0xFFFF)) e;
          e = setLe16 20 (ucast (drop_bit 16 (f_firstCluster f))) e
      in case now of
           None \<Rightarrow> e
         | Some (date, time, ms10) \<Rightarrow> setLe16 22 time (setLe16 18 date (setLe16 24 date e)))"

definition clock_now :: "'d fsclock \<Rightarrow> 'd fatvol \<Rightarrow> (16 word \<times> 16 word \<times> byte) option" where
  "clock_now K v = map_option (\<lambda>cb. cb (c_dev (v_cache v))) (clk_callback K)"

definition FatFile_sync :: "'d blockdev \<Rightarrow> 'd fsclock \<Rightarrow> fatfile \<Rightarrow> 'd fatvol \<Rightarrow> bool \<times> fatfile \<times> 'd fatvol" where
  "FatFile_sync D K f v =
     (if \<not> isOpen f then (True, f, v)
      else let (ok, f, v) =
             (if has_flag FILE_FLAG_DIR_DIRTY f
              then case cacheDirEntry D f CACHE_FOR_WRITE v of
                  (None, v) \<Rightarrow> (False, f, v)
                | (Some i, v) \<Rightarrow>
                    if dir_at i v ! 0 = FAT_NAME_DELETED then (False, f, v)
                    else (True, clear_flag FILE_FLAG_DIR_DIRTY f, upd_dir i (sync_entry f (clock_now K v)) v)
              else (True, f, v))
           in if \<not> ok then (False, set_error WRITE_ERROR f, v)
              else let (ok, v) = cacheSync D v
                   in if ok then (True, f, v) else (False, set_error WRITE_ERROR f, v))"

definition FatFile_close :: "'d blockdev \<Rightarrow> 'd fsclock \<Rightarrow> fatfile \<Rightarrow> 'd fatvol \<Rightarrow> bool \<times> fatfile \<times> 'd fatvol" where
  "FatFile_close D K f v = (let (rtn, f, v) = FatFile_sync D K f v in (rtn, set_closed f, v))"

definition attrib_set ::
    "'d blockdev \<Rightarrow> 'd fsclock \<Rightarrow> byte \<Rightarrow> fatfile \<Rightarrow> 'd fatvol \<Rightarrow> bool \<times> fatfile \<times> 'd fatvol" where
  "attrib_set D K bits f v =
     (if \<not> isFileOrSubDir f \<or> bits AND FS_ATTRIB_USER_SETTABLE \<noteq> bits then (False, f, v)
      else if bits AND FS_ATTRIB_READ_ONLY \<noteq> 0 \<and> isWritable f then (False, f, v)
      else FatFile_sync D K
             (set_flag FILE_FLAG_DIR_DIRTY
               (f\<lparr>f_attributes := (f_attributes f AND NOT FS_ATTRIB_USER_SETTABLE) OR bits\<rparr>)) v)"

definition dirEntry ::
    "'d blockdev \<Rightarrow> 'd fsclock \<Rightarrow> fatfile \<Rightarrow> 'd fatvol \<Rightarrow> byte list option \<times> fatfile \<times> 'd fatvol" where
  "dirEntry D K f v =
     (case FatFile_sync D K f v of (ok, f, v) \<Rightarrow>
      if \<not> ok then (None, f, v)
      else case cacheDirEntry D f CACHE_FOR_READ v of
          (None, v) \<Rightarrow> (None, f, v)
        | (Some i, v) \<Rightarrow> (Some (dir_at i v), f, v))"

definition getAccessDate ::
    "'d blockdev \<Rightarrow> 'd fsclock \<Rightarrow> fatfile \<Rightarrow> 'd fatvol \<Rightarrow> (16 word) option \<times> fatfile \<times> 'd fatvol" where
  "getAccessDate D K f v = (let (e, f, v) = dirEntry D K f v in (map_option (\<lambda>e. getLe16 e 18) e, f, v))"

definition getCreateDateTime ::
    "'d blockdev \<Rightarrow> 'd fsclock \<Rightarrow> fatfile \<Rightarrow> 'd fatvol \<Rightarrow> (16 word \<times> 16 word) option \<times> fatfile \<times> 'd fatvol" where
  "getCreateDateTime D K f v =
     (let (e, f, v) = dirEntry D K f v in (map_option (\<lambda>e. (getLe16 e 16, getLe16 e 14)) e, f, v))"

definition getModifyDateTime ::
    "'d blockdev \<Rightarrow> 'd fsclock \<Rightarrow> fatfile \<Rightarrow> 'd fatvol \<Rightarrow> (16 word \<times> 16 word) option \<times> fatfile \<times> 'd fatvol" where
  "getModifyDateTime D K f v =
     (let (e, f, v) = dirEntry D K f v in (map_option (\<lambda>e. (getLe16 e 24, getLe16 e 22)) e, f, v))"

definition timestamp_entry :: "byte \<Rightarrow> 16 word \<Rightarrow> 16 word \<Rightarrow> byte \<Rightarrow> byte list \<Rightarrow> byte list" where
  "timestamp_entry flags date time second e =
     (let e = (if flags AND 1 \<noteq> 0 then setLe16 18 date e else e);
          e = (if flags AND 2 \<noteq> 0
               then (setLe16 14 time (setLe16 16 date e))[13 := if second AND 1 \<noteq> 0 then 100 else 0] else e)
      in if flags AND 4 \<noteq> 0 then setLe16 22 time (setLe16 24 date e) else e)"

definition timestamp ::
    "'d blockdev \<Rightarrow> 'd fsclock \<Rightarrow> byte \<Rightarrow> 16 word \<Rightarrow> byte \<Rightarrow> byte \<Rightarrow> byte \<Rightarrow> byte \<Rightarrow> byte \<Rightarrow> fatfile \<Rightarrow> 'd fatvol
     \<Rightarrow> bool \<times> fatfile \<times> 'd fatvol" where
  "timestamp D K flags year month day hour minute second f v =
     (if \<not> isFileOrSubDir f \<or> year < 1980 \<or> year > 2107 \<or> month < 1 \<or> month > 12 \<or> day < 1 \<or> day > 31 \<or>
         hour > 23 \<or> minute > 59 \<or> second > 59
      then (False, f, v)
      else case FatFile_sync D K f v of (ok, f, v) \<Rightarrow>
        if \<not> ok then (False, f, v)
        else case cacheDirEntry D f CACHE_FOR_WRITE v of
            (None, v) \<Rightarrow> (False, f, v)
          | (Some i, v) \<Rightarrow>
              let v = upd_dir i (timestamp_entry flags (FS_DATE year month day) (FS_TIME hour minute second) second) v;
                  (ok, v) = cacheSync D v
              in (ok, f, v))"

section \<open>Clusters of a file\<close>

definition addCluster :: "'d blockdev \<Rightarrow> fatfile \<Rightarrow> 'd fatvol \<Rightarrow> (bool \<times> fatfile \<times> 'd fatvol) option" where
  "addCluster D f v = do {
     let cc = f_curCluster f;
     (n, v) \<leftarrow> allocateCluster D cc v;
     (case n of
        None \<Rightarrow> Some (False, f, v)
      | Some n \<Rightarrow>
          let f = f\<lparr>f_curCluster := n\<rparr>;
              f = (if cc = 0 then set_flag FILE_FLAG_CONTIGUOUS f
                   else if n \<noteq> cc + 1 then clear_flag FILE_FLAG_CONTIGUOUS f else f)
          in Some (True, set_flag FILE_FLAG_DIR_DIRTY f, v)) }"

text \<open>Zeroing \<open>n\<close> sectors through the cache.\<close>

fun zero_sectors :: "'d blockdev \<Rightarrow> 32 word \<Rightarrow> nat \<Rightarrow> 'd fatvol \<Rightarrow> bool \<times> 'd fatvol" where
  "zero_sectors D sector 0 v = (True, v)"
| "zero_sectors D sector (Suc n) v =
     (let (ok, v) = dataCachePrepare D sector CACHE_RESERVE_FOR_WRITE v
      in if \<not> ok then (False, v) else zero_sectors D (sector + 1) n (set_cached (replicate 512 0) v))"

definition addDirCluster :: "'d blockdev \<Rightarrow> fatfile \<Rightarrow> 'd fatvol \<Rightarrow> (bool \<times> fatfile \<times> 'd fatvol) option" where
  "addDirCluster D f v =
     (if isRootFixed f \<or> f_curPosition f \<ge> 512 * 4095 then Some (False, f, v)
      else do {
        (ok, f, v) \<leftarrow> addCluster D f v;
        if \<not> ok then Some (False, f, v)
        else let (ok, v) = zero_sectors D (clusterStartSector v (f_curCluster f)) (unat (v_sectorsPerCluster v)) v
             in if \<not> ok then Some (False, f, v)
                else Some (True, f\<lparr>f_curPosition := f_curPosition f + ucast (bytesPerCluster v)\<rparr>, v) })"

text \<open>The last cluster of a contiguous chain; no result when the loop does not end.\<close>

partial_function (option) contiguous_end ::
    "'d blockdev \<Rightarrow> 32 word \<Rightarrow> 'd fatvol \<Rightarrow> (32 word option \<times> 'd fatvol) option" where
  "contiguous_end D c v =
     (case fatGet D c v of
        (FatError, v) \<Rightarrow> Some (None, v)
      | (FatEOC, v) \<Rightarrow> Some (Some c, v)
      | (FatNext n, v) \<Rightarrow> if n \<noteq> c + 1 then Some (None, v) else contiguous_end D (c + 1) v)"

text \<open>The first and the last sector of a contiguous file.\<close>

definition contiguousRange ::
    "'d blockdev \<Rightarrow> fatfile \<Rightarrow> 'd fatvol \<Rightarrow> ((32 word \<times> 32 word) option \<times> fatfile \<times> 'd fatvol) option" where
  "contiguousRange D f v =
     (if \<not> isFile f \<or> f_firstCluster f = 0 then Some (None, f, v)
      else do {
        (e, v) \<leftarrow> contiguous_end D (f_firstCluster f) v;
        (case e of
           None \<Rightarrow> Some (None, f, v)
         | Some c \<Rightarrow> Some (Some (clusterStartSector v (f_firstCluster f),
             clusterStartSector v c + ucast (v_sectorsPerCluster v) - 1), set_flag FILE_FLAG_CONTIGUOUS f, v)) })"

text \<open>The count of sectors along the chain of a directory.\<close>

partial_function (option) dir_sectors ::
    "'d blockdev \<Rightarrow> 32 word \<Rightarrow> 16 word \<Rightarrow> 'd fatvol \<Rightarrow> (16 word option \<times> 'd fatvol) option" where
  "dir_sectors D c n v =
     (case fatGet D c v of (fg, v) \<Rightarrow>
      if fg = FatError \<or> n > 4095 then Some (None, v)
      else case fg of
          FatNext d \<Rightarrow> dir_sectors D d (n + ucast (v_sectorsPerCluster v)) v
        | _ \<Rightarrow> Some (Some (n + ucast (v_sectorsPerCluster v)), v))"

definition dirSize :: "'d blockdev \<Rightarrow> fatfile \<Rightarrow> 'd fatvol \<Rightarrow> (32 word \<times> 'd fatvol) option" where
  "dirSize D f v =
     (if \<not> isDir f then Some (0, v)
      else if isRootFixed f then Some (ucast (32 * v_rootDirEntryCount v), v)
      else do {
        (n, v) \<leftarrow> dir_sectors D (if isRoot32 f then v_rootDirStart v else f_firstCluster f) 0 v;
        Some (case n of None \<Rightarrow> 0 | Some n \<Rightarrow> 512 * ucast n, v) })"

section \<open>Position\<close>

definition firstSector :: "fatfile \<Rightarrow> 'd fatvol \<Rightarrow> 32 word" where
  "firstSector f v = (if f_firstCluster f \<noteq> 0 then clusterStartSector v (f_firstCluster f) else 0)"

definition fgetpos :: "fatfile \<Rightarrow> 64 word \<times> 32 word" where
  "fgetpos f = (ucast (f_curPosition f), f_curCluster f)"

definition fsetpos :: "64 word \<times> 32 word \<Rightarrow> fatfile \<Rightarrow> fatfile" where
  "fsetpos p f = f\<lparr>f_curPosition := ucast (fst p), f_curCluster := snd p\<rparr>"

text \<open>The end of \<open>seekSet\<close>, at the label \<open>done\<close>.\<close>

definition seek_done :: "32 word \<Rightarrow> fatfile \<Rightarrow> fatfile" where
  "seek_done pos f = clear_flag FILE_FLAG_PREALLOCATE (f\<lparr>f_curPosition := pos\<rparr>)"

definition seekSet :: "'d blockdev \<Rightarrow> 32 word \<Rightarrow> fatfile \<Rightarrow> 'd fatvol \<Rightarrow> bool \<times> fatfile \<times> 'd fatvol" where
  "seekSet D pos f v =
     (if \<not> isOpen f then (False, f, v)
      else if pos = f_curPosition f then (True, f, v)
      else if pos = 0 then (True, seek_done pos (f\<lparr>f_curCluster := 0\<rparr>), v)
      else if isFile f \<and> pos > f_fileSize f then (False, f, v)
      else if \<not> isFile f \<and> isRootFixed f
      then if pos \<le> ucast (32 * v_rootDirEntryCount v) then (True, seek_done pos f, v) else (False, f, v)
      else let nNew = drop_bit (bytesPerClusterShift v) (pos - 1)
           in if isContiguous f then (True, seek_done pos (f\<lparr>f_curCluster := f_firstCluster f + nNew\<rparr>), v)
              else let nCur = drop_bit (bytesPerClusterShift v) (f_curPosition f - 1);
                       (start, n) =
                         (if nNew < nCur \<or> f_curPosition f = 0
                          then (if isRoot32 f then v_rootDirStart v else f_firstCluster f, nNew)
                          else (f_curCluster f, nNew - nCur))
                   in case follow (fatGet D) (unat n) start v of
                        (None, v) \<Rightarrow> (False, f, v)
                      | (Some c, v) \<Rightarrow> (True, seek_done pos (f\<lparr>f_curCluster := c\<rparr>), v))"

definition file_rewind :: "'d blockdev \<Rightarrow> fatfile \<Rightarrow> 'd fatvol \<Rightarrow> fatfile \<times> 'd fatvol" where
  "file_rewind D f v = snd (seekSet D 0 f v)"

definition seekCur :: "'d blockdev \<Rightarrow> 32 word \<Rightarrow> fatfile \<Rightarrow> 'd fatvol \<Rightarrow> bool \<times> fatfile \<times> 'd fatvol" where
  "seekCur D offset f v = seekSet D (f_curPosition f + offset) f v"

definition seekEnd :: "'d blockdev \<Rightarrow> 32 word \<Rightarrow> fatfile \<Rightarrow> 'd fatvol \<Rightarrow> bool \<times> fatfile \<times> 'd fatvol" where
  "seekEnd D offset f v = (if isFile f then seekSet D (f_fileSize f + offset) f v else (False, f, v))"

section \<open>Reading\<close>

text \<open>Where the next byte is: a sector and its place in the cluster, the end of a directory, or an error.\<close>

datatype location = LocError | LocEnd | LocSector "32 word" byte

definition read_locate :: "'d blockdev \<Rightarrow> fatfile \<Rightarrow> 'd fatvol \<Rightarrow> location \<times> fatfile \<times> 'd fatvol" where
  "read_locate D f v =
     (let pos = f_curPosition f in
      if isRootFixed f then (LocSector (v_rootDirStart v + drop_bit 9 pos) 0, f, v)
      else let soc = sectorOfCluster v pos;
               (r, f, v) =
                 (if pos AND 0x1FF = 0 \<and> soc = 0
                  then if pos = 0
                       then (FatNext 0, f\<lparr>f_curCluster := if isRoot32 f then v_rootDirStart v else f_firstCluster f\<rparr>, v)
                       else if isFile f \<and> isContiguous f
                       then (FatNext 0, f\<lparr>f_curCluster := f_curCluster f + 1\<rparr>, v)
                       else case fatGet D (f_curCluster f) v of
                           (FatNext n, v) \<Rightarrow> (FatNext n, f\<lparr>f_curCluster := n\<rparr>, v)
                         | (r, v) \<Rightarrow> (r, f, v)
                  else (FatNext 0, f, v))
           in (case r of
                 FatError \<Rightarrow> LocError
               | FatEOC \<Rightarrow> if isDir f then LocEnd else LocError
               | FatNext _ \<Rightarrow> LocSector (clusterStartSector v (f_curCluster f) + ucast soc) soc, f, v))"

text \<open>
  One turn of the loop at a sector: the bytes it copies to the caller. It goes through the cache for a part
  of a sector or the cached sector, and else reads one or several sectors of the cluster directly.
\<close>

definition read_piece ::
    "'d blockdev \<Rightarrow> 32 word \<Rightarrow> byte \<Rightarrow> nat \<Rightarrow> fatfile \<Rightarrow> 'd fatvol \<Rightarrow> byte list option \<times> 'd fatvol" where
  "read_piece D sector soc toRead f v =
     (let offset = unat (f_curPosition f AND 0x1FF) in
      if offset \<noteq> 0 \<or> toRead < 512 \<or> sector = c_sector (v_cache v)
      then let n = min (512 - offset) toRead;
               (ok, v) = dataCachePrepare D sector CACHE_FOR_READ v
           in if ok then (Some (take n (drop offset (cached v))), v) else (None, v)
      else if toRead \<ge> 1024
      then let ns = word_of_nat (toRead div 512) :: 32 word;
               mb = ucast (v_sectorsPerCluster v) - ucast soc;
               ns = (if \<not> isRootFixed f \<and> mb < ns then mb else ns);
               (ok, b, c) = cacheSafeReads D sector (unat ns) (v_cache v)
           in (if ok then Some b else None, v\<lparr>v_cache := c\<rparr>)
      else let (ok, b, c) = cacheSafeRead D sector (v_cache v)
           in (if ok then Some b else None, v\<lparr>v_cache := c\<rparr>))"

text \<open>The loop, with the bytes read so far; the flag is false at the label \<open>fail\<close>.\<close>

partial_function (option) read_loop ::
    "'d blockdev \<Rightarrow> nat \<Rightarrow> byte list \<Rightarrow> fatfile \<Rightarrow> 'd fatvol \<Rightarrow> (bool \<times> nat \<times> byte list \<times> fatfile \<times> 'd fatvol) option" where
  "read_loop D toRead acc f v =
     (if toRead = 0 then Some (True, toRead, acc, f, v)
      else case read_locate D f v of
          (LocError, f, v) \<Rightarrow> Some (False, toRead, acc, f, v)
        | (LocEnd, f, v) \<Rightarrow> Some (True, toRead, acc, f, v)
        | (LocSector sector soc, f, v) \<Rightarrow>
            (case read_piece D sector soc toRead f v of
               (None, v) \<Rightarrow> Some (False, toRead, acc, f, v)
             | (Some b, v) \<Rightarrow>
                 read_loop D (toRead - length b) (acc @ b)
                   (f\<lparr>f_curPosition := f_curPosition f + word_of_nat (length b)\<rparr>) v))"

text \<open>The number of bytes to read after the bound by the size of the file or of a fixed root directory.\<close>

definition read_bound :: "16 word \<Rightarrow> fatfile \<Rightarrow> 'd fatvol \<Rightarrow> 16 word" where
  "read_bound nbyte f v =
     (if isFile f
      then let tmp32 = f_fileSize f - f_curPosition f in if ucast nbyte \<ge> tmp32 then ucast tmp32 else nbyte
      else if isRootFixed f
      then let tmp16 = 32 * v_rootDirEntryCount v - ucast (f_curPosition f) in if nbyte > tmp16 then tmp16 else nbyte
      else nbyte)"

definition FatFile_read ::
    "'d blockdev \<Rightarrow> 16 word \<Rightarrow> fatfile \<Rightarrow> 'd fatvol \<Rightarrow> (int \<times> byte list \<times> fatfile \<times> 'd fatvol) option" where
  "FatFile_read D nbyte f v =
     (if \<not> isReadable f then Some (- 1, [], set_error READ_ERROR f, v)
      else do {
        let nbyte = read_bound nbyte f v;
        (ok, toRead, bs, f, v) \<leftarrow> read_loop D (unat nbyte) [] f v;
        if ok then Some (sint (nbyte - word_of_nat toRead), bs, f, v)
        else Some (- 1, bs, set_error READ_ERROR f, v) })"

definition read_byte :: "'d blockdev \<Rightarrow> fatfile \<Rightarrow> 'd fatvol \<Rightarrow> (int \<times> fatfile \<times> 'd fatvol) option" where
  "read_byte D f v = do {
     (r, bs, f, v) \<leftarrow> FatFile_read D 1 f v;
     Some (if r = 1 then uint (bs ! 0) else - 1, f, v) }"

definition peek :: "'d blockdev \<Rightarrow> fatfile \<Rightarrow> 'd fatvol \<Rightarrow> (int \<times> fatfile \<times> 'd fatvol) option" where
  "peek D f v = do {
     (c, f', v) \<leftarrow> read_byte D f v;
     Some (c, f'\<lparr>f_curPosition := f_curPosition f, f_curCluster := f_curCluster f\<rparr>, v) }"

text \<open>The loop of \<open>fgets\<close>, with the text read so far: the last value of \<open>r\<close>, the text, the file.\<close>

partial_function (option) fgets_loop ::
    "'d blockdev \<Rightarrow> int \<Rightarrow> byte list option \<Rightarrow> int \<Rightarrow> byte list \<Rightarrow> fatfile \<Rightarrow> 'd fatvol
     \<Rightarrow> (int \<times> byte list \<times> fatfile \<times> 'd fatvol) option" where
  "fgets_loop D num delim r str f v =
     (if \<not> int (length str) + 1 < num then Some (r, str, f, v)
      else Option.bind (FatFile_read D 1 f v) (\<lambda>(r, bs, f, v).
        if r \<noteq> 1 then Some (r, str, f, v)
        else let ch = bs ! 0 in
          if ch = 13 then fgets_loop D num delim r str f v
          else if (case delim of None \<Rightarrow> ch = 10 | Some d \<Rightarrow> ch = 0 \<or> ch \<in> set d)
          then Some (r, str @ [ch], f, v)
          else fgets_loop D num delim r (str @ [ch]) f v))"

definition fgets ::
    "'d blockdev \<Rightarrow> int \<Rightarrow> byte list option \<Rightarrow> fatfile \<Rightarrow> 'd fatvol \<Rightarrow> (int \<times> byte list \<times> fatfile \<times> 'd fatvol) option" where
  "fgets D num delim f v = do {
     (r, str, f, v) \<leftarrow> fgets_loop D num delim (- 1) [] f v;
     Some (if r < 0 then - 1 else int (length str), str, f, v) }"

section \<open>Writing\<close>

text \<open>The sector of the next byte, with a cluster added at the end of the chain.\<close>

definition write_locate :: "'d blockdev \<Rightarrow> fatfile \<Rightarrow> 'd fatvol \<Rightarrow> (bool \<times> fatfile \<times> 'd fatvol) option" where
  "write_locate D f v =
     (if sectorOfCluster v (f_curPosition f) = 0 \<and> f_curPosition f AND 0x1FF = 0
      then if f_curCluster f \<noteq> 0
           then if isContiguous f \<and> f_fileSize f > f_curPosition f
                then Some (True, f\<lparr>f_curCluster := f_curCluster f + 1\<rparr>, v)
                else case fatGet D (f_curCluster f) v of
                    (FatError, v) \<Rightarrow> Some (False, f, v)
                  | (FatEOC, v) \<Rightarrow> addCluster D f v
                  | (FatNext n, v) \<Rightarrow> Some (True, f\<lparr>f_curCluster := n\<rparr>, v)
           else if f_firstCluster f = 0
           then do {
             (ok, f, v) \<leftarrow> addCluster D f v;
             Some (ok, if ok then f\<lparr>f_firstCluster := f_curCluster f\<rparr> else f, v) }
           else Some (True, f\<lparr>f_curCluster := f_firstCluster f\<rparr>, v)
      else Some (True, f, v))"

text \<open>One turn of the loop at its sector: how many bytes of the source it has written.\<close>

definition write_piece :: "'d blockdev \<Rightarrow> byte list \<Rightarrow> fatfile \<Rightarrow> 'd fatvol \<Rightarrow> nat option \<times> 'd fatvol" where
  "write_piece D src f v =
     (let soc = sectorOfCluster v (f_curPosition f);
          offset = unat (f_curPosition f AND 0x1FF);
          sector = clusterStartSector v (f_curCluster f) + ucast soc;
          nToWrite = length src
      in if offset \<noteq> 0 \<or> nToWrite < 512
         then let n = min (512 - offset) nToWrite;
                  opt = (if offset = 0 \<and> (f_curPosition f \<ge> f_fileSize f \<or> has_flag FILE_FLAG_PREALLOCATE f)
                         then CACHE_RESERVE_FOR_WRITE else CACHE_FOR_WRITE);
                  (ok, v) = dataCachePrepare D sector opt v
              in if \<not> ok then (None, v)
                 else let v = set_cached (put_at offset (take n src) (cached v)) v;
                          (ok, v) = (if 512 = n + offset then cacheSyncData D v else (True, v))
                      in (if ok then Some n else None, v)
         else if nToWrite \<ge> 1024
         then let maxSectors = ucast (v_sectorsPerCluster v) - ucast soc :: 32 word;
                  nSector = word_of_nat (nToWrite div 512);
                  nSector = (if nSector > maxSectors then maxSectors else nSector);
                  n = 512 * unat nSector;
                  (ok, c) = cacheSafeWrites D sector (take n src) (unat nSector) (v_cache v)
              in (if ok then Some n else None, v\<lparr>v_cache := c\<rparr>)
         else let (ok, c) = cacheSafeWrite D sector (take 512 src) (v_cache v)
              in (if ok then Some 512 else None, v\<lparr>v_cache := c\<rparr>))"

partial_function (option) write_loop ::
    "'d blockdev \<Rightarrow> byte list \<Rightarrow> fatfile \<Rightarrow> 'd fatvol \<Rightarrow> (bool \<times> fatfile \<times> 'd fatvol) option" where
  "write_loop D src f v =
     (if src = [] then Some (True, f, v)
      else Option.bind (write_locate D f v) (\<lambda>(ok, f, v).
        if \<not> ok then Some (False, f, v)
        else case write_piece D src f v of
            (None, v) \<Rightarrow> Some (False, f, v)
          | (Some n, v) \<Rightarrow>
              write_loop D (drop n src) (f\<lparr>f_curPosition := f_curPosition f + word_of_nat n\<rparr>) v))"

text \<open>\<open>src\<close> is shorter than 65536 bytes, as \<open>size_t\<close> has 16 bits.\<close>

definition FatFile_write ::
    "'d blockdev \<Rightarrow> 'd fsclock \<Rightarrow> byte list \<Rightarrow> fatfile \<Rightarrow> 'd fatvol \<Rightarrow> (nat \<times> fatfile \<times> 'd fatvol) option" where
  "FatFile_write D K src f v =
     (if \<not> isWritable f then Some (0, set_error WRITE_ERROR f, v)
      else let (ok, f, v) = (if has_flag FILE_FLAG_APPEND f then seekSet D (f_fileSize f) f v else (True, f, v))
           in if \<not> ok \<or> word_of_nat (length src) > 0xFFFFFFFF - f_curPosition f
              then Some (0, set_error WRITE_ERROR f, v)
              else do {
                (ok, f, v) \<leftarrow> write_loop D src f v;
                if \<not> ok then Some (0, set_error WRITE_ERROR f, v)
                else let f = (if f_curPosition f > f_fileSize f
                              then set_flag FILE_FLAG_DIR_DIRTY (f\<lparr>f_fileSize := f_curPosition f\<rparr>)
                              else if clk_callback K \<noteq> None then set_flag FILE_FLAG_DIR_DIRTY f else f)
                     in Some (length src, f, v) })"

section \<open>Size\<close>

definition truncate_file ::
    "'d blockdev \<Rightarrow> 'd fsclock \<Rightarrow> fatfile \<Rightarrow> 'd fatvol \<Rightarrow> (bool \<times> fatfile \<times> 'd fatvol) option" where
  "truncate_file D K f v =
     (if \<not> isWritable f then Some (False, f, v)
      else if f_firstCluster f = 0 then Some (True, f, v)
      else let (ok, toFree, f, v) =
             (if f_curCluster f \<noteq> 0
              then case fatGet D (f_curCluster f) v of
                  (FatError, v) \<Rightarrow> (False, 0, f, v)
                | (FatEOC, v) \<Rightarrow> (True, 0, f, v)
                | (FatNext n, v) \<Rightarrow> let (ok, v) = fatPutEOC D (f_curCluster f) v in (ok, n, f, v)
              else (True, f_firstCluster f, f\<lparr>f_firstCluster := 0\<rparr>, v))
           in if \<not> ok then Some (False, f, v)
              else do {
                (ok, v) \<leftarrow> (if toFree \<noteq> 0 then freeChain D toFree v else Some (True, v));
                if \<not> ok then Some (False, f, v)
                else Some (FatFile_sync D K (set_flag FILE_FLAG_DIR_DIRTY (f\<lparr>f_fileSize := f_curPosition f\<rparr>)) v) })"

definition truncate_to ::
    "'d blockdev \<Rightarrow> 'd fsclock \<Rightarrow> 32 word \<Rightarrow> fatfile \<Rightarrow> 'd fatvol \<Rightarrow> (bool \<times> fatfile \<times> 'd fatvol) option" where
  "truncate_to D K len f v =
     (let (ok, f, v) = seekSet D len f v in if \<not> ok then Some (False, f, v) else truncate_file D K f v)"

definition preAllocate ::
    "'d blockdev \<Rightarrow> 'd fsclock \<Rightarrow> 32 word \<Rightarrow> fatfile \<Rightarrow> 'd fatvol \<Rightarrow> (bool \<times> fatfile \<times> 'd fatvol) option" where
  "preAllocate D K len f v =
     (if len = 0 \<or> \<not> isWritable f \<or> f_firstCluster f \<noteq> 0 then Some (False, f, v)
      else do {
        (c, v) \<leftarrow> allocContiguous D (1 + drop_bit (bytesPerClusterShift v) (len - 1)) v;
        (case c of
           None \<Rightarrow> Some (False, f, v)
         | Some c \<Rightarrow> Some (FatFile_sync D K
             (set_flag (FILE_FLAG_PREALLOCATE OR FILE_FLAG_CONTIGUOUS OR FILE_FLAG_DIR_DIRTY)
               (f\<lparr>f_firstCluster := c, f_fileSize := len\<rparr>)) v)) })"

section \<open>Reading a directory\<close>

text \<open>
  \<open>readDirCache\<close> gives the number of the entry in the cached sector. Within a sector it may skip the read.
\<close>

definition readDirCache ::
    "'d blockdev \<Rightarrow> bool \<Rightarrow> fatfile \<Rightarrow> 'd fatvol \<Rightarrow> (nat option \<times> fatfile \<times> 'd fatvol) option" where
  "readDirCache D skipReadOk f v =
     (let i = unat (drop_bit 5 (f_curPosition f) AND 0xF) in
      if i = 0 \<or> \<not> skipReadOk
      then do {
        (n, bs, f, v) \<leftarrow> FatFile_read D 1 f v;
        if n \<noteq> 1 then Some (None, f, v)
        else Some (Some i, f\<lparr>f_curPosition := f_curPosition f + 31\<rparr>, v) }
      else Some (Some i, f\<lparr>f_curPosition := f_curPosition f + 32\<rparr>, v))"

definition cacheDir ::
    "'d blockdev \<Rightarrow> 16 word \<Rightarrow> fatfile \<Rightarrow> 'd fatvol \<Rightarrow> (nat option \<times> fatfile \<times> 'd fatvol) option" where
  "cacheDir D index f v =
     (let (ok, f, v) = seekSet D (32 * ucast index) f v
      in if ok then readDirCache D False f v else Some (None, f, v))"

text \<open>The next file or directory, as its 32 bytes; the number is the value returned (32, 0 or -1).\<close>

partial_function (option) readDir_loop ::
    "'d blockdev \<Rightarrow> fatfile \<Rightarrow> 'd fatvol \<Rightarrow> (int \<times> byte list \<times> fatfile \<times> 'd fatvol) option" where
  "readDir_loop D f v =
     Option.bind (FatFile_read D 32 f v) (\<lambda>(n, e, f, v).
       if n \<noteq> 32 then Some (if n = 0 then 0 else - 1, e, f, v)
       else if e ! 0 = FAT_NAME_FREE then Some (0, e, f, v)
       else if e ! 0 = FAT_NAME_DELETED \<or> e ! 0 = 0x2E then readDir_loop D f v
       else if isFatFileOrSubdir e then Some (n, e, f, v)
       else readDir_loop D f v)"

definition readDir ::
    "'d blockdev \<Rightarrow> fatfile \<Rightarrow> 'd fatvol \<Rightarrow> (int \<times> byte list \<times> fatfile \<times> 'd fatvol) option" where
  "readDir D f v =
     (if \<not> isDir f \<or> f_curPosition f AND 0x1F \<noteq> 0 then Some (- 1, [], f, v) else readDir_loop D f v)"

section \<open>Opening\<close>

abbreviation (input) O_RDONLY :: byte where "O_RDONLY \<equiv> 0x00"
abbreviation (input) O_WRONLY :: byte where "O_WRONLY \<equiv> 0x01"
abbreviation (input) O_RDWR :: byte where "O_RDWR \<equiv> 0x02"
abbreviation (input) O_AT_END :: byte where "O_AT_END \<equiv> 0x04"
abbreviation (input) O_APPEND :: byte where "O_APPEND \<equiv> 0x08"
abbreviation (input) O_CREAT :: byte where "O_CREAT \<equiv> 0x10"
abbreviation (input) O_TRUNC :: byte where "O_TRUNC \<equiv> 0x20"
abbreviation (input) O_EXCL :: byte where "O_EXCL \<equiv> 0x40"
abbreviation (input) O_ACCMODE :: byte where "O_ACCMODE \<equiv> 0x03"

definition isWriteMode :: "byte \<Rightarrow> bool" where
  "isWriteMode oflag \<longleftrightarrow> oflag AND O_ACCMODE = O_WRONLY \<or> oflag AND O_ACCMODE = O_RDWR"

definition openRoot :: "fatfile \<Rightarrow> 'd fatvol \<Rightarrow> bool \<times> fatfile" where
  "openRoot f v =
     (if isOpen f then (False, f)
      else if v_fatType v = 16
      then (True, file_zero\<lparr>f_attributes := FILE_ATTR_ROOT_FIXED, f_flags := FILE_FLAG_READ\<rparr>)
      else if v_fatType v = 32
      then (True, file_zero\<lparr>f_attributes := FILE_ATTR_ROOT32, f_flags := FILE_FLAG_READ\<rparr>)
      else (False, file_zero))"

text \<open>The directory that holds a file.\<close>

definition openCluster :: "fatfile \<Rightarrow> fatfile \<Rightarrow> 'd fatvol \<Rightarrow> bool \<times> fatfile" where
  "openCluster self f v =
     (if f_dirCluster f = 0 then openRoot self v
      else (True, file_zero\<lparr>f_attributes := FILE_ATTR_SUBDIR, f_flags := FILE_FLAG_READ,
                            f_firstCluster := f_dirCluster f\<rparr>))"

text \<open>The access mode: the flags of the file, or none when the mode is not allowed.\<close>

definition access_flags :: "byte \<Rightarrow> byte option" where
  "access_flags oflag =
     (let m = oflag AND O_ACCMODE in
      if m = O_RDONLY then if oflag AND O_TRUNC \<noteq> 0 then None else Some FILE_FLAG_READ
      else if m = O_RDWR then Some (FILE_FLAG_READ OR FILE_FLAG_WRITE)
      else if m = O_WRONLY then Some FILE_FLAG_WRITE
      else None)"

definition openCachedEntry ::
    "'d blockdev \<Rightarrow> fatfile \<Rightarrow> 16 word \<Rightarrow> byte \<Rightarrow> byte \<Rightarrow> 'd fatvol \<Rightarrow> (bool \<times> fatfile \<times> 'd fatvol) option" where
  "openCachedEntry D dirFile index oflag lfnOrd v =
     (let f = file_zero\<lparr>f_dirIndex := index, f_dirCluster := f_firstCluster dirFile\<rparr>;
          e = dir_at (unat (index AND 0xF)) v
      in if \<not> isFatFileOrSubdir e then Some (False, set_closed f, v)
         else let f = f\<lparr>f_attributes := (dir_attributes e AND FS_ATTRIB_COPY) OR
                          (if isFatFile e then FILE_ATTR_FILE else 0), f_lfnOrd := lfnOrd\<rparr>
           in case access_flags oflag of
                None \<Rightarrow> Some (False, set_closed f, v)
              | Some fl \<Rightarrow>
                  let f = f\<lparr>f_flags := fl\<rparr>
                  in if isWritable f \<and> (isSubDir f \<or> isReadOnly f) then Some (False, set_closed f, v)
                     else let f = (if isWritable f then f\<lparr>f_attributes := f_attributes f OR FS_ATTRIB_ARCHIVE\<rparr> else f);
                              f = (if oflag AND O_APPEND \<noteq> 0 then set_flag FILE_FLAG_APPEND f else f);
                              f = f\<lparr>f_dirSector := c_sector (v_cache v)\<rparr>;
                              firstCluster = dir_cluster e
                          in do {
                            (ok, f, v) \<leftarrow>
                              (if oflag AND O_TRUNC \<noteq> 0
                               then do {
                                 (ok, v) \<leftarrow> (if firstCluster \<noteq> 0 then freeChain D firstCluster v else Some (True, v));
                                 Some (ok, if ok then set_flag FILE_FLAG_DIR_DIRTY f else f, v) }
                               else Some (True, f\<lparr>f_firstCluster := firstCluster, f_fileSize := getLe32 e 28\<rparr>, v));
                            if \<not> ok then Some (False, set_closed f, v)
                            else if oflag AND O_AT_END \<noteq> 0
                            then let (ok, f, v) = seekSet D (f_fileSize f) f v
                                 in Some (if ok then (True, f, v) else (False, set_closed f, v))
                            else Some (True, f, v) })"

text \<open>The loop of \<open>openNext\<close>: the file opened, if any, and the directory moved past its entry.\<close>

partial_function (option) openNext_loop ::
    "'d blockdev \<Rightarrow> byte \<Rightarrow> byte \<Rightarrow> byte \<Rightarrow> fatfile \<Rightarrow> fatfile \<Rightarrow> 'd fatvol
     \<Rightarrow> (bool \<times> fatfile \<times> fatfile \<times> 'd fatvol) option" where
  "openNext_loop D oflag lfnOrd checksum f dirFile v =
     (let index = ucast (f_curPosition dirFile div 32) in
      Option.bind (readDirCache D False dirFile v) (\<lambda>(r, dirFile, v).
        case r of
          None \<Rightarrow> Some (False, f, dirFile, v)
        | Some i \<Rightarrow>
            let e = dir_at i v in
            if e ! 0 = FAT_NAME_FREE then Some (False, f, dirFile, v)
            else if e ! 0 = 0x2E \<or> e ! 0 = FAT_NAME_DELETED then openNext_loop D oflag 0 checksum f dirFile v
            else if isFatFileOrSubdir e
            then if lfnOrd \<noteq> 0 \<and> checksum \<noteq> lfnChecksum e then Some (False, f, dirFile, v)
                 else Option.bind (openCachedEntry D dirFile index oflag lfnOrd v)
                        (\<lambda>(ok, f, v). Some (ok, f, dirFile, v))
            else if isFatLongName e
            then if e ! 0 AND 0x40 \<noteq> 0 then openNext_loop D oflag (e ! 0 AND 0x1F) (e ! 13) f dirFile v
                 else openNext_loop D oflag lfnOrd checksum f dirFile v
            else openNext_loop D oflag 0 checksum f dirFile v))"

definition openNext ::
    "'d blockdev \<Rightarrow> byte \<Rightarrow> fatfile \<Rightarrow> fatfile \<Rightarrow> 'd fatvol \<Rightarrow> (bool \<times> fatfile \<times> fatfile \<times> 'd fatvol) option" where
  "openNext D oflag f dirFile v =
     (if isOpen f \<or> \<not> isDir dirFile \<or> f_curPosition dirFile AND 0x1F \<noteq> 0 then Some (False, f, dirFile, v)
      else openNext_loop D oflag 0 0 f dirFile v)"

text \<open>The search for the start of the long name before entry \<open>index\<close>, with \<open>n\<close> entries left to try.\<close>

fun lfn_start ::
    "'d blockdev \<Rightarrow> 16 word \<Rightarrow> nat \<Rightarrow> 16 word \<Rightarrow> fatfile \<Rightarrow> 'd fatvol \<Rightarrow> (bool \<times> fatfile \<times> 'd fatvol) option" where
  "lfn_start D index 0 i dirFile v = Some (True, dirFile, v)"
| "lfn_start D index (Suc n) i dirFile v = do {
     (r, dirFile, v) \<leftarrow> cacheDir D (index - i) dirFile v;
     (case r of
        None \<Rightarrow> Some (False, dirFile, v)
      | Some k \<Rightarrow>
          let e = dir_at k v in
          if dir_attributes e \<noteq> 0x0F then Some (True, dirFile, v)
          else if e ! 0 AND 0x40 \<noteq> 0 then Some (seekSet D (32 * ucast (index - i)) dirFile v)
          else lfn_start D index n (i + 1) dirFile v) }"

definition open_index ::
    "'d blockdev \<Rightarrow> 'd fsclock \<Rightarrow> 16 word \<Rightarrow> byte \<Rightarrow> fatfile \<Rightarrow> fatfile \<Rightarrow> 'd fatvol
     \<Rightarrow> (bool \<times> fatfile \<times> fatfile \<times> 'd fatvol) option" where
  "open_index D K index oflag f dirFile v = do {
     (ok, dirFile, v) \<leftarrow>
       (if index \<noteq> 0 then lfn_start D index (min (unat index) 20) 1 dirFile v
        else let (dirFile, v) = file_rewind D dirFile v in Some (True, dirFile, v));
     if \<not> ok then Some (False, f, dirFile, v)
     else do {
       (ok, f, dirFile, v) \<leftarrow> openNext D oflag f dirFile v;
       if \<not> ok then Some (False, f, dirFile, v)
       else if f_dirIndex f \<noteq> index
       then let (_, f, v) = FatFile_close D K f v in Some (False, f, dirFile, v)
       else Some (True, f, dirFile, v) } }"

end
