(* ===== verification/FatNames.thy ===== *)
theory FatNames
  imports FatFile
begin

text \<open>
  File names: the long and the short name of a path component (\<open>FatFileLFN.cpp\<close>, \<open>FatName.cpp\<close>,
  \<open>FsName.h\<close>, the predicates of \<open>FsStructs.h\<close>), with 7-bit long names as the firmware compiles them.
  A path is a list of bytes without its terminator.
\<close>

section \<open>Characters\<close>

definition lfnReservedChar :: "byte \<Rightarrow> bool" where
  "lfnReservedChar c \<longleftrightarrow> c < 0x20 \<or> c \<in> {0x22, 0x2A, 0x2F, 0x3A, 0x3C, 0x3E, 0x3F, 0x5C, 0x7C}"

definition sfnReservedChar :: "byte \<Rightarrow> bool" where
  "sfnReservedChar c \<longleftrightarrow>
     (if c \<in> {0x22, 0x7C, 0x5B, 0x5C, 0x5D} then True
      else if 0x2A \<le> c \<and> c \<le> 0x2F \<and> c \<noteq> 0x2D \<or> 0x3A \<le> c \<and> c \<le> 0x3F then True
      else \<not> (0x20 < c \<and> c < 0x7F))"

abbreviation isDirSeparator :: "byte \<Rightarrow> bool" where "isDirSeparator c \<equiv> c = 0x2F"

definition isLower :: "byte \<Rightarrow> bool" where "isLower c \<longleftrightarrow> 0x61 \<le> c \<and> c \<le> 0x7A"
definition isUpper :: "byte \<Rightarrow> bool" where "isUpper c \<longleftrightarrow> 0x41 \<le> c \<and> c \<le> 0x5A"
definition toUpper :: "byte \<Rightarrow> byte" where "toUpper c = (if isLower c then c - 0x61 + 0x41 else c)"

section \<open>A name\<close>

text \<open>
  \<open>FatLfn_t\<close>: the characters between \<open>begin\<close> and \<open>end\<close>, the index of \<open>next\<close>, the short name and its flags.
\<close>

record fatname =
  n_chars :: "byte list"
  n_next :: nat
  n_len :: nat
  n_seqPos :: nat
  n_flags :: byte
  n_sfn :: "byte list"

abbreviation (input) FNAME_FLAG_LOST_CHARS :: byte where "FNAME_FLAG_LOST_CHARS \<equiv> 0x01"
abbreviation (input) FNAME_FLAG_MIXED_CASE :: byte where "FNAME_FLAG_MIXED_CASE \<equiv> 0x02"
abbreviation (input) FNAME_FLAG_NEED_LFN :: byte where "FNAME_FLAG_NEED_LFN \<equiv> 0x03"
abbreviation (input) FAT_CASE_LC_BASE :: byte where "FAT_CASE_LC_BASE \<equiv> 0x08"
abbreviation (input) FAT_CASE_LC_EXT :: byte where "FAT_CASE_LC_EXT \<equiv> 0x10"

definition name_atEnd :: "fatname \<Rightarrow> bool" where
  "name_atEnd n \<longleftrightarrow> n_next n = length (n_chars n)"

definition name_reset :: "fatname \<Rightarrow> fatname" where
  "name_reset n = n\<lparr>n_next := 0\<rparr>"

definition getch :: "fatname \<Rightarrow> byte \<times> fatname" where
  "getch n = (if name_atEnd n then (0, n) else (n_chars n ! n_next n, n\<lparr>n_next := n_next n + 1\<rparr>))"

text \<open>A \<open>char\<close> is signed on the board, so a byte above 127 is extended with its sign.\<close>

definition get16 :: "fatname \<Rightarrow> 16 word \<times> fatname" where
  "get16 n = (if name_atEnd n then (0, n) else (scast (n_chars n ! n_next n), n\<lparr>n_next := n_next n + 1\<rparr>))"

section \<open>The short name\<close>

record sfn_state =
  s_is83 :: bool
  s_bit :: byte
  s_lc :: byte
  s_uc :: byte
  s_i :: nat
  s_in :: nat
  s_seqPos :: nat
  s_sfn :: "byte list"

text \<open>
  The loop over the characters from index \<open>ptr\<close>; \<open>dot\<close> is the index of the last dot, or of the start of
  the name when there is none.
\<close>

partial_function (option) sfn_loop :: "byte list \<Rightarrow> nat \<Rightarrow> nat \<Rightarrow> sfn_state \<Rightarrow> sfn_state option" where
  "sfn_loop cs dot ptr s =
     (if \<not> ptr < length cs then Some s
      else let c = cs ! ptr in
        if c = 0x2E \<and> ptr = dot
        then sfn_loop cs dot (ptr + 1) (s\<lparr>s_in := 10, s_i := 8, s_bit := FAT_CASE_LC_EXT\<rparr>)
        else let (s, c, skip) =
               (if sfnReservedChar c then (s\<lparr>s_is83 := False\<rparr>, 0x5F, c AND 0xC0 = 0x80) else (s, c, False))
             in if skip then sfn_loop cs dot (ptr + 1) s
                else if s_i s > s_in s
                then let s = s\<lparr>s_is83 := False\<rparr> in
                     if s_in s = 10 \<or> ptr > dot then Some s else sfn_loop cs dot dot s
                else let (s, c) =
                       (if isLower c then (s\<lparr>s_lc := s_lc s OR s_bit s\<rparr>, c - 0x20)
                        else if isUpper c then (s\<lparr>s_uc := s_uc s OR s_bit s\<rparr>, c) else (s, c));
                         s = s\<lparr>s_sfn := (s_sfn s)[s_i s := c], s_i := s_i s + 1\<rparr>
                     in sfn_loop cs dot (ptr + 1) (if s_i s < 7 then s\<lparr>s_seqPos := s_i s\<rparr> else s))"

text \<open>The index of the last dot after \<open>start\<close>, or \<open>start\<close>.\<close>

definition last_dot :: "byte list \<Rightarrow> nat \<Rightarrow> nat" where
  "last_dot cs start =
     (case find (\<lambda>i. cs ! i = 0x2E) (rev [Suc start..<length cs]) of None \<Rightarrow> start | Some i \<Rightarrow> i)"

definition makeSFN :: "fatname \<Rightarrow> (bool \<times> fatname) option" where
  "makeSFN n = do {
     let cs = n_chars n;
     let start = length (takeWhile (\<lambda>c. c = 0x2E) cs);
     s \<leftarrow> sfn_loop cs (last_dot cs start) start
       \<lparr>s_is83 = cs ! 0 \<noteq> 0x2E, s_bit = FAT_CASE_LC_BASE, s_lc = 0, s_uc = 0, s_i = 0, s_in = 7,
        s_seqPos = n_seqPos n, s_sfn = replicate 11 0x20\<rparr>;
     let n = n\<lparr>n_sfn := s_sfn s, n_seqPos := s_seqPos s\<rparr>;
     if s_sfn s ! 0 = 0x20 then Some (False, n)
     else if s_is83 s
     then Some (True, n\<lparr>n_flags := if s_lc s AND s_uc s \<noteq> 0 then FNAME_FLAG_MIXED_CASE else s_lc s\<rparr>)
     else Some (True, n\<lparr>n_flags := FNAME_FLAG_LOST_CHARS,
            n_sfn := (s_sfn s)[s_seqPos s := 0x7E, s_seqPos s + 1 := 0x31]\<rparr>) }"

section \<open>Paths\<close>

text \<open>
  The first component of a path: the characters up to a separator are checked; trailing dots and spaces
  are not part of the name. The result is the rest of the path.
\<close>

fun scan_name :: "byte list \<Rightarrow> byte list \<Rightarrow> (byte list \<times> byte list) option" where
  "scan_name acc [] = Some (acc, [])"
| "scan_name acc (c # cs) =
     (if isDirSeparator c then Some (acc, c # cs)
      else if c \<ge> 0x80 \<or> lfnReservedChar c then None
      else scan_name (acc @ [c]) cs)"

definition trim_name :: "byte list \<Rightarrow> byte list" where
  "trim_name cs = rev (dropWhile (\<lambda>c. c = 0x2E \<or> c = 0x20) (rev cs))"

definition parsePathName :: "byte list \<Rightarrow> fatname \<Rightarrow> (bool \<times> fatname \<times> byte list) option" where
  "parsePathName path n =
     (let path = dropWhile (\<lambda>c. c = 0x20) path in
      case scan_name [] path of
        None \<Rightarrow> Some (False, n, path)
      | Some (cs, rest) \<Rightarrow>
          let name = trim_name cs;
              n = n\<lparr>n_chars := name, n_next := 0, n_len := length name\<rparr>
          in if name = [] \<or> length name > 255 then Some (False, n, path)
             else do {
               (ok, n) \<leftarrow> makeSFN n;
               Some (ok, n, dropWhile (\<lambda>c. c = 0x20 \<or> isDirSeparator c) rest) })"

section \<open>Long name entries\<close>

text \<open>The offset of the 16-bit character \<open>i\<close> in an entry: three fields hold 5, 6 and 2 of them.\<close>

definition lfn_offset :: "nat \<Rightarrow> nat" where
  "lfn_offset i = (if i < 5 then 1 + 2 * i else if i < 11 then 14 + 2 * (i - 5) else 28 + 2 * (i - 11))"

definition getLfnChar :: "byte list \<Rightarrow> nat \<Rightarrow> 16 word" where
  "getLfnChar e i = (if i < 13 then getLe16 e (lfn_offset i) else 0)"

definition putLfnChar :: "nat \<Rightarrow> 16 word \<Rightarrow> byte list \<Rightarrow> byte list" where
  "putLfnChar i c e = (if i < 13 then setLe16 (lfn_offset i) c e else e)"

text \<open>Comparing the characters of an entry from index \<open>i\<close>: a result ends the comparison of the name.\<close>

fun cmp_chars :: "byte list \<Rightarrow> nat list \<Rightarrow> fatname \<Rightarrow> bool option \<times> fatname" where
  "cmp_chars e [] n = (None, n)"
| "cmp_chars e (i # is) n =
     (let u = getLfnChar e i in
      if name_atEnd n then (Some (u = 0), n)
      else let (c, n') = (if u > 0x7F then (0, n) else getch n)
           in if u > 0x7F \<or> toUpper (ucast u) \<noteq> toUpper c then (Some False, n') else cmp_chars e is n')"

text \<open>Entries \<open>order\<close>, ..., of a long name, with \<open>k\<close> to go. The directory is a copy: only the volume changes.\<close>

fun cmp_entries ::
    "'d blockdev \<Rightarrow> 16 word \<Rightarrow> nat \<Rightarrow> 16 word \<Rightarrow> fatname \<Rightarrow> fatfile \<Rightarrow> 'd fatvol \<Rightarrow> (bool \<times> fatname \<times> 'd fatvol) option" where
  "cmp_entries D index 0 order n dir v = Some (True, n, v)"
| "cmp_entries D index (Suc k) order n dir v = do {
     (r, dir, v) \<leftarrow> cacheDir D (index - order) dir v;
     (case r of
        None \<Rightarrow> Some (False, n, v)
      | Some i \<Rightarrow>
          (case cmp_chars (dir_at i v) [0..<13] n of
             (Some b, n) \<Rightarrow> Some (b, n, v)
           | (None, n) \<Rightarrow> cmp_entries D index k (order + 1) n dir v)) }"

definition cmpName ::
    "'d blockdev \<Rightarrow> 16 word \<Rightarrow> fatname \<Rightarrow> byte \<Rightarrow> fatfile \<Rightarrow> 'd fatvol \<Rightarrow> (bool \<times> fatname \<times> 'd fatvol) option" where
  "cmpName D index n lfnOrd dirFile v = cmp_entries D index (unat lfnOrd) 1 (name_reset n) dirFile v"

text \<open>Filling an entry: the rest of the name, a zero, and then 0xFFFF; \<open>fc\<close> counts what follows the name.\<close>

fun put_chars :: "nat list \<Rightarrow> nat \<Rightarrow> fatname \<Rightarrow> byte list \<Rightarrow> nat \<times> fatname \<times> byte list" where
  "put_chars [] fc n e = (fc, n, e)"
| "put_chars (i # is) fc n e =
     (if name_atEnd n
      then put_chars is (Suc fc) n (putLfnChar i (if fc = 0 then 0 else 0xFFFF) e)
      else let (cp, n) = get16 n in put_chars is fc n (putLfnChar i cp e))"

definition lfn_header :: "byte \<Rightarrow> byte \<Rightarrow> byte list \<Rightarrow> byte list" where
  "lfn_header order checksum e = setLe16 26 0 (e[0 := order, 11 := 0x0F, 12 := 0, 13 := checksum])"

fun create_entries ::
    "'d blockdev \<Rightarrow> 16 word \<Rightarrow> byte \<Rightarrow> nat \<Rightarrow> byte \<Rightarrow> nat \<Rightarrow> fatname \<Rightarrow> fatfile \<Rightarrow> 'd fatvol
     \<Rightarrow> (bool \<times> fatname \<times> 'd fatvol) option" where
  "create_entries D index lfnOrd 0 order fc n dir v = Some (True, n, v)"
| "create_entries D index lfnOrd (Suc k) order fc n dir v = do {
     (r, dir, v) \<leftarrow> cacheDir D (index - ucast order) dir v;
     (case r of
        None \<Rightarrow> Some (False, n, v)
      | Some i \<Rightarrow>
          let e = lfn_header (if order = lfnOrd then 0x40 OR order else order) (lfnChecksum (n_sfn n)) (dir_at i v);
              (fc, n, e) = put_chars [0..<13] fc n e;
              v = upd_dir i (\<lambda>_. e) (cacheDirty v)
          in create_entries D index lfnOrd k (order + 1) fc n dir v) }"

definition createLFN ::
    "'d blockdev \<Rightarrow> 16 word \<Rightarrow> fatname \<Rightarrow> byte \<Rightarrow> fatfile \<Rightarrow> 'd fatvol \<Rightarrow> (bool \<times> fatname \<times> 'd fatvol) option" where
  "createLFN D index n lfnOrd dirFile v =
     create_entries D index lfnOrd (unat lfnOrd) 1 0 (name_reset n) dirFile v"

section \<open>The name of an open file\<close>

definition lower_bit :: "byte \<Rightarrow> byte \<Rightarrow> byte \<Rightarrow> byte" where
  "lower_bit lc flags c = (if 0x41 \<le> c \<and> c \<le> 0x5A \<and> lc AND flags \<noteq> 0 then c + 0x20 else c)"

text \<open>
  The loop of \<open>getSFN\<close> at step \<open>i\<close> of 12, where step 8 puts the dot and \<open>p\<close> is the next byte of the name. No
  result when the text does not fit.
\<close>

fun sfn_text :: "byte list \<Rightarrow> nat list \<Rightarrow> nat \<Rightarrow> byte \<Rightarrow> nat \<Rightarrow> byte list \<Rightarrow> byte list option" where
  "sfn_text e [] p lc cap acc = Some acc"
| "sfn_text e (i # is) p lc cap acc =
     (if i = 8
      then if e ! p = 0x20 then Some acc
           else if length acc + 1 \<ge> cap then None
           else sfn_text e is p FAT_CASE_LC_EXT cap (acc @ [0x2E])
      else let c = lower_bit lc (dir_caseFlags e) (e ! p)
           in if c = 0x20 then sfn_text e is (p + 1) lc cap acc
              else if length acc + 1 \<ge> cap then None
              else sfn_text e is (p + 1) lc cap (acc @ [c]))"

definition getSFN :: "'d blockdev \<Rightarrow> nat \<Rightarrow> fatfile \<Rightarrow> 'd fatvol \<Rightarrow> byte list \<times> 'd fatvol" where
  "getSFN D cap f v =
     (if \<not> isOpen f then ([], v)
      else if isRoot f then (if cap < 2 then [] else [0x2F], v)
      else case cacheDirEntry D f CACHE_FOR_READ v of
          (None, v) \<Rightarrow> ([], v)
        | (Some i, v) \<Rightarrow>
            (case sfn_text (dir_at i v) [0..<12] 0 FAT_CASE_LC_BASE cap [] of
               None \<Rightarrow> ([], v) | Some s \<Rightarrow> (s, v)))"

text \<open>The characters of one entry of a long name: the flag says that the name ended in it.\<close>

fun lfn_text :: "byte list \<Rightarrow> nat list \<Rightarrow> nat \<Rightarrow> byte list \<Rightarrow> (bool \<times> byte list) option" where
  "lfn_text e [] cap acc = Some (False, acc)"
| "lfn_text e (i # is) cap acc =
     (let c = getLfnChar e i in
      if c = 0 then Some (True, acc)
      else if length acc + 1 \<ge> cap then None
      else lfn_text e is cap (acc @ [if c \<ge> 0x7F then 0x3F else ucast c]))"

fun lfn_entries ::
    "'d blockdev \<Rightarrow> 16 word \<Rightarrow> nat \<Rightarrow> byte \<Rightarrow> nat \<Rightarrow> byte list \<Rightarrow> fatfile \<Rightarrow> 'd fatvol
     \<Rightarrow> (byte list option \<times> 'd fatvol) option" where
  "lfn_entries D index 0 order cap acc dir v = Some (Some acc, v)"
| "lfn_entries D index (Suc k) order cap acc dir v = do {
     (r, dir, v) \<leftarrow> cacheDir D (index - ucast order) dir v;
     (case r of
        None \<Rightarrow> Some (None, v)
      | Some i \<Rightarrow>
          let e = dir_at i v in
          if dir_attributes e \<noteq> 0x0F \<or> order \<noteq> e ! 0 AND 0x1F then Some (None, v)
          else case lfn_text e [0..<13] cap acc of
              None \<Rightarrow> Some (None, v)
            | Some (True, acc) \<Rightarrow> Some (Some acc, v)
            | Some (False, acc) \<Rightarrow> lfn_entries D index k (order + 1) cap acc dir v) }"

text \<open>The text of the name; the value returned is its length, and a failure leaves the empty text.\<close>

definition getName7 :: "'d blockdev \<Rightarrow> nat \<Rightarrow> fatfile \<Rightarrow> 'd fatvol \<Rightarrow> (byte list \<times> 'd fatvol) option" where
  "getName7 D cap f v =
     (if \<not> isOpen f then Some ([], v)
      else if \<not> isLFN f then Some (getSFN D cap f v)
      else case openCluster file_zero f v of (ok, dir) \<Rightarrow>
        if \<not> ok then Some ([], v)
        else do {
          (r, v) \<leftarrow> lfn_entries D (f_dirIndex f) (unat (f_lfnOrd f)) 1 cap [] dir v;
          Some (case r of None \<Rightarrow> [] | Some s \<Rightarrow> s, v) })"

definition getName :: "'d blockdev \<Rightarrow> nat \<Rightarrow> fatfile \<Rightarrow> 'd fatvol \<Rightarrow> (byte list \<times> 'd fatvol) option" where
  "getName D cap f v = getName7 D cap f v"

end
