(* ===== verification/FatDir.thy ===== *)
theory FatDir
  imports FatNames
begin

text \<open>
  Operations on directories and paths: opening and creating a file by name, \<open>remove\<close>, \<open>mkdir\<close>, \<open>rename\<close>,
  \<open>rmdir\<close> (\<open>FatFileLFN.cpp\<close>, \<open>FatFile.cpp\<close>) and the volume operations of \<open>FatVolume.h\<close> that use them.
  Where the code passes a pointer to a directory file, the directory is an argument and part of the result.
\<close>

section \<open>A short name that is not in use\<close>

definition hex_digit :: "16 word \<Rightarrow> byte" where
  "hex_digit hex = (let h = ucast (hex AND 0xF) in if h < 10 then h + 0x30 else h + 0x41 - 10)"

text \<open>The four digits at \<open>pos + 4\<close>, ..., \<open>pos + 1\<close>, the lowest first; \<open>hex\<close> is zero after them.\<close>

definition seq_name :: "nat \<Rightarrow> 16 word \<Rightarrow> byte list \<Rightarrow> byte list" where
  "seq_name pos hex sfn =
     (foldl (\<lambda>s i. s[pos + 4 - i := hex_digit (drop_bit (4 * i) hex)]) sfn [0..<4])[pos := 0x7E]"

text \<open>Is the short name in the directory? No value stands for a read error.\<close>

partial_function (option) sfn_in_use ::
    "'d blockdev \<Rightarrow> byte list \<Rightarrow> fatfile \<Rightarrow> 'd fatvol \<Rightarrow> (bool option \<times> fatfile \<times> 'd fatvol) option" where
  "sfn_in_use D sfn f v =
     Option.bind (readDirCache D True f v) (\<lambda>(r, f, v).
       case r of
         None \<Rightarrow> Some (if f_error f = 0 then Some False else None, f, v)
       | Some i \<Rightarrow>
           let e = dir_at i v in
           if e ! 0 = FAT_NAME_FREE then Some (Some False, f, v)
           else if isFatFileOrSubdir e \<and> sfn = take 11 e then Some (Some True, f, v)
           else sfn_in_use D sfn f v)"

fun unique_loop ::
    "'d blockdev \<Rightarrow> 'd fsclock \<Rightarrow> nat \<Rightarrow> 16 word \<Rightarrow> nat \<Rightarrow> byte list \<Rightarrow> fatfile \<Rightarrow> 'd fatvol
     \<Rightarrow> (bool \<times> byte list \<times> fatfile \<times> 'd fatvol) option" where
  "unique_loop D K 0 hex pos sfn f v = Some (False, sfn, f, v)"
| "unique_loop D K (Suc k) hex pos sfn f v = do {
     let hex = hex + ucast (clk_millis K (c_dev (v_cache v)));
     let pos = min pos 3;
     let sfn = seq_name pos hex sfn;
     let (f, v) = file_rewind D f v;
     (r, f, v) \<leftarrow> sfn_in_use D sfn f v;
     (case r of
        None \<Rightarrow> Some (False, sfn, f, v)
      | Some False \<Rightarrow> Some (True, sfn, f, v)
      | Some True \<Rightarrow> unique_loop D K k 0 pos sfn f v) }"

text \<open>The sequence numbers are 2, ..., 99.\<close>

definition makeUniqueSfn ::
    "'d blockdev \<Rightarrow> 'd fsclock \<Rightarrow> fatname \<Rightarrow> fatfile \<Rightarrow> 'd fatvol \<Rightarrow> (bool \<times> fatname \<times> fatfile \<times> 'd fatvol) option" where
  "makeUniqueSfn D K n f v = do {
     (ok, sfn, f, v) \<leftarrow> unique_loop D K 98 0 (n_seqPos n) (n_sfn n) f v;
     Some (ok, n\<lparr>n_sfn := sfn\<rparr>, f, v) }"

section \<open>Opening by name\<close>

text \<open>The local variables of the search, and the label it jumps to.\<close>

record search =
  q_lfnOrd :: byte
  q_freeFound :: byte
  q_order :: byte
  q_checksum :: byte
  q_curIndex :: "16 word"
  q_freeIndex :: "16 word"
  q_fnameFound :: bool

datatype outcome = SearchFail | SearchFound | SearchCreate

definition note_free :: "byte \<Rightarrow> byte list \<Rightarrow> search \<Rightarrow> search" where
  "note_free freeNeed e s =
     (if e ! 0 = FAT_NAME_DELETED \<or> e ! 0 = FAT_NAME_FREE
      then let s = (if q_freeFound s = 0 then s\<lparr>q_freeIndex := q_curIndex s\<rparr> else s)
           in if q_freeFound s < freeNeed then s\<lparr>q_freeFound := q_freeFound s + 1\<rparr> else s
      else if q_freeFound s < freeNeed then s\<lparr>q_freeFound := 0\<rparr> else s)"

text \<open>A long name entry: the flag says that it continues, or begins, a long name of the right length.\<close>

definition note_lfn :: "byte \<Rightarrow> byte list \<Rightarrow> search \<Rightarrow> bool \<times> search" where
  "note_lfn nameOrd e s =
     (if q_lfnOrd s = 0
      then let s = s\<lparr>q_order := e ! 0 AND 0x1F\<rparr>
           in if q_order s \<noteq> nameOrd \<or> e ! 0 AND 0x40 = 0 then (False, s)
              else (True, s\<lparr>q_lfnOrd := nameOrd, q_checksum := e ! 13\<rparr>)
      else let s = s\<lparr>q_order := q_order s - 1\<rparr>
           in if e ! 0 \<noteq> q_order s \<or> q_checksum s \<noteq> e ! 13 then (False, s\<lparr>q_lfnOrd := 0\<rparr>) else (True, s))"

partial_function (option) search_loop ::
    "'d blockdev \<Rightarrow> fatname \<Rightarrow> byte \<Rightarrow> byte \<Rightarrow> search \<Rightarrow> fatfile \<Rightarrow> 'd fatvol
     \<Rightarrow> (outcome \<times> search \<times> fatfile \<times> 'd fatvol) option" where
  "search_loop D n freeNeed nameOrd s d v =
     (let s = s\<lparr>q_curIndex := ucast (f_curPosition d div 32)\<rparr> in
      Option.bind (readDirCache D False d v) (\<lambda>(r, d, v).
        case r of
          None \<Rightarrow> Some (if f_error d \<noteq> 0 then SearchFail else SearchCreate, s, d, v)
        | Some i \<Rightarrow>
            let e = dir_at i v; s = note_free freeNeed e s in
            if e ! 0 = FAT_NAME_FREE then Some (SearchCreate, s, d, v)
            else if e ! 0 = FAT_NAME_DELETED \<or> e ! 0 = 0x2E
            then search_loop D n freeNeed nameOrd (s\<lparr>q_lfnOrd := 0\<rparr>) d v
            else if isFatLongName e
            then case note_lfn nameOrd e s of (goes, s) \<Rightarrow>
                 if goes \<and> q_order s = 1
                 then Option.bind (cmpName D (q_curIndex s + 1) n (q_lfnOrd s) d v) (\<lambda>(same, _, v).
                        search_loop D n freeNeed nameOrd (if same then s else s\<lparr>q_lfnOrd := 0\<rparr>) d v)
                 else search_loop D n freeNeed nameOrd s d v
            else if isFatFileOrSubdir e
            then if q_lfnOrd s \<noteq> 0
                 then Some (if q_order s = 1 \<and> lfnChecksum e = q_checksum s then SearchFound else SearchFail, s, d, v)
                 else if take 11 e = n_sfn n
                 then if n_flags n AND FNAME_FLAG_LOST_CHARS = 0 then Some (SearchFound, s, d, v)
                      else search_loop D n freeNeed nameOrd (s\<lparr>q_fnameFound := True\<rparr>) d v
                 else search_loop D n freeNeed nameOrd s d v
            else search_loop D n freeNeed nameOrd (s\<lparr>q_lfnOrd := 0\<rparr>) d v))"

text \<open>Counting \<open>k\<close> more entries up to the end of the directory; the flag is false on a read error.\<close>

fun count_more ::
    "'d blockdev \<Rightarrow> nat \<Rightarrow> byte \<Rightarrow> fatfile \<Rightarrow> 'd fatvol \<Rightarrow> (bool \<times> byte \<times> fatfile \<times> 'd fatvol) option" where
  "count_more D 0 freeFound d v = Some (True, freeFound, d, v)"
| "count_more D (Suc k) freeFound d v = do {
     (r, d, v) \<leftarrow> readDirCache D False d v;
     (case r of
        None \<Rightarrow> Some (f_error d = 0, freeFound, d, v)
      | Some _ \<Rightarrow> count_more D k (freeFound + 1) d v) }"

partial_function (option) grow_dir ::
    "'d blockdev \<Rightarrow> byte \<Rightarrow> 16 word \<Rightarrow> fatfile \<Rightarrow> 'd fatvol \<Rightarrow> (bool \<times> fatfile \<times> 'd fatvol) option" where
  "grow_dir D freeNeed freeTotal d v =
     (if \<not> freeTotal < ucast freeNeed then Some (True, d, v)
      else Option.bind (addDirCluster D d v) (\<lambda>(ok, d, v).
        if \<not> ok then Some (False, d, v)
        else grow_dir D freeNeed (freeTotal + dirEntriesPerCluster v) d v))"

text \<open>The entry of a new file.\<close>

definition fresh_entry :: "fatname \<Rightarrow> (16 word \<times> 16 word \<times> byte) option \<Rightarrow> 16 word \<times> 16 word \<Rightarrow> byte list" where
  "fresh_entry n now dflt =
     (let e = put_at 0 (take 11 (n_sfn n)) (replicate 32 0);
          e = e[12 := (FAT_CASE_LC_BASE OR FAT_CASE_LC_EXT) AND n_flags n]
      in case now of
           Some (date, time, ms10) \<Rightarrow> (setLe16 14 time (setLe16 16 date e))[13 := ms10]
         | None \<Rightarrow>
             let e = setLe16 18 (fst dflt) (setLe16 24 (fst dflt) (setLe16 16 (fst dflt) e))
             in if snd dflt \<noteq> 0 then setLe16 22 (snd dflt) (setLe16 14 (snd dflt) e) else e)"

text \<open>At the label \<open>create\<close>: room for the entries, a unique short name, the long name, the new entry.\<close>

definition create_entry ::
    "'d blockdev \<Rightarrow> 'd fsclock \<Rightarrow> fatname \<Rightarrow> byte \<Rightarrow> search \<Rightarrow> fatfile \<Rightarrow> 'd fatvol
     \<Rightarrow> ((16 word \<times> byte) option \<times> fatfile \<times> 'd fatvol) option" where
  "create_entry D K n freeNeed s d v = do {
     let freeIndex = (if q_freeFound s = 0 then q_curIndex s else q_freeIndex s);
     (ok, freeFound, d, v) \<leftarrow> count_more D (unat freeNeed - unat (q_freeFound s)) (q_freeFound s) d v;
     if \<not> ok then Some (None, d, v)
     else do {
       (ok, d, v) \<leftarrow> grow_dir D freeNeed (ucast freeFound) d v;
       if \<not> ok then Some (None, d, v)
       else do {
         (ok, n, d, v) \<leftarrow> (if q_fnameFound s then makeUniqueSfn D K n d v else Some (True, n, d, v));
         if \<not> ok then Some (None, d, v)
         else do {
           let lfnOrd = freeNeed - 1;
           let curIndex = freeIndex + ucast lfnOrd;
           (ok, n, v) \<leftarrow> createLFN D curIndex n lfnOrd d v;
           if \<not> ok then Some (None, d, v)
           else do {
             (r, d, v) \<leftarrow> cacheDir D curIndex d v;
             (case r of
                None \<Rightarrow> Some (None, d, v)
              | Some i \<Rightarrow>
                  Some (Some (curIndex, lfnOrd), d,
                    cacheDirty (upd_dir i (\<lambda>_. fresh_entry n (clock_now K v) (clk_default K)) v))) } } } } }"

definition open_name ::
    "'d blockdev \<Rightarrow> 'd fsclock \<Rightarrow> fatname \<Rightarrow> byte \<Rightarrow> fatfile \<Rightarrow> fatfile \<Rightarrow> 'd fatvol
     \<Rightarrow> (bool \<times> fatfile \<times> fatfile \<times> 'd fatvol) option" where
  "open_name D K n oflag f d v =
     (if \<not> isDir d \<or> isOpen f then Some (False, f, d, v)
      else do {
        let nameOrd = (word_of_nat ((n_len n + 12) div 13) :: byte);
        let freeNeed = (if n_flags n AND FNAME_FLAG_NEED_LFN \<noteq> 0 then 1 + nameOrd else 1);
        let (d, v) = file_rewind D d v;
        (out, s, d, v) \<leftarrow> search_loop D n freeNeed nameOrd
          \<lparr>q_lfnOrd = 0, q_freeFound = 0, q_order = 0, q_checksum = 0, q_curIndex = 0, q_freeIndex = 0,
           q_fnameFound = False\<rparr> d v;
        (entry, d, v) \<leftarrow>
          (case out of
             SearchFail \<Rightarrow> Some (None, d, v)
           | SearchFound \<Rightarrow> Some (if oflag AND O_EXCL \<noteq> 0 then None else Some (q_curIndex s, q_lfnOrd s), d, v)
           | SearchCreate \<Rightarrow>
               if oflag AND O_CREAT = 0 \<or> \<not> isWriteMode oflag then Some (None, d, v)
               else create_entry D K n freeNeed s d v);
        (case entry of
           None \<Rightarrow> Some (False, f, d, v)
         | Some (curIndex, lfnOrd) \<Rightarrow> do {
             (ok, f, v) \<leftarrow> openCachedEntry D d curIndex oflag lfnOrd v;
             Some (ok, f, d, v) }) })"

section \<open>Opening by path\<close>

definition skip_separators :: "byte list \<Rightarrow> byte list" where
  "skip_separators path = dropWhile (\<lambda>c. c = 0x2F) path"

text \<open>
  The loop over the components of a path. \<open>tmp\<close> says that the directory is \<open>tmpDir\<close> and no longer the
  caller's, which is returned at the end. Each turn consumes a component, so the length of the path bounds
  the turns.
\<close>

fun open_walk ::
    "nat \<Rightarrow> 'd blockdev \<Rightarrow> 'd fsclock \<Rightarrow> byte list \<Rightarrow> byte \<Rightarrow> fatname \<Rightarrow> fatfile \<Rightarrow> bool \<Rightarrow> fatfile \<Rightarrow> fatfile \<Rightarrow> 'd fatvol
     \<Rightarrow> (bool \<times> fatfile \<times> fatfile \<times> 'd fatvol) option" where
  "open_walk 0 D K path oflag n f tmp d caller v = None"
| "open_walk (Suc k) D K path oflag n f tmp d caller v = do {
     (ok, n, path) \<leftarrow> parsePathName path n;
     if \<not> ok then Some (False, f, if tmp then caller else d, v)
     else if path = []
     then do {
       (ok, f, d, v) \<leftarrow> open_name D K n oflag f d v;
       Some (ok, f, if tmp then caller else d, v) }
     else do {
       (ok, f, d, v) \<leftarrow> open_name D K n O_RDONLY f d v;
       let caller = (if tmp then caller else d);
       if \<not> ok then Some (False, f, caller, v)
       else let (_, g, v) = FatFile_close D K f v in open_walk k D K path oflag n g True f caller v } }"

text \<open>A name before it is parsed.\<close>

definition name_zero :: fatname where
  "name_zero = \<lparr>n_chars = [], n_next = 0, n_len = 0, n_seqPos = 0, n_flags = 0, n_sfn = replicate 11 0\<rparr>"

definition open_path_in ::
    "'d blockdev \<Rightarrow> 'd fsclock \<Rightarrow> byte list \<Rightarrow> byte \<Rightarrow> fatfile \<Rightarrow> fatfile \<Rightarrow> 'd fatvol
     \<Rightarrow> (bool \<times> fatfile \<times> fatfile \<times> 'd fatvol) option" where
  "open_path_in D K path oflag f d v =
     (if isOpen f \<or> \<not> isDir d then Some (False, f, d, v)
      else if path \<noteq> [] \<and> isDirSeparator (hd path)
      then let path = skip_separators path in
           if path = [] then let (ok, f) = openRoot f v in Some (ok, f, d, v)
           else let (ok, tmp) = openRoot file_zero v
                in if \<not> ok then Some (False, f, d, v)
                   else open_walk (Suc (length path)) D K path oflag name_zero f True tmp d v
      else open_walk (Suc (length path)) D K path oflag name_zero f False d d v)"

section \<open>Removing\<close>

text \<open>The long name entries of a removed file, with \<open>k\<close> to go.\<close>

fun remove_entries ::
    "'d blockdev \<Rightarrow> 16 word \<Rightarrow> byte \<Rightarrow> nat \<Rightarrow> byte \<Rightarrow> fatfile \<Rightarrow> 'd fatvol \<Rightarrow> (bool \<times> 'd fatvol) option" where
  "remove_entries D index checksum 0 order dir v = Some (False, v)"
| "remove_entries D index checksum (Suc k) order dir v = do {
     (r, dir, v) \<leftarrow> cacheDir D (index - ucast order) dir v;
     (case r of
        None \<Rightarrow> Some (False, v)
      | Some i \<Rightarrow>
          let e = dir_at i v in
          if dir_attributes e \<noteq> 0x0F \<or> order \<noteq> e ! 0 AND 0x1F \<or> checksum \<noteq> e ! 13 then Some (False, v)
          else let v = cacheDirty (upd_dir i (\<lambda>e. e[0 := FAT_NAME_DELETED]) v)
               in if e ! 0 AND 0x40 \<noteq> 0 then Some (cacheSync D v)
                  else remove_entries D index checksum k (order + 1) dir v) }"

definition FatFile_remove :: "'d blockdev \<Rightarrow> fatfile \<Rightarrow> 'd fatvol \<Rightarrow> (bool \<times> fatfile \<times> 'd fatvol) option" where
  "FatFile_remove D f v =
     (if \<not> isWritable f then Some (False, f, v)
      else do {
        (ok, v) \<leftarrow> (if f_firstCluster f \<noteq> 0 then freeChain D (f_firstCluster f) v else Some (True, v));
        if \<not> ok then Some (False, f, v)
        else case cacheDirEntry D f CACHE_FOR_WRITE v of
            (None, v) \<Rightarrow> Some (False, f, v)
          | (Some i, v) \<Rightarrow> do {
              let checksum = lfnChecksum (dir_at i v);
              let v = upd_dir i (\<lambda>e. e[0 := FAT_NAME_DELETED]) v;
              let f = set_closed f;
              let (ok, v) = cacheSync D v;
              if \<not> ok then Some (False, f, v)
              else if \<not> isLFN f then Some (True, f, v)
              else let (ok, dir) = openCluster file_zero f v
                   in if \<not> ok then Some (False, f, v)
                      else do {
                        (ok, v) \<leftarrow> remove_entries D (f_dirIndex f) checksum (unat (f_lfnOrd f)) 1 dir v;
                        Some (ok, f, v) } } })"

definition remove_path ::
    "'d blockdev \<Rightarrow> 'd fsclock \<Rightarrow> byte list \<Rightarrow> fatfile \<Rightarrow> 'd fatvol \<Rightarrow> (bool \<times> fatfile \<times> 'd fatvol) option" where
  "remove_path D K path d v = do {
     (ok, f, d, v) \<leftarrow> open_path_in D K path O_WRONLY file_zero d v;
     if \<not> ok then Some (False, d, v)
     else do {
       (ok, f, v) \<leftarrow> FatFile_remove D f v;
       Some (ok, d, v) } }"

text \<open>The check of \<open>rmdir\<close> that a directory is empty.\<close>

partial_function (option) dir_empty ::
    "'d blockdev \<Rightarrow> fatfile \<Rightarrow> 'd fatvol \<Rightarrow> (bool \<times> fatfile \<times> 'd fatvol) option" where
  "dir_empty D f v =
     Option.bind (readDirCache D True f v) (\<lambda>(r, f, v).
       case r of
         None \<Rightarrow> Some (f_error f = 0, f, v)
       | Some i \<Rightarrow>
           let e = dir_at i v in
           if e ! 0 = FAT_NAME_FREE then Some (True, f, v)
           else if e ! 0 = FAT_NAME_DELETED \<or> e ! 0 = 0x2E then dir_empty D f v
           else if isFatFileOrSubdir e then Some (False, f, v)
           else dir_empty D f v)"

definition rmdir :: "'d blockdev \<Rightarrow> fatfile \<Rightarrow> 'd fatvol \<Rightarrow> (bool \<times> fatfile \<times> 'd fatvol) option" where
  "rmdir D f v =
     (if \<not> isSubDir f then Some (False, f, v)
      else do {
        let (f, v) = file_rewind D f v;
        (ok, f, v) \<leftarrow> dir_empty D f v;
        if \<not> ok then Some (False, f, v)
        else FatFile_remove D (set_flag FILE_FLAG_WRITE (f\<lparr>f_attributes := FILE_ATTR_FILE\<rparr>)) v })"


section \<open>Making a directory\<close>

text \<open>The entries \<open>.\<close> and \<open>..\<close> made from the entry of the directory.\<close>

definition dot_entry :: "byte list \<Rightarrow> byte list" where
  "dot_entry e = put_at 0 (0x2E # replicate 10 0x20) e"

definition dotdot_entry :: "32 word \<Rightarrow> byte list \<Rightarrow> byte list" where
  "dotdot_entry parent dot =
     setLe16 20 (ucast (drop_bit 16 parent)) (setLe16 26 (ucast (parent AND 0xFFFF)) (dot[1 := 0x2E]))"

definition mkdir_name ::
    "'d blockdev \<Rightarrow> 'd fsclock \<Rightarrow> fatname \<Rightarrow> fatfile \<Rightarrow> fatfile \<Rightarrow> 'd fatvol
     \<Rightarrow> (bool \<times> fatfile \<times> fatfile \<times> 'd fatvol) option" where
  "mkdir_name D K n f parent v =
     (if \<not> isDir parent then Some (False, f, parent, v)
      else do {
        (ok, f, parent, v) \<leftarrow> open_name D K n (O_CREAT OR O_EXCL OR O_RDWR) f parent v;
        if \<not> ok then Some (False, f, parent, v)
        else do {
          (ok, f, v) \<leftarrow> addDirCluster D (f\<lparr>f_flags := FILE_FLAG_READ, f_attributes := FILE_ATTR_SUBDIR\<rparr>) v;
          if \<not> ok then Some (False, f, parent, v)
          else do {
            let (f, v) = file_rewind D (f\<lparr>f_firstCluster := f_curCluster f\<rparr>) v;
            let (ok, f, v) = FatFile_sync D K f v;
            if \<not> ok then Some (False, f, parent, v)
            else case cacheDirEntry D f CACHE_FOR_WRITE v of
                (None, v) \<Rightarrow> Some (False, f, parent, v)
              | (Some i, v) \<Rightarrow>
                  let v = upd_dir i (\<lambda>e. e[11 := FS_ATTRIB_DIRECTORY]) v;
                      dot = dot_entry (dir_at i v);
                      (ok, v) = dataCachePrepare D (clusterStartSector v (f_firstCluster f)) CACHE_FOR_WRITE v
                  in if \<not> ok then Some (False, f, parent, v)
                     else let v = upd_dir 1 (\<lambda>_. dotdot_entry (f_firstCluster parent) dot) (upd_dir 0 (\<lambda>_. dot) v);
                              (ok, v) = cacheSync D v
                          in Some (ok, f, parent, v) } } })"

text \<open>The loop over the components, as in \<open>open_walk\<close>; \<open>pFlag\<close> makes the missing ones.\<close>

fun mkdir_walk ::
    "nat \<Rightarrow> 'd blockdev \<Rightarrow> 'd fsclock \<Rightarrow> byte list \<Rightarrow> bool \<Rightarrow> fatname \<Rightarrow> fatfile \<Rightarrow> bool \<Rightarrow> fatfile \<Rightarrow> fatfile \<Rightarrow> 'd fatvol
     \<Rightarrow> (bool \<times> fatfile \<times> fatfile \<times> 'd fatvol) option" where
  "mkdir_walk 0 D K path pFlag n f tmp d caller v = None"
| "mkdir_walk (Suc k) D K path pFlag n f tmp d caller v = do {
     (ok, n, path) \<leftarrow> parsePathName path n;
     if \<not> ok then Some (False, f, if tmp then caller else d, v)
     else if path = []
     then do {
       (ok, f, d, v) \<leftarrow> mkdir_name D K n f d v;
       Some (ok, f, if tmp then caller else d, v) }
     else do {
       (ok, f, d, v) \<leftarrow> open_name D K n O_RDONLY f d v;
       (ok, f, d, v) \<leftarrow>
         (if ok then Some (True, f, d, v)
          else if pFlag then mkdir_name D K n f d v else Some (False, f, d, v));
       let caller = (if tmp then caller else d);
       if \<not> ok then Some (False, f, caller, v)
       else let (_, g, v) = FatFile_close D K f v in mkdir_walk k D K path pFlag n g True f caller v } }"

definition mkdir_path ::
    "'d blockdev \<Rightarrow> 'd fsclock \<Rightarrow> byte list \<Rightarrow> bool \<Rightarrow> fatfile \<Rightarrow> fatfile \<Rightarrow> 'd fatvol
     \<Rightarrow> (bool \<times> fatfile \<times> fatfile \<times> 'd fatvol) option" where
  "mkdir_path D K path pFlag f d v =
     (if isOpen f \<or> \<not> isDir d then Some (False, f, d, v)
      else if path \<noteq> [] \<and> isDirSeparator (hd path)
      then let path = skip_separators path; (ok, tmp) = openRoot file_zero v
           in if \<not> ok then Some (False, f, d, v)
              else mkdir_walk (Suc (length path)) D K path pFlag name_zero f True tmp d v
      else mkdir_walk (Suc (length path)) D K path pFlag name_zero f False d d v)"

section \<open>Renaming\<close>

text \<open>The \<open>..\<close> entry of a moved directory: it is taken from the directory made for the new name.\<close>

definition move_dotdot :: "'d blockdev \<Rightarrow> 32 word \<Rightarrow> fatfile \<Rightarrow> 'd fatvol \<Rightarrow> (bool \<times> 'd fatvol) option" where
  "move_dotdot D dirCluster f v =
     (case dataCachePrepare D (clusterStartSector v dirCluster) CACHE_FOR_READ v of (ok, v) \<Rightarrow>
      if \<not> ok then Some (False, v)
      else do {
        let entry = dir_at 1 v;
        (ok, v) \<leftarrow> freeChain D dirCluster v;
        if \<not> ok then Some (False, v)
        else let (ok, v) = dataCachePrepare D (clusterStartSector v (f_firstCluster f)) CACHE_FOR_WRITE v
             in Some (if ok then (True, upd_dir 1 (\<lambda>_. entry) v) else (False, v)) })"

definition rename ::
    "'d blockdev \<Rightarrow> 'd fsclock \<Rightarrow> byte list \<Rightarrow> fatfile \<Rightarrow> fatfile \<Rightarrow> 'd fatvol
     \<Rightarrow> (bool \<times> fatfile \<times> fatfile \<times> 'd fatvol) option" where
  "rename D K newPath f d v =
     (if \<not> (isFile f \<or> isSubDir f) then Some (False, f, d, v)
      else case FatFile_sync D K f v of (_, f, v) \<Rightarrow>
        let oldFile = f in
        case cacheDirEntry D f CACHE_FOR_READ v of
          (None, v) \<Rightarrow> Some (False, f, d, v)
        | (Some i, v) \<Rightarrow> do {
            let entry = dir_at i v;
            (ok, file, d, v) \<leftarrow>
              (if isFile f then open_path_in D K newPath (O_CREAT OR O_EXCL OR O_WRONLY) file_zero d v
               else mkdir_path D K newPath False file_zero d v);
            if \<not> ok then Some (False, f, d, v)
            else do {
              let dirCluster = (if isFile f then 0 else f_firstCluster file);
              let f = f\<lparr>f_dirSector := f_dirSector file, f_dirIndex := f_dirIndex file,
                        f_lfnOrd := f_lfnOrd file, f_dirCluster := f_dirCluster file\<rparr>;
              (case cacheDirEntry D f CACHE_FOR_WRITE v of
                 (None, v) \<Rightarrow> Some (False, f, d, v)
               | (Some i, v) \<Rightarrow> do {
                   let v = upd_dir i (\<lambda>e. (put_at 13 (take 19 (drop 13 entry)) e)[11 := dir_attributes entry]) v;
                   (ok, v) \<leftarrow> (if dirCluster \<noteq> 0 then move_dotdot D dirCluster f v else Some (True, v));
                   if \<not> ok then Some (False, f, d, v)
                   else do {
                     (ok, _, v) \<leftarrow> FatFile_remove D
                       (oldFile\<lparr>f_firstCluster := 0, f_flags := FILE_FLAG_WRITE, f_attributes := FILE_ATTR_FILE\<rparr>) v;
                     if \<not> ok then Some (False, f, d, v)
                     else let (ok, v) = cacheSync D v in Some (ok, f, d, v) } }) } })"

section \<open>Removing a tree\<close>

text \<open>The loop of \<open>rmRfStar\<close> with the removal of the directory at its end; a subdirectory is a nested call.\<close>

partial_function (option) rm_loop ::
    "'d blockdev \<Rightarrow> 'd fsclock \<Rightarrow> fatfile \<Rightarrow> 'd fatvol \<Rightarrow> (bool \<times> fatfile \<times> 'd fatvol) option" where
  "rm_loop D K f v =
     (let index = ucast (f_curPosition f div 32) :: 16 word in
      Option.bind (readDirCache D False f v) (\<lambda>(r, f, v).
        if r = None \<and> f_error f \<noteq> 0 then Some (False, f, v)
        else if r = None \<or> dir_at (the r) v ! 0 = FAT_NAME_FREE
        then if isRoot f then Some (True, f, v) else rmdir D f v
        else let e = dir_at (the r) v in
          if e ! 0 = FAT_NAME_DELETED \<or> e ! 0 = 0x2E \<or> \<not> isFatFileOrSubdir e then rm_loop D K f v
          else Option.bind (open_index D K index O_RDONLY file_zero f v) (\<lambda>(ok, g, f, v).
            if \<not> ok then Some (False, f, v)
            else Option.bind
              (if isSubDir g
               then if isDir g then case file_rewind D g v of (g, v) \<Rightarrow> rm_loop D K g v else Some (False, g, v)
               else FatFile_remove D (set_flag FILE_FLAG_WRITE g) v)
              (\<lambda>(ok, _, v).
                if \<not> ok then Some (False, f, v)
                else if f_curPosition f \<noteq> 32 * (ucast index + 1)
                then case seekSet D (32 * (ucast index + 1)) f v of (ok, f, v) \<Rightarrow>
                     if ok then rm_loop D K f v else Some (False, f, v)
                else rm_loop D K f v))))"

definition rmRfStar ::
    "'d blockdev \<Rightarrow> 'd fsclock \<Rightarrow> fatfile \<Rightarrow> 'd fatvol \<Rightarrow> (bool \<times> fatfile \<times> 'd fatvol) option" where
  "rmRfStar D K f v =
     (if \<not> isDir f then Some (False, f, v)
      else let (f, v) = file_rewind D f v in rm_loop D K f v)"

definition createContiguous ::
    "'d blockdev \<Rightarrow> 'd fsclock \<Rightarrow> byte list \<Rightarrow> 32 word \<Rightarrow> fatfile \<Rightarrow> fatfile \<Rightarrow> 'd fatvol
     \<Rightarrow> (bool \<times> fatfile \<times> fatfile \<times> 'd fatvol) option" where
  "createContiguous D K path len f d v = do {
     (ok, f, d, v) \<leftarrow> open_path_in D K path (O_CREAT OR O_EXCL OR O_RDWR) f d v;
     if \<not> ok then Some (False, f, d, v)
     else do {
       (ok, f, v) \<leftarrow> preAllocate D K len f v;
       if ok then Some (True, f, d, v)
       else let (_, f, v) = FatFile_close D K f v in Some (False, f, d, v) } }"

section \<open>The volume and its working directory\<close>

text \<open>A volume with \<open>m_vwd\<close>.\<close>

record 'd fatsys =
  s_vol :: "'d fatvol"
  s_vwd :: fatfile

definition vol_chdir_root :: "'d blockdev \<Rightarrow> 'd fsclock \<Rightarrow> 'd fatsys \<Rightarrow> bool \<times> 'd fatsys" where
  "vol_chdir_root D K s =
     (let (_, w, v) = FatFile_close D K (s_vwd s) (s_vol s); (ok, w) = openRoot w v
      in (ok, s\<lparr>s_vol := v, s_vwd := w\<rparr>))"

definition vol_begin :: "'d blockdev \<Rightarrow> 'd fsclock \<Rightarrow> nat \<Rightarrow> 32 word \<Rightarrow> 'd fatsys \<Rightarrow> bool \<times> 'd fatsys" where
  "vol_begin D K part volStart s =
     (let (ok, v) = FatPartition_init D True part volStart (s_vol s); s = s\<lparr>s_vol := v\<rparr>
      in if ok then vol_chdir_root D K s else (False, s))"

definition vol_open ::
    "'d blockdev \<Rightarrow> 'd fsclock \<Rightarrow> byte list \<Rightarrow> byte \<Rightarrow> 'd fatsys \<Rightarrow> (bool \<times> fatfile \<times> 'd fatsys) option" where
  "vol_open D K path oflag s = do {
     (ok, f, w, v) \<leftarrow> open_path_in D K path oflag file_zero (s_vwd s) (s_vol s);
     Some (ok, f, s\<lparr>s_vol := v, s_vwd := w\<rparr>) }"

definition vol_chdir :: "'d blockdev \<Rightarrow> 'd fsclock \<Rightarrow> byte list \<Rightarrow> 'd fatsys \<Rightarrow> (bool \<times> 'd fatsys) option" where
  "vol_chdir D K path s = do {
     (ok, f, s) \<leftarrow> vol_open D K path O_RDONLY s;
     Some (if ok \<and> isDir f then (True, s\<lparr>s_vwd := f\<rparr>) else (False, s)) }"

definition vol_remove :: "'d blockdev \<Rightarrow> 'd fsclock \<Rightarrow> byte list \<Rightarrow> 'd fatsys \<Rightarrow> (bool \<times> 'd fatsys) option" where
  "vol_remove D K path s = do {
     (ok, f, s) \<leftarrow> vol_open D K path O_WRONLY s;
     if \<not> ok then Some (False, s)
     else do {
       (ok, _, v) \<leftarrow> FatFile_remove D f (s_vol s);
       Some (ok, s\<lparr>s_vol := v\<rparr>) } }"

definition vol_rmdir :: "'d blockdev \<Rightarrow> 'd fsclock \<Rightarrow> byte list \<Rightarrow> 'd fatsys \<Rightarrow> (bool \<times> 'd fatsys) option" where
  "vol_rmdir D K path s = do {
     (ok, f, s) \<leftarrow> vol_open D K path O_RDONLY s;
     if \<not> ok then Some (False, s)
     else do {
       (ok, _, v) \<leftarrow> rmdir D f (s_vol s);
       Some (ok, s\<lparr>s_vol := v\<rparr>) } }"

definition vol_mkdir :: "'d blockdev \<Rightarrow> 'd fsclock \<Rightarrow> byte list \<Rightarrow> bool \<Rightarrow> 'd fatsys \<Rightarrow> (bool \<times> 'd fatsys) option" where
  "vol_mkdir D K path pFlag s = do {
     (ok, _, w, v) \<leftarrow> mkdir_path D K path pFlag file_zero (s_vwd s) (s_vol s);
     Some (ok, s\<lparr>s_vol := v, s_vwd := w\<rparr>) }"

definition vol_rename ::
    "'d blockdev \<Rightarrow> 'd fsclock \<Rightarrow> byte list \<Rightarrow> byte list \<Rightarrow> 'd fatsys \<Rightarrow> (bool \<times> 'd fatsys) option" where
  "vol_rename D K oldPath newPath s = do {
     (ok, f, s) \<leftarrow> vol_open D K oldPath O_RDONLY s;
     if \<not> ok then Some (False, s)
     else do {
       (ok, _, w, v) \<leftarrow> rename D K newPath f (s_vwd s) (s_vol s);
       Some (ok, s\<lparr>s_vol := v, s_vwd := w\<rparr>) } }"

definition vol_truncate ::
    "'d blockdev \<Rightarrow> 'd fsclock \<Rightarrow> byte list \<Rightarrow> 32 word \<Rightarrow> 'd fatsys \<Rightarrow> (bool \<times> 'd fatsys) option" where
  "vol_truncate D K path len s = do {
     (ok, f, s) \<leftarrow> vol_open D K path O_WRONLY s;
     if \<not> ok then Some (False, s)
     else do {
       (ok, _, v) \<leftarrow> truncate_to D K len f (s_vol s);
       Some (ok, s\<lparr>s_vol := v\<rparr>) } }"

end
