(* ===== verification/FileReads.thy ===== *)
theory FileReads
  imports FatDir
begin

text \<open>
  Bounds of \<open>FatFile::read\<close> that need only a device that answers with whole sectors: a turn copies no more
  than is left to copy, and the result of the call is the number of bytes copied.
\<close>

section \<open>Reading\<close>

lemma dev_okD:
  "dev_ok D \<Longrightarrow> dev_read D d s = (ok, b, d') \<Longrightarrow> length b = 512"
  "dev_ok D \<Longrightarrow> dev_reads D d s n = (ok, b, d') \<Longrightarrow> length b = 512 * n"
  unfolding dev_ok_def by blast+

lemma cacheSafe_length:
  "dev_ok D \<Longrightarrow> cacheSafeRead D s c = (True, b, c') \<Longrightarrow> length b \<le> 512"
  "dev_ok D \<Longrightarrow> cacheSafeReads D s n c = (True, b, c') \<Longrightarrow> length b = 512 * n"
  by (auto simp: cacheSafeRead_def cacheSafeReads_def dest: dev_okD split: if_split_asm prod.splits)

text \<open>The number of sectors that one turn transfers.\<close>

definition piece_sectors :: "byte \<Rightarrow> nat \<Rightarrow> fatfile \<Rightarrow> 'd fatvol \<Rightarrow> nat" where
  "piece_sectors soc n f v =
     (let ns = word_of_nat (n div 512) :: 32 word; mb = ucast (v_sectorsPerCluster v) - ucast soc
      in unat (if \<not> isRootFixed f \<and> mb < ns then mb else ns))"

lemma piece_sectors_le: "512 * piece_sectors soc n f v \<le> n"
proof -
  have "unat (word_of_nat (n div 512) :: 32 word) \<le> n div 512" by (simp add: unat_of_nat)
  then have "piece_sectors soc n f v \<le> n div 512" by (auto simp: piece_sectors_def Let_def word_less_nat_alt)
  then show ?thesis using mult_div_mod_eq [of 512 n] by (metis le_add1 le_trans mult_le_mono2)
qed

lemma read_piece_eq:
  "read_piece D sector soc n f v =
     (let offset = unat (f_curPosition f AND 0x1FF) in
      if offset \<noteq> 0 \<or> n < 512 \<or> sector = c_sector (v_cache v)
      then let (ok, v) = dataCachePrepare D sector 0 v
           in if ok then (Some (take (min (512 - offset) n) (drop offset (cached v))), v) else (None, v)
      else let (ok, b, c) = (if n \<ge> 1024 then cacheSafeReads D sector (piece_sectors soc n f v) (v_cache v)
                             else cacheSafeRead D sector (v_cache v))
           in (if ok then Some b else None, v\<lparr>v_cache := c\<rparr>))"
  by (simp add: read_piece_def piece_sectors_def Let_def)

lemma read_piece_length:
  assumes "dev_ok D" "read_piece D sector soc n f v = (Some b, v')"
  shows "length b \<le> n"
  using assms(2) piece_sectors_le [of soc n f v] unfolding read_piece_eq
  by (auto simp: Let_def dest!: cacheSafe_length [OF assms(1)] split: if_split_asm prod.splits)

lemma read_loop_count:
  assumes "dev_ok D" "read_loop D n acc f v = Some r"
  shows "length (fst (snd (snd r))) + fst (snd r) = length acc + n"
proof -
  have "dev_ok D \<longrightarrow> length (fst (snd (snd r))) + fst (snd r) = length acc + n"
    using _ assms(2)
  proof (rule read_loop.raw_induct [where P = "\<lambda>D n acc f v r.
      dev_ok D \<longrightarrow> length (fst (snd (snd r))) + fst (snd r) = length acc + n"])
    fix rec D n acc f and v :: "'a fatvol" and r
    assume IH: "\<And>D n acc f v r. rec D n acc f v = Some r \<Longrightarrow>
        dev_ok D \<longrightarrow> length (fst (snd (snd r))) + fst (snd r) = length acc + n"
      and e: "(if n = 0 then Some (True, n, acc, f, v)
        else case read_locate D f v of
          (LocError, f, v) \<Rightarrow> Some (False, n, acc, f, v)
        | (LocEnd, f, v) \<Rightarrow> Some (True, n, acc, f, v)
        | (LocSector sector soc, f, v) \<Rightarrow>
            (case read_piece D sector soc n f v of
               (None, v) \<Rightarrow> Some (False, n, acc, f, v)
             | (Some b, v) \<Rightarrow>
                 rec D (n - length b) (acc @ b)
                   (f\<lparr>f_curPosition := f_curPosition f + word_of_nat (length b)\<rparr>) v)) = Some r"
    show "dev_ok D \<longrightarrow> length (fst (snd (snd r))) + fst (snd r) = length acc + n"
    proof
      assume D: "dev_ok D"
      show "length (fst (snd (snd r))) + fst (snd r) = length acc + n"
        using e by (auto split: if_split_asm prod.splits location.splits option.splits
          dest!: IH [THEN mp, OF _ D] read_piece_length [OF D])
    qed
  qed
  then show ?thesis using assms(1) by simp
qed

lemma read_bound_le: "unat (read_bound n f v) \<le> unat n"
proof -
  have "unat (ucast w :: 16 word) \<le> unat n" if "w \<le> ucast n" for w :: "32 word"
  proof -
    have "unat w \<le> unat n" using that by (simp add: word_le_nat_alt unat_ucast_up)
    moreover from this have "unat w < 2 ^ 16" using unat_bound [of n] by simp
    ultimately show ?thesis by (simp add: unat_ucast_down)
  qed
  then show ?thesis by (auto simp: read_bound_def Let_def word_less_nat_alt)
qed

lemma sint16_nonneg: "0 \<le> sint (w :: 16 word) \<Longrightarrow> sint w = uint w"
proof -
  assume a: "0 \<le> sint w"
  have u: "0 \<le> uint w" "uint w < 2 ^ 16" using uint_lt2p [of w] by simp_all
  have "sint w = take_bit 16 (uint w) - 2 ^ 16 * of_bool (bit (uint w) 15)"
    by (simp add: sint_uint signed_take_bit_eq_take_bit_minus)
  then show ?thesis using a u by (cases "bit (uint w) 15") (simp_all add: take_bit_eq_mod)
qed

lemma FatFile_read_count:
  assumes "dev_ok D" "FatFile_read D n f v = Some (r, bs, f', v')"
  shows "length bs \<le> unat n" "0 \<le> r \<Longrightarrow> r = int (length bs)"
proof -
  note b = read_bound_le [of n f v]
  have "length bs \<le> unat n \<and> (0 \<le> r \<longrightarrow> r = int (length bs))"
  proof (cases "isReadable f")
    case True
    then obtain ok left f1 where l: "read_loop D (unat (read_bound n f v)) [] f v = Some (ok, left, bs, f1, v')"
      and r: "r = (if ok then sint (read_bound n f v - word_of_nat left) else - 1)"
      using assms(2) by (auto simp: FatFile_read_def bind_eq_Some_conv Let_def split: if_split_asm)
    have c: "length bs + left = unat (read_bound n f v)" using read_loop_count [OF assms(1) l] by simp
    have "read_bound n f v = word_of_nat (length bs) + word_of_nat left"
      using arg_cong [OF c, of "word_of_nat :: nat \<Rightarrow> 16 word"] by simp
    then have "read_bound n f v - word_of_nat left = word_of_nat (length bs)" by simp
    moreover have "sint (word_of_nat (length bs) :: 16 word) = int (length bs)" if "0 \<le> sint (word_of_nat (length bs) :: 16 word)"
    proof -
      have "length bs < 2 ^ 16" using c b unat_bound [of n] by simp
      then have "uint (word_of_nat (length bs) :: 16 word) = int (length bs)" by (simp add: uint_nat unat_of_nat)
      then show ?thesis using that sint16_nonneg by metis
    qed
    ultimately show ?thesis using b c r by auto
  next
    case False
    then show ?thesis using assms(2) by (simp add: FatFile_read_def)
  qed
  then show "length bs \<le> unat n" "0 \<le> r \<Longrightarrow> r = int (length bs)" by auto
qed

end
