(* ===== verification/FileContents.thy ===== *)
theory FileContents
  imports FileReads
begin

text \<open>
  What a file holds, as the bytes of the sectors along its chain, and the transfers that read them without changing what can be read.
\<close>

section \<open>Lists of blocks\<close>

lemma drop_blocks: "\<forall>x \<in> set xs. length x = k \<Longrightarrow> drop (k * j) (concat xs) = concat (drop j xs)"
proof (induction xs arbitrary: j)
  case (Cons x xs)
  then show ?case by (cases j) auto
qed simp

lemma take_blocks: "\<forall>x \<in> set xs. length x = k \<Longrightarrow> take (k * j) (concat xs) = concat (take j xs)"
proof (induction xs arbitrary: j)
  case (Cons x xs)
  then show ?case by (cases j) auto
qed simp

lemma length_blocks: "\<forall>x \<in> set xs. length x = k \<Longrightarrow> length (concat xs) = k * length xs"
  by (induction xs) auto

lemma slice_in_block:
  assumes "\<forall>x \<in> set xs. length x = k" "j < length xs" "off + n \<le> k"
  shows "take n (drop (k * j + off) (concat xs)) = take n (drop off (xs ! j))"
proof -
  have "drop (k * j + off) (concat xs) = drop off (concat (drop j xs))"
    using drop_blocks [OF assms(1), of j] by (metis add.commute drop_drop)
  also have "drop j xs = xs ! j # drop (Suc j) xs" using assms(2) by (rule Cons_nth_drop_Suc [symmetric])
  finally have "drop (k * j + off) (concat xs) = drop off (xs ! j @ concat (drop (Suc j) xs))" by simp
  moreover have "length (xs ! j) = k" using assms(1,2) by simp
  ultimately show ?thesis using assms(3) by simp
qed

lemma slice_of_blocks:
  assumes "\<forall>x \<in> set xs. length x = k" "j + n \<le> length xs"
  shows "take (k * n) (drop (k * j) (concat xs)) = concat (map (\<lambda>i. xs ! (j + i)) [0..<n])"
proof -
  have "take (k * n) (concat (drop j xs)) = concat (take n (drop j xs))"
    by (rule take_blocks) (use assms(1) in \<open>auto dest: in_set_dropD\<close>)
  moreover have "take n (drop j xs) = map (\<lambda>i. xs ! (j + i)) [0..<n]"
    using assms(2) by (intro nth_equalityI) auto
  ultimately show ?thesis using drop_blocks [OF assms(1), of j] by simp
qed

section \<open>Sectors of clusters\<close>

definition spc :: "'d fatvol \<Rightarrow> nat" where
  "spc v = 2 ^ v_sectorsPerClusterShift v"

text \<open>The clusters lie behind the two FATs and below the last sector number.\<close>

definition data_ok :: "'d fatvol \<Rightarrow> bool" where
  "data_ok v \<longleftrightarrow> v_sectorsPerClusterShift v \<le> 7 \<and> v_sectorsPerCluster v = word_of_nat (spc v) \<and>
     v_clusterSectorMask v = v_sectorsPerCluster v - 1 \<and>
     unat (v_fatStartSector v) + 2 * unat (v_sectorsPerFat v) \<le> unat (v_dataStartSector v) \<and>
     unat (v_dataStartSector v) + (unat (v_lastCluster v) - 1) * spc v \<le> 2 ^ 32 - 1"

lemma spc_pos [simp]: "0 < spc v" "Suc 0 \<le> spc v"
  by (simp_all add: spc_def Suc_le_eq)

lemma spc_bound: "data_ok v \<Longrightarrow> spc v \<le> 128"
  using power_increasing [of "v_sectorsPerClusterShift v" 7 "2 :: nat"] by (simp add: data_ok_def spc_def)

text \<open>Sector \<open>j\<close> along a list of clusters.\<close>

definition chain_sector :: "'d fatvol \<Rightarrow> 32 word list \<Rightarrow> nat \<Rightarrow> 32 word" where
  "chain_sector v cs j = clusterStartSector v (cs ! (j div spc v)) + word_of_nat (j mod spc v)"

lemma unat_cluster_sector:
  assumes "data_ok v" "valid_cluster v c" "i < spc v"
  shows "unat (clusterStartSector v c + word_of_nat i) = unat (v_dataStartSector v) + (unat c - 2) * spc v + i"
proof -
  have c: "2 \<le> unat c" "unat c \<le> unat (v_lastCluster v)"
    using assms(2) by (simp_all add: valid_cluster_def word_le_nat_alt)
  have "(unat c - 2) * spc v + spc v = Suc (unat c - 2) * spc v" by simp
  also have "\<dots> \<le> (unat (v_lastCluster v) - 1) * spc v" using c by (intro mult_le_mono1) simp
  finally have le: "unat (v_dataStartSector v) + (unat c - 2) * spc v + i < 2 ^ 32 - 1"
    using assms(1,3) unfolding data_ok_def by linarith
  have "unat (c - 2) = unat c - 2" using c(1) unat_sub [of 2 c] by (simp add: word_le_nat_alt)
  then have p: "unat (push_bit (v_sectorsPerClusterShift v) (c - 2)) = (unat c - 2) * spc v"
    using le by (subst unsigned_push_bit_eq) (simp add: take_bit_eq_mod push_bit_eq_mult spc_def)
  have i: "unat (word_of_nat i :: 32 word) = i" using assms(3) spc_bound [OF assms(1)] by (simp add: unat_of_nat)
  show ?thesis using le p i by (simp add: clusterStartSector_def unat_word_ariths)
qed

lemma cluster_sector_data:
  assumes "data_ok v" "geo_ok v" "valid_cluster v c" "i < spc v"
  defines "s \<equiv> clusterStartSector v c + word_of_nat i"
  shows "s \<notin> fat1 v" "s \<notin> fat2 v" "s \<noteq> 0xFFFFFFFF"
proof -
  have u: "unat s = unat (v_dataStartSector v) + (unat c - 2) * spc v + i"
    unfolding s_def by (rule unat_cluster_sector [OF assms(1,3,4)])
  moreover have "unat (v_fatStartSector v) + 2 * unat (v_sectorsPerFat v) \<le> unat (v_dataStartSector v)"
    using assms(1) by (simp add: data_ok_def)
  ultimately show "s \<notin> fat1 v" "s \<notin> fat2 v" by (simp_all add: fat1_iff [OF assms(2)] fat2_iff [OF assms(2)])
  have "unat c \<le> unat (v_lastCluster v)" "2 \<le> unat c" using assms(3) by (simp_all add: valid_cluster_def word_le_nat_alt)
  then have "Suc (unat c - 2) * spc v \<le> (unat (v_lastCluster v) - 1) * spc v" by (intro mult_le_mono1) simp
  then have "unat s < 2 ^ 32 - 1" using u assms(1,4) unfolding data_ok_def mult_Suc by linarith
  then show "s \<noteq> 0xFFFFFFFF" by auto
qed

text \<open>The bytes of a chain.\<close>

definition chain_bytes :: "('d \<Rightarrow> 32 word \<Rightarrow> byte list) \<Rightarrow> 'd fatvol \<Rightarrow> 32 word list \<Rightarrow> byte list" where
  "chain_bytes M v cs = concat (map (\<lambda>j. store M v (chain_sector v cs j)) [0..<length cs * spc v])"

definition file_bytes :: "('d \<Rightarrow> 32 word \<Rightarrow> byte list) \<Rightarrow> 'd fatvol \<Rightarrow> fatfile \<Rightarrow> 32 word list \<Rightarrow> byte list" where
  "file_bytes M v f cs = take (unat (f_fileSize f)) (chain_bytes M v cs)"

lemma store_length: "dev_works D M \<Longrightarrow> coherent M (v_cache v) \<Longrightarrow> length (store M v s) = 512"
  by (simp add: view_def coherent_def dev_works_def)

lemma chain_sector_index:
  assumes "j < length cs * spc v"
  shows "j div spc v < length cs" "j mod spc v < spc v"
  using assms by (simp_all add: less_mult_imp_div_less)

lemma length_chain_bytes:
  "dev_works D M \<Longrightarrow> coherent M (v_cache v) \<Longrightarrow> length (chain_bytes M v cs) = 512 * (length cs * spc v)"
  unfolding chain_bytes_def by (subst length_blocks [of _ 512]) (auto simp: store_length)

lemma same_store_data:
  assumes "same_store M v v'"
  shows "spc v' = spc v" "data_ok v' = data_ok v" "chain_sector v' = chain_sector v"
    "clusterStartSector v' = clusterStartSector v" "valid_cluster v' = valid_cluster v" "isEOC v' = isEOC v"
    "sectorOfCluster v' = sectorOfCluster v" "v_sectorsPerCluster v' = v_sectorsPerCluster v"
  using assms by (auto simp: same_store_def spc_def data_ok_def chain_sector_def clusterStartSector_def
    valid_cluster_def isEOC_def sectorOfCluster_def fun_eq_iff)

lemma same_store_chain:
  assumes "same_store M v v'" "geo_ok v" "\<forall>c \<in> set cs. valid_cluster v c"
  shows "chain M v' cs = chain M v cs"
  unfolding chain_def using same_store_data [OF assms(1)] assms
  by (metis linked_cong same_store_ent)

lemma same_store_bytes:
  assumes "same_store M v v'" "geo_ok v" "data_ok v" "\<forall>c \<in> set cs. valid_cluster v c"
  shows "chain_bytes M v' cs = chain_bytes M v cs"
proof -
  have "store M v' (chain_sector v cs j) = store M v (chain_sector v cs j)" if "j < length cs * spc v" for j
  proof -
    have "valid_cluster v (cs ! (j div spc v))" using chain_sector_index(1) [OF that] assms(4) by simp
    then have "chain_sector v cs j \<notin> fat2 v"
      unfolding chain_sector_def by (rule cluster_sector_data(2) [OF assms(3,2)]) simp
    then show ?thesis using assms(1) by (simp add: same_store_def)
  qed
  then show ?thesis unfolding chain_bytes_def same_store_data [OF assms(1)] by (metis (no_types, lifting) map_cong atLeastLessThan_iff set_upt)
qed

section \<open>Transfers that leave the store as it is\<close>

lemma sync_keeps:
  assumes "dev_works D M" "vol_ok M v"
  shows "\<exists>c. FsCache_sync D (v_cache v) = (True, c) \<and> vol_ok M (v\<lparr>v_cache := c\<rparr>) \<and>
    same_store M v (v\<lparr>v_cache := c\<rparr>) \<and> \<not> cache_isDirty c"
proof -
  have coh: "coherent M (v_cache v)" using assms(2) by (simp add: vol_ok_def)
  obtain c where c: "FsCache_sync D (v_cache v) = (True, c)" "coherent M c" "\<not> cache_isDirty c"
    "c_sector c = c_sector (v_cache v)" "c_mirror c = c_mirror (v_cache v)"
    "bit (c_status c) 1 = bit (c_status (v_cache v)) 1" "view M c = flushed M (v_cache v)"
    using sync_spec [OF assms(1) coh] by blast
  have "view M c (s + v_sectorsPerFat v) = view M c s" if "s \<in> fat1 v" for s
    using flushed_mirrored [OF assms(2) that] flushed_store [OF assms(2)] fat_disjoint(1) [OF _ that] assms(2)
    by (simp add: c(7) vol_ok_def)
  then have "vol_ok M (v\<lparr>v_cache := c\<rparr>)" using assms(2) c by (simp add: vol_ok_def)
  moreover have "same_store M v (v\<lparr>v_cache := c\<rparr>)" using flushed_store [OF assms(2)] c(7) by (auto simp: same_store_def)
  ultimately show ?thesis using c(1,3) by blast
qed

lemma device_keeps:
  assumes "vol_ok M v" "M d = M (c_dev (v_cache v))"
  shows "vol_ok M (v\<lparr>v_cache := (v_cache v)\<lparr>c_dev := d\<rparr>\<rparr>)" "same_store M v (v\<lparr>v_cache := (v_cache v)\<lparr>c_dev := d\<rparr>\<rparr>)"
proof -
  have v: "view M ((v_cache v)\<lparr>c_dev := d\<rparr>) = view M (v_cache v)" by (rule view_cong) (simp_all add: assms(2))
  then show "vol_ok M (v\<lparr>v_cache := (v_cache v)\<lparr>c_dev := d\<rparr>\<rparr>)"
    using assms by (simp add: vol_ok_def coherent_def cache_isDirty_def)
  show "same_store M v (v\<lparr>v_cache := (v_cache v)\<lparr>c_dev := d\<rparr>\<rparr>)" using v by (auto simp: same_store_def)
qed

section \<open>Direct transfers\<close>

lemma unat_plus_nat:
  assumes "unat (s :: 32 word) + i < 2 ^ 32"
  shows "unat (s + word_of_nat i) = unat s + i"
  using assms by (simp add: unat_word_ariths unat_of_nat)

lemma safe_reads:
  assumes "dev_works D M" "vol_ok M v" "unat s + n \<le> 2 ^ 32 - 1" "\<And>i. i < n \<Longrightarrow> s + word_of_nat i \<notin> fat2 v"
  shows "\<exists>c. cacheSafeReads D s n (v_cache v) =
      (True, concat (map (\<lambda>i. store M v (s + word_of_nat i)) [0..<n]), c) \<and>
    vol_ok M (v\<lparr>v_cache := c\<rparr>) \<and> same_store M v (v\<lparr>v_cache := c\<rparr>)"
proof -
  have u: "unat (s + word_of_nat i) = unat s + i" if "i \<le> n" for i
    using that assms(3) by (intro unat_plus_nat) simp
  obtain c1 where c1: "(if isCached_range (v_cache v) s n then FsCache_sync D (v_cache v) else (True, v_cache v)) = (True, c1)"
      "vol_ok M (v\<lparr>v_cache := c1\<rparr>)" "same_store M v (v\<lparr>v_cache := c1\<rparr>)"
      "\<And>i. i < n \<Longrightarrow> M (c_dev c1) (s + word_of_nat i) = store M v (s + word_of_nat i)"
  proof (cases "isCached_range (v_cache v) s n")
    case True
    obtain c where c: "FsCache_sync D (v_cache v) = (True, c)" "vol_ok M (v\<lparr>v_cache := c\<rparr>)"
      "same_store M v (v\<lparr>v_cache := c\<rparr>)" "\<not> cache_isDirty c" using sync_keeps [OF assms(1,2)] by blast
    then have "view M c = M (c_dev c)" by (intro coherent_clean) (simp_all add: vol_ok_def)
    then have "M (c_dev c) t = store M v t" if "t \<notin> fat2 v" for t
      using c(3) that by (simp add: same_store_def)
    then show ?thesis using that [of c] c True assms(4) by simp
  next
    case False
    have "store M v (s + word_of_nat i) = M (c_dev (v_cache v)) (s + word_of_nat i)" if "i < n" for i
    proof -
      have "c_sector (v_cache v) \<noteq> s + word_of_nat i"
        using False that u [of i] u [of n] by (auto simp: isCached_range_def word_le_nat_alt word_less_nat_alt)
      then show ?thesis by (simp add: view_def)
    qed
    then show ?thesis using that [of "v_cache v"] False assms(2) by simp
  qed
  obtain d where d: "dev_reads D (c_dev c1) s n = (True, concat (map (\<lambda>i. M (c_dev c1) (s + word_of_nat i)) [0..<n]), d)"
      "M d = M (c_dev c1)" using assms(1) unfolding dev_works_def by blast
  have "concat (map (\<lambda>i. M (c_dev c1) (s + word_of_nat i)) [0..<n]) =
      concat (map (\<lambda>i. store M v (s + word_of_nat i)) [0..<n])"
    using c1(4) by (intro arg_cong [of _ _ concat] map_cong) auto
  then have "cacheSafeReads D s n (v_cache v) =
      (True, concat (map (\<lambda>i. store M v (s + word_of_nat i)) [0..<n]), c1\<lparr>c_dev := d\<rparr>)"
    using c1(1) d(1) by (simp add: cacheSafeReads_def Let_def)
  moreover have "vol_ok M (v\<lparr>v_cache := c1\<lparr>c_dev := d\<rparr>\<rparr>)" "same_store M v (v\<lparr>v_cache := c1\<lparr>c_dev := d\<rparr>\<rparr>)"
    using device_keeps [of M "v\<lparr>v_cache := c1\<rparr>" d] c1(2,3) d(2) same_store_trans by fastforce+
  ultimately show ?thesis by blast
qed

lemma safe_read:
  assumes "dev_works D M" "vol_ok M v" "s \<noteq> c_sector (v_cache v)"
  shows "\<exists>c. cacheSafeRead D s (v_cache v) = (True, store M v s, c) \<and>
    vol_ok M (v\<lparr>v_cache := c\<rparr>) \<and> same_store M v (v\<lparr>v_cache := c\<rparr>)"
proof -
  obtain d where d: "dev_read D (c_dev (v_cache v)) s = (True, M (c_dev (v_cache v)) s, d)" "M d = M (c_dev (v_cache v))"
    using assms(1) unfolding dev_works_def by blast
  have "cacheSafeRead D s (v_cache v) = (True, store M v s, (v_cache v)\<lparr>c_dev := d\<rparr>)"
    using d(1) assms(3) by (simp add: cacheSafeRead_def isCached_def view_def)
  then show ?thesis using device_keeps [OF assms(2) d(2)] by blast
qed

section \<open>Slices of a chain\<close>

lemma chain_slice:
  assumes "dev_works D M" "coherent M (v_cache v)" "j < length cs * spc v" "off + n \<le> 512"
  shows "take n (drop (512 * j + off) (chain_bytes M v cs)) = take n (drop off (store M v (chain_sector v cs j)))"
  unfolding chain_bytes_def
  by (subst slice_in_block [of _ 512]) (use assms in \<open>auto simp: store_length\<close>)

lemma chain_sector_next:
  assumes "j mod spc v + i < spc v"
  shows "chain_sector v cs (j + i) = chain_sector v cs j + word_of_nat i"
proof -
  have h: "(s * q + a) div s = q \<and> (s * q + a) mod s = a" if "a < s" for s q a :: nat
    using that by simp
  have "spc v * (j div spc v) + (j mod spc v + i) = j + i" by simp
  then have "(j + i) div spc v = j div spc v" "(j + i) mod spc v = j mod spc v + i"
    using h [OF assms, of "j div spc v"] by (simp_all only:)
  then show ?thesis by (simp add: chain_sector_def add.assoc)
qed

lemma chain_slices:
  assumes "dev_works D M" "coherent M (v_cache v)" "j mod spc v + n \<le> spc v" "j + n \<le> length cs * spc v"
  shows "take (512 * n) (drop (512 * j) (chain_bytes M v cs)) =
    concat (map (\<lambda>i. store M v (chain_sector v cs j + word_of_nat i)) [0..<n])"
proof -
  have "concat (map (\<lambda>i. map (\<lambda>j. store M v (chain_sector v cs j)) [0..<length cs * spc v] ! (j + i)) [0..<n]) =
      concat (map (\<lambda>i. store M v (chain_sector v cs j + word_of_nat i)) [0..<n])"
    using assms(3,4) by (intro arg_cong [of _ _ concat] map_cong) (auto simp: chain_sector_next)
  then show ?thesis unfolding chain_bytes_def
    by (subst slice_of_blocks [of _ 512]) (use assms in \<open>auto simp: store_length\<close>)
qed

end
