(* ===== verification/FilePosition.thy ===== *)
theory FilePosition
  imports FileContents
begin

text \<open>
  The position of an open file (\<open>m_curPosition\<close> and \<open>m_curCluster\<close> of \<open>FatFile\<close>): the invariant that ties it to
  the chain of the file, the sector that \<open>read\<close> finds for it, and \<open>seekSet\<close>, which moves it.
\<close>

section \<open>Finding the sector of a position\<close>

lemma unat_low9: "unat (w AND 0x1FF :: 32 word) = unat w mod 512"
proof -
  have m: "(0x1FF :: 32 word) = mask 9" by (simp add: mask_eq_exp_minus_1)
  show ?thesis unfolding m take_bit_eq_mask [symmetric] by (simp add: take_bit_eq_mod unat_mod)
qed

lemma low9_zero: "w AND 0x1FF = (0 :: 32 word) \<longleftrightarrow> unat w mod 512 = 0"
  using unat_low9 [of w] by (metis unat_eq_zero)

lemma unat_sectorOfCluster:
  assumes "data_ok v"
  shows "unat (sectorOfCluster v pos) = unat pos div 512 mod spc v"
proof -
  let ?n = "v_sectorsPerClusterShift v"
  have n: "?n \<le> 7" and k: "v_clusterSectorMask v = word_of_nat (spc v) - 1" using assms by (simp_all add: data_ok_def)
  have s: "spc v \<le> 128" by (rule spc_bound [OF assms])
  have "unat (v_clusterSectorMask v) = spc v - 1"
    using s spc_pos [of v] unat_sub [of 1 "word_of_nat (spc v) :: byte"]
    by (simp add: k word_le_nat_alt unat_of_nat)
  moreover have "unat (mask ?n :: 32 word) = spc v - 1"
  proof -
    have "?n = 0 \<or> ?n = 1 \<or> ?n = 2 \<or> ?n = 3 \<or> ?n = 4 \<or> ?n = 5 \<or> ?n = 6 \<or> ?n = 7" using n by linarith
    then show ?thesis by (elim disjE) (simp_all add: spc_def mask_eq_exp_minus_1)
  qed
  ultimately have "unat (ucast (v_clusterSectorMask v) :: 32 word) = unat (mask ?n :: 32 word)"
    by (simp add: unat_ucast_up)
  then have m: "(ucast (v_clusterSectorMask v) :: 32 word) = mask ?n" by (simp only: word_unat_eq_iff)
  have t: "unat (take_bit ?n (drop_bit 9 pos)) = unat pos div 512 mod spc v"
  proof -
    have "unat (take_bit ?n (drop_bit 9 pos)) = take_bit ?n (drop_bit 9 (unat pos))"
      by (simp only: unsigned_take_bit_eq unat_drop_bit_eq)
    then show ?thesis by (simp add: take_bit_eq_mod drop_bit_eq_div spc_def)
  qed
  moreover have "unat pos div 512 mod spc v < 128" using mod_less_divisor [OF spc_pos(1)] s by (rule less_le_trans)
  ultimately show ?thesis
    unfolding sectorOfCluster_def m take_bit_eq_mask [symmetric] by (simp add: unat_ucast_down)
qed

lemma piece_sectors_min:
  assumes "data_ok v" "\<not> isRootFixed f" "n < 2 ^ 16"
  shows "piece_sectors (sectorOfCluster v pos) n f v = min (spc v - unat pos div 512 mod spc v) (n div 512)"
proof -
  let ?soc = "sectorOfCluster v pos"
  have soc: "unat ?soc = unat pos div 512 mod spc v" by (rule unat_sectorOfCluster [OF assms(1)])
  have lt: "unat pos div 512 mod spc v < spc v" by simp
  have s: "unat (v_sectorsPerCluster v) = spc v"
    using assms(1) spc_bound [OF assms(1)] by (simp add: data_ok_def unat_of_nat)
  have a: "unat (ucast (v_sectorsPerCluster v) :: 32 word) = spc v" by (simp add: unat_ucast_up s)
  have b: "unat (ucast ?soc :: 32 word) = unat pos div 512 mod spc v" by (simp add: unat_ucast_up soc)
  have mb: "unat (ucast (v_sectorsPerCluster v) - ucast ?soc :: 32 word) = spc v - unat pos div 512 mod spc v"
    using unat_sub [of "ucast ?soc :: 32 word" "ucast (v_sectorsPerCluster v)"] a b lt by (simp add: word_le_nat_alt)
  have ns: "unat (word_of_nat (n div 512) :: 32 word) = n div 512" using assms(3) by (simp add: unat_of_nat)
  show ?thesis using assms(2) by (simp add: piece_sectors_def Let_def word_less_nat_alt mb ns min_def)
qed

text \<open>Cluster and sector of a byte.\<close>

abbreviation bpc :: "'d fatvol \<Rightarrow> nat" where
  "bpc v \<equiv> 512 * spc v"

lemma byte_cluster: "p div 512 div spc v = p div bpc v"
  by (simp add: div_mult2_eq)

lemma cluster_start: "p mod 512 = 0 \<and> p div 512 mod spc v = 0 \<longleftrightarrow> p mod bpc v = 0"
  by (auto simp: mod_mult2_eq)

lemma pred_div:
  assumes "0 < (p :: nat)" "0 < b"
  shows "(p - 1) div b = (if p mod b = 0 then p div b - 1 else p div b)"
  using assms by (metis Suc_pred div_Suc diff_Suc_1)

lemma linked_nth: "linked f eoc cs \<Longrightarrow> Suc i < length cs \<Longrightarrow> f (cs ! i) = cs ! Suc i \<and> \<not> eoc (cs ! Suc i)"
  by (induction f eoc cs arbitrary: i rule: linked.induct) (auto simp: nth_Cons split: nat.split)

text \<open>
  A file with its chain and a position on it. At position 0 the library keeps no current cluster, else it is the
  cluster of the byte before the position.
\<close>

definition file_at :: "('d \<Rightarrow> 32 word \<Rightarrow> byte list) \<Rightarrow> 'd fatvol \<Rightarrow> 32 word list \<Rightarrow> fatfile \<Rightarrow> bool" where
  "file_at M v cs f \<longleftrightarrow>
     isFile f \<and> \<not> isRootFixed f \<and> \<not> isRoot32 f \<and> \<not> isDir f \<and>
     (\<forall>c \<in> set cs. valid_cluster v c) \<and>
     (if cs = [] then f_firstCluster f = 0 else chain M v cs \<and> hd cs = f_firstCluster f) \<and>
     unat (f_fileSize f) \<le> bpc v * length cs \<and> unat (f_curPosition f) \<le> bpc v * length cs \<and>
     (isContiguous f \<longrightarrow> (\<forall>i < length cs. cs ! i = f_firstCluster f + word_of_nat i)) \<and>
     f_curCluster f = (if f_curPosition f = 0 then 0 else cs ! ((unat (f_curPosition f) - 1) div bpc v))"

text \<open>A file open for reading, at a position within its size.\<close>

definition file_open :: "('d \<Rightarrow> 32 word \<Rightarrow> byte list) \<Rightarrow> 'd fatvol \<Rightarrow> 32 word list \<Rightarrow> fatfile \<Rightarrow> bool" where
  "file_open M v cs f \<longleftrightarrow> isReadable f \<and> file_at M v cs f \<and> f_curPosition f \<le> f_fileSize f"

lemma file_at_keep:
  assumes "same_store M v v'" "vol_ok M v" "file_at M v cs f"
  shows "file_at M v' cs f"
proof -
  have "geo_ok v" "\<forall>c \<in> set cs. valid_cluster v c" using assms(2,3) by (simp_all add: vol_ok_def file_at_def)
  note same_store_chain [OF assms(1) this]
  then show ?thesis using assms(3) by (simp add: file_at_def same_store_data [OF assms(1)])
qed

lemma file_open_keep: "same_store M v v' \<Longrightarrow> vol_ok M v \<Longrightarrow> file_open M v cs f \<Longrightarrow> file_open M v' cs f"
  using file_at_keep unfolding file_open_def by blast

lemma read_locate_spec:
  assumes "dev_works D M" "vol_ok M v" "data_ok v" "file_open M v cs f" "f_curPosition f < f_fileSize f"
  shows "\<exists>v'. read_locate D f v = (LocSector (chain_sector v cs (unat (f_curPosition f) div 512)) (sectorOfCluster v (f_curPosition f)),
      f\<lparr>f_curCluster := cs ! (unat (f_curPosition f) div bpc v)\<rparr>, v') \<and> vol_ok M v' \<and> same_store M v v'"
proof -
  let ?p = "unat (f_curPosition f)" and ?soc = "sectorOfCluster v (f_curPosition f)"
  let ?k = "?p div bpc v"
  have F: "isFile f" "\<not> isRootFixed f" "\<not> isRoot32 f" "\<forall>c \<in> set cs. valid_cluster v c"
    "isContiguous f \<longrightarrow> (\<forall>i < length cs. cs ! i = f_firstCluster f + word_of_nat i)"
    "f_curPosition f \<noteq> 0 \<longrightarrow> f_curCluster f = cs ! ((?p - 1) div bpc v)"
    using assms(4) by (simp_all add: file_open_def file_at_def)
  have sz: "?p < bpc v * length cs" using assms(4,5) by (simp add: file_open_def file_at_def word_less_nat_alt)
  then have k: "?k < length cs" by (simp add: less_mult_imp_div_less mult.commute)
  then have "cs \<noteq> []" by auto
  then have C: "chain M v cs" "hd cs = f_firstCluster f" "cs ! 0 = hd cs"
    using assms(4) by (auto simp: file_open_def file_at_def hd_conv_nth)
  have soc: "unat ?soc = ?p div 512 mod spc v" by (rule unat_sectorOfCluster [OF assms(3)])
  have start: "f_curPosition f AND 0x1FF = 0 \<and> ?soc = 0 \<longleftrightarrow> ?p mod bpc v = 0"
    unfolding cluster_start [symmetric] low9_zero using soc by (metis unat_eq_zero)
  have sec: "clusterStartSector v (cs ! ?k) + ucast ?soc = chain_sector v cs (?p div 512)"
    using soc by (simp add: chain_sector_def byte_cluster flip: soc)
  have pd: "(?p - 1) div bpc v = (if ?p mod bpc v = 0 then ?k - 1 else ?k)" if "?p \<noteq> 0"
    using that by (intro pred_div) auto
  show ?thesis
  proof (cases "?p mod bpc v = 0 \<and> ?p \<noteq> 0 \<and> \<not> isContiguous f")
    case True
    have kpos: "0 < ?k" using True by (metis mod_mult_div_eq add_0 mult_0_right neq0_conv)
    have cur: "f_curCluster f = cs ! (?k - 1)" using F(6) pd True by auto
    have lk: "ent M v (cs ! (?k - 1)) = cs ! ?k" "\<not> isEOC v (cs ! ?k)"
      using linked_nth [of "ent M v" "isEOC v" cs "?k - 1"] C(1) kpos k by (simp_all add: chain_def)
    have "valid_cluster v (cs ! (?k - 1))" using F(4) k by simp
    then obtain v' where "fatGet D (f_curCluster f) v = (FatNext (cs ! ?k), v')" "vol_ok M v'" "same_store M v v'"
      using fatGet_spec [OF assms(1,2)] lk cur by (fastforce simp: fat_result_def)
    moreover have "clusterStartSector v' = clusterStartSector v" by (rule same_store_data(4)) fact
    moreover have "f_curPosition f \<noteq> 0" using True by auto
    moreover have "f_curPosition f AND 0x1FF = 0 \<and> ?soc = 0" using True by (simp only: start)
    ultimately show ?thesis using True F(1-3) sec by (simp add: read_locate_def Let_def)
  next
    case False
    let ?c = "if ?p mod bpc v = 0
        then if f_curPosition f = 0 then f_firstCluster f else f_curCluster f + 1 else f_curCluster f"
    have c: "?c = cs ! ?k"
    proof -
      consider (zero) "f_curPosition f = 0" | (cont) "f_curPosition f \<noteq> 0" "?p mod bpc v = 0" "isContiguous f"
        | (inside) "?p mod bpc v \<noteq> 0" using False by (auto simp: unat_eq_zero)
      then show ?thesis
      proof cases
        case zero
        then show ?thesis using C by simp
      next
        case cont
        then have p: "?p \<noteq> 0" by (simp add: unat_eq_zero)
        have kpos: "0 < ?k" using p cont(2) by (metis mod_mult_div_eq add_0 mult_0_right neq0_conv)
        have "f_curCluster f = cs ! (?k - 1)" using F(6) pd [OF p] cont by simp
        then have "f_curCluster f + 1 = f_firstCluster f + (word_of_nat (?k - 1) + 1)"
          using F(5) cont(3) k by (simp add: add.assoc)
        also have "word_of_nat (?k - 1) + 1 = (word_of_nat ?k :: 32 word)"
          using kpos by (metis of_nat_Suc Suc_pred' add.commute)
        also have "f_firstCluster f + word_of_nat ?k = cs ! ?k" using F(5) cont(3) k by simp
        finally show ?thesis using cont by simp
      next
        case inside
        then have p: "?p \<noteq> 0" by (metis mod_0)
        then show ?thesis using F(6) pd [OF p] inside by auto
      qed
    qed
    have "read_locate D f v =
        (LocSector (clusterStartSector v ?c + ucast ?soc) ?soc, f\<lparr>f_curCluster := ?c\<rparr>, v)"
      unfolding read_locate_def Let_def start using False F(1-3) by (auto simp: unat_eq_zero)
    moreover have "same_store M v v" by (simp add: same_store_def)
    ultimately show ?thesis using c sec assms(2) by auto
  qed
qed

lemma same_cluster:
  assumes "p mod b + l \<le> (b :: nat)" "0 < l"
  shows "(p + l - 1) div b = p div b"
proof -
  have h: "(b * q + r) div b = q" if "r < b" for q r using that by simp
  have "p mod b + (l - 1) < b" using assms by linarith
  then have "(b * (p div b) + (p mod b + (l - 1))) div b = p div b" by (rule h)
  moreover have "b * (p div b) + (p mod b + (l - 1)) = p + l - 1" using assms(2) by simp
  ultimately show ?thesis by (simp only:)
qed

text \<open>Moving on by bytes of the current cluster.\<close>

lemma file_at_advance:
  assumes "file_at M v cs f" "p = unat (f_curPosition f)" "0 < n" "p mod bpc v + n \<le> bpc v"
    and "p + n \<le> bpc v * length cs" "p + n < 2 ^ 32"
  defines "f' \<equiv> f\<lparr>f_curCluster := cs ! (p div bpc v), f_curPosition := f_curPosition f + word_of_nat n\<rparr>"
  shows "file_at M v cs f'" "unat (f_curPosition f') = p + n"
proof -
  show u: "unat (f_curPosition f') = p + n" using assms(2,6) by (simp add: f'_def unat_plus_nat)
  then have nz: "f_curPosition f' \<noteq> 0" using assms(3) by (metis add_is_0 less_numeral_extra(3) unat_0)
  have "(p + n - 1) div bpc v = p div bpc v" using same_cluster [OF assms(4,3)] .
  then have c: "f_curCluster f' = cs ! ((unat (f_curPosition f') - 1) div bpc v)" using u by (simp add: f'_def)
  show "file_at M v cs f'"
    using assms(1,5) u nz c unfolding file_at_def
    by (simp add: f'_def isFile_def isRootFixed_def isRoot32_def isDir_def isContiguous_def has_attr_def has_flag_def)
qed

section \<open>Seeking\<close>

lemma follow_chain:
  assumes "dev_works D M"
  shows "vol_ok M v \<Longrightarrow> chain M v cs \<Longrightarrow> i + n < length cs \<Longrightarrow>
    \<exists>v'. follow (fatGet D) n (cs ! i) v = (Some (cs ! (i + n)), v') \<and> vol_ok M v' \<and> same_store M v v'"
proof (induction n arbitrary: i v)
  case (Suc n)
  have c: "valid_cluster v (cs ! i)" "linked (ent M v) (isEOC v) cs" "\<forall>c \<in> set cs. valid_cluster v c"
    using Suc.prems(2,3) by (simp_all add: chain_def)
  obtain w where w: "fatGet D (cs ! i) v = (fat_result v (ent M v (cs ! i)), w)" "vol_ok M w" "same_store M v w"
    using fatGet_spec [OF assms Suc.prems(1) c(1)] by blast
  have "ent M v (cs ! i) = cs ! Suc i \<and> \<not> isEOC v (cs ! Suc i)"
    using linked_nth [OF c(2), of i] Suc.prems(3) by simp
  then have g: "fatGet D (cs ! i) v = (FatNext (cs ! Suc i), w)" using w(1) by (simp add: fat_result_def)
  have "geo_ok v" using Suc.prems(1) by (simp add: vol_ok_def)
  then have "chain M w cs" using same_store_chain [OF w(3) _ c(3)] Suc.prems(2) by simp
  then obtain v' where "follow (fatGet D) n (cs ! Suc i) w = (Some (cs ! (Suc i + n)), v')" "vol_ok M v'" "same_store M w v'"
    using Suc.IH [OF w(2), of "Suc i"] Suc.prems(3) by auto
  then show ?case using g same_store_trans [OF w(3)] by auto
qed simp

lemma cluster_index:
  assumes "data_ok v" "pos \<noteq> 0"
  shows "unat (drop_bit (bytesPerClusterShift v) (pos - 1) :: 32 word) = (unat pos - 1) div bpc v"
proof -
  have "unat (pos - 1) = unat pos - 1" using assms(2) unat_sub [of 1 pos] by (simp add: word_le_nat_alt unat_gt_0 Suc_le_eq)
  moreover have "2 ^ bytesPerClusterShift v = bpc v" by (simp add: bytesPerClusterShift_def spc_def power_add)
  ultimately show ?thesis unfolding unat_drop_bit_eq by (simp add: drop_bit_eq_div)
qed

lemma seek_done_flags:
  "f_firstCluster (seek_done pos f) = f_firstCluster f" "f_fileSize (seek_done pos f) = f_fileSize f"
  "f_curCluster (seek_done pos f) = f_curCluster f" "f_curPosition (seek_done pos f) = pos"
  "isFile (seek_done pos f) = isFile f" "isDir (seek_done pos f) = isDir f"
  "isRootFixed (seek_done pos f) = isRootFixed f" "isRoot32 (seek_done pos f) = isRoot32 f"
  "isReadable (seek_done pos f) = isReadable f" "isContiguous (seek_done pos f) = isContiguous f"
  by (simp_all add: seek_done_def clear_flag_def isFile_def isDir_def isRootFixed_def isRoot32_def isReadable_def
      isContiguous_def has_attr_def has_flag_def and.assoc)

lemma file_open_cluster [simp]:
  "isFile (f\<lparr>f_curCluster := c\<rparr>) = isFile f" "isDir (f\<lparr>f_curCluster := c\<rparr>) = isDir f"
  "isRootFixed (f\<lparr>f_curCluster := c\<rparr>) = isRootFixed f" "isRoot32 (f\<lparr>f_curCluster := c\<rparr>) = isRoot32 f"
  "isReadable (f\<lparr>f_curCluster := c\<rparr>) = isReadable f" "isContiguous (f\<lparr>f_curCluster := c\<rparr>) = isContiguous f"
  by (simp_all add: isFile_def isDir_def isRootFixed_def isRoot32_def isReadable_def isContiguous_def has_attr_def has_flag_def)

lemma file_at_seek:
  assumes "file_at M v cs f" "pos \<le> f_fileSize f" "c = (if pos = 0 then 0 else cs ! ((unat pos - 1) div bpc v))"
  shows "file_at M v cs (seek_done pos (f\<lparr>f_curCluster := c\<rparr>))"
proof -
  have "unat pos \<le> bpc v * length cs" using assms(1,2) by (simp add: file_at_def word_le_nat_alt)
  then show ?thesis using assms by (simp add: file_at_def seek_done_flags)
qed

lemma seek_spec:
  assumes "dev_works D M" "vol_ok M v" "data_ok v" "file_at M v cs f" "pos \<le> f_fileSize f"
  shows "\<exists>f' v'. seekSet D pos f v = (True, f', v') \<and> vol_ok M v' \<and> same_store M v v' \<and> file_at M v' cs f' \<and>
    f_curPosition f' = pos \<and> f_fileSize f' = f_fileSize f \<and> isReadable f' = isReadable f"
proof -
  have F: "isFile f" "\<not> isRootFixed f" "\<not> isRoot32 f" using assms(4) by (simp_all add: file_at_def)
  then have o: "isOpen f" by (auto simp: isFile_def has_attr_def isOpen_def)
  consider (same) "pos = f_curPosition f" | (zero) "pos \<noteq> f_curPosition f" "pos = 0"
    | (move) "pos \<noteq> f_curPosition f" "pos \<noteq> 0" by blast
  then show ?thesis
  proof cases
    case same
    then show ?thesis using assms o by (simp add: seekSet_def)
  next
    case zero
    then have "seekSet D pos f v = (True, seek_done pos (f\<lparr>f_curCluster := 0\<rparr>), v)" using o by (simp add: seekSet_def)
    then show ?thesis using file_at_seek [OF assms(4,5), of 0] zero assms(2) by (simp add: seek_done_flags)
  next
    case move
    let ?k = "(unat pos - 1) div bpc v" and ?q = "f_curPosition f"
    have nNew: "unat (drop_bit (bytesPerClusterShift v) (pos - 1)) = ?k" by (rule cluster_index [OF assms(3) move(2)])
    have p0: "0 < unat pos" using move(2) by (simp add: unat_gt_0)
    have sz: "unat (f_fileSize f) \<le> bpc v * length cs" "unat pos \<le> unat (f_fileSize f)"
      using assms(4,5) by (simp_all add: file_at_def word_le_nat_alt)
    then have "unat pos - 1 < length cs * bpc v" using p0 by (simp only: mult.commute)
    then have k: "?k < length cs" by (rule less_mult_imp_div_less)
    then have ne: "cs \<noteq> []" by auto
    have C: "chain M v cs" "cs ! 0 = f_firstCluster f" using assms(4) ne by (auto simp: file_at_def hd_conv_nth)
    have E: "seekSet D pos f v = (True, seek_done pos (f\<lparr>f_curCluster := cs ! ?k\<rparr>), v') \<Longrightarrow> vol_ok M v' \<Longrightarrow>
        same_store M v v' \<Longrightarrow> ?thesis" for v'
      using file_at_keep [OF _ assms(2) file_at_seek [OF assms(4,5), of "cs ! ?k"]] move(2) by (auto simp: seek_done_flags)
    show ?thesis
    proof (cases "isContiguous f")
      case True
      have "f_firstCluster f + word_of_nat ?k = cs ! ?k" using True assms(4) k by (simp add: file_at_def)
      moreover have "drop_bit (bytesPerClusterShift v) (pos - 1) = word_of_nat ?k"
        using arg_cong [OF nNew, of "word_of_nat :: nat \<Rightarrow> 32 word"] by simp
      ultimately show ?thesis using E [of v] move F o True assms(2,5) by (simp add: seekSet_def Let_def not_less)
    next
      case False
      let ?new = "drop_bit (bytesPerClusterShift v) (pos - 1)" and ?cur = "drop_bit (bytesPerClusterShift v) (?q - 1)"
      let ?restart = "?new < ?cur \<or> ?q = 0"
      obtain i where i: "(if ?restart then f_firstCluster f else f_curCluster f) = cs ! i"
        "unat (if ?restart then ?new else ?new - ?cur) + i = ?k"
      proof (cases ?restart)
        case True
        then show ?thesis using that [of 0] C(2) nNew by simp
      next
        case False
        then have q: "?q \<noteq> 0" "?cur \<le> ?new" by auto
        note cur = cluster_index [OF assms(3) q(1)]
        have "unat (?new - ?cur) = ?k - (unat ?q - 1) div bpc v" using unat_sub [OF q(2)] nNew cur by simp
        moreover have "(unat ?q - 1) div bpc v \<le> ?k" using q(2) nNew cur by (simp add: word_le_nat_alt)
        moreover have "f_curCluster f = cs ! ((unat ?q - 1) div bpc v)" using assms(4) q(1) by (simp add: file_at_def)
        ultimately show ?thesis using that [of "(unat ?q - 1) div bpc v"] False by simp
      qed
      obtain v' where v': "follow (fatGet D) (unat (if ?restart then ?new else ?new - ?cur)) (cs ! i) v = (Some (cs ! ?k), v')"
        "vol_ok M v'" "same_store M v v'"
        using follow_chain [OF assms(1,2) C(1), of i "unat (if ?restart then ?new else ?new - ?cur)"] i(2) k
        by (auto simp: add.commute)
      have "seekSet D pos f v = (True, seek_done pos (f\<lparr>f_curCluster := cs ! ?k\<rparr>), v')"
        using move F o False assms(5) i(1) v'(1) by (cases ?restart) (auto simp: seekSet_def Let_def not_less)
      then show ?thesis using E v'(2,3) by blast
    qed
  qed
qed

end
