(* ===== verification/FileProperties.thy ===== *)
theory FileProperties
  imports FilePosition DemoCard
begin

text \<open>
  Reading: every turn of the loop of \<open>FatFile::read\<close> copies a piece of the file, and the loop copies a slice
  of it. The properties of \<open>read\<close> and \<open>seekSet\<close> follow.
\<close>

section \<open>One turn of the read loop\<close>

text \<open>A piece: the bytes at the position, at least one, no more than asked and within the cluster.\<close>

definition piece_ok :: "('d \<Rightarrow> 32 word \<Rightarrow> byte list) \<Rightarrow> 'd fatvol \<Rightarrow> 32 word list \<Rightarrow> nat \<Rightarrow> nat \<Rightarrow> byte list \<Rightarrow> bool" where
  "piece_ok M v cs p n b \<longleftrightarrow> 0 < length b \<and> length b \<le> n \<and> p mod bpc v + length b \<le> bpc v \<and>
     b = take (length b) (drop p (chain_bytes M v cs))"

lemma sector_piece:
  assumes "dev_works D M" "coherent M (v_cache v)" "p div 512 < length cs * spc v" "0 < n"
  shows "piece_ok M v cs p n (take (min (512 - p mod 512) n) (drop (p mod 512) (store M v (chain_sector v cs (p div 512)))))"
    (is "piece_ok M v cs p n ?b")
proof -
  let ?m = "min (512 - p mod 512) n"
  have l: "length ?b = ?m" using store_length [OF assms(1,2)] by simp
  have off: "p mod 512 < 512" by simp
  have "?b = take ?m (drop (512 * (p div 512) + p mod 512) (chain_bytes M v cs))"
    by (rule chain_slice [OF assms(1-3), symmetric]) (use off in linarith)
  also have "512 * (p div 512) + p mod 512 = p" by simp
  finally have b: "?b = take ?m (drop p (chain_bytes M v cs))" .
  have "p mod bpc v = 512 * (p div 512 mod spc v) + p mod 512" by (rule mod_mult2_eq)
  moreover have "512 * Suc (p div 512 mod spc v) \<le> 512 * spc v"
    using mod_less_divisor [OF spc_pos(1), of "p div 512" v] by (intro mult_le_mono2) (simp only: Suc_le_eq)
  moreover have "512 * r + a + m \<le> x" if "512 * Suc r \<le> x" "a < 512" "m \<le> 512 - a" for r a x m :: nat
    using that by simp
  moreover have "?m \<le> 512 - p mod 512" by (rule min.cobounded1)
  ultimately have "p mod bpc v + ?m \<le> bpc v" using off by metis
  then show ?thesis unfolding piece_ok_def l using b assms(4) by auto
qed

lemma sectors_piece:
  assumes "dev_works D M" "coherent M (v_cache v)" "p mod 512 = 0" "0 < k" "512 * k \<le> n"
    "p div 512 mod spc v + k \<le> spc v" "p div 512 + k \<le> length cs * spc v"
  shows "piece_ok M v cs p n (concat (map (\<lambda>i. store M v (chain_sector v cs (p div 512) + word_of_nat i)) [0..<k]))"
    (is "piece_ok M v cs p n ?b")
proof -
  have p: "512 * (p div 512) = p" using assms(3) by auto
  have b: "?b = take (512 * k) (drop p (chain_bytes M v cs))"
    using chain_slices [OF assms(1,2,6,7)] p by simp
  have "512 * (p div 512 + k) \<le> 512 * (length cs * spc v)" using assms(7) by (rule mult_le_mono2)
  then have "p + 512 * k \<le> length (chain_bytes M v cs)"
    using p unfolding length_chain_bytes [OF assms(1,2)] by (simp only: add_mult_distrib2)
  then have l: "length ?b = 512 * k" unfolding b by simp
  have "p mod bpc v = 512 * (p div 512 mod spc v)" using mod_mult2_eq [of p 512 "spc v"] assms(3) by simp
  then have "p mod bpc v + 512 * k \<le> bpc v" using mult_le_mono2 [OF assms(6), of 512] by (simp only: add_mult_distrib2)
  then show ?thesis unfolding piece_ok_def l using b assms(4,5) by simp
qed

lemma read_piece_spec:
  assumes "dev_works D M" "vol_ok M v" "data_ok v" "\<forall>c \<in> set cs. valid_cluster v c" "\<not> isRootFixed f"
    "0 < n" "n < 2 ^ 16" "unat (f_curPosition f) + n \<le> bpc v * length cs"
  shows "\<exists>b v'. read_piece D (chain_sector v cs (unat (f_curPosition f) div 512)) (sectorOfCluster v (f_curPosition f)) n f v
      = (Some b, v') \<and> vol_ok M v' \<and> same_store M v v' \<and> piece_ok M v cs (unat (f_curPosition f)) n b"
proof -
  define p where "p = unat (f_curPosition f)"
  define s where "s = chain_sector v cs (p div 512)"
  let ?c = "cs ! (p div 512 div spc v)" and ?r = "p div 512 mod spc v"
  have coh: "coherent M (v_cache v)" and g: "geo_ok v" using assms(2) by (simp_all add: vol_ok_def)
  have le: "p + n \<le> 512 * (length cs * spc v)" using assms(8) by (simp add: p_def ac_simps)
  then have j: "p div 512 < length cs * spc v" using assms(6) by (simp add: less_mult_imp_div_less mult.commute)
  then have c: "valid_cluster v ?c" using chain_sector_index(1) [OF j] assms(4) by simp
  have sec: "s \<notin> fat2 v" "s \<noteq> 0xFFFFFFFF"
    using cluster_sector_data [OF assms(3) g c, of ?r] by (simp_all add: s_def chain_sector_def)
  have off: "unat (f_curPosition f AND 0x1FF) = p mod 512" by (simp add: unat_low9 p_def)
  show ?thesis
  proof (cases "p mod 512 \<noteq> 0 \<or> n < 512 \<or> s = c_sector (v_cache v)")
    case True
    obtain v' where v': "dataCachePrepare D s 0 v = (True, v')" "vol_ok M v'" "same_store M v v'" "cached v' = store M v s"
      using prepare_ok [OF assms(1,2) sec, of 0] by auto
    then have "read_piece D s (sectorOfCluster v (f_curPosition f)) n f v =
        (Some (take (min (512 - p mod 512) n) (drop (p mod 512) (store M v s))), v')"
      using True by (simp add: read_piece_eq off Let_def)
    then show ?thesis using v' sector_piece [OF assms(1) coh j assms(6)] by (simp add: s_def p_def)
  next
    case False
    define k where "k = (if n \<ge> 1024 then min (spc v - ?r) (n div 512) else 1)"
    have r: "?r < spc v" by simp
    have n: "512 \<le> n" using False by simp
    have "0 < K \<and> R + K \<le> S \<and> K \<le> m div 512"
      if "R < S" "512 \<le> m" "K = (if m \<ge> 1024 then min (S - R) (m div 512) else 1)" for R S K m :: nat
      using that by (auto simp: min_def)
    then have k: "0 < k" "?r + k \<le> spc v" "k \<le> n div 512" using r n k_def by metis+
    have kn: "512 * k \<le> n" using k(3) by (metis mult_le_mono2 times_div_less_eq_dividend le_trans)
    have p: "512 * (p div 512) = p" using False by auto
    have jk: "p div 512 + k \<le> length cs * spc v"
    proof -
      have "512 * (p div 512 + k) \<le> 512 * (length cs * spc v)" using le kn p by (simp only: add_mult_distrib2)
      then show ?thesis by simp
    qed
    obtain b cc where b: "(if n \<ge> 1024 then cacheSafeReads D s k (v_cache v) else cacheSafeRead D s (v_cache v)) = (True, b, cc)"
      "b = concat (map (\<lambda>i. store M v (s + word_of_nat i)) [0..<k])"
      "vol_ok M (v\<lparr>v_cache := cc\<rparr>)" "same_store M v (v\<lparr>v_cache := cc\<rparr>)"
    proof (cases "n \<ge> 1024")
      case True
      have i: "s + word_of_nat i = clusterStartSector v ?c + word_of_nat (?r + i)" for i
        by (simp add: s_def chain_sector_def add.assoc)
      have u: "unat (s + word_of_nat i) = unat (v_dataStartSector v) + (unat ?c - 2) * spc v + (?r + i)" if "?r + i < spc v" for i
        unfolding i by (rule unat_cluster_sector [OF assms(3) c that])
      have "s + word_of_nat i \<notin> fat2 v" if "i < k" for i
        unfolding i by (rule cluster_sector_data(2) [OF assms(3) g c]) (use that k in simp)
      moreover have "unat s + k \<le> 2 ^ 32 - 1"
      proof -
        let ?w = "s + word_of_nat (k - 1)"
        have rk: "?r + (k - 1) < spc v" using k(1,2) by linarith
        have "?w \<noteq> 0xFFFFFFFF" unfolding i by (rule cluster_sector_data(3) [OF assms(3) g c rk])
        moreover have "unat ?w = unat s + (k - 1)" using u [OF rk] u [of 0] by simp
        moreover from calculation(1) have "unat ?w \<noteq> 2 ^ 32 - 1" using word_unat_eq_iff [of ?w "0xFFFFFFFF"] by simp
        moreover have "unat ?w < 2 ^ 32" using unat_bound [of ?w] by simp
        ultimately show ?thesis using k(1) by linarith
      qed
      ultimately show ?thesis using that safe_reads [OF assms(1,2), of s k] True by auto
    next
      case False
      then have "k = 1" by (simp add: k_def)
      moreover have "s \<noteq> c_sector (v_cache v)" using \<open>\<not> (p mod 512 \<noteq> 0 \<or> n < 512 \<or> s = c_sector (v_cache v))\<close> by simp
      ultimately show ?thesis using that safe_read [OF assms(1,2), of s] False by auto
    qed
    have "n \<ge> 1024 \<Longrightarrow> piece_sectors (sectorOfCluster v (f_curPosition f)) n f v = k"
      using piece_sectors_min [OF assms(3,5,7)] by (simp add: k_def p_def)
    then have "read_piece D s (sectorOfCluster v (f_curPosition f)) n f v = (Some b, v\<lparr>v_cache := cc\<rparr>)"
      using False b(1) by (auto simp: read_piece_eq off Let_def split: if_splits)
    moreover have "piece_ok M v cs p n b"
      unfolding b(2) s_def by (rule sectors_piece [OF assms(1) coh _ k(1) kn k(2) jk]) (use False in simp)
    ultimately show ?thesis using b(3,4) by (auto simp: s_def p_def)
  qed
qed

section \<open>The read loop\<close>

lemma file_open_advance:
  assumes "file_open M v cs f" "piece_ok M v cs p n b" "p = unat (f_curPosition f)" "p + n \<le> unat (f_fileSize f)"
  defines "f' \<equiv> f\<lparr>f_curCluster := cs ! (p div bpc v), f_curPosition := f_curPosition f + word_of_nat (length b)\<rparr>"
  shows "file_open M v cs f'" "unat (f_curPosition f') = p + length b"
proof -
  have b: "0 < length b" "length b \<le> n" "p mod bpc v + length b \<le> bpc v" using assms(2) by (simp_all add: piece_ok_def)
  have le: "p + length b \<le> unat (f_fileSize f)" using b assms(4) by simp
  moreover have "unat (f_fileSize f) < 2 ^ 32" using unat_bound [of "f_fileSize f"] by simp
  moreover have "unat (f_fileSize f) \<le> bpc v * length cs" using assms(1) by (simp add: file_open_def file_at_def)
  moreover have "file_at M v cs f" using assms(1) by (simp add: file_open_def)
  ultimately have A: "file_at M v cs f'" "unat (f_curPosition f') = p + length b"
    using file_at_advance [OF _ assms(3) b(1,3)] unfolding f'_def by (meson le_less_trans le_trans)+
  then show "unat (f_curPosition f') = p + length b" by simp
  show "file_open M v cs f'"
    using A le assms(1) by (simp add: file_open_def word_le_nat_alt) (simp add: f'_def isReadable_def has_flag_def)
qed

lemma read_loop_spec:
  "dev_works D M \<Longrightarrow> vol_ok M v \<Longrightarrow> data_ok v \<Longrightarrow> file_open M v cs f \<Longrightarrow> n < 2 ^ 16 \<Longrightarrow>
    unat (f_curPosition f) + n \<le> unat (f_fileSize f) \<Longrightarrow>
    \<exists>f' v'. read_loop D n acc f v = Some (True, 0, acc @ take n (drop (unat (f_curPosition f)) (chain_bytes M v cs)), f', v') \<and>
      vol_ok M v' \<and> same_store M v v' \<and> file_open M v' cs f' \<and> unat (f_curPosition f') = unat (f_curPosition f) + n \<and>
      f_fileSize f' = f_fileSize f"
proof (induction n arbitrary: acc f v rule: less_induct)
  case (less n)
  note D = less.prems(1)
  show ?case
  proof (cases "n = 0")
    case True
    then show ?thesis using less.prems by (simp add: read_loop.simps)
  next
    case False
    let ?p = "unat (f_curPosition f)"
    have g: "geo_ok v" and vc: "\<forall>c \<in> set cs. valid_cluster v c" and nr: "\<not> isRootFixed f"
      and sz: "unat (f_fileSize f) \<le> bpc v * length cs"
      using less.prems(2,4) by (simp_all add: vol_ok_def file_open_def file_at_def)
    have lt: "f_curPosition f < f_fileSize f" using less.prems(6) False by (simp add: word_less_nat_alt)
    let ?f1 = "f\<lparr>f_curCluster := cs ! (?p div bpc v)\<rparr>"
    obtain v1 where l: "read_locate D f v = (LocSector (chain_sector v cs (?p div 512)) (sectorOfCluster v (f_curPosition f)), ?f1, v1)"
      "vol_ok M v1" "same_store M v v1"
      using read_locate_spec [OF less.prems(1-4) lt] by blast
    note S = same_store_data [OF l(3)]
    have "\<exists>b v2. read_piece D (chain_sector v1 cs (unat (f_curPosition ?f1) div 512)) (sectorOfCluster v1 (f_curPosition ?f1)) n ?f1 v1
      = (Some b, v2) \<and> vol_ok M v2 \<and> same_store M v1 v2 \<and> piece_ok M v1 cs (unat (f_curPosition ?f1)) n b"
      by (rule read_piece_spec [OF D l(2)])
        (use less.prems(3,5,6) vc nr False sz S in \<open>simp_all add: isRootFixed_def has_attr_def\<close>)
    then obtain b v2 where r: "read_piece D (chain_sector v cs (?p div 512)) (sectorOfCluster v (f_curPosition f)) n ?f1 v1 = (Some b, v2)"
      "vol_ok M v2" "same_store M v1 v2" "piece_ok M v1 cs ?p n b"
      using S by auto
    have s2: "same_store M v v2" using same_store_trans [OF l(3) r(3)] .
    note C = same_store_bytes [OF l(3) g less.prems(3) vc] same_store_bytes [OF s2 g less.prems(3) vc]
    have pb: "piece_ok M v cs ?p n b" using r(4) C S by (simp add: piece_ok_def)
    then have b: "0 < length b" "length b \<le> n" "b = take (length b) (drop ?p (chain_bytes M v cs))"
      by (simp_all add: piece_ok_def)
    let ?f2 = "?f1\<lparr>f_curPosition := f_curPosition f + word_of_nat (length b)\<rparr>"
    note adv = file_open_advance [OF less.prems(4) pb refl less.prems(6)]
    have o: "file_open M v2 cs ?f2" using file_open_keep [OF s2 less.prems(2) adv(1)] .
    have d2: "data_ok v2" using same_store_data(2) [OF s2] less.prems(3) by simp
    have n2: "n - length b < n" "n - length b < 2 ^ 16" using b(1) False less.prems(5) by linarith+
    have p2: "unat (f_curPosition ?f2) + (n - length b) \<le> unat (f_fileSize ?f2)"
      using b(2) less.prems(6) adv(2) by simp
    have "\<exists>f' v'. read_loop D (n - length b) (acc @ b) ?f2 v2 =
        Some (True, 0, (acc @ b) @ take (n - length b) (drop (unat (f_curPosition ?f2)) (chain_bytes M v2 cs)), f', v') \<and>
      vol_ok M v' \<and> same_store M v2 v' \<and> file_open M v' cs f' \<and>
      unat (f_curPosition f') = unat (f_curPosition ?f2) + (n - length b) \<and> f_fileSize f' = f_fileSize ?f2"
      by (rule less.IH [OF n2(1) D r(2) d2 o n2(2) p2])
    then obtain f' v' where i: "read_loop D (n - length b) (acc @ b) ?f2 v2 =
        Some (True, 0, (acc @ b) @ take (n - length b) (drop (?p + length b) (chain_bytes M v cs)), f', v')"
      "vol_ok M v'" "same_store M v2 v'" "file_open M v' cs f'" "unat (f_curPosition f') = ?p + n" "f_fileSize f' = f_fileSize f"
      unfolding C adv(2) using b(2) by auto
    have "b @ take (n - length b) (drop (?p + length b) (chain_bytes M v cs)) = take n (drop ?p (chain_bytes M v cs))"
      using b(2,3) take_add [of "length b" "n - length b" "drop ?p (chain_bytes M v cs)"] by (simp add: add.commute)
    moreover have "read_loop D n acc f v = read_loop D (n - length b) (acc @ b) ?f2 v2"
      using False l(1) r(1) by (subst read_loop.simps) simp
    ultimately show ?thesis using i same_store_trans [OF s2 i(3)] by simp
  qed
qed

section \<open>Reading a file\<close>

lemma unat_read_bound:
  assumes "isFile f" "f_curPosition f \<le> f_fileSize f"
  shows "unat (read_bound n f v) = min (unat n) (unat (f_fileSize f) - unat (f_curPosition f))"
proof -
  let ?t = "f_fileSize f - f_curPosition f"
  have t: "unat ?t = unat (f_fileSize f) - unat (f_curPosition f)" by (rule unat_sub [OF assms(2)])
  have n: "unat n < 2 ^ 16" using unat_bound [of n] by simp
  show ?thesis
  proof (cases "?t \<le> ucast n")
    case True
    then have "unat ?t \<le> unat n" by (simp add: word_le_nat_alt unat_ucast_up)
    then show ?thesis using True n assms(1) t by (simp add: read_bound_def unat_ucast_down)
  next
    case False
    then have "unat n < unat ?t" by (simp add: word_le_nat_alt unat_ucast_up)
    then show ?thesis using False assms(1) t by (simp add: read_bound_def)
  qed
qed

lemma sint16_small: "unat (w :: 16 word) < 2 ^ 15 \<Longrightarrow> sint w = int (unat w)"
proof -
  assume "unat w < 2 ^ 15"
  then have "int (unat w) < int (2 ^ 15)" by (simp only: of_nat_less_iff)
  then have u: "uint w < 2 ^ 15" by simp
  then have "\<not> bit (uint w) 15" by (simp add: bit_iff_odd)
  moreover have "take_bit 16 (uint w) = uint w" using u by (simp add: take_bit_int_eq_self)
  ultimately have "sint w = uint w" by (simp add: sint_uint signed_take_bit_eq_take_bit_minus)
  then show ?thesis by simp
qed

lemma length_file_bytes:
  assumes "dev_works D M" "vol_ok M v" "file_open M v cs f"
  shows "length (file_bytes M v f cs) = unat (f_fileSize f)"
  using assms length_chain_bytes [OF assms(1), of v cs] by (simp add: file_bytes_def vol_ok_def file_open_def file_at_def ac_simps)

lemma file_read_spec:
  assumes "dev_works D M" "vol_ok M v" "data_ok v" "file_open M v cs f" "unat n < 2 ^ 15"
  defines "b \<equiv> take (unat n) (drop (unat (f_curPosition f)) (file_bytes M v f cs))"
  shows "\<exists>f' v'. FatFile_read D n f v = Some (int (length b), b, f', v') \<and> vol_ok M v' \<and> same_store M v v' \<and>
    file_open M v' cs f' \<and> unat (f_curPosition f') = unat (f_curPosition f) + length b \<and> f_fileSize f' = f_fileSize f"
proof -
  let ?p = "unat (f_curPosition f)" and ?s = "unat (f_fileSize f)"
  have F: "isFile f" "isReadable f" "f_curPosition f \<le> f_fileSize f" using assms(4) by (simp_all add: file_open_def file_at_def)
  let ?k = "min (unat n) (?s - ?p)"
  have k: "unat (read_bound n f v) = ?k" by (rule unat_read_bound [OF F(1,3)])
  have le: "?p \<le> ?s" using F(3) by (simp add: word_le_nat_alt)
  have b: "length b = ?k" unfolding b_def using length_file_bytes [OF assms(1,2,4)] by simp
  have bt: "b = take ?k (drop ?p (chain_bytes M v cs))"
    unfolding b_def file_bytes_def by (simp add: drop_take min.commute)
  have k16: "?k < 2 ^ 16" "?p + ?k \<le> ?s" using assms(5) le by auto
  obtain f' v' where l: "read_loop D ?k [] f v = Some (True, 0, b, f', v')" "vol_ok M v'" "same_store M v v'"
    "file_open M v' cs f'" "unat (f_curPosition f') = ?p + ?k" "f_fileSize f' = f_fileSize f"
    using read_loop_spec [OF assms(1-4) k16, of "[]"] bt by auto
  have "sint (read_bound n f v) = int ?k"
    using sint16_small [of "read_bound n f v"] k assms(5) by simp
  then show ?thesis using l F(2) k b by (simp add: FatFile_read_def Let_def)
qed

lemma file_bytes_keep:
  assumes "same_store M v v'" "vol_ok M v" "data_ok v" "file_open M v cs f" "f_fileSize f' = f_fileSize f"
  shows "file_bytes M v' f' cs = file_bytes M v f cs"
  using same_store_bytes [OF assms(1) _ assms(3)] assms(2,4,5) by (simp add: file_bytes_def vol_ok_def file_open_def file_at_def)

section \<open>Properties of files\<close>

text \<open>C8: \<open>FatFile::read\<close> of an open file returns, and it returns exactly the
  bytes of the file at the position, as many as were asked or as are left, whatever mixture of
  cached sectors, whole sectors and multi-sector transfers they need and however many clusters they
  cross. The position moves past them, the file stays open and consistent and its contents do not
  change.\<close>

theorem read_returns_slice:
  assumes "dev_works D M" "vol_ok M v" "data_ok v" "file_open M v cs f" "unat n < 2 ^ 15"
  shows "\<exists>f' v' b. FatFile_read D n f v = Some (int (length b), b, f', v') \<and>
    b = take (unat n) (drop (unat (f_curPosition f)) (file_bytes M v f cs)) \<and>
    file_open M v' cs f' \<and> unat (f_curPosition f') = unat (f_curPosition f) + length b \<and>
    vol_ok M v' \<and> data_ok v' \<and> file_bytes M v' f' cs = file_bytes M v f cs"
proof -
  obtain f' v' where r: "FatFile_read D n f v = Some (int (length (take (unat n) (drop (unat (f_curPosition f)) (file_bytes M v f cs)))),
      take (unat n) (drop (unat (f_curPosition f)) (file_bytes M v f cs)), f', v')"
    "vol_ok M v'" "same_store M v v'" "file_open M v' cs f'" "f_fileSize f' = f_fileSize f"
    "unat (f_curPosition f') = unat (f_curPosition f) + length (take (unat n) (drop (unat (f_curPosition f)) (file_bytes M v f cs)))"
    using file_read_spec [OF assms] by blast
  have "file_bytes M v' f' cs = file_bytes M v f cs" by (rule file_bytes_keep [OF r(3) assms(2-4) r(5)])
  moreover have "data_ok v'" using same_store_data(2) [OF r(3)] assms(3) by simp
  ultimately show ?thesis using r by blast
qed

text \<open>C9: \<open>seekSet\<close> to any position up to the size of the file succeeds and
  leaves the file open at that position on its chain, whether it starts again at the first cluster,
  goes on from the current one or computes the cluster of a contiguous file. A position behind the
  end is refused without any change.\<close>

theorem seek_moves_position:
  assumes "dev_works D M" "vol_ok M v" "data_ok v" "file_open M v cs f"
  shows "if pos \<le> f_fileSize f
    then \<exists>f' v'. seekSet D pos f v = (True, f', v') \<and> f_curPosition f' = pos \<and> file_open M v' cs f' \<and>
      vol_ok M v' \<and> data_ok v' \<and> file_bytes M v' f' cs = file_bytes M v f cs
    else seekSet D pos f v = (False, f, v)"
proof (cases "pos \<le> f_fileSize f")
  case True
  then obtain f' v' where r: "seekSet D pos f v = (True, f', v')" "vol_ok M v'" "same_store M v v'" "file_open M v' cs f'"
    "f_curPosition f' = pos" "f_fileSize f' = f_fileSize f"
  proof -
    have f: "file_at M v cs f" "isReadable f" using assms(4) by (simp_all add: file_open_def)
    show ?thesis using that seek_spec [OF assms(1-3) f(1) True] f(2) True unfolding file_open_def by metis
  qed
  have "file_bytes M v' f' cs = file_bytes M v f cs" by (rule file_bytes_keep [OF r(3) assms(2-4) r(6)])
  moreover have "data_ok v'" using same_store_data(2) [OF r(3)] assms(3) by simp
  ultimately show ?thesis using True r by auto
next
  case False
  moreover have "isFile f" "isOpen f" "f_curPosition f \<le> f_fileSize f"
    using assms(4) by (auto simp: file_open_def file_at_def isFile_def has_attr_def isOpen_def)
  ultimately show ?thesis by (auto simp: seekSet_def not_le)
qed

text \<open>A file of 700 bytes on the demonstration volume.\<close>

definition demo_file :: fatfile where
  "demo_file = file_zero\<lparr>f_attributes := FILE_ATTR_FILE, f_flags := FILE_FLAG_READ, f_firstCluster := 2, f_fileSize := 700\<rparr>"

lemma demo_data: "data_ok demo_vol"
  by (simp add: data_ok_def demo_vol_def spc_def)

lemma demo_file_open: "file_open card demo_vol [2, 3] demo_file"
proof -
  have "spc demo_vol = 1" by (simp add: spc_def demo_vol_def)
  moreover have "valid_cluster demo_vol 2" "valid_cluster demo_vol 3" using demo_chain by (simp_all add: chain_def)
  ultimately show ?thesis using demo_chain
    by (simp add: file_open_def file_at_def) (simp add: demo_file_def file_zero_def isFile_def isReadable_def isRootFixed_def isRoot32_def
      isDir_def isContiguous_def has_attr_def has_flag_def)
qed

lemma demo_bytes: "file_bytes card demo_vol demo_file [2, 3] = replicate 512 65 @ replicate 188 66"
proof -
  have s: "spc demo_vol = 1" by (simp add: spc_def demo_vol_def)
  have "chain_bytes card demo_vol [2, 3] = replicate 512 65 @ replicate 512 66"
    unfolding chain_bytes_def by (simp add: s chain_sector_def numeral_2_eq_2 demo_store)
      (simp add: clusterStartSector_def demo_vol_def card_def demo_card_def)
  then show ?thesis by (simp add: file_bytes_def demo_file_def)
qed

theorem read_returns_slice_witness:
  "\<exists>f' v'. FatFile_read card_ops 600 demo_file demo_vol = Some (600, replicate 512 65 @ replicate 88 66, f', v')"
proof -
  have "f_curPosition demo_file = 0" by (simp add: demo_file_def file_zero_def)
  then show ?thesis
    using read_returns_slice [OF card_works _ demo_data demo_file_open, of 600] demo_inv
    by (auto simp: fat_inv_def demo_bytes)
qed

theorem seek_moves_position_witness:
  "(\<exists>f' v'. seekSet card_ops 520 demo_file demo_vol = (True, f', v') \<and> f_curPosition f' = 520) \<and>
    seekSet card_ops 701 demo_file demo_vol = (False, demo_file, demo_vol)"
proof -
  have v: "vol_ok card demo_vol" using demo_inv by (simp add: fat_inv_def)
  have "f_fileSize demo_file = 700" by (simp add: demo_file_def)
  then show ?thesis
    using seek_moves_position [OF card_works v demo_data demo_file_open, of 520]
      seek_moves_position [OF card_works v demo_data demo_file_open, of 701] by auto
qed

end
