(* ===== verification/DataWrites.thy ===== *)
theory DataWrites
  imports FilePosition
begin

text \<open>
  Writing data sectors. What a write through the cache or directly to the device does to the store of the volume
  (\<open>lib/SdFat/src/common/FsCache.cpp\<close>), to the bytes of a chain, and to everything else: the FAT, other chains and the
  volume's invariant are kept (\<open>others_kept\<close>).
\<close>

section \<open>Transfers that write data sectors\<close>

text \<open>Only the cache changed, and the flat store outside the second FAT is now \<open>g\<close>.\<close>

definition stored :: "('d \<Rightarrow> 32 word \<Rightarrow> byte list) \<Rightarrow> 'd fatvol \<Rightarrow> 'd fatvol \<Rightarrow> (32 word \<Rightarrow> byte list) \<Rightarrow> bool" where
  "stored M v v' g \<longleftrightarrow> (\<exists>c. v' = v\<lparr>v_cache := c\<rparr>) \<and> (\<forall>t. t \<notin> fat2 v \<longrightarrow> store M v' t = g t)"

lemma stored_same: "stored M v v' g \<Longrightarrow> same_store M v' v'' \<Longrightarrow> stored M v v'' g"
  unfolding stored_def same_store_def by (elim conjE exE) (intro conjI exI, auto)

text \<open>A direct write: the cached sector is dropped when it is among the sectors written.\<close>

lemma direct_write:
  assumes "vol_ok M v" "unat s + n \<le> 2 ^ 32 - 1" "\<And>t. unat (t - s) < n \<Longrightarrow> t \<notin> fat1 v \<and> t \<notin> fat2 v"
    and "M d = put_sectors s n b (M (c_dev (v_cache v)))"
    and "hit \<Longrightarrow> unat (c_sector (v_cache v) - s) < n \<or> c_sector (v_cache v) = 0xFFFFFFFF"
    and "\<not> hit \<Longrightarrow> \<not> unat (c_sector (v_cache v) - s) < n \<or> c_sector (v_cache v) = 0xFFFFFFFF"
  defines "c' \<equiv> (if hit then cache_invalidate (v_cache v) else v_cache v)\<lparr>c_dev := d\<rparr>"
  shows "vol_ok M (v\<lparr>v_cache := c'\<rparr>)" "stored M v (v\<lparr>v_cache := c'\<rparr>) (put_sectors s n b (store M v))"
proof -
  let ?c = "v_cache v"
  have coh: "coherent M ?c" and g: "geo_ok v" using assms(1) by (simp_all add: vol_ok_def)
  have ff: "\<not> unat (0xFFFFFFFF - s) < n"
  proof -
    have "unat (0xFFFFFFFF - s) = 2 ^ 32 - 1 - unat s" using unat_sub [of s "0xFFFFFFFF"] unat_bound [of s] by (simp add: word_le_nat_alt)
    then show ?thesis using assms(2) by linarith
  qed
  have vw: "view M c' = put_sectors s n b (view M ?c)"
  proof (rule ext)
    fix t
    have p: "M d t = (if unat (t - s) < n then take 512 (drop (512 * unat (t - s)) b) else M (c_dev ?c) t)"
      by (simp add: assms(4) put_sectors_def)
    have r: "put_sectors s n b (view M ?c) t = (if unat (t - s) < n then take 512 (drop (512 * unat (t - s)) b)
        else if t = c_sector ?c \<and> t \<noteq> 0xFFFFFFFF then c_buffer ?c else M (c_dev ?c) t)"
      by (simp add: put_sectors_def view_def)
    show "view M c' t = put_sectors s n b (view M ?c) t"
    proof (cases hit)
      case True
      then have "view M c' t = M d t" by (simp add: c'_def cache_invalidate_def view_def)
      moreover have "t = c_sector ?c \<Longrightarrow> t \<noteq> 0xFFFFFFFF \<Longrightarrow> unat (t - s) < n" using assms(5) True by blast
      ultimately show ?thesis using p r by metis
    next
      case False
      then have "view M c' t = (if t = c_sector ?c \<and> t \<noteq> 0xFFFFFFFF then c_buffer ?c else M d t)"
        by (auto simp: c'_def view_def)
      moreover have "t = c_sector ?c \<Longrightarrow> t \<noteq> 0xFFFFFFFF \<Longrightarrow> \<not> unat (t - s) < n" using assms(6) False by blast
      ultimately show ?thesis using p r by metis
    qed
  qed
  then show "stored M v (v\<lparr>v_cache := c'\<rparr>) (put_sectors s n b (store M v))" by (auto simp: stored_def)
  have "coherent M c'"
    using coh assms(6) by (cases hit)
      (auto simp: coherent_def c'_def cache_invalidate_def cache_isDirty_def put_sectors_def assms(4))
  moreover have "put_sectors s n b (view M ?c) (t + v_sectorsPerFat v) = put_sectors s n b (view M ?c) t \<or>
      c_sector c' = t \<and> cache_isDirty c' \<and> bit (c_status c') 1" if t: "t \<in> fat1 v" for t
  proof -
    have "t + v_sectorsPerFat v \<in> fat2 v" using t by (auto simp: fat2_def)
    then have p: "\<not> unat (t - s) < n" "\<not> unat (t + v_sectorsPerFat v - s) < n" using assms(3) t by blast+
    have "t \<noteq> 0xFFFFFFFF" using fat_disjoint(2) [OF g t] .
    then have "hit \<Longrightarrow> c_sector ?c \<noteq> t" using assms(5) p(1) by auto
    then show ?thesis using assms(1) t p by (cases hit) (auto simp: vol_ok_def put_sectors_def c'_def cache_isDirty_def)
  qed
  moreover have "bit (c_status c') 1 \<longrightarrow> c_sector c' \<in> fat1 v" "c_mirror c' = v_sectorsPerFat v"
    using assms(1) by (auto simp: vol_ok_def c'_def cache_invalidate_def)
  ultimately show "vol_ok M (v\<lparr>v_cache := c'\<rparr>)" using g vw by (simp add: vol_ok_def)
qed

lemma unat_minus_range:
  assumes "unat (s :: 32 word) + n \<le> 2 ^ 32 - 1"
  shows "unat (t - s) < n \<longleftrightarrow> unat s \<le> unat t \<and> unat t < unat s + n"
proof (cases "s \<le> t")
  case True
  then show ?thesis using unat_sub [OF True] by (auto simp: word_le_nat_alt)
next
  case False
  then have l: "unat t < unat s" by (simp add: word_le_nat_alt)
  have "unat (t - s) = (2 ^ 32 + unat t - unat s)"
    using l unat_bound [of s] by (simp add: unat_sub_if')
  then show ?thesis using l assms by auto
qed

lemma safe_writes:
  assumes "dev_works D M" "vol_ok M v" "unat s + n \<le> 2 ^ 32 - 1" "length b = 512 * n"
    and "\<And>t. unat (t - s) < n \<Longrightarrow> t \<notin> fat1 v \<and> t \<notin> fat2 v"
  shows "\<exists>c. cacheSafeWrites D s b n (v_cache v) = (True, c) \<and> vol_ok M (v\<lparr>v_cache := c\<rparr>) \<and>
    stored M v (v\<lparr>v_cache := c\<rparr>) (put_sectors s n b (store M v))"
proof -
  let ?c = "v_cache v" and ?hit = "isCached_range (v_cache v) s n"
  have u: "unat (s + word_of_nat n) = unat s + n" using assms(3) by (intro unat_plus_nat) simp
  have hit: "?hit \<longleftrightarrow> unat (c_sector ?c - s) < n"
    unfolding unat_minus_range [OF assms(3)] isCached_range_def word_le_nat_alt word_less_nat_alt u by blast
  obtain d where d: "dev_writes D (c_dev ?c) s n b = (True, d)" "M d = put_sectors s n b (M (c_dev ?c))"
    using assms(1,4) unfolding dev_works_def by blast
  have "cacheSafeWrites D s b n ?c = (True, (if ?hit then cache_invalidate ?c else ?c)\<lparr>c_dev := d\<rparr>)"
    using d(1) by (simp add: cacheSafeWrites_def cache_invalidate_def Let_def)
  then show ?thesis using direct_write [OF assms(2,3,5) d(2), of ?hit] hit by blast
qed

lemma safe_write:
  assumes "dev_works D M" "vol_ok M v" "s \<noteq> 0xFFFFFFFF" "length b = 512" "s \<notin> fat1 v" "s \<notin> fat2 v"
  shows "\<exists>c. cacheSafeWrite D s b (v_cache v) = (True, c) \<and> vol_ok M (v\<lparr>v_cache := c\<rparr>) \<and>
    stored M v (v\<lparr>v_cache := c\<rparr>) (put_sectors s 1 b (store M v))"
proof -
  let ?c = "v_cache v"
  obtain d where d: "dev_write D (c_dev ?c) s b = (True, d)" "M d = (M (c_dev ?c))(s := b)"
    using assms(1,4) unfolding dev_works_def by blast
  have p: "put_sectors s 1 b m = m(s := b)" for m using assms(4) by (auto simp: put_sectors_def fun_eq_iff unat_eq_zero)
  have b: "unat s + 1 \<le> 2 ^ 32 - 1"
    using assms(3) unat_bound [of s] word_unat_eq_iff [of s "0xFFFFFFFF"] by simp
  have z: "unat (t - s) < 1 \<longleftrightarrow> t = s" for t by (simp add: unat_eq_zero)
  have "cacheSafeWrite D s b ?c = (True, (if isCached ?c s then cache_invalidate ?c else ?c)\<lparr>c_dev := d\<rparr>)"
    using d(1) by (simp add: cacheSafeWrite_def cache_invalidate_def Let_def)
  moreover have "M d = put_sectors s 1 b (M (c_dev ?c))" using d(2) p by simp
  moreover have "t \<notin> fat1 v \<and> t \<notin> fat2 v" if "unat (t - s) < 1" for t using that assms(5,6) unfolding z by blast
  moreover have "unat (c_sector ?c - s) < 1 \<longleftrightarrow> isCached ?c s" unfolding z isCached_def by blast
  ultimately show ?thesis using direct_write [OF assms(2) b, of d b "isCached ?c s"] by blast
qed

text \<open>A data sector in the cache, to be written: its bytes, or anything when it is only reserved.\<close>

lemma prepare_reserve:
  assumes "dev_works D M" "vol_ok M v" "s \<notin> fat2 v" "s \<noteq> 0xFFFFFFFF" "s \<notin> fat1 v" "c_sector (v_cache v) \<noteq> s"
  shows "\<exists>v'. dataCachePrepare D s CACHE_RESERVE_FOR_WRITE v = (True, v') \<and> vol_ok M v' \<and>
    (\<exists>c. v' = v\<lparr>v_cache := c\<rparr>) \<and> (\<forall>t. t \<notin> fat2 v \<longrightarrow> t \<noteq> s \<longrightarrow> store M v' t = store M v t) \<and>
    c_sector (v_cache v') = s \<and> cache_isDirty (v_cache v')"
proof -
  obtain c where c: "FsCache_sync D (v_cache v) = (True, c)" "vol_ok M (v\<lparr>v_cache := c\<rparr>)"
    "same_store M v (v\<lparr>v_cache := c\<rparr>)" "\<not> cache_isDirty c" using sync_keeps [OF assms(1,2)] by blast
  let ?c = "c\<lparr>c_status := 1, c_sector := s\<rparr>"
  have coh: "coherent M c" and g: "geo_ok v" using c(2) by (simp_all add: vol_ok_def)
  have d: "cache_isDirty ?c" by (simp add: cache_isDirty_def)
  have cc: "coherent M ?c" using coh d assms(4) by (simp add: coherent_def)
  have vw: "view M ?c t = view M c t" if "t \<noteq> s" for t
    using that coherent_clean [OF coh c(4)] by (simp add: view_def)
  have "view M ?c (t + v_sectorsPerFat v) = view M ?c t" if t: "t \<in> fat1 v" for t
  proof -
    have "t + v_sectorsPerFat v \<in> fat2 v" using t by (auto simp: fat2_def)
    then have "t + v_sectorsPerFat v \<noteq> s" "t \<noteq> s" using assms(3,5) t by auto
    moreover have "view M c (t + v_sectorsPerFat v) = view M c t" using c(2,4) t by (simp add: vol_ok_def)
    ultimately show ?thesis by (simp add: vw)
  qed
  moreover have "\<not> bit (1 :: byte) 1" by (simp add: bit_1_iff)
  ultimately have "vol_ok M (v\<lparr>v_cache := ?c\<rparr>)" using c(2) cc by (simp add: vol_ok_def)
  moreover have "dataCachePrepare D s 5 v = (True, v\<lparr>v_cache := ?c\<rparr>)"
    using assms(2,6) c(1) by (simp add: dataCachePrepare_def FsCache_prepare_def vol_ok_def coherent_def Let_def)
  ultimately show ?thesis using d vw c(3) by (intro exI [of _ "v\<lparr>v_cache := ?c\<rparr>"]) (auto simp: same_store_def)
qed

lemma prepare_write:
  assumes "dev_works D M" "vol_ok M v" "s \<notin> fat2 v" "s \<noteq> 0xFFFFFFFF" "s \<notin> fat1 v"
    and "opt = CACHE_FOR_WRITE \<or> opt = CACHE_RESERVE_FOR_WRITE"
  shows "\<exists>v'. dataCachePrepare D s opt v = (True, v') \<and> vol_ok M v' \<and> (\<exists>c. v' = v\<lparr>v_cache := c\<rparr>) \<and>
    (\<forall>t. t \<notin> fat2 v \<longrightarrow> t \<noteq> s \<longrightarrow> store M v' t = store M v t) \<and> c_sector (v_cache v') = s \<and>
    cache_isDirty (v_cache v') \<and> (opt = CACHE_FOR_WRITE \<longrightarrow> cached v' = store M v s)"
proof (cases "opt = CACHE_FOR_WRITE \<or> c_sector (v_cache v) = s")
  case True
  have "\<not> bit (1 :: byte) 1" by (simp add: bit_1_iff)
  then obtain v' where v': "dataCachePrepare D s 1 v = (True, v')" "vol_ok M v'" "same_store M v v'"
    "c_sector (v_cache v') = s" "cached v' = store M v s" "cache_isDirty (v_cache v')"
    using prepare_ok [OF assms(1-4), of 1] assms(5) by (auto simp: bit_1_iff)
  have "dataCachePrepare D s opt v = dataCachePrepare D s 1 v"
    using True assms(6) by (auto simp: dataCachePrepare_def FsCache_prepare_def)
  then show ?thesis using v' by (auto simp: same_store_def)
next
  case False
  then have "opt = CACHE_RESERVE_FOR_WRITE" "c_sector (v_cache v) \<noteq> s" using assms(6) by auto
  then show ?thesis using prepare_reserve [OF assms(1-5)] by auto
qed

lemma cached_write:
  assumes "dev_works D M" "vol_ok M v" "s \<notin> fat2 v" "s \<noteq> 0xFFFFFFFF" "s \<notin> fat1 v"
    and "opt = CACHE_FOR_WRITE \<or> opt = CACHE_RESERVE_FOR_WRITE" "off + length b \<le> 512"
  shows "\<exists>v1 B v2. dataCachePrepare D s opt v = (True, v1) \<and>
    (if full then cacheSyncData D (set_cached (put_at off b (cached v1)) v1)
     else (True, set_cached (put_at off b (cached v1)) v1)) = (True, v2) \<and>
    length B = 512 \<and> (opt = CACHE_FOR_WRITE \<longrightarrow> B = store M v s) \<and> vol_ok M v2 \<and>
    stored M v v2 ((store M v)(s := put_at off b B))"
proof -
  obtain v1 c where v1: "dataCachePrepare D s opt v = (True, v1)" "vol_ok M v1" "v1 = v\<lparr>v_cache := c\<rparr>"
    "\<forall>t. t \<notin> fat2 v \<longrightarrow> t \<noteq> s \<longrightarrow> store M v1 t = store M v t" "c_sector (v_cache v1) = s"
    "cache_isDirty (v_cache v1)" "opt = CACHE_FOR_WRITE \<longrightarrow> cached v1 = store M v s"
    using prepare_write [OF assms(1-6)] by blast
  let ?v = "set_cached (put_at off b (cached v1)) v1"
  have L: "length (cached v1) = 512" using v1(2) by (simp add: vol_ok_def coherent_def)
  have f: "fat2 v1 = fat2 v" "fat1 v1 = fat1 v" using v1(3) by simp_all
  have w: "vol_ok M ?v" "store M ?v = (store M v1)(s := put_at off b (cached v1))"
    using set_cached_ok [OF v1(2,6,5), of "put_at off b (cached v1)"] f assms(3,5,7) L by auto
  then have st: "stored M v ?v ((store M v)(s := put_at off b (cached v1)))"
    using v1(3,4) by (auto simp: stored_def set_cached_def)
  obtain c2 where c2: "FsCache_sync D (v_cache ?v) = (True, c2)" "vol_ok M (?v\<lparr>v_cache := c2\<rparr>)"
    "same_store M ?v (?v\<lparr>v_cache := c2\<rparr>)" using sync_keeps [OF assms(1) w(1)] by blast
  then have "cacheSyncData D ?v = (True, ?v\<lparr>v_cache := c2\<rparr>)" by (simp add: cacheSyncData_def)
  then show ?thesis using v1(1,7) L w(1) st c2(2) stored_same [OF st c2(3)] by (cases full) auto
qed

section \<open>Replacing blocks\<close>

lemma blocks_update:
  assumes "\<And>i. i < N \<Longrightarrow> length (g i) = k" "\<And>i. i < N \<Longrightarrow> length (h i) = k" "j + n \<le> N"
    and "\<And>i. i < N \<Longrightarrow> i < j \<or> j + n \<le> i \<Longrightarrow> h i = g i"
  shows "concat (map h [0..<N]) =
    put_at (k * j) (concat (map (\<lambda>i. h (j + i)) [0..<n])) (concat (map g [0..<N]))"
proof -
  let ?H = "concat (map h [0..<N])" and ?G = "concat (map g [0..<N])"
  have lh: "\<forall>x \<in> set (map h [0..<N]). length x = k" and lg: "\<forall>x \<in> set (map g [0..<N]). length x = k"
    using assms(1,2) by auto
  have t: "take (k * j) ?H = take (k * j) ?G"
    unfolding take_blocks [OF lh] take_blocks [OF lg] using assms(3,4)
    by (intro arg_cong [of _ _ concat]) (auto simp: take_map)
  have d: "drop (k * (j + n)) ?H = drop (k * (j + n)) ?G"
    unfolding drop_blocks [OF lh] drop_blocks [OF lg] using assms(3,4)
    by (intro arg_cong [of _ _ concat]) (auto simp: drop_map)
  have m: "take (k * n) (drop (k * j) ?H) = concat (map (\<lambda>i. h (j + i)) [0..<n])"
    using assms(3) by (subst slice_of_blocks [OF lh]) (auto intro!: arg_cong [of _ _ concat])
  have "length ?H = k * N" using length_blocks [OF lh] by simp
  moreover have "k * j + k * n \<le> k * N" using assms(3) by (metis add_mult_distrib2 mult_le_mono2)
  ultimately have l: "length (concat (map (\<lambda>i. h (j + i)) [0..<n])) = k * n" unfolding m [symmetric] by simp
  have "?H = take (k * j) ?H @ take (k * n) (drop (k * j) ?H) @ drop (k * n) (drop (k * j) ?H)"
    by (metis append_take_drop_id)
  then show ?thesis using t d m l by (simp add: put_at_def add.commute distrib_left)
qed

lemma put_at_compose: "p \<le> length xs \<Longrightarrow> put_at (p + length a) b (put_at p a xs) = put_at p (a @ b) xs"
  by (simp add: put_at_def ac_simps)

lemma put_at_visible:
  assumes "p + length b \<le> length xs"
  shows "take (max s (p + length b)) (put_at p b xs) = put_at p b (take (max s p) xs)"
proof -
  have "max s (p + length b) - (p + length b) = max s p - (p + length b)" by simp
  moreover have "min p (max s p) = p" by simp
  ultimately show ?thesis using assms by (simp add: put_at_def drop_take min.absorb2)
qed

lemma put_at_garbage:
  assumes "p \<le> length xs" "s \<le> p"
  shows "take (max s (p + length b)) (put_at p (b @ g) xs) = put_at p b (take (max s p) xs)"
  using assms by (simp add: put_at_def max_def min_def)

lemma put_at_block:
  assumes "off + length b \<le> k" "k * j + k \<le> length xs"
  shows "put_at (k * j) (put_at off b (take k (drop (k * j) xs))) xs = put_at (k * j + off) b xs"
proof -
  have "take (k * j + off) xs = take (k * j) xs @ take off (take k (drop (k * j) xs))"
    using assms by (simp add: take_add min_def)
  moreover have "drop (k * j + off + length b) xs = drop (off + length b) (take k (drop (k * j) xs)) @ drop (k * j + k) xs"
  proof -
    have "drop (off + length b) (drop (k * j) xs) = drop (k * j + off + length b) xs" by (simp add: ac_simps)
    then have "drop (k * j + off + length b) xs = drop (off + length b) (take k (drop (k * j) xs) @ drop k (drop (k * j) xs))"
      by (simp only: append_take_drop_id)
    then show ?thesis using assms by (simp add: add.commute)
  qed
  moreover have "length (put_at off b (take k (drop (k * j) xs))) = k" using assms by simp
  ultimately show ?thesis by (simp add: put_at_def add.assoc)
qed

section \<open>Writing the sectors of a chain\<close>

lemma cluster_sector_inj:
  assumes "data_ok v" "valid_cluster v c" "valid_cluster v d" "i < spc v" "k < spc v"
    and "clusterStartSector v c + word_of_nat i = clusterStartSector v d + word_of_nat k"
  shows "c = d \<and> i = k"
proof -
  have "(unat c - 2) * spc v + i = (unat d - 2) * spc v + k"
    using arg_cong [OF assms(6), of unat] unfolding unat_cluster_sector [OF assms(1,2,4)] unat_cluster_sector [OF assms(1,3,5)]
    by simp
  moreover have "(a * s + b) div s = a \<and> (a * s + b) mod s = b" if "b < s" for a b s :: nat using that by simp
  ultimately have "unat c - 2 = unat d - 2 \<and> i = k" using assms(4,5) by metis
  moreover have "2 \<le> unat c" "2 \<le> unat d" using assms(2,3) by (simp_all add: valid_cluster_def word_le_nat_alt)
  ultimately have "unat c = unat d \<and> i = k" by linarith
  then show ?thesis by (simp add: word_unat_eq_iff)
qed

lemma chain_sector_inj:
  assumes "data_ok v" "\<forall>c \<in> set cs. valid_cluster v c" "distinct cs" "i < length cs * spc v" "k < length cs * spc v"
    and "chain_sector v cs i = chain_sector v cs k"
  shows "i = k"
proof -
  note I = chain_sector_index [OF assms(4)] and K = chain_sector_index [OF assms(5)]
  have "cs ! (i div spc v) = cs ! (k div spc v) \<and> i mod spc v = k mod spc v"
    by (rule cluster_sector_inj [OF assms(1) _ _ I(2) K(2)]) (use assms(2,6) I K in \<open>auto simp: chain_sector_def\<close>)
  then have "i div spc v = k div spc v \<and> i mod spc v = k mod spc v"
    using nth_eq_iff_index_eq [OF assms(3) I(1) K(1)] by simp
  then show ?thesis by (metis div_mult_mod_eq)
qed

lemma chain_sector_data:
  assumes "data_ok v" "geo_ok v" "\<forall>c \<in> set cs. valid_cluster v c" "i < length cs * spc v"
  shows "chain_sector v cs i \<notin> fat1 v" "chain_sector v cs i \<notin> fat2 v" "chain_sector v cs i \<noteq> 0xFFFFFFFF"
  using cluster_sector_data [OF assms(1,2) _ chain_sector_index(2) [OF assms(4)], of "cs ! (i div spc v)"]
    chain_sector_index(1) [OF assms(4)] assms(3) by (simp_all add: chain_sector_def)

text \<open>A run of sectors within one cluster of the chain.\<close>

definition run_of :: "'d fatvol \<Rightarrow> 32 word list \<Rightarrow> nat \<Rightarrow> nat \<Rightarrow> bool" where
  "run_of v cs j k \<longleftrightarrow> j mod spc v + k \<le> spc v \<and> j + k \<le> length cs * spc v"

lemma run_sector:
  assumes "run_of v cs j k" "unat (t - chain_sector v cs j) < k"
  shows "t = chain_sector v cs (j + unat (t - chain_sector v cs j))" "j + unat (t - chain_sector v cs j) < length cs * spc v"
proof -
  let ?m = "unat (t - chain_sector v cs j)"
  have "chain_sector v cs (j + ?m) = chain_sector v cs j + word_of_nat ?m"
    using assms by (intro chain_sector_next) (simp add: run_of_def)
  then show "t = chain_sector v cs (j + ?m)" by simp
  show "j + ?m < length cs * spc v" using assms by (simp add: run_of_def)
qed

lemma run_end:
  assumes "data_ok v" "geo_ok v" "\<forall>c \<in> set cs. valid_cluster v c" "run_of v cs j k" "0 < k"
  shows "unat (chain_sector v cs j) + k \<le> 2 ^ 32 - 1"
proof -
  let ?c = "cs ! (j div spc v)" and ?r = "j mod spc v"
  have j: "j < length cs * spc v" and rk: "?r + (k - 1) < spc v" using assms(4,5) by (auto simp: run_of_def)
  have c: "valid_cluster v ?c" using chain_sector_index(1) [OF j] assms(3) by simp
  let ?w = "clusterStartSector v ?c + word_of_nat (?r + (k - 1))"
  have "?w \<noteq> 0xFFFFFFFF" by (rule cluster_sector_data(3) [OF assms(1,2) c rk])
  then have "unat ?w \<noteq> 2 ^ 32 - 1" using word_unat_eq_iff [of ?w "0xFFFFFFFF"] by simp
  moreover have "unat ?w < 2 ^ 32" using unat_bound [of ?w] by simp
  moreover have "unat ?w = unat (chain_sector v cs j) + (k - 1)"
    using unat_cluster_sector [OF assms(1) c rk] unat_cluster_sector [OF assms(1) c chain_sector_index(2) [OF j]]
    by (simp add: chain_sector_def)
  ultimately show ?thesis using assms(5) by linarith
qed

text \<open>What such a write does to the bytes of the chain and to everything else.\<close>

lemma stored_geometry:
  assumes "stored M v v' g"
  shows "spc v' = spc v" "data_ok v' = data_ok v" "chain_sector v' = chain_sector v"
    "clusterStartSector v' = clusterStartSector v" "valid_cluster v' = valid_cluster v" "isEOC v' = isEOC v"
    "sectorOfCluster v' = sectorOfCluster v" "search_ok v' = search_ok v"
  using assms by (auto simp: stored_def spc_def data_ok_def chain_sector_def clusterStartSector_def
    valid_cluster_def isEOC_def sectorOfCluster_def search_ok_def fun_eq_iff)

lemma stored_ent:
  assumes "stored M v v' g" "geo_ok v" "\<And>t. t \<in> fat1 v \<Longrightarrow> g t = store M v t" "valid_cluster v c"
  shows "ent M v' c = ent M v c"
proof -
  have f: "fat_sector v c \<in> fat1 v" by (rule fat_sector_fat1 [OF assms(2,4)])
  then have "store M v' (fat_sector v c) = store M v (fat_sector v c)"
    using assms(1,3) fat_disjoint(1) [OF assms(2) f] by (auto simp: stored_def)
  moreover have "fat_sector v' c = fat_sector v c" "fat_offset v' c = fat_offset v c" "v_fatType v' = v_fatType v"
    using assms(1) by (auto simp: stored_def fat_sector_def fat_offset_def entries_per_sector_def)
  ultimately show ?thesis by (simp add: ent_def Let_def)
qed

text \<open>
  A chain changes from \<open>cs\<close> to \<open>cs'\<close> and everything else is kept: the geometry of the volume, and every chain that
  does not meet \<open>cs\<close>, with its bytes; such a chain does not meet \<open>cs'\<close>.
\<close>

definition others_kept :: "('d \<Rightarrow> 32 word \<Rightarrow> byte list) \<Rightarrow> 'd fatvol \<Rightarrow> 'd fatvol \<Rightarrow> 32 word list \<Rightarrow> 32 word list \<Rightarrow> bool" where
  "others_kept M v v' cs cs' \<longleftrightarrow> (\<exists>c a. v' = v\<lparr>v_cache := c, v_allocSearchStart := a\<rparr>) \<and>
     (\<forall>xs. chain M v xs \<and> set xs \<inter> set cs = {} \<longrightarrow> chain M v' xs \<and> set xs \<inter> set cs' = {} \<and> chain_bytes M v' xs = chain_bytes M v xs)"

lemma write_run_bytes:
  assumes "data_ok v" "\<forall>c \<in> set cs. valid_cluster v c" "distinct cs" "geo_ok v" "run_of v cs j k" "length b = 512 * k"
    and "dev_works D M" "coherent M (v_cache v)" "coherent M (v_cache v')"
    and "stored M v v' (put_sectors (chain_sector v cs j) k b (store M v))"
  shows "chain_bytes M v' cs = put_at (512 * j) b (chain_bytes M v cs)"
proof -
  let ?N = "length cs * spc v" and ?s = "chain_sector v cs j"
  note G = stored_geometry [OF assms(10)]
  have jk: "j + k \<le> ?N" using assms(5) by (simp add: run_of_def)
  have st: "store M v' (chain_sector v cs i) = put_sectors ?s k b (store M v) (chain_sector v cs i)" if "i < ?N" for i
    using assms(10) chain_sector_data(2) [OF assms(1,4,2) that] by (simp add: stored_def)
  have out: "store M v' (chain_sector v cs i) = store M v (chain_sector v cs i)" if "i < ?N" "i < j \<or> j + k \<le> i" for i
  proof -
    have "\<not> unat (chain_sector v cs i - ?s) < k"
    proof
      assume m: "unat (chain_sector v cs i - ?s) < k"
      note R = run_sector [OF assms(5) m]
      have "i = j + unat (chain_sector v cs i - ?s)"
        using chain_sector_inj [OF assms(1-3) that(1) R(2) R(1)] .
      then show False using that(2) m by linarith
    qed
    then show ?thesis using st [OF that(1)] by (simp add: put_sectors_def)
  qed
  have ins: "store M v' (chain_sector v cs (j + i)) = take 512 (drop (512 * i) b)" if "i < k" for i
  proof -
    have "chain_sector v cs (j + i) = ?s + word_of_nat i"
      using assms(5) that by (intro chain_sector_next) (simp add: run_of_def)
    moreover have "unat (word_of_nat i :: 32 word) = i"
      using that assms(5) spc_bound [OF assms(1)] by (simp add: unat_of_nat run_of_def)
    ultimately have "unat (chain_sector v cs (j + i) - ?s) = i" by simp
    then show ?thesis using st [of "j + i"] that jk by (simp add: put_sectors_def)
  qed
  have "chain_bytes M v' cs =
      put_at (512 * j) (concat (map (\<lambda>i. store M v' (chain_sector v cs (j + i))) [0..<k])) (chain_bytes M v cs)"
    unfolding chain_bytes_def G
    by (rule blocks_update) (use out jk assms(7-9) in \<open>auto simp: store_length\<close>)
  also have "concat (map (\<lambda>i. store M v' (chain_sector v cs (j + i))) [0..<k]) = concat (map (\<lambda>i. take 512 (drop (512 * i) b)) [0..<k])"
    using ins by (intro arg_cong [of _ _ concat] map_cong) auto
  also have "\<dots> = b" using assms(6)
  proof (induction k arbitrary: b)
    case (Suc k)
    have "[0..<Suc k] = 0 # map Suc [0..<k]" by (simp add: map_Suc_upt upt_conv_Cons)
    then have "concat (map (\<lambda>i. take 512 (drop (512 * i) b)) [0..<Suc k]) =
        take 512 b @ concat (map (\<lambda>i. take 512 (drop (512 * i) (drop 512 b))) [0..<k])"
      by (simp add: comp_def add.commute)
    also have "concat (map (\<lambda>i. take 512 (drop (512 * i) (drop 512 b))) [0..<k]) = drop 512 b"
      by (rule Suc.IH) (use Suc.prems in simp)
    finally show ?case by simp
  qed simp
  finally show ?thesis .
qed

lemma write_run_others:
  assumes "data_ok v" "\<forall>c \<in> set cs. valid_cluster v c" "geo_ok v" "run_of v cs j k"
    and "stored M v v' (put_sectors (chain_sector v cs j) k b (store M v))"
  shows "valid_cluster v c \<Longrightarrow> ent M v' c = ent M v c" "others_kept M v v' cs cs"
    "(\<forall>c \<in> set xs. valid_cluster v c) \<Longrightarrow> chain M v' xs = chain M v xs"
proof -
  let ?s = "chain_sector v cs j"
  note G = stored_geometry [OF assms(5)]
  have e: "ent M v' c = ent M v c" if "valid_cluster v c" for c
  proof (rule stored_ent [OF assms(5,3) _ that])
    fix t assume t: "t \<in> fat1 v"
    have "\<not> unat (t - ?s) < k"
    proof
      assume "unat (t - ?s) < k"
      then show False using run_sector [OF assms(4)] chain_sector_data(1) [OF assms(1,3,2)] t by metis
    qed
    then show "put_sectors ?s k b (store M v) t = store M v t" by (simp add: put_sectors_def)
  qed
  then show "valid_cluster v c \<Longrightarrow> ent M v' c = ent M v c" .
  have ch: "chain M v' xs = chain M v xs" if "\<forall>c \<in> set xs. valid_cluster v c" for xs
    unfolding chain_def G using linked_cong [of xs "ent M v'" "ent M v"] e that by auto
  then show "(\<forall>c \<in> set xs. valid_cluster v c) \<Longrightarrow> chain M v' xs = chain M v xs" .
  have "chain_bytes M v' xs = chain_bytes M v xs" if x: "chain M v xs" "set xs \<inter> set cs = {}" for xs
  proof -
    have vx: "\<forall>c \<in> set xs. valid_cluster v c" using x(1) by (simp add: chain_def)
    have "store M v' (chain_sector v xs i) = store M v (chain_sector v xs i)" if i: "i < length xs * spc v" for i
    proof -
      note I = chain_sector_index [OF i]
      have "\<not> unat (chain_sector v xs i - ?s) < k"
      proof
        assume m: "unat (chain_sector v xs i - ?s) < k"
        note R = run_sector [OF assms(4) m]
        note L = chain_sector_index [OF R(2)]
        have "xs ! (i div spc v) = cs ! ((j + unat (chain_sector v xs i - ?s)) div spc v)"
          using cluster_sector_inj [OF assms(1) _ _ I(2) L(2)] R(1) I(1) L(1) vx assms(2) unfolding chain_sector_def by auto
        then show False using x(2) I(1) L(1) by (metis disjoint_iff nth_mem)
      qed
      then show ?thesis using assms(5) chain_sector_data(2) [OF assms(1,3) vx i] by (simp add: stored_def put_sectors_def)
    qed
    then show ?thesis unfolding chain_bytes_def G by (intro arg_cong [of _ _ concat] map_cong) auto
  qed
  moreover have "chain M v' xs" if "chain M v xs" for xs using ch that by (simp add: chain_def)
  moreover have "\<exists>c a. v' = v\<lparr>v_cache := c, v_allocSearchStart := a\<rparr>"
  proof -
    obtain c where "v' = v\<lparr>v_cache := c\<rparr>" using assms(5) by (auto simp: stored_def)
    then have "v' = v\<lparr>v_cache := c, v_allocSearchStart := v_allocSearchStart v\<rparr>" by simp
    then show ?thesis by blast
  qed
  ultimately show "others_kept M v v' cs cs" by (simp add: others_kept_def)
qed

end
