(* ===== verification/FileGrowth.thy ===== *)
theory FileGrowth
  imports DataWrites
begin

text \<open>
  One turn of the loop of \<open>FatFile::write\<close> (\<open>lib/SdFat/src/FatLib/FatFile.cpp\<close>): the piece of a sector or the run of sectors
  it writes, and the cluster that \<open>addCluster\<close> appends to the file when the position is at the end of its chain.
\<close>

section \<open>One turn of the write loop\<close>

text \<open>
  Bytes at \<open>p\<close> and below are replaced; what lies behind them and behind the size of the file may be anything.
\<close>

definition wrote :: "('d \<Rightarrow> 32 word \<Rightarrow> byte list) \<Rightarrow> 'd fatvol \<Rightarrow> 'd fatvol \<Rightarrow> 32 word list \<Rightarrow> nat \<Rightarrow> nat \<Rightarrow> byte list \<Rightarrow> bool" where
  "wrote M v v' cs s p b \<longleftrightarrow> vol_ok M v' \<and> data_ok v' \<and> (search_ok v \<longrightarrow> search_ok v') \<and> others_kept M v v' cs cs \<and>
     (\<forall>xs. (\<forall>c \<in> set xs. valid_cluster v c) \<longrightarrow> chain M v' xs = chain M v xs) \<and>
     take (max s (p + length b)) (chain_bytes M v' cs) = put_at p b (take (max s p) (chain_bytes M v cs))"

lemma write_sectors_wrote:
  assumes "dev_works D M" "vol_ok M v" "data_ok v" "\<forall>c \<in> set cs. valid_cluster v c" "distinct cs" "run_of v cs j k"
    and "length b = 512 * k" "vol_ok M v'" "stored M v v' (put_sectors (chain_sector v cs j) k b (store M v))"
  shows "wrote M v v' cs s (512 * j) b" "chain_bytes M v' cs = put_at (512 * j) b (chain_bytes M v cs)"
proof -
  have g: "geo_ok v" and coh: "coherent M (v_cache v)" "coherent M (v_cache v')"
    using assms(2,8) by (simp_all add: vol_ok_def)
  show c: "chain_bytes M v' cs = put_at (512 * j) b (chain_bytes M v cs)"
    by (rule write_run_bytes [OF assms(3-5) g assms(6,7,1) coh assms(9)])
  have "512 * (j + k) \<le> 512 * (length cs * spc v)" using assms(6) unfolding run_of_def by (intro mult_le_mono2) simp
  then have "512 * j + length b \<le> length (chain_bytes M v cs)"
    unfolding length_chain_bytes [OF assms(1) coh(1)] assms(7) by (simp add: add_mult_distrib2)
  then show "wrote M v v' cs s (512 * j) b"
    using write_run_others [OF assms(3,4) g assms(6,9)] stored_geometry(2,8) [OF assms(9)] assms(3,8)
    by (simp add: wrote_def c put_at_visible)
qed

lemma write_sector_wrote:
  assumes "dev_works D M" "vol_ok M v" "data_ok v" "\<forall>c \<in> set cs. valid_cluster v c" "distinct cs"
    and "p div 512 < length cs * spc v" "p mod 512 + length b \<le> 512" "length B = 512" "vol_ok M v'"
    and "stored M v v' ((store M v)(chain_sector v cs (p div 512) := put_at (p mod 512) b B))"
    and "B = store M v (chain_sector v cs (p div 512)) \<or> p mod 512 = 0 \<and> s \<le> p"
  shows "wrote M v v' cs s p b"
proof -
  let ?j = "p div 512" and ?B = "put_at (p mod 512) b B" and ?C = "chain_bytes M v cs"
  have coh: "coherent M (v_cache v)" using assms(2) by (simp add: vol_ok_def)
  have r: "run_of v cs ?j 1" using assms(6) by (auto simp: run_of_def Suc_le_eq)
  have lB: "length ?B = 512 * 1" using assms(7,8) by simp
  have one: "put_sectors t 1 ?B m = m(t := ?B)" for t m using lB by (auto simp: put_sectors_def fun_eq_iff unat_eq_zero)
  have st: "stored M v v' (put_sectors (chain_sector v cs ?j) 1 ?B (store M v))" unfolding one by (rule assms(10))
  note W = write_sectors_wrote [OF assms(1-5) r lB assms(9) st]
  have L: "length ?C = 512 * (length cs * spc v)" by (rule length_chain_bytes [OF assms(1) coh])
  have "512 * (?j + 1) \<le> 512 * (length cs * spc v)" using assms(6) by (intro mult_le_mono2) simp
  then have le: "512 * ?j + 512 \<le> length ?C" unfolding L by simp
  have p: "512 * ?j + p mod 512 = p" by simp
  then have pl: "p + length b \<le> length ?C" using le assms(7) by linarith
  have "take (max s (p + length b)) (chain_bytes M v' cs) = put_at p b (take (max s p) ?C)"
  proof (cases "B = store M v (chain_sector v cs ?j)")
    case True
    have "take 512 (drop (512 * ?j + 0) ?C) = take 512 (drop 0 (store M v (chain_sector v cs ?j)))"
      by (rule chain_slice [OF assms(1) coh assms(6)]) simp
    then have "B = take 512 (drop (512 * ?j) ?C)" using True store_length [OF assms(1) coh] by simp
    then have "put_at (512 * ?j) ?B ?C = put_at p b ?C" using put_at_block [OF assms(7) le] p by simp
    then show ?thesis using W(2) put_at_visible [OF pl] by simp
  next
    case False
    then have z: "p mod 512 = 0" "s \<le> p" using assms(11) by auto
    then have "512 * ?j = p" "?B = b @ drop (length b) B" using p by (auto simp: put_at_def)
    then show ?thesis using W(2) put_at_garbage [of p ?C s b "drop (length b) B"] pl z(2) by simp
  qed
  then show ?thesis using W(1) by (simp add: wrote_def)
qed

lemma run_length:
  assumes "R < (S :: nat)" "512 \<le> m" "K = (if m \<ge> 1024 then min (S - R) (m div 512) else 1)"
  shows "0 < K \<and> R + K \<le> S \<and> 512 * K \<le> m"
  using assms by (auto simp: min_def)

lemma write_piece_spec:
  assumes "dev_works D M" "vol_ok M v" "data_ok v" "\<forall>c \<in> set cs. valid_cluster v c" "distinct cs" "\<not> isRootFixed f"
    "\<not> has_flag FILE_FLAG_PREALLOCATE f" "src \<noteq> []" "length src < 2 ^ 16"
    "unat (f_curPosition f) < bpc v * length cs" "f_curCluster f = cs ! (unat (f_curPosition f) div bpc v)"
  shows "\<exists>n v'. write_piece D src f v = (Some n, v') \<and> 0 < n \<and> n \<le> length src \<and>
    unat (f_curPosition f) mod bpc v + n \<le> bpc v \<and>
    wrote M v v' cs (unat (f_fileSize f)) (unat (f_curPosition f)) (take n src)"
proof -
  define p where "p = unat (f_curPosition f)"
  define s where "s = chain_sector v cs (p div 512)"
  let ?m = "length src" and ?r = "p div 512 mod spc v" and ?sz = "unat (f_fileSize f)"
  have g: "geo_ok v" using assms(2) by (simp add: vol_ok_def)
  have lt: "p < 512 * (length cs * spc v)" using assms(10) by (simp add: p_def ac_simps)
  then have j: "p div 512 < length cs * spc v" by (simp add: less_mult_imp_div_less mult.commute)
  note sec = chain_sector_data [OF assms(3) g assms(4) j, folded s_def]
  have off: "unat (f_curPosition f AND 0x1FF) = p mod 512" by (simp add: unat_low9 p_def)
  have soc: "unat (sectorOfCluster v (f_curPosition f)) = ?r" using unat_sectorOfCluster [OF assms(3)] by (simp add: p_def)
  have here: "clusterStartSector v (f_curCluster f) + ucast (sectorOfCluster v (f_curPosition f)) = s"
  proof -
    have "ucast (sectorOfCluster v (f_curPosition f)) = (word_of_nat ?r :: 32 word)" by (simp flip: soc)
    then show ?thesis using assms(11) by (simp add: s_def chain_sector_def byte_cluster p_def)
  qed
  have pm: "p mod bpc v = 512 * ?r + p mod 512" by (rule mod_mult2_eq)
  have rl: "?r < spc v" by simp
  have goal: "p mod bpc v + n \<le> bpc v" if "p mod 512 + n \<le> 512 * k" "?r + k \<le> spc v" for n k
  proof -
    have "512 * (?r + k) \<le> bpc v" using that(2) by (rule mult_le_mono2)
    then show ?thesis using that(1) unfolding pm add_mult_distrib2 by linarith
  qed
  show ?thesis
  proof (cases "p mod 512 \<noteq> 0 \<or> ?m < 512")
    case True
    define n where "n = min (512 - p mod 512) ?m"
    have "p mod 512 < 512" by simp
    then have n: "0 < n" "n \<le> ?m" "p mod 512 + n \<le> 512" using assms(8) by (auto simp: n_def)
    have ln: "length (take n src) = n" using n(2) by simp
    define opt :: byte where "opt = (if p mod 512 = 0 \<and> f_curPosition f \<ge> f_fileSize f then CACHE_RESERVE_FOR_WRITE else CACHE_FOR_WRITE)"
    have o: "opt = CACHE_FOR_WRITE \<or> opt = CACHE_RESERVE_FOR_WRITE" by (simp add: opt_def)
    have ll: "p mod 512 + length (take n src) \<le> 512" using n(3) ln by simp
    obtain v1 B v2 where w: "dataCachePrepare D s opt v = (True, v1)"
      "(if 512 = n + p mod 512 then cacheSyncData D (set_cached (put_at (p mod 512) (take n src) (cached v1)) v1)
        else (True, set_cached (put_at (p mod 512) (take n src) (cached v1)) v1)) = (True, v2)"
      "length B = 512" "opt = CACHE_FOR_WRITE \<longrightarrow> B = store M v s" "vol_ok M v2"
      "stored M v v2 ((store M v)(s := put_at (p mod 512) (take n src) B))"
      using cached_write [OF assms(1,2) sec(2,3,1) o ll, of "512 = n + p mod 512"] by blast
    have "write_piece D src f v = (Some n, v2)"
      unfolding write_piece_def Let_def here off
      using True assms(7) w(1,2) unfolding n_def [symmetric] opt_def by simp
    moreover have "wrote M v v2 cs ?sz p (take n src)"
    proof (rule write_sector_wrote [OF assms(1-5) j _ w(3,5)])
      show "p mod 512 + length (take n src) \<le> 512" by (rule ll)
      show "stored M v v2 ((store M v)(chain_sector v cs (p div 512) := put_at (p mod 512) (take n src) B))"
        using w(6) by (simp add: s_def)
      show "B = store M v (chain_sector v cs (p div 512)) \<or> p mod 512 = 0 \<and> ?sz \<le> p"
        using w(4) by (auto simp: opt_def s_def p_def word_le_nat_alt split: if_splits)
    qed
    ultimately show ?thesis using n goal [of n 1] rl by (auto simp: p_def Suc_le_eq)
  next
    case False
    define k where "k = (if ?m \<ge> 1024 then min (spc v - ?r) (?m div 512) else 1)"
    have "512 \<le> ?m" using False by simp
    then have k: "0 < k" "?r + k \<le> spc v" "512 * k \<le> ?m" using run_length [OF rl _ k_def] by blast+
    have p: "512 * (p div 512) = p" using False by auto
    have run: "run_of v cs (p div 512) k"
    proof -
      have q: "p div 512 div spc v < length cs" by (rule chain_sector_index(1) [OF j])
      have "p div 512 + k = spc v * (p div 512 div spc v) + (?r + k)" by simp
      also have "\<dots> \<le> spc v * (p div 512 div spc v) + spc v" using k(2) by (rule add_left_mono)
      also have "\<dots> = spc v * Suc (p div 512 div spc v)" by simp
      also have "\<dots> \<le> spc v * length cs" using q by (intro mult_le_mono2) simp
      finally show ?thesis using k(2) by (simp add: run_of_def mult.commute)
    qed
    have lb: "length (take (512 * k) src) = 512 * k" using k(3) by simp
    obtain c where c: "(if ?m \<ge> 1024 then cacheSafeWrites D s (take (512 * k) src) k (v_cache v)
          else cacheSafeWrite D s (take 512 src) (v_cache v)) = (True, c)"
      "vol_ok M (v\<lparr>v_cache := c\<rparr>)" "stored M v (v\<lparr>v_cache := c\<rparr>) (put_sectors s k (take (512 * k) src) (store M v))"
    proof (cases "?m \<ge> 1024")
      case True
      have d: "t \<notin> fat1 v \<and> t \<notin> fat2 v" if "unat (t - s) < k" for t
        using run_sector [OF run that [unfolded s_def]] chain_sector_data [OF assms(3) g assms(4)] by metis
      have e: "unat s + k \<le> 2 ^ 32 - 1" unfolding s_def by (rule run_end [OF assms(3) g assms(4) run k(1)])
      show ?thesis using that safe_writes [OF assms(1,2) e lb d] True by auto
    next
      case False
      then have "k = 1" by (simp add: k_def)
      then show ?thesis using that safe_write [OF assms(1,2) sec(3) _ sec(1,2), of "take 512 src"] lb False by auto
    qed
    have ps: "?m \<ge> 1024 \<Longrightarrow> piece_sectors (sectorOfCluster v (f_curPosition f)) ?m f v = k"
      using piece_sectors_min [OF assms(3,6,9)] by (simp add: k_def p_def)
    have "write_piece D src f v = (Some (512 * k), v\<lparr>v_cache := c\<rparr>)"
    proof (cases "?m \<ge> 1024")
      case True
      then show ?thesis unfolding write_piece_def Let_def here off
        using False c(1) ps [OF True] assms(6) by (simp add: piece_sectors_def Let_def)
    next
      case small: False
      then have "k = 1" by (simp add: k_def)
      then show ?thesis unfolding write_piece_def Let_def here off using False c(1) small by simp
    qed
    moreover have "wrote M v (v\<lparr>v_cache := c\<rparr>) cs ?sz p (take (512 * k) src)"
      using write_sectors_wrote(1) [OF assms(1-5) run lb c(2) c(3) [unfolded s_def], of ?sz] p by simp
    ultimately show ?thesis using k goal [of "512 * k" k] False by (auto simp: p_def)
  qed
qed

section \<open>Adding a cluster\<close>

lemma fat_now_geometry:
  assumes "fat_now M g v v'"
  shows "spc v' = spc v" "data_ok v' = data_ok v" "chain_sector v' = chain_sector v" "sectorOfCluster v' = sectorOfCluster v"
  using assms by (auto simp: fat_now_def spc_def data_ok_def chain_sector_def clusterStartSector_def sectorOfCluster_def fun_eq_iff)

lemma fat_now_bytes:
  assumes "fat_now M g v v'" "data_ok v" "geo_ok v" "\<forall>c \<in> set xs. valid_cluster v c"
  shows "chain_bytes M v' xs = chain_bytes M v xs"
proof -
  have "store M v' (chain_sector v xs i) = store M v (chain_sector v xs i)" if "i < length xs * spc v" for i
    using chain_sector_data(1,2) [OF assms(2-4) that] assms(1) by (simp add: fat_now_def)
  then show ?thesis unfolding chain_bytes_def fat_now_geometry [OF assms(1)]
    by (intro arg_cong [of _ _ concat] map_cong) auto
qed

lemma chain_bytes_append: "\<exists>xs. chain_bytes M v (cs @ ds) = chain_bytes M v cs @ xs"
proof -
  have "[0..<length (cs @ ds) * spc v] = [0..<length cs * spc v] @ [length cs * spc v..<length (cs @ ds) * spc v]"
    by (simp add: add_mult_distrib flip: upt_add_eq_append)
  moreover have "chain_sector v (cs @ ds) j = chain_sector v cs j" if "j < length cs * spc v" for j
    using chain_sector_index(1) [OF that] by (simp add: chain_sector_def nth_append)
  then have "concat (map (\<lambda>j. store M v (chain_sector v (cs @ ds) j)) [0..<length cs * spc v]) =
      concat (map (\<lambda>j. store M v (chain_sector v cs j)) [0..<length cs * spc v])"
    by (intro arg_cong [of _ _ concat] map_cong) auto
  ultimately show ?thesis unfolding chain_bytes_def by (metis map_append concat_append)
qed

text \<open>The access flags: all but those for a contiguous file and for a changed entry.\<close>

definition same_access :: "fatfile \<Rightarrow> fatfile \<Rightarrow> bool" where
  "same_access f f' \<longleftrightarrow> (\<forall>a. a AND (FILE_FLAG_CONTIGUOUS OR FILE_FLAG_DIR_DIRTY) = 0 \<longrightarrow> has_flag a f' = has_flag a f)"

text \<open>The file after its sector for the next byte was found, in terms of the file before.\<close>

definition located ::
    "('d \<Rightarrow> 32 word \<Rightarrow> byte list) \<Rightarrow> 'd fatvol \<Rightarrow> 'd fatvol \<Rightarrow> 32 word list \<Rightarrow> 32 word list \<Rightarrow> fatfile \<Rightarrow> fatfile \<Rightarrow> bool" where
  "located M v v' cs cs' f f' \<longleftrightarrow>
     vol_ok M v' \<and> data_ok v' \<and> search_ok v' \<and> spc v' = spc v \<and> others_kept M v v' cs cs' \<and>
     file_at M v' cs' (f'\<lparr>f_curCluster := f_curCluster f\<rparr>) \<and>
     f_curCluster f' = cs' ! (unat (f_curPosition f) div bpc v) \<and> unat (f_curPosition f) < bpc v * length cs' \<and>
     f_curPosition f' = f_curPosition f \<and> f_fileSize f' = f_fileSize f \<and>
     same_access f f' \<and>
     take (max (unat (f_fileSize f)) (unat (f_curPosition f))) (chain_bytes M v' cs') =
     take (max (unat (f_fileSize f)) (unat (f_curPosition f))) (chain_bytes M v cs)"

lemma file_at_chain: "file_at M v cs f \<Longrightarrow> cs \<noteq> [] \<Longrightarrow> chain M v cs"
  by (simp add: file_at_def)

lemma file_at_distinct: "file_at M v cs f \<Longrightarrow> distinct cs"
  by (cases "cs = []") (auto simp: file_at_def chain_def dest: linked_distinct)

lemma appended_kept:
  assumes "fat_inv D M v" "data_ok v" "valid_cluster v n" "ent M v n = 0" "fat_now M (appended M v current n) v v'"
    and "current = 0 \<or> current \<in> set cs"
  shows "others_kept M v v' cs (cs @ [n])"
proof -
  have g: "geo_ok v" using assms(1) by (simp add: fat_inv_def vol_ok_def)
  have "chain M v' xs \<and> set xs \<inter> set (cs @ [n]) = {} \<and> chain_bytes M v' xs = chain_bytes M v xs"
    if x: "chain M v xs" "set xs \<inter> set cs = {}" for xs
  proof -
    have vx: "\<forall>c \<in> set xs. valid_cluster v c" using x(1) by (simp add: chain_def)
    then have "current \<notin> set xs" using assms(6) x(2) by (auto simp: valid_cluster_def)
    then have "chain M v' xs \<and> n \<notin> set xs" by (rule appended_others [OF assms(1,3-5) x(1)])
    then show ?thesis using fat_now_bytes [OF assms(5,2) g vx] x(2) by auto
  qed
  then show ?thesis using assms(5) by (auto simp: others_kept_def fat_now_def)
qed

lemma grown_bytes:
  assumes "fat_inv D M v" "data_ok v" "\<forall>c \<in> set cs. valid_cluster v c" "fat_now M g v v'" "s \<le> bpc v * length cs"
  shows "take s (chain_bytes M v' (cs @ [n])) = take s (chain_bytes M v cs)"
proof -
  have g: "geo_ok v" and coh: "coherent M (v_cache v)" and dev: "dev_works D M"
    using assms(1) by (simp_all add: fat_inv_def vol_ok_def)
  obtain xs where "chain_bytes M v' (cs @ [n]) = chain_bytes M v' cs @ xs" using chain_bytes_append by blast
  moreover have "chain_bytes M v' cs = chain_bytes M v cs" by (rule fat_now_bytes [OF assms(4,2) g assms(3)])
  moreover have "s \<le> length (chain_bytes M v cs)" using assms(5) unfolding length_chain_bytes [OF dev coh] by (simp add: ac_simps)
  ultimately show ?thesis by simp
qed

lemma flag_facts:
  "has_flag a (set_flag b f) \<longleftrightarrow> has_flag a f \<or> a AND b \<noteq> 0"
  "a AND b = 0 \<Longrightarrow> has_flag a (clear_flag b f) = has_flag a f" "\<not> has_flag a (clear_flag a f)"
proof -
  have "(x OR b) AND a = (x AND a) OR (b AND a)" for x by (simp add: bit_eq_iff bit_simps) blast
  moreover have "x OR y = 0 \<longleftrightarrow> x = 0 \<and> y = 0" for x y :: byte by (auto simp: bit_eq_iff bit_simps)
  ultimately show "has_flag a (set_flag b f) \<longleftrightarrow> has_flag a f \<or> a AND b \<noteq> 0"
    by (simp add: has_flag_def set_flag_def and.commute)
  show "has_flag a (clear_flag b f) = has_flag a f" if "a AND b = 0"
  proof -
    have "(x AND NOT b) AND a = x AND a" for x
      using that by (simp add: bit_eq_iff bit_simps) blast
    then show ?thesis by (simp add: has_flag_def clear_flag_def)
  qed
  have "(x AND NOT a) AND a = 0" for x by (simp add: bit_eq_iff bit_simps)
  then show "\<not> has_flag a (clear_flag a f)" by (simp add: has_flag_def clear_flag_def)
qed

lemma flag_fields [simp]:
  "f_attributes (set_flag a f) = f_attributes f" "f_attributes (clear_flag a f) = f_attributes f"
  "f_curCluster (set_flag a f) = f_curCluster f" "f_curCluster (clear_flag a f) = f_curCluster f"
  "f_curPosition (set_flag a f) = f_curPosition f" "f_curPosition (clear_flag a f) = f_curPosition f"
  "f_fileSize (set_flag a f) = f_fileSize f" "f_fileSize (clear_flag a f) = f_fileSize f"
  "f_firstCluster (set_flag a f) = f_firstCluster f" "f_firstCluster (clear_flag a f) = f_firstCluster f"
  by (simp_all add: set_flag_def clear_flag_def)

text \<open>What a file on a chain depends on.\<close>

lemma file_at_cong:
  assumes "file_at M v cs f" "f_attributes g = f_attributes f" "f_firstCluster g = f_firstCluster f"
    "f_fileSize g = f_fileSize f" "f_curPosition g = f_curPosition f" "f_curCluster g = f_curCluster f"
    "isContiguous g \<Longrightarrow> isContiguous f"
  shows "file_at M v cs g"
  using assms by (auto simp: file_at_def isFile_def isDir_def isRootFixed_def isRoot32_def has_attr_def)

text \<open>A file whose chain was extended by one cluster.\<close>

lemma file_at_grow:
  assumes "file_at M v cs f" "chain M v' (cs @ [n])" "spc v' = spc v" "f_attributes g = f_attributes f"
    "f_firstCluster g = hd (cs @ [n])" "f_fileSize g = f_fileSize f" "f_curPosition g = f_curPosition f"
    "f_curCluster g = f_curCluster f" "isContiguous g \<Longrightarrow> cs = [] \<or> isContiguous f \<and> n = last cs + 1"
  shows "file_at M v' (cs @ [n]) g"
proof -
  have F: "isFile g" "\<not> isRootFixed g" "\<not> isRoot32 g" "\<not> isDir g" "unat (f_fileSize f) \<le> bpc v * length cs"
    "unat (f_curPosition f) \<le> bpc v * length cs"
    "f_curCluster f = (if f_curPosition f = 0 then 0 else cs ! ((unat (f_curPosition f) - 1) div bpc v))"
    "cs \<noteq> [] \<Longrightarrow> f_firstCluster f = hd cs" "isContiguous f \<Longrightarrow> \<forall>i < length cs. cs ! i = f_firstCluster f + word_of_nat i"
    using assms(1,4) by (auto simp: file_at_def isFile_def isDir_def isRootFixed_def isRoot32_def has_attr_def)
  have "(cs @ [n]) ! i = f_firstCluster g + word_of_nat i" if c: "isContiguous g" and i: "i < length (cs @ [n])" for i
  proof (cases "cs = []")
    case True
    then show ?thesis using i assms(5) by simp
  next
    case False
    then have k: "isContiguous f" "n = last cs + 1" "f_firstCluster g = f_firstCluster f" using assms(5,9) c F(8) by auto
    show ?thesis
    proof (cases "i < length cs")
      case True
      then show ?thesis using F(9) k by (simp add: nth_append)
    next
      case False
      then have e: "i = length cs" using i by simp
      have "last cs = f_firstCluster f + word_of_nat (length cs - 1)"
        using F(9) [OF k(1)] \<open>cs \<noteq> []\<close> by (simp add: last_conv_nth)
      moreover have "word_of_nat (length cs - 1) + 1 = (word_of_nat (length cs) :: 32 word)"
        using \<open>cs \<noteq> []\<close> by (metis Suc_pred' add.commute length_greater_0_conv of_nat_Suc)
      ultimately show ?thesis using k e by (simp add: add.assoc)
    qed
  qed
  moreover have "(cs @ [n]) ! ((unat (f_curPosition f) - 1) div bpc v) = cs ! ((unat (f_curPosition f) - 1) div bpc v)"
    if "f_curPosition f \<noteq> 0"
  proof -
    have "unat (f_curPosition f) - 1 < length cs * bpc v"
      using that F(6) unat_gt_0 [of "f_curPosition f"] by (simp add: mult.commute)
    then have "(unat (f_curPosition f) - 1) div bpc v < length cs" by (rule less_mult_imp_div_less)
    then show ?thesis by (simp add: nth_append)
  qed
  moreover have "\<forall>c \<in> set (cs @ [n]). valid_cluster v' c" using assms(2) unfolding chain_def by blast
  ultimately show ?thesis using F(1-7) assms(2,3,5-8) by (simp add: file_at_def)
qed

lemma located_grow:
  assumes "fat_inv D M v" "search_ok v" "data_ok v" "file_at M v cs f" "unat (f_curPosition f) = bpc v * length cs"
    and "allocateCluster D (if cs = [] then 0 else last cs) v = Some (Some n, v')"
    and "f_curCluster f' = n" "f_attributes f' = f_attributes f" "f_firstCluster f' = hd (cs @ [n])" "f_fileSize f' = f_fileSize f"
      "f_curPosition f' = f_curPosition f" "same_access f f'"
      "isContiguous f' \<Longrightarrow> cs = [] \<or> isContiguous f \<and> n = last cs + 1"
  shows "located M v v' cs (cs @ [n]) f f'"
proof -
  let ?cur = "if cs = [] then 0 else last cs"
  have vc: "\<forall>c \<in> set cs. valid_cluster v c" using assms(4) by (simp add: file_at_def)
  then have cur: "?cur = 0 \<or> valid_cluster v ?cur" by simp
  obtain w where "allocateCluster D ?cur v = Some (Some n, w)" "valid_cluster v n" "ent M v n = 0"
    "fat_now M (appended M v ?cur n) v w" using allocate_found [OF assms(1,2) cur assms(6)] by blast
  then have n: "valid_cluster v n" "ent M v n = 0" "fat_now M (appended M v ?cur n) v v'" using assms(6) by simp_all
  obtain u where u: "allocateCluster D ?cur v = Some (find (\<lambda>c. ent M v c = 0) (alloc_order v ?cur), u)" "fat_inv D M u" "search_ok u"
    using allocateCluster_spec [OF assms(1,2) cur] by blast
  then have i: "vol_ok M v'" "search_ok v'" using assms(6) by (simp_all add: fat_inv_def)
  note G = fat_now_geometry [OF n(3)]
  have ch: "chain M v' (cs @ [n])"
  proof (cases "cs = []")
    case True
    then show ?thesis using appended_first [OF assms(1) n(1,3)] by simp
  next
    case False
    then show ?thesis using appended_chain [OF assms(1) file_at_chain [OF assms(4) False] n(1,2)] n(3) by simp
  qed
  have "file_at M v' (cs @ [n]) (f'\<lparr>f_curCluster := f_curCluster f\<rparr>)"
    by (rule file_at_grow [OF assms(4) ch G(1)])
      (use assms(8-13) in \<open>simp_all add: isContiguous_def has_flag_def\<close>)
  moreover have "others_kept M v v' cs (cs @ [n])"
    by (rule appended_kept [OF assms(1,3) n]) auto
  moreover have "unat (f_fileSize f) \<le> bpc v * length cs" using assms(4) by (simp add: file_at_def)
  then have "take (max (unat (f_fileSize f)) (unat (f_curPosition f))) (chain_bytes M v' (cs @ [n])) =
     take (max (unat (f_fileSize f)) (unat (f_curPosition f))) (chain_bytes M v cs)"
    by (intro grown_bytes [OF assms(1,3) vc n(3)]) (use assms(5) in simp)
  ultimately show ?thesis using i G assms(3,5,7,10-12) by (simp add: located_def)
qed

lemma others_kept_trans:
  "others_kept M v v' cs ds \<Longrightarrow> others_kept M v' v'' ds es \<Longrightarrow> others_kept M v v'' cs es"
  unfolding others_kept_def by (elim conjE exE) (intro conjI exI allI impI, auto)

lemma same_store_kept:
  assumes "same_store M v v'" "geo_ok v" "data_ok v"
  shows "others_kept M v v' cs cs"
proof -
  have "chain M v' xs \<and> chain_bytes M v' xs = chain_bytes M v xs" if "chain M v xs" for xs
  proof -
    have x: "\<forall>c \<in> set xs. valid_cluster v c" using that by (simp add: chain_def)
    show ?thesis using same_store_bytes [OF assms x] same_store_chain [OF assms(1,2) x] that by simp
  qed
  moreover obtain c where "v' = v\<lparr>v_cache := c\<rparr>" using assms(1) by (auto simp: same_store_def)
  then have "v' = v\<lparr>v_cache := c, v_allocSearchStart := v_allocSearchStart v\<rparr>" by simp
  ultimately show ?thesis unfolding others_kept_def by blast
qed

lemma located_same:
  assumes "same_store M v w" "vol_ok M v" "data_ok v" "\<forall>c \<in> set cs. valid_cluster v c" "located M w v' cs cs' f f'"
  shows "located M v v' cs cs' f f'"
proof -
  have g: "geo_ok v" using assms(2) by (simp add: vol_ok_def)
  show ?thesis
    using assms(5) same_store_data(1) [OF assms(1)] same_store_bytes [OF assms(1) g assms(3,4)]
      others_kept_trans [OF same_store_kept [OF assms(1) g assms(3)]]
    by (simp add: located_def)
qed

text \<open>No cluster is added.\<close>

lemma located_here:
  assumes "same_store M v v'" "vol_ok M v" "vol_ok M v'" "data_ok v" "search_ok v" "file_at M v cs f"
    "unat (f_curPosition f) < bpc v * length cs"
  shows "located M v v' cs cs f (f\<lparr>f_curCluster := cs ! (unat (f_curPosition f) div bpc v)\<rparr>)"
proof -
  have g: "geo_ok v" and vc: "\<forall>c \<in> set cs. valid_cluster v c" using assms(2,6) by (simp_all add: vol_ok_def file_at_def)
  have "search_ok v'" using assms(1,5) by (auto simp: search_ok_def same_store_def)
  then show ?thesis
    using file_at_keep [OF assms(1,2,6)] same_store_data(1,2) [OF assms(1)] same_store_kept [OF assms(1) g assms(4)]
      same_store_bytes [OF assms(1) g assms(4) vc] assms(3,4,7)
    by (simp add: located_def same_access_def has_flag_def)
qed

text \<open>Adding a cluster fails only when no cluster can be allocated.\<close>

definition no_space :: "'d blockdev \<Rightarrow> 'd fatvol \<Rightarrow> bool" where
  "no_space D v \<longleftrightarrow> (\<exists>c w. allocateCluster D c w = Some (None, v))"

lemma addCluster_spec:
  assumes "dev_works D M" "vol_ok M v" "data_ok v" "search_ok v" "file_at M v cs f"
    "unat (f_curPosition f) = bpc v * length cs"
  shows "\<exists>ok f' v'. addCluster D f v = Some (ok, f', v') \<and>
    (if ok then \<exists>n. f_curCluster f' = n \<and>
         located M v v' cs (cs @ [n]) f (if cs = [] then f'\<lparr>f_firstCluster := n\<rparr> else f')
     else f' = f \<and> vol_ok M v' \<and> search_ok v' \<and> others_kept M v v' cs cs \<and> file_at M v' cs f \<and> data_ok v' \<and>
       spc v' = spc v \<and> chain_bytes M v' cs = chain_bytes M v cs \<and> no_space D v')"
proof -
  have i: "fat_inv D M v" using assms(1,2) by (simp add: fat_inv_def)
  have F: "\<forall>c \<in> set cs. valid_cluster v c"
    "f_curCluster f = (if f_curPosition f = 0 then 0 else cs ! ((unat (f_curPosition f) - 1) div bpc v))"
    "cs \<noteq> [] \<Longrightarrow> f_firstCluster f = hd cs"
    using assms(5) by (auto simp: file_at_def)
  let ?cur = "if cs = [] then 0 else last cs"
  have cc: "f_curCluster f = ?cur"
  proof (cases "cs = []")
    case True
    then have "f_curPosition f = 0" using assms(6) by (simp add: unat_eq_zero)
    then show ?thesis using F(2) True by simp
  next
    case False
    then have p: "unat (f_curPosition f) \<noteq> 0" using assms(6) by simp
    have "(unat (f_curPosition f) - 1) div bpc v = length cs - 1"
      using pred_div [of "unat (f_curPosition f)" "bpc v"] p assms(6) by simp
    then show ?thesis using F(2) False p by (auto simp: last_conv_nth)
  qed
  have cur: "?cur = 0 \<or> valid_cluster v ?cur" using F(1) by simp
  have v0: "\<not> valid_cluster v 0" by (simp add: valid_cluster_def)
  then have ne: "cs \<noteq> [] \<Longrightarrow> last cs \<noteq> 0" using F(1) last_in_set [of cs] by metis
  obtain r v' where a: "allocateCluster D ?cur v = Some (r, v')" "fat_inv D M v'" "search_ok v'"
    "r = None \<Longrightarrow> fat_now M (ent M v) v v'"
    using allocateCluster_spec [OF i assms(4) cur] by (auto split: option.splits)
  show ?thesis
  proof (cases r)
    case None
    note now = a(4) [OF None]
    have g: "geo_ok v" using assms(2) by (simp add: vol_ok_def)
    note G = fat_now_geometry [OF now] and H = fat_now_fields [OF now]
    have "chain M v' xs = chain M v xs" if "\<forall>c \<in> set xs. valid_cluster v c" for xs
      unfolding chain_def H using linked_cong [of xs "ent M v'" "ent M v"] fat_now_ent [OF now] that by auto
    then have c: "chain M v xs \<Longrightarrow> chain M v' xs" for xs by (simp add: chain_def)
    moreover have "chain_bytes M v' xs = chain_bytes M v xs" if "chain M v xs" for xs
      by (rule fat_now_bytes [OF now assms(3) g]) (use that in \<open>simp add: chain_def\<close>)
    ultimately have "others_kept M v v' cs cs" using now by (auto simp: others_kept_def fat_now_def)
    moreover have "file_at M v' cs f" using assms(5) c by (simp add: file_at_def G H)
    moreover have "chain_bytes M v' cs = chain_bytes M v cs" by (rule fat_now_bytes [OF now assms(3) g F(1)])
    ultimately show ?thesis
      using a None cc assms(3) G by (auto simp: addCluster_def Let_def fat_inv_def no_space_def)
  next
    case (Some n)
    let ?f = "set_flag FILE_FLAG_DIR_DIRTY
      (if ?cur = 0 then set_flag FILE_FLAG_CONTIGUOUS (f\<lparr>f_curCluster := n\<rparr>)
       else if n \<noteq> ?cur + 1 then clear_flag FILE_FLAG_CONTIGUOUS (f\<lparr>f_curCluster := n\<rparr>) else f\<lparr>f_curCluster := n\<rparr>)"
    have add: "addCluster D f v = Some (True, ?f, v')"
      using a(1) Some cc by (simp add: addCluster_def Let_def)
    have hf: "has_flag x (g\<lparr>f_curCluster := c\<rparr>) = has_flag x g" "has_flag x (g\<lparr>f_firstCluster := c\<rparr>) = has_flag x g" for x g c
      by (simp_all add: has_flag_def)
    have low: "a AND 0x40 = 0 \<and> a AND 0x80 = 0" if "a AND 0xC0 = 0" for a :: byte
    proof -
      have "a AND 0x40 = (a AND 0xC0) AND 0x40" "a AND 0x80 = (a AND 0xC0) AND 0x80" by (simp_all add: and.assoc)
      then show ?thesis using that by simp
    qed
    have "located M v v' cs (cs @ [n]) f (if cs = [] then ?f\<lparr>f_firstCluster := n\<rparr> else ?f)"
      by (rule located_grow [OF i assms(4,3,5,6) a(1) [unfolded Some]])
        (use F(3) ne in \<open>auto simp: isContiguous_def same_access_def flag_facts hf low split: if_split_asm\<close>)
    moreover have "f_curCluster ?f = n" by simp
    moreover have goal: "?thesis" if "addCluster D f v = Some (True, g, v')" "f_curCluster g = n"
      "located M v v' cs (cs @ [n]) f (if cs = [] then g\<lparr>f_firstCluster := n\<rparr> else g)" for g
      using that by auto
    ultimately show ?thesis using add by (intro goal [of ?f])
  qed
qed

end
