(* ===== verification/FileWrites.thy ===== *)
theory FileWrites
  imports FileGrowth FileProperties
begin

text \<open>
  \<open>FatFile::write\<close> (\<open>lib/SdFat/src/FatLib/FatFile.cpp\<close>): where the next byte goes, the loop, and the whole call with its start in
  append mode and the new size.
\<close>

section \<open>The write loop\<close>

lemma contiguous_next:
  assumes "file_at M v cs f" "isContiguous f" "f_curPosition f \<noteq> 0" "unat (f_curPosition f) mod bpc v = 0"
    "unat (f_curPosition f) div bpc v < length cs"
  shows "f_curCluster f + 1 = cs ! (unat (f_curPosition f) div bpc v)"
proof -
  let ?p = "unat (f_curPosition f)" and ?k = "unat (f_curPosition f) div bpc v"
  have p: "?p \<noteq> 0" using assms(3) by (simp add: unat_eq_zero)
  have kpos: "0 < ?k" using p assms(4) by (metis mod_mult_div_eq add_0 mult_0_right neq0_conv)
  have seq: "\<forall>i < length cs. cs ! i = f_firstCluster f + word_of_nat i" using assms(1,2) by (simp add: file_at_def)
  have "f_curCluster f = cs ! (?k - 1)"
    using assms(1,3,4) pred_div [of ?p "bpc v"] p by (simp add: file_at_def)
  then have "f_curCluster f + 1 = f_firstCluster f + (word_of_nat (?k - 1) + 1)"
    using seq assms(5) by (simp add: add.assoc)
  also have "word_of_nat (?k - 1) + 1 = (word_of_nat ?k :: 32 word)" using kpos by (metis of_nat_Suc Suc_pred' add.commute)
  finally show ?thesis using seq assms(5) by simp
qed

lemma linked_last: "linked f eoc cs \<Longrightarrow> eoc (f (last cs))"
  by (induction f eoc cs rule: linked.induct) auto

lemma write_locate_spec:
  assumes "dev_works D M" "vol_ok M v" "data_ok v" "search_ok v" "file_at M v cs f"
  shows "\<exists>ok f' v'. write_locate D f v = Some (ok, f', v') \<and>
    (if ok then \<exists>cs'. located M v v' cs cs' f f' \<and> take (length cs) cs' = cs
     else f' = f \<and> vol_ok M v' \<and> search_ok v' \<and> others_kept M v v' cs cs \<and> file_at M v' cs f \<and> data_ok v' \<and> spc v' = spc v \<and>
       chain_bytes M v' cs = chain_bytes M v cs \<and> no_space D v' \<and> unat (f_curPosition f) = bpc v * length cs)"
proof -
  let ?p = "unat (f_curPosition f)" and ?soc = "sectorOfCluster v (f_curPosition f)"
  let ?k = "?p div bpc v"
  have g: "geo_ok v" using assms(2) by (simp add: vol_ok_def)
  have F: "\<forall>c \<in> set cs. valid_cluster v c" "unat (f_fileSize f) \<le> bpc v * length cs" "?p \<le> bpc v * length cs"
    "f_curCluster f = (if f_curPosition f = 0 then 0 else cs ! ((?p - 1) div bpc v))"
    "if cs = [] then f_firstCluster f = 0 else chain M v cs \<and> hd cs = f_firstCluster f"
    using assms(5) by (simp_all add: file_at_def)
  have soc: "unat ?soc = ?p div 512 mod spc v" by (rule unat_sectorOfCluster [OF assms(3)])
  have start: "?soc = 0 \<and> f_curPosition f AND 0x1FF = 0 \<longleftrightarrow> ?p mod bpc v = 0"
    unfolding cluster_start [symmetric] low9_zero using soc by (metis unat_eq_zero)
  have v0: "\<not> valid_cluster v 0" by (simp add: valid_cluster_def)
  have p0: "f_curPosition f = 0 \<longleftrightarrow> ?p = 0" by (simp add: unat_eq_zero)
  note here = located_here [OF _ assms(2) _ assms(3-5)]
  have OK: ?thesis if "write_locate D f v = Some (True, f', v')" "located M v v' cs cs' f f'" "take (length cs) cs' = cs" for f' v' cs'
    by (rule exI [of _ True], rule exI [of _ f'], rule exI [of _ v'], unfold if_True)
      (intro conjI that(1) exI [of _ cs'] that(2,3))
  consider (inside) "?p mod bpc v \<noteq> 0" | (empty) "?p = 0" "cs = []" | (first) "?p = 0" "cs \<noteq> []"
    | (next_) "?p mod bpc v = 0" "?p \<noteq> 0" by metis
  then show ?thesis
  proof cases
    case inside
    then have "?p \<noteq> 0" by (metis mod_0)
    then have "f_curCluster f = cs ! ?k" using F(4) p0 pred_div [of ?p "bpc v"] inside by simp
    then have e: "f\<lparr>f_curCluster := cs ! ?k\<rparr> = f" by simp
    have "?p \<noteq> bpc v * length cs" using inside by (metis mod_mult_self1_is_0)
    then have lt: "?p < bpc v * length cs" using F(3) by (rule le_neq_implies_less [rotated])
    note here [OF same_store_refl assms(2) lt]
    then have "located M v v cs cs f f" unfolding e .
    moreover have "write_locate D f v = Some (True, f, v)" using inside start by (auto simp: write_locate_def)
    ultimately show ?thesis by (intro OK [of f v cs]) simp_all
  next
    case empty
    then have p: "?p = bpc v * length cs" by simp
    obtain ok f' v' where a: "addCluster D f v = Some (ok, f', v')"
      "if ok then \<exists>n. f_curCluster f' = n \<and> located M v v' cs (cs @ [n]) f (if cs = [] then f'\<lparr>f_firstCluster := n\<rparr> else f')
       else f' = f \<and> vol_ok M v' \<and> search_ok v' \<and> others_kept M v v' cs cs \<and> file_at M v' cs f \<and> data_ok v' \<and>
         spc v' = spc v \<and> chain_bytes M v' cs = chain_bytes M v cs \<and> no_space D v'"
      using addCluster_spec [OF assms p] by blast
    have "?soc = 0 \<and> f_curPosition f AND 0x1FF = 0" using start empty by simp
    then have "write_locate D f v = Some (ok, if ok then f'\<lparr>f_firstCluster := f_curCluster f'\<rparr> else f', v')"
      using a(1) empty F(4,5) p0 by (simp add: write_locate_def)
    then show ?thesis using a(2) empty by (cases ok) auto
  next
    case first
    then have c: "f_firstCluster f = cs ! 0" "cs ! 0 \<in> set cs"
      using F(5) hd_conv_nth [of cs] nth_mem [of 0 cs] by auto
    then have "f_firstCluster f \<noteq> 0" using F(1) v0 by metis
    moreover have "?soc = 0 \<and> f_curPosition f AND 0x1FF = 0" using start first by simp
    ultimately have "write_locate D f v = Some (True, f\<lparr>f_curCluster := cs ! ?k\<rparr>, v)"
      using first F(4) p0 c by (simp add: write_locate_def)
    moreover have "?p < bpc v * length cs" using first by simp
    ultimately show ?thesis using here [OF same_store_refl assms(2)] by (intro OK [of _ v cs]) simp_all
  next
    case next_
    have kpos: "0 < ?k" using next_ by (metis mod_mult_div_eq add_0 mult_0_right neq0_conv)
    have pk: "?p = bpc v * ?k" using next_(1) by auto
    have "bpc v * ?k \<le> bpc v * length cs" using F(3) pk by simp
    then have kl: "?k \<le> length cs" by simp
    then have ne: "cs \<noteq> []" using kpos by auto
    have cur: "f_curCluster f = cs ! (?k - 1)" using F(4) p0 next_ pred_div [of ?p "bpc v"] by simp
    have cv: "valid_cluster v (f_curCluster f)" using cur F(1) kl kpos by simp
    then have nz: "f_curCluster f \<noteq> 0" using v0 by metis
    have st: "?soc = 0 \<and> f_curPosition f AND 0x1FF = 0" using start next_ by simp
    show ?thesis
    proof (cases "isContiguous f \<and> f_fileSize f > f_curPosition f")
      case True
      then have lt: "?p < bpc v * length cs" using F(2) by (simp add: word_less_nat_alt)
      then have "?k < length cs" using pk by (metis mult_less_cancel1)
      then have "f_curCluster f + 1 = cs ! ?k" using contiguous_next [OF assms(5)] True next_ p0 by simp
      then have "write_locate D f v = Some (True, f\<lparr>f_curCluster := cs ! ?k\<rparr>, v)"
        using True st nz by (simp add: write_locate_def)
      then show ?thesis using here [OF same_store_refl assms(2) lt] by (intro OK [of _ v cs]) simp_all
    next
      case False
      have ch: "chain M v cs" using F(5) ne by simp
      obtain w where w: "fatGet D (f_curCluster f) v = (fat_result v (ent M v (f_curCluster f)), w)" "vol_ok M w" "same_store M v w"
        using fatGet_spec [OF assms(1,2) cv] by blast
      show ?thesis
      proof (cases "?k < length cs")
        case True
        have "ent M v (cs ! (?k - 1)) = cs ! ?k \<and> \<not> isEOC v (cs ! ?k)"
          using linked_nth [of "ent M v" "isEOC v" cs "?k - 1"] ch True kpos by (simp add: chain_def)
        then have "fatGet D (f_curCluster f) v = (FatNext (cs ! ?k), w)" using w(1) cur by (simp add: fat_result_def)
        then have "write_locate D f v = Some (True, f\<lparr>f_curCluster := cs ! ?k\<rparr>, w)"
          using False st nz by (auto simp: write_locate_def)
        moreover have "?p < bpc v * length cs" using True pk by (metis mult_less_cancel1 nat_0_less_mult_iff spc_pos(1) zero_less_numeral)
        ultimately show ?thesis using here [OF w(3,2)] by (intro OK [of _ w cs]) simp_all
      next
        case end_: False
        then have kl: "?k = length cs" using kl by simp
        have p: "?p = bpc w * length cs" using pk kl same_store_data(1) [OF w(3)] by simp
        have "isEOC v (ent M v (last cs))" using linked_last [of "ent M v" "isEOC v" cs] ch by (simp add: chain_def)
        then have "fatGet D (f_curCluster f) v = (FatEOC, w)" using w(1) cur kl ne by (simp add: fat_result_def last_conv_nth)
        then have wl: "write_locate D f v = addCluster D f w" using False st nz by (auto simp: write_locate_def)
        have sw: "search_ok w" using assms(4) w(3) by (auto simp: search_ok_def same_store_def)
        have dw: "data_ok w" using same_store_data(2) [OF w(3)] assms(3) by simp
        obtain ok f' v' where a: "addCluster D f w = Some (ok, f', v')"
          "if ok then \<exists>n. f_curCluster f' = n \<and> located M w v' cs (cs @ [n]) f (if cs = [] then f'\<lparr>f_firstCluster := n\<rparr> else f')
           else f' = f \<and> vol_ok M v' \<and> search_ok v' \<and> others_kept M w v' cs cs \<and> file_at M v' cs f \<and> data_ok v' \<and>
             spc v' = spc w \<and> chain_bytes M v' cs = chain_bytes M w cs \<and> no_space D v'"
          using addCluster_spec [OF assms(1) w(2) dw sw file_at_keep [OF w(3) assms(2,5)] p] by blast
        show ?thesis
        proof (cases ok)
          case True
          then obtain n where "located M w v' cs (cs @ [n]) f f'" using a(2) ne by auto
          then have "located M v v' cs (cs @ [n]) f f'" by (rule located_same [OF w(3) assms(2,3) F(1)])
          then show ?thesis using wl a(1) True by (intro OK [of f' v' "cs @ [n]"]) simp_all
        next
          case False
          then show ?thesis
            using wl a others_kept_trans [OF same_store_kept [OF w(3) g assms(3)]] same_store_data(1) [OF w(3)]
              same_store_bytes [OF w(3) g assms(3) F(1)] p by auto
        qed
      qed
    qed
  qed
qed

text \<open>
  The file after \<open>k\<close> bytes were written, in terms of the file before. The size is not updated yet; what can be seen
  of the chain are the bytes up to the size or up to the position.
\<close>

definition written ::
    "('d \<Rightarrow> 32 word \<Rightarrow> byte list) \<Rightarrow> 'd fatvol \<Rightarrow> 'd fatvol \<Rightarrow> 32 word list \<Rightarrow> 32 word list \<Rightarrow> fatfile \<Rightarrow> fatfile \<Rightarrow> byte list \<Rightarrow> bool" where
  "written M v v' cs cs' f f' b \<longleftrightarrow>
     vol_ok M v' \<and> data_ok v' \<and> search_ok v' \<and> spc v' = spc v \<and> others_kept M v v' cs cs' \<and> file_at M v' cs' f' \<and>
     take (length cs) cs' = cs \<and> unat (f_curPosition f') = unat (f_curPosition f) + length b \<and> f_fileSize f' = f_fileSize f \<and>
     same_access f f' \<and>
     take (max (unat (f_fileSize f)) (unat (f_curPosition f) + length b)) (chain_bytes M v' cs') =
     put_at (unat (f_curPosition f)) b (take (max (unat (f_fileSize f)) (unat (f_curPosition f))) (chain_bytes M v cs))"

lemma put_at_nil: "put_at p [] xs = xs"
  by (simp add: put_at_def)

lemma file_at_wrote:
  assumes "wrote M v v' cs s p b" "file_at M v cs f"
  shows "file_at M v' cs f" "spc v' = spc v"
proof -
  obtain c a where v: "v' = v\<lparr>v_cache := c, v_allocSearchStart := a\<rparr>" using assms(1) by (auto simp: wrote_def others_kept_def)
  show sp: "spc v' = spc v" by (simp add: v spc_def)
  have "valid_cluster v' = valid_cluster v" by (simp add: v valid_cluster_def fun_eq_iff)
  moreover have "chain M v' cs = chain M v cs" using assms by (simp add: wrote_def file_at_def)
  ultimately show "file_at M v' cs f" using assms(2) sp by (simp add: file_at_def)
qed

lemma length_chain:
  "dev_works D M \<Longrightarrow> vol_ok M v \<Longrightarrow> length (chain_bytes M v cs) = bpc v * length cs"
  using length_chain_bytes [of D M v cs] by (simp add: vol_ok_def ac_simps)

lemma written_trans:
  assumes "written M v w cs ds f g a" "written M w v' ds es g f' b" "dev_works D M" "vol_ok M v" "file_at M v cs f"
  shows "written M v v' cs es f f' (a @ b)"
proof -
  have "unat (f_curPosition f) \<le> length (take (max (unat (f_fileSize f)) (unat (f_curPosition f))) (chain_bytes M v cs))"
    using length_chain [OF assms(3,4)] assms(5) by (simp add: file_at_def)
  note C = put_at_compose [OF this, of a b]
  have "take (length cs) es = cs"
    using assms(1,2) unfolding written_def by (metis length_take min.absorb_iff1 min.cobounded1 take_take)
  moreover have "others_kept M v v' cs es" using assms(1,2) others_kept_trans unfolding written_def by blast
  ultimately show ?thesis using assms(1,2) C unfolding written_def same_access_def by (simp add: add.assoc)
qed

text \<open>One turn: find the sector, write a piece, move on.\<close>

lemma write_step:
  assumes "dev_works D M" "vol_ok M v" "data_ok v" "search_ok v" "file_at M v cs f" "\<not> has_flag FILE_FLAG_PREALLOCATE f"
    and "src \<noteq> []" "length src < 2 ^ 16" "unat (f_curPosition f) + length src < 2 ^ 32"
    and "located M v w cs ds f g" "take (length cs) ds = cs"
  shows "\<exists>n v'. write_piece D src g w = (Some n, v') \<and> 0 < n \<and> n \<le> length src \<and>
    written M v v' cs ds f (g\<lparr>f_curPosition := f_curPosition g + word_of_nat n\<rparr>) (take n src)"
proof -
  let ?p = "unat (f_curPosition f)" and ?s = "unat (f_fileSize f)"
  have W: "vol_ok M w" "data_ok w" "search_ok w" "spc w = spc v" "others_kept M v w cs ds"
    "file_at M w ds (g\<lparr>f_curCluster := f_curCluster f\<rparr>)" "f_curCluster g = ds ! (?p div bpc v)" "?p < bpc v * length ds"
    "f_curPosition g = f_curPosition f" "f_fileSize g = f_fileSize f"
    "same_access f g"
    "take (max ?s ?p) (chain_bytes M w ds) = take (max ?s ?p) (chain_bytes M v cs)"
    using assms(10) by (simp_all add: located_def)
  have vd: "\<forall>c \<in> set ds. valid_cluster w c" "\<not> isRootFixed g"
    using W(6) by (simp_all add: file_at_def)
  have np: "\<not> has_flag FILE_FLAG_PREALLOCATE g" using W(11) assms(6) by (simp add: same_access_def)
  have "?p < bpc w * length ds" "f_curCluster g = ds ! (?p div bpc w)" using W(4,7,8) by simp_all
  then obtain n v' where n: "write_piece D src g w = (Some n, v')" "0 < n" "n \<le> length src" "?p mod bpc v + n \<le> bpc v"
    "wrote M w v' ds ?s ?p (take n src)"
    using write_piece_spec [OF assms(1) W(1,2) vd(1) file_at_distinct [OF W(6)] vd(2) np assms(7,8)] W(4,9,10) by auto
  let ?g = "g\<lparr>f_curCluster := f_curCluster f\<rparr>"
  let ?h = "g\<lparr>f_curPosition := f_curPosition g + word_of_nat n\<rparr>"
  have h: "?h = ?g\<lparr>f_curCluster := ds ! (?p div bpc w), f_curPosition := f_curPosition ?g + word_of_nat n\<rparr>"
    using W(4,7) by simp
  have pn: "?p + n \<le> bpc w * length ds"
  proof -
    have "?p div bpc v < length ds" using W(8) by (simp add: less_mult_imp_div_less mult.commute)
    have "?p + n = bpc v * (?p div bpc v) + (?p mod bpc v + n)" by simp
    also have "\<dots> \<le> bpc v * (?p div bpc v) + bpc v" using n(4) by (rule add_left_mono)
    also have "\<dots> = bpc v * Suc (?p div bpc v)" by simp
    also have "\<dots> \<le> bpc v * length ds" using \<open>?p div bpc v < length ds\<close> by (intro mult_le_mono2) simp
    finally show ?thesis using W(4) by simp
  qed
  have A: "file_at M w ds ?h" "unat (f_curPosition ?h) = ?p + n"
    unfolding h using file_at_advance [OF W(6) _ n(2), of ?p] W(4,9) n(3,4) pn assms(9) by simp_all
  have "written M v v' cs ds f ?h (take n src)"
    using n(3,5) A file_at_wrote [OF n(5)] W others_kept_trans [OF W(5)] assms(11)
    unfolding written_def wrote_def by (simp add: same_access_def has_flag_def)
  then show ?thesis using n by blast
qed

lemma write_loop_spec:
  "dev_works D M \<Longrightarrow> vol_ok M v \<Longrightarrow> data_ok v \<Longrightarrow> search_ok v \<Longrightarrow> file_at M v cs f \<Longrightarrow>
    \<not> has_flag FILE_FLAG_PREALLOCATE f \<Longrightarrow> length src < 2 ^ 16 \<Longrightarrow> unat (f_curPosition f) + length src < 2 ^ 32 \<Longrightarrow>
    \<exists>ok f' v' cs' k. write_loop D src f v = Some (ok, f', v') \<and> written M v v' cs cs' f f' (take k src) \<and>
      k \<le> length src \<and>
      (if ok then k = length src else no_space D v' \<and> bpc v * length cs < unat (f_curPosition f) + length src)"
proof (induction "length src" arbitrary: src f v cs rule: less_induct)
  case less
  note D = less.prems(1)
  have self: "take (max (unat (f_fileSize f)) (unat (f_curPosition f))) (chain_bytes M v cs) =
      put_at (unat (f_curPosition f)) [] (take (max (unat (f_fileSize f)) (unat (f_curPosition f))) (chain_bytes M v cs))"
    by (simp only: put_at_nil)
  show ?case
  proof (cases "src = []")
    case True
    have "others_kept M v v cs cs" using same_store_kept [OF same_store_refl _ less.prems(3)] less.prems(2) by (simp add: vol_ok_def)
    then have "written M v v cs cs f f []" using less.prems self by (simp add: written_def same_access_def)
    then show ?thesis using True by (auto simp: write_loop.simps)
  next
    case False
    obtain ok g w where l: "write_locate D f v = Some (ok, g, w)"
      "if ok then \<exists>cs'. located M v w cs cs' f g \<and> take (length cs) cs' = cs
       else g = f \<and> vol_ok M w \<and> search_ok w \<and> others_kept M v w cs cs \<and> file_at M w cs f \<and> data_ok w \<and> spc w = spc v \<and>
         chain_bytes M w cs = chain_bytes M v cs \<and> no_space D w \<and> unat (f_curPosition f) = bpc v * length cs"
      using write_locate_spec [OF less.prems(1-5)] by blast
    show ?thesis
    proof (cases ok)
      case True
      then obtain ds where ds: "located M v w cs ds f g" "take (length cs) ds = cs" using l(2) by auto
      obtain n u where n: "write_piece D src g w = (Some n, u)" "0 < n" "n \<le> length src"
        "written M v u cs ds f (g\<lparr>f_curPosition := f_curPosition g + word_of_nat n\<rparr>) (take n src)"
        using write_step [OF less.prems(1-6) False less.prems(7,8) ds] by blast
      let ?g = "g\<lparr>f_curPosition := f_curPosition g + word_of_nat n\<rparr>"
      have U: "vol_ok M u" "data_ok u" "search_ok u" "file_at M u ds ?g" "\<not> has_flag FILE_FLAG_PREALLOCATE ?g"
        "unat (f_curPosition ?g) = unat (f_curPosition f) + n"
        using n(3,4) less.prems(6) by (simp_all add: written_def same_access_def)
      have "length (drop n src) < length src" "length (drop n src) < 2 ^ 16"
        "unat (f_curPosition ?g) + length (drop n src) < 2 ^ 32"
        using n(2,3) less.prems(7,8) U(6) False by simp_all
      from less.hyps [OF this(1) D U(1-5) this(2,3)]
      obtain ok' f' v' es k where i: "write_loop D (drop n src) ?g u = Some (ok', f', v')"
        "written M u v' ds es ?g f' (take k (drop n src))" "k \<le> length (drop n src)"
        "if ok' then k = length (drop n src) else no_space D v' \<and> bpc u * length ds < unat (f_curPosition ?g) + length (drop n src)"
        by blast
      have "length cs \<le> length ds" using ds(2) by (metis length_take min.cobounded1)
      then have le: "bpc v * length cs \<le> bpc u * length ds" using n(4) by (simp add: written_def)
      have "written M v v' cs es f f' (take (n + k) src)"
        using written_trans [OF n(4) i(2) D less.prems(2,5)] by (simp add: take_add)
      moreover have "write_loop D src f v = Some (ok', f', v')"
        using False l(1) True n(1) i(1) by (subst write_loop.simps) simp
      moreover have "if ok' then n + k = length src else no_space D v' \<and> bpc v * length cs < unat (f_curPosition f) + length src"
        using i(3,4) n(3) U(6) le by (auto split: if_splits)
      moreover have "n + k \<le> length src" using i(3) n(3) by simp
      ultimately show ?thesis by blast
    next
      case False
      have "length src > 0" using \<open>src \<noteq> []\<close> by simp
      moreover have "written M v w cs cs f f []" using l(2) self False by (simp add: written_def same_access_def)
      moreover have "write_loop D src f v = Some (False, f, w)"
        using \<open>src \<noteq> []\<close> False l by (subst write_loop.simps) simp
      ultimately show ?thesis using l(2) False by (intro exI [of _ False] exI [of _ f] exI [of _ w] exI [of _ cs] exI [of _ 0]) simp
    qed
  qed
qed

section \<open>Writing a file\<close>

text \<open>Where \<open>write\<close> starts: the end of the file in append mode, else the position.\<close>

definition write_start :: "fatfile \<Rightarrow> 32 word" where
  "write_start f = (if has_flag FILE_FLAG_APPEND f then f_fileSize f else f_curPosition f)"

lemma has_flag_fields [simp]:
  "has_flag a (f\<lparr>f_curCluster := c\<rparr>) = has_flag a f" "has_flag a (f\<lparr>f_curPosition := p\<rparr>) = has_flag a f"
  "has_flag a (f\<lparr>f_firstCluster := c\<rparr>) = has_flag a f" "has_flag a (f\<lparr>f_fileSize := p\<rparr>) = has_flag a f"
  by (simp_all add: has_flag_def)

lemma has_flag_clear: "\<not> has_flag b f \<Longrightarrow> has_flag a (clear_flag b f) = has_flag a f"
proof -
  assume "\<not> has_flag b f"
  then have "f_flags f AND b = 0" by (simp add: has_flag_def)
  then have "f_flags f AND NOT b = f_flags f"
    by (simp add: bit_eq_iff bit_simps) blast
  then show ?thesis by (simp add: has_flag_def clear_flag_def)
qed

lemma seek_access:
  "seekSet D p f v = (ok, f', v') \<Longrightarrow> \<not> has_flag FILE_FLAG_PREALLOCATE f \<Longrightarrow> has_flag a f' = has_flag a f"
  by (auto simp: seekSet_def Let_def seek_done_def has_flag_clear split: if_split_asm option.splits prod.splits)

lemma access_bits: "a AND 0xC0 = 0 \<Longrightarrow> a AND 0x80 = (0 :: byte)"
  using and.assoc [of a "0xC0" "0x80"] by simp

lemma written_end:
  assumes "file_at M v cs f" "chain_bytes M v cs = X" "unat n \<le> bpc v * length cs" "f_attributes g = f_attributes f"
    "f_firstCluster g = f_firstCluster f" "f_fileSize g = n" "f_curPosition g = f_curPosition f" "f_curCluster g = f_curCluster f"
    "isContiguous g = isContiguous f"
  shows "file_at M v cs g" "file_bytes M v g cs = take (unat n) X"
  using assms by (auto simp: file_at_def file_bytes_def isFile_def isDir_def isRootFixed_def isRoot32_def has_attr_def)

lemma file_write_spec:
  assumes "dev_works D M" "vol_ok M v" "data_ok v" "search_ok v" "file_at M v cs f" "f_curPosition f \<le> f_fileSize f"
    and "isWritable f" "\<not> has_flag FILE_FLAG_PREALLOCATE f" "length src < 2 ^ 16" "unat (write_start f) + length src < 2 ^ 32"
  shows "\<exists>n f' v' cs' k. FatFile_write D K src f v = Some (n, f', v') \<and> vol_ok M v' \<and> data_ok v' \<and> search_ok v' \<and>
    others_kept M v v' cs cs' \<and> file_at M v' cs' f' \<and> take (length cs) cs' = cs \<and>
    same_access f f' \<and>
    (if n = length src
     then file_bytes M v' f' cs' = put_at (unat (write_start f)) src (file_bytes M v f cs) \<and>
       unat (f_curPosition f') = unat (write_start f) + length src \<and> f_curPosition f' \<le> f_fileSize f'
     else n = 0 \<and> no_space D v' \<and> bpc v * length cs < unat (write_start f) + length src \<and> k \<le> length src \<and>
       file_bytes M v' f' cs' = take (unat (f_fileSize f)) (put_at (unat (write_start f)) (take k src) (file_bytes M v f cs)))"
proof -
  let ?p = "unat (write_start f)" and ?s = "unat (f_fileSize f)"
  have le: "write_start f \<le> f_fileSize f" using assms(6) by (simp add: write_start_def)
  obtain g w where g: "(if has_flag FILE_FLAG_APPEND f then seekSet D (f_fileSize f) f v else (True, f, v)) = (True, g, w)"
    "vol_ok M w" "same_store M v w" "file_at M w cs g" "f_curPosition g = write_start f" "f_fileSize g = f_fileSize f"
    "\<forall>a. has_flag a g = has_flag a f"
  proof (cases "has_flag FILE_FLAG_APPEND f")
    case True
    obtain g w where "seekSet D (f_fileSize f) f v = (True, g, w)" "vol_ok M w" "same_store M v w" "file_at M w cs g"
      "f_curPosition g = f_fileSize f" "f_fileSize g = f_fileSize f"
      using seek_spec [OF assms(1-3,5), of "f_fileSize f"] by auto
    moreover from this(1) have "\<forall>a. has_flag a g = has_flag a f" using seek_access assms(8) by blast
    ultimately show ?thesis using that True by (simp add: write_start_def)
  next
    case False
    show ?thesis
      by (rule that [of f v]) (use False assms(2,5) in \<open>simp_all add: write_start_def same_store_refl\<close>)
  qed
  have dw: "data_ok w" using same_store_data(2) [OF g(3)] assms(3) by simp
  have sw: "search_ok w" using assms(4) g(3) by (auto simp: search_ok_def same_store_def)
  have gv: "geo_ok v" and vc: "\<forall>c \<in> set cs. valid_cluster v c" using assms(2,5) by (simp_all add: vol_ok_def file_at_def)
  have fb: "take (max ?s ?p) (chain_bytes M w cs) = file_bytes M v f cs"
    using le same_store_bytes [OF g(3) gv assms(3) vc] by (simp add: file_bytes_def word_le_nat_alt max_def)
  have max: "\<not> 0xFFFFFFFF - f_curPosition g < word_of_nat (length src)"
  proof -
    have "unat (word_of_nat (length src) :: 32 word) = length src" using assms(9) by (simp add: unat_of_nat)
    moreover have "unat (0xFFFFFFFF - write_start f) = 2 ^ 32 - 1 - ?p"
      using unat_sub [of "write_start f" "0xFFFFFFFF"] unat_bound [of "write_start f"] by (simp add: word_le_nat_alt)
    ultimately show ?thesis using assms(10) g(5) by (simp add: word_less_nat_alt)
  qed
  have np: "\<not> has_flag FILE_FLAG_PREALLOCATE g" using g(7) assms(8) by simp
  obtain ok h u ds k where l: "write_loop D src g w = Some (ok, h, u)" "written M w u cs ds g h (take k src)" "k \<le> length src"
    "if ok then k = length src else no_space D u \<and> bpc w * length cs < unat (f_curPosition g) + length src"
    using write_loop_spec [OF assms(1) g(2) dw sw g(4) np assms(9)] assms(10) g(5) by auto
  have U: "vol_ok M u" "data_ok u" "search_ok u" "others_kept M w u cs ds" "file_at M u ds h" "take (length cs) ds = cs"
    "unat (f_curPosition h) = ?p + k" "f_fileSize h = f_fileSize f"
    "take (max ?s (?p + k)) (chain_bytes M u ds) = put_at ?p (take k src) (file_bytes M v f cs)" "same_access f h"
    using l(2,3) g(5,6,7) fb by (simp_all add: written_def same_access_def)
  have ok: "others_kept M v u cs ds" using others_kept_trans [OF same_store_kept [OF g(3) gv assms(3)] U(4)] .
  have sz: "?s \<le> bpc u * length ds" "?p + k \<le> bpc u * length ds" using U(5,7,8) by (simp_all add: file_at_def)
  have run: "FatFile_write D K src f v =
      (if \<not> ok then Some (0, set_error WRITE_ERROR h, u)
       else Some (length src, if f_curPosition h > f_fileSize h
              then set_flag FILE_FLAG_DIR_DIRTY (h\<lparr>f_fileSize := f_curPosition h\<rparr>)
              else if clk_callback K \<noteq> None then set_flag FILE_FLAG_DIR_DIRTY h else h, u))"
    using assms(7) g(1) max l(1) by (simp add: FatFile_write_def Let_def)
  show ?thesis
  proof (cases ok)
    case False
    let ?h = "set_error WRITE_ERROR h"
    have "file_at M u ds ?h" "file_bytes M u ?h ds = take ?s (chain_bytes M u ds)"
      using written_end [OF U(5) refl, of "f_fileSize h" ?h] sz U(8)
      by (simp_all add: set_error_def isContiguous_def has_flag_def)
    moreover have "take ?s (chain_bytes M u ds) = take ?s (put_at ?p (take k src) (file_bytes M v f cs))"
      unfolding U(9) [symmetric] by (simp add: min.absorb1)
    moreover have "same_access f ?h" using U(10) by (simp add: same_access_def set_error_def has_flag_def)
    moreover have "src \<noteq> []" using l(4) False same_store_data(1) [OF g(3)] sz g(4,5) by (auto simp: file_at_def)
    ultimately show ?thesis using run False U(1-3,6) ok l(3,4) g(5) same_store_data(1) [OF g(3)]
      by (intro exI [of _ 0] exI [of _ ?h] exI [of _ u] exI [of _ ds] exI [of _ k]) simp
  next
    case True
    then have k: "k = length src" using l(4) by simp
    let ?h = "if f_curPosition h > f_fileSize h
              then set_flag FILE_FLAG_DIR_DIRTY (h\<lparr>f_fileSize := f_curPosition h\<rparr>)
              else if clk_callback K \<noteq> None then set_flag FILE_FLAG_DIR_DIRTY h else h"
    let ?n = "if f_curPosition h > f_fileSize h then f_curPosition h else f_fileSize h"
    have n: "unat ?n = max ?s (?p + length src)" using U(7,8) k by (auto simp: word_less_nat_alt)
    have "isContiguous ?h = isContiguous h" by (auto simp: isContiguous_def flag_facts)
    then have "file_at M u ds ?h" "file_bytes M u ?h ds = take (max ?s (?p + length src)) (chain_bytes M u ds)"
      using written_end [OF U(5) refl, of ?n ?h] sz n k by auto
    moreover have "f_curPosition ?h = f_curPosition h" "f_fileSize ?h = ?n" by simp_all
    moreover have "same_access f ?h" using U(10) by (auto simp: same_access_def flag_facts access_bits)
    moreover have "f_curPosition h \<le> ?n" by auto
    ultimately show ?thesis using run True U(1-3,6,7,9) ok k
      by (intro exI [of _ "length src"] exI [of _ ?h] exI [of _ u] exI [of _ ds] exI [of _ k]) simp
  qed
qed

end
