(* ===== verification/WriteProperties.thy ===== *)
theory WriteProperties
  imports FileWrites
begin

text \<open>
  Open files as byte strings: the locale \<open>byte_file\<close> states what a client of read, write and seek relies on and is
  interpreted on the model of \<open>FatFile\<close>. Then the properties of \<open>write\<close>.
\<close>

section \<open>Files as byte strings\<close>

text \<open>
  What a client of an open file relies on: a state \<open>s\<close> stands for a position and the bytes of the file; reading, seeking
  and writing act on the two as on a byte string. A write may fail for lack of space.
\<close>

locale byte_file =
  fixes rep :: "'s \<Rightarrow> nat \<Rightarrow> byte list \<Rightarrow> bool"
    and rd :: "nat \<Rightarrow> 's \<Rightarrow> (int \<times> byte list \<times> 's) option"
    and sk :: "nat \<Rightarrow> 's \<Rightarrow> bool \<times> 's"
    and wr :: "byte list \<Rightarrow> 's \<Rightarrow> (nat \<times> 's) option"
  assumes position: "rep s p X \<Longrightarrow> p \<le> length X \<and> length X < 2 ^ 32"
    and read_law: "rep s p X \<Longrightarrow> n < 2 ^ 15 \<Longrightarrow>
      \<exists>s'. rd n s = Some (int (length (take n (drop p X))), take n (drop p X), s') \<and> rep s' (p + length (take n (drop p X))) X"
    and seek_law: "rep s p X \<Longrightarrow> q \<le> length X \<Longrightarrow> \<exists>s'. sk q s = (True, s') \<and> rep s' q X"
    and write_law: "rep s p X \<Longrightarrow> length b < 2 ^ 16 \<Longrightarrow> p + length b < 2 ^ 32 \<Longrightarrow> wr b s = Some (length b, s') \<Longrightarrow>
      rep s' (p + length b) (put_at p b X)"
begin

lemma length_write: "rep s p X \<Longrightarrow> length (put_at p b X) = max (length X) (p + length b)"
  using position [of s p X] by (simp add: put_at_def)

text \<open>What was written is read back after a seek to where it was written.\<close>

lemma write_seek_read:
  assumes "rep s p X" "length b < 2 ^ 15" "p + length b < 2 ^ 32" "wr b s = Some (length b, s1)"
  shows "\<exists>s2 s3. sk p s1 = (True, s2) \<and> rd (length b) s2 = Some (int (length b), b, s3) \<and>
    rep s3 (p + length b) (put_at p b X)"
proof -
  let ?Y = "put_at p b X"
  have w: "rep s1 (p + length b) ?Y" using write_law [OF assms(1) _ assms(3,4)] assms(2) by simp
  have l: "length ?Y = max (length X) (p + length b)" by (rule length_write [OF assms(1)])
  then have "p \<le> length ?Y" by simp
  then obtain s2 where s2: "sk p s1 = (True, s2)" "rep s2 p ?Y" using seek_law [OF w] by blast
  have "take (length b) (drop p ?Y) = b" using position [OF assms(1)] by (simp add: put_at_def)
  then show ?thesis using read_law [OF s2(2) assms(2)] s2(1) by auto
qed

text \<open>Two writes in a row write the concatenation.\<close>

lemma write_write:
  assumes "rep s p X" "length a < 2 ^ 16" "length b < 2 ^ 16" "p + length a + length b < 2 ^ 32"
    and "wr a s = Some (length a, s1)" "wr b s1 = Some (length b, s2)"
  shows "rep s2 (p + length (a @ b)) (put_at p (a @ b) X)"
proof -
  have "rep s1 (p + length a) (put_at p a X)" using write_law [OF assms(1,2) _ assms(5)] assms(4) by simp
  then have "rep s2 (p + length a + length b) (put_at (p + length a) b (put_at p a X))"
    using write_law [OF _ assms(3) assms(4) assms(6)] by simp
  moreover have "put_at (p + length a) b (put_at p a X) = put_at p (a @ b) X"
    using put_at_compose position [OF assms(1)] by metis
  ultimately show ?thesis by (simp add: add.assoc)
qed

text \<open>Reading what comes after does not depend on how much is asked for at once.\<close>

lemma read_read:
  assumes "rep s p X" "m < 2 ^ 15" "n < 2 ^ 15" "rd m s = Some (i, a, s1)" "rd n s1 = Some (j, b, s2)"
  shows "a @ b = take (m + n) (drop p X)"
proof -
  have a: "a = take m (drop p X)" "rep s1 (p + length a) X" using read_law [OF assms(1,2)] assms(4) by auto
  then have b: "b = take n (drop (p + length a) X)" using read_law [OF a(2) assms(3)] assms(5) by auto
  show ?thesis
  proof (cases "m \<le> length (drop p X)")
    case True
    then have "length a = m" using a(1) by simp
    then show ?thesis using a(1) b by (simp add: take_add add.commute)
  next
    case False
    then have "a = drop p X" using a(1) by simp
    then show ?thesis using b False by simp
  qed
qed

end

text \<open>Regular files on the volume, not in append mode, are such files.\<close>

definition file_rep ::
    "'d blockdev \<Rightarrow> ('d \<Rightarrow> 32 word \<Rightarrow> byte list) \<Rightarrow> fatfile \<times> 'd fatvol \<Rightarrow> nat \<Rightarrow> byte list \<Rightarrow> bool" where
  "file_rep D M = (\<lambda>(f, v) p X.
     dev_works D M \<and> vol_ok M v \<and> data_ok v \<and> search_ok v \<and> isWritable f \<and> \<not> has_flag FILE_FLAG_PREALLOCATE f \<and>
     \<not> has_flag FILE_FLAG_APPEND f \<and> p = unat (f_curPosition f) \<and>
     (\<exists>cs. file_open M v cs f \<and> X = file_bytes M v f cs))"

definition file_rd :: "'d blockdev \<Rightarrow> nat \<Rightarrow> fatfile \<times> 'd fatvol \<Rightarrow> (int \<times> byte list \<times> fatfile \<times> 'd fatvol) option" where
  "file_rd D n = (\<lambda>(f, v). FatFile_read D (word_of_nat n) f v)"

definition file_sk :: "'d blockdev \<Rightarrow> nat \<Rightarrow> fatfile \<times> 'd fatvol \<Rightarrow> bool \<times> fatfile \<times> 'd fatvol" where
  "file_sk D n = (\<lambda>(f, v). seekSet D (word_of_nat n) f v)"

definition file_wr ::
    "'d blockdev \<Rightarrow> 'd fsclock \<Rightarrow> byte list \<Rightarrow> fatfile \<times> 'd fatvol \<Rightarrow> (nat \<times> fatfile \<times> 'd fatvol) option" where
  "file_wr D K b = (\<lambda>(f, v). FatFile_write D K b f v)"

text \<open>Reading and seeking leave the flags alone.\<close>

lemma read_locate_flags: "read_locate D f v = (l, f', v') \<Longrightarrow> f_flags f' = f_flags f"
  by (auto simp: read_locate_def Let_def split: if_split_asm fat_result.splits prod.splits)

lemma read_loop_flags:
  assumes "read_loop D n acc f v = Some r"
  shows "f_flags (fst (snd (snd (snd r)))) = f_flags f"
  using _ assms
proof (rule read_loop.raw_induct [where P = "\<lambda>D n acc f v r. f_flags (fst (snd (snd (snd r)))) = f_flags f"])
  fix rec D n acc f and v :: "'a fatvol" and r
  assume IH: "\<And>D n acc f v r. rec D n acc f v = Some r \<Longrightarrow> f_flags (fst (snd (snd (snd r)))) = f_flags f"
    and e: "(if n = 0 then Some (True, n, acc, f, v)
      else case read_locate D f v of
        (LocError, f, v) \<Rightarrow> Some (False, n, acc, f, v)
      | (LocEnd, f, v) \<Rightarrow> Some (True, n, acc, f, v)
      | (LocSector sector soc, f, v) \<Rightarrow>
          (case read_piece D sector soc n f v of
             (None, v) \<Rightarrow> Some (False, n, acc, f, v)
           | (Some b, v) \<Rightarrow>
               rec D (n - length b) (acc @ b)
                 (f\<lparr>f_curPosition := f_curPosition f + word_of_nat (length b)\<rparr>) v)) = Some r"
  show "f_flags (fst (snd (snd (snd r)))) = f_flags f"
    using e by (auto split: if_split_asm prod.splits location.splits option.splits dest: read_locate_flags dest!: IH)
qed

lemma FatFile_read_flags: "FatFile_read D n f v = Some (r, b, f', v') \<Longrightarrow> f_flags f' = f_flags f"
  by (auto simp: FatFile_read_def Let_def set_error_def dest!: read_loop_flags split: if_split_asm Option.bind_splits)


lemma file_read_rep:
  assumes "file_rep D M s p X" "n < 2 ^ 15"
  shows "\<exists>s'. file_rd D n s = Some (int (length (take n (drop p X))), take n (drop p X), s') \<and>
    file_rep D M s' (p + length (take n (drop p X))) X"
proof -
  obtain f v where s: "s = (f, v)" by (cases s)
  then obtain cs where r: "dev_works D M" "vol_ok M v" "data_ok v" "search_ok v" "isWritable f"
    "\<not> has_flag FILE_FLAG_PREALLOCATE f" "\<not> has_flag FILE_FLAG_APPEND f" "p = unat (f_curPosition f)"
    "file_open M v cs f" "X = file_bytes M v f cs"
    using assms(1) by (auto simp: file_rep_def)
  have n: "unat (word_of_nat n :: 16 word) = n" using assms(2) by (simp add: unat_of_nat)
  obtain f' v' where f': "FatFile_read D (word_of_nat n) f v = Some (int (length (take n (drop p X))), take n (drop p X), f', v')"
    "vol_ok M v'" "same_store M v v'" "file_open M v' cs f'" "f_fileSize f' = f_fileSize f"
    "unat (f_curPosition f') = p + length (take n (drop p X))"
    using file_read_spec [OF r(1-3,9), of "word_of_nat n"] assms(2) r(8,10) n by auto
  have "has_flag a f' = has_flag a f" for a using FatFile_read_flags [OF f'(1)] by (simp add: has_flag_def)
  moreover have "file_bytes M v' f' cs = X" using file_bytes_keep [OF f'(3) r(2,3,9) f'(5)] r(10) by simp
  moreover have "data_ok v'" "search_ok v'"
    using same_store_data(2) [OF f'(3)] r(3,4) f'(3) by (auto simp: search_ok_def same_store_def)
  ultimately have "file_rep D M (f', v') (p + length (take n (drop p X))) X"
    using r f'(2,4,6) by (auto simp: file_rep_def isWritable_def)
  then show ?thesis using f'(1) s by (simp add: file_rd_def)
qed

lemma file_seek_rep:
  assumes "file_rep D M s p X" "q \<le> length X"
  shows "\<exists>s'. file_sk D q s = (True, s') \<and> file_rep D M s' q X"
proof -
  obtain f v where s: "s = (f, v)" by (cases s)
  then obtain cs where r: "dev_works D M" "vol_ok M v" "data_ok v" "search_ok v" "isWritable f"
    "\<not> has_flag FILE_FLAG_PREALLOCATE f" "\<not> has_flag FILE_FLAG_APPEND f" "p = unat (f_curPosition f)"
    "file_open M v cs f" "X = file_bytes M v f cs"
    using assms(1) by (auto simp: file_rep_def)
  have o: "file_at M v cs f" "isReadable f" using r(9) by (simp_all add: file_open_def)
  have "length X = unat (f_fileSize f)" using length_file_bytes [OF r(1,2,9)] r(10) by simp
  then have q: "unat (word_of_nat q :: 32 word) = q" "word_of_nat q \<le> f_fileSize f"
    using assms(2) unat_bound [of "f_fileSize f"] by (simp_all add: unat_of_nat word_le_nat_alt)
  obtain f' v' where f': "seekSet D (word_of_nat q) f v = (True, f', v')" "vol_ok M v'" "same_store M v v'"
    "file_at M v' cs f'" "f_curPosition f' = word_of_nat q" "f_fileSize f' = f_fileSize f" "isReadable f'"
    using seek_spec [OF r(1-3) o(1) q(2)] o(2) by blast
  have "has_flag a f' = has_flag a f" for a by (rule seek_access [OF f'(1) r(6)])
  moreover have "file_bytes M v' f' cs = X" using file_bytes_keep [OF f'(3) r(2,3,9) f'(6)] r(10) by simp
  moreover have "data_ok v'" "search_ok v'"
    using same_store_data(2) [OF f'(3)] r(3,4) f'(3) by (auto simp: search_ok_def same_store_def)
  moreover have "file_open M v' cs f'" using f' q(2) by (simp add: file_open_def)
  ultimately have "file_rep D M (f', v') q X"
    using r(1,5-7) f'(2,5) q(1) by (auto simp: file_rep_def isWritable_def)
  then show ?thesis using f'(1) s by (simp add: file_sk_def)
qed

lemma file_write_rep:
  assumes "file_rep D M s p X" "length b < 2 ^ 16" "p + length b < 2 ^ 32" "file_wr D K b s = Some (length b, s')"
  shows "file_rep D M s' (p + length b) (put_at p b X)"
proof -
  obtain f v where s: "s = (f, v)" by (cases s)
  then obtain cs where r: "dev_works D M" "vol_ok M v" "data_ok v" "search_ok v" "isWritable f"
    "\<not> has_flag FILE_FLAG_PREALLOCATE f" "\<not> has_flag FILE_FLAG_APPEND f" "p = unat (f_curPosition f)"
    "file_open M v cs f" "X = file_bytes M v f cs"
    using assms(1) by (auto simp: file_rep_def)
  have o: "file_at M v cs f" "f_curPosition f \<le> f_fileSize f" "isReadable f" using r(9) by (simp_all add: file_open_def)
  have st: "write_start f = f_curPosition f" using r(7) by (simp add: write_start_def)
  have room: "unat (write_start f) + length b < 2 ^ 32" using assms(3) r(8) st by simp
  obtain n f' v' ds where w: "FatFile_write D K b f v = Some (n, f', v')" "vol_ok M v'" "data_ok v'" "search_ok v'"
    "file_at M v' ds f'" "same_access f f'"
    "n = length b \<Longrightarrow> file_bytes M v' f' ds = put_at p b X \<and> unat (f_curPosition f') = p + length b \<and> f_curPosition f' \<le> f_fileSize f'"
    using file_write_spec [OF r(1-4) o(1,2) r(5,6) assms(2) room, of K] r(8,10) st by metis
  have n: "n = length b" "s' = (f', v')" using assms(4) w(1) s by (simp_all add: file_wr_def)
  have fl: "\<forall>a. a AND 0xC0 = 0 \<longrightarrow> has_flag a f' = has_flag a f" using w(6) by (simp add: same_access_def)
  have "isReadable f'" "isWritable f'" "\<not> has_flag FILE_FLAG_PREALLOCATE f'" "\<not> has_flag FILE_FLAG_APPEND f'"
    using fl r(5-7) o(3) by (simp_all add: isReadable_def isWritable_def)
  then have "file_rep D M (f', v') (p + length b) (put_at p b X)"
    using r(1) w(2-5,7) n(1) by (auto simp: file_rep_def file_open_def)
  then show ?thesis using n(2) by simp
qed

interpretation fatfile: byte_file "file_rep D M" "file_rd D" "file_sk D" "file_wr D K"
proof
  fix s p X
  assume "file_rep D M s p X"
  then obtain f v cs where "dev_works D M" "vol_ok M v" "file_open M v cs f" "p = unat (f_curPosition f)" "X = file_bytes M v f cs"
    by (cases s) (auto simp: file_rep_def)
  then show "p \<le> length X \<and> length X < 2 ^ 32"
    using length_file_bytes [of D M v cs f] unat_bound [of "f_fileSize f"] by (simp add: file_open_def word_le_nat_alt)
qed (blast intro: file_read_rep file_seek_rep file_write_rep)+

section \<open>Properties of writing\<close>


text \<open>C7: what \<open>write\<close> has written is read back: after a successful write,
  \<open>seekSet\<close> to where it began and \<open>read\<close> of as many bytes return exactly
  the bytes written. The files of the model are an instance of a byte string with a position.\<close>

theorem write_read_back:
  assumes "dev_works D M" "vol_ok M v" "data_ok v" "search_ok v" "file_open M v cs f"
    and "isWritable f" "\<not> has_flag FILE_FLAG_PREALLOCATE f" "\<not> has_flag FILE_FLAG_APPEND f"
    and "length src < 2 ^ 15" "unat (f_curPosition f) + length src < 2 ^ 32"
    and "FatFile_write D K src f v = Some (length src, f1, v1)"
  shows "\<exists>f2 v2 f3 v3. seekSet D (f_curPosition f) f1 v1 = (True, f2, v2) \<and>
    FatFile_read D (word_of_nat (length src)) f2 v2 = Some (int (length src), src, f3, v3)"
proof -
  have "file_rep D M (f, v) (unat (f_curPosition f)) (file_bytes M v f cs)"
    using assms(1-8) by (auto simp: file_rep_def)
  from fatfile.write_seek_read [OF this assms(9,10), of K "(f1, v1)"] assms(11)
  show ?thesis by (auto simp: file_wr_def file_sk_def file_rd_def)
qed

text \<open>The demonstration file, open for reading and writing.\<close>

definition demo_rw :: fatfile where
  "demo_rw = demo_file\<lparr>f_flags := FILE_FLAG_READ OR FILE_FLAG_WRITE, f_curPosition := 700, f_curCluster := 3\<rparr>"

lemma demo_rw_open: "file_open card demo_vol [2, 3] demo_rw" "isWritable demo_rw"
  "\<not> has_flag FILE_FLAG_PREALLOCATE demo_rw" "\<not> has_flag FILE_FLAG_APPEND demo_rw" "f_curPosition demo_rw = 700"
  "file_bytes card demo_vol demo_rw [2, 3] = replicate 512 65 @ replicate 188 66"
proof -
  have s: "spc demo_vol = 1" by (simp add: spc_def demo_vol_def)
  have f: "isFile demo_rw" "\<not> isRootFixed demo_rw" "\<not> isRoot32 demo_rw" "\<not> isDir demo_rw" "\<not> isContiguous demo_rw" "isReadable demo_rw"
    by (simp_all add: demo_rw_def demo_file_def file_zero_def isFile_def isReadable_def isRootFixed_def isRoot32_def
      isDir_def isContiguous_def has_attr_def has_flag_def)
  have g: "f_firstCluster demo_rw = 2" "f_fileSize demo_rw = 700" "f_curCluster demo_rw = 3"
    by (simp_all add: demo_rw_def demo_file_def)
  show p: "f_curPosition demo_rw = 700" by (simp add: demo_rw_def)
  have "valid_cluster demo_vol 2" "valid_cluster demo_vol 3" using demo_chain by (simp_all add: chain_def)
  then show "file_open card demo_vol [2, 3] demo_rw"
    using demo_chain f g p s by (simp add: file_open_def file_at_def)
  show "isWritable demo_rw" "\<not> has_flag FILE_FLAG_PREALLOCATE demo_rw" "\<not> has_flag FILE_FLAG_APPEND demo_rw"
    by (simp_all add: demo_rw_def isWritable_def has_flag_def)
  show "file_bytes card demo_vol demo_rw [2, 3] = replicate 512 65 @ replicate 188 66"
    using demo_bytes by (simp add: file_bytes_def demo_rw_def)
qed


theorem write_read_back_witness:
  "\<forall>K. \<exists>f1 v1 f2 v2 f3 v3. FatFile_write card_ops K (replicate 10 67) demo_rw demo_vol = Some (10, f1, v1) \<and>
    seekSet card_ops 700 f1 v1 = (True, f2, v2) \<and> FatFile_read card_ops 10 f2 v2 = Some (10, replicate 10 67, f3, v3)"
proof
  fix K
  have v: "vol_ok card demo_vol" using demo_inv by (simp add: fat_inv_def)
  have s: "write_start demo_rw = 700" "f_fileSize demo_rw = 700" "spc demo_vol = 1"
    using demo_rw_open(4,5) by (simp_all add: write_start_def) (simp_all add: demo_rw_def demo_file_def spc_def demo_vol_def)
  have "file_at card demo_vol [2, 3] demo_rw" using demo_rw_open(1) by (simp add: file_open_def)
  from file_write_spec [OF card_works v demo_data demo_geo(2) this _ demo_rw_open(2,3), of "replicate 10 67" K] s
  obtain f1 v1 where w: "FatFile_write card_ops K (replicate 10 67) demo_rw demo_vol = Some (length (replicate 10 67 :: byte list), f1, v1)"
    by (auto simp: demo_rw_open(5) split: if_split_asm)
  from write_read_back [OF card_works v demo_data demo_geo(2) demo_rw_open(1-4) _ _ w]
  show "\<exists>f1 v1 f2 v2 f3 v3. FatFile_write card_ops K (replicate 10 67) demo_rw demo_vol = Some (10, f1, v1) \<and>
    seekSet card_ops 700 f1 v1 = (True, f2, v2) \<and> FatFile_read card_ops 10 f2 v2 = Some (10, replicate 10 67, f3, v3)"
    using w by (simp add: demo_rw_open(5))
qed

end
