(* ===== verification/CStrings.thy ===== *)
theory CStrings
  imports Prelude
begin

text \<open>
  The C string functions the kernel uses on its fixed-size \<open>char\<close> arrays. A buffer is the byte
  list of the whole array; the text in it ends at the first 0. Reading a buffer with no 0, or
  writing past its end, is undefined behaviour and yields \<open>None\<close>. Source strings (literals and
  strings already read from a buffer) are passed as their text, without the terminator.
\<close>

section \<open>The functions of string.h\<close>

definition cstr :: "byte list \<Rightarrow> byte list option" where
  "cstr buf = (if 0 \<in> set buf then Some (takeWhile (\<lambda>b. b \<noteq> 0) buf) else None)"

definition strcpy :: "byte list \<Rightarrow> byte list \<Rightarrow> byte list option" where
  "strcpy dst src =
     (if length src + 1 \<le> length dst then Some (put_at 0 (src @ [0]) dst) else None)"

definition strcat :: "byte list \<Rightarrow> byte list \<Rightarrow> byte list option" where
  "strcat dst src = do {
     d \<leftarrow> cstr dst;
     if length d + length src + 1 \<le> length dst
     then Some (put_at (length d) (src @ [0]) dst) else None }"

definition strncpy :: "byte list \<Rightarrow> byte list \<Rightarrow> nat \<Rightarrow> byte list option" where
  "strncpy dst src n =
     (if n \<le> length dst then Some (put_at 0 (take n (src @ replicate n 0)) dst) else None)"

text \<open>Index of the last occurrence, as \<open>strrchr\<close> minus the start of the string.\<close>

fun strrchr :: "byte list \<Rightarrow> byte \<Rightarrow> nat option" where
  "strrchr [] c = None"
| "strrchr (x # xs) c = (case strrchr xs c of
       Some i \<Rightarrow> Some (Suc i)
     | None \<Rightarrow> if x = c then Some 0 else None)"

fun itoa_digits :: "nat \<Rightarrow> byte list" where
  "itoa_digits n = (if n < 10 then [48 + word_of_nat n]
                    else itoa_digits (n div 10) @ [48 + word_of_nat (n mod 10)])"

declare itoa_digits.simps [simp del]

definition itoa :: "vint \<Rightarrow> byte list" where
  "itoa num = (if sint num < 0 then 45 # itoa_digits (nat (- sint num))
               else itoa_digits (nat (sint num)))"

definition lit :: "string \<Rightarrow> byte list" where
  "lit s = map of_char s"

section \<open>Facts\<close>

text \<open>The text of a buffer never contains the terminator and is shorter than the buffer.\<close>

lemma cstr_SomeD:
  assumes "cstr buf = Some s"
  shows "0 \<notin> set s" "length s < length buf" "take (length s) buf = s" "buf ! length s = 0"
proof -
  have s: "s = takeWhile (\<lambda>b. b \<noteq> 0) buf" and z: "0 \<in> set buf"
    using assms by (auto simp: cstr_def split: if_splits)
  show "0 \<notin> set s" using s by (auto dest: set_takeWhileD)
  show t: "take (length s) buf = s" using s by (metis takeWhile_eq_take)
  show l: "length s < length buf"
  proof (rule ccontr)
    assume "\<not> length s < length buf"
    then have "s = buf" using s by (metis length_takeWhile_le linorder_not_less order_antisym takeWhile_eq_take take_all)
    with z \<open>0 \<notin> set s\<close> show False by simp
  qed
  then show "buf ! length s = 0"
    using s nth_length_takeWhile [of "\<lambda>b. b \<noteq> 0" buf] by simp
qed

lemma cstrI:
  assumes "0 \<notin> set s" "take (length s) buf = s" "length s < length buf" "buf ! length s = 0"
  shows "cstr buf = Some s"
proof -
  have buf: "buf = s @ 0 # drop (Suc (length s)) buf"
    using assms by (metis append_take_drop_id Cons_nth_drop_Suc)
  have "takeWhile (\<lambda>b. b \<noteq> 0) buf = s"
  proof (subst buf)
    have "takeWhile (\<lambda>b. b \<noteq> 0) (s @ 0 # r) = s @ takeWhile (\<lambda>b. b \<noteq> 0) (0 # r)" for r
      using assms(1) by (intro takeWhile_append2) auto
    then show "takeWhile (\<lambda>b. b \<noteq> 0) (s @ 0 # drop (Suc (length s)) buf) = s" by simp
  qed
  moreover have "0 \<in> set buf" by (subst buf) simp
  ultimately show ?thesis by (simp add: cstr_def)
qed

lemma cstr_terminated: "0 \<in> set buf \<Longrightarrow> \<exists>s. cstr buf = Some s"
  by (simp add: cstr_def)

lemma cstr_put_at:
  assumes "0 \<notin> set s" "length s < length buf"
  shows "cstr (put_at 0 (s @ [0]) buf) = Some s"
  using assms by (intro cstrI) (auto simp: put_at_def nth_append)

lemma strcpy_Some:
  "strcpy dst src = Some b \<longleftrightarrow> length src < length dst \<and> b = put_at 0 (src @ [0]) dst"
  by (auto simp: strcpy_def)

lemma strcpy_cstr:
  assumes "strcpy dst src = Some b" "0 \<notin> set src"
  shows "cstr b = Some src" "length b = length dst"
  using assms by (auto simp: strcpy_Some cstr_put_at)

lemma strcat_cstr:
  assumes "strcat dst src = Some b" "cstr dst = Some d" "0 \<notin> set src"
  shows "cstr b = Some (d @ src)" "length b = length dst"
proof -
  have b: "b = put_at (length d) (src @ [0]) dst" and l: "length d + length src < length dst"
    using assms by (auto simp: strcat_def split: if_splits)
  note d = cstr_SomeD [OF assms(2)]
  have b': "b = put_at 0 ((d @ src) @ [0]) dst"
    using d(3) l by (simp add: b put_at_def)
  show "cstr b = Some (d @ src)"
    unfolding b' using d assms(3) l by (intro cstr_put_at) auto
  show "length b = length dst" using l by (simp add: b)
qed

lemma strcat_Some_iff:
  "cstr dst = Some d \<Longrightarrow>
   (\<exists>b. strcat dst src = Some b) \<longleftrightarrow> length d + length src < length dst"
  by (auto simp: strcat_def)

lemma strncpy_length: "strncpy dst src n = Some b \<Longrightarrow> length b = length dst"
  by (auto simp: strncpy_def split: if_splits)

lemma strncpy_zeroed:
  assumes "n < length dst" "\<forall>x \<in> set dst. x = 0" "0 \<notin> set src"
  shows "\<exists>b. strncpy dst src n = Some b \<and> cstr b = Some (take n src) \<and> length b = length dst"
proof -
  define b where "b = put_at 0 (take n (src @ replicate n 0)) dst"
  have lb: "length b = length dst" using assms(1) by (simp add: b_def)
  have nth: "b ! i = (if i < length (take n src) then src ! i else 0)" if "i < length dst" for i
  proof -
    have "dst ! i = 0" using that assms(2) by (meson nth_mem)
    then show ?thesis
      using that assms(1) by (auto simp: b_def nth_put_at nth_append)
  qed
  have "take (length (take n src)) b = take n src"
    using assms(1) lb nth by (intro nth_equalityI) auto
  then have "cstr b = Some (take n src)"
    using assms lb nth by (intro cstrI) (auto dest: in_set_takeD)
  moreover have "strncpy dst src n = Some b"
    using assms(1) by (simp add: strncpy_def b_def)
  ultimately show ?thesis using lb by blast
qed

lemma strrchr_Some:
  "strrchr xs c = Some i \<Longrightarrow> i < length xs \<and> xs ! i = c \<and> c \<notin> set (drop (Suc i) xs)"
proof (induction xs arbitrary: i)
  case (Cons x xs)
  show ?case
  proof (cases "strrchr xs c")
    case None
    then have "c \<notin> set xs"
      by (induction xs) (auto split: option.splits if_splits)
    with Cons.prems None show ?thesis by (auto split: if_splits)
  next
    case (Some j)
    with Cons show ?thesis by auto
  qed
qed simp

lemma strrchr_None: "strrchr xs c = None \<longleftrightarrow> c \<notin> set xs"
  by (induction xs) (auto split: option.splits)

lemma itoa_digits_length: "n < 10 ^ Suc k \<Longrightarrow> length (itoa_digits n) \<le> Suc k"
proof (induction k arbitrary: n)
  case 0
  then show ?case by (simp add: itoa_digits.simps)
next
  case (Suc k)
  then have "n div 10 < 10 ^ Suc k" by (auto simp: less_mult_imp_div_less)
  with Suc.IH [of "n div 10"] show ?case by (subst itoa_digits.simps) simp
qed

lemma itoa_length: "length (itoa num) \<le> 6"
proof -
  have "nat (- sint num) < 10 ^ Suc 4" "nat (sint num) < 10 ^ Suc 4"
    using sint_vint_range [of num] by auto
  from this [THEN itoa_digits_length] show ?thesis by (simp add: itoa_def)
qed

lemma itoa_digits_nonzero: "0 \<notin> set (itoa_digits n)"
proof (induction n rule: itoa_digits.induct)
  case (1 n)
  have "(48 + word_of_nat d :: byte) \<noteq> 0" if "d < 10" for d
  proof -
    have "unat (48 + word_of_nat d :: byte) = 48 + d"
      using that by (simp add: unat_word_ariths unat_of_nat)
    then show ?thesis by auto
  qed
  with 1 show ?case by (subst itoa_digits.simps) auto
qed

lemma itoa_nonzero: "0 \<notin> set (itoa num)"
  using itoa_digits_nonzero by (simp add: itoa_def)

end
