(* ===== verification/HAL.thy ===== *)
theory HAL
  imports StreamProtocol CStrings
begin

text \<open>
  The hardware abstraction layer of \<open>src/HAL.cpp\<close>: framing of the serial line. The record \<open>hal\<close>
  holds the file's static variables and the two directions of the serial port: \<open>serial_in\<close> is the
  bytes \<open>Serial.available\<close> and \<open>Serial.read\<close> still have to deliver, \<open>serial_out\<close> the bytes
  \<open>Serial.write\<close> has sent. Board set-up (\<open>HAL_setupTimer\<close>, the pin and SD bring-up in
  \<open>HAL_init\<close>) is register I/O and is not modelled; \<open>HAL_init\<close> is modelled for the state it resets.
\<close>

section \<open>Protocol constants (\<open>Protocol.h\<close>, \<open>OSConfig.h\<close>)\<close>

abbreviation (input) FD_STDIN :: int where "FD_STDIN \<equiv> 0"
abbreviation (input) FD_STDOUT :: int where "FD_STDOUT \<equiv> 1"
abbreviation (input) FD_STDERR :: int where "FD_STDERR \<equiv> 2"

abbreviation (input) PT_STRING :: byte where "PT_STRING \<equiv> 1"

abbreviation (input) SYS_LS :: vint where "SYS_LS \<equiv> 1"
abbreviation (input) SYS_EXEC :: vint where "SYS_EXEC \<equiv> 2"
abbreviation (input) SYS_CHDIR :: vint where "SYS_CHDIR \<equiv> 3"
abbreviation (input) SYS_GETCWD :: vint where "SYS_GETCWD \<equiv> 4"
abbreviation (input) CMD_STDIN :: vint where "CMD_STDIN \<equiv> 100"
abbreviation (input) CMD_STDOUT :: vint where "CMD_STDOUT \<equiv> 101"
abbreviation (input) CMD_STDERR :: vint where "CMD_STDERR \<equiv> 102"

abbreviation (input) HAL_RX_RAW_SIZE :: nat where "HAL_RX_RAW_SIZE \<equiv> 256"
abbreviation (input) HAL_TX_SIZE :: nat where "HAL_TX_SIZE \<equiv> 512"

section \<open>State\<close>

record hal =
  hal_tx_buffer :: "byte list"
  hal_raw_buffer :: "byte list"
  hal_raw_index :: nat
  hal_pkt_payload :: "byte list"
  hal_pkt_len :: nat
  hal_pkt_cmd :: vint
  hal_pkt_read_pos :: nat
  hal_pkt_ready :: bool
  serial_in :: "byte list"
  serial_out :: "byte list"

text \<open>The statics before \<open>setup\<close> runs.\<close>

definition hal_zero :: hal where
  "hal_zero = \<lparr> hal_tx_buffer = replicate 512 0, hal_raw_buffer = replicate 256 0,
     hal_raw_index = 0, hal_pkt_payload = replicate 256 0, hal_pkt_len = 0, hal_pkt_cmd = 0,
     hal_pkt_read_pos = 0, hal_pkt_ready = False, serial_in = [], serial_out = [] \<rparr>"

section \<open>Sending\<close>

definition send_packet :: "vint \<Rightarrow> byte list \<Rightarrow> hal \<Rightarrow> hal" where
  "send_packet cmd text h =
     (case sp_encode_packet_buffer (Some text) (word_of_nat (length text)) SP_UNFRAGED PT_STRING
             cmd (Some (hal_tx_buffer h)) 512 (Some 0) of
        (res, Some tx, Some packet_len) \<Rightarrow>
          (if res = SP_OK
           then h\<lparr>hal_tx_buffer := tx,
                  serial_out := serial_out h @ take (unat packet_len) tx\<rparr>
           else h\<lparr>hal_tx_buffer := tx\<rparr>)
      | _ \<Rightarrow> h)"

definition HAL_write_str :: "int \<Rightarrow> byte list \<Rightarrow> hal \<Rightarrow> hal" where
  "HAL_write_str fd text h =
     (let cmd = (if fd = FD_STDERR then CMD_STDERR else CMD_STDOUT) in send_packet cmd text h)"

definition HAL_write_int :: "int \<Rightarrow> vint \<Rightarrow> hal \<Rightarrow> hal" where
  "HAL_write_int fd num h =
     (let buf = itoa num; cmd = (if fd = FD_STDERR then CMD_STDERR else CMD_STDOUT)
      in send_packet cmd buf h)"

text \<open>A character buffer of two bytes: writing 0 sends the empty text.\<close>

definition HAL_writeChar :: "int \<Rightarrow> byte \<Rightarrow> hal \<Rightarrow> hal" where
  "HAL_writeChar fd c h =
     (let buf = takeWhile (\<lambda>b. b \<noteq> 0) [c];
          cmd = (if fd = FD_STDERR then CMD_STDERR else CMD_STDOUT)
      in send_packet cmd buf h)"

section \<open>Receiving\<close>

definition take_packet :: "sp_parsed_packet \<Rightarrow> hal \<Rightarrow> hal" where
  "take_packet packet h =
     (let len0 = unat (payload_length packet);
          len = (if len0 > 255 then 255 else len0);
          consumed = unat (ucast (packet_length packet) :: 32 word);
          h1 = h\<lparr>hal_pkt_cmd := user_field packet, hal_pkt_len := len,
                 hal_pkt_payload := put_at 0 (take len (payload packet)) (hal_pkt_payload h),
                 hal_pkt_read_pos := 0, hal_pkt_ready := True\<rparr>
      in if hal_raw_index h > consumed
         then let remaining = hal_raw_index h - consumed
              in h1\<lparr>hal_raw_buffer := put_at 0 (take remaining (drop consumed (hal_raw_buffer h)))
                      (hal_raw_buffer h),
                    hal_raw_index := remaining\<rparr>
         else h1\<lparr>hal_raw_index := 0\<rparr>)"

text \<open>The body of the receive loop for one byte; the flag says that the loop returns.\<close>

definition serial_byte :: "byte \<Rightarrow> hal \<Rightarrow> bool \<times> hal" where
  "serial_byte b h =
     (let i = (if hal_raw_index h \<ge> HAL_RX_RAW_SIZE then 0 else hal_raw_index h);
          h1 = h\<lparr>hal_raw_buffer := (hal_raw_buffer h)[i := b], hal_raw_index := Suc i\<rparr>
      in if hal_raw_index h1 \<ge> SP_HEADER_SIZE + 4
         then case sp_parse_packet (Some (hal_raw_buffer h1)) (word_of_nat (hal_raw_index h1))
                     (Some sp_blank_packet) of
                (SP_OK, Some packet) \<Rightarrow> (True, take_packet packet h1)
              | (SP_ERR_BUFFER_TOO_SMALL, _) \<Rightarrow> (False, h1)
              | _ \<Rightarrow> (False, h1\<lparr>hal_raw_index := 0\<rparr>)
         else (False, h1))"

fun serial_loop :: "byte list \<Rightarrow> hal \<Rightarrow> hal" where
  "serial_loop [] h = h\<lparr>serial_in := []\<rparr>"
| "serial_loop (b # bs) h =
     (case serial_byte b h of
        (True, h') \<Rightarrow> h'\<lparr>serial_in := bs\<rparr>
      | (False, h') \<Rightarrow> serial_loop bs h')"

definition process_serial :: "hal \<Rightarrow> hal" where
  "process_serial h = (if hal_pkt_ready h then h else serial_loop (serial_in h) h)"

definition HAL_read :: "int \<Rightarrow> hal \<Rightarrow> int \<times> hal" where
  "HAL_read fd h =
     (if fd = FD_STDIN then
        let h1 = process_serial h in
        if hal_pkt_ready h1 then
          if hal_pkt_read_pos h1 < hal_pkt_len h1
          then (uint (hal_pkt_payload h1 ! hal_pkt_read_pos h1),
                h1\<lparr>hal_pkt_read_pos := Suc (hal_pkt_read_pos h1)\<rparr>)
          else (-1, h1\<lparr>hal_pkt_ready := False\<rparr>)
        else (-1, h1)
      else (-1, h))"

text \<open>\<open>HAL_readPacket\<close> returns the length (-1 for no packet), the command (unchanged when there is
  no packet) and the caller's payload buffer.\<close>

definition HAL_readPacket ::
    "vint \<Rightarrow> byte list \<Rightarrow> nat \<Rightarrow> hal \<Rightarrow> int \<times> vint \<times> byte list \<times> hal" where
  "HAL_readPacket cmd_out payload_out max_len h =
     (let h1 = process_serial h in
      if hal_pkt_ready h1 then
        let len = (if hal_pkt_len h1 > max_len then max_len else hal_pkt_len h1);
            po = (if len > 0 then put_at 0 (take len (hal_pkt_payload h1)) payload_out
                  else payload_out)
        in (int len, hal_pkt_cmd h1, po, h1\<lparr>hal_pkt_ready := False, hal_pkt_read_pos := 0\<rparr>)
      else (-1, cmd_out, payload_out, h1))"

definition HAL_pushInput :: "byte list \<Rightarrow> nat \<Rightarrow> hal \<Rightarrow> hal" where
  "HAL_pushInput data len h = h"

text \<open>\<open>HAL_init\<close>; \<open>sd_ok\<close> is the answer of \<open>sd.begin\<close>.\<close>

definition HAL_init :: "bool \<Rightarrow> hal \<Rightarrow> hal" where
  "HAL_init sd_ok h =
     (let h1 = h\<lparr>hal_raw_index := 0, hal_pkt_ready := False\<rparr>
      in if \<not> sd_ok then HAL_write_str FD_STDERR (lit ''SD Init Failed!'' @ [10]) h1 else h1)"

section \<open>Well-formedness of the HAL state\<close>

definition wf_hal :: "hal \<Rightarrow> bool" where
  "wf_hal h \<longleftrightarrow> length (hal_tx_buffer h) = 512 \<and> length (hal_raw_buffer h) = 256 \<and>
     hal_raw_index h \<le> 256 \<and> length (hal_pkt_payload h) = 256 \<and> hal_pkt_len h \<le> 244 \<and>
     hal_pkt_read_pos h \<le> hal_pkt_len h"

lemma wf_hal_zero: "wf_hal hal_zero"
  by (simp add: wf_hal_def hal_zero_def)

lemma sp_encode_take:
  "sp_encode_packet_buffer (Some pl) plen fr pt uf ob cap ol =
   sp_encode_packet_buffer (Some (take (unat plen) pl)) plen fr pt uf ob cap ol"
  by (simp add: sp_encode_packet_buffer_def Let_def cong: if_cong option.case_cong)

text \<open>The wire image of a text: one unfragmented string packet.\<close>

abbreviation text_packet :: "vint \<Rightarrow> byte list \<Rightarrow> byte list" where
  "text_packet cmd text \<equiv> sp_packet text SP_UNFRAGED PT_STRING cmd"

lemma send_packet_eq:
  assumes "wf_hal h" "cmd \<le> 0x3FF"
  shows "send_packet cmd text h =
    (let t = take (length text mod 4294967296) text in
     if length t \<le> 500
     then h\<lparr>hal_tx_buffer := put_at 0 (text_packet cmd t) (hal_tx_buffer h),
            serial_out := serial_out h @ text_packet cmd t\<rparr>
     else h)"
proof -
  define t where "t = take (length text mod 4294967296) text"
  define plen where "plen = (word_of_nat (length text) :: 32 word)"
  have plen: "unat plen = length text mod 4294967296" by (simp add: plen_def unat_of_nat)
  have lt: "unat plen = length t"
    using mod_less_eq_dividend [of "length text" 4294967296] by (simp add: plen t_def min_def)
  have enc: "sp_encode_packet_buffer (Some text) plen SP_UNFRAGED PT_STRING cmd
      (Some (hal_tx_buffer h)) 512 (Some 0) =
    sp_encode_packet_buffer (Some t) plen SP_UNFRAGED PT_STRING cmd
      (Some (hal_tx_buffer h)) 512 (Some 0)"
    by (subst sp_encode_take) (simp add: plen t_def)
  show ?thesis
  proof (cases "length t \<le> 500")
    case True
    have "unat (word_of_nat (12 + length t) :: 32 word) = 12 + length t"
      by (rule unat_of_nat_small) (use True in simp)
    moreover have "take (12 + length t) (put_at 0 (text_packet cmd t) (hal_tx_buffer h))
        = text_packet cmd t"
      using take_put_at_0 [of "text_packet cmd t" "hal_tx_buffer h"] by simp
    ultimately show ?thesis
      using True assms lt
      by (simp add: send_packet_def plen_def [symmetric] t_def [symmetric] Let_def enc
          sp_encode_ok wf_hal_def del: of_nat_add)
  next
    case False
    have "fst (sp_encode_packet_buffer (Some t) plen SP_UNFRAGED PT_STRING cmd
          (Some (hal_tx_buffer h)) 512 (Some 0)) = SP_ERR_BUFFER_TOO_SMALL"
      and "snd (sp_encode_packet_buffer (Some t) plen SP_UNFRAGED PT_STRING cmd
          (Some (hal_tx_buffer h)) 512 (Some 0)) = (Some (hal_tx_buffer h), Some 0)"
      using sp_encode_result_codes [of "Some t" plen SP_UNFRAGED PT_STRING cmd "hal_tx_buffer h" 512 0]
        assms False lt by (auto simp: sp_args_ok_def)
    then have "sp_encode_packet_buffer (Some t) plen SP_UNFRAGED PT_STRING cmd
          (Some (hal_tx_buffer h)) 512 (Some 0) =
        (SP_ERR_BUFFER_TOO_SMALL, Some (hal_tx_buffer h), Some 0)"
      by (metis prod.collapse)
    then show ?thesis
      using False by (simp add: send_packet_def plen_def [symmetric] t_def [symmetric] Let_def enc)
  qed
qed

lemma wf_send_packet: "wf_hal h \<Longrightarrow> cmd \<le> 0x3FF \<Longrightarrow> wf_hal (send_packet cmd text h)"
  by (simp add: send_packet_eq Let_def) (auto simp: wf_hal_def)

lemma wf_HAL_write [simp]:
  assumes "wf_hal h"
  shows "wf_hal (HAL_write_str fd text h)" "wf_hal (HAL_write_int fd num h)"
    "wf_hal (HAL_writeChar fd c h)"
  using assms by (simp_all add: HAL_write_str_def HAL_write_int_def HAL_writeChar_def Let_def wf_send_packet)


lemma wf_take_packet:
  assumes "wf_hal h" and ok: "sp_parse_packet (Some (hal_raw_buffer h)) n (Some out) = (SP_OK, Some q)"
    and n: "unat n \<le> 256"
  shows "wf_hal (take_packet q h)"
proof -
  note f = sp_parse_SP_OK [OF ok]
  have pl: "unat (payload_length q) \<le> 244" using f n by linarith
  have r: "hal_raw_index h - c \<le> 256" "length (take (hal_raw_index h - c) (drop c (hal_raw_buffer h))) \<le> 256" for c
    using assms(1) by (auto simp: wf_hal_def)
  show ?thesis
    using assms(1) pl r by (auto simp: take_packet_def Let_def wf_hal_def)
qed

lemma wf_serial_byte: "wf_hal h \<Longrightarrow> wf_hal (snd (serial_byte b h))"
proof -
  assume wf: "wf_hal h"
  define i where "i = (if hal_raw_index h \<ge> HAL_RX_RAW_SIZE then 0 else hal_raw_index h)"
  define h1 where "h1 = h\<lparr>hal_raw_buffer := (hal_raw_buffer h)[i := b], hal_raw_index := Suc i\<rparr>"
  have i: "i < 256" by (simp add: i_def)
  have wf1: "wf_hal h1" using wf i by (simp add: h1_def wf_hal_def)
  have n: "unat (word_of_nat (hal_raw_index h1) :: 32 word) \<le> 256"
  proof -
    have "unat (word_of_nat (Suc i) :: 32 word) = Suc i"
      by (rule unat_of_nat_small) (use i in simp)
    with i show ?thesis by (simp add: h1_def del: of_nat_Suc)
  qed
  show ?thesis
    unfolding serial_byte_def i_def [symmetric] Let_def h1_def [symmetric]
    using wf1 wf_take_packet [OF wf1 _ n]
    by (auto simp: wf_hal_def [of "h1\<lparr>hal_raw_index := 0\<rparr>"] wf_hal_def [of h1]
        split: sp_result.splits option.splits prod.splits)
qed

lemma wf_serial_loop: "wf_hal h \<Longrightarrow> wf_hal (serial_loop bs h)"
proof (induction bs arbitrary: h)
  case Nil
  then show ?case by (simp add: wf_hal_def)
next
  case (Cons b bs)
  obtain fin h' where e: "serial_byte b h = (fin, h')" by fastforce
  with wf_serial_byte [OF Cons.prems, of b] have "wf_hal h'" by simp
  with Cons.IH e show ?case by (cases fin) (auto simp: wf_hal_def)
qed

lemma wf_process_serial: "wf_hal h \<Longrightarrow> wf_hal (process_serial h)"
  by (simp add: process_serial_def wf_serial_loop)

lemma wf_HAL_read: "wf_hal h \<Longrightarrow> wf_hal (snd (HAL_read fd h))"
  using wf_process_serial [of h] by (auto simp: HAL_read_def Let_def wf_hal_def)

lemma wf_HAL_readPacket: "wf_hal h \<Longrightarrow> HAL_readPacket c po n h = (l, c', po', h') \<Longrightarrow> wf_hal h'"
  using wf_process_serial [of h] by (auto simp: HAL_readPacket_def Let_def wf_hal_def split: if_splits)

section \<open>Receiving one packet byte by byte\<close>

lemma serial_byte_partial:
  assumes wf: "wf_hal h" and args: "sp_args_ok fr pt uf"
    and pkt: "sp_packet pl fr pt uf = xs @ b # ys" "length pl \<le> 244"
    and idx: "hal_raw_index h = length xs" "take (length xs) (hal_raw_buffer h) = xs"
    and ys: "ys \<noteq> []"
  shows "serial_byte b h = (False, h\<lparr>hal_raw_buffer := (hal_raw_buffer h)[length xs := b],
     hal_raw_index := Suc (length xs)\<rparr>)"
proof -
  have len: "length xs + Suc (length ys) = 12 + length pl"
    using arg_cong [OF pkt(1), of length] by simp
  moreover have "0 < length ys" using ys by simp
  ultimately have i: "length xs < 256" "0 < length ys" "length xs < 11 + length pl"
    using pkt(2) by linarith+
  let ?raw = "(hal_raw_buffer h)[length xs := b]"
  have raw: "take (Suc (length xs)) ?raw = xs @ [b]"
    using idx(2) i wf by (simp add: take_Suc_conv_app_nth wf_hal_def)
  show ?thesis
  proof (cases "12 \<le> Suc (length xs)")
    case True
    have "take 8 ?raw = take 8 (take (Suc (length xs)) ?raw)"
      using True by (simp add: min_def)
    also have "\<dots> = take 8 (xs @ [b])" by (simp only: raw)
    also have "\<dots> = take 8 (sp_packet pl fr pt uf)"
      using True by (simp add: pkt(1))
    finally have hd: "take 8 ?raw = take 8 (sp_packet pl fr pt uf)" .
    have "unat (word_of_nat (Suc (length xs)) :: 32 word) = Suc (length xs)"
      by (rule unat_of_nat_small) (use i in simp)
    then have "sp_parse_packet (Some ?raw) (word_of_nat (Suc (length xs))) (Some sp_blank_packet)
        = (SP_ERR_BUFFER_TOO_SMALL, Some sp_blank_packet)"
      using hd wf len i pkt(2) by (intro sp_parse_incomplete) (auto simp: wf_hal_def)
    with i idx True show ?thesis by (simp add: serial_byte_def Let_def)
  next
    case False
    with i idx show ?thesis by (simp add: serial_byte_def Let_def)
  qed
qed

lemma serial_byte_final:
  assumes wf: "wf_hal h" and args: "sp_args_ok fr pt uf"
    and pkt: "sp_packet pl fr pt uf = xs @ [b]" "length pl \<le> 244"
    and idx: "hal_raw_index h = length xs" "take (length xs) (hal_raw_buffer h) = xs"
  shows "serial_byte b h = (True, h\<lparr>hal_raw_buffer := (hal_raw_buffer h)[length xs := b],
     hal_raw_index := 0, hal_pkt_cmd := uf, hal_pkt_len := length pl,
     hal_pkt_payload := put_at 0 pl (hal_pkt_payload h), hal_pkt_read_pos := 0,
     hal_pkt_ready := True\<rparr>)"
proof -
  have len: "Suc (length xs) = 12 + length pl"
    using arg_cong [OF pkt(1), of length] by simp
  then have i: "length xs < 256" using pkt(2) by simp
  let ?raw = "(hal_raw_buffer h)[length xs := b]"
  have "take (Suc (length xs)) ?raw = xs @ [b]"
    using idx(2) i wf by (simp add: take_Suc_conv_app_nth wf_hal_def)
  then have raw: "?raw = sp_packet pl fr pt uf @ drop (Suc (length xs)) ?raw"
    unfolding pkt(1) by (metis append_take_drop_id)
  have n: "unat (word_of_nat (Suc (length xs)) :: 32 word) = Suc (length xs)"
    by (rule unat_of_nat_small) (use i in simp)
  have small: "12 + length pl < 2 ^ 32" using pkt(2) by simp
  note t = take_bit_total [OF small]
  have ok: "sp_parse_packet (Some ?raw) (word_of_nat (Suc (length xs))) (Some sp_blank_packet) =
    (SP_OK, Some \<lparr> protocol_version = 1, packet_length = word_of_nat (12 + length pl),
       fragment_flag = fr, payload_type = pt, user_field = uf,
       payload = drop 8 (sp_packet pl fr pt uf) @ drop (Suc (length xs)) ?raw,
       payload_length = word_of_nat (length pl) \<rparr>)" (is "_ = (_, Some ?q)")
    by (subst raw, rule sp_parse_complete [OF args]) (simp only: n, simp add: len)
  have pn: "unat (word_of_nat (length pl) :: 32 word) = length pl"
    by (rule unat_of_nat_small) (use small in simp)
  have "take_packet ?q (h\<lparr>hal_raw_buffer := ?raw, hal_raw_index := Suc (length xs)\<rparr>) =
    h\<lparr>hal_raw_buffer := ?raw, hal_raw_index := 0, hal_pkt_cmd := uf, hal_pkt_len := length pl,
     hal_pkt_payload := put_at 0 pl (hal_pkt_payload h), hal_pkt_read_pos := 0,
     hal_pkt_ready := True\<rparr>"
    using pkt(2) by (simp add: take_packet_def Let_def pn t(3,4) len del: of_nat_add take_append)
  with ok i idx len show ?thesis by (simp add: serial_byte_def Let_def del: of_nat_add of_nat_Suc)
qed


lemma serial_loop_receives:
  assumes "sp_args_ok fr pt uf" "length pl \<le> 244" "sp_packet pl fr pt uf = xs @ ys" "ys \<noteq> []"
    and "wf_hal h" "hal_raw_index h = length xs" "take (length xs) (hal_raw_buffer h) = xs"
  shows "\<exists>raw. length raw = 256 \<and> serial_loop (ys @ rest) h =
    h\<lparr>hal_raw_buffer := raw, hal_raw_index := 0, hal_pkt_cmd := uf, hal_pkt_len := length pl,
      hal_pkt_payload := put_at 0 pl (hal_pkt_payload h), hal_pkt_read_pos := 0,
      hal_pkt_ready := True, serial_in := rest\<rparr>"
  using assms
proof (induction ys arbitrary: xs h)
  case (Cons b ys)
  let ?raw = "(hal_raw_buffer h)[length xs := b]"
  have l: "length ?raw = 256" using Cons.prems(5) by (simp add: wf_hal_def)
  show ?case
  proof (cases "ys = []")
    case True
    with Cons.prems have "serial_byte b h = (True, h\<lparr>hal_raw_buffer := ?raw,
       hal_raw_index := 0, hal_pkt_cmd := uf, hal_pkt_len := length pl,
       hal_pkt_payload := put_at 0 pl (hal_pkt_payload h), hal_pkt_read_pos := 0,
       hal_pkt_ready := True\<rparr>)"
      by (intro serial_byte_final) auto
    with True l show ?thesis by (intro exI [of _ ?raw]) simp
  next
    case False
    let ?h = "h\<lparr>hal_raw_buffer := ?raw, hal_raw_index := Suc (length xs)\<rparr>"
    have step: "serial_byte b h = (False, ?h)"
      using Cons.prems False by (intro serial_byte_partial) auto
    have len: "length xs + Suc (length ys) = 12 + length pl"
      using arg_cong [OF Cons.prems(3), of length] by simp
    then have i: "length xs < 256" using Cons.prems(2) False by (cases ys) auto
    have "\<exists>raw. length raw = 256 \<and> serial_loop (ys @ rest) ?h =
      ?h\<lparr>hal_raw_buffer := raw, hal_raw_index := 0, hal_pkt_cmd := uf, hal_pkt_len := length pl,
      hal_pkt_payload := put_at 0 pl (hal_pkt_payload ?h), hal_pkt_read_pos := 0,
      hal_pkt_ready := True, serial_in := rest\<rparr>"
    proof (rule Cons.IH [of "xs @ [b]" ?h])
      show "sp_packet pl fr pt uf = (xs @ [b]) @ ys" using Cons.prems(3) by simp
      show "wf_hal ?h" using Cons.prems(5) i by (simp add: wf_hal_def)
      show "take (length (xs @ [b])) (hal_raw_buffer ?h) = xs @ [b]"
        using Cons.prems i by (simp add: take_Suc_conv_app_nth wf_hal_def)
    qed (use Cons.prems False in simp_all)
    with step show ?thesis by simp
  qed
qed simp

lemma process_serial_facts:
  assumes "sp_args_ok fr pt uf" "length pl \<le> 244" "wf_hal h" "\<not> hal_pkt_ready h"
    and "hal_raw_index h = 0" "serial_in h = sp_packet pl fr pt uf @ rest"
  shows "hal_pkt_ready (process_serial h) \<and> hal_pkt_cmd (process_serial h) = uf \<and>
    take (hal_pkt_len (process_serial h)) (hal_pkt_payload (process_serial h)) = pl \<and>
    hal_pkt_len (process_serial h) = length pl \<and> hal_pkt_read_pos (process_serial h) = 0 \<and>
    hal_raw_index (process_serial h) = 0 \<and> serial_in (process_serial h) = rest"
proof -
  have "sp_packet pl fr pt uf \<noteq> []"
    using length_sp_packet [of pl fr pt uf] by (metis add_is_0 list.size(3) zero_neq_numeral)
  then obtain raw where "serial_loop (sp_packet pl fr pt uf @ rest) h =
    h\<lparr>hal_raw_buffer := raw, hal_raw_index := 0, hal_pkt_cmd := uf, hal_pkt_len := length pl,
      hal_pkt_payload := put_at 0 pl (hal_pkt_payload h), hal_pkt_read_pos := 0,
      hal_pkt_ready := True, serial_in := rest\<rparr>"
    using serial_loop_receives [of fr pt uf pl "[]" "sp_packet pl fr pt uf" h rest] assms by auto
  with assms show ?thesis by (simp add: process_serial_def)
qed



theorem hal_text_roundtrip:
  assumes "wf_hal tx" "length text \<le> 244"
    and rx: "wf_hal rx" "\<not> hal_pkt_ready rx" "hal_raw_index rx = 0"
    and line: "serial_out (HAL_write_str fd text tx) = serial_out tx @ bytes"
      "serial_in rx = bytes @ rest"
    and "length po = 256"
  shows "\<exists>rx'. HAL_readPacket c po 256 rx =
      (int (length text), if fd = FD_STDERR then CMD_STDERR else CMD_STDOUT, put_at 0 text po, rx')
    \<and> \<not> hal_pkt_ready rx' \<and> serial_in rx' = rest"
proof -
  define cmd where "cmd = (if fd = FD_STDERR then CMD_STDERR else CMD_STDOUT)"
  have cmd: "cmd \<le> 0x3FF" "sp_args_ok SP_UNFRAGED PT_STRING cmd"
    by (simp_all add: cmd_def sp_args_ok_def)
  have "bytes = text_packet cmd text"
    using line(1) assms(1,2) cmd(1)
    by (simp add: HAL_write_str_def cmd_def [symmetric] send_packet_eq Let_def)
  with line(2) have "serial_in rx = text_packet cmd text @ rest" by simp
  from process_serial_facts [OF cmd(2) assms(2) rx this] assms(2)
  show ?thesis
    by (auto simp: HAL_readPacket_def Let_def cmd_def)
qed

theorem hal_text_roundtrip_witness:
  "\<exists>rx'. HAL_readPacket 0 (replicate 256 0) 256
      (hal_zero\<lparr>serial_in := text_packet CMD_STDERR [104, 105]\<rparr>) =
      (2, CMD_STDERR, put_at 0 [104, 105] (replicate 256 0), rx') \<and> serial_in rx' = []"
proof -
  let ?rx = "hal_zero\<lparr>serial_in := text_packet CMD_STDERR [104, 105]\<rparr>"
  have w: "wf_hal ?rx" using wf_hal_zero by (simp add: wf_hal_def)
  have "serial_out (HAL_write_str FD_STDERR [104, 105] hal_zero)
      = serial_out hal_zero @ text_packet CMD_STDERR [104, 105]"
    by (simp add: HAL_write_str_def Let_def send_packet_eq [OF wf_hal_zero])
  from hal_text_roundtrip [OF wf_hal_zero _ w _ _ this, of "[]" "replicate 256 0" 0]
  show ?thesis by (auto simp: hal_zero_def)
qed

text \<open>\<open>read_n k h\<close> calls \<open>HAL_read(FD_STDIN)\<close> \<open>k\<close> times.\<close>

fun read_n :: "nat \<Rightarrow> hal \<Rightarrow> int list \<times> hal" where
  "read_n 0 h = ([], h)"
| "read_n (Suc k) h =
     (let (c, h1) = HAL_read FD_STDIN h; (cs, h2) = read_n k h1 in (c # cs, h2))"

theorem hal_read_drains_packet:
  assumes "hal_pkt_ready h" "hal_pkt_read_pos h \<le> hal_pkt_len h" "hal_pkt_len h \<le> length (hal_pkt_payload h)"
  shows "read_n (Suc (hal_pkt_len h - hal_pkt_read_pos h)) h =
    (map uint (drop (hal_pkt_read_pos h) (take (hal_pkt_len h) (hal_pkt_payload h))) @ [- 1],
     h\<lparr>hal_pkt_read_pos := hal_pkt_len h, hal_pkt_ready := False\<rparr>)"
  using assms
proof (induction "hal_pkt_len h - hal_pkt_read_pos h" arbitrary: h)
  case 0
  then show ?case by (simp add: HAL_read_def process_serial_def)
next
  case (Suc k)
  let ?h = "h\<lparr>hal_pkt_read_pos := Suc (hal_pkt_read_pos h)\<rparr>"
  have k: "hal_pkt_len h - hal_pkt_read_pos h = Suc k" using Suc.hyps by simp
  then have lt: "hal_pkt_read_pos h < hal_pkt_len h" by simp
  have step: "HAL_read FD_STDIN h = (uint (hal_pkt_payload h ! hal_pkt_read_pos h), ?h)"
    using Suc.prems lt by (simp add: HAL_read_def process_serial_def)
  have "read_n (Suc (hal_pkt_len ?h - hal_pkt_read_pos ?h)) ?h =
    (map uint (drop (hal_pkt_read_pos ?h) (take (hal_pkt_len ?h) (hal_pkt_payload ?h))) @ [- 1],
     ?h\<lparr>hal_pkt_read_pos := hal_pkt_len ?h, hal_pkt_ready := False\<rparr>)"
    using Suc.prems lt k by (intro Suc.hyps) auto
  moreover have "hal_pkt_len ?h - hal_pkt_read_pos ?h = k" using k by simp
  moreover have "drop (hal_pkt_read_pos h) (take (hal_pkt_len h) (hal_pkt_payload h)) =
      hal_pkt_payload h ! hal_pkt_read_pos h
      # drop (Suc (hal_pkt_read_pos h)) (take (hal_pkt_len h) (hal_pkt_payload h))"
    using Suc.prems lt by (subst Cons_nth_drop_Suc [symmetric]) auto
  ultimately show ?case
    using k step by (simp del: read_n.simps(2) add: read_n.simps(2) [of "Suc k"])
qed

theorem hal_read_drains_packet_witness:
  "read_n 3 (hal_zero\<lparr>hal_pkt_ready := True, hal_pkt_len := 2,
      hal_pkt_payload := put_at 0 [7, 8] (replicate 256 0)\<rparr>) =
   ([7, 8, -1], hal_zero\<lparr>hal_pkt_ready := False, hal_pkt_len := 2, hal_pkt_read_pos := 2,
      hal_pkt_payload := put_at 0 [7, 8] (replicate 256 0)\<rparr>)"
proof -
  let ?h = "hal_zero\<lparr>hal_pkt_ready := True, hal_pkt_len := 2,
      hal_pkt_payload := put_at 0 [7, 8] (replicate 256 0)\<rparr>"
  have "put_at 0 [7, 8] (replicate 256 0) = [7, 8] @ replicate 254 (0 :: byte)"
    by (simp add: put_at_def)
  with hal_read_drains_packet [of ?h] show ?thesis by (simp add: hal_zero_def numeral_3_eq_3)
qed

lemma serial_byte_bad_length:
  assumes wf: "wf_hal h" and idx: "hal_raw_index h < 256"
    and bad: "8 \<le> hal_raw_index h \<Longrightarrow>
      drop_bit 4 (le_word 8 (hal_raw_buffer h) :: 64 word) AND 0x1FFFFFFFFFFF < 12"
  shows "serial_byte b h = (False, h\<lparr>hal_raw_buffer := (hal_raw_buffer h)[hal_raw_index h := b],
     hal_raw_index := Suc (hal_raw_index h)\<rparr>)"
proof (cases "12 \<le> Suc (hal_raw_index h)")
  case True
  have "(le_word 8 ((hal_raw_buffer h)[hal_raw_index h := b]) :: 64 word)
      = le_word 8 (hal_raw_buffer h)"
    by (rule le_word_cong) (use True in simp)
  then have "drop_bit 4 (le_word 8 ((hal_raw_buffer h)[hal_raw_index h := b]) :: 64 word)
      AND 0x1FFFFFFFFFFF < 8 + 4"
    using bad True by simp
  then have "sp_parse_packet (Some ((hal_raw_buffer h)[hal_raw_index h := b]))
      (word_of_nat (Suc (hal_raw_index h))) (Some sp_blank_packet)
    = (SP_ERR_BUFFER_TOO_SMALL, Some sp_blank_packet)"
    by (simp add: sp_parse_packet_def Let_def)
  with True idx show ?thesis by (simp add: serial_byte_def Let_def)
next
  case False
  with idx show ?thesis by (simp add: serial_byte_def Let_def)
qed

lemma serial_loop_bad_length:
  assumes "wf_hal h" "hal_raw_index h + length bs \<le> 256"
    and "8 \<le> hal_raw_index h"
    and "drop_bit 4 (le_word 8 (hal_raw_buffer h) :: 64 word) AND 0x1FFFFFFFFFFF < 12"
  shows "hal_raw_index (serial_loop bs h) = hal_raw_index h + length bs \<and>
    hal_pkt_ready (serial_loop bs h) = hal_pkt_ready h \<and>
    serial_out (serial_loop bs h) = serial_out h \<and> serial_in (serial_loop bs h) = []"
  using assms
proof (induction bs arbitrary: h)
  case (Cons b bs)
  let ?h = "h\<lparr>hal_raw_buffer := (hal_raw_buffer h)[hal_raw_index h := b],
     hal_raw_index := Suc (hal_raw_index h)\<rparr>"
  have step: "serial_byte b h = (False, ?h)"
    using Cons.prems by (intro serial_byte_bad_length) auto
  have "(le_word 8 (hal_raw_buffer ?h) :: 64 word) = le_word 8 (hal_raw_buffer h)"
    using Cons.prems(3) by (simp, intro le_word_cong) simp
  moreover have "wf_hal ?h" using Cons.prems by (simp add: wf_hal_def)
  ultimately show ?case using Cons.IH [of ?h] Cons.prems step by simp
qed simp

theorem bad_length_header_swallows_input:
  assumes "wf_hal h" "\<not> hal_pkt_ready h" "hal_raw_index h = 8"
    and "drop_bit 4 (le_word 8 (hal_raw_buffer h) :: 64 word) AND 0x1FFFFFFFFFFF < 12"
    and "length (serial_in h) \<le> 248"
  shows "\<not> hal_pkt_ready (process_serial h) \<and> serial_in (process_serial h) = [] \<and>
    hal_raw_index (process_serial h) = 8 + length (serial_in h)"
  using serial_loop_bad_length [of h "serial_in h"] assms by (simp add: process_serial_def)

theorem bad_length_header_swallows_input_witness:
  "\<not> hal_pkt_ready (process_serial (hal_zero\<lparr>hal_raw_index := 8,
      serial_in := sp_packet [0x2F] SP_UNFRAGED 1 3\<rparr>))"
proof -
  let ?h = "hal_zero\<lparr>hal_raw_index := 8, serial_in := sp_packet [0x2F] SP_UNFRAGED 1 3\<rparr>"
  have w: "wf_hal ?h" using wf_hal_zero by (simp add: wf_hal_def)
  have z: "(le_word 8 (replicate 256 0) :: 64 word) = 0"
  proof (rule bit_word_eqI)
    fix n assume "n < LENGTH(64)"
    then have "n div 8 < 256" by simp
    then show "bit (le_word 8 (replicate 256 0) :: 64 word) n = bit 0 n"
      by (simp add: bit_le_word)
  qed
  show ?thesis
    using bad_length_header_swallows_input [OF w] z by (simp add: hal_zero_def)
qed

theorem hal_ops_preserve_wf:
  assumes "wf_hal h"
  shows "wf_hal (HAL_write_str fd text h) \<and> wf_hal (HAL_write_int fd num h) \<and>
    wf_hal (HAL_writeChar fd c h) \<and> wf_hal (process_serial h) \<and> wf_hal (snd (HAL_read fd h)) \<and>
    wf_hal (snd (snd (snd (HAL_readPacket cmd po n h)))) \<and> wf_hal (HAL_init ok h)"
proof -
  have "wf_hal (h\<lparr>hal_raw_index := 0, hal_pkt_ready := False\<rparr>)"
    using assms by (simp add: wf_hal_def)
  then have "wf_hal (HAL_init ok h)" by (simp add: HAL_init_def Let_def)
  moreover have "wf_hal (snd (snd (snd (HAL_readPacket cmd po n h))))"
    using wf_HAL_readPacket [OF assms] by (metis prod.collapse)
  ultimately show ?thesis
    using assms by (simp add: wf_process_serial wf_HAL_read)
qed

theorem hal_ops_preserve_wf_witness:
  "wf_hal (snd (HAL_read FD_STDIN (hal_zero\<lparr>serial_in := [1, 2, 3]\<rparr>)))"
proof -
  have w: "wf_hal (hal_zero\<lparr>serial_in := [1, 2, 3]\<rparr>)" using wf_hal_zero by (simp add: wf_hal_def)
  from hal_ops_preserve_wf [OF w] show ?thesis by blast
qed

section \<open>Output around reception\<close>


lemma serial_byte_out: "serial_out (snd (serial_byte b h)) = serial_out h"
  by (auto simp: serial_byte_def take_packet_def Let_def split: prod.split sp_result.split option.split)

lemma serial_loop_out: "serial_out (serial_loop bs h) = serial_out h"
proof (induction bs arbitrary: h)
  case (Cons b bs)
  obtain d h' where s: "serial_byte b h = (d, h')" by fastforce
  then have "serial_out h' = serial_out h" using serial_byte_out [of b h] by simp
  then show ?case using Cons.IH [of h'] s by (cases d) simp_all
qed simp

lemma process_serial_out: "serial_out (process_serial h) = serial_out h"
  by (simp add: process_serial_def serial_loop_out)

lemma HAL_write_str_out:
  assumes "wf_hal h" "length t \<le> 500"
  shows "serial_out (HAL_write_str FD_STDOUT t h) = serial_out h @ text_packet CMD_STDOUT t"
    "serial_in (HAL_write_str fd t h) = serial_in h"
  using assms by (simp_all add: HAL_write_str_def send_packet_eq Let_def)

lemma readPacket_receives:
  assumes "sp_args_ok fr pt uf" "length pl \<le> 244" "wf_hal h" "\<not> hal_pkt_ready h"
    and "hal_raw_index h = 0" "serial_in h = sp_packet pl fr pt uf @ rest"
  shows "\<exists>h' po. HAL_readPacket c out 256 h = (int (length pl), uf, po, h') \<and>
    (po = (if pl = [] then out else put_at 0 pl out)) \<and>
    \<not> hal_pkt_ready h' \<and> hal_raw_index h' = 0 \<and> serial_in h' = rest \<and> serial_out h' = serial_out (process_serial h) \<and> wf_hal h'"
proof -
  obtain l c' po h' where r: "HAL_readPacket c out 256 h = (l, c', po, h')" by (metis prod_cases4)
  show ?thesis
    using process_serial_facts [OF assms] assms(2) r wf_HAL_readPacket [OF assms(3) r]
    by (auto simp: HAL_readPacket_def Let_def)
qed

end
