(* ===== verification/KernelState.thy ===== *)
theory KernelState
  imports HAL
begin

text \<open>
  The kernel's data: the task control block of \<open>src/Task.h\<close>, the global state of
  \<open>src/Kernel.cpp\<close> and \<open>src/Communication.cpp\<close>, and the file-system operations of \<open>SdFat\<close> the kernel
  calls. A \<open>Task*\<close> is the index of the task in the table. \<open>int\<close> fields that only hold small
  indices are HOL integers; VM data (stack and heap cells) are 16-bit words.
\<close>

abbreviation (input) TASK_COUNT :: nat where "TASK_COUNT \<equiv> 3"
abbreviation (input) CODE_BUFFER_SIZE :: nat where "CODE_BUFFER_SIZE \<equiv> 32"
abbreviation (input) VM_STACK_SIZE :: nat where "VM_STACK_SIZE \<equiv> 64"
abbreviation (input) GLOBAL_HEAP_SIZE :: int where "GLOBAL_HEAP_SIZE \<equiv> 1024"
abbreviation (input) DEFAULT_TASK_HEAP_SIZE :: int where "DEFAULT_TASK_HEAP_SIZE \<equiv> 256"
abbreviation (input) MAX_ALLOCATIONS :: nat where "MAX_ALLOCATIONS \<equiv> 4"
abbreviation (input) TASK_FREE :: int where "TASK_FREE \<equiv> - 2"
abbreviation (input) TASK_RUNNING :: int where "TASK_RUNNING \<equiv> - 1"

section \<open>The task control block\<close>

record alloc_entry =
  a_ptr :: int
  a_size :: int

record 'f task =
  tid :: int
  task_state :: int
  filename :: "byte list"
  wake_up_time :: "32 word"
  args :: "byte list"
  cwd :: "byte list"
  stack :: "vint list"
  sp :: int
  heap_base :: int
  heap_limit :: int
  alloc_table :: "alloc_entry list"
  t_file :: 'f
  code_buffer :: "byte list"
  buffer_index :: int

definition isActive :: "'f task \<Rightarrow> bool" where
  "isActive t \<longleftrightarrow> task_state t \<noteq> TASK_FREE"

definition isRunnable :: "'f task \<Rightarrow> bool" where
  "isRunnable t \<longleftrightarrow> task_state t = TASK_RUNNING"

definition getWaitingFor :: "'f task \<Rightarrow> int" where
  "getWaitingFor t = (if task_state t \<ge> 0 then task_state t else - 1)"

text \<open>\<open>task_state\<close> is an \<open>int8_t\<close>: the cast keeps 8 bits.\<close>

definition waitForChild :: "int \<Rightarrow> 'f task \<Rightarrow> 'f task" where
  "waitForChild child_id t = t\<lparr>task_state := signed_take_bit 7 child_id\<rparr>"

definition setRunning :: "'f task \<Rightarrow> 'f task" where
  "setRunning t = t\<lparr>task_state := TASK_RUNNING\<rparr>"

definition setFree :: "'f task \<Rightarrow> 'f task" where
  "setFree t = t\<lparr>task_state := TASK_FREE\<rparr>"

section \<open>The file system as the kernel uses it\<close>

text \<open>
  The operations of \<open>SdFat32\<close> and \<open>File32\<close> that the kernel calls, over a volume \<open>'fs\<close> and a file
  object \<open>'f\<close>. \<open>fs_read v f n\<close> is the return value, the bytes stored at the destination, the file
  and the volume; \<open>fs_openNextFile v d\<close> is the entry, the directory and the volume; \<open>fs_getName\<close>
  gives the text stored in a buffer of the given size.
\<close>

record ('fs, 'f) fsops =
  fs_open :: "'fs \<Rightarrow> byte list \<Rightarrow> 'f \<times> 'fs"
  fs_isOpen :: "'f \<Rightarrow> bool"
  fs_close :: "'fs \<Rightarrow> 'f \<Rightarrow> 'f \<times> 'fs"
  fs_read :: "'fs \<Rightarrow> 'f \<Rightarrow> nat \<Rightarrow> int \<times> byte list \<times> 'f \<times> 'fs"
  fs_available :: "'f \<Rightarrow> int"
  fs_seek :: "'fs \<Rightarrow> 'f \<Rightarrow> 32 word \<Rightarrow> bool \<times> 'f \<times> 'fs"
  fs_curPosition :: "'f \<Rightarrow> 32 word"
  fs_openNextFile :: "'fs \<Rightarrow> 'f \<Rightarrow> 'f \<times> 'f \<times> 'fs"
  fs_getName :: "'fs \<Rightarrow> 'f \<Rightarrow> nat \<Rightarrow> byte list \<times> 'fs"
  fs_isDirectory :: "'f \<Rightarrow> bool"

text \<open>
  What the kernel relies on: a read stores no more than it was asked to and returns the number of
  bytes it stored unless it failed, a name fits its buffer with
  the terminator, and a closed file is not open and has nothing available.
\<close>

definition fs_ok :: "('fs, 'f) fsops \<Rightarrow> bool" where
  "fs_ok F \<longleftrightarrow>
     (\<forall>v f n r d f' v'. fs_read F v f n = (r, d, f', v') \<longrightarrow>
         length d \<le> n \<and> (0 \<le> r \<longrightarrow> r = int (length d))) \<and>
     (\<forall>v f n s v'. 0 < n \<longrightarrow> fs_getName F v f n = (s, v') \<longrightarrow> length s < n \<and> 0 \<notin> set s) \<and>
     (\<forall>v f f' v'. fs_close F v f = (f', v') \<longrightarrow> \<not> fs_isOpen F f' \<and> fs_available F f' = 0) \<and>
     (\<forall>v f p r f' v'. fs_seek F v f p = (r, f', v') \<longrightarrow> fs_isOpen F f' = fs_isOpen F f)"

lemma fs_ok_readD:
  "fs_ok F \<Longrightarrow> fs_read F v f n = (r, d, f', v') \<Longrightarrow> length d \<le> n \<and> (0 \<le> r \<longrightarrow> r = int (length d))"
  unfolding fs_ok_def by (elim conjE) metis

lemma fs_ok_nameD:
  "fs_ok F \<Longrightarrow> 0 < n \<Longrightarrow> fs_getName F v f n = (s, v') \<Longrightarrow> length s < n \<and> 0 \<notin> set s"
  unfolding fs_ok_def by (elim conjE) metis

lemma fs_ok_closeD:
  "fs_ok F \<Longrightarrow> fs_close F v f = (f', v') \<Longrightarrow> \<not> fs_isOpen F f' \<and> fs_available F f' = 0"
  unfolding fs_ok_def by (elim conjE) metis

lemma fs_ok_seekD:
  "fs_ok F \<Longrightarrow> fs_seek F v f p = (r, f', v') \<Longrightarrow> fs_isOpen F f' = fs_isOpen F f"
  unfolding fs_ok_def by (elim conjE) metis

section \<open>The kernel's global state\<close>

record ('fs, 'f) kernel =
  tasks :: "'f task list"
  global_heap :: "vint list"
  heap_bitmap :: "byte list"
  rx_buffer :: "byte list"
  rx_index :: nat
  khal :: hal
  system_ticks :: "32 word"
  sd :: 'fs

definition upd_task :: "nat \<Rightarrow> ('f task \<Rightarrow> 'f task) \<Rightarrow> ('fs, 'f) kernel \<Rightarrow> ('fs, 'f) kernel" where
  "upd_task i f k = k\<lparr>tasks := (tasks k)[i := f (tasks k ! i)]\<rparr>"

text \<open>Output through the HAL.\<close>

definition put_str :: "int \<Rightarrow> byte list \<Rightarrow> ('fs, 'f) kernel \<Rightarrow> ('fs, 'f) kernel" where
  "put_str fd text k = k\<lparr>khal := HAL_write_str fd text (khal k)\<rparr>"

definition put_int :: "int \<Rightarrow> vint \<Rightarrow> ('fs, 'f) kernel \<Rightarrow> ('fs, 'f) kernel" where
  "put_int fd num k = k\<lparr>khal := HAL_write_int fd num (khal k)\<rparr>"

definition put_char :: "int \<Rightarrow> byte \<Rightarrow> ('fs, 'f) kernel \<Rightarrow> ('fs, 'f) kernel" where
  "put_char fd c k = k\<lparr>khal := HAL_writeChar fd c (khal k)\<rparr>"

section \<open>Frame lemmas\<close>

named_theorems frame "what an operation leaves unchanged"

lemma upd_task_frame [simp]:
  "global_heap (upd_task i f k) = global_heap k" "heap_bitmap (upd_task i f k) = heap_bitmap k"
  "rx_buffer (upd_task i f k) = rx_buffer k" "rx_index (upd_task i f k) = rx_index k"
  "khal (upd_task i f k) = khal k" "system_ticks (upd_task i f k) = system_ticks k"
  "sd (upd_task i f k) = sd k" "length (tasks (upd_task i f k)) = length (tasks k)"
  "tasks (upd_task i f k) = (tasks k)[i := f (tasks k ! i)]"
  by (simp_all add: upd_task_def)

lemma put_frame [simp]:
  "tasks (put_str fd s k) = tasks k" "tasks (put_int fd n k) = tasks k" "tasks (put_char fd c k) = tasks k"
  "global_heap (put_str fd s k) = global_heap k" "global_heap (put_int fd n k) = global_heap k"
  "global_heap (put_char fd c k) = global_heap k"
  "heap_bitmap (put_str fd s k) = heap_bitmap k" "heap_bitmap (put_int fd n k) = heap_bitmap k"
  "heap_bitmap (put_char fd c k) = heap_bitmap k"
  "rx_buffer (put_str fd s k) = rx_buffer k" "rx_buffer (put_int fd n k) = rx_buffer k"
  "rx_buffer (put_char fd c k) = rx_buffer k"
  "system_ticks (put_str fd s k) = system_ticks k" "system_ticks (put_int fd n k) = system_ticks k"
  "system_ticks (put_char fd c k) = system_ticks k"
  "sd (put_str fd s k) = sd k" "sd (put_int fd n k) = sd k" "sd (put_char fd c k) = sd k"
  "khal (put_str fd s k) = HAL_write_str fd s (khal k)"
  "khal (put_int fd n k) = HAL_write_int fd n (khal k)"
  "khal (put_char fd c k) = HAL_writeChar fd c (khal k)"
  by (simp_all add: put_str_def put_int_def put_char_def)

section \<open>Well-formed states\<close>

text \<open>
  The sizes and ranges every operation keeps. The strings \<open>args\<close> and \<open>cwd\<close> always end with a
  terminator at the last index, which is what makes \<open>strlen\<close> on them safe.
\<close>

definition wf_task :: "nat \<Rightarrow> 'f task \<Rightarrow> bool" where
  "wf_task i t \<longleftrightarrow> tid t = int i \<and> - 2 \<le> task_state t \<and> task_state t < 3 \<and>
     length (filename t) = 128 \<and> filename t ! 127 = 0 \<and>
     length (args t) = 32 \<and> args t ! 31 = 0 \<and> length (cwd t) = 32 \<and> cwd t ! 31 = 0 \<and>
     length (stack t) = 64 \<and> - 1 \<le> sp t \<and> sp t < 64 \<and>
     - 1 \<le> heap_base t \<and> heap_base t + heap_limit t \<le> 1024 \<and> 0 \<le> heap_limit t \<and>
     (heap_base t = - 1 \<longrightarrow> heap_limit t = 0) \<and>
     length (alloc_table t) = 4 \<and> length (code_buffer t) = 32 \<and>
     0 \<le> buffer_index t \<and> buffer_index t \<le> 32"

definition wf_kernel :: "('fs, 'f) kernel \<Rightarrow> bool" where
  "wf_kernel k \<longleftrightarrow> length (tasks k) = 3 \<and> (\<forall>i < 3. wf_task i (tasks k ! i)) \<and>
     length (global_heap k) = 1024 \<and> length (heap_bitmap k) = 128 \<and>
     length (rx_buffer k) = 256 \<and> wf_hal (khal k)"

lemma wf_kernelD:
  assumes "wf_kernel k"
  shows "length (tasks k) = 3" "i < 3 \<Longrightarrow> wf_task i (tasks k ! i)" "length (global_heap k) = 1024"
    "length (heap_bitmap k) = 128" "length (rx_buffer k) = 256" "wf_hal (khal k)"
  using assms by (simp_all add: wf_kernel_def)

lemma wf_kernel_put [simp]:
  assumes "wf_kernel k"
  shows "wf_kernel (put_str fd s k)" "wf_kernel (put_int fd n k)" "wf_kernel (put_char fd c k)"
  using assms by (simp_all add: wf_kernel_def)

lemma wf_kernel_upd_task:
  assumes "wf_kernel k" "wf_task i (tasks k ! i) \<Longrightarrow> wf_task i (f (tasks k ! i))" "i < 3"
  shows "wf_kernel (upd_task i f k)"
  using assms by (auto simp: wf_kernel_def nth_list_update)

lemma wf_kernel_heap:
  "wf_kernel k \<Longrightarrow> length h = 1024 \<Longrightarrow> wf_kernel (k\<lparr>global_heap := h\<rparr>)"
  by (simp add: wf_kernel_def)

lemma wf_kernel_sd [simp]: "wf_kernel (k\<lparr>sd := v\<rparr>) = wf_kernel k"
  by (simp add: wf_kernel_def)

lemma wf_kernel_ticks [simp]: "wf_kernel (k\<lparr>system_ticks := v\<rparr>) = wf_kernel k"
  by (simp add: wf_kernel_def)

lemma wf_task_states [simp]:
  assumes "wf_task i t"
  shows "wf_task i (setRunning t)" "wf_task i (setFree t)"
  using assms by (simp_all add: wf_task_def setRunning_def setFree_def)

lemma wf_task_wait: "wf_task i t \<Longrightarrow> 0 \<le> c \<Longrightarrow> c < 3 \<Longrightarrow> wf_task i (waitForChild c t)"
  by (simp add: wf_task_def waitForChild_def signed_take_bit_int_eq_self)

lemma wf_task_file [simp]: "wf_task i (t\<lparr>t_file := f\<rparr>) = wf_task i t"
  by (simp add: wf_task_def)

lemma wf_task_wake [simp]: "wf_task i (t\<lparr>wake_up_time := w\<rparr>) = wf_task i t"
  by (simp add: wf_task_def)

lemma wf_task_cstr:
  assumes "wf_task i t"
  shows "\<exists>c. cstr (cwd t) = Some c \<and> length c \<le> 31 \<and> 0 \<notin> set c"
    "\<exists>a. cstr (args t) = Some a \<and> length a \<le> 31 \<and> 0 \<notin> set a"
proof -
  have "\<exists>c. cstr b = Some c \<and> length c \<le> 31 \<and> 0 \<notin> set c"
    if "length b = 32" "b ! 31 = 0" for b :: "byte list"
  proof -
    have "0 \<in> set b" using that nth_mem [of 31 b] by simp
    then obtain c where c: "cstr b = Some c" using cstr_terminated by blast
    from cstr_SomeD [OF c] that c show ?thesis by auto
  qed
  then show "\<exists>c. cstr (cwd t) = Some c \<and> length c \<le> 31 \<and> 0 \<notin> set c"
    "\<exists>a. cstr (args t) = Some a \<and> length a \<le> 31 \<and> 0 \<notin> set a"
    using assms by (simp_all add: wf_task_def)
qed

end
