(* ===== verification/Demo.thy ===== *)
theory Demo
  imports KernelState
begin

text \<open>
  Concrete instances for the witnesses: a read-only file system over a fixed table of paths, with the
  table as its root directory, and a small kernel state. They only serve to show that the
  hypotheses of the properties can hold.
\<close>

record mem_file =
  mf_open :: bool
  mf_dir :: bool
  mf_data :: "byte list"
  mf_pos :: nat
  mf_name :: "byte list"

definition mf_closed :: mem_file where
  "mf_closed = \<lparr>mf_open = False, mf_dir = False, mf_data = [], mf_pos = 0, mf_name = []\<rparr>"

definition mem_open :: "(byte list \<times> byte list) list \<Rightarrow> byte list \<Rightarrow> mem_file" where
  "mem_open tab path =
     (if path = [47] then \<lparr>mf_open = True, mf_dir = True, mf_data = [], mf_pos = 0, mf_name = path\<rparr>
      else case map_of tab path of
          None \<Rightarrow> mf_closed
        | Some d \<Rightarrow> \<lparr>mf_open = True, mf_dir = False, mf_data = d, mf_pos = 0, mf_name = path\<rparr>)"

definition memfs :: "(byte list \<times> byte list) list \<Rightarrow> (unit, mem_file) fsops" where
  "memfs tab = \<lparr>
     fs_open = (\<lambda>v p. (mem_open tab p, v)),
     fs_isOpen = mf_open,
     fs_close = (\<lambda>v f. (mf_closed, v)),
     fs_read = (\<lambda>v f n. let d = take n (drop (mf_pos f) (mf_data f))
                in (int (length d), d, f\<lparr>mf_pos := mf_pos f + length d\<rparr>, v)),
     fs_available = (\<lambda>f. int (length (mf_data f) - mf_pos f)),
     fs_seek = (\<lambda>v f p. if unat p \<le> length (mf_data f) then (True, f\<lparr>mf_pos := unat p\<rparr>, v) else (False, f, v)),
     fs_curPosition = (\<lambda>f. word_of_nat (mf_pos f)),
     fs_openNextFile = (\<lambda>v d. if mf_pos d < length tab
         then (\<lparr>mf_open = True, mf_dir = False, mf_data = snd (tab ! mf_pos d), mf_pos = 0, mf_name = fst (tab ! mf_pos d)\<rparr>,
               d\<lparr>mf_pos := Suc (mf_pos d)\<rparr>, v)
         else (mf_closed, d, v)),
     fs_getName = (\<lambda>v f n. (take (n - 1) (takeWhile (\<lambda>b. b \<noteq> 0) (mf_name f)), v)),
     fs_isDirectory = mf_dir \<rparr>"

lemma memfs_ok: "fs_ok (memfs tab)"
  by (auto simp: fs_ok_def memfs_def Let_def mf_closed_def dest: in_set_takeD set_takeWhileD split: if_splits)

definition demo_task :: "nat \<Rightarrow> int \<Rightarrow> byte list \<Rightarrow> 'f \<Rightarrow> 'f task" where
  "demo_task i st code f = \<lparr> tid = int i, task_state = st, filename = replicate 128 0,
     wake_up_time = 0, args = replicate 32 0, cwd = 47 # replicate 31 0, stack = replicate 64 0,
     sp = - 1, heap_base = - 1, heap_limit = 0,
     alloc_table = replicate 4 \<lparr>a_ptr = - 1, a_size = 0\<rparr>, t_file = f, code_buffer = code,
     buffer_index = 0 \<rparr>"

definition demo_kernel :: "int \<Rightarrow> int \<Rightarrow> byte list \<Rightarrow> (unit, mem_file) kernel" where
  "demo_kernel st1 st2 code = \<lparr>
     tasks = [demo_task 0 (- 1) (replicate 32 0) mf_closed, demo_task 1 st1 code mf_closed,
              demo_task 2 st2 (replicate 32 0) mf_closed],
     global_heap = replicate 1024 0, heap_bitmap = replicate 128 0, rx_buffer = replicate 256 0,
     rx_index = 0, khal = hal_zero, system_ticks = 0, sd = () \<rparr>"

lemma demo_wf:
  assumes "length code = 32" "- 2 \<le> st1" "st1 < 3" "- 2 \<le> st2" "st2 < 3"
  shows "wf_kernel (demo_kernel st1 st2 code)"
proof -
  have "(47 # replicate 31 (0 :: byte)) ! 31 = 0" by (simp add: nth_Cons')
  then have "wf_task i (demo_task i st c f)" if "length c = 32" "- 2 \<le> st" "st < 3" for i st c and f :: mem_file
    using that by (simp add: wf_task_def demo_task_def)
  then show ?thesis
    using assms wf_hal_zero
    by (auto simp: wf_kernel_def demo_kernel_def less_Suc_eq numeral_3_eq_3 numeral_2_eq_2)
qed

text \<open>Task 1 running the given code.\<close>

abbreviation (input) demo_run :: "byte list \<Rightarrow> (unit, mem_file) kernel" where
  "demo_run code \<equiv> demo_kernel (- 1) (- 2) (code @ replicate (32 - length code) 0)"

end
