(* ===== verification/HeapAlloc.thy ===== *)
theory HeapAlloc
  imports Demo
begin

text \<open>
  The heap allocator of \<open>src/Kernel.cpp\<close>: the allocation bitmap, the first-fit scan shared by
  \<open>Kernel_malloc\<close> and \<open>Kernel_loadTask\<close>, \<open>Kernel_malloc\<close> and \<open>Kernel_free\<close>. The locale
  \<open>region_allocator\<close> is the interface the kernel relies on: marking and clearing index ranges. Its
  lemmas say how a family of owned blocks stays disjoint and inside the used indices; the bitmap
  operations are its interpretation.
\<close>

section \<open>The bitmap\<close>

definition is_allocated :: "byte list \<Rightarrow> int \<Rightarrow> bool" where
  "is_allocated bm idx \<longleftrightarrow> bm ! nat (idx div 8) AND push_bit (nat (idx mod 8)) 1 \<noteq> 0"

definition set_allocated :: "byte list \<Rightarrow> int \<Rightarrow> bool \<Rightarrow> byte list" where
  "set_allocated bm idx allocated =
     (let j = nat (idx div 8); m = push_bit (nat (idx mod 8)) 1
      in if allocated then bm[j := bm ! j OR m] else bm[j := bm ! j AND NOT m])"

definition set_bit_at :: "byte list \<Rightarrow> int \<Rightarrow> byte list" where
  "set_bit_at bm index =
     bm[nat (index div 8) := bm ! nat (index div 8) OR push_bit (nat (index mod 8)) 1]"

definition clear_bit_at :: "byte list \<Rightarrow> int \<Rightarrow> byte list" where
  "clear_bit_at bm index =
     bm[nat (index div 8) := bm ! nat (index div 8) AND NOT (push_bit (nat (index mod 8)) 1)]"

definition Kernel_initMemory :: "('fs, 'f) kernel \<Rightarrow> ('fs, 'f) kernel" where
  "Kernel_initMemory k = k\<lparr>heap_bitmap := replicate (length (heap_bitmap k)) 0\<rparr>"

text \<open>The loops \<open>for (k = 0; k < sz; k++) set_allocated(start + k, v)\<close>.\<close>

definition mark_range :: "byte list \<Rightarrow> int \<Rightarrow> int \<Rightarrow> bool \<Rightarrow> byte list" where
  "mark_range bm start sz v =
     foldl (\<lambda>b k. set_allocated b (start + int k) v) bm [0..<nat sz]"

section \<open>The first-fit scan\<close>

text \<open>
  The loop over \<open>i\<close> with \<open>n\<close> iterations left; \<open>consecutive_free\<close> and \<open>start_index\<close> are the code's
  variables. It stops with the start of the first run that reaches \<open>sz\<close>.
\<close>

fun find_run :: "byte list \<Rightarrow> int \<Rightarrow> nat \<Rightarrow> int \<Rightarrow> int \<Rightarrow> int \<Rightarrow> int option" where
  "find_run bm sz 0 i consecutive_free start_index = None"
| "find_run bm sz (Suc n) i consecutive_free start_index =
     (if \<not> is_allocated bm i then
        let start_index' = (if consecutive_free = 0 then i else start_index);
            consecutive_free' = consecutive_free + 1
        in if consecutive_free' = sz then Some start_index'
           else find_run bm sz n (i + 1) consecutive_free' start_index'
      else find_run bm sz n (i + 1) 0 start_index)"

fun find_slot :: "alloc_entry list \<Rightarrow> int \<Rightarrow> nat option" where
  "find_slot [] p = None"
| "find_slot (e # es) p = (if a_ptr e = p then Some 0 else map_option Suc (find_slot es p))"

section \<open>\<open>Kernel_malloc\<close> and \<open>Kernel_free\<close>\<close>

definition Kernel_malloc :: "nat \<Rightarrow> int \<Rightarrow> ('fs, 'f) kernel \<Rightarrow> int \<times> ('fs, 'f) kernel" where
  "Kernel_malloc i sz k =
     (if sz \<le> 0 then (- 1, k)
      else case find_run (heap_bitmap k) sz 1024 0 0 (- 1) of
          None \<Rightarrow> (- 1, k)
        | Some start_index \<Rightarrow>
           (case find_slot (alloc_table (tasks k ! i)) (- 1) of
              None \<Rightarrow> (- 1, put_str FD_STDERR (lit ''Err: Alloc table full'' @ [10]) k)
            | Some slot \<Rightarrow>
                (start_index,
                 upd_task i (\<lambda>t. t\<lparr>alloc_table :=
                     (alloc_table t)[slot := \<lparr>a_ptr = start_index, a_size = sz\<rparr>]\<rparr>)
                   (k\<lparr>heap_bitmap := mark_range (heap_bitmap k) start_index sz True\<rparr>))))"

definition Kernel_free :: "nat \<Rightarrow> int \<Rightarrow> ('fs, 'f) kernel \<Rightarrow> ('fs, 'f) kernel" where
  "Kernel_free i ptr k =
     (case find_slot (alloc_table (tasks k ! i)) ptr of
        None \<Rightarrow> k
      | Some j \<Rightarrow>
          let sz = a_size (alloc_table (tasks k ! i) ! j)
          in upd_task i (\<lambda>t. t\<lparr>alloc_table := (alloc_table t)[j := (alloc_table t ! j)\<lparr>a_ptr := - 1\<rparr>]\<rparr>)
               (k\<lparr>heap_bitmap := mark_range (heap_bitmap k) ptr sz False\<rparr>))"

text \<open>Virtual to physical heap address; the result is an index into the global heap when it is in
  range, and addresses outside the task's segment are passed through.\<close>

definition Kernel_getPhysAddr :: "'f task \<Rightarrow> int \<Rightarrow> int" where
  "Kernel_getPhysAddr t virt_addr =
     (if virt_addr \<ge> 0 \<and> virt_addr < heap_limit t then heap_base t + virt_addr else virt_addr)"

section \<open>The allocator interface\<close>

text \<open>A family of blocks is sound when the blocks are pairwise disjoint and all in use, and exact
  when nothing else is in use.\<close>

definition blocks_sound :: "int set \<Rightarrow> ('b \<Rightarrow> int set) \<Rightarrow> bool" where
  "blocks_sound U B \<longleftrightarrow> (\<forall>b. B b \<subseteq> U) \<and> (\<forall>b b'. b \<noteq> b' \<longrightarrow> B b \<inter> B b' = {})"

definition blocks_exact :: "int set \<Rightarrow> ('b \<Rightarrow> int set) \<Rightarrow> bool" where
  "blocks_exact U B \<longleftrightarrow> blocks_sound U B \<and> U = (\<Union>b. B b)"

locale region_allocator =
  fixes valid :: "'m \<Rightarrow> bool" and used :: "'m \<Rightarrow> int set"
    and mark :: "'m \<Rightarrow> int \<Rightarrow> int \<Rightarrow> bool \<Rightarrow> 'm" and top :: int
  assumes valid_mark: "valid m \<Longrightarrow> 0 \<le> s \<Longrightarrow> s + n \<le> top \<Longrightarrow> valid (mark m s n v)"
    and used_claim: "valid m \<Longrightarrow> 0 \<le> s \<Longrightarrow> s + n \<le> top \<Longrightarrow>
      used (mark m s n True) = used m \<union> {s..<s + n}"
    and used_release: "valid m \<Longrightarrow> 0 \<le> s \<Longrightarrow> s + n \<le> top \<Longrightarrow>
      used (mark m s n False) = used m - {s..<s + n}"
begin

lemma claim_sound:
  assumes "blocks_sound (used m) B" "valid m" "0 \<le> s" "s + n \<le> top"
    and "{s..<s + n} \<inter> used m = {}"
  shows "blocks_sound (used (mark m s n True)) (B(b := {s..<s + n}))"
  using assms by (auto simp: blocks_sound_def used_claim)

lemma claim_exact:
  assumes "blocks_exact (used m) B" "valid m" "0 \<le> s" "s + n \<le> top"
    and "{s..<s + n} \<inter> used m = {}" "B b = {}"
  shows "blocks_exact (used (mark m s n True)) (B(b := {s..<s + n}))"
proof -
  have "(\<Union>x. (B(b := {s..<s + n})) x) = (\<Union>x. B x) \<union> {s..<s + n}"
    using assms(6) by (auto split: if_splits)
  moreover have "blocks_sound (used (mark m s n True)) (B(b := {s..<s + n}))"
    using assms(1) claim_sound [of m B s n b] assms(2-5) unfolding blocks_exact_def by blast
  ultimately show ?thesis
    using assms by (simp add: blocks_exact_def used_claim)
qed

lemma release_sound:
  assumes "blocks_sound (used m) B" "valid m" "0 \<le> s" "s + n \<le> top" "B b = {s..<s + n}"
  shows "blocks_sound (used (mark m s n False)) (B(b := {}))"
proof -
  have "B x \<subseteq> used m - {s..<s + n}" if "x \<noteq> b" for x
    using assms(1,5) that by (fastforce simp: blocks_sound_def)
  moreover have "\<forall>x y. x \<noteq> y \<longrightarrow> (B(b := {})) x \<inter> (B(b := {})) y = {}"
    using assms(1) by (auto simp: blocks_sound_def)
  ultimately show ?thesis
    unfolding blocks_sound_def used_release [OF assms(2-4)] by auto
qed

lemma release_exact:
  assumes "blocks_exact (used m) B" "valid m" "0 \<le> s" "s + n \<le> top" "B b = {s..<s + n}"
  shows "blocks_exact (used (mark m s n False)) (B(b := {}))"
proof -
  have U: "used m = (\<Union>x. B x)" using assms(1) by (simp add: blocks_exact_def)
  have dis: "B x \<inter> {s..<s + n} = {}" if "x \<noteq> b" for x
    using assms(1,5) that unfolding blocks_exact_def blocks_sound_def by metis
  have "(\<Union>x. (B(b := {})) x) = (\<Union>x. B x) - {s..<s + n}"
  proof (intro equalityI subsetI)
    fix y assume "y \<in> (\<Union>x. (B(b := {})) x)"
    then obtain x where "x \<noteq> b" "y \<in> B x" by (auto split: if_splits)
    with dis [of x] show "y \<in> (\<Union>x. B x) - {s..<s + n}" by blast
  next
    fix y assume "y \<in> (\<Union>x. B x) - {s..<s + n}"
    then obtain x where "y \<in> B x" "y \<notin> {s..<s + n}" by blast
    with assms(5) have "y \<in> (B(b := {})) x" by (cases "x = b") auto
    then show "y \<in> (\<Union>x. (B(b := {})) x)" by blast
  qed
  with U have "used (mark m s n False) = (\<Union>x. (B(b := {})) x)"
    by (simp add: used_release [OF assms(2-4)])
  moreover have "blocks_sound (used (mark m s n False)) (B(b := {}))"
    using assms(1) release_sound [of m B s n b] assms(2-5) unfolding blocks_exact_def by blast
  ultimately show ?thesis by (simp add: blocks_exact_def)
qed

text \<open>A range that was claimed from free indices and released again leaves the allocator as it was.\<close>

lemma claim_release:
  assumes "valid m" "0 \<le> s" "s + n \<le> top" "{s..<s + n} \<inter> used m = {}"
  shows "used (mark (mark m s n True) s n False) = used m"
  using assms by (simp add: used_release valid_mark used_claim) blast

end

section \<open>The bitmap as a set of indices\<close>

definition used_set :: "byte list \<Rightarrow> int set" where
  "used_set bm = {x. 0 \<le> x \<and> x < 1024 \<and> is_allocated bm x}"

lemma is_allocated_bit:
  "is_allocated bm idx = bit (bm ! nat (idx div 8)) (nat (idx mod 8))"
  by (simp add: is_allocated_def push_bit_of_1 and_exp_eq_0_iff_not_bit)

lemma length_set_allocated [simp]: "length (set_allocated bm i v) = length bm"
  by (simp add: set_allocated_def Let_def)

lemma index_split_iff:
  assumes "0 \<le> (i :: int)" "0 \<le> j"
  shows "i = j \<longleftrightarrow> nat (i div 8) = nat (j div 8) \<and> nat (i mod 8) = nat (j mod 8)"
  using assms by (auto simp: nat_eq_iff pos_imp_zdiv_nonneg_iff) (metis div_mult_mod_eq)

lemma is_allocated_set:
  assumes "length bm = 128" "0 \<le> i" "i < 1024" "0 \<le> j" "j < 1024"
  shows "is_allocated (set_allocated bm i v) j = (if i = j then v else is_allocated bm j)"
proof -
  define I J a b where d: "I = nat (i div 8)" "J = nat (j div 8)" "a = nat (i mod 8)" "b = nat (j mod 8)"
  have n: "I < 128" "b < 8" using assms by (simp_all add: d nat_less_iff)
  have eq: "i = j \<longleftrightarrow> I = J \<and> a = b" unfolding d by (rule index_split_iff [OF assms(2,4)])
  have "bit (2 ^ a :: byte) b \<longleftrightarrow> a = b" using n(2) by (auto simp: bit_simps)
  then have "bit ((if v then bm[I := bm ! I OR 2 ^ a] else bm[I := bm ! I AND NOT (2 ^ a)]) ! J) b =
      (if I = J \<and> a = b then v else bit (bm ! J) b)"
    using assms(1) n by (cases v; cases "I = J") (simp_all add: bit_or_iff bit_and_iff bit_not_iff)
  then show ?thesis
    by (cases v) (simp_all only: is_allocated_bit set_allocated_def Let_def push_bit_of_1 d [symmetric] eq if_True if_False)
qed

lemma set_allocated_helpers:
  "set_allocated bm i True = set_bit_at bm i" "set_allocated bm i False = clear_bit_at bm i"
  by (simp_all add: set_allocated_def set_bit_at_def clear_bit_at_def Let_def)

lemma foldl_mark:
  assumes "length bm = 128" "0 \<le> s" "s + int n \<le> 1024"
  shows "length (foldl (\<lambda>b k. set_allocated b (s + int k) v) bm [0..<n]) = 128 \<and>
    (\<forall>j. 0 \<le> j \<and> j < 1024 \<longrightarrow>
      is_allocated (foldl (\<lambda>b k. set_allocated b (s + int k) v) bm [0..<n]) j =
      (if s \<le> j \<and> j < s + int n then v else is_allocated bm j))"
  using assms
proof (induction n)
  case 0
  then show ?case by auto
next
  case (Suc n)
  then have "s + int n < 1024" by simp
  with Suc show ?case by (auto simp: is_allocated_set)
qed

lemma mark_range_all:
  assumes "length bm = 128" "0 \<le> s" "s + n \<le> 1024"
  shows "length (mark_range bm s n v) = 128 \<and>
    (\<forall>j. 0 \<le> j \<and> j < 1024 \<longrightarrow> is_allocated (mark_range bm s n v) j =
      (if s \<le> j \<and> j < s + n then v else is_allocated bm j))"
proof (cases "0 \<le> n")
  case True
  with foldl_mark [OF assms(1,2), of "nat n" v] assms(3) show ?thesis
    by (simp add: mark_range_def)
next
  case False
  then show ?thesis using assms(1) by (auto simp: mark_range_def)
qed

lemmas mark_range_spec = mark_range_all [THEN conjunct1]
  mark_range_all [THEN conjunct2, rule_format, OF _ _ _ conjI]

interpretation bitmap: region_allocator "\<lambda>bm. length bm = 128" used_set mark_range 1024
proof
  fix m :: "byte list" and s n v
  assume "length m = 128" "0 \<le> s" "s + n \<le> (1024 :: int)"
  note spec = mark_range_spec [OF this]
  show "length (mark_range m s n v) = 128" by (rule spec(1))
  show "used_set (mark_range m s n True) = used_set m \<union> {s..<s + n}"
    using spec(2) [of _ True] \<open>0 \<le> s\<close> \<open>s + n \<le> 1024\<close>
    by (auto simp: used_set_def split: if_split_asm)
  show "used_set (mark_range m s n False) = used_set m - {s..<s + n}"
    using spec(2) [of _ False] \<open>0 \<le> s\<close> \<open>s + n \<le> 1024\<close>
    by (auto simp: used_set_def split: if_split_asm)
qed

section \<open>First fit\<close>

text \<open>A free run of the requested length at \<open>s\<close>.\<close>

definition free_run :: "byte list \<Rightarrow> int \<Rightarrow> int \<Rightarrow> bool" where
  "free_run bm sz s \<longleftrightarrow> 0 \<le> s \<and> s + sz \<le> 1024 \<and> (\<forall>x. s \<le> x \<and> x < s + sz \<longrightarrow> \<not> is_allocated bm x)"

text \<open>The loop invariant: the current run starts at \<open>start_index\<close>, is free, is shorter than \<open>sz\<close>, and
  every start before it fails.\<close>

definition run_inv :: "byte list \<Rightarrow> int \<Rightarrow> int \<Rightarrow> int \<Rightarrow> int \<Rightarrow> bool" where
  "run_inv bm sz i cf st \<longleftrightarrow> 0 \<le> i \<and> 0 \<le> cf \<and> cf < sz \<and> cf \<le> i \<and>
     (cf \<noteq> 0 \<longrightarrow> st = i - cf) \<and>
     (\<forall>x. i - cf \<le> x \<and> x < i \<longrightarrow> \<not> is_allocated bm x) \<and>
     (\<forall>s. 0 \<le> s \<and> s < i - cf \<longrightarrow> (\<exists>x. s \<le> x \<and> x < s + sz \<and> x < i \<and> is_allocated bm x))"

lemma find_run_inv:
  assumes "run_inv bm sz i cf st" "i + int n = 1024"
  shows "case find_run bm sz n i cf st of
      Some s \<Rightarrow> free_run bm sz s \<and> (\<forall>s'. 0 \<le> s' \<and> s' < s \<longrightarrow> \<not> free_run bm sz s')
    | None \<Rightarrow> (\<forall>s. \<not> free_run bm sz s)"
  using assms
proof (induction n arbitrary: i cf st)
  case 0
  then show ?case
    by (auto simp: free_run_def run_inv_def)
next
  case (Suc n)
  show ?case
  proof (cases "is_allocated bm i")
    case True
    have "run_inv bm sz (i + 1) 0 st"
      unfolding run_inv_def
    proof (intro conjI allI impI)
      fix s assume s: "0 \<le> s \<and> s < i + 1 - 0"
      show "\<exists>x. s \<le> x \<and> x < s + sz \<and> x < i + 1 \<and> is_allocated bm x"
      proof (cases "s < i - cf")
        case True
        with s Suc.prems(1) show ?thesis unfolding run_inv_def by (metis less_add_one order_less_trans)
      next
        case False
        with s Suc.prems(1) True show ?thesis unfolding run_inv_def by (intro exI [of _ i]) auto
      qed
    qed (use Suc.prems(1) in \<open>auto simp: run_inv_def\<close>)
    with Suc.IH [of "i + 1" 0 st] Suc.prems(2) True show ?thesis by simp
  next
    case False
    let ?st = "if cf = 0 then i else st"
    have st: "?st = i - cf" using Suc.prems(1) by (auto simp: run_inv_def)
    have free: "\<And>x. i - cf \<le> x \<Longrightarrow> x < i + 1 \<Longrightarrow> \<not> is_allocated bm x"
      using Suc.prems(1) False unfolding run_inv_def by (metis linorder_not_less zless_add1_eq)
    have before: "\<And>s. 0 \<le> s \<Longrightarrow> s < i - cf \<Longrightarrow> \<exists>x. s \<le> x \<and> x < s + sz \<and> x < i \<and> is_allocated bm x"
      using Suc.prems(1) by (auto simp: run_inv_def)
    show ?thesis
    proof (cases "cf + 1 = sz")
      case True
      have "free_run bm sz (i - cf)"
        using free Suc.prems True by (simp add: free_run_def run_inv_def)
      moreover have "\<not> free_run bm sz s'" if "0 \<le> s'" "s' < i - cf" for s'
        using before [OF that] by (auto simp: free_run_def)
      ultimately show ?thesis using False True st by (simp add: Let_def)
    next
      case neq: False
      have "run_inv bm sz (i + 1) (cf + 1) ?st"
        unfolding run_inv_def
      proof (intro conjI allI impI)
        fix s assume "0 \<le> s \<and> s < i + 1 - (cf + 1)"
        then show "\<exists>x. s \<le> x \<and> x < s + sz \<and> x < i + 1 \<and> is_allocated bm x"
          using before [of s] by force
      qed (use Suc.prems(1) neq st free in \<open>auto simp: run_inv_def\<close>)
      with Suc.IH [of "i + 1" "cf + 1" ?st] Suc.prems(2) False neq show ?thesis
        by (simp add: Let_def)
    qed
  qed
qed

lemma run_inv_start: "0 < sz \<Longrightarrow> run_inv bm sz 0 0 (- 1)"
  by (auto simp: run_inv_def)

lemma free_run_nonneg: "free_run bm sz s \<Longrightarrow> 0 \<le> s"
  by (simp add: free_run_def)

lemma find_run_nonpos: "sz \<le> 0 \<Longrightarrow> 0 \<le> cf \<Longrightarrow> find_run bm sz n i cf st = None"
  by (induction n arbitrary: i cf st) (auto simp: Let_def)

theorem find_run_first_fit:
  assumes "0 < sz"
  shows "find_run bm sz 1024 0 0 (- 1) = Some s \<longleftrightarrow>
    free_run bm sz s \<and> (\<forall>s'. 0 \<le> s' \<and> s' < s \<longrightarrow> \<not> free_run bm sz s')"
proof -
  have "case find_run bm sz 1024 0 0 (- 1) of
      Some s \<Rightarrow> free_run bm sz s \<and> (\<forall>s'. 0 \<le> s' \<and> s' < s \<longrightarrow> \<not> free_run bm sz s')
    | None \<Rightarrow> (\<forall>s. \<not> free_run bm sz s)"
    by (rule find_run_inv [OF run_inv_start [OF assms]]) simp
  then show ?thesis
    by (cases "find_run bm sz 1024 0 0 (- 1)")
      (auto dest: free_run_nonneg, metis free_run_nonneg not_less_iff_gr_or_eq)
qed

lemma find_run_SomeD:
  assumes "find_run bm sz 1024 0 0 (- 1) = Some s"
  shows "0 < sz" "0 \<le> s" "s + sz \<le> 1024" "{s..<s + sz} \<inter> used_set bm = {}"
proof -
  show p: "0 < sz" using find_run_nonpos [of sz 0 bm 1024 0 "- 1"] assms by force
  have "free_run bm sz s"
    using find_run_inv [OF run_inv_start [OF p, of bm], of 1024] assms by simp
  then show "0 \<le> s" "s + sz \<le> 1024" "{s..<s + sz} \<inter> used_set bm = {}"
    by (auto simp: free_run_def used_set_def)
qed

lemma find_slot_Some:
  "find_slot es p = Some j \<Longrightarrow> j < length es \<and> a_ptr (es ! j) = p \<and> (\<forall>l<j. a_ptr (es ! l) \<noteq> p)"
proof (induction es arbitrary: j)
  case (Cons e es)
  show ?case
  proof (cases "a_ptr e = p")
    case False
    with Cons.prems obtain z where "find_slot es p = Some z" "j = Suc z" by auto
    with Cons.IH [of z] False show ?thesis by (auto simp: less_Suc_eq_0_disj)
  qed (use Cons.prems in auto)
qed simp

lemma find_slot_None: "find_slot es p = None \<longleftrightarrow> (\<forall>e \<in> set es. a_ptr e \<noteq> p)"
  by (induction es) auto

section \<open>Heap ownership\<close>

text \<open>
  The blocks of the heap: for every task the regions of its allocation table (slots 0 to 3) and, for
  the VM tasks, its segment (slot 4). The segment of the communication task 0 is not a block of its
  own: \<open>Kernel_init\<close> makes it the region of entry 0 of that task's allocation table.
\<close>

definition entry_block :: "alloc_entry \<Rightarrow> int set" where
  "entry_block e = (if a_ptr e = - 1 then {} else {a_ptr e..<a_ptr e + a_size e})"

definition task_block :: "nat \<Rightarrow> 'f task \<Rightarrow> nat \<Rightarrow> int set" where
  "task_block i t s =
     (if s < 4 then entry_block (alloc_table t ! s)
      else if s = 4 \<and> i \<noteq> 0 \<and> heap_base t \<noteq> - 1 then {heap_base t..<heap_base t + heap_limit t}
      else {})"

definition block :: "('fs, 'f) kernel \<Rightarrow> nat \<times> nat \<Rightarrow> int set" where
  "block k b = (if fst b < 3 then task_block (fst b) (tasks k ! fst b) (snd b) else {})"

definition entry_ok :: "alloc_entry \<Rightarrow> bool" where
  "entry_ok e \<longleftrightarrow> a_ptr e = - 1 \<or> 0 \<le> a_ptr e \<and> 0 < a_size e \<and> a_ptr e + a_size e \<le> 1024"

definition heap_sound :: "('fs, 'f) kernel \<Rightarrow> bool" where
  "heap_sound k \<longleftrightarrow> (\<forall>i < 3. \<forall>e \<in> set (alloc_table (tasks k ! i)). entry_ok e) \<and>
     blocks_sound (used_set (heap_bitmap k)) (block k)"

definition heap_exact :: "('fs, 'f) kernel \<Rightarrow> bool" where
  "heap_exact k \<longleftrightarrow> heap_sound k \<and> used_set (heap_bitmap k) = (\<Union>b. block k b)"

lemma heap_exact_iff:
  "heap_exact k \<longleftrightarrow> heap_sound k \<and> blocks_exact (used_set (heap_bitmap k)) (block k)"
  by (auto simp: heap_exact_def blocks_exact_def heap_sound_def)

text \<open>\<open>heap_sound\<close> and \<open>heap_exact\<close> only look at the allocation tables, the segments and the bitmap.\<close>

definition same_heap :: "('fs, 'f) kernel \<Rightarrow> ('fs, 'f) kernel \<Rightarrow> bool" where
  "same_heap k k' \<longleftrightarrow> heap_bitmap k' = heap_bitmap k \<and>
     (\<forall>i < 3. alloc_table (tasks k' ! i) = alloc_table (tasks k ! i) \<and>
        heap_base (tasks k' ! i) = heap_base (tasks k ! i) \<and>
        heap_limit (tasks k' ! i) = heap_limit (tasks k ! i))"

lemma same_heap_block: "same_heap k k' \<Longrightarrow> block k' = block k"
  by (rule ext) (simp add: block_def task_block_def same_heap_def)

lemma same_heap_sound: "same_heap k k' \<Longrightarrow> heap_sound k' = heap_sound k"
  using same_heap_block [of k k'] by (simp add: heap_sound_def same_heap_def)

lemma same_heap_exact: "same_heap k k' \<Longrightarrow> heap_exact k' = heap_exact k"
  using same_heap_block [of k k'] same_heap_sound [of k k'] by (simp add: heap_exact_def same_heap_def)

lemma same_heap_refl [simp]: "same_heap k k"
  by (simp add: same_heap_def)

lemma same_heap_trans: "same_heap k k' \<Longrightarrow> same_heap k' k'' \<Longrightarrow> same_heap k k''"
  by (simp add: same_heap_def)

lemma same_heap_upd_task:
  assumes "\<And>t. alloc_table (f t) = alloc_table t" "\<And>t. heap_base (f t) = heap_base t"
    "\<And>t. heap_limit (f t) = heap_limit t"
  shows "same_heap k (upd_task i f k)"
proof (cases "i < length (tasks k)")
  case True
  with assms show ?thesis by (auto simp: same_heap_def nth_list_update)
next
  case False
  then show ?thesis by (simp add: same_heap_def upd_task_def list_update_beyond)
qed

lemma block_upd:
  assumes "i < 3" "length (tasks k) = 3" "tasks k' = tasks k"
    and "\<And>l. task_block i (f (tasks k ! i)) l = (if l = s then X else task_block i (tasks k ! i) l)"
  shows "block (upd_task i f k') = (block k)((i, s) := X)"
proof (rule ext)
  fix b :: "nat \<times> nat"
  obtain j l where [simp]: "b = (j, l)" by (cases b)
  show "block (upd_task i f k') b = ((block k)((i, s) := X)) b"
    using assms by (cases "j = i") (auto simp: block_def nth_list_update)
qed

lemma task_block_entry:
  assumes "length (alloc_table t) = 4" "s < 4"
  shows "task_block i (t\<lparr>alloc_table := (alloc_table t)[s := e]\<rparr>) l =
    (if l = s then entry_block e else task_block i t l)"
  using assms by (auto simp: task_block_def nth_list_update)

lemma find_slot_tables:
  assumes "wf_kernel k" "i < 3" "find_slot (alloc_table (tasks k ! i)) p = Some s"
  shows "s < 4" "a_ptr (alloc_table (tasks k ! i) ! s) = p"
  using find_slot_Some [OF assms(3)] wf_kernelD(2) [OF assms(1,2)] by (auto simp: wf_task_def)

lemma claim_entry:
  assumes "wf_kernel k" "i < 3" "s < 4" "heap_sound k" "0 < sz" "0 \<le> p" "p + sz \<le> 1024"
    and "{p..<p + sz} \<inter> used_set (heap_bitmap k) = {}" 
  defines "k' \<equiv> upd_task i (\<lambda>t. t\<lparr>alloc_table :=
      (alloc_table t)[s := \<lparr>a_ptr = p, a_size = sz\<rparr>]\<rparr>)
    (k\<lparr>heap_bitmap := mark_range (heap_bitmap k) p sz True\<rparr>)"
  shows "heap_sound k'" "used_set (heap_bitmap k') = used_set (heap_bitmap k) \<union> {p..<p + sz}"
    "block k' = (block k)((i, s) := {p..<p + sz})"
proof -
  have L: "length (heap_bitmap k) = 128" "length (tasks k) = 3"
    "length (alloc_table (tasks k ! i)) = 4"
    using assms(1,2) wf_kernelD(2) [OF assms(1,2)] by (simp_all add: wf_kernel_def wf_task_def)
  show U: "used_set (heap_bitmap k') = used_set (heap_bitmap k) \<union> {p..<p + sz}"
    using bitmap.used_claim [OF L(1) assms(6,7)] by (simp add: k'_def)
  show B: "block k' = (block k)((i, s) := {p..<p + sz})"
    unfolding k'_def
    by (rule block_upd [OF assms(2) L(2)])
      (use task_block_entry [OF L(3) assms(3)] assms(6) in \<open>simp_all add: entry_block_def\<close>)
  have "blocks_sound (used_set (heap_bitmap k')) (block k')"
    unfolding B using bitmap.claim_sound [of "heap_bitmap k" "block k" p sz "(i, s)"] L(1) assms(4,6-8)
    by (simp add: heap_sound_def k'_def)
  moreover have "entry_ok e" if j: "j < 3" "e \<in> set (alloc_table (tasks k' ! j))" for j e
  proof (cases "e \<in> set (alloc_table (tasks k ! j))")
    case True
    then show ?thesis using assms(4) j(1) by (auto simp: heap_sound_def)
  next
    case False
    then have "e = \<lparr>a_ptr = p, a_size = sz\<rparr>"
      using j L(2) set_update_subset_insert [of "alloc_table (tasks k ! i)" s]
      by (cases "j = i") (auto simp: k'_def)
    then show ?thesis using assms(5-7) by (simp add: entry_ok_def)
  qed
  ultimately show "heap_sound k'" by (simp add: heap_sound_def)
qed

lemma release_entry:
  assumes "wf_kernel k" "i < 3" "s < 4" "heap_sound k" 
    and "alloc_table (tasks k ! i) ! s = e" "a_ptr e \<noteq> - 1"
  defines "k' \<equiv> upd_task i (\<lambda>t. t\<lparr>alloc_table := (alloc_table t)[s := (alloc_table t ! s)\<lparr>a_ptr := - 1\<rparr>]\<rparr>)
    (k\<lparr>heap_bitmap := mark_range (heap_bitmap k) (a_ptr e) (a_size e) False\<rparr>)"
  shows "heap_sound k'" "used_set (heap_bitmap k') = used_set (heap_bitmap k) - block k (i, s)"
    "block k' = (block k)((i, s) := {})" "heap_exact k \<Longrightarrow> heap_exact k'"
proof -
  have L: "length (heap_bitmap k) = 128" "length (tasks k) = 3"
    "length (alloc_table (tasks k ! i)) = 4"
    using assms(1,2) wf_kernelD(2) [OF assms(1,2)] by (simp_all add: wf_kernel_def wf_task_def)
  have e: "entry_ok e" using assms(2-5) L(3) nth_mem [of s "alloc_table (tasks k ! i)"]
    by (auto simp: heap_sound_def)
  then have r: "0 \<le> a_ptr e" "a_ptr e + a_size e \<le> 1024" using assms(6) by (auto simp: entry_ok_def)
  have blk: "block k (i, s) = {a_ptr e..<a_ptr e + a_size e}"
    using assms(2,3,5,6) by (simp add: block_def task_block_def entry_block_def)
  show "used_set (heap_bitmap k') = used_set (heap_bitmap k) - block k (i, s)"
    using bitmap.used_release [OF L(1) r] by (simp add: k'_def blk)
  show B: "block k' = (block k)((i, s) := {})"
    unfolding k'_def
    by (rule block_upd [OF assms(2) L(2)])
      (use assms(3,5) L(3) in \<open>auto simp: task_block_def entry_block_def nth_list_update\<close>)
  have S: "blocks_sound (used_set (heap_bitmap k')) (block k')"
    unfolding B using bitmap.release_sound [of "heap_bitmap k" "block k" "a_ptr e" "a_size e" "(i, s)"] L(1) r blk assms(4)
    by (simp add: heap_sound_def k'_def)
  moreover have "entry_ok e'" if j: "j < 3" "e' \<in> set (alloc_table (tasks k' ! j))" for j e'
  proof (cases "e' \<in> set (alloc_table (tasks k ! j))")
    case True
    then show ?thesis using assms(4) j(1) by (auto simp: heap_sound_def)
  next
    case False
    then have "e' = e\<lparr>a_ptr := - 1\<rparr>"
      using j L(2) set_update_subset_insert [of "alloc_table (tasks k ! i)" s] assms(5)
      by (cases "j = i") (auto simp: k'_def)
    then show ?thesis by (simp add: entry_ok_def)
  qed
  ultimately show H: "heap_sound k'" by (simp add: heap_sound_def)
  assume X: "heap_exact k"
  then have "blocks_exact (used_set (heap_bitmap k')) (block k')"
    unfolding B using bitmap.release_exact [of "heap_bitmap k" "block k" "a_ptr e" "a_size e" "(i, s)"] L(1) r blk
    by (simp add: heap_exact_iff k'_def)
  with H show "heap_exact k'" by (simp add: heap_exact_iff)
qed

lemma wf_task_alloc_table [simp]:
  "wf_task i (t\<lparr>alloc_table := (alloc_table t)[s := e]\<rparr>) = wf_task i t"
  by (simp add: wf_task_def)

lemma wf_kernel_bitmap:
  "wf_kernel k \<Longrightarrow> length bm = 128 \<Longrightarrow> wf_kernel (k\<lparr>heap_bitmap := bm\<rparr>)"
  by (simp add: wf_kernel_def)

lemma length_mark_range [simp]: "length (mark_range bm s n v) = length bm"
proof -
  have "length (foldl (\<lambda>b k. set_allocated b (s + int k) v) bm ns) = length bm" for ns
    by (induction ns arbitrary: bm) simp_all
  then show ?thesis by (simp add: mark_range_def)
qed

lemma Kernel_malloc_wf:
  "wf_kernel k \<Longrightarrow> i < 3 \<Longrightarrow> wf_kernel (snd (Kernel_malloc i sz k))"
  by (auto simp: Kernel_malloc_def wf_kernelD intro!: wf_kernel_upd_task wf_kernel_bitmap split: option.split)

lemma Kernel_free_wf:
  "wf_kernel k \<Longrightarrow> i < 3 \<Longrightarrow> wf_kernel (Kernel_free i p k)"
  by (auto simp: Kernel_free_def Let_def wf_kernelD intro!: wf_kernel_upd_task wf_kernel_bitmap split: option.split)

definition first_free_run :: "byte list \<Rightarrow> int \<Rightarrow> int \<Rightarrow> bool" where
  "first_free_run bm sz s \<longleftrightarrow> free_run bm sz s \<and> (\<forall>s'. free_run bm sz s' \<longrightarrow> s \<le> s')"

lemma find_run_iff: "find_run bm sz 1024 0 0 (- 1) = Some s \<longleftrightarrow> 0 < sz \<and> first_free_run bm sz s"
proof (cases "0 < sz")
  case True
  show ?thesis unfolding find_run_first_fit [OF True] first_free_run_def
    using True free_run_nonneg by (metis linorder_not_less)
next
  case False
  then show ?thesis using find_run_nonpos [of sz 0 bm 1024 0 "- 1"] by simp
qed

lemma find_run_None: "0 < sz \<Longrightarrow> find_run bm sz 1024 0 0 (- 1) = None \<Longrightarrow> \<not> free_run bm sz s"
  using find_run_inv [OF run_inv_start [of sz bm], of 1024] by simp

theorem Kernel_malloc_spec:
  assumes "wf_kernel k" "heap_sound k" "i < 3" "Kernel_malloc i sz k = (p, k')"
  shows "if p = - 1
    then (sz \<le> 0 \<or> (\<forall>s. \<not> free_run (heap_bitmap k) sz s) \<or> (\<forall>e \<in> set (alloc_table (tasks k ! i)). a_ptr e \<noteq> - 1))
      \<and> same_heap k k'
    else 0 < sz \<and> first_free_run (heap_bitmap k) sz p \<and> heap_sound k' \<and>
      (heap_exact k \<longrightarrow> heap_exact k') \<and>
      used_set (heap_bitmap k') = used_set (heap_bitmap k) \<union> {p..<p + sz} \<and>
      (\<exists>s < 4. a_ptr (alloc_table (tasks k ! i) ! s) = - 1 \<and> block k' = (block k)((i, s) := {p..<p + sz}))"
proof (cases "sz \<le> 0")
  case True
  with assms(4) show ?thesis by (simp add: Kernel_malloc_def)
next
  case pos: False
  show ?thesis
  proof (cases "find_run (heap_bitmap k) sz 1024 0 0 (- 1)")
    case None
    with pos assms(4) find_run_None [of sz "heap_bitmap k"] show ?thesis by (simp add: Kernel_malloc_def)
  next
    case (Some st)
    note r = find_run_SomeD [OF Some]
    show ?thesis
    proof (cases "find_slot (alloc_table (tasks k ! i)) (- 1)")
      case None
      with Some pos assms(4) show ?thesis
        by (auto simp: Kernel_malloc_def find_slot_None same_heap_def)
    next
      case slot: (Some s)
      note s = find_slot_tables [OF assms(1,3) slot]
      note C = claim_entry [OF assms(1,3) s(1) assms(2) r]
      have eqs: "p = st" "k' = upd_task i (\<lambda>t. t\<lparr>alloc_table :=
          (alloc_table t)[s := \<lparr>a_ptr = st, a_size = sz\<rparr>]\<rparr>)
        (k\<lparr>heap_bitmap := mark_range (heap_bitmap k) st sz True\<rparr>)"
        using assms(4) Some slot pos by (auto simp: Kernel_malloc_def)
      have old: "block k (i, s) = {}" using s assms(3) by (simp add: block_def task_block_def entry_block_def)
      have "heap_exact k'" if "heap_exact k"
        using that C bitmap.claim_exact [of "heap_bitmap k" "block k" st sz "(i, s)"] r(2,3,4) old wf_kernelD(4) [OF assms(1)]
        unfolding heap_exact_iff eqs by simp
      then show ?thesis using C r s Some find_run_iff [of "heap_bitmap k" sz st] unfolding eqs by auto
    qed
  qed
qed

section \<open>The demonstration state\<close>

lemma used_set_zero: "used_set (replicate 128 0) = {}"
proof -
  have "\<not> is_allocated (replicate 128 0) x" if "0 \<le> x" "x < 1024" for x
  proof -
    have "nat (x div 8) < 128" using that by (simp add: nat_less_iff)
    then show ?thesis by (simp add: is_allocated_bit)
  qed
  then show ?thesis by (auto simp: used_set_def)
qed

lemma demo_block [simp]: "block (demo_kernel st1 st2 code) = (\<lambda>b. {})"
  by (auto simp: fun_eq_iff block_def task_block_def demo_kernel_def demo_task_def entry_block_def
      less_Suc_eq numeral_3_eq_3 numeral_2_eq_2)

lemma demo_heap: "heap_sound (demo_kernel st1 st2 code)" "heap_exact (demo_kernel st1 st2 code)"
proof -
  have u: "used_set (heap_bitmap (demo_kernel st1 st2 code)) = {}"
    by (simp add: demo_kernel_def used_set_zero)
  show "heap_sound (demo_kernel st1 st2 code)"
    using u by (auto simp: heap_sound_def blocks_sound_def)
      (auto simp: demo_kernel_def demo_task_def entry_ok_def less_Suc_eq numeral_3_eq_3 numeral_2_eq_2)
  then show "heap_exact (demo_kernel st1 st2 code)" using u by (simp add: heap_exact_def)
qed

end
