(* ===== verification/Kernel.thy ===== *)
theory Kernel
  imports HeapAlloc
begin

text \<open>
  The rest of \<open>src/Kernel.cpp\<close>: start-up, path resolution, program loading, the code-buffer helpers,
  task termination and sleeping, with \<open>Comm_init\<close> of \<open>src/Communication.cpp\<close>, which start-up calls.
  Operations take the file system \<open>F\<close> and the task index and return the new state; \<open>None\<close> is undefined
  behaviour.
\<close>

section \<open>Start-up\<close>

definition Comm_init :: "('fs, 'f) kernel \<Rightarrow> ('fs, 'f) kernel" where
  "Comm_init k = k\<lparr>rx_buffer := replicate 256 0, rx_index := 0\<rparr>"

text \<open>The body of the loop over the task table.\<close>

definition init_task :: "nat \<Rightarrow> 'f task \<Rightarrow> 'f task option" where
  "init_task i t = do {
     c \<leftarrow> strcpy (cwd t) (lit ''/'');
     Some ((setFree (t\<lparr>tid := int i\<rparr>))\<lparr>sp := - 1, wake_up_time := 0, heap_base := - 1, heap_limit := 0,
        alloc_table := map (\<lambda>e. e\<lparr>a_ptr := - 1\<rparr>) (alloc_table t), cwd := c\<rparr>) }"

fun init_tasks :: "nat \<Rightarrow> 'f task list \<Rightarrow> 'f task list option" where
  "init_tasks i [] = Some []"
| "init_tasks i (t # ts) = do {
     t' \<leftarrow> init_task i t;
     ts' \<leftarrow> init_tasks (Suc i) ts;
     Some (t' # ts') }"

definition Kernel_init :: "('fs, 'f) kernel \<Rightarrow> ('fs, 'f) kernel option" where
  "Kernel_init k = do {
     let k = k\<lparr>global_heap := replicate (length (global_heap k)) 0,
               heap_bitmap := replicate (length (heap_bitmap k)) 0\<rparr>;
     let k = Comm_init k;
     ts \<leftarrow> init_tasks 0 (tasks k);
     let k = upd_task 0 setRunning (k\<lparr>tasks := ts\<rparr>);
     let (comm_heap, k) = Kernel_malloc 0 128 k;
     Some (if comm_heap \<noteq> - 1
           then upd_task 0 (\<lambda>t. t\<lparr>heap_base := comm_heap, heap_limit := 128\<rparr>) k
           else k) }"

section \<open>Paths\<close>

definition starts_with :: "byte \<Rightarrow> byte list \<Rightarrow> bool" where
  "starts_with c s \<longleftrightarrow> s \<noteq> [] \<and> hd s = c"

definition ends_with :: "byte \<Rightarrow> byte list \<Rightarrow> bool" where
  "ends_with c s \<longleftrightarrow> s \<noteq> [] \<and> last s = c"

text \<open>\<open>output\<close> is the caller's buffer; the result is its new contents. 47 is the slash.\<close>

definition resolve_path :: "'f task \<Rightarrow> byte list \<Rightarrow> byte list \<Rightarrow> byte list option" where
  "resolve_path t input output =
     (if starts_with 47 input then strcpy output input
      else do {
        c \<leftarrow> cstr (cwd t);
        output \<leftarrow> strcpy output c;
        output \<leftarrow> (if 0 < length c \<and> \<not> ends_with 47 c then strcat output (lit ''/'') else Some output);
        strcat output input })"

section \<open>Loading a program\<close>

text \<open>The argument and working-directory strings of the new task (a null pointer is \<open>None\<close>).\<close>

definition load_strings ::
    "byte list option \<Rightarrow> byte list option \<Rightarrow> byte list option \<Rightarrow> 'f task \<Rightarrow> 'f task option" where
  "load_strings arg_str parent_cwd parent_arg_str t = do {
     a \<leftarrow> (case arg_str of None \<Rightarrow> Some (replicate 32 0) | Some s \<Rightarrow> strncpy (replicate 32 0) s 31);
     a \<leftarrow> (case parent_arg_str of None \<Rightarrow> Some a | Some s \<Rightarrow> strncpy a s 31);
     c \<leftarrow> (case parent_cwd of
            Some s \<Rightarrow> strncpy (replicate 32 0) s 31
          | None \<Rightarrow> strcpy (replicate 32 0) (lit ''/''));
     Some (t\<lparr>args := a, cwd := c\<rparr>) }"

definition open_path :: "('fs, 'f) fsops \<Rightarrow> 'fs \<Rightarrow> byte list \<Rightarrow> ('f \<times> 'fs) option" where
  "open_path F v path_buffer = map_option (fs_open F v) (cstr path_buffer)"

text \<open>The three attempts: the name itself, with \<open>.bin\<close>, and in \<open>/bin/\<close>.\<close>

definition find_program ::
    "('fs, 'f) fsops \<Rightarrow> 'fs \<Rightarrow> byte list \<Rightarrow> (byte list \<times> 'f \<times> 'fs) option" where
  "find_program F v input_name = do {
     path_buffer \<leftarrow> strcpy (replicate 32 0) input_name;
     (f, v) \<leftarrow> open_path F v path_buffer;
     if fs_isOpen F f then Some (path_buffer, f, v)
     else do {
       path_buffer \<leftarrow> strcpy path_buffer input_name;
       path_buffer \<leftarrow> strcat path_buffer (lit ''.bin'');
       (f, v) \<leftarrow> open_path F v path_buffer;
       if fs_isOpen F f then Some (path_buffer, f, v)
       else do {
         path_buffer \<leftarrow> strcpy path_buffer (lit ''/bin/'');
         path_buffer \<leftarrow> strcat path_buffer input_name;
         path_buffer \<leftarrow> strcat path_buffer (lit ''.bin'');
         (f, v) \<leftarrow> open_path F v path_buffer;
         Some (path_buffer, f, v) } } }"

text \<open>The header: \<open>Inr\<close> of the segment size, or \<open>Inl\<close> of the message.\<close>

definition exec_header :: "int \<Rightarrow> byte list \<Rightarrow> (byte list + int) option" where
  "exec_header r header =
     (if r = 4 then do {
        h0 \<leftarrow> aget header 0; h1 \<leftarrow> aget header 1;
        if h0 = 0xAD \<and> h1 = 0x01 then do {
          h2 \<leftarrow> aget header 2; h3 \<leftarrow> aget header 3;
          Some (Inr (sint (ucast h2 OR push_bit 8 (ucast h3) :: vint))) }
        else Some (Inl (lit ''Err: Invalid exec format (Bad Magic)'' @ [10])) }
      else Some (Inl (lit ''Err: Invalid exec format (Too short)'' @ [10])))"

definition close_file :: "('fs, 'f) fsops \<Rightarrow> nat \<Rightarrow> ('fs, 'f) kernel \<Rightarrow> ('fs, 'f) kernel" where
  "close_file F i k =
     (let (f, v) = fs_close F (sd k) (t_file (tasks k ! i))
      in upd_task i (\<lambda>t. t\<lparr>t_file := f\<rparr>) (k\<lparr>sd := v\<rparr>))"

text \<open>The failure exits after the program file was opened.\<close>

definition load_failed :: "('fs, 'f) fsops \<Rightarrow> nat \<Rightarrow> byte list \<Rightarrow> ('fs, 'f) kernel \<Rightarrow> ('fs, 'f) kernel" where
  "load_failed F i msg k = upd_task i setFree (close_file F i (put_str FD_STDERR msg k))"

text \<open>The code after the header was accepted: segment, file name, first code buffer.\<close>

definition load_segment ::
    "('fs, 'f) fsops \<Rightarrow> nat \<Rightarrow> byte list \<Rightarrow> int \<Rightarrow> ('fs, 'f) kernel \<Rightarrow> (bool \<times> ('fs, 'f) kernel) option" where
  "load_segment F i path_buffer sz k =
     (case find_run (heap_bitmap k) sz 1024 0 0 (- 1) of
        None \<Rightarrow> Some (False, load_failed F i (lit ''Error: Out of Memory (Cannot alloc task heap)'' @ [10]) k)
      | Some start_index \<Rightarrow> do {
          let k = upd_task i (\<lambda>t. t\<lparr>heap_base := start_index, heap_limit := sz\<rparr>)
            (k\<lparr>heap_bitmap := mark_range (heap_bitmap k) start_index sz True\<rparr>);
          path \<leftarrow> cstr path_buffer;
          fname \<leftarrow> strncpy (replicate 128 0) path 127;
          let (r, d, f, v) = fs_read F (sd k) (t_file (tasks k ! i)) 32;
          let k = upd_task i (\<lambda>t. (setRunning (t\<lparr>filename := fname, buffer_index := 0, t_file := f,
              code_buffer := put_at 0 d (code_buffer t)\<rparr>))\<lparr>sp := - 1, wake_up_time := 0\<rparr>)
            (k\<lparr>sd := v\<rparr>);
          Some (True, put_str FD_STDOUT [10] k) })"

text \<open>The code that runs when one of the three attempts opened the program file.\<close>

definition load_opened ::
    "('fs, 'f) fsops \<Rightarrow> nat \<Rightarrow> byte list \<Rightarrow> ('fs, 'f) kernel \<Rightarrow> (bool \<times> ('fs, 'f) kernel) option" where
  "load_opened F i path_buffer k =
     (let (r, header, f, v) = fs_read F (sd k) (t_file (tasks k ! i)) 4;
          k = upd_task i (\<lambda>t. t\<lparr>t_file := f\<rparr>) (k\<lparr>sd := v\<rparr>)
      in case exec_header r header of
           None \<Rightarrow> None
         | Some (Inl msg) \<Rightarrow> Some (False, load_failed F i msg k)
         | Some (Inr sz) \<Rightarrow> load_segment F i path_buffer sz k)"

definition Kernel_loadTask ::
    "('fs, 'f) fsops \<Rightarrow> nat \<Rightarrow> byte list \<Rightarrow> byte list option \<Rightarrow> byte list option \<Rightarrow> byte list option
     \<Rightarrow> ('fs, 'f) kernel \<Rightarrow> (bool \<times> ('fs, 'f) kernel) option" where
  "Kernel_loadTask F i input_name arg_str parent_cwd parent_arg_str k = do {
     let k = (if fs_isOpen F (t_file (tasks k ! i)) then close_file F i k else k);
     t \<leftarrow> load_strings arg_str parent_cwd parent_arg_str (tasks k ! i);
     (path_buffer, f, v) \<leftarrow> find_program F (sd k) input_name;
     let k = upd_task i (\<lambda>_. t\<lparr>t_file := f\<rparr>) (k\<lparr>sd := v\<rparr>);
     if fs_isOpen F f then load_opened F i path_buffer k
     else Some (False, put_str FD_STDERR (lit ''Error: Command not found'' @ [10]) k) }"

section \<open>Termination\<close>

definition gc_entry :: "nat \<Rightarrow> nat \<Rightarrow> ('fs, 'f) kernel \<Rightarrow> ('fs, 'f) kernel" where
  "gc_entry i j k =
     (let ptr = a_ptr (alloc_table (tasks k ! i) ! j)
      in if ptr \<noteq> - 1
         then put_str FD_STDOUT [10] (put_int FD_STDOUT (word_of_int ptr)
                (put_str FD_STDOUT (lit ''GC: Freed addr '') (Kernel_free i ptr k)))
         else k)"

definition gc_segment :: "nat \<Rightarrow> ('fs, 'f) kernel \<Rightarrow> ('fs, 'f) kernel" where
  "gc_segment i k =
     (let t = tasks k ! i
      in if heap_base t \<noteq> - 1
         then upd_task i (\<lambda>t. t\<lparr>heap_base := - 1, heap_limit := 0\<rparr>)
                (k\<lparr>heap_bitmap := mark_range (heap_bitmap k) (heap_base t) (heap_limit t) False\<rparr>)
         else k)"

definition wake_parent :: "nat \<Rightarrow> nat \<Rightarrow> ('fs, 'f) kernel \<Rightarrow> ('fs, 'f) kernel" where
  "wake_parent i j k =
     (if getWaitingFor (tasks k ! j) = int i then upd_task j setRunning k else k)"

definition Kernel_terminateTask :: "('fs, 'f) fsops \<Rightarrow> nat \<Rightarrow> ('fs, 'f) kernel \<Rightarrow> ('fs, 'f) kernel" where
  "Kernel_terminateTask F i k =
     (let k = fold (gc_entry i) [0..<MAX_ALLOCATIONS] k;
          k = gc_segment i k;
          k = fold (wake_parent i) [0..<TASK_COUNT] k;
          k = upd_task i setFree k
      in close_file F i k)"

section \<open>Code buffer, input and sleeping\<close>

definition Kernel_stdRead :: "int \<Rightarrow> ('fs, 'f) kernel \<Rightarrow> int \<times> ('fs, 'f) kernel" where
  "Kernel_stdRead fd k = (let (v, h) = HAL_read fd (khal k) in (v, k\<lparr>khal := h\<rparr>))"

definition Kernel_refillBuffer :: "('fs, 'f) fsops \<Rightarrow> nat \<Rightarrow> ('fs, 'f) kernel \<Rightarrow> ('fs, 'f) kernel" where
  "Kernel_refillBuffer F i k =
     (if fs_available F (t_file (tasks k ! i)) \<noteq> 0
      then let (r, d, f, v) = fs_read F (sd k) (t_file (tasks k ! i)) 32
           in upd_task i (\<lambda>t. t\<lparr>t_file := f, code_buffer := put_at 0 d (code_buffer t), buffer_index := 0\<rparr>)
                (k\<lparr>sd := v\<rparr>)
      else Kernel_terminateTask F i k)"

definition Kernel_jump :: "('fs, 'f) fsops \<Rightarrow> nat \<Rightarrow> vint \<Rightarrow> ('fs, 'f) kernel \<Rightarrow> ('fs, 'f) kernel" where
  "Kernel_jump F i addr k =
     (let (r, f, v) = fs_seek F (sd k) (t_file (tasks k ! i)) (scast (addr + 4))
      in upd_task i (\<lambda>t. t\<lparr>t_file := f, buffer_index := 32\<rparr>) (k\<lparr>sd := v\<rparr>))"

definition Kernel_yield :: "nat \<Rightarrow> ('fs, 'f) kernel \<Rightarrow> ('fs, 'f) kernel" where
  "Kernel_yield i k = upd_task i (\<lambda>t. t\<lparr>wake_up_time := system_ticks k + wake_up_time t\<rparr>) k"

section \<open>Well-formedness\<close>

text \<open>The array sizes of the statically allocated state, before any code has run.\<close>

definition raw_kernel :: "('fs, 'f) kernel \<Rightarrow> bool" where
  "raw_kernel k \<longleftrightarrow> length (tasks k) = 3 \<and>
     (\<forall>t \<in> set (tasks k). length (filename t) = 128 \<and> filename t ! 127 = 0 \<and>
        length (args t) = 32 \<and> args t ! 31 = 0 \<and> length (cwd t) = 32 \<and> cwd t ! 31 = 0 \<and>
        length (stack t) = 64 \<and> length (alloc_table t) = 4 \<and> length (code_buffer t) = 32 \<and>
        0 \<le> buffer_index t \<and> buffer_index t \<le> 32) \<and>
     length (global_heap k) = 1024 \<and> length (heap_bitmap k) = 128 \<and> wf_hal (khal k)"

lemma strncpy_zeroed_buffer:
  assumes "0 \<notin> set s" "n < length b" "\<forall>x \<in> set b. x = 0" "strncpy b s n = Some c"
  shows "length c = length b" "c ! (length b - 1) = 0"
proof -
  have c: "c = put_at 0 (take n (s @ replicate n 0)) b" using assms(2,4) by (auto simp: strncpy_def)
  show "length c = length b" using assms(2) by (simp add: c)
  have "b ! (length b - 1) = 0" using assms(2,3) nth_mem [of "length b - 1" b] by auto
  then show "c ! (length b - 1) = 0" using assms(2) by (auto simp: c nth_put_at)
qed

lemma strcpy_last:
  assumes "strcpy b s = Some c" "length s + 1 < length b" "b ! (length b - 1) = 0"
  shows "length c = length b" "c ! (length b - 1) = 0"
  using assms by (auto simp: strcpy_Some nth_put_at nth_append)

lemma strncpy_last:
  assumes "n < length b" "b ! (length b - 1) = 0" "strncpy b s n = Some c"
  shows "length c = length b" "c ! (length b - 1) = 0"
  using assms by (auto simp: strncpy_def nth_put_at split: if_splits)

lemma lit_slash: "lit ''/'' = [47]" by (simp add: lit_def of_char_def)

lemma close_file_wf [simp]: "wf_kernel k \<Longrightarrow> i < 3 \<Longrightarrow> wf_kernel (close_file F i k)"
  by (auto simp: close_file_def split: prod.split intro!: wf_kernel_upd_task)

lemma load_failed_wf: "wf_kernel k \<Longrightarrow> i < 3 \<Longrightarrow> wf_kernel (load_failed F i msg k)"
  by (simp add: load_failed_def wf_kernel_upd_task)

lemma wf_task_seg [simp]:
  "wf_task i t \<Longrightarrow> wf_task i (t\<lparr>heap_base := - 1, heap_limit := 0\<rparr>)"
  by (simp add: wf_task_def)

lemma gc_entry_wf: "wf_kernel k \<Longrightarrow> i < 3 \<Longrightarrow> wf_kernel (gc_entry i j k)"
  by (simp add: gc_entry_def Let_def Kernel_free_wf)

lemma gc_segment_wf: "wf_kernel k \<Longrightarrow> i < 3 \<Longrightarrow> wf_kernel (gc_segment i k)"
  by (auto simp: gc_segment_def Let_def wf_kernelD intro!: wf_kernel_upd_task wf_kernel_bitmap)

lemma wake_parent_wf: "wf_kernel k \<Longrightarrow> j < 3 \<Longrightarrow> wf_kernel (wake_parent i j k)"
  by (simp add: wake_parent_def wf_kernel_upd_task)

lemma fold_wf:
  assumes "\<And>j k. j \<in> set js \<Longrightarrow> wf_kernel k \<Longrightarrow> wf_kernel (f j k)" "wf_kernel k"
  shows "wf_kernel (fold f js k)"
  using assms by (induction js arbitrary: k) auto

lemma Kernel_terminateTask_wf:
  "wf_kernel k \<Longrightarrow> i < 3 \<Longrightarrow> wf_kernel (Kernel_terminateTask F i k)"
  unfolding Kernel_terminateTask_def Let_def
  by (intro close_file_wf wf_kernel_upd_task wf_task_states fold_wf wake_parent_wf gc_segment_wf
      gc_entry_wf) auto

lemma Kernel_refillBuffer_wf:
  assumes "wf_kernel k" "i < 3" "fs_ok F"
  shows "wf_kernel (Kernel_refillBuffer F i k)"
proof (cases "fs_available F (t_file (tasks k ! i)) \<noteq> 0")
  case True
  obtain r d f v where rd: "fs_read F (sd k) (t_file (tasks k ! i)) 32 = (r, d, f, v)"
    by (metis prod_cases4)
  then have "length d \<le> 32" using fs_ok_readD [OF assms(3)] by blast
  with True rd assms(1,2) show ?thesis
    by (auto simp: Kernel_refillBuffer_def wf_task_def intro!: wf_kernel_upd_task)
next
  case False
  with assms show ?thesis by (simp add: Kernel_refillBuffer_def Kernel_terminateTask_wf)
qed

lemma Kernel_jump_wf: "wf_kernel k \<Longrightarrow> i < 3 \<Longrightarrow> wf_kernel (Kernel_jump F i a k)"
  by (auto simp: Kernel_jump_def wf_task_def split: prod.split intro!: wf_kernel_upd_task)

lemma Kernel_yield_wf: "wf_kernel k \<Longrightarrow> i < 3 \<Longrightarrow> wf_kernel (Kernel_yield i k)"
  by (simp add: Kernel_yield_def wf_kernel_upd_task)

lemma Kernel_stdRead_wf: "wf_kernel k \<Longrightarrow> wf_kernel (snd (Kernel_stdRead fd k))"
  using wf_HAL_read [of "khal k" fd]
  by (auto simp: Kernel_stdRead_def wf_kernel_def split: prod.split)

text \<open>Strings handed to \<open>Kernel_loadTask\<close> are texts.\<close>

abbreviation (input) text_opt :: "byte list option \<Rightarrow> bool" where
  "text_opt s \<equiv> (\<forall>x. s = Some x \<longrightarrow> 0 \<notin> set x)"

lemma load_strings_wf:
  assumes "load_strings a c p t = Some t'" "wf_task i t"
  shows "wf_task i t'"
proof -
  obtain x y z where xyz: "x \<in> set_option (case a of None \<Rightarrow> Some (replicate 32 0) | Some s \<Rightarrow> strncpy (replicate 32 0) s 31)"
    "y \<in> set_option (case p of None \<Rightarrow> Some x | Some s \<Rightarrow> strncpy x s 31)"
    "z \<in> set_option (case c of Some s \<Rightarrow> strncpy (replicate 32 0) s 31 | None \<Rightarrow> strcpy (replicate 32 0) (lit ''/''))"
    "t' = t\<lparr>args := y, cwd := z\<rparr>"
    using assms(1) unfolding load_strings_def
    by (force simp: bind_eq_Some_conv)
  have x: "length x = 32" "x ! 31 = 0"
    using xyz(1) strncpy_last [of 31 "replicate 32 0"] by (auto split: option.splits)
  have y: "length y = 32" "y ! 31 = 0"
    using xyz(2) x strncpy_last [of 31 x] by (auto split: option.splits)
  have z: "length z = 32" "z ! 31 = 0"
    using xyz(3) strncpy_last [of 31 "replicate 32 0"] strcpy_last [of "replicate 32 0" "lit ''/''" z]
    by (auto split: option.splits simp: lit_slash)
  show ?thesis using assms(2) y z by (simp add: xyz(4) wf_task_def)
qed

lemma load_segment_wf:
  assumes "load_segment F i pb sz k = Some (b, k')" "wf_kernel k" "i < 3" "fs_ok F"
  shows "wf_kernel k'"
proof (cases "find_run (heap_bitmap k) sz 1024 0 0 (- 1)")
  case None
  with assms show ?thesis by (auto simp: load_segment_def load_failed_wf)
next
  case (Some s)
  note r = find_run_SomeD [OF Some]
  let ?k1 = "upd_task i (\<lambda>t. t\<lparr>heap_base := s, heap_limit := sz\<rparr>)
            (k\<lparr>heap_bitmap := mark_range (heap_bitmap k) s sz True\<rparr>)"
  have w1: "wf_kernel ?k1"
    using assms(2,3) r by (auto simp: wf_task_def wf_kernelD intro!: wf_kernel_upd_task wf_kernel_bitmap)
  obtain q d f v where rd: "fs_read F (sd ?k1) (t_file (tasks ?k1 ! i)) 32 = (q, d, f, v)"
    by (metis prod_cases4)
  then have d: "length d \<le> 32" using fs_ok_readD [OF assms(4)] by blast
  from assms(1) Some rd obtain path fname where fn: "strncpy (replicate 128 0) path 127 = Some fname"
    and k': "k' = put_str FD_STDOUT [10] (upd_task i (\<lambda>t. (setRunning (t\<lparr>filename := fname, buffer_index := 0, t_file := f,
              code_buffer := put_at 0 d (code_buffer t)\<rparr>))\<lparr>sp := - 1, wake_up_time := 0\<rparr>)
            (?k1\<lparr>sd := v\<rparr>))"
    by (auto simp: load_segment_def Let_def bind_eq_Some_conv)
  have "length fname = 128" "fname ! 127 = 0" using strncpy_last [OF _ _ fn] by simp_all
  with d w1 assms(3) show ?thesis
    unfolding k' by (intro wf_kernel_put wf_kernel_upd_task) (auto simp: wf_task_def setRunning_def)
qed

lemma load_opened_wf:
  assumes "load_opened F i pb k = Some (b, k')" "wf_kernel k" "i < 3" "fs_ok F"
  shows "wf_kernel k'"
proof -
  obtain r hd f v where rd: "fs_read F (sd k) (t_file (tasks k ! i)) 4 = (r, hd, f, v)"
    by (metis prod_cases4)
  let ?k = "upd_task i (\<lambda>t. t\<lparr>t_file := f\<rparr>) (k\<lparr>sd := v\<rparr>)"
  have w: "wf_kernel ?k" using assms(2,3) by (intro wf_kernel_upd_task) auto
  show ?thesis
    using assms(1) rd load_segment_wf [OF _ w assms(3,4)] load_failed_wf [OF w assms(3)]
    by (auto simp: load_opened_def Let_def split: option.splits sum.splits)
qed

lemma loadTaskE:
  assumes "Kernel_loadTask F i nm a c p k = Some (b, k')"
  obtains k0 t pb f v where
    "k0 = (if fs_isOpen F (t_file (tasks k ! i)) then close_file F i k else k)"
    "load_strings a c p (tasks k0 ! i) = Some t" "find_program F (sd k0) nm = Some (pb, f, v)"
    "fs_isOpen F f \<Longrightarrow> load_opened F i pb (upd_task i (\<lambda>_. t\<lparr>t_file := f\<rparr>) (k0\<lparr>sd := v\<rparr>)) = Some (b, k')"
    "\<not> fs_isOpen F f \<Longrightarrow> \<not> b \<and> k' = put_str FD_STDERR (lit ''Error: Command not found'' @ [10])
       (upd_task i (\<lambda>_. t\<lparr>t_file := f\<rparr>) (k0\<lparr>sd := v\<rparr>))"
  using assms unfolding Kernel_loadTask_def Let_def
  by (auto simp: bind_eq_Some_conv split: if_splits)

lemma Kernel_loadTask_wf:
  assumes "Kernel_loadTask F i nm a c p k = Some (b, k')" "wf_kernel k" "i < 3" "fs_ok F"
  shows "wf_kernel k'"
  using assms(1)
proof (cases rule: loadTaskE)
  case (1 k0 t pb f v)
  have w0: "wf_kernel k0" using assms(2,3) 1(1) by simp
  have "wf_task i t" using load_strings_wf [OF 1(2)] w0 assms(3) by (simp add: wf_kernelD)
  then have "wf_kernel (upd_task i (\<lambda>_. t\<lparr>t_file := f\<rparr>) (k0\<lparr>sd := v\<rparr>))"
    using w0 assms(3) by (intro wf_kernel_upd_task) auto
  with 1(4,5) load_opened_wf [OF _ _ assms(3,4)] show ?thesis
    by (cases "fs_isOpen F f") auto
qed

section \<open>Termination: what it releases and whom it wakes\<close>

definition states :: "('fs, 'f) kernel \<Rightarrow> int list" where
  "states k = map task_state (tasks k)"

lemma states_simps [simp]:
  "states (put_str fd s k) = states k" "states (put_int fd n k) = states k"
  "states (put_char fd c k) = states k" "states (k\<lparr>sd := v\<rparr>) = states k"
  "states (k\<lparr>heap_bitmap := bm\<rparr>) = states k" "states (k\<lparr>global_heap := h\<rparr>) = states k"
  "states (k\<lparr>khal := x\<rparr>) = states k" "states (k\<lparr>rx_buffer := rb\<rparr>) = states k"
  by (simp_all add: states_def)

lemma states_upd_task:
  "states (upd_task i f k) = (states k)[i := task_state (f (tasks k ! i))]"
  by (simp add: states_def map_update)

lemma states_upd_same [simp]:
  "(\<And>t. task_state (f t) = task_state t) \<Longrightarrow> states (upd_task i f k) = states k"
  by (cases "i < length (tasks k)")
    (auto simp: states_upd_task states_def list_update_beyond intro!: nth_equalityI simp: nth_list_update)

text \<open>\<open>k'\<close> is \<open>k\<close> with the blocks \<open>js\<close> of task \<open>i\<close> released and nothing else changed that matters
  to the heap or the other tasks.\<close>

definition released :: "nat \<Rightarrow> nat set \<Rightarrow> ('fs, 'f) kernel \<Rightarrow> ('fs, 'f) kernel \<Rightarrow> bool" where
  "released i js k k' \<longleftrightarrow> wf_kernel k' \<and> heap_sound k' \<and> (heap_exact k \<longrightarrow> heap_exact k') \<and>
     block k' = (\<lambda>b. if fst b = i \<and> snd b \<in> js then {} else block k b) \<and>
     used_set (heap_bitmap k') = used_set (heap_bitmap k) - (\<Union>s\<in>js. block k (i, s)) \<and>
     states k' = states k \<and> global_heap k' = global_heap k \<and> sd k' = sd k \<and>
     system_ticks k' = system_ticks k \<and> (\<forall>j. j \<noteq> i \<longrightarrow> tasks k' ! j = tasks k ! j) \<and>
     t_file (tasks k' ! i) = t_file (tasks k ! i)"

lemma released_refl: "wf_kernel k \<Longrightarrow> heap_sound k \<Longrightarrow> (\<And>s. s \<in> js \<Longrightarrow> block k (i, s) = {}) \<Longrightarrow> released i js k k"
  by (auto simp: released_def fun_eq_iff)

lemma released_trans:
  assumes "released i js k k'" "released i js' k' k''"
  shows "released i (js \<union> js') k k''"
proof -
  have B: "block k' = (\<lambda>b. if fst b = i \<and> snd b \<in> js then {} else block k b)"
    and B': "block k'' = (\<lambda>b. if fst b = i \<and> snd b \<in> js' then {} else block k' b)"
    using assms by (simp_all add: released_def)
  have "block k'' = (\<lambda>b. if fst b = i \<and> snd b \<in> js \<union> js' then {} else block k b)"
    unfolding B' B by (rule ext) auto
  moreover have "used_set (heap_bitmap k'') = used_set (heap_bitmap k) - (\<Union>s\<in>js \<union> js'. block k (i, s))"
  proof -
    have "used_set (heap_bitmap k'') = used_set (heap_bitmap k) - (\<Union>s\<in>js. block k (i, s)) - (\<Union>s\<in>js'. block k' (i, s))"
      using assms by (simp add: released_def)
    also have "\<dots> = used_set (heap_bitmap k) - (\<Union>s\<in>js \<union> js'. block k (i, s))"
      unfolding B by (auto split: if_splits)
    finally show ?thesis .
  qed
  ultimately show ?thesis using assms unfolding released_def by simp
qed

lemma Kernel_free_released:
  assumes "wf_kernel k" "heap_sound k" "i < 3" "j < 4" "a_ptr (alloc_table (tasks k ! i) ! j) \<noteq> - 1"
  shows "released i {j} k (Kernel_free i (a_ptr (alloc_table (tasks k ! i) ! j)) k)"
proof -
  let ?es = "alloc_table (tasks k ! i)" let ?p = "a_ptr (?es ! j)"
  have len: "length ?es = 4" using wf_kernelD(2) [OF assms(1,3)] by (simp add: wf_task_def)
  have ok: "entry_ok (?es ! s)" if "s < 4" for s
    using assms(2,3) len that nth_mem [of s ?es] by (auto simp: heap_sound_def)
  have "find_slot ?es ?p = Some j"
  proof (cases "find_slot ?es ?p")
    case None
    with assms(4) len show ?thesis by (auto simp: find_slot_None)
  next
    case (Some s)
    note s = find_slot_Some [OF Some]
    have "s = j"
    proof (rule ccontr)
      assume "s \<noteq> j"
      then have "block k (i, s) \<inter> block k (i, j) = {}"
        using assms(2) unfolding heap_sound_def blocks_sound_def by (metis Pair_inject)
      moreover have "?p \<in> block k (i, s)" "?p \<in> block k (i, j)"
        using s assms(3-5) len ok [of s] ok [of j]
        by (auto simp: block_def task_block_def entry_block_def entry_ok_def)
      ultimately show False by blast
    qed
    with Some show ?thesis by simp
  qed
  then have k': "Kernel_free i ?p k = upd_task i (\<lambda>t. t\<lparr>alloc_table := (alloc_table t)[j := (alloc_table t ! j)\<lparr>a_ptr := - 1\<rparr>]\<rparr>)
    (k\<lparr>heap_bitmap := mark_range (heap_bitmap k) ?p (a_size (?es ! j)) False\<rparr>)"
    by (simp add: Kernel_free_def Let_def)
  note R = release_entry [OF assms(1,3,4,2) refl assms(5), folded k']
  have "block (Kernel_free i ?p k) = (\<lambda>b. if fst b = i \<and> snd b \<in> {j} then {} else block k b)"
    unfolding R(3) by (auto simp: fun_eq_iff)
  then show ?thesis
    using R Kernel_free_wf [OF assms(1,3), of ?p] assms(3) wf_kernelD(1) [OF assms(1)]
    unfolding released_def by (auto simp: k')
qed

lemma gc_entry_released:
  assumes "wf_kernel k" "heap_sound k" "i < 3" "j < 4"
  shows "released i {j} k (gc_entry i j k)"
proof (cases "a_ptr (alloc_table (tasks k ! i) ! j) = - 1")
  case True
  with assms show ?thesis
    by (auto simp: gc_entry_def block_def task_block_def entry_block_def intro!: released_refl)
next
  case False
  have "same_heap k' (put_str fd s (put_int fd' n (put_str fd'' s' k')))" for k' :: "('a, 'b) kernel" and fd s fd' n fd'' s'
    by (simp add: same_heap_def)
  note sh = same_heap_block [OF this] same_heap_sound [OF this] same_heap_exact [OF this]
  from False Kernel_free_released [OF assms False] show ?thesis
    by (simp add: gc_entry_def Let_def released_def sh)
qed

lemma gc_entries_released:
  assumes "wf_kernel k" "heap_sound k" "i < 3" "set js \<subseteq> {..<4}"
  shows "released i (set js) k (fold (gc_entry i) js k)"
  using assms
proof (induction js arbitrary: k)
  case Nil
  then show ?case by (auto intro!: released_refl)
next
  case (Cons j js)
  have r: "released i {j} k (gc_entry i j k)" using Cons.prems by (intro gc_entry_released) auto
  then have "released i (set js) (gc_entry i j k) (fold (gc_entry i) js (gc_entry i j k))"
    using Cons.prems by (intro Cons.IH) (auto simp: released_def)
  from released_trans [OF r this] show ?case by simp
qed

lemma gc_segment_released:
  assumes "wf_kernel k" "heap_sound k" "i < 3" "i \<noteq> 0"
  shows "released i {4} k (gc_segment i k)"
proof (cases "heap_base (tasks k ! i) = - 1")
  case True
  with assms show ?thesis
    by (auto simp: gc_segment_def Let_def block_def task_block_def intro!: released_refl)
next
  case False
  let ?b = "heap_base (tasks k ! i)" let ?n = "heap_limit (tasks k ! i)"
  let ?k = "gc_segment i k"
  have k': "?k = upd_task i (\<lambda>t. t\<lparr>heap_base := - 1, heap_limit := 0\<rparr>)
      (k\<lparr>heap_bitmap := mark_range (heap_bitmap k) ?b ?n False\<rparr>)"
    using False by (simp add: gc_segment_def Let_def)
  have L: "length (heap_bitmap k) = 128" "length (tasks k) = 3" using assms(1) by (simp_all add: wf_kernel_def)
  have r: "0 \<le> ?b" "?b + ?n \<le> 1024" using wf_kernelD(2) [OF assms(1,3)] False by (auto simp: wf_task_def)
  have blk: "block k (i, 4) = {?b..<?b + ?n}" using assms(3,4) False by (simp add: block_def task_block_def)
  have B: "block ?k = (block k)((i, 4) := {})"
    unfolding k' by (rule block_upd [OF assms(3) L(2)]) (auto simp: task_block_def)
  have U: "used_set (heap_bitmap ?k) = used_set (heap_bitmap k) - block k (i, 4)"
    using bitmap.used_release [OF L(1) r] by (simp add: k' blk)
  have tab: "alloc_table (tasks ?k ! j) = alloc_table (tasks k ! j)" if "j < 3" for j
    using that L(2) by (cases "j = i") (simp_all add: k')
  have S: "heap_sound ?k"
    using bitmap.release_sound [of "heap_bitmap k" "block k" ?b ?n "(i, 4)"] L(1) r blk assms(2)
    unfolding heap_sound_def B by (simp add: tab) (simp add: k')
  have X: "heap_exact ?k" if "heap_exact k"
    using bitmap.release_exact [of "heap_bitmap k" "block k" ?b ?n "(i, 4)"] L(1) r blk that S
    unfolding heap_exact_iff B by (simp add: k')
  have "block ?k = (\<lambda>b. if fst b = i \<and> snd b \<in> {4} then {} else block k b)"
    unfolding B by (auto simp: fun_eq_iff)
  then show ?thesis
    using S X U gc_segment_wf [OF assms(1,3)] assms(3) L(2) unfolding released_def by (auto simp: k')
qed

text \<open>The task table after an exit of \<open>i\<close>: whoever waited for \<open>i\<close> runs, \<open>i\<close> is free.\<close>

definition exit_states :: "nat \<Rightarrow> int list \<Rightarrow> int list" where
  "exit_states i ss = (map (\<lambda>s. if s = int i then - 1 else s) ss)[i := - 2]"

lemma wake_parents_frame:
  assumes "wf_kernel k" "i < 3" "n \<le> 3"
  shows "let k' = fold (wake_parent i) [0..<n] k in
    same_heap k k' \<and> heap_bitmap k' = heap_bitmap k \<and> global_heap k' = global_heap k \<and>
    sd k' = sd k \<and> system_ticks k' = system_ticks k \<and> wf_kernel k' \<and>
    (\<forall>j < 3. tasks k' ! j = (if j < n \<and> task_state (tasks k ! j) = int i then setRunning (tasks k ! j) else tasks k ! j))"
  using assms(3)
proof (induction n)
  case 0
  then show ?case using assms(1) by simp
next
  case (Suc n)
  define k1 where "k1 = fold (wake_parent i) [0..<n] k"
  have IH: "same_heap k k1" "heap_bitmap k1 = heap_bitmap k" "global_heap k1 = global_heap k"
    "sd k1 = sd k" "system_ticks k1 = system_ticks k" "wf_kernel k1"
    "\<And>j. j < 3 \<Longrightarrow> tasks k1 ! j = (if j < n \<and> task_state (tasks k ! j) = int i then setRunning (tasks k ! j) else tasks k ! j)"
    using Suc unfolding k1_def Let_def by auto
  have n: "n < 3" "length (tasks k1) = 3" using Suc.prems IH(6) by (simp_all add: wf_kernel_def)
  have same: "tasks k1 ! n = tasks k ! n" using IH(7) [OF n(1)] by simp
  have w: "getWaitingFor (tasks k ! n) = int i \<longleftrightarrow> task_state (tasks k ! n) = int i"
    by (auto simp: getWaitingFor_def)
  have sh: "same_heap k1 (upd_task n setRunning k1)"
    by (rule same_heap_upd_task) (simp_all add: setRunning_def)
  have f: "fold (wake_parent i) [0..<Suc n] k =
      (if task_state (tasks k ! n) = int i then upd_task n setRunning k1 else k1)"
    using w same by (simp add: k1_def [symmetric] wake_parent_def)
  show ?case
    unfolding f Let_def
    using IH n sh same_heap_trans [OF IH(1) sh] wf_kernel_upd_task [OF IH(6), of n setRunning]
    by (auto simp: same nth_list_update less_Suc_eq)
qed

lemma terminate_states:
  assumes "length ss = 3" "length (tasks k') = 3" "i < 3"
    "\<And>j. j < 3 \<Longrightarrow> task_state (tasks k' ! j) = (if ss ! j = int i then - 1 else ss ! j)"
  shows "(states k')[i := - 2] = exit_states i ss"
  using assms by (auto simp: exit_states_def states_def intro!: nth_equalityI simp: nth_list_update)

lemma Kernel_terminateTask_post:
  fixes F :: "('fs, 'f) fsops" and k :: "('fs, 'f) kernel"
  assumes "wf_kernel k" "heap_sound k" "i < 3" "i \<noteq> 0"
  defines "k' \<equiv> Kernel_terminateTask F i k"
  shows "heap_sound k'" "heap_exact k \<Longrightarrow> heap_exact k'"
    "block k' = (\<lambda>b. if fst b = i then {} else block k b)"
    "used_set (heap_bitmap k') = used_set (heap_bitmap k) - (\<Union>s. block k (i, s))"
    "states k' = exit_states i (states k)" "global_heap k' = global_heap k"
    "system_ticks k' = system_ticks k"
    "\<And>j. j < 3 \<Longrightarrow> j \<noteq> i \<Longrightarrow> tasks k' ! j =
       (if task_state (tasks k ! j) = int i then setRunning (tasks k ! j) else tasks k ! j)"
proof -
  define k1 where "k1 = fold (gc_entry i) [0..<4] k"
  define k2 where "k2 = gc_segment i k1"
  define k3 where "k3 = fold (wake_parent i) [0..<3] k2"
  have r1: "released i (set [0..<4]) k k1"
    unfolding k1_def by (rule gc_entries_released) (use assms in auto)
  have r2: "released i {4} k1 k2"
    unfolding k2_def by (rule gc_segment_released) (use assms r1 in \<open>auto simp: released_def\<close>)
  have "set [0..<4] \<union> {4} = {0..4::nat}" by auto
  with released_trans [OF r1 r2] have R: "released i {0..4} k k2" by simp
  have w2: "wf_kernel k2" and t2: "\<And>j. j \<noteq> i \<Longrightarrow> tasks k2 ! j = tasks k ! j"
    using R by (simp_all add: released_def)
  note W = wake_parents_frame [OF w2 assms(3) order_refl, unfolded Let_def, folded k3_def]
  define k4 where "k4 = upd_task i setFree k3"
  have k': "k' = close_file F i k4"
    by (simp add: k'_def Kernel_terminateTask_def k1_def k2_def k3_def k4_def Let_def)
  have sh34: "same_heap k3 k4"
    unfolding k4_def by (rule same_heap_upd_task) (simp_all add: setFree_def)
  have sh4: "same_heap k4 k'"
  proof -
    have "same_heap k4 (k4\<lparr>sd := v\<rparr>)" for v by (simp add: same_heap_def)
    then show ?thesis unfolding k' close_file_def Let_def
      by (auto split: prod.split intro!: same_heap_trans [OF _ same_heap_upd_task])
  qed
  have sh: "same_heap k2 k'" using W sh34 sh4 by (blast intro: same_heap_trans)
  have fr: "states k' = states k4" "global_heap k' = global_heap k4" "heap_bitmap k' = heap_bitmap k4"
    "system_ticks k' = system_ticks k4"
    "\<And>j. j \<noteq> i \<Longrightarrow> tasks k' ! j = tasks k4 ! j"
    by (simp_all add: k' close_file_def split: prod.split)
  show "heap_sound k'" using R same_heap_sound [OF sh] by (simp add: released_def)
  show "heap_exact k'" if "heap_exact k" using that R same_heap_exact [OF sh] by (simp add: released_def)
  have none: "block k (i, s) = {}" if "\<not> s \<le> 4" for s
    using that by (simp add: block_def task_block_def)
  then show "block k' = (\<lambda>b. if fst b = i then {} else block k b)"
    using R unfolding same_heap_block [OF sh] released_def by (auto simp: fun_eq_iff) 
  have "(\<Union>s. block k (i, s)) = (\<Union>s\<in>{0..4}. block k (i, s))"
    using none by (auto, metis atLeastAtMost_iff empty_iff le0)
  then show "used_set (heap_bitmap k') = used_set (heap_bitmap k) - (\<Union>s. block k (i, s))"
    using R W by (simp add: fr k4_def released_def)
  show "global_heap k' = global_heap k" "system_ticks k' = system_ticks k"
    using R W by (simp_all add: fr k4_def released_def)
  show "tasks k' ! j = (if task_state (tasks k ! j) = int i then setRunning (tasks k ! j) else tasks k ! j)"
    if "j < 3" "j \<noteq> i" for j
    using that W t2 by (simp add: fr k4_def)
  have L: "length (tasks k3) = 3" "length (tasks k2) = 3" "length (tasks k) = 3" using W w2 assms(1) by (simp_all add: wf_kernel_def)
  have "task_state (tasks k3 ! j) = (if states k ! j = int i then - 1 else states k ! j)" if "j < 3" for j
  proof -
    have "states k2 ! j = states k ! j" using R by (simp add: released_def)
    then have "task_state (tasks k2 ! j) = states k ! j" using that L by (simp add: states_def)
    then show ?thesis using W that by (simp add: setRunning_def)
  qed
  then have "(states k3)[i := - 2] = exit_states i (states k)"
    using L assms(3) by (intro terminate_states) (simp_all add: states_def)
  then show "states k' = exit_states i (states k)"
    by (simp add: fr k4_def states_upd_task setFree_def)
qed

section \<open>Program search\<close>

text \<open>What the three attempts do on a name that fits: the first path that opens, in this order.\<close>

definition search_paths :: "byte list \<Rightarrow> byte list list" where
  "search_paths name = [name, name @ lit ''.bin'', lit ''/bin/'' @ name @ lit ''.bin'']"

fun first_open :: "('fs, 'f) fsops \<Rightarrow> 'fs \<Rightarrow> byte list list \<Rightarrow> byte list \<times> 'f \<times> 'fs" where
  "first_open F v [p] = (p, fs_open F v p)"
| "first_open F v (p # q # ps) =
     (let (f, v') = fs_open F v p in if fs_isOpen F f then (p, f, v') else first_open F v' (q # ps))"
| "first_open F v [] = ([], fs_open F v [])"

lemma lit_nonzero: "0 \<notin> set (lit ''.bin'')" "0 \<notin> set (lit ''/bin/'')" "length (lit ''.bin'') = 4"
  "length (lit ''/bin/'') = 5"
  by (simp_all add: lit_def of_char_def)

lemma strcat_text:
  assumes "cstr dst = Some d" "0 \<notin> set src" "length d + length src < length dst"
  obtains b where "strcat dst src = Some b" "cstr b = Some (d @ src)" "length b = length dst"
  using assms strcat_Some_iff [OF assms(1), of src] strcat_cstr [of dst src _ d] by metis

lemma strcpy_text:
  assumes "0 \<notin> set src" "length src < length dst"
  obtains b where "strcpy dst src = Some b" "cstr b = Some src" "length b = length dst"
  using assms strcpy_Some [of dst src] strcpy_cstr [of dst src] by metis

lemma find_program_eq:
  assumes "0 \<notin> set name" "length name \<le> 22"
  shows "\<exists>pb. find_program F v name =
      Some (pb, snd (first_open F v (search_paths name))) \<and> length pb = 32 \<and>
      cstr pb = Some (fst (first_open F v (search_paths name)))"
proof -
  let ?b0 = "replicate 32 (0 :: byte)"
  obtain b1 where b1: "strcpy ?b0 name = Some b1" "cstr b1 = Some name" "length b1 = 32"
    using strcpy_text [of name ?b0] assms by auto
  obtain b2 where b2: "strcpy b1 name = Some b2" "cstr b2 = Some name" "length b2 = 32"
    using strcpy_text [of name b1] assms b1(3) by auto
  obtain b3 where b3: "strcat b2 (lit ''.bin'') = Some b3" "cstr b3 = Some (name @ lit ''.bin'')" "length b3 = 32"
    using strcat_text [OF b2(2), of "lit ''.bin''"] assms b2(3) lit_nonzero by auto
  obtain b4 where b4: "strcpy b3 (lit ''/bin/'') = Some b4" "cstr b4 = Some (lit ''/bin/'')" "length b4 = 32"
    using strcpy_text [of "lit ''/bin/''" b3] b3(3) lit_nonzero by auto
  obtain b5 where b5: "strcat b4 name = Some b5" "cstr b5 = Some (lit ''/bin/'' @ name)" "length b5 = 32"
    using strcat_text [OF b4(2), of name] assms b4(3) lit_nonzero by auto
  obtain b6 where b6: "strcat b5 (lit ''.bin'') = Some b6"
    "cstr b6 = Some (lit ''/bin/'' @ name @ lit ''.bin'')" "length b6 = 32"
    using strcat_text [OF b5(2), of "lit ''.bin''"] assms b5(3) lit_nonzero by auto
  obtain f1 v1 where o1: "fs_open F v name = (f1, v1)" by fastforce
  obtain f2 v2 where o2: "fs_open F v1 (name @ lit ''.bin'') = (f2, v2)" by fastforce
  obtain f3 v3 where o3: "fs_open F v2 (lit ''/bin/'' @ name @ lit ''.bin'') = (f3, v3)" by fastforce
  show ?thesis
    using b1 b2 b3 b4 b5 b6 o1 o2 o3
    by (cases "fs_isOpen F f1"; cases "fs_isOpen F f2")
      (simp_all add: find_program_def open_path_def search_paths_def)
qed

lemma find_program_Some:
  assumes "find_program F v name = Some (pb, f, v')"
  shows "length pb = 32" "\<exists>u path. cstr pb = Some path \<and> fs_open F u path = (f, v')"
proof -
  have L: "strcat b s = Some c \<Longrightarrow> length c = length b" "strcpy b s = Some c \<Longrightarrow> length c = length b" for b s c
    by (auto simp: strcat_def strcpy_def bind_eq_Some_conv split: if_splits dest: cstr_SomeD)
  show "length pb = 32"
    using assms unfolding find_program_def
    by (auto simp: bind_eq_Some_conv split: if_split_asm) (metis L length_replicate)+
  show "\<exists>u path. cstr pb = Some path \<and> fs_open F u path = (f, v')"
    using assms unfolding find_program_def open_path_def
    by (auto simp: bind_eq_Some_conv split: if_split_asm)
qed

section \<open>What loading a program does to the heap and the task table\<close>

lemma close_file_frame [simp]:
  "same_heap k (close_file F i k)" "states (close_file F i k) = states k"
  "global_heap (close_file F i k) = global_heap k" "heap_bitmap (close_file F i k) = heap_bitmap k"
  "system_ticks (close_file F i k) = system_ticks k" "khal (close_file F i k) = khal k"
  "rx_buffer (close_file F i k) = rx_buffer k"
  "j \<noteq> i \<Longrightarrow> tasks (close_file F i k) ! j = tasks k ! j"
proof -
  have "same_heap k (k\<lparr>sd := v\<rparr>)" for v by (simp add: same_heap_def)
  then show "same_heap k (close_file F i k)"
    by (auto simp: close_file_def split: prod.split intro!: same_heap_trans [OF _ same_heap_upd_task])
qed (simp_all add: close_file_def split: prod.split)

text \<open>A load either takes the first free run for the segment of task \<open>i\<close>, or leaves the heap alone.\<close>

definition loaded :: "('fs, 'f) fsops \<Rightarrow> nat \<Rightarrow> bool \<Rightarrow> ('fs, 'f) kernel \<Rightarrow> ('fs, 'f) kernel \<Rightarrow> bool" where
  "loaded F i b k k' \<longleftrightarrow> global_heap k' = global_heap k \<and> system_ticks k' = system_ticks k \<and>
     (\<forall>j. j \<noteq> i \<longrightarrow> tasks k' ! j = tasks k ! j) \<and>
     (if b then heap_sound k' \<and> states k' = (states k)[i := - 1] \<and>
        (heap_exact k \<and> block k (i, 4) = {} \<longrightarrow> heap_exact k') \<and>
        first_free_run (heap_bitmap k) (heap_limit (tasks k' ! i)) (heap_base (tasks k' ! i)) \<and>
        block k' = (block k)((i, 4) := {heap_base (tasks k' ! i)..<heap_base (tasks k' ! i) + heap_limit (tasks k' ! i)}) \<and>
        (\<exists>u path. cstr (filename (tasks k' ! i)) = Some path \<and> fs_isOpen F (fst (fs_open F u path)))
      else same_heap k k' \<and> (states k' = states k \<or> states k' = (states k)[i := - 2]))"

lemma load_failed_loaded: "loaded F i False k (load_failed F i msg k)"
proof -
  have "same_heap k (put_str fd s k)" for fd s by (simp add: same_heap_def)
  from this [THEN same_heap_trans, OF close_file_frame(1), THEN same_heap_trans, OF same_heap_upd_task]
  have "same_heap k (load_failed F i msg k)" by (simp add: load_failed_def setFree_def)
  then show ?thesis by (simp add: loaded_def load_failed_def states_upd_task setFree_def)
qed

lemma load_segment_loaded:
  assumes "load_segment F i pb sz k = Some (b, k')" "wf_kernel k" "heap_sound k" "i < 3" "i \<noteq> 0"
    and "length pb = 32" "cstr pb = Some path" "fs_isOpen F (fst (fs_open F u path))"
  shows "loaded F i b k k'"
proof (cases "find_run (heap_bitmap k) sz 1024 0 0 (- 1)")
  case None
  with assms show ?thesis by (auto simp: load_segment_def load_failed_loaded)
next
  case (Some s)
  note r = find_run_SomeD [OF Some]
  have L: "length (heap_bitmap k) = 128" "length (tasks k) = 3" using assms(2) by (simp_all add: wf_kernel_def)
  let ?k1 = "upd_task i (\<lambda>t. t\<lparr>heap_base := s, heap_limit := sz\<rparr>)
            (k\<lparr>heap_bitmap := mark_range (heap_bitmap k) s sz True\<rparr>)"
  have B1: "block ?k1 = (block k)((i, 4) := {s..<s + sz})"
    by (rule block_upd [OF assms(4) L(2)]) (use r assms(5) in \<open>auto simp: task_block_def\<close>)
  have tab: "alloc_table (tasks ?k1 ! j) = alloc_table (tasks k ! j)" if "j < 3" for j
    using that L(2) by (cases "j = i") simp_all
  have S1: "heap_sound ?k1"
    using bitmap.claim_sound [of "heap_bitmap k" "block k" s sz "(i, 4)"] L(1) r assms(3)
    unfolding heap_sound_def B1 by (simp add: tab del: upd_task_frame(9))
  have X1: "heap_exact ?k1" if "heap_exact k" "block k (i, 4) = {}"
    using bitmap.claim_exact [of "heap_bitmap k" "block k" s sz "(i, 4)"] L(1) r that S1
    unfolding heap_exact_iff B1 by simp
  obtain q d f v where rd: "fs_read F (sd ?k1) (t_file (tasks ?k1 ! i)) 32 = (q, d, f, v)"
    by (metis prod_cases4)
  from assms(1) Some rd obtain path' fname where fn: "strncpy (replicate 128 0) path 127 = Some fname"
    and b: "b" and k': "k' = put_str FD_STDOUT [10] (upd_task i (\<lambda>t. (setRunning (t\<lparr>filename := fname, buffer_index := 0, t_file := f,
              code_buffer := put_at 0 d (code_buffer t)\<rparr>))\<lparr>sp := - 1, wake_up_time := 0\<rparr>)
            (?k1\<lparr>sd := v\<rparr>))"
    by (auto simp: load_segment_def Let_def bind_eq_Some_conv assms(7))
  have "same_heap ?k1 k'"
  proof -
    have "same_heap ?k1 (?k1\<lparr>sd := v\<rparr>)" by (simp add: same_heap_def)
    then have "same_heap ?k1 (upd_task i (\<lambda>t. (setRunning (t\<lparr>filename := fname, buffer_index := 0, t_file := f,
              code_buffer := put_at 0 d (code_buffer t)\<rparr>))\<lparr>sp := - 1, wake_up_time := 0\<rparr>)
            (?k1\<lparr>sd := v\<rparr>))"
      by (rule same_heap_trans, intro same_heap_upd_task) (simp_all add: setRunning_def)
    then show ?thesis unfolding k' by (simp add: same_heap_def)
  qed
  note sh = same_heap_block [OF this] same_heap_sound [OF this] same_heap_exact [OF this]
  have path: "0 \<notin> set path" "length path < 32" using cstr_SomeD [OF assms(7)] assms(6) by simp_all
  then have "cstr fname = Some path"
    using strncpy_zeroed [of 127 "replicate 128 0" path] fn by auto
  moreover have t: "heap_base (tasks k' ! i) = s" "heap_limit (tasks k' ! i) = sz" "filename (tasks k' ! i) = fname"
    using assms(4) L(2) by (simp_all add: k' setRunning_def)
  moreover have "states k' = (states k)[i := - 1]" by (simp add: k' states_upd_task setRunning_def)
  ultimately show ?thesis
    using assms(8) b Some find_run_iff [of "heap_bitmap k" sz s] S1 X1 B1
    unfolding loaded_def by (auto simp: sh t) (auto simp: k')
qed

lemma loaded_same_heap:
  assumes "loaded F i b k1 k'" "same_heap k k1" "states k1 = states k" "global_heap k1 = global_heap k"
    "system_ticks k1 = system_ticks k" "\<And>j. j \<noteq> i \<Longrightarrow> tasks k1 ! j = tasks k ! j"
  shows "loaded F i b k k'"
  using assms same_heap_trans [OF assms(2)]
  unfolding loaded_def same_heap_block [OF assms(2)] same_heap_exact [OF assms(2)]
  by (auto simp: same_heap_def)

lemma Kernel_loadTask_loaded:
  assumes "Kernel_loadTask F i nm a c p k = Some (b, k')" "wf_kernel k" "heap_sound k" "i < 3" "i \<noteq> 0" "fs_ok F"
  shows "loaded F i b k k'"
  using assms(1)
proof (cases rule: loadTaskE)
  case (1 k0 t pb f v)
  let ?k1 = "upd_task i (\<lambda>_. t\<lparr>t_file := f\<rparr>) (k0\<lparr>sd := v\<rparr>)"
  have w0: "wf_kernel k0" using assms(2,4) 1(1) by simp
  have len: "length (tasks k0) = 3" using w0 by (simp add: wf_kernel_def)
  have "wf_task i t" using load_strings_wf [OF 1(2)] w0 assms(4) by (simp add: wf_kernelD)
  then have w1: "wf_kernel ?k1" using w0 assms(4) by (intro wf_kernel_upd_task) auto
  have t: "alloc_table t = alloc_table (tasks k0 ! i)" "heap_base t = heap_base (tasks k0 ! i)"
    "heap_limit t = heap_limit (tasks k0 ! i)" "task_state t = task_state (tasks k0 ! i)"
    using 1(2) by (auto simp: load_strings_def bind_eq_Some_conv)
  have sh0: "same_heap k k0" "states k0 = states k" "global_heap k0 = global_heap k" 
     "system_ticks k0 = system_ticks k" "\<And>j. j \<noteq> i \<Longrightarrow> tasks k0 ! j = tasks k ! j"
    by (simp_all add: 1(1))
  have "same_heap k0 ?k1" using t len assms(4) by (auto simp: same_heap_def nth_list_update)
  then have sh1: "same_heap k ?k1" using sh0(1) by (rule same_heap_trans [rotated])
  have "states ?k1 = states k0"
    using len assms(4) by (simp add: states_def map_update t(4) list_update_same_conv)
  then have st1: "states ?k1 = states k" using sh0(2) by simp
  note lift = loaded_same_heap [OF _ sh1 st1]
  show ?thesis
  proof (cases "fs_isOpen F f")
    case False
    then have "k' = put_str FD_STDERR (lit ''Error: Command not found'' @ [10]) ?k1" "\<not> b" using 1(5) by simp_all
    moreover have "loaded F i False ?k1 (put_str FD_STDERR (lit ''Error: Command not found'' @ [10]) ?k1)"
      by (simp add: loaded_def same_heap_def)
    ultimately show ?thesis using lift sh0 by simp
  next
    case True
    obtain u path where pb: "length pb = 32" "cstr pb = Some path" "fs_isOpen F (fst (fs_open F u path))"
      using find_program_Some [OF 1(3)] True by (metis fst_conv)
    obtain r hd f' v' where rd: "fs_read F (sd ?k1) (t_file (tasks ?k1 ! i)) 4 = (r, hd, f', v')"
      by (metis prod_cases4)
    let ?k2 = "upd_task i (\<lambda>t. t\<lparr>t_file := f'\<rparr>) (?k1\<lparr>sd := v'\<rparr>)"
    have "same_heap ?k1 (?k1\<lparr>sd := v'\<rparr>)" by (simp add: same_heap_def)
    then have sh2: "same_heap ?k1 ?k2" by (rule same_heap_trans) (simp add: same_heap_upd_task)
    have w2: "wf_kernel ?k2" using w1 assms(4) by (intro wf_kernel_upd_task) auto
    have s2: "heap_sound ?k2" using assms(3) same_heap_sound [OF sh1] same_heap_sound [OF sh2] by simp
    have "load_opened F i pb ?k1 = Some (b, k')" using 1(4) True by simp
    then have "loaded F i b ?k2 k'"
      using rd load_segment_loaded [OF _ w2 s2 assms(4,5) pb] load_failed_loaded [of F i ?k2]
      by (auto simp: load_opened_def Let_def split: option.splits sum.splits)
    then have "loaded F i b ?k1 k'" by (rule loaded_same_heap [OF _ sh2]) simp_all
    then show ?thesis using lift sh0 by simp
  qed
qed

section \<open>Start-up\<close>

lemma init_task_Some:
  assumes "length (cwd t) = 32"
  shows "init_task i t = Some ((setFree (t\<lparr>tid := int i\<rparr>))\<lparr>sp := - 1, wake_up_time := 0,
    heap_base := - 1, heap_limit := 0, alloc_table := map (\<lambda>e. e\<lparr>a_ptr := - 1\<rparr>) (alloc_table t),
    cwd := put_at 0 [47, 0] (cwd t)\<rparr>)"
  using assms by (simp add: init_task_def strcpy_def lit_slash)

text \<open>The state \<open>Kernel_init\<close> reaches: all tasks free but the communication daemon, which owns the
  first 128 heap cells.\<close>

lemma Kernel_init_state:
  assumes "raw_kernel k"
  obtains k' where "Kernel_init k = Some k'" "wf_kernel k'" "heap_sound k'" "heap_exact k'"
    "states k' = [- 1, - 2, - 2]" "used_set (heap_bitmap k') = {0..<128}"
    "heap_base (tasks k' ! 0) = 0" "heap_limit (tasks k' ! 0) = 128"
    "\<forall>i < 3. cstr (cwd (tasks k' ! i)) = Some (lit ''/'')"
    "block k' = (\<lambda>b. if b = (0, 0) then {0..<128} else {})"
proof -
  have lt: "length (tasks k) = 3" using assms by (simp add: raw_kernel_def)
  then obtain t0 t1 t2 where ts: "tasks k = [t0, t1, t2]"
    by (auto simp: length_Suc_conv numeral_3_eq_3)
  define u where "u i t = (setFree (t\<lparr>tid := int i\<rparr>))\<lparr>sp := - 1, wake_up_time := 0,
    heap_base := - 1, heap_limit := 0, alloc_table := map (\<lambda>e. e\<lparr>a_ptr := - 1\<rparr>) (alloc_table t),
    cwd := put_at 0 [47, 0] (cwd t)\<rparr>" for i and t :: "'b task"
  have cw: "length (cwd t) = 32" if "t \<in> {t0, t1, t2}" for t
    using that assms by (auto simp: raw_kernel_def ts)
  have its: "init_tasks 0 (tasks k) = Some [u 0 t0, u 1 t1, u 2 t2]"
    using cw by (simp add: ts init_task_Some u_def numeral_2_eq_2)
  define k1 where "k1 = upd_task 0 setRunning ((Comm_init (k\<lparr>global_heap := replicate (length (global_heap k)) 0,
               heap_bitmap := replicate (length (heap_bitmap k)) 0\<rparr>))\<lparr>tasks := [u 0 t0, u 1 t1, u 2 t2]\<rparr>)"
  have wfu: "wf_task i (u i t)" if "t \<in> {t0, t1, t2}" "i < 3" for i t
    using that assms by (auto simp: raw_kernel_def ts u_def wf_task_def setFree_def nth_put_at)
  have w1: "wf_kernel k1"
    using assms wfu by (auto simp: k1_def wf_kernel_def raw_kernel_def Comm_init_def nth_list_update
        less_Suc_eq numeral_3_eq_3 numeral_2_eq_2)
  have noalloc: "a_ptr e = - 1" if "e \<in> set (alloc_table (tasks k1 ! i))" "i < 3" for e i
    using that by (auto simp: k1_def u_def setFree_def setRunning_def less_Suc_eq numeral_3_eq_3 numeral_2_eq_2)
  have bm1: "heap_bitmap k1 = replicate 128 0" using assms by (simp add: k1_def Comm_init_def raw_kernel_def)
  have free: "\<not> is_allocated (replicate 128 0) x" if "0 \<le> x" "x < 1024" for x
  proof -
    have "nat (x div 8) < 128" using that by (simp add: nat_less_iff)
    then show ?thesis by (simp add: is_allocated_bit)
  qed
  have used1: "used_set (heap_bitmap k1) = {}" using free by (auto simp: used_set_def bm1)
  have len4: "length (alloc_table (tasks k1 ! i)) = 4" if "i < 3" for i
    using wf_kernelD(2) [OF w1 that] by (simp add: wf_task_def)
  have base1: "heap_base (tasks k1 ! i) = - 1" if "i < 3" for i
    using that by (auto simp: k1_def u_def setFree_def setRunning_def less_Suc_eq numeral_3_eq_3 numeral_2_eq_2)
  have "entry_block (alloc_table (tasks k1 ! i) ! s) = {}" if "i < 3" "s < 4" for i s
    using noalloc [of "alloc_table (tasks k1 ! i) ! s" i] that len4 by (simp add: entry_block_def)
  then have blk1: "block k1 = (\<lambda>b. {})"
    using base1 by (auto simp: fun_eq_iff block_def task_block_def)
  have s1: "heap_sound k1" "heap_exact k1"
    using noalloc by (auto simp: heap_exact_def heap_sound_def blk1 used1 blocks_sound_def entry_ok_def)
  obtain p k2 where m: "Kernel_malloc 0 128 k1 = (p, k2)" by fastforce
  have ff: "first_free_run (heap_bitmap k1) 128 0"
    using free by (auto simp: first_free_run_def free_run_def bm1)
  have "a_ptr (alloc_table (tasks k1 ! 0) ! 0) = - 1"
    using noalloc [of "alloc_table (tasks k1 ! 0) ! 0" 0] len4 [of 0] by simp
  then have slot: "find_slot (alloc_table (tasks k1 ! 0)) (- 1) = Some 0"
    using len4 [of 0] by (cases "alloc_table (tasks k1 ! 0)") auto
  have fr: "find_run (heap_bitmap k1) 128 1024 0 0 (- 1) = Some 0"
    using find_run_iff [of "heap_bitmap k1" 128 0] ff by simp
  have m2: "p = 0" "k2 = upd_task 0 (\<lambda>t. t\<lparr>alloc_table :=
      (alloc_table t)[0 := \<lparr>a_ptr = 0, a_size = 128\<rparr>]\<rparr>)
    (k1\<lparr>heap_bitmap := mark_range (heap_bitmap k1) 0 128 True\<rparr>)"
    using m by (auto simp: Kernel_malloc_def fr slot)
  note sp = Kernel_malloc_spec [OF w1 s1(1) _ m]
  have w2: "wf_kernel k2" using Kernel_malloc_wf [OF w1, of 0 128] m by simp
  note C = claim_entry [OF w1 _ _ s1(1), of 0 0 128 0, folded m2(2)]
  define k3 where "k3 = upd_task 0 (\<lambda>t. t\<lparr>heap_base := 0, heap_limit := 128\<rparr>) k2"
  have res: "Kernel_init k = Some k3"
    using its m m2(1) by (simp add: Kernel_init_def k1_def k3_def Let_def Comm_init_def)
  have len2: "length (tasks k2) = 3" using w2 by (simp add: wf_kernel_def)
  have b3: "block k3 = block k2"
    using len2 by (auto simp: fun_eq_iff k3_def block_def task_block_def nth_list_update)
  have tab3: "alloc_table (tasks k3 ! i) = alloc_table (tasks k2 ! i)" if "i < 3" for i
    using that len2 by (simp add: k3_def nth_list_update)
  have snd3: "heap_sound k3" using C(1) used1 by (simp add: heap_sound_def b3 tab3 del: upd_task_frame(9)) (simp add: k3_def)
  have u3: "used_set (heap_bitmap k3) = {0..<128}" using C(2) used1 by (simp add: k3_def)
  have blk3: "block k3 = (\<lambda>b. if b = (0, 0) then {0..<128} else {})"
    using C(3) used1 by (auto simp: b3 blk1 fun_eq_iff)
  have ex3: "heap_exact k3" using snd3 u3 by (auto simp: heap_exact_def blk3 split: if_splits)
  have w3: "wf_kernel k3" unfolding k3_def by (rule wf_kernel_upd_task [OF w2]) (auto simp: wf_task_def)
  have st3: "states k3 = [- 1, - 2, - 2]"
    by (simp add: k3_def m2(2) k1_def states_def u_def setFree_def setRunning_def Comm_init_def)
  have cw3: "\<forall>i < 3. cstr (cwd (tasks k3 ! i)) = Some (lit ''/'')"
  proof -
    have "cstr (put_at 0 ([47] @ [0]) (cwd t)) = Some [47]" if "t \<in> {t0, t1, t2}" for t
      using cw [OF that] by (intro cstr_put_at) auto
    then show ?thesis
      by (auto simp: k3_def m2(2) k1_def u_def setFree_def setRunning_def Comm_init_def lit_slash
          less_Suc_eq numeral_3_eq_3 numeral_2_eq_2)
  qed
  have hb: "heap_base (tasks k3 ! 0) = 0" "heap_limit (tasks k3 ! 0) = 128" using len2 by (simp_all add: k3_def)
  show thesis by (rule that [OF res w3 snd3 ex3 st3 u3 hb cw3 blk3])
qed

lemma demo_states [simp]: "states (demo_kernel st1 st2 code) = [- 1, st1, st2]"
  by (simp add: states_def demo_kernel_def demo_task_def)

section \<open>Properties of the allocator, termination and loading\<close>


lemma demo_free_run: "free_run (heap_bitmap (demo_kernel st1 st2 code)) sz s \<longleftrightarrow> 0 \<le> s \<and> s + sz \<le> 1024"
proof -
  have "\<not> is_allocated (replicate 128 0) x" if "0 \<le> x" "x < 1024" for x
    using used_set_zero that by (auto simp: used_set_def)
  then show ?thesis by (auto simp: free_run_def demo_kernel_def)
qed


text \<open>C26: freeing what malloc returned restores the set of used cells and the blocks of every
  task.\<close>

theorem malloc_free_roundtrip:
  assumes "wf_kernel k" "heap_sound k" "i < 3" "Kernel_malloc i sz k = (p, k')" "p \<noteq> - 1"
  shows "used_set (heap_bitmap (Kernel_free i p k')) = used_set (heap_bitmap k) \<and>
    block (Kernel_free i p k') = block k \<and> heap_sound (Kernel_free i p k')"
proof -
  note S = Kernel_malloc_spec [OF assms(1-4)]
  then obtain s where s: "s < 4" "a_ptr (alloc_table (tasks k ! i) ! s) = - 1" "first_free_run (heap_bitmap k) sz p"
    "block k' = (block k)((i, s) := {p..<p + sz})" "heap_sound k'" "0 < sz"
    "used_set (heap_bitmap k') = used_set (heap_bitmap k) \<union> {p..<p + sz}" using assms(5) by auto
  have w': "wf_kernel k'" using Kernel_malloc_wf [OF assms(1,3), of sz] assms(4) by simp
  have "block k' (i, s) = {p..<p + sz}" by (simp add: s(4))
  then have "entry_block (alloc_table (tasks k' ! i) ! s) = {p..<p + sz}"
    using assms(3) s(1) by (simp add: block_def task_block_def)
  then have e: "{a_ptr (alloc_table (tasks k' ! i) ! s)..<a_ptr (alloc_table (tasks k' ! i) ! s) + a_size (alloc_table (tasks k' ! i) ! s)} = {p..<p + sz}"
    "a_ptr (alloc_table (tasks k' ! i) ! s) \<noteq> - 1"
    using s(6) by (auto simp: entry_block_def split: if_splits)
  then have p: "a_ptr (alloc_table (tasks k' ! i) ! s) = p"
    using s(6) by (auto simp: Ico_eq_Ico)
  have R: "released i {s} k' (Kernel_free i p k')"
    using Kernel_free_released [OF w' s(5) assms(3) s(1)] e(2) p by simp
  have free: "{p..<p + sz} \<inter> used_set (heap_bitmap k) = {}"
    using s(3) by (auto simp: first_free_run_def free_run_def used_set_def)
  have "block k (i, s) = {}" using s(1,2) assms(3) by (simp add: block_def task_block_def entry_block_def)
  then have "block (Kernel_free i p k') = block k"
    using R by (auto simp: released_def s(4) fun_eq_iff)
  moreover have "used_set (heap_bitmap (Kernel_free i p k')) = used_set (heap_bitmap k)"
    using R free by (auto simp: released_def s(4,7))
  ultimately show ?thesis using R by (simp add: released_def)
qed

lemma demo_malloc: "\<exists>k'. Kernel_malloc 1 10 (demo_kernel (- 1) (- 2) (replicate 32 0)) = (0, k')"
proof -
  let ?k = "demo_kernel (- 1) (- 2) (replicate 32 0)"
  have "find_run (heap_bitmap ?k) 10 1024 0 0 (- 1) = Some 0"
    by (simp add: find_run_iff first_free_run_def demo_free_run)
  moreover have "find_slot (alloc_table (tasks ?k ! 1)) (- 1) = Some 0"
    by (simp add: demo_kernel_def demo_task_def numeral_eq_Suc)
  ultimately show ?thesis by (simp add: Kernel_malloc_def)
qed

theorem malloc_free_roundtrip_witness:
  "case Kernel_malloc 1 10 (demo_kernel (- 1) (- 2) (replicate 32 0)) of
     (p, k') \<Rightarrow> p = 0 \<and> heap_sound (Kernel_free 1 0 k') \<and> used_set (heap_bitmap (Kernel_free 1 0 k')) = {}"
proof -
  let ?k = "demo_kernel (- 1) (- 2) (replicate 32 0)"
  obtain k' where m: "Kernel_malloc 1 10 ?k = (0, k')" using demo_malloc by blast
  have w: "wf_kernel ?k" by (rule demo_wf) simp_all
  have u: "used_set (heap_bitmap ?k) = {}" by (simp add: demo_kernel_def used_set_zero)
  from malloc_free_roundtrip [OF w demo_heap(1) _ m] m u show ?thesis by simp
qed

text \<open>C27: terminating a task releases exactly its blocks, its segment included, frees its
  slot, wakes the tasks that wait for it and no others, closes its file and leaves the heap contents
  alone.\<close>

theorem terminate_frees_and_wakes:
  assumes "wf_kernel k" "heap_sound k" "i < 3" "i \<noteq> 0" "fs_ok F" "k' = Kernel_terminateTask F i k"
  shows "heap_sound k' \<and> used_set (heap_bitmap k') = used_set (heap_bitmap k) - (\<Union>s. block k (i, s)) \<and>
    block k' = (\<lambda>b. if fst b = i then {} else block k b) \<and>
    (\<forall>j < 3. task_state (tasks k' ! j) =
       (if j = i then - 2 else if task_state (tasks k ! j) = int i then - 1 else task_state (tasks k ! j))) \<and>
    \<not> fs_isOpen F (t_file (tasks k' ! i)) \<and> global_heap k' = global_heap k"
proof -
  note P = Kernel_terminateTask_post [OF assms(1-4), where F = F, folded assms(6)]
  have w: "wf_kernel k'" unfolding assms(6) by (rule Kernel_terminateTask_wf [OF assms(1,3)])
  have L: "length (tasks k) = 3" "length (tasks k') = 3" using assms(1) w by (simp_all add: wf_kernel_def)
  have "task_state (tasks k' ! j) =
       (if j = i then - 2 else if task_state (tasks k ! j) = int i then - 1 else task_state (tasks k ! j))"
    if "j < 3" for j
    using that L assms(3) arg_cong [OF P(5), of "\<lambda>ss. ss ! j"]
    by (auto simp: states_def exit_states_def nth_list_update split: if_split_asm)
  moreover have "\<not> fs_isOpen F (t_file (tasks k' ! i))"
  proof -
    obtain k0 where k0: "k' = close_file F i k0" by (auto simp: assms(6) Kernel_terminateTask_def Let_def)
    obtain f v where c: "fs_close F (sd k0) (t_file (tasks k0 ! i)) = (f, v)" by fastforce
    have "length (tasks k0) = 3" using L(2) by (simp add: k0 close_file_def c)
    then have "t_file (tasks k' ! i) = f" using assms(3) by (simp add: k0 close_file_def c)
    then show ?thesis using fs_ok_closeD [OF assms(5) c] by simp
  qed
  ultimately show ?thesis using P(1,3,4,6) by simp
qed

theorem terminate_frees_and_wakes_witness:
  "let k = snd (Kernel_malloc 1 10 (demo_kernel (- 1) 1 (replicate 32 0)));
       k' = Kernel_terminateTask (memfs []) 1 k
   in used_set (heap_bitmap k) = {0..<10} \<and> used_set (heap_bitmap k') = {} \<and>
      map task_state (tasks k') = [- 1, - 2, - 1]"
proof -
  let ?k0 = "demo_kernel (- 1) 1 (replicate 32 0)"
  have fr: "find_run (heap_bitmap ?k0) 10 1024 0 0 (- 1) = Some 0"
    by (simp add: find_run_iff first_free_run_def demo_free_run)
  have fs: "find_slot (alloc_table (tasks ?k0 ! 1)) (- 1) = Some 0"
    by (simp add: demo_kernel_def demo_task_def numeral_eq_Suc)
  obtain k where m: "Kernel_malloc 1 10 ?k0 = (0, k)" using fr fs by (simp add: Kernel_malloc_def)
  have w0: "wf_kernel ?k0" by (rule demo_wf) simp_all
  have w: "wf_kernel k" using Kernel_malloc_wf [OF w0, of 1 10] m by simp
  have u0: "used_set (heap_bitmap ?k0) = {}" by (simp add: demo_kernel_def used_set_zero)
  obtain s where S: "heap_sound k" "used_set (heap_bitmap k) = {0..<10}" "block k = (block ?k0)((1, s) := {0..<10})"
    using Kernel_malloc_spec [OF w0 demo_heap(1) _ m] u0 by auto
  let ?k' = "Kernel_terminateTask (memfs []) 1 k"
  note T = terminate_frees_and_wakes [OF w S(1) _ _ memfs_ok [of "[]"] refl, of 1, simplified]
  have "{0..<10} - (\<Union>s. block k (1, s)) = {}" using S(3) by auto
  then have "used_set (heap_bitmap ?k') = {}" using T S(2) by simp
  moreover have "map task_state (tasks k) = [- 1, - 1, 1]"
    using m fr fs by (auto simp: Kernel_malloc_def demo_kernel_def demo_task_def)
  then have "task_state (tasks k ! 0) = - 1" "task_state (tasks k ! 2) = 1" and L: "length (tasks k) = 3"
    by (auto simp: map_eq_Cons_conv numeral_2_eq_2)
  then have st: "task_state (tasks ?k' ! 0) = - 1" "task_state (tasks ?k' ! 1) = - 2" "task_state (tasks ?k' ! 2) = - 1"
    using T by simp_all
  have "length (tasks ?k') = 3" using Kernel_terminateTask_wf [OF w, of 1] by (simp add: wf_kernel_def)
  then have "map task_state (tasks ?k') = [- 1, - 2, - 1]"
    using st by (auto simp: length_Suc_conv numeral_3_eq_3 numeral_2_eq_2)
  ultimately show ?thesis using S(2) m by (simp add: Let_def)
qed

theorem find_program_search:
  assumes "0 \<notin> set name" "length name \<le> 22"
  shows "\<exists>pb. find_program F v name = Some (pb, snd (first_open F v (search_paths name))) \<and>
    cstr pb = Some (fst (first_open F v (search_paths name)))"
  using find_program_eq [OF assms, of F v] by auto

theorem find_program_search_witness:
  "\<exists>pb f. find_program (memfs [(lit ''/bin/ls.bin'', [1, 2])]) () (lit ''ls'') = Some (pb, f, ()) \<and>
     mf_open f \<and> cstr pb = Some (lit ''/bin/ls.bin'')"
proof -
  have n: "0 \<notin> set (lit ''ls'')" "length (lit ''ls'') \<le> 22" by (simp_all add: lit_def of_char_def)
  have e: "first_open (memfs [(lit ''/bin/ls.bin'', [1, 2])]) () (search_paths (lit ''ls'')) =
      (lit ''/bin/ls.bin'', mem_open [(lit ''/bin/ls.bin'', [1, 2])] (lit ''/bin/ls.bin''), ())"
    by (simp add: search_paths_def memfs_def mem_open_def lit_def of_char_def mf_closed_def)
  have "mf_open (mem_open [(lit ''/bin/ls.bin'', [1, 2])] (lit ''/bin/ls.bin''))"
    by (simp add: mem_open_def)
  then show ?thesis
    using find_program_search [OF n, of "memfs [(lit ''/bin/ls.bin'', [1, 2])]" "()"] unfolding e by auto
qed

theorem find_program_buffer_bound:
  assumes "0 \<notin> set name" "\<forall>p \<in> set (search_paths name). \<forall>v. \<not> fs_isOpen F (fst (fs_open F v p))"
  shows "find_program F v name = None \<longleftrightarrow> 22 < length name"
proof
  assume "find_program F v name = None"
  then show "22 < length name" using find_program_eq [OF assms(1), of F v] by force
next
  assume n: "22 < length name"
  let ?b0 = "replicate 32 (0 :: byte)"
  show "find_program F v name = None"
  proof (cases "length name < 32")
    case False
    then show ?thesis by (simp add: find_program_def strcpy_def)
  next
    case l: True
    obtain b1 where b1: "strcpy ?b0 name = Some b1" "cstr b1 = Some name" "length b1 = 32"
      using strcpy_text [of name ?b0] assms(1) l by auto
    obtain b2 where b2: "strcpy b1 name = Some b2" "cstr b2 = Some name" "length b2 = 32"
      using strcpy_text [of name b1] assms(1) l b1(3) by auto
    obtain f1 v1 where o1: "fs_open F v name = (f1, v1)" by fastforce
    then have c1: "\<not> fs_isOpen F f1" using assms(2) by (auto simp: search_paths_def dest: spec [of _ v])
    show ?thesis
    proof (cases "strcat b2 (lit ''.bin'')")
      case None
      then show ?thesis using b1 b2 o1 c1 by (simp add: find_program_def open_path_def)
    next
      case (Some b3)
      have b3: "cstr b3 = Some (name @ lit ''.bin'')" "length b3 = 32"
        using strcat_cstr [OF Some b2(2) lit_nonzero(1)] b2(3) by simp_all
      obtain f2 v2 where o2: "fs_open F v1 (name @ lit ''.bin'') = (f2, v2)" by fastforce
      then have c2: "\<not> fs_isOpen F f2" using assms(2) by (auto simp: search_paths_def dest: spec [of _ v1])
      obtain b4 where b4: "strcpy b3 (lit ''/bin/'') = Some b4" "cstr b4 = Some (lit ''/bin/'')" "length b4 = 32"
        using strcpy_text [of "lit ''/bin/''" b3] b3(2) lit_nonzero by auto
      have "Option.bind (strcat b4 name) (\<lambda>b. strcat b (lit ''.bin'')) = None"
      proof (cases "strcat b4 name")
        case None
        then show ?thesis by simp
      next
        case (Some b5)
        have "cstr b5 = Some (lit ''/bin/'' @ name)" "length b5 = 32"
          using strcat_cstr [OF Some b4(2) assms(1)] b4(3) by simp_all
        with n show ?thesis using Some strcat_Some_iff [of b5 "lit ''/bin/'' @ name" "lit ''.bin''"]
          by (simp add: lit_nonzero)
      qed
      then have "strcat b4 name = None \<or> (\<exists>b5. strcat b4 name = Some b5 \<and> strcat b5 (lit ''.bin'') = None)"
        by (cases "strcat b4 name") simp_all
      then show ?thesis
        using b1 b2 o1 c1 Some b3 o2 c2 b4 by (auto simp: find_program_def open_path_def)
    qed
  qed
qed

theorem find_program_buffer_bound_witness:
  "find_program (memfs []) () (replicate 23 97) = None \<and> find_program (memfs []) () (replicate 22 97) \<noteq> None"
proof -
  have "\<forall>p \<in> set (search_paths (replicate n 97)). \<forall>v. \<not> fs_isOpen (memfs []) (fst (fs_open (memfs []) v p))"
    if "1 < n" for n
  proof -
    have "replicate n (97 :: byte) \<noteq> [47]" using that by (cases n) auto
    then show ?thesis
      by (auto simp: search_paths_def memfs_def mem_open_def mf_closed_def lit_def of_char_def)
  qed
  from find_program_buffer_bound [OF _ this] show ?thesis by simp
qed

lemma load_program_ok:
  assumes "wf_kernel k" "i < 3" "fs_ok F" "\<not> fs_isOpen F (t_file (tasks k ! i))"
    and "0 \<notin> set name" "length name < 32" "0 \<notin> set parent" "0 \<notin> set arg"
    and "fs_open F (sd k) name = (f, v)" "fs_isOpen F f"
    and "fs_read F v f 4 = (4, [0xAD, 0x01, lo, hi], f1, v1)"
    and "sz = sint (ucast lo OR push_bit 8 (ucast hi) :: vint)" "0 < sz" "first_free_run (heap_bitmap k) sz s"
    and "fs_read F v1 f1 32 = (r, code, f2, v2)"
  shows "\<exists>k'. Kernel_loadTask F i name None (Some parent) (Some arg) k = Some (True, k') \<and>
    (let t = tasks k' ! i in
       task_state t = - 1 \<and> sp t = - 1 \<and> wake_up_time t = 0 \<and> heap_base t = s \<and> heap_limit t = sz \<and>
       cstr (filename t) = Some name \<and> cstr (cwd t) = Some (take 31 parent) \<and> cstr (args t) = Some (take 31 arg) \<and>
       t_file t = f2 \<and> take (length code) (code_buffer t) = code \<and> buffer_index t = 0)"
proof -
  have len: "length (tasks k) = 3" "length (code_buffer (tasks k ! i)) = 32"
    using assms(1) wf_kernelD(2) [OF assms(1,2)] by (simp_all add: wf_kernel_def wf_task_def)
  let ?z = "replicate 32 (0 :: byte)"
  obtain a where a: "strncpy ?z arg 31 = Some a" "cstr a = Some (take 31 arg)"
    using strncpy_zeroed [of 31 ?z arg] assms(8) by auto
  obtain c where c: "strncpy ?z parent 31 = Some c" "cstr c = Some (take 31 parent)"
    using strncpy_zeroed [of 31 ?z parent] assms(7) by auto
  have ls: "load_strings None (Some parent) (Some arg) (tasks k ! i) = Some ((tasks k ! i)\<lparr>args := a, cwd := c\<rparr>)"
    using a(1) c(1) by (simp add: load_strings_def)
  obtain pb where pb: "strcpy ?z name = Some pb" "cstr pb = Some name"
    using strcpy_text [of name ?z] assms(5,6) by auto
  have fp: "find_program F (sd k) name = Some (pb, f, v)"
    using pb assms(9,10) by (simp add: find_program_def open_path_def)
  obtain fn where fn: "strncpy (replicate 128 0) name 127 = Some fn" "cstr fn = Some name"
    using strncpy_zeroed [of 127 "replicate 128 0" name] assms(5,6) by auto
  have h: "exec_header 4 [0xAD, 0x01, lo, hi] = Some (Inr sz)"
    by (simp add: exec_header_def assms(12))
  have run: "find_run (heap_bitmap k) sz 1024 0 0 (- 1) = Some s" using assms(13,14) find_run_iff by blast
  have d: "length code \<le> 32" using fs_ok_readD [OF assms(3,15)] by blast
  then have "take (length code) (put_at 0 code (code_buffer (tasks k ! i))) = code" by simp
  then show ?thesis
    using assms(2,4,9,10,11,15) ls fp h run pb fn len a c
    by (simp add: Kernel_loadTask_def load_opened_def load_segment_def setRunning_def Let_def)
qed

text \<open>C29: loading a program whose file opens, has a valid header with a positive size and for
  which a free run exists succeeds: the task runs with an empty stack, the first free run as its
  segment, the name, the parent's directory and the arguments as strings (the latter two cut at 31
  bytes) and the first bytes of its code in the code buffer.\<close>

theorem load_program_succeeds:
  assumes "wf_kernel k" "i < 3" "fs_ok F" "\<not> fs_isOpen F (t_file (tasks k ! i))"
    and "0 \<notin> set name" "length name < 32" "0 \<notin> set parent" "0 \<notin> set arg"
    and "fs_open F (sd k) name = (f, v)" "fs_isOpen F f"
    and "fs_read F v f 4 = (4, [0xAD, 0x01, lo, hi], f1, v1)"
    and "sz = sint (ucast lo OR push_bit 8 (ucast hi) :: vint)" "0 < sz" "first_free_run (heap_bitmap k) sz s"
    and "fs_read F v1 f1 32 = (r, code, f2, v2)"
  shows "\<exists>k'. Kernel_loadTask F i name None (Some parent) (Some arg) k = Some (True, k') \<and>
    (let t = tasks k' ! i in
       task_state t = - 1 \<and> sp t = - 1 \<and> wake_up_time t = 0 \<and> heap_base t = s \<and> heap_limit t = sz \<and>
       cstr (filename t) = Some name \<and> cstr (cwd t) = Some (take 31 parent) \<and> cstr (args t) = Some (take 31 arg) \<and>
       t_file t = f2 \<and> take (length code) (code_buffer t) = code \<and> buffer_index t = 0)"
  by (rule load_program_ok [OF assms])

theorem load_program_succeeds_witness:
  "case Kernel_loadTask (memfs [(lit ''p'', [0xAD, 0x01, 16, 0, 0x10, 7, 0])]) 1 (lit ''p'') None (Some (lit ''/''))
      (Some (lit ''x'')) (demo_kernel (- 2) (- 2) (replicate 32 0)) of
     Some (b, k') \<Rightarrow> b \<and> heap_base (tasks k' ! 1) = 0 \<and> heap_limit (tasks k' ! 1) = 16 \<and>
       take 3 (code_buffer (tasks k' ! 1)) = [0x10, 7, 0]
   | None \<Rightarrow> False"
proof -
  let ?F = "memfs [(lit ''p'', [0xAD, 0x01, 16, 0, 0x10, 7, 0])]"
  let ?k = "demo_kernel (- 2) (- 2) (replicate 32 0)"
  let ?f = "mem_open [(lit ''p'', [0xAD, 0x01, 16, 0, 0x10, 7, 0])] (lit ''p'')"
  have w: "wf_kernel ?k" by (rule demo_wf) simp_all
  have cl: "\<not> fs_isOpen ?F (t_file (tasks ?k ! 1))"
    by (simp add: memfs_def demo_kernel_def demo_task_def mf_closed_def)
  have ff: "first_free_run (heap_bitmap ?k) 16 0" by (simp add: first_free_run_def demo_free_run)
  have f: "?f = \<lparr>mf_open = True, mf_dir = False, mf_data = [0xAD, 0x01, 16, 0, 0x10, 7, 0], mf_pos = 0, mf_name = lit ''p''\<rparr>"
    by (simp add: mem_open_def lit_def of_char_def)
  have o: "fs_open ?F (sd ?k) (lit ''p'') = (?f, ())" "fs_isOpen ?F ?f"
    by (simp add: memfs_def demo_kernel_def) (simp add: memfs_def f)
  have r1: "fs_read ?F () ?f 4 = (4, [0xAD, 0x01, 16, 0], ?f\<lparr>mf_pos := 4\<rparr>, ())"
    by (simp add: memfs_def f)
  have r2: "fs_read ?F () (?f\<lparr>mf_pos := 4\<rparr>) 32 = (3, [0x10, 7, 0], ?f\<lparr>mf_pos := 7\<rparr>, ())"
    by (simp add: memfs_def f)
  have n: "0 \<notin> set (lit ''p'')" "length (lit ''p'') < 32" "0 \<notin> set (lit ''/'')" "0 \<notin> set (lit ''x'')"
    by (simp_all add: lit_def of_char_def)
  have sz: "(16 :: int) = sint (ucast (16 :: byte) OR push_bit 8 (ucast (0 :: byte)) :: vint)" by simp
  obtain k' where "Kernel_loadTask ?F 1 (lit ''p'') None (Some (lit ''/'')) (Some (lit ''x'')) ?k = Some (True, k')"
    "heap_base (tasks k' ! 1) = 0" "heap_limit (tasks k' ! 1) = 16" "take 3 (code_buffer (tasks k' ! 1)) = [0x10, 7, 0]"
    using load_program_succeeds [OF w _ memfs_ok cl n o r1 sz _ ff r2] by (auto simp: Let_def numeral_3_eq_3)
  then show ?thesis by simp
qed

end
