(* ===== verification/ProcTable.thy ===== *)
theory ProcTable
  imports Kernel
begin

text \<open>
  The abstract process table the kernel implements: the list of task states, changed by three kinds of
  event. A task exits and its waiters run, a running task starts a program in a free slot and may wait
  for it, and a task is dropped when its program file cannot be opened again. Kernel operations are
  \<open>lawful\<close>: they keep the well-formedness and heap invariants and change the task states by a run of
  enabled events. The kernel has no deadlock because runs keep \<open>wait_ok\<close>.
\<close>

section \<open>Events\<close>

datatype proc_event = Exit nat | Spawn nat nat bool | Drop nat

fun proc_apply :: "proc_event \<Rightarrow> int list \<Rightarrow> int list" where
  "proc_apply (Exit i) ss = exit_states i ss"
| "proc_apply (Spawn i c w) ss = (if w then ss[c := - 1, i := int c] else ss[c := - 1])"
| "proc_apply (Drop i) ss = ss[i := - 2]"

fun proc_enabled :: "proc_event \<Rightarrow> int list \<Rightarrow> bool" where
  "proc_enabled (Exit i) ss = (i = 1 \<or> i = 2)"
| "proc_enabled (Spawn i c w) ss = (i < 3 \<and> (c = 1 \<or> c = 2) \<and> ss ! i = - 1 \<and> ss ! c = - 2)"
| "proc_enabled (Drop i) ss = (i = 1 \<or> i = 2)"

fun is_drop :: "proc_event \<Rightarrow> bool" where
  "is_drop (Drop i) = True"
| "is_drop _ = False"

inductive proc_run :: "int list \<Rightarrow> proc_event list \<Rightarrow> int list \<Rightarrow> bool" where
  proc_stop: "proc_run ss [] ss"
| proc_step: "proc_enabled e ss \<Longrightarrow> proc_run (proc_apply e ss) es ss' \<Longrightarrow> proc_run ss (e # es) ss'"

inductive_simps proc_run_Nil [simp]: "proc_run ss [] ss'"
inductive_simps proc_run_Cons [simp]: "proc_run ss (e # es) ss'"

lemma proc_run_append: "proc_run ss es ss' \<Longrightarrow> proc_run ss' es' ss'' \<Longrightarrow> proc_run ss (es @ es') ss''"
  by (induction rule: proc_run.induct) auto

section \<open>No deadlock\<close>

text \<open>The daemon is not free; whoever waits, waits for another task that is not free; the two VM tasks
  do not wait for each other.\<close>

definition wait_ok :: "int list \<Rightarrow> bool" where
  "wait_ok ss \<longleftrightarrow> length ss = 3 \<and> ss ! 0 \<noteq> - 2 \<and>
     (\<forall>i < 3. ss ! i = - 2 \<or> ss ! i = - 1 \<or>
        (\<exists>c. (c = 1 \<or> c = 2) \<and> c \<noteq> i \<and> ss ! i = int c \<and> ss ! c \<noteq> - 2)) \<and>
     \<not> (ss ! 1 = 2 \<and> ss ! 2 = 1)"

lemma all_less_3: "(\<forall>i < 3. P i) \<longleftrightarrow> P 0 \<and> P 1 \<and> P (2 :: nat)"
  by (auto simp: numeral_3_eq_3 less_Suc_eq numeral_2_eq_2)

lemma list3: "length xs = 3 \<longleftrightarrow> (\<exists>a b c. xs = [a, b, c])"
  by (auto simp: length_Suc_conv numeral_3_eq_3)

lemma wait_ok_triple:
  "wait_ok [a, b, c] \<longleftrightarrow> (a = - 1 \<or> a = 1 \<and> b \<noteq> - 2 \<or> a = 2 \<and> c \<noteq> - 2) \<and>
     (b = - 2 \<or> b = - 1 \<or> b = 2 \<and> c \<noteq> - 2) \<and> (c = - 2 \<or> c = - 1 \<or> c = 1 \<and> b \<noteq> - 2) \<and> \<not> (b = 2 \<and> c = 1)"
proof -
  have ex: "(\<exists>d. (d = 1 \<or> d = 2) \<and> d \<noteq> i \<and> x = int d \<and> ss ! d \<noteq> - 2) \<longleftrightarrow>
      (1 \<noteq> i \<and> x = 1 \<and> ss ! 1 \<noteq> - 2) \<or> (2 \<noteq> i \<and> x = 2 \<and> ss ! 2 \<noteq> - 2)" for i :: nat and x ss
    by auto
  show ?thesis
    unfolding wait_ok_def all_less_3 ex by (cases "a = - 2") (simp_all add: numeral_2_eq_2)
qed

lemma wait_ok_apply:
  assumes "wait_ok ss" "proc_enabled e ss" "\<not> is_drop e"
  shows "wait_ok (proc_apply e ss)"
proof -
  obtain a b c where ss: "ss = [a, b, c]" using assms(1) by (metis list3 wait_ok_def)
  note W = assms(1) [unfolded ss wait_ok_triple]
  show ?thesis
  proof (cases e)
    case (Exit i)
    then have "i = 1 \<or> i = 2" using assms(2) by simp
    then show ?thesis
    proof
      assume "i = 1"
      then show ?thesis using W by (auto simp: ss Exit exit_states_def wait_ok_triple)
    next
      assume "i = 2"
      then show ?thesis using W by (auto simp: ss Exit exit_states_def wait_ok_triple numeral_2_eq_2)
    qed
  next
    case (Spawn i d w)
    then have "i = 0 \<and> a = - 1 \<or> i = 1 \<and> b = - 1 \<or> i = 2 \<and> c = - 1"
      "d = 1 \<and> b = - 2 \<or> d = 2 \<and> c = - 2"
      using assms(2) by (auto simp: ss numeral_2_eq_2 numeral_3_eq_3 less_Suc_eq)
    then consider "i = 0" "a = - 1" "d = 1" "b = - 2" | "i = 0" "a = - 1" "d = 2" "c = - 2"
      | "i = 1" "b = - 1" "d = 2" "c = - 2" | "i = 2" "c = - 1" "d = 1" "b = - 2"
      by fastforce
    then show ?thesis
      using W by cases (cases w; simp add: ss Spawn wait_ok_triple numeral_2_eq_2; blast)+
  next
    case (Drop i)
    with assms(3) show ?thesis by simp
  qed
qed

lemma wait_ok_run:
  "proc_run ss es ss' \<Longrightarrow> wait_ok ss \<Longrightarrow> list_all (\<lambda>e. \<not> is_drop e) es \<Longrightarrow> wait_ok ss'"
  by (induction rule: proc_run.induct) (auto intro: wait_ok_apply)

lemma wait_ok_runnable:
  assumes "wait_ok ss"
  shows "\<exists>i < 3. ss ! i = - 1"
proof -
  obtain a b c where ss: "ss = [a, b, c]" using assms by (metis list3 wait_ok_def)
  have "a = - 1 \<or> b = - 1 \<or> c = - 1" using assms unfolding ss wait_ok_triple by auto
  then have "ss ! 0 = - 1 \<or> ss ! 1 = - 1 \<or> ss ! 2 = - 1" by (simp add: ss numeral_2_eq_2)
  then show ?thesis by (elim disjE) (rule exI, erule conjI [rotated], simp)+
qed

section \<open>Lawful operations\<close>

definition daemon_closed :: "('fs, 'f) fsops \<Rightarrow> ('fs, 'f) kernel \<Rightarrow> bool" where
  "daemon_closed F k \<longleftrightarrow> \<not> fs_isOpen F (t_file (tasks k ! 0))"

definition kinv :: "('fs, 'f) fsops \<Rightarrow> ('fs, 'f) kernel \<Rightarrow> bool" where
  "kinv F k \<longleftrightarrow> wf_kernel k \<and> heap_sound k \<and> daemon_closed F k"

text \<open>No cell is leaked: every used cell belongs to a block, and free tasks own no block.\<close>

definition tidy :: "('fs, 'f) kernel \<Rightarrow> bool" where
  "tidy k \<longleftrightarrow> heap_exact k \<and> (\<forall>i. 0 < i \<and> i < 3 \<and> states k ! i = - 2 \<longrightarrow> (\<forall>s. block k (i, s) = {}))"

text \<open>Files do not come and go: whether a path opens does not depend on the volume state.\<close>

definition fs_stable :: "('fs, 'f) fsops \<Rightarrow> bool" where
  "fs_stable F \<longleftrightarrow> (\<forall>v v' p. fs_isOpen F (fst (fs_open F v p)) = fs_isOpen F (fst (fs_open F v' p)))"

text \<open>A task that is not free has the path of a file that once opened.\<close>

definition named_ok :: "('fs, 'f) fsops \<Rightarrow> ('fs, 'f) kernel \<Rightarrow> bool" where
  "named_ok F k \<longleftrightarrow> (\<forall>i. 0 < i \<and> i < 3 \<and> states k ! i \<noteq> - 2 \<longrightarrow>
     (\<exists>p v. cstr (filename (tasks k ! i)) = Some p \<and> fs_isOpen F (fst (fs_open F v p))))"

definition lawful :: "('fs, 'f) fsops \<Rightarrow> ('fs, 'f) kernel \<Rightarrow> ('fs, 'f) kernel \<Rightarrow> bool" where
  "lawful F k k' \<longleftrightarrow> (kinv F k \<longrightarrow> kinv F k' \<and>
     (\<exists>es. proc_run (states k) es (states k') \<and>
        (list_all (\<lambda>e. \<not> is_drop e) es \<and> tidy k \<longrightarrow> tidy k') \<and>
        (fs_stable F \<and> named_ok F k \<longrightarrow> list_all (\<lambda>e. \<not> is_drop e) es \<and> named_ok F k')))"

lemma lawful_refl [simp, intro]: "lawful F k k"
  by (auto simp: lawful_def intro: exI [of _ "[]"])

lemma lawful_trans:
  assumes "lawful F k k'" "lawful F k' k''"
  shows "lawful F k k''"
  unfolding lawful_def
proof (intro impI)
  assume I: "kinv F k"
  from assms(1) I obtain es where 1: "kinv F k'" "proc_run (states k) es (states k')"
    "list_all (\<lambda>e. \<not> is_drop e) es \<and> tidy k \<longrightarrow> tidy k'"
    "fs_stable F \<and> named_ok F k \<longrightarrow> list_all (\<lambda>e. \<not> is_drop e) es \<and> named_ok F k'"
    unfolding lawful_def by blast
  from assms(2) 1(1) obtain es' where 2: "kinv F k''" "proc_run (states k') es' (states k'')"
    "list_all (\<lambda>e. \<not> is_drop e) es' \<and> tidy k' \<longrightarrow> tidy k''"
    "fs_stable F \<and> named_ok F k' \<longrightarrow> list_all (\<lambda>e. \<not> is_drop e) es' \<and> named_ok F k''"
    unfolding lawful_def by blast
  show "kinv F k'' \<and> (\<exists>es. proc_run (states k) es (states k'') \<and>
        (list_all (\<lambda>e. \<not> is_drop e) es \<and> tidy k \<longrightarrow> tidy k'') \<and>
        (fs_stable F \<and> named_ok F k \<longrightarrow> list_all (\<lambda>e. \<not> is_drop e) es \<and> named_ok F k''))"
    using 1 2 proc_run_append [OF 1(2) 2(2)] by (intro conjI exI [of _ "es @ es'"]) auto
qed

text \<open>An operation that touches neither the heap blocks nor the states nor the file names.\<close>

definition quiet :: "('fs, 'f) fsops \<Rightarrow> ('fs, 'f) kernel \<Rightarrow> ('fs, 'f) kernel \<Rightarrow> bool" where
  "quiet F k k' \<longleftrightarrow> (wf_kernel k \<longrightarrow> wf_kernel k') \<and> same_heap k k' \<and> states k' = states k \<and>
     (\<forall>i < 3. filename (tasks k' ! i) = filename (tasks k ! i)) \<and>
     (daemon_closed F k \<longrightarrow> daemon_closed F k')"

lemma quiet_refl [simp, intro]: "quiet F k k"
  by (simp add: quiet_def)

lemma quiet_trans: "quiet F k k' \<Longrightarrow> quiet F k' k'' \<Longrightarrow> quiet F k k''"
  unfolding quiet_def by (auto intro: same_heap_trans)

lemma quiet_lawful: "quiet F k k' \<Longrightarrow> lawful F k k'"
  unfolding lawful_def quiet_def kinv_def tidy_def named_ok_def
  using same_heap_block [of k k'] same_heap_sound [of k k'] same_heap_exact [of k k']
  by (auto intro!: exI [of _ "[]"])

lemma lawful_kinv: "lawful F k k' \<Longrightarrow> kinv F k \<Longrightarrow> kinv F k'"
  by (simp add: lawful_def)

lemma kinv_wf: "kinv F k \<Longrightarrow> wf_kernel k"
  by (simp add: kinv_def)

lemma lawful_states_len: "lawful F k k' \<Longrightarrow> kinv F k \<Longrightarrow> length (states k') = 3"
  by (simp add: lawful_def kinv_def wf_kernel_def states_def)

section \<open>The quiet operations\<close>

lemma quiet_put [simp]: "quiet F k (put_str fd s k)" "quiet F k (put_int fd n k)" "quiet F k (put_char fd c k)"
  by (simp_all add: quiet_def same_heap_def daemon_closed_def)

lemma quiet_sd [simp]: "quiet F k (k\<lparr>sd := v\<rparr>)"
  by (simp add: quiet_def same_heap_def daemon_closed_def)

lemma quiet_heap: "length h = 1024 \<Longrightarrow> quiet F k (k\<lparr>global_heap := h\<rparr>)"
  by (simp add: quiet_def same_heap_def daemon_closed_def wf_kernel_def)

lemma quiet_upd_task:
  assumes "i < 3" "\<And>t. wf_task i t \<Longrightarrow> t = tasks k ! i \<Longrightarrow> wf_task i (f t)"
    "\<And>t. alloc_table (f t) = alloc_table t" "\<And>t. heap_base (f t) = heap_base t"
    "\<And>t. heap_limit (f t) = heap_limit t" "\<And>t. task_state (f t) = task_state t"
    "\<And>t. filename (f t) = filename t"
    "i \<noteq> 0 \<or> (fs_isOpen F (t_file (f (tasks k ! i))) \<longrightarrow> fs_isOpen F (t_file (tasks k ! i)))"
  shows "quiet F k (upd_task i f k)"
  unfolding quiet_def
proof (intro conjI impI allI)
  show "wf_kernel (upd_task i f k)" if "wf_kernel k"
    using that assms(1,2) by (intro wf_kernel_upd_task) auto
  show "same_heap k (upd_task i f k)" using assms(3-5) by (rule same_heap_upd_task)
  show "states (upd_task i f k) = states k" using assms(6) by (rule states_upd_same)
  show "filename (tasks (upd_task i f k) ! j) = filename (tasks k ! j)" for j
    using assms(7) by (cases "j = i"; cases "i < length (tasks k)") (auto simp: list_update_beyond)
  show "daemon_closed F (upd_task i f k)" if "daemon_closed F k"
    using that assms(8) by (cases "0 < length (tasks k)"; cases "i = 0") (auto simp: daemon_closed_def)
qed

lemma quiet_close_file:
  assumes "fs_ok F" "i < 3"
  shows "quiet F k (close_file F i k)"
proof -
  obtain f v where c: "fs_close F (sd k) (t_file (tasks k ! i)) = (f, v)" by fastforce
  have n: "\<not> fs_isOpen F f" using fs_ok_closeD [OF assms(1) c] by simp
  have "quiet F (k\<lparr>sd := v\<rparr>) (upd_task i (\<lambda>t. t\<lparr>t_file := f\<rparr>) (k\<lparr>sd := v\<rparr>))"
    by (rule quiet_upd_task [OF assms(2)]) (use n in auto)
  then show ?thesis using quiet_trans [OF quiet_sd] by (simp add: close_file_def c)
qed

lemma quiet_Kernel_jump:
  assumes "fs_ok F" "i < 3"
  shows "quiet F k (Kernel_jump F i a k)"
proof -
  obtain r f v where c: "fs_seek F (sd k) (t_file (tasks k ! i)) (scast (a + 4)) = (r, f, v)" 
    by (metis prod_cases3)
  have n: "fs_isOpen F f = fs_isOpen F (t_file (tasks k ! i))" using fs_ok_seekD [OF assms(1) c] by simp
  have "quiet F (k\<lparr>sd := v\<rparr>) (upd_task i (\<lambda>t. t\<lparr>t_file := f, buffer_index := 32\<rparr>) (k\<lparr>sd := v\<rparr>))"
    by (rule quiet_upd_task [OF assms(2)]) (use n in \<open>auto simp: wf_task_def\<close>)
  then show ?thesis using quiet_trans [OF quiet_sd] by (simp add: Kernel_jump_def c)
qed

lemma quiet_Kernel_yield: "i < 3 \<Longrightarrow> quiet F k (Kernel_yield i k)"
  unfolding Kernel_yield_def by (rule quiet_upd_task) auto

lemma quiet_Kernel_stdRead: "quiet F k (snd (Kernel_stdRead fd k))"
  using Kernel_stdRead_wf [of k fd]
  by (auto simp: Kernel_stdRead_def quiet_def same_heap_def daemon_closed_def split: prod.split)

section \<open>The operations that change the process table or the heap\<close>

lemma lawful_terminate:
  assumes "i < 3" "i \<noteq> 0"
  shows "lawful F k (Kernel_terminateTask F i k)"
  unfolding lawful_def
proof (intro impI conjI)
  assume I: "kinv F k"
  then have w: "wf_kernel k" "heap_sound k" by (simp_all add: kinv_def)
  let ?k = "Kernel_terminateTask F i k"
  note P = Kernel_terminateTask_post [OF w assms, where F = F]
  have i: "i = 1 \<or> i = 2" using assms by auto
  have 0: "t_file (tasks ?k ! 0) = t_file (tasks k ! 0)"
    using P(8) [of 0] assms by (auto simp: setRunning_def)
  then show "kinv F ?k"
    using I P(1) Kernel_terminateTask_wf [OF w(1) assms(1), of F] by (simp add: kinv_def daemon_closed_def)
  have L: "length (states k) = 3" using w(1) by (simp add: states_def wf_kernel_def)
  have run: "proc_run (states k) [Exit i] (states ?k)" using P(5) i by simp
  have fr: "states ?k ! j = - 2 \<longleftrightarrow> j = i \<or> states k ! j = - 2" if "j < 3" for j
    using that L assms by (auto simp: P(5) exit_states_def nth_list_update)
  have "tidy ?k" if "tidy k"
    using that P(2,3) fr by (auto simp: tidy_def)
  moreover have "named_ok F ?k" if "named_ok F k"
    unfolding named_ok_def
  proof (intro allI impI)
    fix j assume j: "0 < j \<and> j < 3 \<and> states ?k ! j \<noteq> - 2"
    then have "states k ! j \<noteq> - 2" "j \<noteq> i" using fr by auto
    moreover have "filename (tasks ?k ! j) = filename (tasks k ! j)"
      using P(8) [of j] j \<open>j \<noteq> i\<close> by (auto simp: setRunning_def)
    ultimately show "\<exists>p v. cstr (filename (tasks ?k ! j)) = Some p \<and> fs_isOpen F (fst (fs_open F v p))"
      using that j unfolding named_ok_def by auto
  qed
  ultimately show "\<exists>es. proc_run (states k) es (states ?k) \<and>
        (list_all (\<lambda>e. \<not> is_drop e) es \<and> tidy k \<longrightarrow> tidy ?k) \<and>
        (fs_stable F \<and> named_ok F k \<longrightarrow> list_all (\<lambda>e. \<not> is_drop e) es \<and> named_ok F ?k)"
    using run by (intro exI [of _ "[Exit i]"]) simp
qed

lemma lawful_refill:
  assumes "fs_ok F" "i < 3" "i \<noteq> 0"
  shows "lawful F k (Kernel_refillBuffer F i k)"
proof (cases "fs_available F (t_file (tasks k ! i)) \<noteq> 0")
  case True
  obtain r d f v where rd: "fs_read F (sd k) (t_file (tasks k ! i)) 32 = (r, d, f, v)"
    by (metis prod_cases4)
  then have "length d \<le> 32" using fs_ok_readD [OF assms(1)] by blast
  then have "quiet F (k\<lparr>sd := v\<rparr>) (upd_task i (\<lambda>t. t\<lparr>t_file := f, code_buffer := put_at 0 d (code_buffer t), buffer_index := 0\<rparr>) (k\<lparr>sd := v\<rparr>))"
    by (intro quiet_upd_task) (use assms in \<open>auto simp: wf_task_def\<close>)
  then show ?thesis
    using quiet_lawful [OF quiet_trans [OF quiet_sd]] True rd by (simp add: Kernel_refillBuffer_def)
next
  case False
  then show ?thesis using lawful_terminate [OF assms(2,3)] by (simp add: Kernel_refillBuffer_def)
qed

lemma lawful_malloc:
  assumes "i < 3" "states k ! i \<noteq> - 2" "Kernel_malloc i sz k = (p, k')"
  shows "lawful F k k'"
  unfolding lawful_def
proof (intro impI)
  assume I: "kinv F k"
  then have w: "wf_kernel k" "heap_sound k" by (simp_all add: kinv_def)
  have w': "wf_kernel k'" using Kernel_malloc_wf [OF w(1) assms(1), of sz] assms(3) by simp
  note sp = Kernel_malloc_spec [OF w assms(1,3)]
  have "states k' = states k \<and> (\<forall>j. filename (tasks k' ! j) = filename (tasks k ! j)) \<and>
      (\<forall>j. t_file (tasks k' ! j) = t_file (tasks k ! j))"
    using assms(1,3) wf_kernelD(1) [OF w(1)]
    by (auto simp: Kernel_malloc_def nth_list_update split: if_split_asm option.split_asm)
  then have fr: "states k' = states k" "\<And>j. filename (tasks k' ! j) = filename (tasks k ! j)"
    "\<And>j. t_file (tasks k' ! j) = t_file (tasks k ! j)" by auto
  have "heap_sound k' \<and> (tidy k \<longrightarrow> tidy k')"
  proof (cases "p = - 1")
    case True
    with sp have "same_heap k k'" by simp
    with w(2) fr(1) show ?thesis
      by (simp add: same_heap_sound same_heap_exact same_heap_block tidy_def)
  next
    case False
    with sp obtain s where s: "block k' = (block k)((i, s) := {p..<p + sz})" "heap_sound k'"
      "heap_exact k \<longrightarrow> heap_exact k'" by auto
    then show ?thesis using assms(2) fr(1) by (auto simp: tidy_def)
  qed
  moreover have "daemon_closed F k'" using I fr(3) by (simp add: kinv_def daemon_closed_def)
  moreover have "named_ok F k'" if "named_ok F k" using that fr by (simp add: named_ok_def)
  ultimately show "kinv F k' \<and> (\<exists>es. proc_run (states k) es (states k') \<and>
        (list_all (\<lambda>e. \<not> is_drop e) es \<and> tidy k \<longrightarrow> tidy k') \<and>
        (fs_stable F \<and> named_ok F k \<longrightarrow> list_all (\<lambda>e. \<not> is_drop e) es \<and> named_ok F k'))"
    using w' fr(1) by (intro conjI exI [of _ "[]"]) (auto simp: kinv_def)
qed

text \<open>Loading a program into the free slot \<open>c\<close> on behalf of the running task \<open>i\<close>.\<close>

lemma lawful_spawn:
  assumes "Kernel_loadTask F c nm a w p k = Some (b, k')" "fs_ok F" "c = 1 \<or> c = 2" "i < 3"
    "states k ! i = - 1" "states k ! c = - 2"
  shows "lawful F k (if b \<and> waits then upd_task i (waitForChild (int c)) k' else k')"
    (is "lawful F k ?k")
  unfolding lawful_def
proof (intro impI)
  assume I: "kinv F k"
  then have w: "wf_kernel k" "heap_sound k" by (simp_all add: kinv_def)
  have c3: "c < 3" "c \<noteq> 0" "c \<noteq> i" using assms by auto
  have ld: "loaded F c b k k'" by (rule Kernel_loadTask_loaded [OF assms(1) w c3(1,2) assms(2)])
  have w1: "wf_kernel k'" by (rule Kernel_loadTask_wf [OF assms(1) w(1) c3(1) assms(2)])
  have w2: "wf_kernel ?k"
    using w1 c3(1) assms(4) by (auto intro!: wf_kernel_upd_task wf_task_wait)
  have L: "length (states k) = 3" "length (tasks k') = 3" using w(1) w1 by (simp_all add: states_def wf_kernel_def)
  have wc: "task_state (waitForChild (int c) t) = int c" for t :: "'b task"
    using c3(1) by (simp add: waitForChild_def signed_take_bit_int_eq_self)
  have sh: "same_heap k' ?k"
    by (auto intro!: same_heap_upd_task simp: waitForChild_def)
  have fl: "filename (tasks ?k ! j) = filename (tasks k' ! j)" "t_file (tasks ?k ! j) = t_file (tasks k' ! j)" for j
    using assms(4) L(2) by (auto simp: nth_list_update waitForChild_def)
  have "daemon_closed F ?k" using I ld c3(2) fl by (simp add: kinv_def daemon_closed_def loaded_def)
  then have K: "kinv F ?k"
    using w2 ld w(2) same_heap_sound [OF sh] same_heap_sound [of k k'] by (auto simp: kinv_def loaded_def split: if_splits)
  show "kinv F ?k \<and> (\<exists>es. proc_run (states k) es (states ?k) \<and>
        (list_all (\<lambda>e. \<not> is_drop e) es \<and> tidy k \<longrightarrow> tidy ?k) \<and>
        (fs_stable F \<and> named_ok F k \<longrightarrow> list_all (\<lambda>e. \<not> is_drop e) es \<and> named_ok F ?k))"
  proof (cases b)
    case False
    then have k: "?k = k'" by simp
    have "states k' = states k \<or> states k' = (states k)[c := - 2]" using ld False by (simp add: loaded_def)
    then have st: "states k' = states k" using assms(6) by (metis list_update_id)
    have "same_heap k k'" using ld False by (simp add: loaded_def)
    then have "tidy k'" if "tidy k" using that st by (simp add: same_heap_exact same_heap_block tidy_def)
    moreover have "named_ok F k'" if "named_ok F k"
      unfolding named_ok_def
    proof (intro allI impI)
      fix j assume j: "0 < j \<and> j < 3 \<and> states k' ! j \<noteq> - 2"
      then have "j \<noteq> c" "states k ! j \<noteq> - 2" using st assms(6) by auto
      then show "\<exists>p v. cstr (filename (tasks k' ! j)) = Some p \<and> fs_isOpen F (fst (fs_open F v p))"
        using that j ld by (auto simp: named_ok_def loaded_def)
    qed
    ultimately show ?thesis using K st unfolding k by (intro conjI exI [of _ "[]"]) auto
  next
    case True
    then have l: "heap_sound k'" "states k' = (states k)[c := - 1]"
      "heap_exact k \<and> block k (c, 4) = {} \<longrightarrow> heap_exact k'"
      "\<exists>X. block k' = (block k)((c, 4) := X)"
      "\<exists>u path. cstr (filename (tasks k' ! c)) = Some path \<and> fs_isOpen F (fst (fs_open F u path))"
      "\<And>j. j \<noteq> c \<Longrightarrow> tasks k' ! j = tasks k ! j"
      using ld by (auto simp: loaded_def)
    have st: "states ?k = proc_apply (Spawn i c waits) (states k)"
      using True l(2) by (simp add: states_upd_task wc)
    have en: "proc_enabled (Spawn i c waits) (states k)" using assms by simp
    have nf: "states ?k ! j = - 2 \<Longrightarrow> states k ! j = - 2 \<and> j \<noteq> c" if "j < 3" for j
      using that L(1) c3 assms(4) by (auto simp: st nth_list_update split: if_split_asm)
    have "tidy ?k" if "tidy k"
    proof -
      have "heap_exact k'" using that l(3) assms(3,6) c3(1) by (auto simp: tidy_def)
      moreover obtain X where "block k' = (block k)((c, 4) := X)" using l(4) by blast
      ultimately show ?thesis
        using that nf unfolding tidy_def same_heap_exact [OF sh] same_heap_block [OF sh] by auto
    qed
    moreover have "named_ok F ?k" if "named_ok F k"
      unfolding named_ok_def
    proof (intro allI impI)
      fix j assume j: "0 < j \<and> j < 3 \<and> states ?k ! j \<noteq> - 2"
      show "\<exists>p v. cstr (filename (tasks ?k ! j)) = Some p \<and> fs_isOpen F (fst (fs_open F v p))"
      proof (cases "j = c")
        case True
        then show ?thesis using l(5) fl by auto
      next
        case False
        have "states k ! j \<noteq> - 2"
          using j assms(5) False L(1) assms(4) by (cases "j = i") (auto simp: st nth_list_update split: if_split_asm)
        then show ?thesis using that j False l(6) fl by (auto simp: named_ok_def)
      qed
    qed
    ultimately show ?thesis using K st en by (intro conjI exI [of _ "[Spawn i c waits]"]) auto
  qed
qed

section \<open>The demonstration state\<close>

lemma demo_kinv:
  "length code = 32 \<Longrightarrow> - 2 \<le> st1 \<Longrightarrow> st1 < 3 \<Longrightarrow> - 2 \<le> st2 \<Longrightarrow> st2 < 3 \<Longrightarrow>
   kinv (memfs tab) (demo_kernel st1 st2 code)"
  using demo_wf demo_heap by (simp add: kinv_def daemon_closed_def)
    (simp add: demo_kernel_def demo_task_def memfs_def mf_closed_def)

lemma memfs_stable: "fs_stable (memfs tab)"
  by (simp add: fs_stable_def memfs_def)

end
