(* ===== verification/Syscalls.thy ===== *)
theory Syscalls
  imports ProcTable
begin

text \<open>
  The system calls of \<open>src/syscall/\<close> and the dispatcher \<open>src/Syscall.cpp\<close>. A call pops its
  arguments from the VM stack of task \<open>i\<close> and reads and writes the global heap. An index below 0 or an
  empty stack is undefined behaviour (\<open>None\<close>): the code only checks the upper bound. \<open>int16\<close> is the
  16-bit \<open>int\<close> in which addresses are computed. Stored characters are \<open>char\<close>, which is signed on AVR.
\<close>

section \<open>Stack and heap access\<close>

definition pop :: "nat \<Rightarrow> ('fs, 'f) kernel \<Rightarrow> (vint \<times> ('fs, 'f) kernel) option" where
  "pop i k = do {
     v \<leftarrow> aget (stack (tasks k ! i)) (sp (tasks k ! i));
     Some (v, upd_task i (\<lambda>t. t\<lparr>sp := sp t - 1\<rparr>) k) }"

definition push :: "nat \<Rightarrow> vint \<Rightarrow> ('fs, 'f) kernel \<Rightarrow> ('fs, 'f) kernel option" where
  "push i v k = do {
     s \<leftarrow> aset (stack (tasks k ! i)) (sp (tasks k ! i) + 1) v;
     Some (upd_task i (\<lambda>t. t\<lparr>sp := sp t + 1, stack := s\<rparr>) k) }"

definition heap_store :: "int \<Rightarrow> vint \<Rightarrow> ('fs, 'f) kernel \<Rightarrow> ('fs, 'f) kernel option" where
  "heap_store a v k = do { h \<leftarrow> aset (global_heap k) a v; Some (k\<lparr>global_heap := h\<rparr>) }"

text \<open>\<open>if (a < GLOBAL_HEAP_SIZE) global_heap[a] = v;\<close>\<close>

definition store_checked :: "int \<Rightarrow> vint \<Rightarrow> ('fs, 'f) kernel \<Rightarrow> ('fs, 'f) kernel option" where
  "store_checked a v k = (if int16 a < 1024 then heap_store (int16 a) v k else Some k)"

text \<open>\<open>for (i = 0; i < length vs; i++) if (a + i < GLOBAL_HEAP_SIZE) global_heap[a + i] = vs[i];\<close>\<close>

fun store_range :: "int \<Rightarrow> vint list \<Rightarrow> ('fs, 'f) kernel \<Rightarrow> ('fs, 'f) kernel option" where
  "store_range a [] k = Some k"
| "store_range a (v # vs) k = do { k \<leftarrow> store_checked a v k; store_range (a + 1) vs k }"

text \<open>A string into the heap, one cell per character, with its terminator.\<close>

definition store_text :: "int \<Rightarrow> byte list \<Rightarrow> ('fs, 'f) kernel \<Rightarrow> ('fs, 'f) kernel option" where
  "store_text a s k = do {
     k \<leftarrow> store_range a (map scast s) k;
     store_checked (a + int (length s)) 0 k }"

text \<open>The loop that reads at most \<open>n\<close> characters of a heap string; \<open>stops\<close> are extra terminators.\<close>

fun heap_chars :: "vint list \<Rightarrow> nat \<Rightarrow> int \<Rightarrow> vint list \<Rightarrow> byte list option" where
  "heap_chars stops 0 a h = Some []"
| "heap_chars stops (Suc n) a h =
     (if int16 a \<ge> 1024 then Some []
      else do {
        val \<leftarrow> aget h (int16 a);
        if val = 0 \<or> val \<in> set stops then Some []
        else map_option ((#) (ucast val)) (heap_chars stops n (a + 1) h) })"

text \<open>The characters in a zeroed buffer of 32 bytes, read back as a C string.\<close>

definition heap_string :: "vint list \<Rightarrow> int \<Rightarrow> ('fs, 'f) kernel \<Rightarrow> byte list option" where
  "heap_string stops a k = do {
     cs \<leftarrow> heap_chars stops 31 a (global_heap k);
     cstr (put_at 0 cs (replicate 32 0)) }"

section \<open>\<open>ls\<close>\<close>

definition ls_target :: "vint \<Rightarrow> 'f task \<Rightarrow> byte list option" where
  "ls_target selector t = do {
     c \<leftarrow> cstr (cwd t);
     let target_path = replicate 128 0;
     if selector = 1
     then do {
       a \<leftarrow> cstr (args t);
       if 0 < length a then resolve_path t a target_path else strcpy target_path c }
     else strcpy target_path c }"

text \<open>\<open>if (written_len < buf_size - 1) if (buf_addr + written_len < GLOBAL_HEAP_SIZE) ...\<close>\<close>

definition ls_put :: "int \<Rightarrow> int \<Rightarrow> vint \<Rightarrow> int \<times> ('fs, 'f) kernel \<Rightarrow> (int \<times> ('fs, 'f) kernel) option" where
  "ls_put buf_addr buf_size c s =
     (let (written_len, k) = s in
      if written_len < int16 (buf_size - 1) \<and> int16 (buf_addr + written_len) < 1024
      then do { k \<leftarrow> heap_store (int16 (buf_addr + written_len)) c k; Some (written_len + 1, k) }
      else Some (written_len, k))"

fun ls_puts :: "int \<Rightarrow> int \<Rightarrow> vint list \<Rightarrow> int \<times> ('fs, 'f) kernel \<Rightarrow> (int \<times> ('fs, 'f) kernel) option" where
  "ls_puts buf_addr buf_size [] s = Some s"
| "ls_puts buf_addr buf_size (c # cs) s = do { s \<leftarrow> ls_put buf_addr buf_size c s; ls_puts buf_addr buf_size cs s }"

text \<open>The text of one entry in \<open>name\<close>: directories get a slash when it fits.\<close>

definition entry_name :: "bool \<Rightarrow> byte list \<Rightarrow> byte list" where
  "entry_name is_dir name = (if is_dir \<and> length name < 30 then name @ [47] else name)"

text \<open>The \<open>for (;;)\<close> loop over the directory; no result when it does not end.\<close>

partial_function (option) ls_entries ::
    "('fs, 'f) fsops \<Rightarrow> int \<Rightarrow> int \<Rightarrow> 'f \<Rightarrow> int \<times> ('fs, 'f) kernel \<Rightarrow> ('f \<times> int \<times> ('fs, 'f) kernel) option" where
  "ls_entries F buf_addr buf_size dir s =
     (case fs_openNextFile F (sd (snd s)) dir of (entry, dir, v) \<Rightarrow>
      if \<not> fs_isOpen F entry then Some (dir, fst s, (snd s)\<lparr>sd := v\<rparr>)
      else case fs_getName F v entry 32 of (name, v) \<Rightarrow>
        Option.bind (ls_puts buf_addr buf_size
            (map scast (entry_name (fs_isDirectory F entry) name) @ [10]) (fst s, (snd s)\<lparr>sd := v\<rparr>))
          (\<lambda>s. case fs_close F (sd (snd s)) entry of (entry, v) \<Rightarrow>
             ls_entries F buf_addr buf_size dir (fst s, (snd s)\<lparr>sd := v\<rparr>)))"

text \<open>The listing of an open directory.\<close>

definition ls_list :: "('fs, 'f) fsops \<Rightarrow> int \<Rightarrow> int \<Rightarrow> 'f \<Rightarrow> ('fs, 'f) kernel \<Rightarrow> ('fs, 'f) kernel option" where
  "ls_list F buf_addr buf_size dir k = do {
     k \<leftarrow> store_range buf_addr (replicate (nat buf_size) 0) k;
     (dir, written_len, k) \<leftarrow> ls_entries F buf_addr buf_size dir (0, k);
     let (dir, v) = fs_close F (sd k) dir;
     store_checked (buf_addr + written_len) 0 (k\<lparr>sd := v\<rparr>) }"

text \<open>Opening the task's program again at the position where it stopped.\<close>

definition ls_reopen :: "('fs, 'f) fsops \<Rightarrow> nat \<Rightarrow> 32 word \<Rightarrow> ('fs, 'f) kernel \<Rightarrow> ('fs, 'f) kernel option" where
  "ls_reopen F i current_pos k = do {
     path \<leftarrow> cstr (filename (tasks k ! i));
     let (f, v) = fs_open F (sd k) path;
     if fs_isOpen F f
     then let (r, f, v) = fs_seek F v f current_pos
          in Some (upd_task i (\<lambda>t. t\<lparr>t_file := f\<rparr>) (k\<lparr>sd := v\<rparr>))
     else Some (upd_task i (\<lambda>t. setFree (t\<lparr>t_file := f\<rparr>)) (k\<lparr>sd := v\<rparr>)) }"

definition Syscall_ls :: "('fs, 'f) fsops \<Rightarrow> nat \<Rightarrow> ('fs, 'f) kernel \<Rightarrow> ('fs, 'f) kernel option" where
  "Syscall_ls F i k = do {
     (selector, k) \<leftarrow> pop i k;
     (buf_size, k) \<leftarrow> pop i k;
     (buf_addr, k) \<leftarrow> pop i k;
     let t = tasks k ! i;
     target_path \<leftarrow> ls_target selector t;
     let buf_addr = Kernel_getPhysAddr t (sint buf_addr);
     let is_file_task = fs_isOpen F (t_file t);
     let current_pos = (if is_file_task then fs_curPosition F (t_file t) else 0);
     let k = (if is_file_task then close_file F i k else k);
     path \<leftarrow> cstr target_path;
     let (dir, v) = fs_open F (sd k) path;
     let k = k\<lparr>sd := v\<rparr>;
     if fs_isOpen F dir
     then do {
       k \<leftarrow> ls_list F buf_addr (sint buf_size) dir k;
       if is_file_task then ls_reopen F i current_pos k else Some k }
     else store_checked buf_addr (- 1) k }"

section \<open>\<open>exec\<close>\<close>

definition free_slot :: "('fs, 'f) kernel \<Rightarrow> nat option" where
  "free_slot k = find (\<lambda>i. task_state (tasks k ! i) = TASK_FREE) [1..<TASK_COUNT]"

definition Syscall_exec :: "('fs, 'f) fsops \<Rightarrow> nat \<Rightarrow> ('fs, 'f) kernel \<Rightarrow> ('fs, 'f) kernel option" where
  "Syscall_exec F i k = do {
     (wait_opt, k) \<leftarrow> pop i k;
     (cmd_addr, k) \<leftarrow> pop i k;
     (arg_addr, k) \<leftarrow> pop i k;
     let t = tasks k ! i;
     let cmd_addr = Kernel_getPhysAddr t (sint cmd_addr);
     let arg_addr = (if arg_addr \<noteq> 0 then Kernel_getPhysAddr t (sint arg_addr) else 0);
     cmd_str \<leftarrow> heap_string [32] cmd_addr k;
     arg_str \<leftarrow> (if arg_addr \<noteq> 0 then map_option Some (heap_string [] arg_addr k) else Some None);
     (case free_slot k of
        None \<Rightarrow> Some (put_str FD_STDERR (lit ''Error: No free task slots.'' @ [10]) k)
      | Some slot \<Rightarrow> do {
          parent_cwd \<leftarrow> cstr (cwd t);
          (success, k) \<leftarrow> Kernel_loadTask F slot cmd_str None (Some parent_cwd) arg_str k;
          Some (if success \<and> wait_opt = 1 then upd_task i (waitForChild (int slot)) k else k) }) }"

section \<open>\<open>chdir\<close> and \<open>getcwd\<close>\<close>

text \<open>The parent directory, computed in the buffer \<open>target_path\<close>.\<close>

definition parent_path :: "byte list \<Rightarrow> byte list \<Rightarrow> byte list option" where
  "parent_path c target_path = do {
     target_path \<leftarrow> strcpy target_path c;
     target_path \<leftarrow> (if 1 < length c \<and> ends_with 47 c
                    then aset target_path (int (length c) - 1) 0 else Some target_path);
     path \<leftarrow> cstr target_path;
     (case strrchr path 47 of
        Some last_slash \<Rightarrow>
          (if last_slash = 0 then strcpy target_path (lit ''/'')
           else aset target_path (int last_slash) 0)
      | None \<Rightarrow> strcpy target_path (lit ''/'')) }"

definition chdir_target :: "byte list \<Rightarrow> 'f task \<Rightarrow> byte list option" where
  "chdir_target path_str t = do {
     c \<leftarrow> cstr (cwd t);
     let target_path = replicate 64 0;
     if path_str = lit ''..'' then parent_path c target_path
     else if path_str = lit ''.'' then strcpy target_path c
     else resolve_path t path_str target_path }"

text \<open>Whether the target is a directory; the root is not looked up.\<close>

definition chdir_exists :: "('fs, 'f) fsops \<Rightarrow> byte list \<Rightarrow> ('fs, 'f) kernel \<Rightarrow> bool \<times> ('fs, 'f) kernel" where
  "chdir_exists F path k =
     (if path = lit ''/'' then (True, k)
      else let (dir, v) = fs_open F (sd k) path
           in if fs_isOpen F dir \<and> fs_isDirectory F dir
              then let (dir, v) = fs_close F v dir in (True, k\<lparr>sd := v\<rparr>)
              else (False, k\<lparr>sd := v\<rparr>))"

text \<open>The new working directory, with a slash appended; a path of 31 characters has no room for it.\<close>

definition new_cwd :: "byte list \<Rightarrow> byte list option" where
  "new_cwd path = do {
     c \<leftarrow> strncpy (replicate 32 0) path 31;
     s \<leftarrow> cstr c;
     if 1 < length s \<and> \<not> ends_with 47 s then strcat c (lit ''/'') else Some c }"

text \<open>Success sets the working directory and reports it; failure reports -1.\<close>

definition chdir_finish ::
    "nat \<Rightarrow> byte list \<Rightarrow> vint \<Rightarrow> bool \<Rightarrow> ('fs, 'f) kernel \<Rightarrow> ('fs, 'f) kernel option" where
  "chdir_finish i path buf_addr success k =
     (if success
      then do {
        c \<leftarrow> new_cwd path;
        let k = upd_task i (\<lambda>t. t\<lparr>cwd := c\<rparr>) k;
        if buf_addr \<noteq> 0
        then do { s \<leftarrow> cstr c; store_text (Kernel_getPhysAddr (tasks k ! i) (sint buf_addr)) s k }
        else Some k }
      else if buf_addr \<noteq> 0
        then store_checked (Kernel_getPhysAddr (tasks k ! i) (sint buf_addr)) (- 1) k
      else Some k)"

definition Syscall_chdir :: "('fs, 'f) fsops \<Rightarrow> nat \<Rightarrow> ('fs, 'f) kernel \<Rightarrow> ('fs, 'f) kernel option" where
  "Syscall_chdir F i k = do {
     (arg_addr, k) \<leftarrow> pop i k;
     (buf_addr, k) \<leftarrow> pop i k;
     if arg_addr = 0 then Some k
     else do {
       let t = tasks k ! i;
       path_str \<leftarrow> heap_string [] (Kernel_getPhysAddr t (sint arg_addr)) k;
       target_path \<leftarrow> chdir_target path_str t;
       path \<leftarrow> cstr target_path;
       let (success, k) = chdir_exists F path k;
       chdir_finish i path buf_addr success k } }"

definition Syscall_getcwd :: "nat \<Rightarrow> ('fs, 'f) kernel \<Rightarrow> ('fs, 'f) kernel option" where
  "Syscall_getcwd i k = do {
     (buf_addr, k) \<leftarrow> pop i k;
     if buf_addr = 0 then Some k
     else do {
       c \<leftarrow> cstr (cwd (tasks k ! i));
       store_text (Kernel_getPhysAddr (tasks k ! i) (sint buf_addr)) c k } }"

section \<open>The dispatcher\<close>

definition Kernel_systemCall :: "('fs, 'f) fsops \<Rightarrow> nat \<Rightarrow> vint \<Rightarrow> ('fs, 'f) kernel \<Rightarrow> ('fs, 'f) kernel option" where
  "Kernel_systemCall F i sys_id k =
     (if sys_id = 1 then Syscall_ls F i k
      else if sys_id = 2 then Syscall_exec F i k
      else if sys_id = 3 then Syscall_chdir F i k
      else if sys_id = 4 then Syscall_getcwd i k
      else Some k)"

section \<open>Lawfulness\<close>

lemma quiet_pop:
  assumes "pop i k = Some (v, k')" "i < 3"
  shows "quiet F k k'"
proof -
  from assms(1) have k': "k' = upd_task i (\<lambda>t. t\<lparr>sp := sp t - 1\<rparr>) k" and "0 \<le> sp (tasks k ! i)"
    by (auto simp: pop_def bind_eq_Some_conv)
  then show ?thesis unfolding k' by (intro quiet_upd_task) (use assms(2) in \<open>auto simp: wf_task_def\<close>)
qed

lemma quiet_push:
  assumes "push i v k = Some k'" "i < 3"
  shows "quiet F k k'"
proof -
  let ?t = "tasks k ! i"
  from assms(1) obtain s where s: "s = (stack ?t)[nat (sp ?t + 1) := v]" "0 \<le> sp ?t + 1" "sp ?t + 1 < int (length (stack ?t))"
    and k': "k' = upd_task i (\<lambda>t. t\<lparr>sp := sp t + 1, stack := s\<rparr>) k"
    by (auto simp: push_def bind_eq_Some_conv)
  show ?thesis unfolding k' by (intro quiet_upd_task) (use assms(2) s in \<open>auto simp: wf_task_def\<close>)
qed

lemma quiet_heap_update [simp]: "quiet F k (k\<lparr>global_heap := (global_heap k)[j := v]\<rparr>)"
  by (simp add: quiet_def same_heap_def daemon_closed_def wf_kernel_def)

lemma quiet_heap_store: "heap_store a v k = Some k' \<Longrightarrow> quiet F k k'"
  by (auto simp: heap_store_def bind_eq_Some_conv)

lemma quiet_store_checked: "store_checked a v k = Some k' \<Longrightarrow> quiet F k k'"
  by (auto simp: store_checked_def quiet_heap_store split: if_splits)

lemma quiet_store_range: "store_range a vs k = Some k' \<Longrightarrow> quiet F k k'"
  by (induction a vs k rule: store_range.induct)
    (auto simp: bind_eq_Some_conv intro: quiet_trans [OF quiet_store_checked])

lemma quiet_store_text: "store_text a s k = Some k' \<Longrightarrow> quiet F k k'"
  by (auto simp: store_text_def bind_eq_Some_conv intro: quiet_trans [OF quiet_store_range quiet_store_checked])

lemma quiet_ls_put: "ls_put a n c s = Some s' \<Longrightarrow> quiet F (snd s) (snd s')"
  by (cases s) (auto simp: ls_put_def bind_eq_Some_conv Let_def quiet_heap_store split: if_splits)

lemma quiet_ls_puts: "ls_puts a n cs s = Some s' \<Longrightarrow> quiet F (snd s) (snd s')"
  by (induction a n cs s rule: ls_puts.induct)
    (auto simp: bind_eq_Some_conv intro: quiet_trans [OF quiet_ls_put])

lemma quiet_sd_trans: "quiet F (k\<lparr>sd := v\<rparr>) k' \<Longrightarrow> quiet F k k'"
  by (rule quiet_trans [OF quiet_sd])

lemma quiet_ls_entries:
  assumes "ls_entries F a n dir s = Some r"
  shows "quiet G (snd s) (snd (snd r))"
proof (rule ls_entries.raw_induct [where P = "\<lambda>F a n dir s r. quiet G (snd s) (snd (snd r))", OF _ assms])
  fix rec F a n dir s
  fix r
  assume IH: "\<And>F a n dir s r. rec F a n dir s = Some r \<Longrightarrow> quiet G (snd s) (snd (snd r))"
    and step: "(case fs_openNextFile F (sd (snd s)) dir of
      (entry, dir, v) \<Rightarrow>
        if \<not> fs_isOpen F entry then Some (dir, fst s, snd s\<lparr>sd := v\<rparr>)
        else case fs_getName F v entry 32 of
             (name, v) \<Rightarrow>
               Option.bind (ls_puts a n (map scast (entry_name (fs_isDirectory F entry) name) @ [10])
                (fst s, snd s\<lparr>sd := v\<rparr>))
               (\<lambda>s. case fs_close F (sd (snd s)) entry of
                    (entry, v) \<Rightarrow> rec F a n dir (fst s, snd s\<lparr>sd := v\<rparr>))) = Some r"
  obtain e d v where o: "fs_openNextFile F (sd (snd s)) dir = (e, d, v)" by (metis prod_cases3)
  show "quiet G (snd s) (snd (snd r))"
  proof (cases "fs_isOpen F e")
    case False
    with step o show ?thesis by auto
  next
    case True
    obtain nm v2 where g: "fs_getName F v e 32 = (nm, v2)" by fastforce
    let ?s1 = "(fst s, (snd s)\<lparr>sd := v2\<rparr>)"
    from step o True g obtain s2 where
      p: "ls_puts a n (map scast (entry_name (fs_isDirectory F e) nm) @ [10]) ?s1 = Some s2"
      and r: "rec F a n d (fst s2, (snd s2)\<lparr>sd := snd (fs_close F (sd (snd s2)) e)\<rparr>) = Some r"
      by (auto simp: bind_eq_Some_conv case_prod_unfold)
    have "quiet G (snd s) (snd s2)" using quiet_ls_puts [OF p, of G] by (simp add: quiet_sd_trans)
    moreover have "quiet G (snd s2) (snd (snd r))" using IH [OF r] by (simp add: quiet_sd_trans)
    ultimately show ?thesis by (rule quiet_trans)
  qed
qed

lemma quiet_ls_list:
  assumes "ls_list F a n dir k = Some k'"
  shows "quiet G k k'"
proof -
  from assms obtain k1 d w k2 d' v where
    "store_range a (replicate (nat n) 0) k = Some k1" "ls_entries F a n dir (0, k1) = Some (d, w, k2)"
    "store_checked (a + w) 0 (k2\<lparr>sd := v\<rparr>) = Some k'"
    by (auto simp: ls_list_def bind_eq_Some_conv case_prod_unfold Let_def)
  then have "quiet G k k1" "quiet G k1 k2" "quiet G (k2\<lparr>sd := v\<rparr>) k'"
    using quiet_ls_entries [of F a n dir "(0, k1)" "(d, w, k2)" G]
    by (auto intro: quiet_store_range quiet_store_checked)
  then show ?thesis by (blast intro: quiet_trans quiet_sd)
qed

lemma lawful_ls_reopen:
  assumes "ls_reopen F i p k = Some k'" "fs_ok F" "i < 3" "i \<noteq> 0" "states k ! i \<noteq> - 2"
  shows "lawful F k k'"
proof -
  from assms(1) obtain path f v where c: "cstr (filename (tasks k ! i)) = Some path"
    and o: "fs_open F (sd k) path = (f, v)"
    by (cases "fs_open F (sd k) (the (cstr (filename (tasks k ! i))))")
      (auto simp: ls_reopen_def bind_eq_Some_conv)
  show ?thesis
  proof (cases "fs_isOpen F f")
    case True
    obtain r f' v' where sk: "fs_seek F v f p = (r, f', v')" by (metis prod_cases3)
    have k': "k' = upd_task i (\<lambda>t. t\<lparr>t_file := f'\<rparr>) (k\<lparr>sd := v'\<rparr>)"
      using assms(1) c o True sk by (simp add: ls_reopen_def)
    show ?thesis unfolding k'
      by (rule quiet_lawful, rule quiet_sd_trans [where v = v'], rule quiet_upd_task)
        (use assms in auto)
  next
    case False
    have k': "k' = upd_task i (\<lambda>t. setFree (t\<lparr>t_file := f\<rparr>)) (k\<lparr>sd := v\<rparr>)"
      using assms(1) c o False by (simp add: ls_reopen_def)
    show ?thesis
      unfolding lawful_def
    proof (intro impI)
      assume I: "kinv F k"
      then have w: "wf_kernel k" "heap_sound k" by (simp_all add: kinv_def)
      have i: "i = 1 \<or> i = 2" using assms by auto
      have "wf_kernel k'" unfolding k'
        by (intro wf_kernel_upd_task) (use w assms(3) in simp_all)
      moreover have sh: "same_heap k k'"
        unfolding k' by (rule same_heap_trans [OF _ same_heap_upd_task]) (auto simp: same_heap_def setFree_def)
      moreover have "daemon_closed F k'"
        using I assms(4) by (simp add: k' kinv_def daemon_closed_def)
      ultimately have K: "kinv F k'" using w same_heap_sound [OF sh] by (simp add: kinv_def)
      have st: "states k' = proc_apply (Drop i) (states k)" by (simp add: k' states_upd_task setFree_def)
      have "\<not> (fs_stable F \<and> named_ok F k)"
      proof
        assume A: "fs_stable F \<and> named_ok F k"
        then obtain q u where "cstr (filename (tasks k ! i)) = Some q" "fs_isOpen F (fst (fs_open F u q))"
          using assms(3-5) unfolding named_ok_def by blast
        with c A o False show False unfolding fs_stable_def by (metis fst_conv option.inject)
      qed
      then show "kinv F k' \<and> (\<exists>es. proc_run (states k) es (states k') \<and>
        (list_all (\<lambda>e. \<not> is_drop e) es \<and> tidy k \<longrightarrow> tidy k') \<and>
        (fs_stable F \<and> named_ok F k \<longrightarrow> list_all (\<lambda>e. \<not> is_drop e) es \<and> named_ok F k'))"
        using K st i by (intro conjI exI [of _ "[Drop i]"]) auto
    qed
  qed
qed

lemma quiet_states: "quiet F k k' \<Longrightarrow> states k' = states k"
  by (simp add: quiet_def)

lemma quiet_t_file_pop: "pop i k = Some (v, k') \<Longrightarrow> t_file (tasks k' ! j) = t_file (tasks k ! j)"
  by (cases "i < length (tasks k)") (auto simp: pop_def bind_eq_Some_conv nth_list_update list_update_beyond)

lemma lawful_ls:
  assumes "Syscall_ls F i k = Some k'" "fs_ok F" "i < 3" "states k ! i = - 1"
  shows "lawful F k k'"
proof -
  from assms(1) obtain sel n a k1 k2 k3 where
    p: "pop i k = Some (sel, k1)" "pop i k1 = Some (n, k2)" "pop i k2 = Some (a, k3)"
    by (auto simp: Syscall_ls_def bind_eq_Some_conv)
  let ?t = "tasks k3 ! i"
  define c where "c = fs_isOpen F (t_file ?t)"
  define k4 where "k4 = (if c then close_file F i k3 else k3)"
  obtain tp path where tp: "ls_target sel ?t = Some tp" "cstr tp = Some path"
    using assms(1) p by (auto simp: Syscall_ls_def bind_eq_Some_conv Let_def)
  obtain dir v where o: "fs_open F (sd k4) path = (dir, v)" by fastforce
  let ?k5 = "k4\<lparr>sd := v\<rparr>"
  have e: "(if fs_isOpen F dir then Option.bind (ls_list F (Kernel_getPhysAddr ?t (sint a)) (sint n) dir ?k5)
        (\<lambda>k. if c then ls_reopen F i (if c then fs_curPosition F (t_file ?t) else 0) k else Some k)
      else store_checked (Kernel_getPhysAddr ?t (sint a)) (- 1) ?k5) = Some k'"
    using assms(1) p tp o unfolding k4_def c_def by (simp add: Syscall_ls_def Let_def split del: if_split)
  have "quiet F k k3" using p assms(3) by (blast intro: quiet_trans quiet_pop)
  moreover have "quiet F k3 k4" using assms(2,3) by (simp add: k4_def quiet_close_file)
  ultimately have q5: "quiet F k ?k5" by (blast intro: quiet_trans quiet_sd)
  have tf: "t_file ?t = t_file (tasks k ! i)" using p by (simp add: quiet_t_file_pop)
  show ?thesis
  proof (cases "fs_isOpen F dir")
    case False
    then show ?thesis using e q5 by (auto intro!: quiet_lawful intro: quiet_trans quiet_store_checked)
  next
    case True
    with e obtain k6 where k6: "ls_list F (Kernel_getPhysAddr ?t (sint a)) (sint n) dir ?k5 = Some k6"
      and k': "if c then ls_reopen F i (fs_curPosition F (t_file ?t)) k6 = Some k' else k' = k6"
      by (auto simp: bind_eq_Some_conv split: if_splits)
    have q6: "quiet F k k6" using q5 quiet_ls_list [OF k6] by (rule quiet_trans)
    show ?thesis
    proof (cases c)
      case False
      with k' q6 show ?thesis by (simp add: quiet_lawful)
    next
      case c: True
      show ?thesis
      proof (cases "i = 0")
        case True
        then have "\<not> kinv F k" using c tf by (simp add: c_def kinv_def daemon_closed_def)
        then show ?thesis by (simp add: lawful_def)
      next
        case False
        have "states k6 ! i \<noteq> - 2" using q6 assms(4) by (simp add: quiet_states)
        then have "lawful F k6 k'" using k' c assms(2,3) False by (auto intro: lawful_ls_reopen)
        then show ?thesis using q6 by (blast intro: lawful_trans quiet_lawful)
      qed
    qed
  qed
qed

lemma free_slot_Some:
  assumes "free_slot k = Some c" "length (tasks k) = 3"
  shows "c = 1 \<or> c = 2" "states k ! c = - 2"
  using assms by (auto simp: free_slot_def states_def upt_rec numeral_2_eq_2 split: if_splits)

lemma lawful_exec:
  assumes "Syscall_exec F i k = Some k'" "fs_ok F" "i < 3" "states k ! i = - 1"
  shows "lawful F k k'"
proof (cases "wf_kernel k")
  case False
  then show ?thesis by (simp add: lawful_def kinv_def)
next
  case w: True
  from assms(1) obtain w a b k1 k2 k3 where
    p: "pop i k = Some (w, k1)" "pop i k1 = Some (a, k2)" "pop i k2 = Some (b, k3)"
    by (auto simp: Syscall_exec_def bind_eq_Some_conv)
  have q: "quiet F k k3" using p assms(3) by (blast intro: quiet_trans quiet_pop)
  then have w3: "wf_kernel k3" "states k3 ! i = - 1" using w assms(4) by (simp_all add: quiet_def)
  have L3: "length (tasks k3) = 3" using w3 by (simp add: wf_kernel_def)
  show ?thesis
  proof (cases "free_slot k3")
    case None
    then have "k' = put_str FD_STDERR (lit ''Error: No free task slots.'' @ [10]) k3"
      using assms(1) p by (auto simp: Syscall_exec_def bind_eq_Some_conv Let_def split: if_splits)
    then show ?thesis using q by (auto intro!: quiet_lawful intro: quiet_trans quiet_put)
  next
    case (Some c)
    then obtain cmd arg pc ok k4 where ld: "Kernel_loadTask F c cmd None (Some pc) arg k3 = Some (ok, k4)"
      and k': "k' = (if ok \<and> w = 1 then upd_task i (waitForChild (int c)) k4 else k4)"
      using assms(1) p by (auto simp: Syscall_exec_def bind_eq_Some_conv Let_def split: if_splits)
    note fs = free_slot_Some [OF Some L3]
    have "lawful F k3 k'" unfolding k'
      by (rule lawful_spawn [OF ld assms(2) fs(1) assms(3) w3(2) fs(2)])
    then show ?thesis using q by (blast intro: lawful_trans quiet_lawful)
  qed
qed

lemma quiet_chdir_exists: "chdir_exists F path k = (b, k') \<Longrightarrow> quiet G k k'"
  by (auto simp: chdir_exists_def Let_def split: if_splits prod.splits)

lemma cwd_terminated:
  assumes "new_cwd path = Some c"
  shows "length c = 32" "c ! 31 = 0"
proof -
  from assms obtain b s where b: "strncpy (replicate 32 0) path 31 = Some b" "cstr b = Some s"
    and c: "(if 1 < length s \<and> \<not> ends_with 47 s then strcat b (lit ''/'') else Some b) = Some c"
    by (auto simp: new_cwd_def bind_eq_Some_conv)
  note t = strncpy_last [OF _ _ b(1)]
  have lb: "length b = 32" "b ! 31 = 0" using t by simp_all
  have "length c = 32 \<and> c ! 31 = 0"
  proof (cases "1 < length s \<and> \<not> ends_with 47 s")
    case True
    with c b(2) have "c = put_at (length s) [47, 0] b" "length s + 2 \<le> 32"
      by (auto simp: strcat_def lit_slash lb split: if_splits)
    then show ?thesis using lb by (auto simp: nth_put_at nth_Cons')
  next
    case False
    with c lb show ?thesis by auto
  qed
  then show "length c = 32" "c ! 31 = 0" by simp_all
qed

lemma quiet_set_cwd:
  "length c = 32 \<Longrightarrow> c ! 31 = 0 \<Longrightarrow> i < 3 \<Longrightarrow> quiet F k (upd_task i (\<lambda>t. t\<lparr>cwd := c\<rparr>) k)"
  by (intro quiet_upd_task) (auto simp: wf_task_def)

lemma quiet_chdir_finish:
  assumes "chdir_finish i path b ok k = Some k'" "i < 3"
  shows "quiet G k k'"
proof (cases ok)
  case True
  with assms(1) obtain c where c: "new_cwd path = Some c"
    by (auto simp: chdir_finish_def bind_eq_Some_conv)
  let ?k = "upd_task i (\<lambda>t. t\<lparr>cwd := c\<rparr>) k"
  have "quiet G ?k k'"
    using assms(1) True c
    by (auto simp: chdir_finish_def bind_eq_Some_conv Let_def quiet_store_text split: if_splits)
  then show ?thesis by (rule quiet_trans [OF quiet_set_cwd [OF cwd_terminated [OF c] assms(2)]])
next
  case False
  with assms(1) show ?thesis by (auto simp: chdir_finish_def quiet_store_checked split: if_splits)
qed

lemma quiet_chdir:
  assumes "Syscall_chdir F i k = Some k'" "i < 3"
  shows "quiet G k k'"
proof -
  from assms(1) obtain a b k1 k2 where
    p: "pop i k = Some (a, k1)" "pop i k1 = Some (b, k2)"
    by (auto simp: Syscall_chdir_def bind_eq_Some_conv)
  have q: "quiet G k k2" using p assms(2) by (blast intro: quiet_trans quiet_pop)
  show ?thesis
  proof (cases "a = 0")
    case True
    with assms(1) p q show ?thesis by (simp add: Syscall_chdir_def)
  next
    case False
    with assms(1) p obtain path where
      "chdir_finish i path b (fst (chdir_exists F path k2)) (snd (chdir_exists F path k2)) = Some k'"
      by (auto simp: Syscall_chdir_def bind_eq_Some_conv Let_def case_prod_unfold)
    from quiet_chdir_finish [OF this assms(2)]
      quiet_chdir_exists [of F path k2 "fst (chdir_exists F path k2)" "snd (chdir_exists F path k2)"]
    show ?thesis using q by simp (metis quiet_trans)
  qed
qed

lemma quiet_getcwd:
  assumes "Syscall_getcwd i k = Some k'" "i < 3"
  shows "quiet G k k'"
proof -
  from assms(1) obtain a k1 where p: "pop i k = Some (a, k1)"
    by (auto simp: Syscall_getcwd_def bind_eq_Some_conv)
  have "quiet G k1 k'"
    using assms(1) p by (auto simp: Syscall_getcwd_def bind_eq_Some_conv quiet_store_text split: if_splits)
  then show ?thesis by (rule quiet_trans [OF quiet_pop [OF p assms(2)]])
qed

lemma lawful_systemCall:
  assumes "Kernel_systemCall F i sys_id k = Some k'" "fs_ok F" "i < 3" "states k ! i = - 1"
  shows "lawful F k k'"
  using assms(1) lawful_ls [OF _ assms(2-4)] lawful_exec [OF _ assms(2-4)]
    quiet_lawful [OF quiet_chdir [OF _ assms(3)]] quiet_lawful [OF quiet_getcwd [OF _ assms(3)]]
  by (auto simp: Kernel_systemCall_def split: if_splits)

section \<open>Properties of \<open>chdir\<close>\<close>

definition add_slash :: "byte list \<Rightarrow> byte list" where
  "add_slash s = (if 1 < length s \<and> \<not> ends_with 47 s then s @ [47] else s)"

lemma new_cwd_text:
  assumes "0 \<notin> set path"
  shows "if 31 \<le> length path \<and> path ! 30 \<noteq> 47 then new_cwd path = None
    else \<exists>c. new_cwd path = Some c \<and> cstr c = Some (add_slash (take 31 path))"
proof -
  obtain b where b: "strncpy (replicate 32 0) path 31 = Some b" "cstr b = Some (take 31 path)" "length b = 32"
    using strncpy_zeroed [of 31 "replicate 32 0" path] assms by auto
  let ?s = "take 31 path"
  have ew: "ends_with 47 ?s \<longleftrightarrow> path ! 30 = 47" if "31 \<le> length path"
  proof -
    have "?s \<noteq> []" using that by auto
    then show ?thesis using that last_conv_nth [of ?s] by (simp add: ends_with_def)
  qed
  show ?thesis
  proof (cases "1 < length ?s \<and> \<not> ends_with 47 ?s")
    case False
    then have "new_cwd path = Some b" using b by (auto simp: new_cwd_def)
    moreover have "\<not> (31 \<le> length path \<and> path ! 30 \<noteq> 47)" using False ew by auto
    ultimately show ?thesis using b(2) False by (auto simp: add_slash_def)
  next
    case True
    then have e: "new_cwd path = strcat b (lit ''/'')" using b by (simp add: new_cwd_def)
    show ?thesis
    proof (cases "31 \<le> length path")
      case l: True
      with True ew have "path ! 30 \<noteq> 47" by simp
      moreover have "strcat b (lit ''/'') = None" using b l by (simp add: strcat_def lit_slash)
      ultimately show ?thesis using e l by simp
    next
      case False
      obtain c where "strcat b (lit ''/'') = Some c" "cstr c = Some (?s @ lit ''/'')"
        using strcat_text [OF b(2), of "lit ''/''"] b(3) False by (auto simp: lit_slash)
      then show ?thesis using e False True by (auto simp: add_slash_def lit_slash)
    qed
  qed
qed

theorem new_cwd_bound:
  assumes "0 \<notin> set path"
  shows "(new_cwd path = None) = (31 \<le> length path \<and> path ! 30 \<noteq> 47)"
  using new_cwd_text [OF assms] by (auto split: if_splits)

theorem new_cwd_bound_witness:
  "new_cwd (47 # replicate 30 97) = None \<and> new_cwd (47 # replicate 29 97) \<noteq> None"
  using new_cwd_bound [of "47 # replicate 30 97"] new_cwd_bound [of "47 # replicate 29 97"] by simp

lemma resolve_relative:
  assumes "cstr (cwd t) = Some c" "ends_with 47 c" "\<not> starts_with 47 n" "0 \<notin> set n"
    "length c + length n < length out"
  obtains tp where "resolve_path t n out = Some tp" "cstr tp = Some (c @ n)" "length tp = length out"
proof -
  have c0: "0 \<notin> set c" using cstr_SomeD [OF assms(1)] by simp
  obtain b where b: "strcpy out c = Some b" "cstr b = Some c" "length b = length out"
    using strcpy_text [OF c0, of out] assms(5) by auto
  obtain tp where "strcat b n = Some tp" "cstr tp = Some (c @ n)" "length tp = length b"
    using strcat_text [OF b(2) assms(4)] b(3) assms(5) by auto
  then show thesis using that b assms(1,2,3) by (simp add: resolve_path_def)
qed

lemma take_prefix: "take (length (xs @ ys)) b = xs @ ys \<Longrightarrow> take (length xs) b = xs"
proof -
  assume "take (length (xs @ ys)) b = xs @ ys"
  then have "take (length xs) (take (length (xs @ ys)) b) = take (length xs) (xs @ ys)" by simp
  then show ?thesis by simp
qed

text \<open>Cutting a string at an index keeps the prefix.\<close>

lemma cstr_cut:
  assumes "cstr b = Some (xs @ ys)"
  shows "cstr (b[length xs := 0]) = Some xs"
proof (rule cstrI)
  note d = cstr_SomeD [OF assms]
  show "0 \<notin> set xs" using d(1) by simp
  show "take (length xs) (b[length xs := 0]) = xs" using take_prefix [OF d(3)] by simp
  show "length xs < length (b[length xs := 0])" using d(2) by simp
  then show "b[length xs := 0] ! length xs = 0" by simp
qed

lemma strrchr_last: "c \<notin> set ys \<Longrightarrow> strrchr (xs @ c # ys) c = Some (length xs)"
proof (induction xs)
  case Nil
  then show ?case using strrchr_None [of ys c] by simp
qed simp

text \<open>The parent of \<open>c @ n @ "/"\<close> for a directory \<open>c\<close> that ends in a slash.\<close>

lemma parent_path_child:
  assumes "ends_with 47 c" "0 \<notin> set c" "0 \<notin> set n" "47 \<notin> set n" "n \<noteq> []"
    "length out = 64" "length c + length n + 1 < 64"
  obtains tp where "parent_path (c @ n @ [47]) out = Some tp"
    "cstr tp = Some (if c = [47] then c else butlast c)"
proof -
  obtain d where d: "c = d @ [47]" using assms(1) by (metis append_butlast_last_id ends_with_def)
  let ?s = "c @ n @ [47]"
  obtain b where b: "strcpy out ?s = Some b" "cstr b = Some ?s" "length b = 64"
    using strcpy_text [of ?s out] assms by auto
  let ?b = "b[length c + length n := 0]"
  have cb: "cstr ?b = Some (c @ n)" using cstr_cut [of b "c @ n" "[47]"] b(2) by simp
  have r: "strrchr (c @ n) 47 = Some (length d)" using strrchr_last [of 47 n d] assms(4) d by simp
  have e: "parent_path ?s out = (if length d = 0 then strcpy ?b (lit ''/'') else aset ?b (int (length d)) 0)"
  proof -
    have "aset b (int (length ?s) - 1) 0 = Some ?b" using assms(7) b(3) by (simp add: aset_def nat_add_distrib)
    moreover have "1 < length ?s \<and> ends_with 47 ?s" using assms(5) by (cases n) (auto simp: ends_with_def)
    ultimately show ?thesis unfolding parent_path_def using b(1) cb r by simp
  qed
  show thesis
  proof (cases "d = []")
    case True
    obtain tp where "strcpy ?b (lit ''/'') = Some tp" "cstr tp = Some (lit ''/'')"
      using strcpy_text [of "lit ''/''" ?b] b(3) by (auto simp: lit_slash)
    then show thesis using that e True d by (simp add: lit_slash)
  next
    case False
    let ?t = "?b[length d := 0]"
    have "cstr ?t = Some d" using cstr_cut [of ?b d "[47] @ n"] cb d by simp
    then show thesis using that [of ?t] e False d b(3) assms(7) by simp
  qed
qed

theorem chdir_dotdot_roundtrip:
  assumes "cstr (cwd t) = Some c" "c = [47] \<or> 2 < length c \<and> ends_with 47 c \<and> \<not> ends_with 47 (butlast c)"
    and "n \<noteq> []" "0 \<notin> set n" "47 \<notin> set n" "n \<noteq> lit ''.''" "n \<noteq> lit ''..''" "length c + length n \<le> 30"
  shows "\<exists>tp w tp' p w'. chdir_target n t = Some tp \<and> cstr tp = Some (c @ n) \<and>
    new_cwd (c @ n) = Some w \<and> cstr w = Some (c @ n @ [47]) \<and>
    chdir_target (lit ''..'') (t\<lparr>cwd := w\<rparr>) = Some tp' \<and> cstr tp' = Some p \<and>
    new_cwd p = Some w' \<and> cstr w' = Some c"
proof -
  have c: "ends_with 47 c" "0 \<notin> set c" using assms(2) cstr_SomeD [OF assms(1)] by (auto simp: ends_with_def)
  have ns: "\<not> starts_with 47 n" using assms(3,5) by (cases n) (auto simp: starts_with_def)
  obtain tp where tp: "resolve_path t n (replicate 64 0) = Some tp" "cstr tp = Some (c @ n)"
    by (rule resolve_relative [OF assms(1) c(1) ns assms(4)]) (use assms(8) in auto)
  have "\<not> ends_with 47 (c @ n)" using assms(3,5) by (simp add: ends_with_def) (metis last_in_set)
  then have a: "add_slash (take 31 (c @ n)) = c @ n @ [47]"
    using assms(8) c(1) assms(3) by (cases c; cases n) (auto simp: add_slash_def ends_with_def)
  obtain w where w: "new_cwd (c @ n) = Some w" "cstr w = Some (c @ n @ [47])"
    using new_cwd_text [of "c @ n"] assms(4,8) c(2) a by auto
  obtain tp' where tp': "parent_path (c @ n @ [47]) (replicate 64 0) = Some tp'"
    "cstr tp' = Some (if c = [47] then c else butlast c)"
    by (rule parent_path_child [OF c assms(4,5,3)]) (use assms(8) in auto)
  let ?p = "if c = [47] then c else butlast c"
  have lp: "length ?p \<le> 30" using assms(8) by auto
  have "add_slash (take 31 ?p) = c"
  proof (cases "c = [47]")
    case True
    then show ?thesis by (simp add: add_slash_def)
  next
    case False
    then have "1 < length (butlast c)" "\<not> ends_with 47 (butlast c)" using assms(2) by auto
    moreover have "butlast c @ [47] = c" using c(1) by (metis append_butlast_last_id ends_with_def)
    ultimately show ?thesis using False lp by (simp add: add_slash_def)
  qed
  moreover have "0 \<notin> set ?p" using c(2) by (auto dest: in_set_butlastD)
  ultimately obtain w' where "new_cwd ?p = Some w'" "cstr w' = Some c"
    using new_cwd_text [of ?p] lp by auto
  moreover have "n \<noteq> lit ''..''" by (rule assms(7))
  ultimately show ?thesis
    using tp tp' w assms(1,6,7) by (auto simp: chdir_target_def)
qed

theorem chdir_dotdot_roundtrip_witness:
  "\<exists>tp w tp' p w'. chdir_target (lit ''bin'') (demo_task 1 (- 1) [] mf_closed) = Some tp \<and>
    cstr tp = Some (lit ''/bin'') \<and> new_cwd (lit ''/bin'') = Some w \<and> cstr w = Some (lit ''/bin/'') \<and>
    chdir_target (lit ''..'') ((demo_task 1 (- 1) [] mf_closed)\<lparr>cwd := w\<rparr>) = Some tp' \<and> cstr tp' = Some p \<and>
    new_cwd p = Some w' \<and> cstr w' = Some (lit ''/'')"
proof -
  have c: "cstr (cwd (demo_task 1 (- 1) [] mf_closed)) = Some [47]"
    by (simp add: demo_task_def cstr_def)
  show ?thesis
    using chdir_dotdot_roundtrip [OF c, of "lit ''bin''"] by (simp add: lit_def of_char_def)
qed

section \<open>What the calls write to the heap\<close>

lemma store_checked_in:
  assumes "0 \<le> a" "a < 1024" "length (global_heap k) = 1024"
  shows "store_checked a v k = Some (k\<lparr>global_heap := (global_heap k)[nat a := v]\<rparr>)"
  using assms by (simp add: store_checked_def heap_store_def int16_id)

lemma put_at_Cons:
  "off < length buf \<Longrightarrow> put_at (Suc off) xs (buf[off := x]) = put_at off (x # xs) buf"
  by (simp add: put_at_def take_Suc_conv_app_nth drop_update_cancel)

lemma store_range_in:
  assumes "0 \<le> a" "a + int (length vs) \<le> 1024" "length (global_heap k) = 1024"
  shows "store_range a vs k = Some (k\<lparr>global_heap := put_at (nat a) vs (global_heap k)\<rparr>)"
  using assms
proof (induction vs arbitrary: a k)
  case (Cons v vs)
  let ?k = "k\<lparr>global_heap := (global_heap k)[nat a := v]\<rparr>"
  have "store_range (a + 1) vs ?k = Some (?k\<lparr>global_heap := put_at (nat (a + 1)) vs (global_heap ?k)\<rparr>)"
    using Cons.prems by (intro Cons.IH) simp_all
  moreover have "nat (a + 1) = Suc (nat a)" using Cons.prems by simp
  moreover have "nat a < length (global_heap k)" using Cons.prems by simp
  ultimately show ?case using Cons.prems by (simp add: store_checked_in put_at_Cons)
qed simp

lemma store_text_in:
  assumes "0 \<le> a" "a + int (length s) < 1024" "length (global_heap k) = 1024"
  shows "store_text a s k = Some (k\<lparr>global_heap := put_at (nat a) (map scast s @ [0]) (global_heap k)\<rparr>)"
proof -
  let ?h = "put_at (nat a) (map scast s) (global_heap k)"
  have l: "length ?h = 1024" using assms by simp
  have "?h[nat (a + int (length s)) := 0] = put_at (nat a) (map scast s @ [0]) (global_heap k)"
    using assms by (simp add: put_at_def nat_add_distrib list_update_append Cons_nth_drop_Suc [symmetric])
  then show ?thesis
    using assms store_range_in [of a "map scast s" k] l
    by (simp add: store_text_def store_checked_in)
qed

text \<open>A listing of the directory \<open>d\<close> on the volume \<open>v\<close>: the names and whether they are directories.\<close>

inductive dir_lists ::
    "('fs, 'f) fsops \<Rightarrow> 'fs \<Rightarrow> 'f \<Rightarrow> (bool \<times> byte list) list \<Rightarrow> 'f \<Rightarrow> 'fs \<Rightarrow> bool"
  for F :: "('fs, 'f) fsops" where
  list_end: "fs_openNextFile F v d = (e, d', v') \<Longrightarrow> \<not> fs_isOpen F e \<Longrightarrow> dir_lists F v d [] d' v'"
| list_entry: "fs_openNextFile F v d = (e, d1, v1) \<Longrightarrow> fs_isOpen F e \<Longrightarrow>
    fs_getName F v1 e 32 = (name, v2) \<Longrightarrow> fs_close F v2 e = (e', v3) \<Longrightarrow>
    dir_lists F v3 d1 es d' v' \<Longrightarrow> dir_lists F v d ((fs_isDirectory F e, name) # es) d' v'"

definition listing :: "(bool \<times> byte list) list \<Rightarrow> byte list" where
  "listing es = concat (map (\<lambda>(is_dir, name). entry_name is_dir name @ [10]) es)"

text \<open>The buffer after writing text \<open>s\<close> at \<open>w\<close>: what fits below \<open>n - 1\<close> is written.\<close>

lemma ls_puts_in:
  assumes "0 \<le> a" "0 < n" "a + n \<le> 1024" "0 \<le> w" "w \<le> n - 1" "length (global_heap k) = 1024"
  shows "ls_puts a n cs (w, k) =
    Some (w + int (length (take (nat (n - 1 - w)) cs)),
      k\<lparr>global_heap := put_at (nat (a + w)) (take (nat (n - 1 - w)) cs) (global_heap k)\<rparr>)"
  using assms
proof (induction cs arbitrary: w k)
  case (Cons c cs)
  show ?case
  proof (cases "w < n - 1")
    case False
    then have w: "w = n - 1" using Cons.prems by simp
    then have "ls_put a n c (w, k) = Some (w, k)" using Cons.prems by (simp add: ls_put_def int16_id)
    then show ?thesis using Cons.IH [of w k] Cons.prems w by simp
  next
    case True
    let ?k = "k\<lparr>global_heap := (global_heap k)[nat (a + w) := c]\<rparr>"
    have p: "ls_put a n c (w, k) = Some (w + 1, ?k)"
      using True Cons.prems by (simp add: ls_put_def int16_id heap_store_def)
    have n: "nat (n - 1 - w) = Suc (nat (n - 1 - (w + 1)))" using True by simp
    have "nat (a + (w + 1)) = Suc (nat (a + w))" using Cons.prems by simp
    moreover have "nat (a + w) < length (global_heap k)" using Cons.prems True by simp
    ultimately show ?thesis
      using p Cons.IH [of "w + 1" ?k] Cons.prems True by (simp add: n put_at_Cons)
  qed
qed simp

lemma put_at_append:
  assumes "off + length xs + length ys \<le> length buf"
  shows "put_at (off + length xs) ys (put_at off xs buf) = put_at off (xs @ ys) buf"
  using assms by (intro put_at_put_at) simp_all

lemma take_append_nat:
  "take n xs @ take (n - length (take n xs)) ys = take n (xs @ ys)"
  by simp (metis diff_diff_cancel diff_is_0_eq' linear min.absorb1 min.absorb2 take_all take_eq_Nil2)

lemma ls_entries_in:
  assumes "dir_lists F v d es d' v'" "0 \<le> a" "0 < n" "a + n \<le> 1024" "0 \<le> w" "w \<le> n - 1"
    "length (global_heap k) = 1024" "sd k = v"
  shows "\<exists>t. t = take (nat (n - 1 - w)) (map scast (listing es)) \<and>
    ls_entries F a n d (w, k) = Some (d', w + int (length t),
      k\<lparr>global_heap := put_at (nat (a + w)) t (global_heap k), sd := v'\<rparr>)"
  using assms(1,5-8)
proof (induction arbitrary: w k rule: dir_lists.induct)
  case (list_end v d e d' v')
  then show ?case by (simp add: ls_entries.simps [of F a n d] listing_def)
next
  case (list_entry v d e d1 v1 name v2 e' v3 es d' v')
  define cs where "cs = (map scast (entry_name (fs_isDirectory F e) name) @ [10] :: vint list)"
  let ?m = "nat (n - 1 - w)"
  let ?t1 = "take ?m cs"
  let ?w = "w + int (length ?t1)"
  let ?k = "k\<lparr>sd := v2, global_heap := put_at (nat (a + w)) ?t1 (global_heap k), sd := v3\<rparr>"
  have l1: "int (length ?t1) \<le> n - 1 - w" using list_entry.prems by simp
  have lh: "length (put_at (nat (a + w)) ?t1 (global_heap k)) = 1024"
  proof -
    have "nat (a + w) + length ?t1 \<le> length (global_heap k)"
      using list_entry.prems l1 assms(2,4) by linarith
    then show ?thesis using list_entry.prems(3) by simp
  qed
  obtain t where t: "t = take (nat (n - 1 - ?w)) (map scast (listing es))"
    "ls_entries F a n d1 (?w, ?k) = Some (d', ?w + int (length t),
      ?k\<lparr>global_heap := put_at (nat (a + ?w)) t (global_heap ?k), sd := v'\<rparr>)"
    using list_entry.IH [of ?w ?k] list_entry.prems l1 lh by auto
  have m: "nat (n - 1 - ?w) = ?m - length ?t1" using l1 by simp
  have t12: "?t1 @ t = take ?m (map scast (listing ((fs_isDirectory F e, name) # es)))"
    unfolding t(1) m take_append_nat by (simp add: listing_def cs_def)
  have "put_at (nat (a + ?w)) t (global_heap ?k) = put_at (nat (a + w)) (?t1 @ t) (global_heap k)"
  proof -
    have "nat (a + ?w) = nat (a + w) + length ?t1" using assms(2) list_entry.prems by simp
    moreover have "int (length t) \<le> n - 1 - ?w" unfolding t(1) using l1 by simp
    then have "nat (a + w) + length ?t1 + length t \<le> length (global_heap k)"
      using list_entry.prems assms(2,4) by linarith
    moreover have "global_heap ?k = put_at (nat (a + w)) ?t1 (global_heap k)" by simp
    ultimately show ?thesis by (simp only: put_at_append)
  qed
  then have "ls_entries F a n d1 (?w, ?k) = Some (d', w + int (length (?t1 @ t)),
      k\<lparr>global_heap := put_at (nat (a + w)) (?t1 @ t) (global_heap k), sd := v'\<rparr>)"
    unfolding t(2) by simp
  moreover have "ls_entries F a n d (w, k) = ls_entries F a n d1 (?w, ?k)"
  proof -
    have p: "ls_puts a n cs (w, k\<lparr>sd := v2\<rparr>) =
        Some (?w, k\<lparr>sd := v2, global_heap := put_at (nat (a + w)) ?t1 (global_heap k)\<rparr>)"
      using list_entry.prems ls_puts_in [OF assms(2-4), of w "k\<lparr>sd := v2\<rparr>" cs] by simp
    have q: "ls_entries F a n d (w, k) = Option.bind (ls_puts a n cs (w, k\<lparr>sd := v2\<rparr>))
        (\<lambda>s. case fs_close F (sd (snd s)) e of (entry, v) \<Rightarrow> ls_entries F a n d1 (fst s, (snd s)\<lparr>sd := v\<rparr>))"
      using list_entry.hyps list_entry.prems by (simp add: ls_entries.simps [of F a n d] cs_def)
    show ?thesis unfolding q p using list_entry.hyps(4) by (simp del: length_take)
  qed
  ultimately show ?case using t12 by auto
qed

lemma replicate_tail:
  assumes "length t < n"
  shows "put_at 0 t (replicate n x) = t @ replicate (n - length t) x"
  using assms by (simp add: put_at_def)

lemma put_at_over:
  assumes "length ys \<le> length xs" "off + length xs \<le> length buf"
  shows "put_at off ys (put_at off xs buf) = put_at off (ys @ drop (length ys) xs) buf"
proof -
  have "off \<le> length buf" using assms(2) by simp
  with assms show ?thesis by (simp add: put_at_def min_absorb2 drop_drop add.commute)
qed

text \<open>C30: \<open>ls\<close> writes to the caller's buffer exactly the names of the directory,
  directories with a slash, each with a newline, cut at the buffer size less one, followed by zeros
  to the end of the buffer, and no other cell of the heap changes.\<close>

theorem ls_writes_listing:
  assumes "dir_lists F (sd k) d es d' v'" "0 \<le> a" "0 < n" "a + n \<le> 1024" "length (global_heap k) = 1024"
  shows "\<exists>t f v. t = take (nat (n - 1)) (map scast (listing es)) \<and> fs_close F v' d' = (f, v) \<and>
    ls_list F a n d k = Some (k\<lparr>global_heap :=
      put_at (nat a) (t @ replicate (nat n - length t) 0) (global_heap k), sd := v\<rparr>)"
proof -
  let ?z = "replicate (nat n) (0 :: vint)"
  let ?h = "put_at (nat a) ?z (global_heap k)"
  let ?k = "k\<lparr>global_heap := ?h\<rparr>"
  have s: "store_range a ?z k = Some ?k" using assms by (intro store_range_in) auto
  have lh: "length (global_heap ?k) = 1024" using assms by simp
  obtain t where t: "t = take (nat (n - 1)) (map scast (listing es))"
    "ls_entries F a n d (0, ?k) = Some (d', int (length t), ?k\<lparr>global_heap := put_at (nat a) t ?h, sd := v'\<rparr>)"
    using ls_entries_in [OF assms(1-4), of 0 ?k] assms(3) lh by auto
  have l: "length t < nat n" using t(1) assms(3) by simp
  have d: "drop (length t) ?z = 0 # replicate (nat n - length t - 1) 0"
    using l by (simp add: drop_replicate) (metis Suc_diff_Suc replicate_Suc)
  have h: "put_at (nat a) t ?h = put_at (nat a) (t @ replicate (nat n - length t) 0) (global_heap k)"
    using l assms by (subst put_at_over) (auto simp: drop_replicate)
  obtain f v where c: "fs_close F v' d' = (f, v)" by fastforce
  have "(put_at (nat a) (t @ replicate (nat n - length t) 0) (global_heap k))[nat (a + int (length t)) := 0] =
      put_at (nat a) (t @ replicate (nat n - length t) 0) (global_heap k)"
  proof (rule list_update_same_conv [THEN iffD2])
    show "nat (a + int (length t)) < length (put_at (nat a) (t @ replicate (nat n - length t) 0) (global_heap k))"
      using l assms by (subst length_put_at) auto
    have "nat (a + int (length t)) = nat a + length t" using assms(2) by simp
    then show "put_at (nat a) (t @ replicate (nat n - length t) 0) (global_heap k) ! nat (a + int (length t)) = 0"
      using l assms by (simp add: nth_put_at nth_append)
  qed
  moreover have "length (put_at (nat a) (t @ replicate (nat n - length t) 0) (global_heap k)) = 1024"
    using l assms by (subst length_put_at) auto
  ultimately have "ls_list F a n d k = Some (k\<lparr>global_heap :=
      put_at (nat a) (t @ replicate (nat n - length t) 0) (global_heap k), sd := v\<rparr>)"
    using l assms s t(2) c h by (simp add: ls_list_def store_checked_in)
  with t(1) c show ?thesis by blast
qed

theorem getcwd_copies_cwd:
  assumes "wf_kernel k" "pop i k = Some (b, k1)" "b \<noteq> 0" "cstr (cwd (tasks k ! i)) = Some c"
    and "0 \<le> Kernel_getPhysAddr (tasks k ! i) (sint b)"
      "Kernel_getPhysAddr (tasks k ! i) (sint b) + int (length c) < 1024"
  shows "Syscall_getcwd i k = Some (k1\<lparr>global_heap :=
    put_at (nat (Kernel_getPhysAddr (tasks k ! i) (sint b))) (map scast c @ [0]) (global_heap k)\<rparr>)"
proof -
  have k1: "k1 = upd_task i (\<lambda>t. t\<lparr>sp := sp t - 1\<rparr>) k"
    using assms(2) by (auto simp: pop_def bind_eq_Some_conv)
  have t: "cwd (tasks k1 ! i) = cwd (tasks k ! i)"
    "Kernel_getPhysAddr (tasks k1 ! i) (sint b) = Kernel_getPhysAddr (tasks k ! i) (sint b)"
    unfolding k1 by (cases "i < length (tasks k)"; simp add: Kernel_getPhysAddr_def list_update_beyond)+
  have h: "global_heap k1 = global_heap k" "length (global_heap k) = 1024"
    using assms(1) by (simp_all add: k1 wf_kernel_def)
  show ?thesis
    using assms(2-6) t h by (simp add: Syscall_getcwd_def store_text_in del: upd_task_frame)
qed

theorem syscall_needs_stack:
  assumes "sp (tasks k ! i) = - 1" "n = 1 \<or> n = 2 \<or> n = 3 \<or> n = 4"
  shows "Kernel_systemCall F i n k = None"
proof -
  have "pop i k = None" using assms(1) by (simp add: pop_def aget_def)
  then show ?thesis
    using assms(2) by (auto simp: Kernel_systemCall_def Syscall_ls_def Syscall_exec_def Syscall_chdir_def Syscall_getcwd_def)
qed

theorem ls_invalid_dir_kills_caller:
  assumes "fs_ok F" "wf_kernel k" "i < 3" "Syscall_ls F i k = Some k'"
    and "pop i k = Some (sel, k1)" "pop i k1 = Some (n, k2)" "pop i k2 = Some (a, k3)"
    and "ls_target sel (tasks k3 ! i) = Some tp" "cstr tp = Some path"
    and "\<forall>v. \<not> fs_isOpen F (fst (fs_open F v path))"
  shows "\<not> fs_isOpen F (t_file (tasks k' ! i)) \<and>
    (fs_isOpen F (t_file (tasks k ! i)) \<longrightarrow> Kernel_refillBuffer F i k' = Kernel_terminateTask F i k')"
proof -
  let ?t = "tasks k3 ! i"
  define k4 where "k4 = (if fs_isOpen F (t_file ?t) then close_file F i k3 else k3)"
  obtain dir v where o: "fs_open F (sd k4) path = (dir, v)" by fastforce
  then have d: "\<not> fs_isOpen F dir" using assms(10) by (metis fst_conv)
  have e: "store_checked (Kernel_getPhysAddr ?t (sint a)) (- 1) (k4\<lparr>sd := v\<rparr>) = Some k'"
    using assms(4-9) o d unfolding k4_def by (simp add: Syscall_ls_def Let_def split del: if_split)
  then have tk: "tasks k' = tasks k4"
    by (auto simp: store_checked_def heap_store_def bind_eq_Some_conv split: if_splits)
  have "length (tasks k3) = 3"
    using assms(2,5-7) by (auto simp: pop_def bind_eq_Some_conv wf_kernel_def)
  then have c: "t_file (tasks (close_file F i k3) ! i) = fst (fs_close F (sd k3) (t_file ?t))"
    using assms(3) by (simp add: close_file_def split: prod.split)
  have cl: "\<not> fs_isOpen F (fst (fs_close F (sd k3) (t_file ?t)))"
    "fs_available F (fst (fs_close F (sd k3) (t_file ?t))) = 0"
    using fs_ok_closeD [OF assms(1), of "sd k3" "t_file ?t"] by (metis prod.collapse)+
  have tf: "t_file ?t = t_file (tasks k ! i)" using assms(5-7) by (simp add: quiet_t_file_pop)
  show ?thesis
    using c cl tk tf by (auto simp: k4_def Kernel_refillBuffer_def)
qed

theorem ls_reopen_failure_leaks:
  assumes "wf_kernel k" "i < 3" "cstr (filename (tasks k ! i)) = Some path"
    and "\<not> fs_isOpen F (fst (fs_open F (sd k) path))"
  shows "\<exists>k'. ls_reopen F i pos k = Some k' \<and> states k' = (states k)[i := - 2] \<and>
    block k' = block k \<and> used_set (heap_bitmap k') = used_set (heap_bitmap k)"
proof -
  obtain f v where o: "fs_open F (sd k) path = (f, v)" by fastforce
  let ?k = "upd_task i (\<lambda>t. setFree (t\<lparr>t_file := f\<rparr>)) (k\<lparr>sd := v\<rparr>)"
  have "ls_reopen F i pos k = Some ?k" using assms(3,4) o by (simp add: ls_reopen_def)
  moreover have "same_heap k ?k"
    by (rule same_heap_trans [OF _ same_heap_upd_task]) (auto simp: same_heap_def setFree_def)
  moreover have "states ?k = (states k)[i := - 2]" by (simp add: states_upd_task setFree_def)
  ultimately show ?thesis by (intro exI [of _ ?k]) (simp add: same_heap_block)
qed

lemma exec_waits:
  assumes "Syscall_exec F i k = Some k'" "wf_kernel k" "heap_sound k" "fs_ok F" "i < 3" "states k ! i = - 1"
    "states k' ! i = int c"
  obtains k3 k4 where "quiet F k k3" "c = 1 \<or> c = 2" "c \<noteq> i" "states k ! c = - 2" "loaded F c True k3 k4"
    "k' = upd_task i (waitForChild (int c)) k4"
proof -
  obtain w a b k1 k2 k3 where
    p: "pop i k = Some (w, k1)" "pop i k1 = Some (a, k2)" "pop i k2 = Some (b, k3)"
    using assms(1) by (auto simp: Syscall_exec_def bind_eq_Some_conv)
  have q: "quiet F k k3" using p assms(5) by (blast intro: quiet_trans quiet_pop)
  then have w3: "wf_kernel k3" "heap_sound k3" "states k3 = states k"
    using assms(2,3) by (auto simp: quiet_def same_heap_sound)
  have L3: "length (tasks k3) = 3" using w3 by (simp add: wf_kernel_def)
  show thesis
  proof (cases "free_slot k3")
    case None
    then have "states k' = states k3"
      using assms(1) p by (auto simp: Syscall_exec_def bind_eq_Some_conv Let_def states_def split: if_splits)
    then show thesis using assms(6,7) w3(3) by simp
  next
    case (Some d)
    then obtain cmd arg pc ok k4 where ld: "Kernel_loadTask F d cmd None (Some pc) arg k3 = Some (ok, k4)"
      and k': "k' = (if ok \<and> w = 1 then upd_task i (waitForChild (int d)) k4 else k4)"
      using assms(1) p by (auto simp: Syscall_exec_def bind_eq_Some_conv Let_def split: if_splits)
    note fs = free_slot_Some [OF Some L3]
    have di: "d \<noteq> i" "d < 3" "d \<noteq> 0" using fs assms(6) w3(3) by auto
    have l: "loaded F d ok k3 k4" by (rule Kernel_loadTask_loaded [OF ld w3(1,2) di(2,3) assms(4)])
    have s4: "states k4 ! i = - 1"
      using l di(1) assms(6) w3(3) by (auto simp: loaded_def split: if_splits)
    have "length (tasks k4) = 3" using Kernel_loadTask_wf [OF ld w3(1) di(2) assms(4)] by (simp add: wf_kernel_def)
    moreover have "task_state (waitForChild (int d) t) = int d" for t :: "'b task"
      using di(2) by (simp add: waitForChild_def signed_take_bit_int_eq_self)
    ultimately have "states (upd_task i (waitForChild (int d)) k4) ! i = int d"
      using assms(5) by (simp add: states_upd_task states_def)
    then have "ok" "w = 1" "c = d" using k' s4 assms(7) by (auto split: if_splits)
    then show thesis using that [OF q _ _ _ _ , of k4] fs di l k' w3(3) by simp
  qed
qed

text \<open>Nobody waits for a free task.\<close>

lemma wait_ok_exit:
  assumes "wait_ok ss" "ss ! i = - 1" "i < 3" "c = 1 \<or> c = 2" "c \<noteq> i" "ss ! c = - 2"
  shows "exit_states c (ss[c := - 1, i := int c]) = ss"
proof -
  obtain x y z where ss: "ss = [x, y, z]" using assms(1) by (metis list3 wait_ok_def)
  have i: "i = 0 \<or> i = 1 \<or> i = 2" using assms(3) by auto
  show ?thesis
    using assms(2,4-6) assms(1) [unfolded ss wait_ok_triple] i
    by (elim disjE) (auto simp: ss exit_states_def numeral_2_eq_2)
qed


text \<open>The demonstration: the daemon starts program \<open>p\<close>, named at heap address 5, and waits for it.\<close>

definition demo_exec :: "(unit, mem_file) kernel" where
  "demo_exec = upd_task 0 (\<lambda>t. t\<lparr>sp := 2, stack := [6, 5, 1] @ replicate 61 0\<rparr>)
     ((demo_kernel (- 2) (- 2) (replicate 32 0))\<lparr>global_heap := replicate 5 0 @ [112] @ replicate 1018 0\<rparr>)"

abbreviation (input) demo_fs :: "(unit, mem_file) fsops" where
  "demo_fs \<equiv> memfs [(lit ''p'', [0xAD, 0x01, 16, 0, 0x10, 7, 0])]"

lemma demo_exec_quiet: "quiet demo_fs (demo_kernel (- 2) (- 2) (replicate 32 0)) demo_exec"
  unfolding demo_exec_def
  by (rule quiet_trans [OF quiet_heap quiet_upd_task]) (auto simp: wf_task_def)

lemma demo_exec_strings:
  "heap_string [32] 5 demo_exec = Some (lit ''p'')" "heap_string [] 6 demo_exec = Some []"
proof -
  let ?h = "global_heap demo_exec"
  have "?h ! 5 = 112" "?h ! 6 = 0" "length ?h = 1024" by (simp_all add: demo_exec_def nth_append)
  then have "heap_chars [32] (Suc (Suc n)) 5 ?h = Some [112]" "heap_chars [] (Suc n) 6 ?h = Some []" for n
    by (simp_all add: int16_id)
  from this(1) [of 29] this(2) [of 30]
  show "heap_string [32] 5 demo_exec = Some (lit ''p'')" "heap_string [] 6 demo_exec = Some []"
    by (simp_all add: heap_string_def cstr_def put_at_def lit_def of_char_def)
qed

lemma demo_exec_runs: "\<exists>k'. Syscall_exec demo_fs 0 demo_exec = Some k' \<and> states k' ! 0 = int 1"
proof -
  let ?k = "demo_exec\<lparr>tasks := (tasks demo_exec)[0 := (tasks demo_exec ! 0)\<lparr>sp := - 1\<rparr>]\<rparr>"
  let ?f = "mem_open [(lit ''p'', [0xAD, 0x01, 16, 0, 0x10, 7, 0])] (lit ''p'')"
  have f: "?f = \<lparr>mf_open = True, mf_dir = False, mf_data = [0xAD, 0x01, 16, 0, 0x10, 7, 0], mf_pos = 0, mf_name = lit ''p''\<rparr>"
    by (simp add: mem_open_def lit_def of_char_def)
  have pops: "\<exists>k1 k2. pop 0 demo_exec = Some (1, k1) \<and> pop 0 k1 = Some (5, k2) \<and> pop 0 k2 = Some (6, ?k)"
    by (simp add: pop_def demo_exec_def demo_kernel_def demo_task_def upd_task_def)
  have q: "quiet demo_fs demo_exec ?k"
    using quiet_upd_task [where i = 0 and f = "\<lambda>t. t\<lparr>sp := - 1\<rparr>" and k = demo_exec and F = demo_fs] by (simp add: upd_task_def wf_task_def)
  have w: "wf_kernel ?k"
    using q demo_exec_quiet demo_wf [of "replicate 32 0" "- 2" "- 2"] by (simp add: quiet_def)
  have fr: "free_slot ?k = Some 1"
    by (simp add: free_slot_def upt_rec demo_exec_def demo_kernel_def demo_task_def upd_task_def)
  have cw: "cstr (cwd (tasks ?k ! 0)) = Some (lit ''/'')"
    by (simp add: demo_exec_def demo_kernel_def demo_task_def cstr_def lit_slash)
  have hs: "heap_string s a ?k = heap_string s a demo_exec" for s a by (simp add: heap_string_def)
  have bm: "heap_bitmap ?k = heap_bitmap (demo_kernel (- 2) (- 2) (replicate 32 0))" by (simp add: demo_exec_def)
  have ff: "first_free_run (heap_bitmap ?k) 16 0"
    unfolding bm by (simp add: first_free_run_def demo_free_run)
  have cl: "\<not> fs_isOpen demo_fs (t_file (tasks ?k ! 1))"
    by (simp add: memfs_def demo_exec_def demo_kernel_def demo_task_def mf_closed_def)
  have o: "fs_open demo_fs (sd ?k) (lit ''p'') = (?f, ())" "fs_isOpen demo_fs ?f"
    by (simp add: memfs_def) (simp add: memfs_def f)
  have r: "fs_read demo_fs () ?f 4 = (4, [0xAD, 0x01, 16, 0], ?f\<lparr>mf_pos := 4\<rparr>, ())"
    "fs_read demo_fs () (?f\<lparr>mf_pos := 4\<rparr>) 32 = (3, [0x10, 7, 0], ?f\<lparr>mf_pos := 7\<rparr>, ())"
    by (simp_all add: memfs_def f)
  have n: "0 \<notin> set (lit ''p'')" "length (lit ''p'') < 32" "0 \<notin> set (lit ''/'')" "0 \<notin> set []"
    by (simp_all add: lit_def of_char_def)
  have sz: "(16 :: int) = sint (ucast (16 :: byte) OR push_bit 8 (ucast (0 :: byte)) :: vint)" by simp
  obtain k4 where k4: "Kernel_loadTask demo_fs 1 (lit ''p'') None (Some (lit ''/'')) (Some []) ?k = Some (True, k4)"
    using load_program_ok [OF w _ memfs_ok cl n o r(1) sz _ ff r(2)] by auto
  have ga: "Kernel_getPhysAddr (tasks ?k ! 0) (sint (5 :: vint)) = 5" "Kernel_getPhysAddr (tasks ?k ! 0) (sint (6 :: vint)) = 6"
    by (simp_all add: Kernel_getPhysAddr_def demo_exec_def demo_kernel_def demo_task_def)
  have e: "Syscall_exec demo_fs 0 demo_exec = Some (upd_task 0 (waitForChild (int 1)) k4)"
    using pops ga hs demo_exec_strings fr cw k4
    by (auto simp: Syscall_exec_def Let_def)
  have "length (tasks k4) = 3" using Kernel_loadTask_wf [OF k4 w _ memfs_ok] by (simp add: wf_kernel_def)
  then show ?thesis using e by (simp add: states_upd_task waitForChild_def states_def)
qed

lemma demo_exec_inv: "kinv demo_fs demo_exec" "tidy demo_exec" "states demo_exec = [- 1, - 2, - 2]"
proof -
  let ?k = "demo_kernel (- 2) (- 2) (replicate 32 0)"
  have K: "kinv demo_fs ?k" by (rule demo_kinv) simp_all
  show st: "states demo_exec = [- 1, - 2, - 2]"
    using demo_exec_quiet by (simp add: quiet_def states_def demo_kernel_def demo_task_def)
  show "kinv demo_fs demo_exec" using lawful_kinv [OF quiet_lawful [OF demo_exec_quiet] K] .
  have sh: "same_heap ?k demo_exec" using demo_exec_quiet by (simp add: quiet_def)
  show "tidy demo_exec"
    using demo_heap(2) [of "- 2" "- 2" "replicate 32 0"] same_heap_exact [OF sh] same_heap_block [OF sh] demo_block
    by (simp add: tidy_def)
qed


lemma demo_listing:
  "dir_lists demo_fs () (mem_open [(lit ''p'', x)] [47]) [(False, lit ''p'')]
    ((mem_open [(lit ''p'', x)] [47])\<lparr>mf_pos := 1\<rparr>) ()"
proof -
  let ?e = "\<lparr>mf_open = True, mf_dir = False, mf_data = [0xAD, 0x01, 16, 0, 0x10, 7, 0], mf_pos = 0, mf_name = lit ''p''\<rparr>"
  let ?d = "mem_open [(lit ''p'', x)] [47]"
  have e: "dir_lists demo_fs () (?d\<lparr>mf_pos := 1\<rparr>) [] (?d\<lparr>mf_pos := 1\<rparr>) ()"
    by (rule list_end [where e = mf_closed]) (auto simp: memfs_def mf_closed_def)
  have "dir_lists demo_fs () ?d ((fs_isDirectory demo_fs ?e, lit ''p'') # []) (?d\<lparr>mf_pos := 1\<rparr>) ()"
    by (rule list_entry [OF _ _ _ _ e, where e' = mf_closed])
      (auto simp: memfs_def mem_open_def lit_def of_char_def)
  then show ?thesis by (simp add: memfs_def)
qed

theorem ls_writes_listing_witness:
  "\<exists>f v. ls_list demo_fs 100 8 (mem_open [] [47]) demo_exec =
     Some (demo_exec\<lparr>global_heap := put_at 100 ([112, 10] @ replicate 6 0) (global_heap demo_exec), sd := v\<rparr>)"
proof -
  have d: "dir_lists demo_fs (sd demo_exec) (mem_open [] [47]) [(False, lit ''p'')] ((mem_open [] [47])\<lparr>mf_pos := 1\<rparr>) ()"
    using demo_listing [of "[]"] by (simp add: mem_open_def)
  have h: "length (global_heap demo_exec) = 1024" by (simp add: demo_exec_def)
  show ?thesis
    using ls_writes_listing [OF d, of 100 8] h
    by (simp add: listing_def entry_name_def lit_def of_char_def)
qed

theorem getcwd_copies_cwd_witness:
  "\<exists>k1. Syscall_getcwd 0 (upd_task 0 (\<lambda>t. t\<lparr>sp := 0, stack := 9 # replicate 63 0\<rparr>) (demo_kernel (- 2) (- 2) (replicate 32 0))) =
     Some (k1\<lparr>global_heap := put_at 9 [47, 0] (replicate 1024 0)\<rparr>)"
proof -
  let ?k = "upd_task 0 (\<lambda>t. t\<lparr>sp := 0, stack := 9 # replicate 63 0\<rparr>) (demo_kernel (- 2) (- 2) (replicate 32 0))"
  have w: "wf_kernel ?k"
    by (rule wf_kernel_upd_task [OF demo_wf]) (auto simp: wf_task_def)
  have t: "cstr (cwd (tasks ?k ! 0)) = Some [47]" "Kernel_getPhysAddr (tasks ?k ! 0) (sint (9 :: vint)) = 9"
    "global_heap ?k = replicate 1024 0"
    by (simp_all add: demo_kernel_def demo_task_def cstr_def Kernel_getPhysAddr_def)
  obtain k1 where p: "pop 0 ?k = Some (9, k1)"
    by (simp add: pop_def demo_kernel_def)
  have "Syscall_getcwd 0 ?k = Some (k1\<lparr>global_heap :=
      put_at (nat (Kernel_getPhysAddr (tasks ?k ! 0) (sint (9 :: vint)))) (map scast [47 :: byte] @ [0]) (global_heap ?k)\<rparr>)"
    by (rule getcwd_copies_cwd [OF w p _ t(1)]) (simp_all only: t(2), simp_all)
  then show ?thesis unfolding t by auto
qed

theorem syscall_needs_stack_witness:
  "Kernel_systemCall demo_fs 1 2 (demo_kernel (- 1) (- 2) (replicate 32 0)) = None"
  using syscall_needs_stack [of "demo_kernel (- 1) (- 2) (replicate 32 0)" 1 2]
  by (simp add: demo_kernel_def demo_task_def)

theorem ls_reopen_failure_leaks_witness:
  "\<exists>k'. ls_reopen (memfs []) 1 0 (upd_task 1 (\<lambda>t. t\<lparr>filename := put_at 0 (lit ''p'') (replicate 128 0)\<rparr>)
     (demo_kernel (- 1) 1 (replicate 32 0))) = Some k' \<and> states k' = [- 1, - 2, 1]"
proof -
  let ?k = "upd_task 1 (\<lambda>t. t\<lparr>filename := put_at 0 (lit ''p'') (replicate 128 0)\<rparr>) (demo_kernel (- 1) 1 (replicate 32 0))"
  have w: "wf_kernel ?k"
    by (rule wf_kernel_upd_task [OF demo_wf]) (auto simp: wf_task_def lit_def nth_put_at)
  have c: "cstr (filename (tasks ?k ! 1)) = Some (lit ''p'')"
    by (simp add: demo_kernel_def cstr_def put_at_def lit_def of_char_def)
  have o: "\<not> fs_isOpen (memfs []) (fst (fs_open (memfs []) (sd ?k) (lit ''p'')))"
    by (simp add: memfs_def mem_open_def mf_closed_def lit_def of_char_def)
  have "states ?k = [- 1, - 1, 1]" by (simp add: states_def demo_kernel_def demo_task_def)
  then show ?thesis using ls_reopen_failure_leaks [OF w _ c o, of 0] by auto
qed

text \<open>Task 1 asks for the listing of \<open>x\<close>, which does not exist, with its program file open.\<close>

definition demo_ls :: "(unit, mem_file) kernel" where
  "demo_ls = upd_task 1 (\<lambda>t. t\<lparr>sp := 2, stack := [9, 8, 1] @ replicate 61 0, args := put_at 0 [120] (replicate 32 0),
     t_file := mem_open [] [47]\<rparr>) (demo_kernel (- 1) (- 2) (replicate 32 0))"

theorem ls_invalid_dir_kills_caller_witness:
  "\<exists>k'. Syscall_ls (memfs []) 1 demo_ls = Some k' \<and>
     Kernel_refillBuffer (memfs []) 1 k' = Kernel_terminateTask (memfs []) 1 k'"
proof -
  have w: "wf_kernel demo_ls"
    unfolding demo_ls_def by (rule wf_kernel_upd_task [OF demo_wf]) (auto simp: wf_task_def nth_put_at)
  have op: "fs_isOpen (memfs []) (t_file (tasks demo_ls ! 1))"
    by (simp add: demo_ls_def demo_kernel_def memfs_def mem_open_def)
  obtain k1 k2 k3 where p: "pop 1 demo_ls = Some (1, k1)" "pop 1 k1 = Some (8, k2)" "pop 1 k2 = Some (9, k3)"
    and t: "args (tasks k3 ! 1) = put_at 0 [120] (replicate 32 0)" "cwd (tasks k3 ! 1) = 47 # replicate 31 0"
      "Kernel_getPhysAddr (tasks k3 ! 1) 9 = 9" "fs_isOpen (memfs []) (t_file (tasks k3 ! 1))"
      "length (global_heap k3) = 1024"
    by (simp add: pop_def demo_ls_def demo_kernel_def demo_task_def Kernel_getPhysAddr_def memfs_def mem_open_def)
  have c: "cstr (cwd (tasks k3 ! 1)) = Some [47]" "cstr (args (tasks k3 ! 1)) = Some [120]"
    unfolding t by (simp_all add: cstr_def put_at_def)
  obtain tp where tp: "resolve_path (tasks k3 ! 1) [120] (replicate 128 0) = Some tp" "cstr tp = Some ([47] @ [120])"
    using resolve_relative [OF c(1), of "[120]" "replicate 128 0"] by (auto simp: ends_with_def starts_with_def)
  have l: "ls_target 1 (tasks k3 ! 1) = Some tp" using c tp by (simp add: ls_target_def)
  have n: "\<forall>v. \<not> fs_isOpen (memfs []) (fst (fs_open (memfs []) v ([47] @ [120])))"
    by (simp add: memfs_def mem_open_def mf_closed_def)
  have h: "global_heap (close_file (memfs []) 1 k3) = global_heap k3"
    by (simp add: close_file_def memfs_def)
  obtain k' where "Syscall_ls (memfs []) 1 demo_ls = Some k'"
    using p l tp(2) t n h by (simp add: Syscall_ls_def Let_def memfs_def store_checked_in mem_open_def mf_closed_def)
  with ls_invalid_dir_kills_caller [OF memfs_ok w _ this p l tp(2) n] op show ?thesis by auto
qed

end
