(* ===== verification/VirtualMachine.thy ===== *)
theory VirtualMachine
  imports Syscalls
begin

text \<open>
  The bytecode interpreter of \<open>src/VirtualMachine.cpp\<close>: fetching from the 32-byte code buffer and one
  definition per group of opcodes. The macros that check the stack take the rest of the case as
  their continuation, since they return from the step.
\<close>

section \<open>Opcodes\<close>

datatype VMOpcode =
    OP_EXIT | OP_PRINT | OP_READ | OP_PRTC | OP_PRTE | OP_PRTS
  | OP_PUSH | OP_ADD | OP_SUB | OP_EQ | OP_DUP | OP_POP
  | OP_JMP | OP_JIF | OP_SYS | OP_PIN_MODE | OP_D_WRITE | OP_SLEEP
  | OP_MALLOC | OP_LOAD | OP_STORE

definition opcode_table :: "(byte \<times> VMOpcode) list" where
  "opcode_table =
     [(0x00, OP_EXIT), (0x01, OP_PRINT), (0x02, OP_READ), (0x03, OP_PRTC), (0x04, OP_PRTE),
      (0x05, OP_PRTS), (0x10, OP_PUSH), (0x11, OP_ADD), (0x12, OP_SUB), (0x13, OP_EQ),
      (0x14, OP_DUP), (0x15, OP_POP), (0x20, OP_JMP), (0x21, OP_JIF), (0x30, OP_SYS),
      (0x40, OP_PIN_MODE), (0x41, OP_D_WRITE), (0x42, OP_SLEEP), (0x50, OP_MALLOC),
      (0x51, OP_LOAD), (0x52, OP_STORE)]"

section \<open>Fetching\<close>

definition VM_fetchByte :: "('fs, 'f) fsops \<Rightarrow> nat \<Rightarrow> ('fs, 'f) kernel \<Rightarrow> (byte \<times> ('fs, 'f) kernel) option" where
  "VM_fetchByte F i k =
     (let refill = buffer_index (tasks k ! i) \<ge> 32;
          k = (if refill then Kernel_refillBuffer F i k else k);
          t = tasks k ! i
      in if refill \<and> \<not> isActive t then Some (0, k)
         else do {
           b \<leftarrow> aget (code_buffer t) (buffer_index t);
           Some (b, upd_task i (\<lambda>t. t\<lparr>buffer_index := buffer_index t + 1\<rparr>) k) })"

definition VM_fetchInt :: "('fs, 'f) fsops \<Rightarrow> nat \<Rightarrow> ('fs, 'f) kernel \<Rightarrow> (vint \<times> ('fs, 'f) kernel) option" where
  "VM_fetchInt F i k = do {
     (low, k) \<leftarrow> VM_fetchByte F i k;
     (high, k) \<leftarrow> VM_fetchByte F i k;
     Some (ucast low OR push_bit 8 (ucast high), k) }"

section \<open>Stack checks\<close>

definition vm_abort :: "('fs, 'f) fsops \<Rightarrow> nat \<Rightarrow> byte list \<Rightarrow> ('fs, 'f) kernel \<Rightarrow> ('fs, 'f) kernel" where
  "vm_abort F i msg k = Kernel_terminateTask F i (put_str FD_STDERR msg k)"

definition CHECK_STACK_OVERFLOW ::
    "('fs, 'f) fsops \<Rightarrow> nat \<Rightarrow> ('fs, 'f) kernel \<Rightarrow> (('fs, 'f) kernel \<Rightarrow> ('fs, 'f) kernel option)
     \<Rightarrow> ('fs, 'f) kernel option" where
  "CHECK_STACK_OVERFLOW F i k cont =
     (if sp (tasks k ! i) \<ge> 64 - 1 then Some (vm_abort F i (lit ''Err: Stack Overflow'' @ [10]) k) else cont k)"

definition CHECK_STACK_UNDERFLOW ::
    "('fs, 'f) fsops \<Rightarrow> nat \<Rightarrow> int \<Rightarrow> ('fs, 'f) kernel \<Rightarrow> (('fs, 'f) kernel \<Rightarrow> ('fs, 'f) kernel option)
     \<Rightarrow> ('fs, 'f) kernel option" where
  "CHECK_STACK_UNDERFLOW F i count k cont =
     (if sp (tasks k ! i) < count - 1 then Some (vm_abort F i (lit ''Err: Stack Underflow'' @ [10]) k) else cont k)"

section \<open>Stack and arithmetic\<close>

definition vm_push :: "('fs, 'f) fsops \<Rightarrow> nat \<Rightarrow> ('fs, 'f) kernel \<Rightarrow> ('fs, 'f) kernel option" where
  "vm_push F i k = CHECK_STACK_OVERFLOW F i k (\<lambda>k. do {
     (val, k) \<leftarrow> VM_fetchInt F i k;
     push i val k })"

definition vm_add :: "('fs, 'f) fsops \<Rightarrow> nat \<Rightarrow> ('fs, 'f) kernel \<Rightarrow> ('fs, 'f) kernel option" where
  "vm_add F i k = CHECK_STACK_UNDERFLOW F i 2 k (\<lambda>k. do {
     (a, k) \<leftarrow> pop i k; (b, k) \<leftarrow> pop i k; push i (a + b) k })"

definition vm_sub :: "('fs, 'f) fsops \<Rightarrow> nat \<Rightarrow> ('fs, 'f) kernel \<Rightarrow> ('fs, 'f) kernel option" where
  "vm_sub F i k = CHECK_STACK_UNDERFLOW F i 2 k (\<lambda>k. do {
     (b, k) \<leftarrow> pop i k; (a, k) \<leftarrow> pop i k; push i (a - b) k })"

definition vm_eq :: "('fs, 'f) fsops \<Rightarrow> nat \<Rightarrow> ('fs, 'f) kernel \<Rightarrow> ('fs, 'f) kernel option" where
  "vm_eq F i k = CHECK_STACK_UNDERFLOW F i 2 k (\<lambda>k. do {
     (a, k) \<leftarrow> pop i k; (b, k) \<leftarrow> pop i k; push i (if a = b then 1 else 0) k })"

definition vm_dup :: "('fs, 'f) fsops \<Rightarrow> nat \<Rightarrow> ('fs, 'f) kernel \<Rightarrow> ('fs, 'f) kernel option" where
  "vm_dup F i k = CHECK_STACK_UNDERFLOW F i 1 k (\<lambda>k. CHECK_STACK_OVERFLOW F i k (\<lambda>k. do {
     val \<leftarrow> aget (stack (tasks k ! i)) (sp (tasks k ! i)); push i val k }))"

definition vm_pop :: "('fs, 'f) fsops \<Rightarrow> nat \<Rightarrow> ('fs, 'f) kernel \<Rightarrow> ('fs, 'f) kernel option" where
  "vm_pop F i k = CHECK_STACK_UNDERFLOW F i 1 k (\<lambda>k. Some (upd_task i (\<lambda>t. t\<lparr>sp := sp t - 1\<rparr>) k))"

section \<open>Control flow\<close>

definition vm_jmp :: "('fs, 'f) fsops \<Rightarrow> nat \<Rightarrow> ('fs, 'f) kernel \<Rightarrow> ('fs, 'f) kernel option" where
  "vm_jmp F i k = do { (target, k) \<leftarrow> VM_fetchInt F i k; Some (Kernel_jump F i target k) }"

definition vm_jif :: "('fs, 'f) fsops \<Rightarrow> nat \<Rightarrow> ('fs, 'f) kernel \<Rightarrow> ('fs, 'f) kernel option" where
  "vm_jif F i k = CHECK_STACK_UNDERFLOW F i 1 k (\<lambda>k. do {
     (target, k) \<leftarrow> VM_fetchInt F i k;
     (condition, k) \<leftarrow> pop i k;
     Some (if condition \<noteq> 0 then Kernel_jump F i target k else k) })"

section \<open>Input and output\<close>

text \<open>\<open>OP_PRINT\<close> and \<open>OP_PRTE\<close> differ in the stream.\<close>

definition vm_print :: "('fs, 'f) fsops \<Rightarrow> nat \<Rightarrow> int \<Rightarrow> ('fs, 'f) kernel \<Rightarrow> ('fs, 'f) kernel option" where
  "vm_print F i fd k = CHECK_STACK_UNDERFLOW F i 1 k (\<lambda>k. do {
     (val, k) \<leftarrow> pop i k;
     Some (put_char fd 10 (put_int fd val k)) })"

definition vm_prtc :: "('fs, 'f) fsops \<Rightarrow> nat \<Rightarrow> ('fs, 'f) kernel \<Rightarrow> ('fs, 'f) kernel option" where
  "vm_prtc F i k = CHECK_STACK_UNDERFLOW F i 1 k (\<lambda>k. do {
     (c, k) \<leftarrow> pop i k;
     Some (put_char FD_STDOUT (ucast c) k) })"

text \<open>The copy loop of \<open>OP_PRTS\<close> with \<open>n\<close> buffer cells left.\<close>

fun prts_chars :: "nat \<Rightarrow> int \<Rightarrow> vint list \<Rightarrow> byte list" where
  "prts_chars 0 phys_addr h = []"
| "prts_chars (Suc n) phys_addr h =
     (if phys_addr \<ge> 0 \<and> phys_addr < 1024
      then let val = h ! nat phys_addr
           in if val = 0 then [] else ucast val # prts_chars n (phys_addr + 1) h
      else [])"

definition vm_prts :: "('fs, 'f) fsops \<Rightarrow> nat \<Rightarrow> ('fs, 'f) kernel \<Rightarrow> ('fs, 'f) kernel option" where
  "vm_prts F i k = CHECK_STACK_UNDERFLOW F i 1 k (\<lambda>k. do {
     (addr, k) \<leftarrow> pop i k;
     let phys_addr = Kernel_getPhysAddr (tasks k ! i) (sint addr);
     text \<leftarrow> cstr (put_at 0 (prts_chars 127 phys_addr (global_heap k) @ [0]) (replicate 128 0));
     Some (put_str FD_STDOUT text k) })"

definition vm_read :: "('fs, 'f) fsops \<Rightarrow> nat \<Rightarrow> ('fs, 'f) kernel \<Rightarrow> ('fs, 'f) kernel option" where
  "vm_read F i k = CHECK_STACK_OVERFLOW F i k (\<lambda>k. do {
     let (val, k) = Kernel_stdRead FD_STDIN k;
     push i (if val \<noteq> - 1 then word_of_int val else 0) k })"

section \<open>System calls, sleeping and exit\<close>

definition vm_sys :: "('fs, 'f) fsops \<Rightarrow> nat \<Rightarrow> ('fs, 'f) kernel \<Rightarrow> ('fs, 'f) kernel option" where
  "vm_sys F i k = CHECK_STACK_UNDERFLOW F i 1 k (\<lambda>k. do {
     (sys_id, k) \<leftarrow> pop i k;
     Kernel_systemCall F i sys_id k })"

definition vm_sleep :: "('fs, 'f) fsops \<Rightarrow> nat \<Rightarrow> ('fs, 'f) kernel \<Rightarrow> ('fs, 'f) kernel option" where
  "vm_sleep F i k = CHECK_STACK_UNDERFLOW F i 1 k (\<lambda>k. do {
     (ms, k) \<leftarrow> pop i k;
     Some (Kernel_yield i (upd_task i (\<lambda>t. t\<lparr>wake_up_time := scast ms\<rparr>) k)) })"

definition vm_exit :: "('fs, 'f) fsops \<Rightarrow> nat \<Rightarrow> ('fs, 'f) kernel \<Rightarrow> ('fs, 'f) kernel option" where
  "vm_exit F i k = Some (Kernel_terminateTask F i k)"

section \<open>Memory\<close>

definition vm_malloc :: "('fs, 'f) fsops \<Rightarrow> nat \<Rightarrow> ('fs, 'f) kernel \<Rightarrow> ('fs, 'f) kernel option" where
  "vm_malloc F i k = CHECK_STACK_UNDERFLOW F i 1 k (\<lambda>k. do {
     (sz, k) \<leftarrow> pop i k;
     let (addr, k) = Kernel_malloc i (sint sz) k;
     CHECK_STACK_OVERFLOW F i k (push i (if addr = - 1 then 0 else word_of_int addr)) })"

text \<open>The report of an access outside the heap; \<open>last\<close> is how the line ends.\<close>

definition vm_segfault ::
    "('fs, 'f) fsops \<Rightarrow> nat \<Rightarrow> byte list \<Rightarrow> int \<Rightarrow> (('fs, 'f) kernel \<Rightarrow> ('fs, 'f) kernel)
     \<Rightarrow> ('fs, 'f) kernel \<Rightarrow> ('fs, 'f) kernel" where
  "vm_segfault F i msg phys_addr line_end k =
     Kernel_terminateTask F i (line_end (put_int FD_STDERR (word_of_int phys_addr) (put_str FD_STDERR msg k)))"

definition vm_load :: "('fs, 'f) fsops \<Rightarrow> nat \<Rightarrow> ('fs, 'f) kernel \<Rightarrow> ('fs, 'f) kernel option" where
  "vm_load F i k = CHECK_STACK_UNDERFLOW F i 1 k (\<lambda>k. do {
     (addr, k) \<leftarrow> pop i k;
     let phys_addr = Kernel_getPhysAddr (tasks k ! i) (sint addr);
     if phys_addr \<ge> 0 \<and> phys_addr < 1024
     then CHECK_STACK_OVERFLOW F i k (\<lambda>k. do {
       val \<leftarrow> aget (global_heap k) phys_addr; push i val k })
     else Some (vm_segfault F i (lit ''SegFault: Read '') phys_addr (put_str FD_STDERR [10]) k) })"

definition vm_store :: "('fs, 'f) fsops \<Rightarrow> nat \<Rightarrow> ('fs, 'f) kernel \<Rightarrow> ('fs, 'f) kernel option" where
  "vm_store F i k = CHECK_STACK_UNDERFLOW F i 2 k (\<lambda>k. do {
     (addr, k) \<leftarrow> pop i k;
     (val, k) \<leftarrow> pop i k;
     let phys_addr = Kernel_getPhysAddr (tasks k ! i) (sint addr);
     if phys_addr \<ge> 0 \<and> phys_addr < 1024
     then heap_store phys_addr val k
     else Some (vm_segfault F i (lit ''SegFault: Write Addr '') phys_addr (put_char FD_STDERR 10) k) })"

section \<open>One step\<close>

text \<open>Opcodes without a case, known or not, do nothing.\<close>

definition vm_exec :: "('fs, 'f) fsops \<Rightarrow> nat \<Rightarrow> VMOpcode option \<Rightarrow> ('fs, 'f) kernel \<Rightarrow> ('fs, 'f) kernel option" where
  "vm_exec F i oc k =
     (case oc of
        Some OP_PUSH \<Rightarrow> vm_push F i k | Some OP_ADD \<Rightarrow> vm_add F i k | Some OP_SUB \<Rightarrow> vm_sub F i k
      | Some OP_EQ \<Rightarrow> vm_eq F i k | Some OP_DUP \<Rightarrow> vm_dup F i k | Some OP_POP \<Rightarrow> vm_pop F i k
      | Some OP_JMP \<Rightarrow> vm_jmp F i k | Some OP_JIF \<Rightarrow> vm_jif F i k
      | Some OP_PRINT \<Rightarrow> vm_print F i FD_STDOUT k | Some OP_PRTC \<Rightarrow> vm_prtc F i k
      | Some OP_PRTE \<Rightarrow> vm_print F i FD_STDERR k | Some OP_PRTS \<Rightarrow> vm_prts F i k
      | Some OP_READ \<Rightarrow> vm_read F i k | Some OP_SYS \<Rightarrow> vm_sys F i k
      | Some OP_SLEEP \<Rightarrow> vm_sleep F i k | Some OP_EXIT \<Rightarrow> vm_exit F i k
      | Some OP_MALLOC \<Rightarrow> vm_malloc F i k | Some OP_LOAD \<Rightarrow> vm_load F i k
      | Some OP_STORE \<Rightarrow> vm_store F i k
      | _ \<Rightarrow> Some k)"

definition VM_runStep :: "('fs, 'f) fsops \<Rightarrow> nat \<Rightarrow> ('fs, 'f) kernel \<Rightarrow> ('fs, 'f) kernel option" where
  "VM_runStep F i k = do {
     (opcode, k) \<leftarrow> VM_fetchByte F i k;
     if \<not> isActive (tasks k ! i) then Some k
     else vm_exec F i (map_of opcode_table opcode) k }"

section \<open>Safety and lawfulness of a step\<close>

text \<open>Termination leaves the VM stack of every task alone.\<close>

lemma nth_upd_proj: "g x = g (xs ! i) \<Longrightarrow> g (xs[i := x] ! l) = g (xs ! l)"
  by (cases "i < length xs"; cases "i = l") (auto simp: list_update_beyond)

lemma fold_proj:
  "(\<And>j k. h (f j k) = h k) \<Longrightarrow> h (fold f js k) = h k"
  by (induction js arbitrary: k) auto

lemma terminate_proj:
  fixes g :: "'f task \<Rightarrow> 'b"
  assumes "\<And>t a. g (t\<lparr>alloc_table := a\<rparr>) = g t" "\<And>t. g (t\<lparr>heap_base := - 1, heap_limit := 0\<rparr>) = g t"
    "\<And>t. g (setRunning t) = g t" "\<And>t. g (setFree t) = g t" "\<And>t f. g (t\<lparr>t_file := f\<rparr>) = g t"
  shows "g (tasks (Kernel_terminateTask F i k) ! l) = g (tasks k ! l)"
proof -
  note * = assms nth_upd_proj [where g = g]
  have 1: "g (tasks (gc_entry i j k) ! l) = g (tasks k ! l)" for j and k :: "('a, 'f) kernel"
    by (simp add: gc_entry_def Kernel_free_def Let_def * split: option.split)
  have 2: "g (tasks (gc_segment i k) ! l) = g (tasks k ! l)" for k :: "('a, 'f) kernel"
    by (simp add: gc_segment_def Let_def *)
  have 3: "g (tasks (wake_parent i j k) ! l) = g (tasks k ! l)" for j and k :: "('a, 'f) kernel"
    by (simp add: wake_parent_def *)
  show ?thesis
    by (simp add: Kernel_terminateTask_def Let_def close_file_def * 2 split: prod.split)
      (simp add: fold_proj [where h = "\<lambda>k. g (tasks k ! l)" and f = "wake_parent i"] 3 2
        fold_proj [where h = "\<lambda>k. g (tasks k ! l)" and f = "gc_entry i"] 1)
qed

lemma terminate_stack [simp]:
  "sp (tasks (Kernel_terminateTask F i k) ! l) = sp (tasks k ! l)"
  "stack (tasks (Kernel_terminateTask F i k) ! l) = stack (tasks k ! l)"
  "buffer_index (tasks (Kernel_terminateTask F i k) ! l) = buffer_index (tasks k ! l)"
  by (rule terminate_proj; simp add: setRunning_def setFree_def)+

lemma refill_stack:
  "sp (tasks (Kernel_refillBuffer F i k) ! l) = sp (tasks k ! l)"
  "stack (tasks (Kernel_refillBuffer F i k) ! l) = stack (tasks k ! l)"
  by (simp_all add: Kernel_refillBuffer_def nth_upd_proj [where g = sp] nth_upd_proj [where g = stack] split: prod.split)

text \<open>The result of an operation of a VM task: it is defined and lawful.\<close>

definition safe :: "('fs, 'f) fsops \<Rightarrow> ('fs, 'f) kernel \<Rightarrow> ('fs, 'f) kernel option \<Rightarrow> bool" where
  "safe F k r \<longleftrightarrow> (\<exists>k'. r = Some k' \<and> lawful F k k')"

lemma safe_Some [simp]: "safe F k (Some k') = lawful F k k'"
  by (simp add: safe_def)

lemma safe_trans: "lawful F k k1 \<Longrightarrow> safe F k1 r \<Longrightarrow> safe F k r"
  by (auto simp: safe_def intro: lawful_trans)

lemma lawful_abort: "0 < i \<Longrightarrow> i < 3 \<Longrightarrow> lawful F k (vm_abort F i msg k)"
  unfolding vm_abort_def by (rule lawful_trans [OF quiet_lawful [OF quiet_put(1)] lawful_terminate]) auto

lemma lawful_segfault:
  assumes "0 < i" "i < 3" "\<And>k. quiet F k (f k)"
  shows "lawful F k (vm_segfault F i msg a f k)"
proof -
  have "quiet F k (f (put_int FD_STDERR (word_of_int a) (put_str FD_STDERR msg k)))"
    by (rule quiet_trans [OF quiet_trans [OF quiet_put(1) quiet_put(2)] assms(3)])
  then show ?thesis unfolding vm_segfault_def
    using assms lawful_terminate [of i F] by (blast intro: lawful_trans quiet_lawful)
qed

lemma safe_overflow:
  assumes "0 < i" "i < 3" "sp (tasks k ! i) < 63 \<Longrightarrow> safe F k (c k)"
  shows "safe F k (CHECK_STACK_OVERFLOW F i k c)"
  using assms by (auto simp: CHECK_STACK_OVERFLOW_def lawful_abort)

lemma safe_underflow:
  assumes "0 < i" "i < 3" "n - 1 \<le> sp (tasks k ! i) \<Longrightarrow> safe F k (c k)"
  shows "safe F k (CHECK_STACK_UNDERFLOW F i n k c)"
  using assms by (auto simp: CHECK_STACK_UNDERFLOW_def lawful_abort)

lemma pop_ok:
  assumes "kinv F k" "i < 3" "0 \<le> sp (tasks k ! i)"
  obtains v k' where "pop i k = Some (v, k')" "quiet F k k'" "kinv F k'"
    "sp (tasks k' ! i) = sp (tasks k ! i) - 1" "v = stack (tasks k ! i) ! nat (sp (tasks k ! i))"
    "k' = upd_task i (\<lambda>t. t\<lparr>sp := sp t - 1\<rparr>) k"
proof -
  have w: "length (tasks k) = 3" "sp (tasks k ! i) < 64" "length (stack (tasks k ! i)) = 64"
    using kinv_wf [OF assms(1)] wf_kernelD(2) [OF kinv_wf [OF assms(1)] assms(2)] by (simp_all add: wf_kernel_def wf_task_def)
  let ?k = "upd_task i (\<lambda>t. t\<lparr>sp := sp t - 1\<rparr>) k"
  have p: "pop i k = Some (stack (tasks k ! i) ! nat (sp (tasks k ! i)), ?k)"
    using assms(3) w by (simp add: pop_def)
  have "sp (tasks ?k ! i) = sp (tasks k ! i) - 1" using assms(2) w by simp
  then show thesis
    using that [OF p quiet_pop [OF p assms(2)] lawful_kinv [OF quiet_lawful [OF quiet_pop [OF p assms(2)]] assms(1)]]
    by simp
qed

lemma push_ok:
  assumes "kinv F k" "i < 3" "sp (tasks k ! i) < 63"
  obtains k' where "push i v k = Some k'" "quiet F k k'"
    "k' = upd_task i (\<lambda>t. t\<lparr>sp := sp t + 1, stack := (stack (tasks k ! i))[nat (sp (tasks k ! i) + 1) := v]\<rparr>) k"
proof -
  have w: "- 1 \<le> sp (tasks k ! i)" "length (stack (tasks k ! i)) = 64"
    using wf_kernelD(2) [OF kinv_wf [OF assms(1)] assms(2)] by (simp_all add: wf_task_def)
  then have p: "push i v k = Some (upd_task i (\<lambda>t. t\<lparr>sp := sp t + 1, stack := (stack (tasks k ! i))[nat (sp (tasks k ! i) + 1) := v]\<rparr>) k)"
    using assms(3) by (simp add: push_def)
  then show thesis using that quiet_push [OF p assms(2)] by blast
qed

lemma safe_push:
  "kinv F k \<Longrightarrow> i < 3 \<Longrightarrow> sp (tasks k ! i) < 63 \<Longrightarrow> safe F k (push i v k)"
  by (metis push_ok quiet_lawful safe_Some)

lemma VM_fetchByte_ok:
  assumes "kinv F k" "fs_ok F" "0 < i" "i < 3"
  obtains b k' where "VM_fetchByte F i k = Some (b, k')" "lawful F k k'" "kinv F k'"
    "sp (tasks k' ! i) = sp (tasks k ! i)" "stack (tasks k' ! i) = stack (tasks k ! i)"
    "states k' = states k \<or> states k' ! i = - 2"
proof -
  define r where "r = (buffer_index (tasks k ! i) \<ge> 32)"
  define k1 where "k1 = (if r then Kernel_refillBuffer F i k else k)"
  have l1: "lawful F k k1" using lawful_refill [OF assms(2,4)] assms(3) by (simp add: k1_def)
  have K1: "kinv F k1" by (rule lawful_kinv [OF l1 assms(1)])
  have s1: "sp (tasks k1 ! i) = sp (tasks k ! i)" "stack (tasks k1 ! i) = stack (tasks k ! i)"
    by (simp_all add: k1_def refill_stack)
  have w: "wf_kernel k" "heap_sound k" using assms(1) by (simp_all add: kinv_def)
  have L: "length (states k) = 3" using w(1) by (simp add: states_def wf_kernel_def)
  have st1: "states k1 = states k \<and> (r \<longrightarrow> buffer_index (tasks k1 ! i) = 0) \<or> states k1 ! i = - 2 \<and> r"
  proof (cases "r \<and> fs_available F (t_file (tasks k ! i)) = 0")
    case True
    then have "k1 = Kernel_terminateTask F i k" by (simp add: k1_def Kernel_refillBuffer_def)
    then have "states k1 ! i = - 2"
      using Kernel_terminateTask_post(5) [OF w assms(4), where F = F] assms(3,4) L by (simp add: exit_states_def)
    with True show ?thesis by simp
  next
    case False
    then show ?thesis
      using assms(4) wf_kernelD(1) [OF w(1)] by (auto simp: k1_def Kernel_refillBuffer_def split: prod.split)
  qed
  show thesis
  proof (cases "r \<and> \<not> isActive (tasks k1 ! i)")
    case True
    have len: "length (tasks k1) = 3" using K1 by (simp add: kinv_def wf_kernel_def)
    then have "states k1 ! i = - 2" using True assms(4) by (simp add: isActive_def states_def)
    moreover have "VM_fetchByte F i k = Some (0, k1)"
      using True unfolding VM_fetchByte_def Let_def r_def [symmetric] k1_def [symmetric] by simp
    ultimately show thesis using that l1 K1 s1 by blast
  next
    case False
    let ?k = "upd_task i (\<lambda>t. t\<lparr>buffer_index := buffer_index t + 1\<rparr>) k1"
    have wt: "wf_task i (tasks k1 ! i)" "length (tasks k1) = 3"
      using K1 wf_kernelD(2) [of k1 i] assms(4) by (auto simp: kinv_def wf_kernel_def)
    have "states k1 ! i \<noteq> - 2" if r
      using False that wt assms(4) by (auto simp: isActive_def states_def)
    then have st: "states k1 = states k" and b0: "r \<Longrightarrow> buffer_index (tasks k1 ! i) = 0" using st1 by auto
    have bi: "buffer_index (tasks k1 ! i) < 32" using b0 by (cases r) (auto simp: r_def k1_def)
    then obtain b where e: "VM_fetchByte F i k = Some (b, ?k)"
      using False wt unfolding VM_fetchByte_def Let_def r_def [symmetric] k1_def [symmetric]
      by (auto simp: wf_task_def)
    have q: "quiet F k1 ?k"
      by (rule quiet_upd_task) (use assms(3,4) bi in \<open>auto simp: wf_task_def\<close>)
    show thesis
      by (rule that [OF e]) (use l1 q s1 K1 st assms(4) wt in
          \<open>auto intro: lawful_trans quiet_lawful lawful_kinv\<close>)
  qed
qed

lemma VM_fetchInt_ok:
  assumes "kinv F k" "fs_ok F" "0 < i" "i < 3"
  obtains v k' where "VM_fetchInt F i k = Some (v, k')" "lawful F k k'" "kinv F k'"
    "sp (tasks k' ! i) = sp (tasks k ! i)" "stack (tasks k' ! i) = stack (tasks k ! i)"
proof -
  obtain b k1 where 1: "VM_fetchByte F i k = Some (b, k1)" "lawful F k k1" "kinv F k1"
    "sp (tasks k1 ! i) = sp (tasks k ! i)" "stack (tasks k1 ! i) = stack (tasks k ! i)"
    by (rule VM_fetchByte_ok [OF assms])
  obtain c k2 where 2: "VM_fetchByte F i k1 = Some (c, k2)" "lawful F k1 k2" "kinv F k2"
    "sp (tasks k2 ! i) = sp (tasks k1 ! i)" "stack (tasks k2 ! i) = stack (tasks k1 ! i)"
    by (rule VM_fetchByte_ok [OF 1(3) assms(2-4)])
  show thesis
    by (rule that [of "ucast b OR push_bit 8 (ucast c)" k2])
      (use 1 2 in \<open>auto simp: VM_fetchInt_def intro: lawful_trans\<close>)
qed

text \<open>Two pops and a push: the binary operations.\<close>

lemma safe_binop:
  assumes "kinv F k" "0 < i" "i < 3" "1 \<le> sp (tasks k ! i)"
  shows "safe F k (do { (a, k) \<leftarrow> pop i k; (b, k) \<leftarrow> pop i k; push i (f a b) k })"
proof -
  have s0: "0 \<le> sp (tasks k ! i)" using assms(4) by simp
  obtain a k1 where 1: "pop i k = Some (a, k1)" "quiet F k k1" "kinv F k1" "sp (tasks k1 ! i) = sp (tasks k ! i) - 1"
    by (rule pop_ok [OF assms(1,3) s0])
  then have s1: "0 \<le> sp (tasks k1 ! i)" using assms(4) by simp
  obtain b k2 where 2: "pop i k1 = Some (b, k2)" "quiet F k1 k2" "kinv F k2" "sp (tasks k2 ! i) = sp (tasks k1 ! i) - 1"
    by (rule pop_ok [OF 1(3) assms(3) s1])
  have "sp (tasks k ! i) < 64"
    using wf_kernelD(2) [OF kinv_wf [OF assms(1)] assms(3)] by (simp add: wf_task_def)
  then have "safe F k2 (push i (f a b) k2)" using 1(4) 2(4) by (intro safe_push 2(3) assms(3)) simp
  then show ?thesis using 1 2 by (simp add: safe_trans [OF quiet_lawful [OF quiet_trans [OF 1(2) 2(2)]]])
qed

lemma safe_pop1:
  assumes "kinv F k" "i < 3" "0 \<le> sp (tasks k ! i)"
    "\<And>v k1. quiet F k k1 \<Longrightarrow> kinv F k1 \<Longrightarrow> sp (tasks k1 ! i) < 63 \<Longrightarrow> safe F k1 (c v k1)"
  shows "safe F k (do { (v, k) \<leftarrow> pop i k; c v k })"
proof -
  obtain v k1 where 1: "pop i k = Some (v, k1)" "quiet F k k1" "kinv F k1" "sp (tasks k1 ! i) = sp (tasks k ! i) - 1"
    by (rule pop_ok [OF assms(1-3)])
  have "sp (tasks k ! i) < 64"
    using wf_kernelD(2) [OF kinv_wf [OF assms(1)] assms(2)] by (simp add: wf_task_def)
  then have "safe F k1 (c v k1)" using 1 by (intro assms(4)) simp_all
  then show ?thesis using 1 by (simp add: safe_trans [OF quiet_lawful [OF 1(2)]])
qed

lemma safe_fetchInt:
  assumes "kinv F k" "fs_ok F" "0 < i" "i < 3"
    "\<And>v k1. lawful F k k1 \<Longrightarrow> kinv F k1 \<Longrightarrow> sp (tasks k1 ! i) = sp (tasks k ! i) \<Longrightarrow> safe F k1 (c v k1)"
  shows "safe F k (do { (v, k) \<leftarrow> VM_fetchInt F i k; c v k })"
proof -
  obtain v k1 where 1: "VM_fetchInt F i k = Some (v, k1)" "lawful F k k1" "kinv F k1"
    "sp (tasks k1 ! i) = sp (tasks k ! i)"
    by (rule VM_fetchInt_ok [OF assms(1-4)])
  have "safe F k1 (c v k1)" using 1 by (intro assms(5))
  then show ?thesis using 1 by (simp add: safe_trans [OF 1(2)])
qed

lemma prts_text: "\<exists>text. cstr (put_at 0 (prts_chars 127 a h @ [0]) (replicate 128 0)) = Some text"
proof -
  have "length (prts_chars n a h) \<le> n" for n by (induction n arbitrary: a) (auto simp: Let_def)
  then have "0 \<in> set (put_at 0 (prts_chars 127 a h @ [0]) (replicate 128 0))"
    by (simp add: put_at_def)
  then show ?thesis by (rule cstr_terminated)
qed

lemma safe_bind_Some: "safe F k (c x) \<Longrightarrow> r = Some x \<Longrightarrow> safe F k (Option.bind r c)"
  by simp

lemma vm_malloc_safe:
  assumes "kinv F k" "0 < i" "i < 3" "states k ! i \<noteq> - 2"
  shows "safe F k (vm_malloc F i k)"
  unfolding vm_malloc_def
proof (rule safe_underflow [OF assms(2,3)], rule safe_pop1 [OF assms(1,3)])
  fix v k1 assume 1: "quiet F k k1" "kinv F k1" "sp (tasks k1 ! i) < 63"
  obtain p k2 where m: "Kernel_malloc i (sint v) k1 = (p, k2)" by fastforce
  have "states k1 ! i \<noteq> - 2" using 1(1) assms(4) by (simp add: quiet_states)
  then have l: "lawful F k1 k2" by (rule lawful_malloc [OF assms(3) _ m])
  have "safe F k2 (CHECK_STACK_OVERFLOW F i k2 (push i (if p = - 1 then 0 else word_of_int p)))"
    by (rule safe_overflow [OF assms(2,3)]) (rule safe_push [OF lawful_kinv [OF l 1(2)] assms(3)])
  then show "safe F k1 (let (addr, k) = Kernel_malloc i (sint v) k1 in
     CHECK_STACK_OVERFLOW F i k (push i (if addr = - 1 then 0 else word_of_int addr)))"
    using safe_trans [OF l] m by simp
qed simp

lemma vm_load_safe:
  assumes "kinv F k" "0 < i" "i < 3"
  shows "safe F k (vm_load F i k)"
  unfolding vm_load_def
proof (rule safe_underflow [OF assms(2,3)], rule safe_pop1 [OF assms(1,3)])
  fix v k1 assume 1: "quiet F k k1" "kinv F k1" "sp (tasks k1 ! i) < 63"
  let ?a = "Kernel_getPhysAddr (tasks k1 ! i) (sint v)"
  have h: "length (global_heap k1) = 1024" using kinv_wf [OF 1(2)] by (simp add: wf_kernel_def)
  have "safe F k1 (CHECK_STACK_OVERFLOW F i k1 (\<lambda>k. do { val \<leftarrow> aget (global_heap k) ?a; push i val k }))"
    if "0 \<le> ?a" "?a < 1024"
    by (rule safe_overflow [OF assms(2,3)]) (use that h safe_push [OF 1(2) assms(3)] in auto)
  moreover have "lawful F k1 (vm_segfault F i (lit ''SegFault: Read '') ?a (put_str FD_STDERR [10]) k1)"
    by (rule lawful_segfault [OF assms(2,3)]) simp
  ultimately show "safe F k1 (let phys_addr = ?a in
     if 0 \<le> phys_addr \<and> phys_addr < 1024
     then CHECK_STACK_OVERFLOW F i k1 (\<lambda>k. do { val \<leftarrow> aget (global_heap k) phys_addr; push i val k })
     else Some (vm_segfault F i (lit ''SegFault: Read '') phys_addr (put_str FD_STDERR [10]) k1))"
    by (simp add: Let_def)
qed simp

lemma vm_store_safe:
  assumes "kinv F k" "0 < i" "i < 3"
  shows "safe F k (vm_store F i k)"
  unfolding vm_store_def
proof (rule safe_underflow [OF assms(2,3)])
  assume s: "2 - 1 \<le> sp (tasks k ! i)"
  then have s0: "0 \<le> sp (tasks k ! i)" by simp
  obtain a k1 where 1: "pop i k = Some (a, k1)" "quiet F k k1" "kinv F k1" "sp (tasks k1 ! i) = sp (tasks k ! i) - 1"
    by (rule pop_ok [OF assms(1,3) s0])
  then have s1: "0 \<le> sp (tasks k1 ! i)" using s by simp
  obtain b k2 where 2: "pop i k1 = Some (b, k2)" "quiet F k1 k2" "kinv F k2"
    by (rule pop_ok [OF 1(3) assms(3) s1])
  let ?a = "Kernel_getPhysAddr (tasks k2 ! i) (sint a)"
  have h: "length (global_heap k2) = 1024" using kinv_wf [OF 2(3)] by (simp add: wf_kernel_def)
  have "safe F k2 (heap_store ?a b k2)" if "0 \<le> ?a" "?a < 1024"
    using that h by (simp add: heap_store_def quiet_lawful)
  moreover have "lawful F k2 (vm_segfault F i (lit ''SegFault: Write Addr '') ?a (put_char FD_STDERR 10) k2)"
    by (rule lawful_segfault [OF assms(2,3)]) simp
  ultimately have "safe F k2 (if 0 \<le> ?a \<and> ?a < 1024 then heap_store ?a b k2
     else Some (vm_segfault F i (lit ''SegFault: Write Addr '') ?a (put_char FD_STDERR 10) k2))"
    by simp
  then show "safe F k (do { (addr, k) \<leftarrow> pop i k; (val, k) \<leftarrow> pop i k;
     let phys_addr = Kernel_getPhysAddr (tasks k ! i) (sint addr);
     if phys_addr \<ge> 0 \<and> phys_addr < 1024 then heap_store phys_addr val k
     else Some (vm_segfault F i (lit ''SegFault: Write Addr '') phys_addr (put_char FD_STDERR 10) k) })"
    using safe_trans [OF quiet_lawful [OF quiet_trans [OF 1(2) 2(2)]]] 1 2 by (simp add: Let_def)
qed

lemma vm_stack_ops_safe:
  assumes "kinv F k" "fs_ok F" "0 < i" "i < 3"
  shows "safe F k (vm_push F i k)" "safe F k (vm_add F i k)" "safe F k (vm_sub F i k)"
    "safe F k (vm_eq F i k)" "safe F k (vm_dup F i k)" "safe F k (vm_pop F i k)"
proof -
  note O = safe_overflow [OF assms(3,4)] and U = safe_underflow [OF assms(3,4)]
  show "safe F k (vm_push F i k)"
    unfolding vm_push_def
    by (rule O, rule safe_fetchInt [OF assms]) (simp add: safe_push assms(4))
  show "safe F k (vm_add F i k)" "safe F k (vm_eq F i k)"
    unfolding vm_add_def vm_eq_def by (rule U, rule safe_binop [OF assms(1,3,4)], simp)+
  show "safe F k (vm_sub F i k)"
    unfolding vm_sub_def by (rule U, rule safe_binop [OF assms(1,3,4), where f = "\<lambda>b a. a - b"], simp)
  show "safe F k (vm_dup F i k)"
    unfolding vm_dup_def
  proof (rule U, rule O)
    assume s: "1 - 1 \<le> sp (tasks k ! i)" "sp (tasks k ! i) < 63"
    have "length (stack (tasks k ! i)) = 64"
      using wf_kernelD(2) [OF kinv_wf [OF assms(1)] assms(4)] by (simp add: wf_task_def)
    then show "safe F k (do { val \<leftarrow> aget (stack (tasks k ! i)) (sp (tasks k ! i)); push i val k })"
      using s safe_push [OF assms(1,4)] by simp
  qed
  show "safe F k (vm_pop F i k)"
    unfolding vm_pop_def
  proof (rule U)
    assume "1 - 1 \<le> sp (tasks k ! i)"
    then have "quiet F k (upd_task i (\<lambda>t. t\<lparr>sp := sp t - 1\<rparr>) k)"
      by (intro quiet_upd_task) (use assms(4) in \<open>auto simp: wf_task_def\<close>)
    then show "safe F k (Some (upd_task i (\<lambda>t. t\<lparr>sp := sp t - 1\<rparr>) k))" by (simp add: quiet_lawful)
  qed
qed

lemma vm_flow_ops_safe:
  assumes "kinv F k" "fs_ok F" "0 < i" "i < 3"
  shows "safe F k (vm_jmp F i k)" "safe F k (vm_jif F i k)"
proof -
  note J = quiet_lawful [OF quiet_Kernel_jump [OF assms(2,4)]]
  show "safe F k (vm_jmp F i k)"
    unfolding vm_jmp_def by (rule safe_fetchInt [OF assms]) (simp add: J)
  show "safe F k (vm_jif F i k)"
    unfolding vm_jif_def
  proof (rule safe_underflow [OF assms(3,4)], rule safe_fetchInt [OF assms])
    fix v k1 assume "1 - 1 \<le> sp (tasks k ! i)" "kinv F k1" "sp (tasks k1 ! i) = sp (tasks k ! i)"
    then show "safe F k1 (do { (condition, k) \<leftarrow> pop i k1;
       Some (if condition \<noteq> 0 then Kernel_jump F i v k else k) })"
      by (intro safe_pop1 [OF _ assms(4)]) (simp_all add: J)
  qed
qed

lemma vm_io_ops_safe:
  fixes F :: "('fs, 'f) fsops" and k :: "('fs, 'f) kernel"
  assumes "kinv F k" "fs_ok F" "0 < i" "i < 3"
  shows "safe F k (vm_print F i fd k)" "safe F k (vm_prtc F i k)" "safe F k (vm_prts F i k)"
    "safe F k (vm_read F i k)" "safe F k (vm_sleep F i k)" "safe F k (vm_exit F i k)"
proof -
  note U = safe_underflow [OF assms(3,4)]
  show "safe F k (vm_print F i fd k)"
    unfolding vm_print_def by (rule U, rule safe_pop1 [OF assms(1,4)])
      (simp_all add: quiet_lawful quiet_trans [OF quiet_put(2) quiet_put(3)])
  show "safe F k (vm_prtc F i k)"
    unfolding vm_prtc_def by (rule U, rule safe_pop1 [OF assms(1,4)]) (simp_all add: quiet_lawful)
  show "safe F k (vm_prts F i k)"
    unfolding vm_prts_def
  proof (rule U, rule safe_pop1 [OF assms(1,4)])
    fix v :: vint and k1 :: "('fs, 'f) kernel"
    obtain tx where "cstr (put_at 0 (prts_chars 127 (Kernel_getPhysAddr (tasks k1 ! i) (sint v)) (global_heap k1) @ [0]) (replicate 128 0)) = Some tx"
      using prts_text by blast
    then show "safe F k1 (let phys_addr = Kernel_getPhysAddr (tasks k1 ! i) (sint v) in
      Option.bind (cstr (put_at 0 (prts_chars 127 phys_addr (global_heap k1) @ [0]) (replicate 128 0)))
        (\<lambda>tx. Some (put_str FD_STDOUT tx k1)))"
      by (simp add: Let_def quiet_lawful)
  qed simp
  show "safe F k (vm_read F i k)"
    unfolding vm_read_def
  proof (rule safe_overflow [OF assms(3,4)])
    assume s: "sp (tasks k ! i) < 63"
    obtain v k1 where r: "Kernel_stdRead FD_STDIN k = (v, k1)" by fastforce
    have q: "quiet F k k1" using quiet_Kernel_stdRead [of F k FD_STDIN] r by simp
    have "tasks k1 = tasks k" using r by (auto simp: Kernel_stdRead_def split: prod.splits)
    then have "safe F k1 (push i (if v \<noteq> - 1 then word_of_int v else 0) k1)"
      using s lawful_kinv [OF quiet_lawful [OF q] assms(1)] assms(4) by (intro safe_push) simp_all
    then show "safe F k (let (val, k) = Kernel_stdRead FD_STDIN k in push i (if val \<noteq> - 1 then word_of_int val else 0) k)"
      using safe_trans [OF quiet_lawful [OF q]] r by simp
  qed
  show "safe F k (vm_sleep F i k)"
    unfolding vm_sleep_def
  proof (rule U, rule safe_pop1 [OF assms(1,4)])
    fix v :: vint and k1 :: "('fs, 'f) kernel"
    have "quiet F k1 (upd_task i (\<lambda>t. t\<lparr>wake_up_time := scast v\<rparr>) k1)"
      by (rule quiet_upd_task) (use assms(4) in auto)
    then show "safe F k1 (Some (Kernel_yield i (upd_task i (\<lambda>t. t\<lparr>wake_up_time := scast v\<rparr>) k1)))"
      using quiet_Kernel_yield [OF assms(4)] by (auto intro: quiet_lawful quiet_trans)
  qed simp
  show "safe F k (vm_exit F i k)"
    using assms(3,4) by (simp add: vm_exit_def lawful_terminate)
qed

lemma vm_exec_safe:
  assumes "kinv F k" "fs_ok F" "0 < i" "i < 3" "states k ! i = - 1" "oc \<noteq> Some OP_SYS"
  shows "safe F k (vm_exec F i oc k)"
proof -
  note ops = vm_stack_ops_safe [OF assms(1-4)] vm_flow_ops_safe [OF assms(1-4)]
    vm_io_ops_safe [OF assms(1-4)] vm_malloc_safe [OF assms(1,3,4)] vm_load_safe [OF assms(1,3,4)]
    vm_store_safe [OF assms(1,3,4)]
  show ?thesis
    using assms(5,6) ops by (cases oc) (simp_all add: vm_exec_def split: VMOpcode.split)
qed

lemma vm_sys_lawful:
  assumes "vm_sys F i k = Some k'" "fs_ok F" "0 < i" "i < 3" "states k ! i = - 1"
  shows "lawful F k k'"
proof (cases "sp (tasks k ! i) < 1 - 1")
  case True
  with assms(1,3,4) show ?thesis
    by (auto simp: vm_sys_def CHECK_STACK_UNDERFLOW_def lawful_abort)
next
  case False
  with assms(1) obtain s k1 where p: "pop i k = Some (s, k1)" "Kernel_systemCall F i s k1 = Some k'"
    by (auto simp: vm_sys_def CHECK_STACK_UNDERFLOW_def bind_eq_Some_conv)
  have q: "quiet F k k1" by (rule quiet_pop [OF p(1) assms(4)])
  then have "states k1 ! i = - 1" using assms(5) by (simp add: quiet_states)
  then have "lawful F k1 k'" by (rule lawful_systemCall [OF p(2) assms(2,4)])
  then show ?thesis using q by (blast intro: lawful_trans quiet_lawful)
qed

text \<open>A step of a running VM task is lawful; it is undefined only inside a system call.\<close>

lemma VM_runStep_lawful:
  assumes "VM_runStep F i k = Some k'" "fs_ok F" "0 < i" "i < 3" "states k ! i = - 1"
  shows "lawful F k k'"
proof (cases "kinv F k")
  case False
  then show ?thesis by (simp add: lawful_def)
next
  case True
  obtain b k1 where 1: "VM_fetchByte F i k = Some (b, k1)" "lawful F k k1" "kinv F k1"
    "states k1 = states k \<or> states k1 ! i = - 2"
    by (rule VM_fetchByte_ok [OF True assms(2-4)])
  have "length (tasks k1) = 3" using 1(3) by (simp add: kinv_def wf_kernel_def)
  then have act: "isActive (tasks k1 ! i) \<longleftrightarrow> states k1 ! i \<noteq> - 2" using assms(4) by (simp add: isActive_def states_def)
  show ?thesis
  proof (cases "isActive (tasks k1 ! i)")
    case False
    with assms(1) 1 show ?thesis by (simp add: VM_runStep_def)
  next
    case active: True
    then have st: "states k1 ! i = - 1" using act 1(4) assms(5) by auto
    have e: "vm_exec F i (map_of opcode_table b) k1 = Some k'"
      using assms(1) 1 active by (simp add: VM_runStep_def)
    have "lawful F k1 k'"
    proof (cases "map_of opcode_table b = Some OP_SYS")
      case True
      with e show ?thesis by (auto simp: vm_exec_def intro: vm_sys_lawful [OF _ assms(2-4) st])
    next
      case False
      from vm_exec_safe [OF 1(3) assms(2-4) st False] e show ?thesis by (simp add: safe_def)
    qed
    with 1(2) show ?thesis by (rule lawful_trans)
  qed
qed

section \<open>The stack machine the interpreter implements\<close>

text \<open>The stack of a task, top first.\<close>

definition stack_of :: "'f task \<Rightarrow> vint list" where
  "stack_of t = rev (take (nat (sp t + 1)) (stack t))"

text \<open>The abstract effect of the pure stack operations; no result when the machine aborts.\<close>

fun stack_op :: "VMOpcode \<Rightarrow> vint list \<Rightarrow> vint list option" where
  "stack_op OP_ADD (a # b # s) = Some ((b + a) # s)"
| "stack_op OP_SUB (b # a # s) = Some ((a - b) # s)"
| "stack_op OP_EQ (a # b # s) = Some ((if a = b then 1 else 0) # s)"
| "stack_op OP_DUP (a # s) = (if length s < 63 then Some (a # a # s) else None)"
| "stack_op OP_POP (a # s) = Some s"
| "stack_op _ s = None"

definition stack_opcodes :: "VMOpcode set" where
  "stack_opcodes = {OP_ADD, OP_SUB, OP_EQ, OP_DUP, OP_POP}"

lemma wf_stack:
  assumes "wf_task i t"
  shows "length (stack t) = 64" "- 1 \<le> sp t" "sp t < 64"
  using assms by (simp_all add: wf_task_def)

lemma stack_of_length: "wf_task i t \<Longrightarrow> length (stack_of t) = nat (sp t + 1)"
  using wf_stack [of i t] by (auto simp: stack_of_def)

lemma stack_of_Cons:
  assumes "wf_task i t" "0 \<le> sp t"
  shows "stack_of t = stack t ! nat (sp t) # stack_of (t\<lparr>sp := sp t - 1\<rparr>)"
proof -
  have "nat (sp t + 1) = Suc (nat (sp t))" using assms(2) by simp
  moreover have "nat (sp t) < length (stack t)" using assms(2) wf_stack [OF assms(1)] by simp
  ultimately show ?thesis by (simp add: stack_of_def take_Suc_conv_app_nth)
qed

lemma stack_of_push:
  assumes "wf_task i t" "sp t < 63"
  shows "stack_of (t\<lparr>sp := sp t + 1, stack := (stack t)[nat (sp t + 1) := v]\<rparr>) = v # stack_of t"
proof -
  have "nat (sp t + 1 + 1) = Suc (nat (sp t + 1))" using wf_stack [OF assms(1)] by simp
  moreover have "nat (sp t + 1) < length (stack t)" using assms(2) wf_stack [OF assms(1)] by simp
  ultimately show ?thesis by (simp add: stack_of_def take_Suc_conv_app_nth)
qed

text \<open>Pushing and popping on the abstract stack; everything else about the task stays.\<close>

definition stack_step :: "nat \<Rightarrow> vint list \<Rightarrow> ('fs, 'f) kernel \<Rightarrow> ('fs, 'f) kernel \<Rightarrow> bool" where
  "stack_step i s k k' \<longleftrightarrow> wf_kernel k' \<and> stack_of (tasks k' ! i) = s \<and>
     (\<exists>p st. k' = upd_task i (\<lambda>t. t\<lparr>sp := p, stack := st\<rparr>) k)"

lemma stack_step_refl:
  assumes "wf_kernel k" "i < 3" "stack_of (tasks k ! i) = s"
  shows "stack_step i s k k"
  unfolding stack_step_def
proof (intro conjI exI [of _ "sp (tasks k ! i)"] exI [of _ "stack (tasks k ! i)"])
  have "(tasks k)[i := (tasks k ! i)\<lparr>sp := sp (tasks k ! i), stack := stack (tasks k ! i)\<rparr>] = tasks k"
    by simp
  then show "k = upd_task i (\<lambda>t. t\<lparr>sp := sp (tasks k ! i), stack := stack (tasks k ! i)\<rparr>) k"
    by (simp add: upd_task_def)
qed (use assms in simp_all)

lemma pop_step:
  assumes "wf_kernel k" "i < 3" "stack_of (tasks k ! i) = v # s"
  shows "\<exists>k'. pop i k = Some (v, k') \<and> stack_step i s k k'"
proof -
  let ?t = "tasks k ! i" let ?k = "upd_task i (\<lambda>t. t\<lparr>sp := sp t - 1\<rparr>) k"
  have t: "wf_task i ?t" "i < length (tasks k)" using assms by (simp_all add: wf_kernel_def)
  have "0 \<le> sp ?t" using stack_of_length [OF t(1)] assms(3) by (cases "sp ?t < 0") auto
  note c = stack_of_Cons [OF t(1) this]
  have p: "pop i k = Some (v, ?k)"
    using c assms(3) t \<open>0 \<le> sp ?t\<close> by (simp add: pop_def wf_task_def)
  have "wf_kernel ?k"
    by (rule wf_kernel_upd_task [OF assms(1) _ assms(2)]) (use \<open>0 \<le> sp ?t\<close> in \<open>auto simp: wf_task_def\<close>)
  moreover have "stack_of (tasks ?k ! i) = s" using c assms(3) t by simp
  moreover have "?k = upd_task i (\<lambda>t. t\<lparr>sp := sp ?t - 1, stack := stack ?t\<rparr>) k"
    by (simp add: upd_task_def)
  ultimately show ?thesis using p unfolding stack_step_def by blast
qed

lemma push_step:
  assumes "wf_kernel k" "i < 3" "length (stack_of (tasks k ! i)) < 64"
  shows "\<exists>k'. push i v k = Some k' \<and> stack_step i (v # stack_of (tasks k ! i)) k k'"
proof -
  let ?t = "tasks k ! i"
  let ?f = "\<lambda>t. t\<lparr>sp := sp ?t + 1, stack := (stack ?t)[nat (sp ?t + 1) := v]\<rparr>"
  have t: "wf_task i ?t" "i < length (tasks k)" using assms by (simp_all add: wf_kernel_def)
  have s: "sp ?t < 63" "- 1 \<le> sp ?t" using stack_of_length [OF t(1)] assms(3) t(1) by (auto simp: wf_task_def)
  have p: "push i v k = Some (upd_task i ?f k)" using t s by (simp add: push_def upd_task_def wf_task_def)
  have "wf_kernel (upd_task i ?f k)"
    by (rule wf_kernel_upd_task [OF assms(1) _ assms(2)]) (use s in \<open>auto simp: wf_task_def\<close>)
  moreover have "stack_of (tasks (upd_task i ?f k) ! i) = v # stack_of ?t"
    using stack_of_push [OF t(1) s(1)] t(2) by simp
  ultimately show ?thesis using p unfolding stack_step_def by blast
qed

lemma stack_step_trans:
  assumes "stack_step i s k k1" "stack_step i s' k1 k2" "i < 3"
  shows "stack_step i s' k k2"
proof -
  obtain p st where 1: "k1 = upd_task i (\<lambda>t. t\<lparr>sp := p, stack := st\<rparr>) k"
    using assms(1) unfolding stack_step_def by blast
  obtain p' st' where 2: "k2 = upd_task i (\<lambda>t. t\<lparr>sp := p', stack := st'\<rparr>) k1"
    using assms(2) unfolding stack_step_def by blast
  have "i < length (tasks k1)" using assms(1,3) by (simp add: stack_step_def wf_kernel_def)
  then have "k2 = upd_task i (\<lambda>t. t\<lparr>sp := p', stack := st'\<rparr>) k"
    by (simp add: 1 2 upd_task_def)
  then show ?thesis using assms(2) unfolding stack_step_def by blast
qed

lemma binop_step:
  assumes "wf_kernel k" "i < 3" "stack_of (tasks k ! i) = a # b # s"
  shows "\<exists>k'. do { (x, k) \<leftarrow> pop i k; (y, k) \<leftarrow> pop i k; push i (f x y) k } = Some k' \<and> stack_step i (f a b # s) k k'"
proof -
  obtain k1 where 1: "pop i k = Some (a, k1)" "stack_step i (b # s) k k1" using pop_step [OF assms] by blast
  then have w1: "wf_kernel k1" "stack_of (tasks k1 ! i) = b # s" by (simp_all add: stack_step_def)
  obtain k2 where 2: "pop i k1 = Some (b, k2)" "stack_step i s k1 k2"
    using pop_step [OF w1(1) assms(2) w1(2)] by blast
  then have w2: "wf_kernel k2" "stack_of (tasks k2 ! i) = s" by (simp_all add: stack_step_def)
  have "wf_task i (tasks k ! i)" using assms(1,2) by (simp add: wf_kernel_def)
  then have "length (a # b # s) \<le> 64" using stack_of_length assms(3) by (fastforce simp: wf_task_def)
  then have "length (stack_of (tasks k2 ! i)) < 64" using w2(2) by simp
  then obtain k3 where 3: "push i (f a b) k2 = Some k3" "stack_step i (f a b # s) k2 k3"
    using push_step [OF w2(1) assms(2)] w2(2) by blast
  show ?thesis
    using 1 2 3 stack_step_trans [OF 1(2) stack_step_trans [OF 2(2) 3(2) assms(2)] assms(2)] by simp
qed

text \<open>C5: the interpreter's ADD, SUB, EQ, DUP and POP implement the abstract operations on a
  stack of 16-bit words, of at most 64 entries: the abstract result is the new stack and nothing but
  the task's stack changes, and where the abstract operation has no result the task is terminated
  with a message.\<close>

theorem vm_stack_refines:
  assumes "wf_kernel k" "i < 3" "oc \<in> stack_opcodes"
  shows "case stack_op oc (stack_of (tasks k ! i)) of
      Some s \<Rightarrow> \<exists>k'. vm_exec F i (Some oc) k = Some k' \<and> stack_step i s k k'
    | None \<Rightarrow> \<exists>msg. vm_exec F i (Some oc) k = Some (Kernel_terminateTask F i (put_str FD_STDERR msg k))"
proof -
  let ?t = "tasks k ! i" let ?s = "stack_of ?t"
  have t: "wf_task i ?t" using assms(1,2) by (simp add: wf_kernel_def)
  have l: "int (length ?s) = sp ?t + 1" using stack_of_length [OF t] t by (simp add: wf_task_def)
  note bin = binop_step [OF assms(1,2)]
  consider (0) "?s = []" | (1) a where "?s = [a]" | (2) a b s where "?s = a # b # s"
    by (metis list.exhaust)
  then show ?thesis
  proof cases
    case 0
    then have "sp ?t = - 1" using l by simp
    then show ?thesis using assms(3) 0
      by (auto simp: stack_opcodes_def vm_exec_def vm_add_def vm_sub_def vm_eq_def vm_dup_def vm_pop_def
          CHECK_STACK_UNDERFLOW_def vm_abort_def)
  next
    case (1 a)
    then have sp: "sp ?t = 0" using l by simp
    have "\<exists>k'. vm_exec F i (Some OP_DUP) k = Some k' \<and> stack_step i [a, a] k k'"
      using push_step [OF assms(1,2), of a] 1 sp t stack_of_Cons [OF t]
      by (simp add: vm_exec_def vm_dup_def CHECK_STACK_UNDERFLOW_def CHECK_STACK_OVERFLOW_def wf_task_def)
    moreover have "\<exists>k'. vm_exec F i (Some OP_POP) k = Some k' \<and> stack_step i [] k k'"
      using pop_step [OF assms(1,2) 1] sp t
      by (auto simp: vm_exec_def vm_pop_def CHECK_STACK_UNDERFLOW_def pop_def wf_task_def)
    ultimately show ?thesis using assms(3) 1 sp
      by (auto simp: stack_opcodes_def vm_exec_def vm_add_def vm_sub_def vm_eq_def
          CHECK_STACK_UNDERFLOW_def vm_abort_def)
  next
    case (2 a b s)
    then have sp: "sp ?t = int (length s) + 1" using l by simp
    have ops: "\<exists>k'. vm_exec F i (Some OP_ADD) k = Some k' \<and> stack_step i ((b + a) # s) k k'"
      "\<exists>k'. vm_exec F i (Some OP_SUB) k = Some k' \<and> stack_step i ((b - a) # s) k k'"
      "\<exists>k'. vm_exec F i (Some OP_EQ) k = Some k' \<and> stack_step i ((if a = b then 1 else 0) # s) k k'"
      using bin [OF 2, of "\<lambda>x y. x + y"] bin [OF 2, of "\<lambda>x y. y - x"] bin [OF 2, of "\<lambda>x y. if x = y then 1 else 0"] sp
      by (simp_all add: vm_exec_def vm_add_def vm_sub_def vm_eq_def CHECK_STACK_UNDERFLOW_def add.commute)
    have "\<exists>k'. vm_exec F i (Some OP_POP) k = Some k' \<and> stack_step i (b # s) k k'"
      using pop_step [OF assms(1,2) 2] sp t
      by (auto simp: vm_exec_def vm_pop_def CHECK_STACK_UNDERFLOW_def pop_def wf_task_def)
    moreover have "\<exists>k'. vm_exec F i (Some OP_DUP) k = Some k' \<and> stack_step i (a # a # b # s) k k'"
      if "length (b # s) < 63"
      using push_step [OF assms(1,2), of a] 2 sp t stack_of_Cons [OF t] that
      by (simp add: vm_exec_def vm_dup_def CHECK_STACK_UNDERFLOW_def CHECK_STACK_OVERFLOW_def wf_task_def)
    moreover have "\<exists>msg. vm_exec F i (Some OP_DUP) k = Some (Kernel_terminateTask F i (put_str FD_STDERR msg k))"
      if "\<not> length (b # s) < 63"
      using sp that by (auto simp: vm_exec_def vm_dup_def CHECK_STACK_UNDERFLOW_def CHECK_STACK_OVERFLOW_def vm_abort_def)
    ultimately show ?thesis using assms(3) 2 ops by (auto simp: stack_opcodes_def)
  qed
qed

theorem vm_stack_refines_witness:
  "\<exists>k'. vm_exec (memfs []) 1 (Some OP_SUB)
      (upd_task 1 (\<lambda>t. t\<lparr>sp := 1, stack := [7, 9] @ replicate 62 0\<rparr>) (demo_run [])) = Some k' \<and>
    stack_of (tasks k' ! 1) = [- 2]"
proof -
  let ?k = "upd_task 1 (\<lambda>t. t\<lparr>sp := 1, stack := [7, 9] @ replicate 62 0\<rparr>) (demo_run [])"
  have w: "wf_kernel ?k" by (rule wf_kernel_upd_task [OF demo_wf]) (auto simp: wf_task_def)
  have "stack_of (tasks ?k ! 1) = [9, 7]" by (simp add: stack_of_def demo_kernel_def numeral_2_eq_2)
  then show ?thesis
    using vm_stack_refines [OF w, of 1 OP_SUB "memfs []"] by (auto simp: stack_opcodes_def stack_step_def)
qed

text \<open>C28: a step of a running VM task whose opcode is not a system call is always defined,
  for any code bytes, any stack and any heap contents: no array access is out of bounds and the
  kernel invariant is kept.\<close>

theorem vm_step_defined:
  assumes "kinv F k" "fs_ok F" "0 < i" "i < 3" "states k ! i = - 1"
    and "VM_fetchByte F i k = Some (b, k1)" "map_of opcode_table b \<noteq> Some OP_SYS"
  shows "\<exists>k'. VM_runStep F i k = Some k' \<and> kinv F k'"
proof -
  obtain b' k2 where "VM_fetchByte F i k = Some (b', k2)" "lawful F k k2" "kinv F k2"
    "states k2 = states k \<or> states k2 ! i = - 2"
    by (rule VM_fetchByte_ok [OF assms(1-4)])
  then have 1: "lawful F k k1" "kinv F k1" "states k1 = states k \<or> states k1 ! i = - 2"
    using assms(6) by auto
  have "length (tasks k1) = 3" using 1(2) by (simp add: kinv_def wf_kernel_def)
  then have act: "isActive (tasks k1 ! i) \<longleftrightarrow> states k1 ! i \<noteq> - 2" using assms(4) by (simp add: isActive_def states_def)
  show ?thesis
  proof (cases "isActive (tasks k1 ! i)")
    case False
    with assms(6) 1 show ?thesis by (simp add: VM_runStep_def)
  next
    case True
    then have "states k1 ! i = - 1" using act 1(3) assms(5) by auto
    from vm_exec_safe [OF 1(2) assms(2-4) this assms(7)] obtain k'
      where k': "vm_exec F i (map_of opcode_table b) k1 = Some k'" "lawful F k1 k'" unfolding safe_def by blast
    then show ?thesis using assms(6) True lawful_kinv [OF k'(2) 1(2)] by (simp add: VM_runStep_def)
  qed
qed

theorem vm_step_defined_witness:
  "\<exists>k'. VM_runStep (memfs []) 1 (demo_run [0x10, 7, 0]) = Some k' \<and> kinv (memfs []) k'"
proof -
  let ?k = "demo_run [0x10, 7, 0]"
  have K: "kinv (memfs []) ?k" by (rule demo_kinv) simp_all
  obtain k1 where f: "VM_fetchByte (memfs []) 1 ?k = Some (0x10, k1)"
    by (simp add: VM_fetchByte_def demo_kernel_def demo_task_def Let_def)
  show ?thesis
    by (rule vm_step_defined [OF K memfs_ok _ _ _ f])
      (simp_all add: states_def demo_kernel_def demo_task_def opcode_table_def)
qed

text \<open>The address a load or store uses, in and outside the task's segment.\<close>

lemma pop_upd:
  assumes "pop i k = Some (v, k')"
  shows "global_heap k' = global_heap k" "heap_base (tasks k' ! i) = heap_base (tasks k ! i)"
    "heap_limit (tasks k' ! i) = heap_limit (tasks k ! i)" "sp (tasks k ! i) \<ge> 0"
  using assms by (cases "i < length (tasks k)"; auto simp: pop_def bind_eq_Some_conv list_update_beyond)+

theorem vm_store_address:
  assumes "wf_kernel k" "i < 3" "1 \<le> sp (tasks k ! i)"
    and "stack_of (tasks k ! i) = a # v # s" "0 \<le> sint a" "sint a < 1024"
    and "p = (if sint a < heap_limit (tasks k ! i) then heap_base (tasks k ! i) + sint a else sint a)"
  shows "\<exists>k'. vm_store F i k = Some k' \<and> global_heap k' = (global_heap k)[nat p := v] \<and>
    stack_of (tasks k' ! i) = s \<and> states k' = states k"
proof -
  obtain k1 where 1: "pop i k = Some (a, k1)" "stack_step i (v # s) k k1" using pop_step [OF assms(1,2,4)] by blast
  then have w1: "wf_kernel k1" "stack_of (tasks k1 ! i) = v # s" by (simp_all add: stack_step_def)
  obtain k2 where 2: "pop i k1 = Some (v, k2)" "stack_step i s k1 k2"
    using pop_step [OF w1(1) assms(2) w1(2)] by blast
  have k2: "global_heap k2 = global_heap k" "heap_base (tasks k2 ! i) = heap_base (tasks k ! i)"
    "heap_limit (tasks k2 ! i) = heap_limit (tasks k ! i)" "states k2 = states k"
    "stack_of (tasks k2 ! i) = s"
    using pop_upd [OF 1(1)] pop_upd [OF 2(1)] 2(2) quiet_pop [OF 1(1) assms(2)] quiet_pop [OF 2(1) assms(2)]
    by (simp_all add: stack_step_def quiet_def)
  have t: "wf_task i (tasks k ! i)" using assms(1,2) by (simp add: wf_kernel_def)
  have p: "Kernel_getPhysAddr (tasks k2 ! i) (sint a) = p" using assms(5,7) k2 by (simp add: Kernel_getPhysAddr_def)
  have "0 \<le> p" "p < 1024" using assms(5-7) t by (auto simp: wf_task_def)
  moreover have "length (global_heap k) = 1024" using assms(1) by (simp add: wf_kernel_def)
  ultimately show ?thesis
    using assms(3) 1(1) 2(1) k2 p
    by (simp add: vm_store_def CHECK_STACK_UNDERFLOW_def heap_store_def states_def)
qed

theorem vm_store_address_witness:
  "\<exists>k'. vm_store (memfs []) 1 (upd_task 1 (\<lambda>t. t\<lparr>sp := 1, stack := [5, 300] @ replicate 62 0,
       heap_base := 128, heap_limit := 64\<rparr>) (demo_run [])) = Some k' \<and> global_heap k' ! 300 = 5"
proof -
  let ?k = "upd_task 1 (\<lambda>t. t\<lparr>sp := 1, stack := [5, 300] @ replicate 62 0, heap_base := 128, heap_limit := 64\<rparr>) (demo_run [])"
  have w: "wf_kernel ?k" by (rule wf_kernel_upd_task [OF demo_wf]) (auto simp: wf_task_def)
  have s: "stack_of (tasks ?k ! 1) = [300, 5]" by (simp add: stack_of_def demo_kernel_def numeral_2_eq_2)
  have "\<exists>k'. vm_store (memfs []) 1 ?k = Some k' \<and> global_heap k' = (global_heap ?k)[nat 300 := 5] \<and>
    stack_of (tasks k' ! 1) = [] \<and> states k' = states ?k"
    by (rule vm_store_address [OF w _ _ s]) (simp_all add: demo_kernel_def)
  then show ?thesis by (auto simp: demo_kernel_def)
qed

theorem vm_sleep_sets_alarm:
  assumes "wf_kernel k" "i < 3" "stack_of (tasks k ! i) = ms # s"
  shows "\<exists>k'. vm_sleep F i k = Some k' \<and> stack_of (tasks k' ! i) = s \<and>
    wake_up_time (tasks k' ! i) = system_ticks k + scast ms \<and> states k' = states k"
proof -
  obtain k1 where 1: "pop i k = Some (ms, k1)" "stack_step i s k k1" using pop_step [OF assms] by blast
  have t: "i < length (tasks k1)" using 1(2) assms(2) by (simp add: stack_step_def wf_kernel_def)
  have e: "states k1 = states k" "system_ticks k1 = system_ticks k" "sp (tasks k ! i) \<ge> 0"
    using quiet_pop [OF 1(1) assms(2)] pop_upd [OF 1(1)] 1(1)
    by (auto simp: quiet_def pop_def bind_eq_Some_conv)
  let ?k = "Kernel_yield i (upd_task i (\<lambda>t. t\<lparr>wake_up_time := scast ms\<rparr>) k1)"
  have "vm_sleep F i k = Some ?k" using 1(1) e(3) by (simp add: vm_sleep_def CHECK_STACK_UNDERFLOW_def)
  moreover have "stack_of (tasks ?k ! i) = s" "wake_up_time (tasks ?k ! i) = system_ticks k + scast ms"
    using 1(2) t e(2) by (simp_all add: Kernel_yield_def stack_step_def stack_of_def)
  moreover have "states ?k = states k" using e(1) by (simp add: Kernel_yield_def del: upd_task_frame)
  ultimately show ?thesis by blast
qed

theorem vm_sleep_sets_alarm_witness:
  "\<exists>k'. vm_sleep (memfs []) 1 ((upd_task 1 (\<lambda>t. t\<lparr>sp := 0, stack := 100 # replicate 63 0\<rparr>) (demo_run []))\<lparr>system_ticks := - 100\<rparr>) = Some k' \<and>
    wake_up_time (tasks k' ! 1) = 0"
proof -
  let ?k = "(upd_task 1 (\<lambda>t. t\<lparr>sp := 0, stack := 100 # replicate 63 0\<rparr>) (demo_run []))\<lparr>system_ticks := - 100\<rparr>"
  have w: "wf_kernel ?k" unfolding wf_kernel_ticks
    by (rule wf_kernel_upd_task [OF demo_wf]) (auto simp: wf_task_def)
  have s: "stack_of (tasks ?k ! 1) = [100]" by (simp add: stack_of_def demo_kernel_def)
  show ?thesis using vm_sleep_sets_alarm [OF w _ s, of "memfs []"] by auto
qed

end
