(* ===== verification/Communication.thy ===== *)
theory Communication
  imports Syscalls
begin

text \<open>
  The communication daemon of \<open>src/Communication.cpp\<close>: it takes packets from the HAL, places their
  payload in the heap segment of task \<open>i\<close> (task 0), pushes the arguments and issues the system call on
  behalf of that task, then sends the result. \<open>Comm_init\<close> is in theory \<open>Kernel\<close>.
\<close>

section \<open>Heap helpers\<close>

text \<open>The copy loop with \<open>n\<close> characters left; \<open>over\<close> is what the loop does before it breaks at the end
  of the heap.\<close>

fun comm_copy ::
    "(('fs, 'f) kernel \<Rightarrow> ('fs, 'f) kernel) \<Rightarrow> int \<Rightarrow> byte list \<Rightarrow> nat \<Rightarrow> nat \<Rightarrow> ('fs, 'f) kernel
     \<Rightarrow> ('fs, 'f) kernel option" where
  "comm_copy over base data off 0 k = Some k"
| "comm_copy over base data off (Suc n) k =
     (if base \<ge> 1024 then Some (over k)
      else do {
        d \<leftarrow> aget data (int off);
        k \<leftarrow> heap_store base (ucast d) k;
        comm_copy over (base + 1) data (Suc off) n k })"

text \<open>Copy and terminate: \<open>n\<close> characters of \<open>data\<close> from offset \<open>off\<close>.\<close>

definition comm_string ::
    "(('fs, 'f) kernel \<Rightarrow> ('fs, 'f) kernel) \<Rightarrow> int \<Rightarrow> byte list \<Rightarrow> nat \<Rightarrow> nat \<Rightarrow> ('fs, 'f) kernel
     \<Rightarrow> ('fs, 'f) kernel option" where
  "comm_string over base data off n k = do {
     k \<leftarrow> comm_copy over base data off n k;
     if base + int n < 1024 then heap_store (base + int n) 0 k else Some k }"

definition Comm_copyToHeap ::
    "nat \<Rightarrow> byte list \<Rightarrow> nat \<Rightarrow> ('fs, 'f) kernel \<Rightarrow> (int \<times> ('fs, 'f) kernel) option" where
  "Comm_copyToHeap i data len k =
     (let t = tasks k ! i in
      if heap_base t = - 1 then Some (- 1, k)
      else let max_len = int16 (heap_limit t * 2);
               len = (if int16 (int len) \<ge> max_len - 1 then nat ((max_len - 2) mod 2 ^ 32) else len)
           in do {
             k \<leftarrow> comm_string (put_str FD_STDERR (lit ''[DEBUG] Error: Comm_copyToHeap Overflow!'' @ [10]))
                    (heap_base t + 1) data 0 len k;
             Some (1, k) })"

definition Comm_sendHeapString ::
    "nat \<Rightarrow> int \<Rightarrow> int \<Rightarrow> ('fs, 'f) kernel \<Rightarrow> ('fs, 'f) kernel option" where
  "Comm_sendHeapString i offset max_len k =
     (let t = tasks k ! i in
      if heap_base t = - 1 then Some k
      else do {
        buf \<leftarrow> heap_chars [] (nat (min max_len 127)) (heap_base t + offset) (global_heap k);
        Some (if buf \<noteq> [] then put_str FD_STDOUT (takeWhile (\<lambda>c. c \<noteq> 0) buf) k else k) })"

section \<open>The requests\<close>

text \<open>\<open>if (t->heap_base != -1 && global_heap[t->heap_base + offset] == -1)\<close>\<close>

definition comm_failed :: "nat \<Rightarrow> int \<Rightarrow> ('fs, 'f) kernel \<Rightarrow> bool option" where
  "comm_failed i offset k =
     (if heap_base (tasks k ! i) = - 1 then Some False
      else map_option (\<lambda>v. v = - 1) (aget (global_heap k) (heap_base (tasks k ! i) + offset)))"

definition set_args :: "nat \<Rightarrow> nat \<Rightarrow> ('fs, 'f) kernel \<Rightarrow> ('fs, 'f) kernel" where
  "set_args i len k =
     upd_task i (\<lambda>t. t\<lparr>args := put_at 0 (take len (rx_buffer k) @ [0]) (args t)\<rparr>) k"

definition comm_ls :: "('fs, 'f) fsops \<Rightarrow> nat \<Rightarrow> nat \<Rightarrow> ('fs, 'f) kernel \<Rightarrow> ('fs, 'f) kernel option" where
  "comm_ls F i payload_len k = do {
     let (selector, k) = (if payload_len > 0 then (1, set_args i (min payload_len 31) k) else (0, k));
     k \<leftarrow> push i 0 k;
     k \<leftarrow> push i 128 k;
     k \<leftarrow> push i selector k;
     k \<leftarrow> Kernel_systemCall F i SYS_LS k;
     failed \<leftarrow> comm_failed i 0 k;
     if failed then Some (put_str FD_STDERR (lit ''Error: ls failed (Invalid directory)'' @ [10]) k)
     else Comm_sendHeapString i 0 128 k }"

fun index_of :: "byte \<Rightarrow> byte list \<Rightarrow> nat option" where
  "index_of c [] = None"
| "index_of c (x # xs) = (if x = c then Some 0 else map_option Suc (index_of c xs))"

text \<open>The payload \<open>wait command arguments\<close> into the heap: the wait option and the argument address.\<close>

definition comm_exec_args ::
    "nat \<Rightarrow> nat \<Rightarrow> ('fs, 'f) kernel \<Rightarrow> (vint \<times> vint \<times> ('fs, 'f) kernel) option" where
  "comm_exec_args i payload_len k =
     (let payload = take payload_len (rx_buffer k); base = heap_base (tasks k ! i) in
      case index_of 32 payload of
        None \<Rightarrow> do { (_, k) \<leftarrow> Comm_copyToHeap i (rx_buffer k) payload_len k; Some (0, 0, k) }
      | Some first_space \<Rightarrow>
          let wait_opt = (if rx_buffer k ! 0 = 49 then 1 else 0) in
          (case index_of 32 (drop (first_space + 1) payload) of
             None \<Rightarrow>
               let cmd_len = payload_len - (first_space + 1)
               in do {
                 k \<leftarrow> (if cmd_len > 0 \<and> base \<noteq> - 1
                      then comm_string id (base + 1) (rx_buffer k) (first_space + 1) cmd_len k else Some k);
                 Some (wait_opt, 0, k) }
           | Some d \<Rightarrow>
               let second_space = first_space + 1 + d;
                   cmd_len = second_space - (first_space + 1);
                   arg_len = payload_len - (second_space + 1)
               in do {
                 k \<leftarrow> (if cmd_len > 0 \<and> base \<noteq> - 1
                      then comm_string id (base + 1) (rx_buffer k) (first_space + 1) cmd_len k else Some k);
                 if arg_len > 0 \<and> base \<noteq> - 1
                 then do {
                   k \<leftarrow> comm_string id (base + 64) (rx_buffer k) (second_space + 1) arg_len k;
                   Some (wait_opt, 64, k) }
                 else Some (wait_opt, 0, k) }))"

definition comm_exec :: "('fs, 'f) fsops \<Rightarrow> nat \<Rightarrow> nat \<Rightarrow> ('fs, 'f) kernel \<Rightarrow> ('fs, 'f) kernel option" where
  "comm_exec F i payload_len k = do {
     (wait_opt, arg_addr, k) \<leftarrow> comm_exec_args i payload_len k;
     k \<leftarrow> push i arg_addr k;
     k \<leftarrow> push i 1 k;
     k \<leftarrow> push i wait_opt k;
     k \<leftarrow> Kernel_systemCall F i SYS_EXEC k;
     Some (put_str FD_STDOUT (lit ''Exec started.'' @ [10]) k) }"

definition comm_send_cwd :: "nat \<Rightarrow> ('fs, 'f) kernel \<Rightarrow> ('fs, 'f) kernel option" where
  "comm_send_cwd i k = do {
     c \<leftarrow> cstr (cwd (tasks k ! i));
     Some (put_str FD_STDOUT [10] (put_str FD_STDOUT c k)) }"

definition comm_chdir :: "('fs, 'f) fsops \<Rightarrow> nat \<Rightarrow> int \<Rightarrow> ('fs, 'f) kernel \<Rightarrow> ('fs, 'f) kernel option" where
  "comm_chdir F i heap_data_addr k = do {
     k \<leftarrow> push i 64 k;
     k \<leftarrow> push i (word_of_int heap_data_addr) k;
     k \<leftarrow> Kernel_systemCall F i SYS_CHDIR k;
     failed \<leftarrow> comm_failed i 64 k;
     if failed then Some (put_str FD_STDERR (lit ''Error: Invalid directory'' @ [10]) k)
     else comm_send_cwd i k }"

definition comm_getcwd :: "('fs, 'f) fsops \<Rightarrow> nat \<Rightarrow> ('fs, 'f) kernel \<Rightarrow> ('fs, 'f) kernel option" where
  "comm_getcwd F i k = do {
     k \<leftarrow> push i 0 k;
     k \<leftarrow> Kernel_systemCall F i SYS_GETCWD k;
     comm_send_cwd i k }"

text \<open>The payload at virtual address 1 of the daemon, its stack emptied.\<close>

definition comm_prepare :: "nat \<Rightarrow> nat \<Rightarrow> ('fs, 'f) kernel \<Rightarrow> (int \<times> ('fs, 'f) kernel) option" where
  "comm_prepare i payload_len k = do {
     (addr, k) \<leftarrow> (if payload_len > 0 then Comm_copyToHeap i (rx_buffer k) payload_len k
        else do {
          k \<leftarrow> (if heap_base (tasks k ! i) \<noteq> - 1 then heap_store (heap_base (tasks k ! i) + 1) 0 k else Some k);
          Some (1, k) });
     Some (addr, upd_task i (\<lambda>t. t\<lparr>sp := - 1\<rparr>) k) }"

definition comm_dispatch ::
    "('fs, 'f) fsops \<Rightarrow> nat \<Rightarrow> vint \<Rightarrow> nat \<Rightarrow> ('fs, 'f) kernel \<Rightarrow> ('fs, 'f) kernel option" where
  "comm_dispatch F i cmd_id payload_len k = do {
     (heap_data_addr, k) \<leftarrow> comm_prepare i payload_len k;
     if cmd_id = SYS_LS then comm_ls F i payload_len k
     else if cmd_id = SYS_EXEC then comm_exec F i payload_len k
     else if cmd_id = SYS_CHDIR then comm_chdir F i heap_data_addr k
     else if cmd_id = SYS_GETCWD then comm_getcwd F i k
     else Some k }"

definition Comm_process :: "('fs, 'f) fsops \<Rightarrow> nat \<Rightarrow> ('fs, 'f) kernel \<Rightarrow> ('fs, 'f) kernel option" where
  "Comm_process F i k =
     (let (payload_len, cmd_id, rx, h) = HAL_readPacket 0 (rx_buffer k) 256 (khal k);
          k = k\<lparr>rx_buffer := rx, khal := h\<rparr>
      in if payload_len \<ge> 0 \<and> cmd_id < 100 then comm_dispatch F i cmd_id (nat payload_len) k
         else Some k)"

section \<open>Lawfulness\<close>

lemma quiet_comm_copy:
  assumes "comm_copy over base data off n k = Some k'" "\<And>k. quiet F k (over k)"
  shows "quiet F k k'"
  using assms(1)
proof (induction n arbitrary: base off k)
  case (Suc n)
  then show ?case
    using assms(2) by (auto simp: bind_eq_Some_conv split: if_splits intro: quiet_trans [OF quiet_heap_store])
qed simp

lemma quiet_comm_string:
  assumes "comm_string over base data off n k = Some k'" "\<And>k. quiet F k (over k)"
  shows "quiet F k k'"
  using assms(1) quiet_comm_copy [of over base data off n k _ F, OF _ assms(2)]
  by (auto simp: comm_string_def bind_eq_Some_conv split: if_splits intro: quiet_trans quiet_heap_store)

lemma quiet_copyToHeap: "Comm_copyToHeap i data len k = Some (a, k') \<Longrightarrow> quiet F k k'"
  by (auto simp: Comm_copyToHeap_def Let_def bind_eq_Some_conv intro: quiet_comm_string split: if_split_asm)

lemma quiet_sendHeapString: "Comm_sendHeapString i off n k = Some k' \<Longrightarrow> quiet F k k'"
  by (auto simp: Comm_sendHeapString_def Let_def bind_eq_Some_conv split: if_splits)

lemma quiet_set_args:
  assumes "i < 3" "len \<le> 31" "length (rx_buffer k) = 256"
  shows "quiet F k (set_args i len k)"
  unfolding set_args_def
  by (rule quiet_upd_task) (use assms in \<open>auto simp: wf_task_def nth_put_at nth_append\<close>)

lemma quiet_send_cwd: "comm_send_cwd i k = Some k' \<Longrightarrow> quiet F k k'"
  by (auto simp: comm_send_cwd_def bind_eq_Some_conv intro: quiet_trans [OF quiet_put(1) quiet_put(1)])

lemma quiet_rx: "length rb = 256 \<Longrightarrow> wf_hal h \<Longrightarrow> quiet F k (k\<lparr>rx_buffer := rb, khal := h\<rparr>)"
  by (simp add: quiet_def same_heap_def daemon_closed_def wf_kernel_def)

lemma quiet_comm_prepare:
  assumes "comm_prepare i n k = Some (a, k')" "i < 3"
  shows "quiet F k k'"
proof -
  from assms(1) obtain k1 where k1: "(if n > 0 then Comm_copyToHeap i (rx_buffer k) n k
        else do {
          k \<leftarrow> (if heap_base (tasks k ! i) \<noteq> - 1 then heap_store (heap_base (tasks k ! i) + 1) 0 k else Some k);
          Some (1, k) }) = Some (a, k1)" and k': "k' = upd_task i (\<lambda>t. t\<lparr>sp := - 1\<rparr>) k1"
    by (auto simp: comm_prepare_def bind_eq_Some_conv)
  have "quiet F k k1"
    using k1 by (auto simp: bind_eq_Some_conv quiet_copyToHeap quiet_heap_store split: if_splits)
  moreover have "quiet F k1 k'"
    unfolding k' by (rule quiet_upd_task) (use assms(2) in \<open>auto simp: wf_task_def\<close>)
  ultimately show ?thesis by (rule quiet_trans)
qed

lemma quiet_exec_args:
  assumes "comm_exec_args i n k = Some (w, a, k')"
  shows "quiet F k k'"
proof -
  have s: "quiet F k1 k2" if "comm_string id b d off m k1 = Some k2" for b d off m and k1 k2 :: "('a, 'b) kernel"
    using quiet_comm_string [OF that, of F] by simp
  show ?thesis
    using assms
    by (auto simp: comm_exec_args_def Let_def bind_eq_Some_conv quiet_copyToHeap s
        split: option.split_asm if_split_asm intro: quiet_trans s)
qed

lemma quiet_push3:
  assumes "push i a k = Some k1" "push i b k1 = Some k2" "push i c k2 = Some k3" "i < 3"
  shows "quiet F k k3"
  using assms by (blast intro: quiet_trans quiet_push)

lemma lawful_call_then:
  assumes "quiet F k k1" "Kernel_systemCall F i s k1 = Some k2" "quiet F k2 k3" "fs_ok F" "i < 3" "states k ! i = - 1"
  shows "lawful F k k3"
proof -
  have "states k1 ! i = - 1" using assms(1,6) by (simp add: quiet_states)
  then have "lawful F k1 k2" by (rule lawful_systemCall [OF assms(2,4,5)])
  then show ?thesis using assms(1,3) by (blast intro: lawful_trans quiet_lawful)
qed

lemma lawful_comm_ls:
  assumes "comm_ls F i n k = Some k'" "fs_ok F" "i < 3" "states k ! i = - 1" "length (rx_buffer k) = 256"
  shows "lawful F k k'"
proof -
  define s0 where "s0 = (if n > 0 then (1, set_args i (min n 31) k) else (0 :: vint, k))"
  have q0: "quiet F k (snd s0)" using quiet_set_args [OF assms(3) _ assms(5)] by (simp add: s0_def)
  from assms(1) obtain k1 k2 k3 k4 b where p: "push i 0 (snd s0) = Some k1" "push i 128 k1 = Some k2"
    "push i (fst s0) k2 = Some k3" and c: "Kernel_systemCall F i SYS_LS k3 = Some k4" "comm_failed i 0 k4 = Some b"
    "(if b then Some (put_str FD_STDERR (lit ''Error: ls failed (Invalid directory)'' @ [10]) k4)
     else Comm_sendHeapString i 0 128 k4) = Some k'"
    unfolding comm_ls_def s0_def [symmetric] by (auto simp: bind_eq_Some_conv case_prod_unfold)
  have "quiet F k4 k'" using c(3) by (auto split: if_splits intro: quiet_sendHeapString)
  from lawful_call_then [OF quiet_trans [OF q0 quiet_push3 [OF p assms(3)]] c(1) this assms(2-4)]
  show ?thesis .
qed

lemma lawful_comm_exec:
  assumes "comm_exec F i n k = Some k'" "fs_ok F" "i < 3" "states k ! i = - 1"
  shows "lawful F k k'"
proof -
  from assms(1) obtain w a k0 k1 k2 k3 k4 where e: "comm_exec_args i n k = Some (w, a, k0)"
    and p: "push i a k0 = Some k1" "push i 1 k1 = Some k2" "push i w k2 = Some k3"
    and c: "Kernel_systemCall F i SYS_EXEC k3 = Some k4" "k' = put_str FD_STDOUT (lit ''Exec started.'' @ [10]) k4"
    by (auto simp: comm_exec_def bind_eq_Some_conv)
  have "quiet F k4 k'" using c(2) by simp
  from lawful_call_then [OF quiet_trans [OF quiet_exec_args [OF e] quiet_push3 [OF p assms(3)]] c(1) this assms(2-4)]
  show ?thesis .
qed

lemma lawful_comm_chdir:
  assumes "comm_chdir F i a k = Some k'" "fs_ok F" "i < 3" "states k ! i = - 1"
  shows "lawful F k k'"
proof -
  from assms(1) obtain k1 k2 k4 b where p: "push i 64 k = Some k1" "push i (word_of_int a) k1 = Some k2"
    and c: "Kernel_systemCall F i SYS_CHDIR k2 = Some k4" "comm_failed i 64 k4 = Some b"
    "(if b then Some (put_str FD_STDERR (lit ''Error: Invalid directory'' @ [10]) k4)
     else comm_send_cwd i k4) = Some k'"
    by (auto simp: comm_chdir_def bind_eq_Some_conv)
  have "quiet F k4 k'" using c(3) by (auto split: if_splits intro: quiet_send_cwd)
  moreover have "quiet F k k2" using p assms(3) by (blast intro: quiet_trans quiet_push)
  ultimately show ?thesis using lawful_call_then [OF _ c(1) _ assms(2-4)] by blast
qed

lemma lawful_comm_getcwd:
  assumes "comm_getcwd F i k = Some k'" "fs_ok F" "i < 3" "states k ! i = - 1"
  shows "lawful F k k'"
proof -
  from assms(1) obtain k1 k2 where "push i 0 k = Some k1"
    "Kernel_systemCall F i SYS_GETCWD k1 = Some k2" "comm_send_cwd i k2 = Some k'"
    by (auto simp: comm_getcwd_def bind_eq_Some_conv)
  then show ?thesis
    using lawful_call_then [OF quiet_push _ quiet_send_cwd assms(2-4)] assms(3) by blast
qed

lemma Comm_process_lawful:
  assumes "Comm_process F i k = Some k'" "fs_ok F" "i < 3" "states k ! i = - 1"
  shows "lawful F k k'"
proof (cases "kinv F k")
  case False
  then show ?thesis by (simp add: lawful_def)
next
  case True
  then have w: "length (rx_buffer k) = 256" "wf_hal (khal k)" by (simp_all add: kinv_def wf_kernel_def)
  obtain l c rx h where r: "HAL_readPacket 0 (rx_buffer k) 256 (khal k) = (l, c, rx, h)"
    by (metis prod_cases4)
  have h: "wf_hal h" by (rule wf_HAL_readPacket [OF w(2) r])
  have pl: "length (hal_pkt_payload (process_serial (khal k))) = 256"
    using wf_process_serial [OF w(2)] by (simp add: wf_hal_def)
  have lrx: "length rx = 256"
    using r w(1) pl by (auto simp: HAL_readPacket_def Let_def split: if_split_asm)
  let ?k1 = "k\<lparr>rx_buffer := rx, khal := h\<rparr>"
  have q1: "quiet F k ?k1" by (rule quiet_rx [OF lrx h])
  show ?thesis
  proof (cases "0 \<le> l \<and> c < 100")
    case False
    then have "k' = ?k1" using assms(1) r by (auto simp: Comm_process_def)
    with q1 show ?thesis by (simp add: quiet_lawful)
  next
    case True
    then obtain a k2 where p: "comm_prepare i (nat l) ?k1 = Some (a, k2)"
      and d: "(if c = SYS_LS then comm_ls F i (nat l) k2
       else if c = SYS_EXEC then comm_exec F i (nat l) k2
       else if c = SYS_CHDIR then comm_chdir F i a k2
       else if c = SYS_GETCWD then comm_getcwd F i k2 else Some k2) = Some k'"
      using assms(1) r by (auto simp: Comm_process_def comm_dispatch_def bind_eq_Some_conv)
    have q2: "quiet F k k2" using q1 quiet_comm_prepare [OF p assms(3)] by (rule quiet_trans)
    have st: "states k2 ! i = - 1" using q2 assms(4) by (simp add: quiet_states)
    have w2: "length (rx_buffer k2) = 256"
      using lawful_kinv [OF quiet_lawful [OF q2] \<open>kinv F k\<close>] by (simp add: kinv_def wf_kernel_def)
    have "lawful F k2 k'"
      using d lawful_comm_ls [OF _ assms(2,3) st w2] lawful_comm_exec [OF _ assms(2,3) st]
        lawful_comm_chdir [OF _ assms(2,3) st] lawful_comm_getcwd [OF _ assms(2,3) st]
      by (auto split: if_splits)
    with q2 show ?thesis by (blast intro: lawful_trans quiet_lawful)
  qed
qed

section \<open>What the daemon answers\<close>

theorem daemon_ignores_other_commands:
  assumes "sp_args_ok fr pt uf" "100 \<le> uf" "length pl \<le> 244" "wf_kernel k"
    and "\<not> hal_pkt_ready (khal k)" "hal_raw_index (khal k) = 0"
    and "serial_in (khal k) = sp_packet pl fr pt uf @ rest"
  shows "\<exists>h rx. Comm_process F i k = Some (k\<lparr>rx_buffer := rx, khal := h\<rparr>) \<and>
    serial_in h = rest \<and> serial_out h = serial_out (khal k) \<and> \<not> hal_pkt_ready h"
proof -
  have "wf_hal (khal k)" using assms(4) by (simp add: wf_kernel_def)
  from readPacket_receives [OF assms(1,3) this assms(5-7), of 0 "rx_buffer k"] obtain h po where
    "HAL_readPacket 0 (rx_buffer k) 256 (khal k) = (int (length pl), uf, po, h)"
    "\<not> hal_pkt_ready h" "serial_in h = rest" "serial_out h = serial_out (process_serial (khal k))" by auto
  moreover have "(uf < 100) = False" using assms(2) by (simp add: not_less)
  ultimately show ?thesis using process_serial_out [of "khal k"]
    by (intro exI [of _ h] exI [of _ po]) (simp add: Comm_process_def Let_def)
qed

theorem daemon_answers_getcwd:
  assumes "fr = SP_FRAGED \<or> fr = SP_UNFRAGED" "pt \<le> 0x0F" "wf_kernel k" "i < 3"
    and "heap_base (tasks k ! i) = - 1 \<or> 2 \<le> heap_limit (tasks k ! i)"
    and "\<not> hal_pkt_ready (khal k)" "hal_raw_index (khal k) = 0"
    and "serial_in (khal k) = sp_packet [] fr pt SYS_GETCWD @ rest"
    and "cstr (cwd (tasks k ! i)) = Some c"
  shows "\<exists>k'. Comm_process F i k = Some k' \<and> serial_in (khal k') = rest \<and>
    serial_out (khal k') = serial_out (khal k) @ text_packet CMD_STDOUT c @ text_packet CMD_STDOUT [10]"
proof -
  have w: "wf_hal (khal k)" "length (global_heap k) = 1024" "wf_task i (tasks k ! i)" "length (tasks k) = 3"
    using assms(3,4) by (simp_all add: wf_kernel_def)
  have a: "sp_args_ok fr pt SYS_GETCWD" using assms(1,2) by (simp add: sp_args_ok_def)
  obtain h' where h': "HAL_readPacket 0 (rx_buffer k) 256 (khal k) = (0, SYS_GETCWD, rx_buffer k, h')"
    "serial_in h' = rest" "serial_out h' = serial_out (khal k)" "wf_hal h'"
    using readPacket_receives [OF a _ w(1) assms(6,7,8), of 0 "rx_buffer k"] process_serial_out [of "khal k"]
    by auto
  define k1 where "k1 = k\<lparr>rx_buffer := rx_buffer k, khal := h'\<rparr>"
  have c31: "length c \<le> 31" using wf_task_cstr(1) [OF w(3)] assms(9) by auto
  have "\<exists>k2. comm_prepare i 0 k1 = Some (1, k2) \<and> khal k2 = h' \<and>
      tasks k2 = (tasks k)[i := (tasks k ! i)\<lparr>sp := - 1\<rparr>]"
    using assms(5) w(2,3) by (auto simp: comm_prepare_def k1_def heap_store_def wf_task_def)
  then obtain k2 where k2: "comm_prepare i 0 k1 = Some (1, k2)" "khal k2 = h'"
    "tasks k2 = (tasks k)[i := (tasks k ! i)\<lparr>sp := - 1\<rparr>]" by blast
  have t2: "sp (tasks k2 ! i) = - 1" "cwd (tasks k2 ! i) = cwd (tasks k ! i)" "length (stack (tasks k2 ! i)) = 64"
    "length (tasks k2) = 3"
    using k2(3) assms(4) w(3,4) by (simp_all add: wf_task_def)
  obtain k3 where k3: "push i 0 k2 = Some k3" "khal k3 = h'" "sp (tasks k3 ! i) = 0"
    "stack (tasks k3 ! i) ! 0 = 0" "cwd (tasks k3 ! i) = cwd (tasks k ! i)" "length (stack (tasks k3 ! i)) = 64"
    "length (tasks k3) = 3"
    using t2 k2(2) assms(4) by (simp add: push_def)
  obtain k4 where k4: "Kernel_systemCall F i SYS_GETCWD k3 = Some k4" "khal k4 = h'"
    "cwd (tasks k4 ! i) = cwd (tasks k ! i)"
    using k3 assms(4) by (simp add: Kernel_systemCall_def Syscall_getcwd_def pop_def)
  have "Comm_process F i k = Some (put_str FD_STDOUT [10] (put_str FD_STDOUT c k4))"
    using h'(1) k2(1) k3(1) k4 assms(9)
    by (simp add: Comm_process_def comm_dispatch_def comm_getcwd_def comm_send_cwd_def k1_def)
  then show ?thesis
    using h'(2-4) k4(2) c31 by (simp add: HAL_write_str_out)
qed

theorem daemon_ignores_other_commands_witness:
  "\<exists>h rx. Comm_process (memfs []) 0 ((demo_run [])\<lparr>khal := hal_zero\<lparr>serial_in := sp_packet [104] SP_UNFRAGED 1 100\<rparr>\<rparr>) =
     Some ((demo_run [])\<lparr>rx_buffer := rx, khal := h\<rparr>) \<and> serial_out h = []"
proof -
  let ?k = "(demo_run [])\<lparr>khal := hal_zero\<lparr>serial_in := sp_packet [104] SP_UNFRAGED 1 100\<rparr>\<rparr>"
  have "wf_kernel (demo_run [])" by (rule demo_wf) simp_all
  then have w: "wf_kernel ?k" using wf_hal_zero by (simp add: wf_kernel_def wf_hal_def)
  have a: "sp_args_ok SP_UNFRAGED 1 100" by (simp add: sp_args_ok_def)
  show ?thesis
    using daemon_ignores_other_commands [OF a _ _ w, of "[104]" "[]" "memfs []" 0] by (auto simp: hal_zero_def)
qed

theorem daemon_answers_getcwd_witness:
  "\<exists>k'. Comm_process (memfs []) 0 ((demo_run [])\<lparr>khal := hal_zero\<lparr>serial_in := sp_packet [] SP_UNFRAGED 1 SYS_GETCWD\<rparr>\<rparr>) = Some k' \<and>
     serial_out (khal k') = text_packet CMD_STDOUT [47] @ text_packet CMD_STDOUT [10]"
proof -
  let ?k = "(demo_run [])\<lparr>khal := hal_zero\<lparr>serial_in := sp_packet [] SP_UNFRAGED 1 SYS_GETCWD\<rparr>\<rparr>"
  have "wf_kernel (demo_run [])" by (rule demo_wf) simp_all
  then have w: "wf_kernel ?k" using wf_hal_zero by (simp add: wf_kernel_def wf_hal_def)
  have c: "cstr (cwd (tasks ?k ! 0)) = Some [47]" by (simp add: demo_kernel_def demo_task_def cstr_def)
  have "heap_base (tasks ?k ! 0) = - 1" by (simp add: demo_kernel_def demo_task_def)
  then show ?thesis
    using daemon_answers_getcwd [OF _ _ w _ _ _ _ _ c, of SP_UNFRAGED 1 "[]" "memfs []"]
    by (auto simp: hal_zero_def)
qed

end
