(* ===== verification/Scheduler.thy ===== *)
theory Scheduler
  imports VirtualMachine Communication
begin

text \<open>
  The scheduler loop of \<open>src/Kernel.cpp\<close> and \<open>setup\<close>/\<open>loop\<close> of \<open>src/main.cpp\<close>. The system is a step
  relation: the scheduler visits the tasks in turn, and between two visits the timer interrupt may
  advance the tick counter and bytes may arrive on the serial line.
\<close>

section \<open>The scheduler\<close>

text \<open>The body of the \<open>for\<close> loop of \<open>Kernel_runScheduler\<close>.\<close>

definition sched_visit :: "('fs, 'f) fsops \<Rightarrow> nat \<Rightarrow> ('fs, 'f) kernel \<Rightarrow> ('fs, 'f) kernel option" where
  "sched_visit F i k =
     (let t = tasks k ! i in
      if \<not> isRunnable t then Some k
      else if i = 0 then Comm_process F i k
      else if wake_up_time t > 0
        then (if system_ticks k < wake_up_time t then Some k
              else VM_runStep F i (upd_task i (\<lambda>t. t\<lparr>wake_up_time := 0\<rparr>) k))
      else VM_runStep F i k)"

text \<open>One iteration of \<open>while (1)\<close> with no interrupt in between, and \<open>n\<close> of them.\<close>

definition sched_round :: "('fs, 'f) fsops \<Rightarrow> ('fs, 'f) kernel \<Rightarrow> ('fs, 'f) kernel option" where
  "sched_round F k = do { k \<leftarrow> sched_visit F 0 k; k \<leftarrow> sched_visit F 1 k; sched_visit F 2 k }"

fun sched_rounds :: "('fs, 'f) fsops \<Rightarrow> nat \<Rightarrow> ('fs, 'f) kernel \<Rightarrow> ('fs, 'f) kernel option" where
  "sched_rounds F 0 k = Some k"
| "sched_rounds F (Suc n) k = do { k \<leftarrow> sched_round F k; sched_rounds F n k }"

section \<open>Start-up\<close>

definition setup_system :: "bool \<Rightarrow> ('fs, 'f) kernel \<Rightarrow> ('fs, 'f) kernel option" where
  "setup_system sd_ok k = do {
     let k = k\<lparr>khal := HAL_init sd_ok (khal k)\<rparr>;
     let k = put_str FD_STDOUT (lit ''ArduOS v2.0 Booting...'' @ [10]) k;
     k \<leftarrow> Kernel_init k;
     Some (put_str FD_STDOUT (lit ''System Ready.'' @ [10]) k) }"

section \<open>The system as a step relation\<close>

text \<open>A state is the index of the task to visit next and the kernel state.\<close>

inductive kstep :: "('fs, 'f) fsops \<Rightarrow> nat \<times> ('fs, 'f) kernel \<Rightarrow> nat \<times> ('fs, 'f) kernel \<Rightarrow> bool"
  for F :: "('fs, 'f) fsops" where
  kstep_visit: "sched_visit F i k = Some k' \<Longrightarrow> kstep F (i, k) ((i + 1) mod 3, k')"
| kstep_tick: "kstep F (i, k) (i, k\<lparr>system_ticks := system_ticks k + 1\<rparr>)"
| kstep_serial: "kstep F (i, k) (i, k\<lparr>khal := (khal k)\<lparr>serial_in := serial_in (khal k) @ bs\<rparr>\<rparr>)"

inductive_cases kstepE: "kstep F s s'"

definition booted :: "('fs, 'f) fsops \<Rightarrow> nat \<times> ('fs, 'f) kernel \<Rightarrow> bool" where
  "booted F s \<longleftrightarrow> fst s = 0 \<and> (\<exists>k sd_ok. raw_kernel k \<and> (\<forall>t \<in> set (tasks k). \<not> fs_isOpen F (t_file t)) \<and>
     setup_system sd_ok k = Some (snd s))"

definition reachable :: "('fs, 'f) fsops \<Rightarrow> ('fs, 'f) kernel \<Rightarrow> bool" where
  "reachable F k \<longleftrightarrow> (\<exists>s i. booted F s \<and> rtranclp (kstep F) s (i, k))"

text \<open>Systems with an inductive invariant.\<close>

locale step_system =
  fixes init :: "'s \<Rightarrow> bool" and step :: "'s \<Rightarrow> 's \<Rightarrow> bool" and inv :: "'s \<Rightarrow> bool"
  assumes init_inv: "init s \<Longrightarrow> inv s"
    and step_inv: "inv s \<Longrightarrow> step s s' \<Longrightarrow> inv s'"
begin

lemma run_inv: "rtranclp step s s' \<Longrightarrow> inv s \<Longrightarrow> inv s'"
  by (induction rule: rtranclp_induct) (auto intro: step_inv)

lemma reach_inv: "init s \<Longrightarrow> rtranclp step s s' \<Longrightarrow> inv s'"
  using init_inv run_inv by blast

end

section \<open>Visits and steps are lawful\<close>

lemma sched_visit_lawful:
  assumes "sched_visit F i k = Some k'" "fs_ok F" "i < 3"
  shows "lawful F k k'"
proof (cases "kinv F k \<and> isRunnable (tasks k ! i)")
  case False
  then have "\<not> kinv F k \<or> k' = k" using assms(1) by (auto simp: sched_visit_def Let_def)
  then show ?thesis
  proof
    assume "\<not> kinv F k" then show ?thesis by (simp add: lawful_def)
  next
    assume "k' = k" then show ?thesis by simp
  qed
next
  case True
  then have st: "states k ! i = - 1"
    using assms(3) by (simp add: isRunnable_def states_def kinv_def wf_kernel_def)
  show ?thesis
  proof (cases "i = 0")
    case i: True
    with assms(1) True have "Comm_process F i k = Some k'" by (simp add: sched_visit_def Let_def)
    then show ?thesis by (rule Comm_process_lawful [OF _ assms(2,3) st])
  next
    case i: False
    let ?k = "upd_task i (\<lambda>t. t\<lparr>wake_up_time := 0\<rparr>) k"
    have q: "quiet F k ?k" by (rule quiet_upd_task) (use assms(3) i in auto)
    have "k' = k \<or> VM_runStep F i k = Some k' \<or> VM_runStep F i ?k = Some k'"
      using assms(1) True i by (auto simp: sched_visit_def Let_def split: if_splits)
    moreover have "lawful F k k'" if "VM_runStep F i ?k = Some k'"
      using VM_runStep_lawful [OF that assms(2) _ assms(3)] q i st
      by (auto simp: quiet_states intro: lawful_trans quiet_lawful)
    ultimately show ?thesis using VM_runStep_lawful [OF _ assms(2) _ assms(3) st] i by auto
  qed
qed

lemma kstep_lawful:
  assumes "kstep F s s'" "fs_ok F" "fst s < 3"
  shows "lawful F (snd s) (snd s')" "fst s' < 3"
proof -
  have env: "quiet F k (k\<lparr>system_ticks := t\<rparr>)" "quiet F k (k\<lparr>khal := (khal k)\<lparr>serial_in := bs\<rparr>\<rparr>)" for k t bs
    by (simp_all add: quiet_def same_heap_def daemon_closed_def wf_kernel_def wf_hal_def states_def)
  show "lawful F (snd s) (snd s')"
    using assms(1) by cases (use assms(2,3) in \<open>auto intro: sched_visit_lawful quiet_lawful env\<close>)
  show "fst s' < 3" using assms(1) by cases (use assms(3) in auto)
qed

section \<open>Reachable states\<close>

lemma init_tasks_t_file:
  "init_tasks n ts = Some ts' \<Longrightarrow> length ts' = length ts \<and> (\<forall>i < length ts. t_file (ts' ! i) = t_file (ts ! i))"
proof (induction n ts arbitrary: ts' rule: init_tasks.induct)
  case (2 i t ts)
  then show ?case
    by (auto simp: bind_eq_Some_conv init_task_def setFree_def nth_Cons split: nat.splits)
qed simp

lemma Kernel_init_t_file:
  assumes "Kernel_init k = Some k'" "length (tasks k) = 3"
  shows "t_file (tasks k' ! 0) = t_file (tasks k ! 0)"
proof -
  from assms(1) obtain ts where ts: "init_tasks 0 (tasks k) = Some ts"
    by (auto simp: Kernel_init_def Comm_init_def bind_eq_Some_conv Let_def)
  have t: "length ts = 3" "t_file (ts ! 0) = t_file (tasks k ! 0)"
    using init_tasks_t_file [OF ts] assms(2) by simp_all
  let ?k = "upd_task 0 setRunning ((Comm_init (k\<lparr>global_heap := replicate (length (global_heap k)) 0,
               heap_bitmap := replicate (length (heap_bitmap k)) 0\<rparr>))\<lparr>tasks := ts\<rparr>)"
  obtain p k1 where m: "Kernel_malloc 0 128 ?k = (p, k1)" by fastforce
  have "t_file (tasks k1 ! 0) = t_file (ts ! 0)" "length (tasks k1) = 3"
    using m t by (auto simp: Kernel_malloc_def setRunning_def split: option.splits)
  moreover have "k' = (if p \<noteq> - 1 then upd_task 0 (\<lambda>t. t\<lparr>heap_base := p, heap_limit := 128\<rparr>) k1 else k1)"
    using assms(1) ts m by (simp add: Kernel_init_def Comm_init_def Let_def)
  ultimately show ?thesis using t by simp
qed

lemma booted_inv:
  assumes "booted F s"
  shows "fst s < 3" "kinv F (snd s)" "tidy (snd s)" "states (snd s) = [- 1, - 2, - 2]"
    "named_ok F (snd s)" "\<forall>i < 3. cstr (cwd (tasks (snd s) ! i)) = Some (lit ''/'')"
    "used_set (heap_bitmap (snd s)) = {0..<128}"
proof -
  show "fst s < 3" using assms by (simp add: booted_def)
  obtain k sd_ok where k: "raw_kernel k" "\<forall>t \<in> set (tasks k). \<not> fs_isOpen F (t_file t)"
    "setup_system sd_ok k = Some (snd s)" using assms by (auto simp: booted_def)
  let ?k = "put_str FD_STDOUT (lit ''ArduOS v2.0 Booting...'' @ [10]) (k\<lparr>khal := HAL_init sd_ok (khal k)\<rparr>)"
  have "wf_hal (HAL_init sd_ok (khal k))"
  proof -
    have "wf_hal ((khal k)\<lparr>hal_raw_index := 0, hal_pkt_ready := False\<rparr>)"
      using k(1) by (simp add: raw_kernel_def wf_hal_def)
    then show ?thesis by (simp add: HAL_init_def Let_def)
  qed
  then have raw: "raw_kernel ?k" using k(1) by (simp add: raw_kernel_def)
  obtain k' where i: "Kernel_init ?k = Some k'" "wf_kernel k'" "heap_sound k'" "heap_exact k'"
    "states k' = [- 1, - 2, - 2]" "used_set (heap_bitmap k') = {0..<128}"
    "\<forall>i < 3. cstr (cwd (tasks k' ! i)) = Some (lit ''/'')"
    "block k' = (\<lambda>b. if b = (0, 0) then {0..<128} else {})"
    by (rule Kernel_init_state [OF raw])
  have s: "snd s = put_str FD_STDOUT (lit ''System Ready.'' @ [10]) k'"
    using k(3) i(1) by (simp add: setup_system_def)
  have "t_file (tasks k' ! 0) = t_file (tasks k ! 0)"
    using Kernel_init_t_file [OF i(1)] raw by (simp add: raw_kernel_def)
  moreover have "tasks k ! 0 \<in> set (tasks k)" using k(1) by (simp add: raw_kernel_def)
  ultimately have d: "daemon_closed F k'" using k(2) by (simp add: daemon_closed_def)
  have sh: "same_heap k' (snd s)" by (simp add: s same_heap_def)
  show "kinv F (snd s)"
    using i(2,3) d same_heap_sound [OF sh] by (simp add: kinv_def s daemon_closed_def)
  show "tidy (snd s)"
    using i(4,5,8) same_heap_exact [OF sh] same_heap_block [OF sh] by (simp add: tidy_def)
  show "states (snd s) = [- 1, - 2, - 2]" "used_set (heap_bitmap (snd s)) = {0..<128}"
    "\<forall>i < 3. cstr (cwd (tasks (snd s) ! i)) = Some (lit ''/'')"
    using i by (simp_all add: s)
  then show "named_ok F (snd s)" by (auto simp: named_ok_def less_Suc_eq numeral_3_eq_3)
qed

definition sys_inv :: "('fs, 'f) fsops \<Rightarrow> nat \<times> ('fs, 'f) kernel \<Rightarrow> bool" where
  "sys_inv F s \<longleftrightarrow> (fs_ok F \<longrightarrow> fst s < 3 \<and> kinv F (snd s) \<and>
     (fs_stable F \<longrightarrow> tidy (snd s) \<and> named_ok F (snd s) \<and> wait_ok (states (snd s))))"

interpretation arduos: step_system "booted F" "kstep F" "sys_inv F" for F
proof
  fix s :: "nat \<times> ('a, 'b) kernel"
  assume "booted F s"
  from booted_inv [OF this] show "sys_inv F s" by (simp add: sys_inv_def wait_ok_triple)
next
  fix s s' :: "nat \<times> ('a, 'b) kernel"
  assume I: "sys_inv F s" and st: "kstep F s s'"
  show "sys_inv F s'"
    unfolding sys_inv_def
  proof (intro impI)
    assume ok: "fs_ok F"
    have J: "fst s < 3" "kinv F (snd s)" using I ok by (simp_all add: sys_inv_def)
    note L = kstep_lawful [OF st ok J(1)]
    obtain es where es: "kinv F (snd s')" "proc_run (states (snd s)) es (states (snd s'))"
      "list_all (\<lambda>e. \<not> is_drop e) es \<and> tidy (snd s) \<longrightarrow> tidy (snd s')"
      "fs_stable F \<and> named_ok F (snd s) \<longrightarrow> list_all (\<lambda>e. \<not> is_drop e) es \<and> named_ok F (snd s')"
      using L(1) J(2) unfolding lawful_def by blast
    have "tidy (snd s') \<and> named_ok F (snd s') \<and> wait_ok (states (snd s'))" if "fs_stable F"
    proof -
      have S: "tidy (snd s)" "named_ok F (snd s)" "wait_ok (states (snd s))"
        using I ok that by (simp_all add: sys_inv_def)
      then have "list_all (\<lambda>e. \<not> is_drop e) es" "named_ok F (snd s')" using es(4) that by simp_all
      then show ?thesis using es(3) S wait_ok_run [OF es(2)] by simp
    qed
    with es(1) L(2) show "fst s' < 3 \<and> kinv F (snd s') \<and>
     (fs_stable F \<longrightarrow> tidy (snd s') \<and> named_ok F (snd s') \<and> wait_ok (states (snd s')))" by simp
  qed
qed

lemma reachable_inv: "reachable F k \<Longrightarrow> \<exists>i. sys_inv F (i, k)"
  using arduos.reach_inv unfolding reachable_def by blast

section \<open>Properties of every run\<close>

lemma reachableE:
  assumes "reachable F k" "fs_ok F"
  obtains "kinv F k" "fs_stable F \<Longrightarrow> tidy k \<and> wait_ok (states k)"
  using reachable_inv [OF assms(1)] assms(2) by (auto simp: sys_inv_def)




text \<open>The boot sequence of the demonstration kernel.\<close>

lemma raw_reachable:
  fixes F :: "('fs, 'f) fsops" and k :: "('fs, 'f) kernel"
  assumes "raw_kernel k" "\<forall>t \<in> set (tasks k). \<not> fs_isOpen F (t_file t)"
  shows "\<exists>k'. reachable F k' \<and> states k' = [- 1, - 2, - 2]"
proof -
  let ?b = "put_str FD_STDOUT (lit ''ArduOS v2.0 Booting...'' @ [10]) (k\<lparr>khal := HAL_init True (khal k)\<rparr>)"
  have "wf_hal (HAL_init True (khal k))"
    using assms(1) by (simp add: raw_kernel_def HAL_init_def wf_hal_def Let_def)
  then have "raw_kernel ?b" using assms(1) by (simp add: raw_kernel_def)
  then obtain k' where k': "Kernel_init ?b = Some k'" by (rule Kernel_init_state)
  let ?s = "put_str FD_STDOUT (lit ''System Ready.'' @ [10]) k'"
  have b: "booted F (0, ?s)"
    using assms k' unfolding booted_def by (intro conjI exI [of _ k] exI [of _ True]) (simp_all add: setup_system_def)
  then have "reachable F ?s" unfolding reachable_def by blast
  then show ?thesis using booted_inv(4) [OF b] by auto
qed

lemma demo_reachable: "\<exists>k. reachable (memfs tab) k \<and> states k = [- 1, - 2, - 2]"
proof (rule raw_reachable)
  let ?k = "demo_kernel (- 2) (- 2) (replicate 32 0)"
  have "(47 # replicate 31 (0 :: byte)) ! 31 = 0" by (simp add: nth_Cons')
  then show "raw_kernel ?k" using wf_hal_zero by (simp add: raw_kernel_def demo_kernel_def demo_task_def)
  show "\<forall>t \<in> set (tasks ?k). \<not> fs_isOpen (memfs tab) (t_file t)"
    by (simp add: demo_kernel_def demo_task_def memfs_def mf_closed_def)
qed




text \<open>Sleeping: the alarm goes off after finitely many ticks, also when the tick counter wraps.\<close>

lemma ticks_run: "(kstep F ^^ n) (i, k) (i, k\<lparr>system_ticks := system_ticks k + word_of_nat n\<rparr>)"
proof (induction n)
  case (Suc n)
  let ?k = "k\<lparr>system_ticks := system_ticks k + word_of_nat n\<rparr>"
  have "kstep F (i, ?k) (i, ?k\<lparr>system_ticks := system_ticks ?k + 1\<rparr>)" by (rule kstep_tick)
  then have "kstep F (i, ?k) (i, k\<lparr>system_ticks := system_ticks k + word_of_nat (Suc n)\<rparr>)" by (simp add: ac_simps)
  with Suc show ?case by auto
qed simp

theorem sleeper_wakes:
  assumes "0 < i" "isRunnable (tasks k ! i)" "0 < wake_up_time (tasks k ! i)"
    and "system_ticks k < wake_up_time (tasks k ! i)"
  shows "sched_visit F i k = Some k \<and>
    (\<exists>n k'. (kstep F ^^ n) (i, k) (i, k') \<and> tasks k' = tasks k \<and>
       n = unat (wake_up_time (tasks k ! i) - system_ticks k) \<and>
       sched_visit F i k' = VM_runStep F i (upd_task i (\<lambda>t. t\<lparr>wake_up_time := 0\<rparr>) k'))"
proof -
  let ?n = "unat (wake_up_time (tasks k ! i) - system_ticks k)"
  let ?k = "k\<lparr>system_ticks := system_ticks k + word_of_nat ?n\<rparr>"
  have e: "system_ticks ?k = wake_up_time (tasks k ! i)" by simp
  have "sched_visit F i k = Some k" using assms by (simp add: sched_visit_def)
  moreover have "sched_visit F i ?k = VM_runStep F i (upd_task i (\<lambda>t. t\<lparr>wake_up_time := 0\<rparr>) ?k)"
    using assms(1-3) by (simp add: sched_visit_def)
  moreover have "tasks ?k = tasks k" by simp
  ultimately show ?thesis using ticks_run by blast
qed

theorem sleeper_wakes_witness:
  "sched_visit (memfs []) 1 (upd_task 1 (\<lambda>t. t\<lparr>wake_up_time := 5\<rparr>) (demo_run [0])) =
     Some (upd_task 1 (\<lambda>t. t\<lparr>wake_up_time := 5\<rparr>) (demo_run [0]))"
  using sleeper_wakes [of 1 "upd_task 1 (\<lambda>t. t\<lparr>wake_up_time := 5\<rparr>) (demo_run [0])" "memfs []"]
  by (simp add: isRunnable_def demo_kernel_def demo_task_def)

end
