(* ===== verification/SdFatOps.thy ===== *)
theory SdFatOps
  imports FileReads DemoCard Scheduler
begin

text \<open>
  The kernel on the SdFat library: the operations of \<open>SdFat32\<close> and \<open>File32\<close> that the kernel calls, made
  from the models of the volume and of its files. They keep the promises that the kernel's theorems assume.
  A call that does not return has no counterpart in \<open>fsops\<close>: it is given the result of a failure.
\<close>

section \<open>The operations\<close>

definition sdfat_ops :: "'d blockdev \<Rightarrow> 'd fsclock \<Rightarrow> ('d fatsys, fatfile) fsops" where
  "sdfat_ops D K = \<lparr>
     fs_open = \<lambda>s p. (case vol_open D K p O_RDONLY s of None \<Rightarrow> (file_zero, s) | Some (_, f, s) \<Rightarrow> (f, s)),
     fs_isOpen = isOpen,
     fs_close = \<lambda>s f. (let (_, f, v) = FatFile_close D K f (s_vol s) in (f, s\<lparr>s_vol := v\<rparr>)),
     fs_read = \<lambda>s f n. (case FatFile_read D (word_of_nat n) f (s_vol s) of
         None \<Rightarrow> (- 1, [], f, s) | Some (r, bs, f, v) \<Rightarrow> (r, bs, f, s\<lparr>s_vol := v\<rparr>)),
     fs_available = available,
     fs_seek = \<lambda>s f p. (let (ok, f, v) = seekSet D p f (s_vol s) in (ok, f, s\<lparr>s_vol := v\<rparr>)),
     fs_curPosition = f_curPosition,
     fs_openNextFile = \<lambda>s d. (case openNext D O_RDONLY file_zero d (s_vol s) of
         None \<Rightarrow> (file_zero, d, s) | Some (_, f, d, v) \<Rightarrow> (f, d, s\<lparr>s_vol := v\<rparr>)),
     fs_getName = \<lambda>s f n. (case getName D n f (s_vol s) of
         None \<Rightarrow> ([], s) | Some (t, v) \<Rightarrow> (takeWhile (\<lambda>c. c \<noteq> 0) t, s\<lparr>s_vol := v\<rparr>)),
     fs_isDirectory = isDir\<rparr>"


section \<open>Names fit their buffer\<close>

lemma sfn_text_length:
  "sfn_text e is p lc cap acc = Some s \<Longrightarrow> length acc < cap \<Longrightarrow> length s < cap"
  by (induction e "is" p lc cap acc rule: sfn_text.induct) (auto simp: Let_def split: if_split_asm)

lemma lfn_text_length:
  "lfn_text e is cap acc = Some (b, s) \<Longrightarrow> length acc < cap \<Longrightarrow> length s < cap"
  by (induction e "is" cap acc rule: lfn_text.induct) (auto simp: Let_def split: if_split_asm)

lemma lfn_entries_length:
  "lfn_entries D index k order cap acc dir v = Some (Some s, v') \<Longrightarrow> length acc < cap \<Longrightarrow> length s < cap"
proof (induction k arbitrary: order acc dir v)
  case (Suc k)
  obtain r dir1 v1 where c: "cacheDir D (index - ucast order) dir v = Some (r, dir1, v1)"
    using Suc.prems(1) by (auto simp: bind_eq_Some_conv)
  then obtain i where i: "r = Some i" using Suc.prems(1) by (cases r) auto
  let ?e = "dir_at i v1"
  have ok: "dir_attributes ?e = 0x0F" "order = ?e ! 0 AND 0x1F"
    using Suc.prems(1) c i by (auto simp: Let_def split: if_split_asm)
  then obtain b t where t: "lfn_text ?e [0..<13] cap acc = Some (b, t)"
    using Suc.prems(1) c i by (cases "lfn_text ?e [0..<13] cap acc") (auto simp: Let_def)
  note l = lfn_text_length [OF t Suc.prems(2)]
  show ?case
  proof (cases b)
    case True
    then show ?thesis using Suc.prems(1) c i ok t l by (simp add: Let_def)
  next
    case False
    then have "lfn_entries D index k (order + 1) cap t dir1 v1 = Some (Some s, v')"
      using Suc.prems(1) c i ok t by (simp add: Let_def)
    then show ?thesis using Suc.IH l by blast
  qed
qed auto

lemma getName_length:
  assumes "getName D cap f v = Some (s, v')" "0 < cap"
  shows "length s < cap"
proof -
  have "length (fst (getSFN D cap f v)) < cap"
    using assms(2) sfn_text_length [of _ _ _ _ cap "[]"]
    by (auto simp: getSFN_def split: option.splits prod.splits if_splits)
  then show ?thesis
    using assms lfn_entries_length [of D _ _ _ cap "[]"]
    by (auto simp: getName_def getName7_def bind_eq_Some_conv split: if_split_asm prod.splits option.splits)
qed

section \<open>The promises of the file system\<close>

lemma close_closes:
  assumes "FatFile_close D K f v = (ok, f', v')"
  shows "\<not> isOpen f' \<and> available f' = 0"
  using assms
  by (auto simp: FatFile_close_def set_closed_def isOpen_def available_def available32_def isFile_def has_attr_def
    split: prod.splits)

lemma seek_attributes: "seekSet D p f v = (ok, f', v') \<Longrightarrow> f_attributes f' = f_attributes f"
  by (auto simp: seekSet_def seek_done_def clear_flag_def Let_def split: if_split_asm option.splits prod.splits)

lemma sdfat_read:
  assumes "dev_ok D" "fs_read (sdfat_ops D K) v f n = (r, d, f', v')"
  shows "length d \<le> n \<and> (0 \<le> r \<longrightarrow> r = int (length d))"
proof (cases "FatFile_read D (word_of_nat n) f (s_vol v)")
  case None
  then show ?thesis using assms(2) by (simp add: sdfat_ops_def)
next
  case (Some x)
  obtain r1 d1 f1 v1 where x: "x = (r1, d1, f1, v1)" by (cases x)
  have e: "r1 = r" "d1 = d" using assms(2) Some x by (simp_all add: sdfat_ops_def)
  have "unat (word_of_nat n :: 16 word) \<le> n" by (simp add: unat_of_nat)
  then show ?thesis using FatFile_read_count [OF assms(1), of "word_of_nat n" f "s_vol v" r d f1 v1] Some x e by simp
qed

lemma sdfat_name:
  assumes "fs_getName (sdfat_ops D K) v f n = (s, v')" "0 < n"
  shows "length s < n \<and> 0 \<notin> set s"
proof (cases "getName D n f (s_vol v)")
  case None
  then show ?thesis using assms by (simp add: sdfat_ops_def)
next
  case (Some x)
  obtain t w where x: "x = (t, w)" by (cases x)
  have s: "s = takeWhile (\<lambda>c. c \<noteq> 0) t" using assms(1) Some x by (simp add: sdfat_ops_def)
  have "length t < n" using getName_length [of D n f "s_vol v" t w] Some x assms(2) by simp
  then show ?thesis using s length_takeWhile_le [of "\<lambda>c. c \<noteq> 0" t] set_takeWhileD by fastforce
qed

lemma sdfat_ok:
  assumes "dev_ok D"
  shows "fs_ok (sdfat_ops D K)"
proof -
  have "\<not> isOpen f' \<and> available f' = 0" if "fs_close (sdfat_ops D K) v f = (f', v')" for v f f' v'
    using that close_closes [of D K f "s_vol v"] by (auto simp: sdfat_ops_def split: prod.splits)
  moreover have "isOpen f' = isOpen f" if "fs_seek (sdfat_ops D K) v f p = (r, f', v')" for v f p r f' v'
    using that seek_attributes [of D p f "s_vol v"] by (auto simp: sdfat_ops_def isOpen_def split: prod.splits)
  moreover have "fs_isOpen (sdfat_ops D K) = isOpen" "fs_available (sdfat_ops D K) = available"
    by (simp_all add: sdfat_ops_def)
  moreover have "\<forall>v f n r d f' v'. fs_read (sdfat_ops D K) v f n = (r, d, f', v') \<longrightarrow>
      length d \<le> n \<and> (0 \<le> r \<longrightarrow> r = int (length d))"
    using sdfat_read [OF assms] by blast
  moreover have "\<forall>v f n s v'. 0 < n \<longrightarrow> fs_getName (sdfat_ops D K) v f n = (s, v') \<longrightarrow> length s < n \<and> 0 \<notin> set s"
    using sdfat_name by blast
  ultimately show ?thesis unfolding fs_ok_def by (intro conjI) (assumption | simp | blast)+
qed

section \<open>ArduOS on a card\<close>

theorem arduos_on_sdfat:
  assumes "dev_ok D" "reachable (sdfat_ops D K) k"
  shows "wf_kernel k \<and> heap_sound k"
  using reachableE [OF assms(2) sdfat_ok [OF assms(1)]] by (auto simp: kinv_def)

definition demo_clock :: "'d fsclock" where
  "demo_clock = \<lparr>clk_callback = None, clk_millis = (\<lambda>_. 0), clk_default = (0x0021, 0)\<rparr>"

lemma card_ok: "dev_ok card_ops"
proof -
  have "length (card d s) = 512" for d s using card_works by (simp add: dev_works_def)
  then show ?thesis by (auto simp: dev_ok_def card_ops_def length_concat comp_def sum_list_triv)
qed

lemma card_reachable: "\<exists>k. reachable (sdfat_ops card_ops demo_clock) k \<and> states k = [- 1, - 2, - 2]"
proof (rule raw_reachable)
  let ?t = "\<lambda>i. demo_task i (- 2) (replicate 32 0) file_zero"
  let ?k = "\<lparr>tasks = map ?t [0..<3], global_heap = replicate 1024 0, heap_bitmap = replicate 128 0,
     rx_buffer = replicate 256 0, rx_index = 0, khal = hal_zero, system_ticks = 0,
     sd = \<lparr>s_vol = demo_vol, s_vwd = file_zero\<rparr>\<rparr>"
  have "(47 # replicate 31 (0 :: byte)) ! 31 = 0" by (simp add: nth_Cons')
  then show "raw_kernel ?k" using wf_hal_zero by (simp add: raw_kernel_def demo_task_def)
  show "\<forall>t \<in> set (tasks ?k). \<not> fs_isOpen (sdfat_ops card_ops demo_clock) (t_file t)"
    by (simp add: demo_task_def sdfat_ops_def isOpen_def file_zero_def)
qed

theorem arduos_on_sdfat_witness:
  "\<exists>k. reachable (sdfat_ops card_ops demo_clock) k \<and> wf_kernel k \<and> heap_sound k"
  using card_reachable arduos_on_sdfat [OF card_ok] by blast

end
