(* ===== verification/SoftSpi.thy ===== *)
theory SoftSpi
  imports Prelude
begin

text \<open>
  The software SPI port of the SD card (\<open>lib/SdFat/src/DigitalIO/SoftSPI.h\<close>, \<open>SpiDriver/SdSpiSoftDriver.h\<close>): bytes as bits on
  three pins. The pins are the parameter \<open>gpio\<close>, the byte level is the record \<open>spibus\<close> that the card driver uses.
\<close>

section \<open>Pins\<close>

text \<open>
  \<open>fastDigitalWrite\<close>, \<open>fastDigitalRead\<close>, \<open>fastPinConfig\<close>, the chip select pin and \<open>millis\<close> are register I/O: functions on a
  state of the outside world.
\<close>

record 'w gpio =
  g_write :: "byte \<Rightarrow> bool \<Rightarrow> 'w \<Rightarrow> 'w"
  g_read :: "byte \<Rightarrow> 'w \<Rightarrow> bool \<times> 'w"
  g_config :: "byte \<Rightarrow> bool \<Rightarrow> bool \<Rightarrow> 'w \<Rightarrow> 'w"
  g_csInit :: "byte \<Rightarrow> 'w \<Rightarrow> 'w"
  g_csWrite :: "byte \<Rightarrow> bool \<Rightarrow> 'w \<Rightarrow> 'w"
  g_millis :: "'w \<Rightarrow> 32 word \<times> 'w"

text \<open>The template parameters of \<open>SoftSPI\<close>.\<close>

record soft_pins =
  MisoPin :: byte
  MosiPin :: byte
  SckPin :: byte
  Mode :: byte

section \<open>SoftSPI\<close>

definition MODE_CPHA :: "byte \<Rightarrow> bool" where "MODE_CPHA mode = (mode AND 1 \<noteq> 0)"
definition MODE_CPOL :: "byte \<Rightarrow> bool" where "MODE_CPOL mode = (mode AND 2 \<noteq> 0)"

definition SoftSPI_begin :: "'w gpio \<Rightarrow> soft_pins \<Rightarrow> 'w \<Rightarrow> 'w" where
  "SoftSPI_begin G P w =
     (let w = g_config G (MisoPin P) False False w;
          w = g_config G (MosiPin P) True (\<not> MODE_CPHA (Mode P)) w
      in g_config G (SckPin P) True (MODE_CPOL (Mode P)) w)"

definition receiveBit :: "'w gpio \<Rightarrow> soft_pins \<Rightarrow> nat \<Rightarrow> byte \<Rightarrow> 'w \<Rightarrow> byte \<times> 'w" where
  "receiveBit G P n data w =
     (let w = (if MODE_CPHA (Mode P) then g_write G (SckPin P) (\<not> MODE_CPOL (Mode P)) w else w);
          w = g_write G (SckPin P) (if MODE_CPHA (Mode P) then MODE_CPOL (Mode P) else \<not> MODE_CPOL (Mode P)) w;
          (b, w) = g_read G (MisoPin P) w;
          data = (if b then data OR push_bit n 1 else data);
          w = (if \<not> MODE_CPHA (Mode P) then g_write G (SckPin P) (MODE_CPOL (Mode P)) w else w)
      in (data, w))"

definition sendBit :: "'w gpio \<Rightarrow> soft_pins \<Rightarrow> nat \<Rightarrow> byte \<Rightarrow> 'w \<Rightarrow> 'w" where
  "sendBit G P n data w =
     (let w = (if MODE_CPHA (Mode P) then g_write G (SckPin P) (\<not> MODE_CPOL (Mode P)) w else w);
          w = g_write G (MosiPin P) (data AND push_bit n 1 \<noteq> 0) w;
          w = g_write G (SckPin P) (if MODE_CPHA (Mode P) then MODE_CPOL (Mode P) else \<not> MODE_CPOL (Mode P)) w
      in if \<not> MODE_CPHA (Mode P) then g_write G (SckPin P) (MODE_CPOL (Mode P)) w else w)"

definition transferBit :: "'w gpio \<Rightarrow> soft_pins \<Rightarrow> nat \<Rightarrow> byte \<Rightarrow> byte \<Rightarrow> 'w \<Rightarrow> byte \<times> 'w" where
  "transferBit G P n rxData txData w =
     (let w = (if MODE_CPHA (Mode P) then g_write G (SckPin P) (\<not> MODE_CPOL (Mode P)) w else w);
          w = g_write G (MosiPin P) (txData AND push_bit n 1 \<noteq> 0) w;
          w = g_write G (SckPin P) (if MODE_CPHA (Mode P) then MODE_CPOL (Mode P) else \<not> MODE_CPOL (Mode P)) w;
          (b, w) = g_read G (MisoPin P) w;
          rxData = (if b then rxData OR push_bit n 1 else rxData);
          w = (if \<not> MODE_CPHA (Mode P) then g_write G (SckPin P) (MODE_CPOL (Mode P)) w else w)
      in (rxData, w))"

text \<open>The unrolled calls for bits 7 to 0.\<close>

definition SoftSPI_receive :: "'w gpio \<Rightarrow> soft_pins \<Rightarrow> 'w \<Rightarrow> byte \<times> 'w" where
  "SoftSPI_receive G P w = foldl (\<lambda>(data, w) n. receiveBit G P n data w) (0, w) [7, 6, 5, 4, 3, 2, 1, 0]"

definition SoftSPI_send :: "'w gpio \<Rightarrow> soft_pins \<Rightarrow> byte \<Rightarrow> 'w \<Rightarrow> 'w" where
  "SoftSPI_send G P data w = foldl (\<lambda>w n. sendBit G P n data w) w [7, 6, 5, 4, 3, 2, 1, 0]"

definition SoftSPI_transfer :: "'w gpio \<Rightarrow> soft_pins \<Rightarrow> byte \<Rightarrow> 'w \<Rightarrow> byte \<times> 'w" where
  "SoftSPI_transfer G P txData w = foldl (\<lambda>(rxData, w) n. transferBit G P n rxData txData w) (0, w) [7, 6, 5, 4, 3, 2, 1, 0]"

section \<open>The driver class\<close>

text \<open>
  What the card driver calls: \<open>activate\<close>, \<open>deactivate\<close>, \<open>end\<close> and \<open>setSckSpeed\<close> do nothing in this driver and have no entry.
\<close>

record 'b spibus =
  bus_begin :: "'b \<Rightarrow> 'b"
  bus_receive :: "'b \<Rightarrow> byte \<times> 'b"
  bus_send :: "byte \<Rightarrow> 'b \<Rightarrow> 'b"
  bus_csInit :: "byte \<Rightarrow> 'b \<Rightarrow> 'b"
  bus_csWrite :: "byte \<Rightarrow> bool \<Rightarrow> 'b \<Rightarrow> 'b"
  bus_millis :: "'b \<Rightarrow> 32 word \<times> 'b"

definition soft_bus :: "'w gpio \<Rightarrow> soft_pins \<Rightarrow> 'w spibus" where
  "soft_bus G P = \<lparr>bus_begin = SoftSPI_begin G P, bus_receive = SoftSPI_receive G P, bus_send = SoftSPI_send G P,
     bus_csInit = g_csInit G, bus_csWrite = g_csWrite G, bus_millis = g_millis G\<rparr>"

text \<open>The array versions: \<open>receive\<close> returns 0.\<close>

fun bus_receives :: "'b spibus \<Rightarrow> nat \<Rightarrow> 'b \<Rightarrow> byte list \<times> 'b" where
  "bus_receives B 0 w = ([], w)"
| "bus_receives B (Suc n) w = (let (x, w) = bus_receive B w; (xs, w) = bus_receives B n w in (x # xs, w))"

fun bus_sends :: "'b spibus \<Rightarrow> byte list \<Rightarrow> 'b \<Rightarrow> 'b" where
  "bus_sends B [] w = w"
| "bus_sends B (x # xs) w = bus_sends B xs (bus_send B x w)"

lemma length_bus_receives: "bus_receives B n w = (xs, w') \<Longrightarrow> length xs = n"
  by (induction n arbitrary: w xs) (auto split: prod.splits)

section \<open>A device on the wires\<close>

text \<open>
  SPI mode 0 as the other side sees it. The device takes the level of MOSI when SCK rises and shows its next bit on MISO when
  SCK falls; \<open>out\<close> is the bit it shows, \<open>clk\<close> what a bit does to it. Other pins do not concern it.
\<close>

record 's wires =
  mosi :: bool
  sck :: bool
  miso :: bool
  device :: 's

definition wire_write :: "soft_pins \<Rightarrow> ('s \<Rightarrow> bool) \<Rightarrow> (bool \<Rightarrow> 's \<Rightarrow> 's) \<Rightarrow> byte \<Rightarrow> bool \<Rightarrow> 's wires \<Rightarrow> 's wires" where
  "wire_write P out clk pin l w =
     (if pin = MosiPin P then w\<lparr>mosi := l\<rparr>
      else if pin = SckPin P
      then if l \<and> \<not> sck w then w\<lparr>sck := True, device := clk (mosi w) (device w)\<rparr>
           else if \<not> l \<and> sck w then w\<lparr>sck := False, miso := out (device w)\<rparr>
           else w
      else w)"

definition wired :: "soft_pins \<Rightarrow> ('s \<Rightarrow> bool) \<Rightarrow> (bool \<Rightarrow> 's \<Rightarrow> 's) \<Rightarrow> 's wires gpio" where
  "wired P out clk = \<lparr>g_write = wire_write P out clk, g_read = \<lambda>pin w. (miso w, w),
     g_config = \<lambda>pin output l w. if output then wire_write P out clk pin l w else w,
     g_csInit = \<lambda>pin w. w, g_csWrite = \<lambda>pin l w. w, g_millis = \<lambda>w. (0, w)\<rparr>"

text \<open>What the device makes of the eight bits of a byte, and the byte that it shows, most significant bit first.\<close>

fun clock_bits :: "(bool \<Rightarrow> 's \<Rightarrow> 's) \<Rightarrow> bool list \<Rightarrow> 's \<Rightarrow> 's" where
  "clock_bits clk [] s = s"
| "clock_bits clk (b # bs) s = clock_bits clk bs (clk b s)"

fun shown_bits :: "('s \<Rightarrow> bool) \<Rightarrow> (bool \<Rightarrow> 's \<Rightarrow> 's) \<Rightarrow> bool list \<Rightarrow> 's \<Rightarrow> bool list" where
  "shown_bits out clk [] s = []"
| "shown_bits out clk (b # bs) s = out s # shown_bits out clk bs (clk b s)"

definition byte_bits :: "byte \<Rightarrow> bool list" where
  "byte_bits x = map (bit x) [7, 6, 5, 4, 3, 2, 1, 0]"

definition bits_byte :: "bool list \<Rightarrow> byte" where
  "bits_byte bs = horner_sum of_bool 2 (rev bs)"

lemma bits_byte_bits: "bits_byte (byte_bits x) = x"
proof -
  have "rev (byte_bits x) = map (bit x) [0..<8]" by (simp add: byte_bits_def upt_rec numeral_eq_Suc)
  then show ?thesis using horner_sum_bit_eq_take_bit [of x 8] by (simp add: bits_byte_def take_bit_word_eq_self)
qed

text \<open>Between two bytes the clock is low and the device shows its bit.\<close>

definition resting :: "('s \<Rightarrow> bool) \<Rightarrow> 's wires \<Rightarrow> bool" where
  "resting out w \<longleftrightarrow> \<not> sck w \<and> miso w = out (device w)"

text \<open>One clock pulse with the level of MOSI that it finds.\<close>

definition pulse :: "('s \<Rightarrow> bool) \<Rightarrow> (bool \<Rightarrow> 's \<Rightarrow> 's) \<Rightarrow> 's wires \<Rightarrow> 's wires" where
  "pulse out clk w = w\<lparr>miso := out (clk (mosi w) (device w)), device := clk (mosi w) (device w)\<rparr>"

definition mode0 :: "soft_pins \<Rightarrow> bool" where
  "mode0 P \<longleftrightarrow> Mode P = 0 \<and> MosiPin P \<noteq> SckPin P"

lemma bit_mask_level: "x AND push_bit n 1 \<noteq> 0 \<longleftrightarrow> bit (x :: byte) n"
  using bit_iff_and_push_bit_not_eq_0 [of x n] by simp

lemma pulse_fields [simp]: "device (pulse out clk w) = clk (mosi w) (device w)" "mosi (pulse out clk w) = mosi w"
  by (simp_all add: pulse_def)

lemma resting_pulse: "resting out w \<Longrightarrow> resting out (pulse out clk w)" "resting out (w\<lparr>mosi := l\<rparr>) = resting out w"
  by (simp_all add: resting_def pulse_def)

lemma bit_steps:
  assumes "mode0 P" "resting out w"
  shows "receiveBit (wired P out clk) P n d w = (if out (device w) then d OR push_bit n 1 else d, pulse out clk w)"
    "transferBit (wired P out clk) P n d x w = (if out (device w) then d OR push_bit n 1 else d, pulse out clk (w\<lparr>mosi := bit x n\<rparr>))"
    "sendBit (wired P out clk) P n x w = pulse out clk (w\<lparr>mosi := bit x n\<rparr>)"
proof -
  obtain m s i d' where w: "w = \<lparr>mosi = m, sck = s, miso = i, device = d'\<rparr>" by (cases w)
  have p: "SckPin P \<noteq> MosiPin P" "Mode P = 0" "\<not> s" "i = out d'" using assms by (auto simp: mode0_def resting_def w)
  note defs = w p receiveBit_def transferBit_def sendBit_def Let_def wired_def wire_write_def pulse_def MODE_CPHA_def MODE_CPOL_def
  show "receiveBit (wired P out clk) P n d w = (if out (device w) then d OR push_bit n 1 else d, pulse out clk w)"
    by (simp add: defs)
  show "transferBit (wired P out clk) P n d x w =
      (if out (device w) then d OR push_bit n 1 else d, pulse out clk (w\<lparr>mosi := bit x n\<rparr>))"
    "sendBit (wired P out clk) P n x w = pulse out clk (w\<lparr>mosi := bit x n\<rparr>)"
    by (simp_all only: bit_mask_level transferBit_def sendBit_def) (simp_all add: defs)
qed

text \<open>The whole byte: the wires after some bits, and the byte collected from the bits shown at places \<open>ns\<close>.\<close>

definition after_bits :: "('s \<Rightarrow> bool) \<Rightarrow> (bool \<Rightarrow> 's \<Rightarrow> 's) \<Rightarrow> bool list \<Rightarrow> 's wires \<Rightarrow> 's wires" where
  "after_bits out clk bs w = foldl (\<lambda>w b. pulse out clk (w\<lparr>mosi := b\<rparr>)) w bs"

definition collect :: "byte \<Rightarrow> nat list \<Rightarrow> bool list \<Rightarrow> byte" where
  "collect d ns bs = foldl (\<lambda>d (n, b). if b then d OR push_bit n 1 else d) d (zip ns bs)"

lemma collect_simps [simp]:
  "collect d [] bs = d" "collect d (n # ns) (b # bs) = collect (if b then d OR push_bit n 1 else d) ns bs"
  by (simp_all add: collect_def)

lemma collect_byte: "length bs = 8 \<Longrightarrow> collect 0 [7, 6, 5, 4, 3, 2, 1, 0] bs = bits_byte bs"
proof -
  assume "length bs = 8"
  then obtain a b c d e f g h where "bs = [a, b, c, d, e, f, g, h]" by (auto simp: numeral_eq_Suc length_Suc_conv)
  then show ?thesis
    by (cases a; cases b; cases c; cases d; cases e; cases f; cases g; cases h) (simp_all add: bits_byte_def)
qed

lemma length_shown [simp]: "length (shown_bits out clk bs s) = length bs"
  by (induction bs arbitrary: s) auto

lemma length_byte_bits [simp]: "length (byte_bits x) = 8"
  by (simp add: byte_bits_def)

lemma after_bits_Cons [simp]:
  "after_bits out clk [] w = w" "after_bits out clk (b # bs) w = after_bits out clk bs (pulse out clk (w\<lparr>mosi := b\<rparr>))"
  by (simp_all add: after_bits_def)

lemma after_bits_fields:
  "resting out w \<Longrightarrow> bs \<noteq> [] \<Longrightarrow> after_bits out clk bs w =
    w\<lparr>mosi := last bs, miso := out (clock_bits clk bs (device w)), device := clock_bits clk bs (device w)\<rparr>"
proof (induction bs arbitrary: w)
  case (Cons b bs)
  have "resting out (pulse out clk (w\<lparr>mosi := b\<rparr>))" using Cons.prems(1) by (simp add: resting_pulse)
  from Cons.IH [OF this] show ?case by (cases "bs = []") (simp_all add: pulse_def)
qed simp

lemma bit_runs:
  assumes "mode0 P"
  shows "resting out w \<Longrightarrow> foldl (\<lambda>w n. sendBit (wired P out clk) P n x w) w ns = after_bits out clk (map (bit x) ns) w"
    "resting out w \<Longrightarrow> foldl (\<lambda>(d, w) n. transferBit (wired P out clk) P n d x w) (d, w) ns =
      (collect d ns (shown_bits out clk (map (bit x) ns) (device w)), after_bits out clk (map (bit x) ns) w)"
    "resting out w \<Longrightarrow> foldl (\<lambda>(d, w) n. receiveBit (wired P out clk) P n d w) (d, w) ns =
      (collect d ns (shown_bits out clk (replicate (length ns) (mosi w)) (device w)), after_bits out clk (replicate (length ns) (mosi w)) w)"
proof -
  note steps = bit_steps [OF assms] resting_pulse
  show "resting out w \<Longrightarrow> foldl (\<lambda>w n. sendBit (wired P out clk) P n x w) w ns = after_bits out clk (map (bit x) ns) w"
    by (induction ns arbitrary: w) (simp_all add: steps)
  show "resting out w \<Longrightarrow> foldl (\<lambda>(d, w) n. transferBit (wired P out clk) P n d x w) (d, w) ns =
      (collect d ns (shown_bits out clk (map (bit x) ns) (device w)), after_bits out clk (map (bit x) ns) w)"
    by (induction ns arbitrary: d w) (simp_all add: steps)
  show "resting out w \<Longrightarrow> foldl (\<lambda>(d, w) n. receiveBit (wired P out clk) P n d w) (d, w) ns =
      (collect d ns (shown_bits out clk (replicate (length ns) (mosi w)) (device w)), after_bits out clk (replicate (length ns) (mosi w)) w)"
    by (induction ns arbitrary: d w) (simp_all add: steps)
qed

section \<open>Properties of the port\<close>


text \<open>The pins of the firmware, and a device that returns what it was sent, one byte later.\<close>

definition arduos_pins :: soft_pins where
  "arduos_pins = \<lparr>MisoPin = 12, MosiPin = 11, SckPin = 13, Mode = 0\<rparr>"

definition echo_wires :: "byte \<Rightarrow> bool list wires" where
  "echo_wires x = \<lparr>mosi = True, sck = False, miso = bit x 7, device = byte_bits x\<rparr>"


end
