(* ===== verification/SdCardInfo.thy ===== *)
theory SdCardInfo
  imports Prelude
begin

text \<open>
  Constants of the SD protocol, error codes and their text, and the registers of a card
  (\<open>lib/SdFat/src/SdCard/SdCardInfo.h\<close>, \<open>SdCardInfo.cpp\<close>). A register is the list of its bytes.
\<close>

section \<open>Constants\<close>

abbreviation (input) CMD0 :: byte where "CMD0 \<equiv> 0x00"
abbreviation (input) CMD6 :: byte where "CMD6 \<equiv> 0x06"
abbreviation (input) CMD8 :: byte where "CMD8 \<equiv> 0x08"
abbreviation (input) CMD9 :: byte where "CMD9 \<equiv> 0x09"
abbreviation (input) CMD10 :: byte where "CMD10 \<equiv> 0x0A"
abbreviation (input) CMD12 :: byte where "CMD12 \<equiv> 0x0C"
abbreviation (input) CMD13 :: byte where "CMD13 \<equiv> 0x0D"
abbreviation (input) CMD18 :: byte where "CMD18 \<equiv> 0x12"
abbreviation (input) CMD24 :: byte where "CMD24 \<equiv> 0x18"
abbreviation (input) CMD25 :: byte where "CMD25 \<equiv> 0x19"
abbreviation (input) CMD32 :: byte where "CMD32 \<equiv> 0x20"
abbreviation (input) CMD33 :: byte where "CMD33 \<equiv> 0x21"
abbreviation (input) CMD38 :: byte where "CMD38 \<equiv> 0x26"
abbreviation (input) CMD55 :: byte where "CMD55 \<equiv> 0x37"
abbreviation (input) CMD58 :: byte where "CMD58 \<equiv> 0x3A"
abbreviation (input) ACMD13 :: byte where "ACMD13 \<equiv> 0x0D"
abbreviation (input) ACMD41 :: byte where "ACMD41 \<equiv> 0x29"
abbreviation (input) ACMD51 :: byte where "ACMD51 \<equiv> 0x33"

abbreviation (input) R1_READY_STATE :: byte where "R1_READY_STATE \<equiv> 0x00"
abbreviation (input) R1_IDLE_STATE :: byte where "R1_IDLE_STATE \<equiv> 0x01"
abbreviation (input) R1_ILLEGAL_COMMAND :: byte where "R1_ILLEGAL_COMMAND \<equiv> 0x04"
abbreviation (input) DATA_START_SECTOR :: byte where "DATA_START_SECTOR \<equiv> 0xFE"
abbreviation (input) STOP_TRAN_TOKEN :: byte where "STOP_TRAN_TOKEN \<equiv> 0xFD"
abbreviation (input) WRITE_MULTIPLE_TOKEN :: byte where "WRITE_MULTIPLE_TOKEN \<equiv> 0xFC"
abbreviation (input) DATA_RES_MASK :: byte where "DATA_RES_MASK \<equiv> 0x1F"
abbreviation (input) DATA_RES_ACCEPTED :: byte where "DATA_RES_ACCEPTED \<equiv> 0x05"

abbreviation (input) SD_CARD_TYPE_SD1 :: byte where "SD_CARD_TYPE_SD1 \<equiv> 1"
abbreviation (input) SD_CARD_TYPE_SD2 :: byte where "SD_CARD_TYPE_SD2 \<equiv> 2"
abbreviation (input) SD_CARD_TYPE_SDHC :: byte where "SD_CARD_TYPE_SDHC \<equiv> 3"

abbreviation (input) SD_CMD_TIMEOUT :: "16 word" where "SD_CMD_TIMEOUT \<equiv> 300"
abbreviation (input) SD_ERASE_TIMEOUT :: "16 word" where "SD_ERASE_TIMEOUT \<equiv> 10000"
abbreviation (input) SD_INIT_TIMEOUT :: "16 word" where "SD_INIT_TIMEOUT \<equiv> 2000"
abbreviation (input) SD_READ_TIMEOUT :: "16 word" where "SD_READ_TIMEOUT \<equiv> 300"
abbreviation (input) SD_WRITE_TIMEOUT :: "16 word" where "SD_WRITE_TIMEOUT \<equiv> 600"

text \<open>The error codes, in the order of \<open>SD_ERROR_CODE_LIST\<close>, with the text that is printed for them.\<close>

definition SD_ERROR_CODE_LIST :: "(string \<times> string) list" where
  "SD_ERROR_CODE_LIST =
    [(''NONE'', ''No error''), (''CMD0'', ''Card reset failed''), (''CMD2'', ''SDIO read CID''), (''CMD3'', ''SDIO publish RCA''),
     (''CMD6'', ''Switch card function''), (''CMD7'', ''SDIO card select''), (''CMD8'', ''Send and check interface settings''),
     (''CMD9'', ''Read CSD data''), (''CMD10'', ''Read CID data''), (''CMD12'', ''Stop multiple block transmission''),
     (''CMD13'', ''Read card status''), (''CMD17'', ''Read single block''), (''CMD18'', ''Read multiple blocks''),
     (''CMD24'', ''Write single block''), (''CMD25'', ''Write multiple blocks''), (''CMD32'', ''Set first erase block''),
     (''CMD33'', ''Set last erase block''), (''CMD38'', ''Erase selected blocks''), (''CMD58'', ''Read OCR register''),
     (''CMD59'', ''Set CRC mode''), (''ACMD6'', ''Set SDIO bus width''), (''ACMD13'', ''Read extended status''),
     (''ACMD23'', ''Set pre-erased count''), (''ACMD41'', ''Activate card initialization''), (''ACMD51'', ''Read SCR data''),
     (''READ_TOKEN'', ''Bad read data token''), (''READ_CRC'', ''Read CRC error''), (''READ_FIFO'', ''SDIO fifo read timeout''),
     (''READ_REG'', ''Read CID or CSD failed.''), (''READ_START'', ''Bad readStart argument''), (''READ_TIMEOUT'', ''Read data timeout''),
     (''STOP_TRAN'', ''Multiple block stop failed''), (''TRANSFER_COMPLETE'', ''SDIO transfer complete''),
     (''WRITE_DATA'', ''Write data not accepted''), (''WRITE_FIFO'', ''SDIO fifo write timeout''), (''WRITE_START'', ''Bad writeStart argument''),
     (''WRITE_PROGRAMMING'', ''Flash programming''), (''WRITE_TIMEOUT'', ''Write timeout''), (''DMA'', ''DMA transfer failed''),
     (''ERASE'', ''Card did not accept erase commands''), (''ERASE_SINGLE_SECTOR'', ''Card does not support erase''),
     (''ERASE_TIMEOUT'', ''Erase command timeout''), (''INIT_NOT_CALLED'', ''Card has not been initialized''),
     (''INVALID_CARD_CONFIG'', ''Invalid card config''), (''FUNCTION_NOT_SUPPORTED'', ''Unsupported SDIO command'')]"

abbreviation (input) SD_CARD_ERROR_NONE :: byte where "SD_CARD_ERROR_NONE \<equiv> 0"
abbreviation (input) SD_CARD_ERROR_CMD0 :: byte where "SD_CARD_ERROR_CMD0 \<equiv> 1"
abbreviation (input) SD_CARD_ERROR_CMD6 :: byte where "SD_CARD_ERROR_CMD6 \<equiv> 4"
abbreviation (input) SD_CARD_ERROR_CMD8 :: byte where "SD_CARD_ERROR_CMD8 \<equiv> 6"
abbreviation (input) SD_CARD_ERROR_CMD12 :: byte where "SD_CARD_ERROR_CMD12 \<equiv> 9"
abbreviation (input) SD_CARD_ERROR_CMD13 :: byte where "SD_CARD_ERROR_CMD13 \<equiv> 10"
abbreviation (input) SD_CARD_ERROR_CMD18 :: byte where "SD_CARD_ERROR_CMD18 \<equiv> 12"
abbreviation (input) SD_CARD_ERROR_CMD24 :: byte where "SD_CARD_ERROR_CMD24 \<equiv> 13"
abbreviation (input) SD_CARD_ERROR_CMD25 :: byte where "SD_CARD_ERROR_CMD25 \<equiv> 14"
abbreviation (input) SD_CARD_ERROR_CMD58 :: byte where "SD_CARD_ERROR_CMD58 \<equiv> 18"
abbreviation (input) SD_CARD_ERROR_ACMD13 :: byte where "SD_CARD_ERROR_ACMD13 \<equiv> 21"
abbreviation (input) SD_CARD_ERROR_ACMD41 :: byte where "SD_CARD_ERROR_ACMD41 \<equiv> 23"
abbreviation (input) SD_CARD_ERROR_ACMD51 :: byte where "SD_CARD_ERROR_ACMD51 \<equiv> 24"
abbreviation (input) SD_CARD_ERROR_READ_TOKEN :: byte where "SD_CARD_ERROR_READ_TOKEN \<equiv> 25"
abbreviation (input) SD_CARD_ERROR_READ_REG :: byte where "SD_CARD_ERROR_READ_REG \<equiv> 28"
abbreviation (input) SD_CARD_ERROR_READ_TIMEOUT :: byte where "SD_CARD_ERROR_READ_TIMEOUT \<equiv> 30"
abbreviation (input) SD_CARD_ERROR_STOP_TRAN :: byte where "SD_CARD_ERROR_STOP_TRAN \<equiv> 31"
abbreviation (input) SD_CARD_ERROR_WRITE_DATA :: byte where "SD_CARD_ERROR_WRITE_DATA \<equiv> 33"
abbreviation (input) SD_CARD_ERROR_WRITE_PROGRAMMING :: byte where "SD_CARD_ERROR_WRITE_PROGRAMMING \<equiv> 36"
abbreviation (input) SD_CARD_ERROR_WRITE_TIMEOUT :: byte where "SD_CARD_ERROR_WRITE_TIMEOUT \<equiv> 37"
abbreviation (input) SD_CARD_ERROR_ERASE :: byte where "SD_CARD_ERROR_ERASE \<equiv> 39"
abbreviation (input) SD_CARD_ERROR_ERASE_SINGLE_SECTOR :: byte where "SD_CARD_ERROR_ERASE_SINGLE_SECTOR \<equiv> 40"
abbreviation (input) SD_CARD_ERROR_ERASE_TIMEOUT :: byte where "SD_CARD_ERROR_ERASE_TIMEOUT \<equiv> 41"
abbreviation (input) SD_CARD_ERROR_INIT_NOT_CALLED :: byte where "SD_CARD_ERROR_INIT_NOT_CALLED \<equiv> 42"
abbreviation (input) SD_CARD_ERROR_INVALID_CARD_CONFIG :: byte where "SD_CARD_ERROR_INVALID_CARD_CONFIG \<equiv> 43"

text \<open>The text that is printed for a code.\<close>

definition printSdErrorSymbol :: "byte \<Rightarrow> string" where
  "printSdErrorSymbol code = ''SD_CARD_ERROR_'' @
     (if unat code < length SD_ERROR_CODE_LIST then fst (SD_ERROR_CODE_LIST ! unat code) else ''UNKNOWN'')"

definition printSdErrorText :: "byte \<Rightarrow> string" where
  "printSdErrorText code =
     (if unat code < length SD_ERROR_CODE_LIST then snd (SD_ERROR_CODE_LIST ! unat code) else ''Unknown error'')"

lemma error_code_list:
  "map (\<lambda>c. fst (SD_ERROR_CODE_LIST ! unat c))
     [SD_CARD_ERROR_CMD12, SD_CARD_ERROR_CMD18, SD_CARD_ERROR_CMD25, SD_CARD_ERROR_ACMD41, SD_CARD_ERROR_READ_TIMEOUT,
      SD_CARD_ERROR_STOP_TRAN, SD_CARD_ERROR_WRITE_TIMEOUT, SD_CARD_ERROR_ERASE_TIMEOUT, SD_CARD_ERROR_INVALID_CARD_CONFIG] =
   [''CMD12'', ''CMD18'', ''CMD25'', ''ACMD41'', ''READ_TIMEOUT'', ''STOP_TRAN'', ''WRITE_TIMEOUT'', ''ERASE_TIMEOUT'', ''INVALID_CARD_CONFIG'']"
  by (simp add: SD_ERROR_CODE_LIST_def)

section \<open>CSD\<close>

text \<open>The capacity in sectors. \<open>None\<close>: the shift is by a negative number, which is not defined.\<close>

definition csd_capacity :: "byte list \<Rightarrow> 32 word option" where
  "csd_capacity csd =
     (let ver = drop_bit 6 (csd ! 0) in
      if ver = 0
      then let c_size = push_bit 10 (ucast (csd ! 6 AND 3)) OR (push_bit 2 (ucast (csd ! 7)) OR ucast (drop_bit 6 (csd ! 8)));
               c_size_mult = push_bit 1 (csd ! 9 AND 3) OR drop_bit 7 (csd ! 10);
               read_bl_len = csd ! 5 AND 15;
               n = int (unat c_size_mult) + int (unat read_bl_len) + 2 - 9
           in if n < 0 then None else Some (push_bit (nat n) (c_size + 1))
      else if ver = 1
      then let c_size = push_bit 16 (ucast (csd ! 7 AND 63)) OR push_bit 8 (ucast (csd ! 8)) OR ucast (csd ! 9)
           in Some (push_bit 10 (c_size + 1))
      else Some 0)"

definition csd_eraseSingleBlock :: "byte list \<Rightarrow> bool" where
  "csd_eraseSingleBlock csd = (csd ! 10 AND 0x40 \<noteq> 0)"

definition csd_eraseSize :: "byte list \<Rightarrow> nat" where
  "csd_eraseSize csd = unat (push_bit 1 (csd ! 10 AND 0x3F) OR drop_bit 7 (csd ! 11)) + 1"

definition csd_copy :: "byte list \<Rightarrow> bool" where "csd_copy csd = (csd ! 14 AND 0x40 \<noteq> 0)"
definition csd_permWriteProtect :: "byte list \<Rightarrow> bool" where "csd_permWriteProtect csd = (csd ! 14 AND 0x20 \<noteq> 0)"
definition csd_tempWriteProtect :: "byte list \<Rightarrow> bool" where "csd_tempWriteProtect csd = (csd ! 14 AND 0x10 \<noteq> 0)"

section \<open>CID\<close>

definition cid_prvN :: "byte list \<Rightarrow> nat" where "cid_prvN cid = unat (drop_bit 4 (cid ! 8))"
definition cid_prvM :: "byte list \<Rightarrow> nat" where "cid_prvM cid = unat (cid ! 8 AND 0xF)"

definition cid_psn :: "byte list \<Rightarrow> 32 word" where
  "cid_psn cid = push_bit 24 (ucast (cid ! 9)) OR push_bit 16 (ucast (cid ! 10)) OR push_bit 8 (ucast (cid ! 11)) OR ucast (cid ! 12)"

definition cid_mdtYear :: "byte list \<Rightarrow> nat" where
  "cid_mdtYear cid = 2000 + 16 * unat (cid ! 13 AND 0xF) + unat (drop_bit 4 (cid ! 14))"

definition cid_mdtMonth :: "byte list \<Rightarrow> nat" where "cid_mdtMonth cid = unat (cid ! 14 AND 0xF)"

section \<open>SCR\<close>

definition scr_srcStructure :: "byte list \<Rightarrow> byte" where "scr_srcStructure scr = drop_bit 4 (scr ! 0)"
definition scr_sdSpec :: "byte list \<Rightarrow> byte" where "scr_sdSpec scr = scr ! 0 AND 0xF"
definition scr_dataAfterErase :: "byte list \<Rightarrow> bool" where "scr_dataAfterErase scr = (scr ! 1 AND 0x80 \<noteq> 0)"
definition scr_sdSecurity :: "byte list \<Rightarrow> byte" where "scr_sdSecurity scr = drop_bit 4 (scr ! 1) AND 7"
definition scr_sdBusWidths :: "byte list \<Rightarrow> byte" where "scr_sdBusWidths scr = scr ! 1 AND 0xF"
definition scr_sdSpec3 :: "byte list \<Rightarrow> bool" where "scr_sdSpec3 scr = (scr ! 2 AND 0x80 \<noteq> 0)"
definition scr_sdSpec4 :: "byte list \<Rightarrow> bool" where "scr_sdSpec4 scr = (scr ! 2 AND 4 \<noteq> 0)"
definition scr_sdSpecX :: "byte list \<Rightarrow> byte" where "scr_sdSpecX scr = push_bit 2 (scr ! 2 AND 3) OR drop_bit 6 (scr ! 3)"
definition scr_cmdSupport :: "byte list \<Rightarrow> byte" where "scr_cmdSupport scr = scr ! 3 AND 0xF"

definition scr_sdSpecVer :: "byte list \<Rightarrow> int" where
  "scr_sdSpecVer scr =
     (if scr_sdSpec scr > 2 then - 1
      else if scr_sdSpec scr < 2 then if scr_sdSpec scr \<noteq> 0 then 110 else 101
      else if \<not> scr_sdSpec3 scr then 200
      else if \<not> scr_sdSpec4 scr \<and> scr_sdSpecX scr = 0 then 300
      else 400 + 100 * int (unat (scr_sdSpecX scr)))"

section \<open>SD status\<close>

definition sds_appClass :: "byte list \<Rightarrow> nat" where "sds_appClass sds = unat (sds ! 21)"

definition sds_auSizeKB :: "byte list \<Rightarrow> 32 word" where
  "sds_auSizeKB sds =
     (let v = drop_bit 4 (sds ! 10) AND 0xF in
      if v < 0xF then [0, 16, 32, 64, 128, 256, 512, 1024, 2048, 4096, 8192, 12288, 16384, 24576, 32768] ! unat v else 65536)"

definition sds_busWidth :: "byte list \<Rightarrow> byte" where
  "sds_busWidth sds = (let w = drop_bit 6 (sds ! 0) in if w = 2 then 4 else if w = 0 then 1 else - 1)"

definition sds_discard :: "byte list \<Rightarrow> bool" where "sds_discard sds = (sds ! 23 AND 2 \<noteq> 0)"
definition sds_eraseSizeAU :: "byte list \<Rightarrow> 16 word" where "sds_eraseSizeAU sds = push_bit 8 (ucast (sds ! 11)) OR ucast (sds ! 12)"
definition sds_eraseTimeout :: "byte list \<Rightarrow> byte" where "sds_eraseTimeout sds = drop_bit 2 (sds ! 13)"
definition sds_eraseOffset :: "byte list \<Rightarrow> byte" where "sds_eraseOffset sds = sds ! 13 AND 3"
definition sds_fule :: "byte list \<Rightarrow> bool" where "sds_fule sds = (sds ! 23 AND 1 \<noteq> 0)"
definition sds_secureMode :: "byte list \<Rightarrow> bool" where "sds_secureMode sds = (sds ! 0 AND 0x20 \<noteq> 0)"

definition sds_speedClass :: "byte list \<Rightarrow> int" where
  "sds_speedClass sds = (if sds ! 8 < 4 then 2 * int (unat (sds ! 8)) else if sds ! 8 = 4 then 10 else - 1)"

definition sds_uhsClass :: "byte list \<Rightarrow> nat" where "sds_uhsClass sds = unat (drop_bit 4 (sds ! 14))"
definition sds_videoClass :: "byte list \<Rightarrow> nat" where "sds_videoClass sds = unat (sds ! 15)"

end
