(* ===== verification/SdSpiCard.thy ===== *)
theory SdSpiCard
  imports SoftSpi SdCardInfo
begin

text \<open>
  The driver of the SD card (\<open>lib/SdFat/src/SdCard/SdSpiCard.h\<close>, \<open>SdSpiCard.cpp\<close>): commands, data packets, the
  multi-sector transfers that stay open between two calls, initialisation and the registers of the card. Configuration:
  dedicated SPI compiled in, no CRC, flash programming checked, an external SPI driver.
\<close>

section \<open>State\<close>

datatype sd_state = IDLE_STATE | READ_STATE | WRITE_STATE

record 'b sdspi =
  m_curSector :: "32 word"
  m_dedicatedSpi :: bool
  m_beginCalled :: bool
  m_csPin :: byte
  m_errorCode :: byte
  m_spiActive :: bool
  m_state :: sd_state
  m_status :: byte
  m_type :: byte
  m_bus :: 'b

definition initSharedSpiCard :: "'b sdspi \<Rightarrow> 'b sdspi" where
  "initSharedSpiCard c = c\<lparr>m_beginCalled := False, m_csPin := 0, m_errorCode := SD_CARD_ERROR_INIT_NOT_CALLED, m_spiActive := False,
     m_state := IDLE_STATE, m_status := 0, m_type := 0\<rparr>"

definition sd_error :: "byte \<Rightarrow> 'b sdspi \<Rightarrow> 'b sdspi" where
  "sd_error code c = c\<lparr>m_errorCode := code\<rparr>"

section \<open>The port\<close>

definition spiReceive :: "'b spibus \<Rightarrow> 'b sdspi \<Rightarrow> byte \<times> 'b sdspi" where
  "spiReceive B c = (let (x, b) = bus_receive B (m_bus c) in (x, c\<lparr>m_bus := b\<rparr>))"

definition spiReceives :: "'b spibus \<Rightarrow> nat \<Rightarrow> 'b sdspi \<Rightarrow> byte list \<times> 'b sdspi" where
  "spiReceives B n c = (let (xs, b) = bus_receives B n (m_bus c) in (xs, c\<lparr>m_bus := b\<rparr>))"

definition spiSend :: "'b spibus \<Rightarrow> byte \<Rightarrow> 'b sdspi \<Rightarrow> 'b sdspi" where
  "spiSend B x c = c\<lparr>m_bus := bus_send B x (m_bus c)\<rparr>"

definition spiSends :: "'b spibus \<Rightarrow> byte list \<Rightarrow> 'b sdspi \<Rightarrow> 'b sdspi" where
  "spiSends B xs c = c\<lparr>m_bus := bus_sends B xs (m_bus c)\<rparr>"

definition spiSelect :: "'b spibus \<Rightarrow> 'b sdspi \<Rightarrow> 'b sdspi" where
  "spiSelect B c = c\<lparr>m_bus := bus_csWrite B (m_csPin c) False (m_bus c)\<rparr>"

definition spiUnselect :: "'b spibus \<Rightarrow> 'b sdspi \<Rightarrow> 'b sdspi" where
  "spiUnselect B c = c\<lparr>m_bus := bus_csWrite B (m_csPin c) True (m_bus c)\<rparr>"

definition spiStart :: "'b spibus \<Rightarrow> 'b sdspi \<Rightarrow> 'b sdspi" where
  "spiStart B c = (if \<not> m_spiActive c then spiSend B 0xFF (spiSelect B (c\<lparr>m_spiActive := True\<rparr>)) else c)"

definition spiStop :: "'b spibus \<Rightarrow> 'b sdspi \<Rightarrow> 'b sdspi" where
  "spiStop B c = (if m_spiActive c then (spiSend B 0xFF (spiUnselect B c))\<lparr>m_spiActive := False\<rparr> else c)"

text \<open>The way out at the label \<open>fail\<close>: the error code, the port stopped.\<close>

definition fail_with :: "'b spibus \<Rightarrow> byte \<Rightarrow> 'b sdspi \<Rightarrow> bool \<times> 'b sdspi" where
  "fail_with B code c = (False, spiStop B (sd_error code c))"

section \<open>Timeouts\<close>

definition millis16 :: "'b spibus \<Rightarrow> 'b sdspi \<Rightarrow> 16 word \<times> 'b sdspi" where
  "millis16 B c = (let (t, b) = bus_millis B (m_bus c) in (ucast t, c\<lparr>m_bus := b\<rparr>))"

text \<open>\<open>Timeout::set\<close> gives the end time.\<close>

definition timeout_set :: "'b spibus \<Rightarrow> 16 word \<Rightarrow> 'b sdspi \<Rightarrow> 16 word \<times> 'b sdspi" where
  "timeout_set B ms c = (let (t, c) = millis16 B c in (ms + t, c))"

definition timedOut :: "'b spibus \<Rightarrow> 16 word \<Rightarrow> 'b sdspi \<Rightarrow> bool \<times> 'b sdspi" where
  "timedOut B endTime c = (let (t, c) = millis16 B c in (sint (endTime - t) < 0, c))"

partial_function (option) wait_loop :: "'b spibus \<Rightarrow> 16 word \<Rightarrow> 'b sdspi \<Rightarrow> (bool \<times> 'b sdspi) option" where
  "wait_loop B endTime c =
     (case spiReceive B c of (x, c) \<Rightarrow>
        if x = 0xFF then Some (True, c)
        else case timedOut B endTime c of (late, c) \<Rightarrow> if late then Some (False, c) else wait_loop B endTime c)"

definition waitReady :: "'b spibus \<Rightarrow> 16 word \<Rightarrow> 'b sdspi \<Rightarrow> (bool \<times> 'b sdspi) option" where
  "waitReady B ms c = (let (e, c) = timeout_set B ms c in wait_loop B e c)"

section \<open>Commands\<close>

text \<open>The response: at most ten bytes, the last one read is the status.\<close>

fun response_loop :: "'b spibus \<Rightarrow> nat \<Rightarrow> 'b sdspi \<Rightarrow> 'b sdspi" where
  "response_loop B 0 c = c"
| "response_loop B (Suc n) c =
     (let (x, c) = spiReceive B c; c = c\<lparr>m_status := x\<rparr> in if x AND 0x80 \<noteq> 0 then response_loop B n c else c)"

definition command_frame :: "byte \<Rightarrow> 32 word \<Rightarrow> byte list" where
  "command_frame cmd arg =
     [cmd OR 0x40, ucast (drop_bit 24 arg), ucast (drop_bit 16 arg), ucast (drop_bit 8 arg), ucast arg,
      if cmd = CMD0 then 0x95 else 0x87]"

text \<open>\<open>cardCommand\<close> after \<open>syncDevice\<close>.\<close>

definition send_command :: "'b spibus \<Rightarrow> byte \<Rightarrow> 32 word \<Rightarrow> 'b sdspi \<Rightarrow> (byte \<times> 'b sdspi) option" where
  "send_command B cmd arg c = do {
     let c = spiStart B c;
     (ok, c) \<leftarrow> (if cmd \<noteq> CMD0 \<and> cmd \<noteq> CMD12 then waitReady B SD_CMD_TIMEOUT c else Some (True, c));
     if \<not> ok then Some (0xFF, c)
     else let c = spiSends B (command_frame cmd arg) c;
              c = snd (spiReceive B c);
              c = response_loop B 10 c
          in Some (m_status c, c) }"

text \<open>
  \<open>cardCommand\<close>, \<open>syncDevice\<close> and \<open>readStop\<close> call each other; the inner call of \<open>cardCommand\<close> finds the state \<open>IDLE_STATE\<close>, in
  which \<open>syncDevice\<close> returns at once.
\<close>

definition readStop :: "'b spibus \<Rightarrow> 'b sdspi \<Rightarrow> (bool \<times> 'b sdspi) option" where
  "readStop B c = do {
     (r, c) \<leftarrow> send_command B CMD12 0 (c\<lparr>m_state := IDLE_STATE\<rparr>);
     Some (if r \<noteq> 0 then fail_with B SD_CARD_ERROR_CMD12 c else (True, spiStop B c)) }"

definition writeStop :: "'b spibus \<Rightarrow> 'b sdspi \<Rightarrow> (bool \<times> 'b sdspi) option" where
  "writeStop B c = do {
     (ok, c) \<leftarrow> waitReady B SD_WRITE_TIMEOUT c;
     Some (if ok then (True, (spiStop B (spiSend B STOP_TRAN_TOKEN c))\<lparr>m_state := IDLE_STATE\<rparr>)
           else fail_with B SD_CARD_ERROR_STOP_TRAN c) }"

definition syncDevice :: "'b spibus \<Rightarrow> 'b sdspi \<Rightarrow> (bool \<times> 'b sdspi) option" where
  "syncDevice B c =
     (case m_state c of WRITE_STATE \<Rightarrow> writeStop B c | READ_STATE \<Rightarrow> readStop B c | IDLE_STATE \<Rightarrow> Some (True, c))"

definition cardCommand :: "'b spibus \<Rightarrow> byte \<Rightarrow> 32 word \<Rightarrow> 'b sdspi \<Rightarrow> (byte \<times> 'b sdspi) option" where
  "cardCommand B cmd arg c = do {
     (ok, c) \<leftarrow> syncDevice B c;
     if \<not> ok then Some (0xFF, c) else send_command B cmd arg c }"

definition cardAcmd :: "'b spibus \<Rightarrow> byte \<Rightarrow> 32 word \<Rightarrow> 'b sdspi \<Rightarrow> (byte \<times> 'b sdspi) option" where
  "cardAcmd B cmd arg c = do { (_, c) \<leftarrow> cardCommand B CMD55 0 c; cardCommand B cmd arg c }"

lemma readStop_cardCommand:
  "readStop B c = do {
     (r, c) \<leftarrow> cardCommand B CMD12 0 (c\<lparr>m_state := IDLE_STATE\<rparr>);
     Some (if r \<noteq> 0 then fail_with B SD_CARD_ERROR_CMD12 c else (True, spiStop B c)) }"
  by (simp add: readStop_def cardCommand_def syncDevice_def)

section \<open>Data packets\<close>

text \<open>Waiting for a token: a byte that is not 0xFF, or nothing after the timeout.\<close>

partial_function (option) token_loop :: "'b spibus \<Rightarrow> 16 word \<Rightarrow> 'b sdspi \<Rightarrow> (bool \<times> 'b sdspi) option" where
  "token_loop B endTime c =
     (case spiReceive B c of (x, c) \<Rightarrow>
        if x \<noteq> 0xFF then Some (True, c\<lparr>m_status := x\<rparr>)
        else case timedOut B endTime (c\<lparr>m_status := x\<rparr>) of (late, c) \<Rightarrow>
          if late then Some (False, c) else token_loop B endTime c)"

definition readData :: "'b spibus \<Rightarrow> nat \<Rightarrow> 'b sdspi \<Rightarrow> (bool \<times> byte list \<times> 'b sdspi) option" where
  "readData B count c = do {
     let (e, c) = timeout_set B SD_READ_TIMEOUT c;
     (ok, c) \<leftarrow> token_loop B e c;
     if \<not> ok then Some (False, [], snd (fail_with B SD_CARD_ERROR_READ_TIMEOUT c))
     else if m_status c \<noteq> DATA_START_SECTOR then Some (False, [], snd (fail_with B SD_CARD_ERROR_READ_TOKEN c))
     else let (dst, c) = spiReceives B count c;
              c = c\<lparr>m_status := 0\<rparr>;
              c = snd (spiReceive B c);
              c = snd (spiReceive B c)
          in Some (True, dst, c) }"

text \<open>One sector after a token: \<open>writeData(token, src)\<close>, and \<open>writeData(src)\<close> of a multi-sector write.\<close>

definition send_sector :: "'b spibus \<Rightarrow> byte \<Rightarrow> byte list \<Rightarrow> 'b sdspi \<Rightarrow> bool \<times> 'b sdspi" where
  "send_sector B token src c =
     (let c = spiSend B token c;
          c = spiSends B src c;
          c = spiSend B 0xFF (spiSend B 0xFF c);
          (x, c) = spiReceive B c;
          c = c\<lparr>m_status := x\<rparr>
      in if x AND DATA_RES_MASK \<noteq> DATA_RES_ACCEPTED then fail_with B SD_CARD_ERROR_WRITE_DATA c else (True, c))"

definition writeData :: "'b spibus \<Rightarrow> byte list \<Rightarrow> 'b sdspi \<Rightarrow> (bool \<times> 'b sdspi) option" where
  "writeData B src c = do {
     (ok, c) \<leftarrow> waitReady B SD_WRITE_TIMEOUT c;
     if \<not> ok then Some (fail_with B SD_CARD_ERROR_WRITE_TIMEOUT c)
     else let (ok, c) = send_sector B WRITE_MULTIPLE_TOKEN src c in Some (ok, if ok then c else spiStop B c) }"

section \<open>Sectors\<close>

text \<open>A standard capacity card is addressed by byte.\<close>

definition card_address :: "32 word \<Rightarrow> 'b sdspi \<Rightarrow> 32 word" where
  "card_address sector c = (if m_type c \<noteq> SD_CARD_TYPE_SDHC then push_bit 9 sector else sector)"

definition readStart :: "'b spibus \<Rightarrow> 32 word \<Rightarrow> 'b sdspi \<Rightarrow> (bool \<times> 'b sdspi) option" where
  "readStart B sector c = do {
     (r, c) \<leftarrow> cardCommand B CMD18 (card_address sector c) c;
     Some (if r \<noteq> 0 then fail_with B SD_CARD_ERROR_CMD18 c else (True, c\<lparr>m_state := READ_STATE\<rparr>)) }"

definition writeStart :: "'b spibus \<Rightarrow> 32 word \<Rightarrow> 'b sdspi \<Rightarrow> (bool \<times> 'b sdspi) option" where
  "writeStart B sector c = do {
     (r, c) \<leftarrow> cardCommand B CMD25 (card_address sector c) c;
     Some (if r \<noteq> 0 then fail_with B SD_CARD_ERROR_CMD25 c else (True, c\<lparr>m_state := WRITE_STATE\<rparr>)) }"

text \<open>The loops over the sectors, with the bytes read so far.\<close>

fun read_sectors_loop :: "'b spibus \<Rightarrow> nat \<Rightarrow> byte list \<Rightarrow> 'b sdspi \<Rightarrow> (bool \<times> byte list \<times> 'b sdspi) option" where
  "read_sectors_loop B 0 dst c = Some (True, dst, c)"
| "read_sectors_loop B (Suc n) dst c =
     Option.bind (readData B 512 c) (\<lambda>(ok, b, c).
       if \<not> ok then Some (False, dst, c) else read_sectors_loop B n (dst @ b) c)"

definition readSectors :: "'b spibus \<Rightarrow> 32 word \<Rightarrow> nat \<Rightarrow> 'b sdspi \<Rightarrow> (bool \<times> byte list \<times> 'b sdspi) option" where
  "readSectors B sector ns c = do {
     (ok, c) \<leftarrow> (if m_state c \<noteq> READ_STATE \<or> sector \<noteq> m_curSector c
                 then do { (ok, c) \<leftarrow> readStart B sector c; Some (ok, if ok then c\<lparr>m_curSector := sector\<rparr> else c) }
                 else Some (True, c));
     if \<not> ok then Some (False, [], c)
     else do {
       (ok, dst, c) \<leftarrow> read_sectors_loop B ns [] c;
       if \<not> ok then Some (False, dst, c)
       else let c = c\<lparr>m_curSector := m_curSector c + word_of_nat ns\<rparr>
            in if m_dedicatedSpi c then Some (True, dst, c)
               else do { (ok, c) \<leftarrow> readStop B c; Some (ok, dst, c) } } }"

definition readSector :: "'b spibus \<Rightarrow> 32 word \<Rightarrow> 'b sdspi \<Rightarrow> (bool \<times> byte list \<times> 'b sdspi) option" where
  "readSector B sector c = readSectors B sector 1 c"

fun write_sectors_loop :: "'b spibus \<Rightarrow> nat \<Rightarrow> byte list \<Rightarrow> 'b sdspi \<Rightarrow> (bool \<times> 'b sdspi) option" where
  "write_sectors_loop B 0 src c = Some (True, c)"
| "write_sectors_loop B (Suc n) src c =
     Option.bind (writeData B (take 512 src) c) (\<lambda>(ok, c).
       if \<not> ok then Some (False, c) else write_sectors_loop B n (drop 512 src) c)"

definition writeSectors :: "'b spibus \<Rightarrow> 32 word \<Rightarrow> nat \<Rightarrow> byte list \<Rightarrow> 'b sdspi \<Rightarrow> (bool \<times> 'b sdspi) option" where
  "writeSectors B sector ns src c = do {
     (ok, c) \<leftarrow> (if m_state c \<noteq> WRITE_STATE \<or> m_curSector c \<noteq> sector
                 then do { (ok, c) \<leftarrow> writeStart B sector c; Some (ok, if ok then c\<lparr>m_curSector := sector\<rparr> else c) }
                 else Some (True, c));
     if \<not> ok then Some (False, spiStop B c)
     else do {
       (ok, c) \<leftarrow> write_sectors_loop B ns src c;
       if \<not> ok then Some (False, spiStop B c)
       else let c = c\<lparr>m_curSector := m_curSector c + word_of_nat ns\<rparr>
            in if m_dedicatedSpi c then Some (True, c) else writeStop B c } }"

definition writeSector :: "'b spibus \<Rightarrow> 32 word \<Rightarrow> byte list \<Rightarrow> 'b sdspi \<Rightarrow> (bool \<times> 'b sdspi) option" where
  "writeSector B sector src c =
     (if m_dedicatedSpi c then writeSectors B sector 1 src c
      else do {
        (r, c) \<leftarrow> cardCommand B CMD24 (card_address sector c) c;
        if r \<noteq> 0 then Some (fail_with B SD_CARD_ERROR_CMD24 c)
        else let (ok, c) = send_sector B DATA_START_SECTOR src c
             in if \<not> ok then Some (False, spiStop B c)
                else do {
                  (ok, c) \<leftarrow> waitReady B SD_WRITE_TIMEOUT c;
                  if \<not> ok then Some (fail_with B SD_CARD_ERROR_WRITE_PROGRAMMING c)
                  else do {
                    (r, c) \<leftarrow> cardCommand B CMD13 0 c;
                    let (x, c) = (if r \<noteq> 0 then (r, c) else spiReceive B c);
                    Some (if x \<noteq> 0 then fail_with B SD_CARD_ERROR_CMD13 c else (True, spiStop B c)) } } })"

section \<open>Initialisation\<close>

text \<open>\<open>SdSpiConfig\<close>; \<open>spiPort\<close> says that the pointer to the driver is not null.\<close>

record spi_config =
  csPin :: byte
  options :: byte
  maxSck :: "32 word"
  spiPort :: bool

definition spiOptionDedicated :: "byte \<Rightarrow> bool" where "spiOptionDedicated opt = (opt AND 1 \<noteq> 0)"

partial_function (option) cmd0_loop :: "'b spibus \<Rightarrow> 16 word \<Rightarrow> 'b sdspi \<Rightarrow> (bool \<times> 'b sdspi) option" where
  "cmd0_loop B endTime c =
     Option.bind (cardCommand B CMD0 0 c) (\<lambda>(r, c).
       if r = R1_IDLE_STATE then Some (True, c)
       else case timedOut B endTime c of (late, c) \<Rightarrow> if late then Some (False, c) else cmd0_loop B endTime c)"

text \<open>The type of the card, if it could be found.\<close>

partial_function (option) cmd8_loop :: "'b spibus \<Rightarrow> 16 word \<Rightarrow> 'b sdspi \<Rightarrow> (byte option \<times> 'b sdspi) option" where
  "cmd8_loop B endTime c =
     Option.bind (cardCommand B CMD8 0x1AA c) (\<lambda>(r, c).
       if r AND R1_ILLEGAL_COMMAND \<noteq> 0 then Some (Some SD_CARD_TYPE_SD1, c)
       else case spiReceives B 4 c of (xs, c) \<Rightarrow>
         if last xs = 0xAA then Some (Some SD_CARD_TYPE_SD2, c\<lparr>m_status := last xs\<rparr>)
         else case timedOut B endTime (c\<lparr>m_status := last xs\<rparr>) of (late, c) \<Rightarrow>
           if late then Some (None, c) else cmd8_loop B endTime c)"

partial_function (option) acmd41_loop :: "'b spibus \<Rightarrow> 16 word \<Rightarrow> 32 word \<Rightarrow> 'b sdspi \<Rightarrow> (bool \<times> 'b sdspi) option" where
  "acmd41_loop B endTime arg c =
     Option.bind (cardAcmd B ACMD41 arg c) (\<lambda>(r, c).
       if r = R1_READY_STATE then Some (True, c)
       else case timedOut B endTime c of (late, c) \<Rightarrow> if late then Some (False, c) else acmd41_loop B endTime arg c)"

text \<open>The OCR register tells whether a card of version 2 has a high capacity.\<close>

definition check_ocr :: "'b spibus \<Rightarrow> byte \<Rightarrow> 'b sdspi \<Rightarrow> (byte option \<times> 'b sdspi) option" where
  "check_ocr B cardType c =
     (if cardType \<noteq> SD_CARD_TYPE_SD2 then Some (Some cardType, c)
      else do {
        (r, c) \<leftarrow> cardCommand B CMD58 0 c;
        if r \<noteq> 0 then Some (None, sd_error SD_CARD_ERROR_CMD58 c)
        else let (x, c) = spiReceive B c; (_, c) = spiReceives B 3 c
             in Some (Some (if x AND 0xC0 = 0xC0 then SD_CARD_TYPE_SDHC else cardType), c) })"

definition SdSpiCard_begin :: "'b spibus \<Rightarrow> spi_config \<Rightarrow> 'b sdspi \<Rightarrow> (bool \<times> 'b sdspi) option" where
  "SdSpiCard_begin B cfg c =
     (let c = (initSharedSpiCard c)\<lparr>m_errorCode := SD_CARD_ERROR_NONE, m_csPin := csPin cfg\<rparr>
      in if \<not> spiPort cfg then Some (fail_with B SD_CARD_ERROR_INVALID_CARD_CONFIG c)
         else do {
           let c = c\<lparr>m_bus := bus_csInit B (m_csPin c) (m_bus c)\<rparr>;
           let c = spiUnselect B c;
           let c = c\<lparr>m_bus := bus_begin B (m_bus c), m_beginCalled := True\<rparr>;
           let c = spiUnselect B (spiStart B c);
           let c = snd (spiReceives B 10 c);
           let c = spiSelect B c;
           let (e, c) = timeout_set B SD_INIT_TIMEOUT c;
           (ok, c) \<leftarrow> cmd0_loop B e c;
           if \<not> ok then Some (fail_with B SD_CARD_ERROR_CMD0 c)
           else do {
             (t, c) \<leftarrow> cmd8_loop B e c;
             (case t of None \<Rightarrow> Some (fail_with B SD_CARD_ERROR_CMD8 c)
              | Some cardType \<Rightarrow> do {
                  (ok, c) \<leftarrow> acmd41_loop B e (if cardType = SD_CARD_TYPE_SD2 then 0x40000000 else 0) c;
                  if \<not> ok then Some (fail_with B SD_CARD_ERROR_ACMD41 c)
                  else do {
                    (t, c) \<leftarrow> check_ocr B cardType c;
                    (case t of None \<Rightarrow> Some (False, spiStop B c)
                     | Some cardType \<Rightarrow>
                         Some (True, (spiStop B c)\<lparr>m_type := cardType, m_dedicatedSpi := spiOptionDedicated (options cfg)\<rparr>)) } }) } })"

definition SdSpiCard_end :: "'b spibus \<Rightarrow> 'b sdspi \<Rightarrow> 'b sdspi option" where
  "SdSpiCard_end B c =
     (if m_beginCalled c then do { (_, c) \<leftarrow> syncDevice B c; Some (c\<lparr>m_beginCalled := False\<rparr>) } else Some c)"

definition isBusy :: "'b spibus \<Rightarrow> 'b sdspi \<Rightarrow> bool \<times> 'b sdspi" where
  "isBusy B c =
     (if m_state c = READ_STATE then (False, c)
      else let active = m_spiActive c;
               c = spiStart B c;
               (x, c) = spiReceive B c
           in (x \<noteq> 0xFF, if \<not> active then spiStop B c else c))"

definition setDedicatedSpi :: "'b spibus \<Rightarrow> bool \<Rightarrow> 'b sdspi \<Rightarrow> (bool \<times> 'b sdspi) option" where
  "setDedicatedSpi B val c = do {
     (ok, c) \<leftarrow> syncDevice B c;
     Some (if ok then (True, c\<lparr>m_dedicatedSpi := val\<rparr>) else (False, c)) }"

section \<open>Registers\<close>

text \<open>Reading \<open>count\<close> bytes of data after a command that answered \<open>r\<close>, as the register functions do.\<close>

definition register_data :: "'b spibus \<Rightarrow> byte \<Rightarrow> nat \<Rightarrow> byte \<times> 'b sdspi \<Rightarrow> (bool \<times> byte list \<times> 'b sdspi) option" where
  "register_data B code count = (\<lambda>(r, c).
     if r \<noteq> 0 then Some (False, [], snd (fail_with B code c))
     else do {
       (ok, b, c) \<leftarrow> readData B count c;
       Some (ok, b, spiStop B c) })"

definition cardCMD6 :: "'b spibus \<Rightarrow> 32 word \<Rightarrow> 'b sdspi \<Rightarrow> (bool \<times> byte list \<times> 'b sdspi) option" where
  "cardCMD6 B arg c = Option.bind (cardCommand B CMD6 arg c) (register_data B SD_CARD_ERROR_CMD6 64)"

definition readRegister :: "'b spibus \<Rightarrow> byte \<Rightarrow> 'b sdspi \<Rightarrow> (bool \<times> byte list \<times> 'b sdspi) option" where
  "readRegister B cmd c = Option.bind (cardCommand B cmd 0 c) (register_data B SD_CARD_ERROR_READ_REG 16)"

definition readCID :: "'b spibus \<Rightarrow> 'b sdspi \<Rightarrow> (bool \<times> byte list \<times> 'b sdspi) option" where
  "readCID B c = readRegister B CMD10 c"

definition readCSD :: "'b spibus \<Rightarrow> 'b sdspi \<Rightarrow> (bool \<times> byte list \<times> 'b sdspi) option" where
  "readCSD B c = readRegister B CMD9 c"

definition readSCR :: "'b spibus \<Rightarrow> 'b sdspi \<Rightarrow> (bool \<times> byte list \<times> 'b sdspi) option" where
  "readSCR B c = Option.bind (cardAcmd B ACMD51 0 c) (register_data B SD_CARD_ERROR_ACMD51 8)"

definition readSDS :: "'b spibus \<Rightarrow> 'b sdspi \<Rightarrow> (bool \<times> byte list \<times> 'b sdspi) option" where
  "readSDS B c = do {
     (r, c) \<leftarrow> cardAcmd B ACMD13 0 c;
     register_data B SD_CARD_ERROR_ACMD13 64 (if r \<noteq> 0 then (r, c) else spiReceive B c) }"

definition readOCR :: "'b spibus \<Rightarrow> 'b sdspi \<Rightarrow> (bool \<times> 32 word \<times> 'b sdspi) option" where
  "readOCR B c = do {
     (r, c) \<leftarrow> cardCommand B CMD58 0 c;
     Some (if r \<noteq> 0 then (False, 0, snd (fail_with B SD_CARD_ERROR_CMD58 c))
           else let (xs, c) = spiReceives B 4 c
                in (True, foldl (\<lambda>w x. push_bit 8 w OR ucast x) 0 xs, spiStop B c)) }"

definition sectorCount :: "'b spibus \<Rightarrow> 'b sdspi \<Rightarrow> (32 word \<times> 'b sdspi) option" where
  "sectorCount B c = do {
     (ok, csd, c) \<leftarrow> readCSD B c;
     n \<leftarrow> (if ok then csd_capacity csd else Some 0);
     Some (n, c) }"

definition eraseSingleSectorEnable :: "'b spibus \<Rightarrow> 'b sdspi \<Rightarrow> (bool \<times> 'b sdspi) option" where
  "eraseSingleSectorEnable B c = do {
     (ok, csd, c) \<leftarrow> readCSD B c;
     Some (if ok then csd_eraseSingleBlock csd else False, c) }"

text \<open>The three commands of \<open>erase\<close>: the next one is sent only when the one before answered 0.\<close>

definition erase_commands :: "'b spibus \<Rightarrow> 32 word \<Rightarrow> 32 word \<Rightarrow> 'b sdspi \<Rightarrow> (byte \<times> 'b sdspi) option" where
  "erase_commands B lo hi c = do {
     (r, c) \<leftarrow> cardCommand B CMD32 lo c;
     (r, c) \<leftarrow> (if r \<noteq> 0 then Some (r, c) else cardCommand B CMD33 hi c);
     if r \<noteq> 0 then Some (r, c) else cardCommand B CMD38 0 c }"

definition erase :: "'b spibus \<Rightarrow> 32 word \<Rightarrow> 32 word \<Rightarrow> 'b sdspi \<Rightarrow> (bool \<times> 'b sdspi) option" where
  "erase B firstSector lastSector c = do {
     (ok, csd, c) \<leftarrow> readCSD B c;
     let m = (word_of_nat (csd_eraseSize csd) - 1 :: byte);
     if \<not> ok then Some (False, spiStop B c)
     else if \<not> csd_eraseSingleBlock csd \<and> ((firstSector AND ucast m) \<noteq> 0 \<or> ((lastSector + 1) AND ucast m) \<noteq> 0)
     then Some (fail_with B SD_CARD_ERROR_ERASE_SINGLE_SECTOR c)
     else do {
       (r, c) \<leftarrow> erase_commands B (card_address firstSector c) (card_address lastSector c) c;
       if r \<noteq> 0 then Some (fail_with B SD_CARD_ERROR_ERASE c)
       else do {
         (ok, c) \<leftarrow> waitReady B SD_ERASE_TIMEOUT c;
         Some (if ok then (True, spiStop B c) else fail_with B SD_CARD_ERROR_ERASE_TIMEOUT c) } } }"

end
