(* ===== verification/SdProtocol.thy ===== *)
theory SdProtocol
  imports SdSpiCard
begin

text \<open>
  What an SD card does on the SPI bus, as far as the driver's transfers use it, from the SD specification that
  \<open>SdCardInfo.h\<close> names: the states of the card between two bytes and the bytes it may answer. The card is free in its timing, in its
  response codes and in what it does after an error; theorems about the driver take a bus on which a card does no more than this.
\<close>

section \<open>States of the card\<close>

text \<open>
  \<open>Ready\<close> for a command, \<open>Busy\<close> with the line low, \<open>Pad p\<close>: one byte of no meaning before \<open>p\<close>, \<open>Await r p\<close>: before the response \<open>r\<close>,
  \<open>Second\<close>: before the second byte of the card status. A multi-sector read is before the token, inside the data or inside the CRC of
  a sector; a write (of many sectors, or of one) is ready for a token, takes data or CRC, answers, or is busy. \<open>Lost\<close>: anything else.
\<close>

datatype phase =
    Ready
  | Busy
  | Pad phase
  | Await byte phase
  | Second
  | ReadGap "32 word"
  | ReadData "32 word" nat
  | ReadCrc "32 word" nat
  | WriteReady "32 word" bool
  | WriteData "32 word" bool "byte list"
  | WriteCrc "32 word" bool "byte list" nat
  | WriteAnswer "32 word" bool "byte list"
  | WriteBusy "32 word" bool
  | Lost

record card =
  medium :: "32 word \<Rightarrow> byte list"
  phase :: phase
  frame :: "byte list"
  selected :: bool
  highCapacity :: bool

section \<open>Bytes\<close>

text \<open>A byte that the host receives while the card is selected.\<close>

inductive card_shows :: "card \<Rightarrow> byte \<Rightarrow> card \<Rightarrow> bool" where
  ready: "phase c = Ready \<Longrightarrow> card_shows c 0xFF c"
| busy: "phase c = Busy \<Longrightarrow> x \<noteq> 0xFF \<Longrightarrow> card_shows c x c"
| busy_ends: "phase c = Busy \<Longrightarrow> card_shows c 0xFF (c\<lparr>phase := Ready\<rparr>)"
| pad: "phase c = Pad p \<Longrightarrow> card_shows c x (c\<lparr>phase := p\<rparr>)"
| fill: "phase c = Await r p \<Longrightarrow> card_shows c 0xFF c"
| response: "phase c = Await r p \<Longrightarrow> card_shows c r (c\<lparr>phase := p\<rparr>)"
| second: "phase c = Second \<Longrightarrow> card_shows c x (c\<lparr>phase := Ready\<rparr>)"
| gap: "phase c = ReadGap s \<Longrightarrow> card_shows c 0xFF c"
| start_token: "phase c = ReadGap s \<Longrightarrow> card_shows c 0xFE (c\<lparr>phase := ReadData s 0\<rparr>)"
| error_token: "phase c = ReadGap s \<Longrightarrow> x \<noteq> 0xFF \<Longrightarrow> x \<noteq> 0xFE \<Longrightarrow> card_shows c x (c\<lparr>phase := Lost\<rparr>)"
| data: "phase c = ReadData s i \<Longrightarrow>
    card_shows c (medium c s ! i) (c\<lparr>phase := if Suc i < 512 then ReadData s (Suc i) else ReadCrc s 1\<rparr>)"
| crc: "phase c = ReadCrc s k \<Longrightarrow> card_shows c x (c\<lparr>phase := if k = 0 then ReadGap (s + 1) else ReadCrc s (k - 1)\<rparr>)"
| write_ready: "phase c = WriteReady s m \<Longrightarrow> card_shows c 0xFF c"
| accepted: "phase c = WriteAnswer s m b \<Longrightarrow> x AND 0x1F = 5 \<Longrightarrow>
    card_shows c x (c\<lparr>medium := (medium c)(s := b), phase := WriteBusy (s + 1) m\<rparr>)"
| rejected: "phase c = WriteAnswer s m b \<Longrightarrow> x AND 0x1F \<noteq> 5 \<Longrightarrow> card_shows c x (c\<lparr>phase := Lost\<rparr>)"
| write_busy: "phase c = WriteBusy s m \<Longrightarrow> x \<noteq> 0xFF \<Longrightarrow> card_shows c x c"
| write_busy_ends: "phase c = WriteBusy s m \<Longrightarrow> card_shows c 0xFF (c\<lparr>phase := if m then WriteReady s m else Ready\<rparr>)"
| lost: "phase c \<in> {Lost, WriteData s m b, WriteCrc s m b k} \<Longrightarrow> phase c' = Lost \<Longrightarrow> card_shows c x c'"

text \<open>A complete command: the card answers a byte with a clear top bit. It reads or writes from the address on only when it answers 0.\<close>

definition address_sector :: "card \<Rightarrow> 32 word \<Rightarrow> 32 word" where
  "address_sector c arg = (if highCapacity c then arg else drop_bit 9 arg)"

definition after_command :: "card \<Rightarrow> byte \<Rightarrow> 32 word \<Rightarrow> phase option" where
  "after_command c cmd arg =
     (case phase c of
        Ready \<Rightarrow>
          if cmd = CMD18 then Some (ReadGap (address_sector c arg))
          else if cmd = CMD24 then Some (WriteReady (address_sector c arg) False)
          else if cmd = CMD25 then Some (WriteReady (address_sector c arg) True)
          else if cmd = CMD13 then Some Second
          else None
      | ReadGap s \<Rightarrow> if cmd = CMD12 then Some Busy else None
      | ReadData s i \<Rightarrow> if cmd = CMD12 then Some Busy else None
      | ReadCrc s k \<Rightarrow> if cmd = CMD12 then Some Busy else None
      | _ \<Rightarrow> None)"

definition takes_commands :: "phase \<Rightarrow> bool" where
  "takes_commands p \<longleftrightarrow> (case p of Ready \<Rightarrow> True | ReadGap s \<Rightarrow> True | ReadData s i \<Rightarrow> True | ReadCrc s k \<Rightarrow> True | _ \<Rightarrow> False)"

inductive card_executes :: "card \<Rightarrow> byte list \<Rightarrow> card \<Rightarrow> bool" where
  obeyed: "after_command c (cmd XOR 0x40) (push_bit 24 (ucast a) OR push_bit 16 (ucast b) OR push_bit 8 (ucast d) OR ucast e) = Some p \<Longrightarrow>
    card_executes c [cmd, a, b, d, e, x] (c\<lparr>phase := Pad (Await 0 p), frame := []\<rparr>)"
| refused: "\<not> bit r 7 \<Longrightarrow> r \<noteq> 0 \<Longrightarrow> phase c = Ready \<Longrightarrow> card_executes c xs (c\<lparr>phase := Pad (Await r Ready), frame := []\<rparr>)"
| refused_lost: "\<not> bit r 7 \<Longrightarrow> r \<noteq> 0 \<Longrightarrow> card_executes c xs (c\<lparr>phase := Pad (Await r Lost), frame := []\<rparr>)"
| unknown: "after_command c (xs ! 0 XOR 0x40) (push_bit 24 (ucast (xs ! 1)) OR push_bit 16 (ucast (xs ! 2)) OR push_bit 8 (ucast (xs ! 3)) OR ucast (xs ! 4)) = None \<Longrightarrow>
    phase c' = Lost \<Longrightarrow> card_executes c xs c'"

text \<open>A byte that the host sends while the card is selected.\<close>

inductive card_takes :: "card \<Rightarrow> byte \<Rightarrow> card \<Rightarrow> bool" where
  command_byte: "takes_commands (phase c) \<Longrightarrow> frame c \<noteq> [] \<or> x AND 0xC0 = 0x40 \<Longrightarrow> length (frame c) < 5 \<Longrightarrow>
    card_takes c x (c\<lparr>frame := frame c @ [x]\<rparr>)"
| command_end: "takes_commands (phase c) \<Longrightarrow> length (frame c) = 5 \<Longrightarrow> card_executes c (frame c @ [x]) c' \<Longrightarrow> card_takes c x c'"
| clock: "frame c = [] \<Longrightarrow> \<not> (\<exists>s m b k. phase c = WriteData s m b \<or> phase c = WriteCrc s m b k) \<Longrightarrow> card_shows c y c' \<Longrightarrow> card_takes c 0xFF c'"
| write_token: "phase c = WriteReady s m \<Longrightarrow> x = (if m then 0xFC else 0xFE) \<Longrightarrow> card_takes c x (c\<lparr>phase := WriteData s m []\<rparr>)"
| stop_token: "phase c = WriteReady s True \<Longrightarrow> card_takes c 0xFD (c\<lparr>phase := Pad Busy\<rparr>)"
| write_data: "phase c = WriteData s m b \<Longrightarrow>
    card_takes c x (c\<lparr>phase := if Suc (length b) < 512 then WriteData s m (b @ [x]) else WriteCrc s m (b @ [x]) 1\<rparr>)"
| write_crc: "phase c = WriteCrc s m b k \<Longrightarrow>
    card_takes c x (c\<lparr>phase := if k = 0 then WriteAnswer s m b else WriteCrc s m b (k - 1)\<rparr>)"
| confused: "\<not> takes_commands (phase c) \<or> frame c = [] \<and> x AND 0xC0 \<noteq> 0x40 \<Longrightarrow> x \<noteq> 0xFF \<Longrightarrow>
    \<not> (\<exists>s m. phase c = WriteReady s m \<and> (x = (if m then 0xFC else 0xFE) \<or> m \<and> x = 0xFD)) \<Longrightarrow>
    \<not> (\<exists>s m b k. phase c = WriteData s m b \<or> phase c = WriteCrc s m b k) \<Longrightarrow> phase c' = Lost \<Longrightarrow> card_takes c x c'"
| stray: "frame c \<noteq> [] \<Longrightarrow> \<not> takes_commands (phase c) \<or> length (frame c) > 5 \<Longrightarrow>
    \<not> (\<exists>s m b k. phase c = WriteReady s m \<and> x \<noteq> 0xFF \<or> phase c = WriteData s m b \<or> phase c = WriteCrc s m b k) \<Longrightarrow>
    phase c' = Lost \<Longrightarrow> card_takes c x c'"

text \<open>While it is not selected a card goes on with what keeps it busy. Selecting it does no harm; it must not be deselected inside a transfer.\<close>

definition idle_phase :: "phase \<Rightarrow> bool" where
  "idle_phase p \<longleftrightarrow> p = Ready \<or> p = Busy \<or> p = Pad Busy"

definition card_waits :: "card \<Rightarrow> card \<Rightarrow> bool" where
  "card_waits c c' \<longleftrightarrow> (\<exists>p. c' = c\<lparr>phase := p\<rparr> \<and> (if idle_phase (phase c) then idle_phase p \<and> (phase c = Ready \<longrightarrow> p = Ready) else p = Lost))"

definition card_selects :: "card \<Rightarrow> bool \<Rightarrow> card \<Rightarrow> bool" where
  "card_selects c high c' \<longleftrightarrow>
     (if high then c' = c\<lparr>selected := False, phase := if idle_phase (phase c) \<and> frame c = [] then phase c else Lost, frame := []\<rparr>
      else c' = c\<lparr>selected := True\<rparr>)"

section \<open>A bus with a card\<close>

text \<open>\<open>view\<close> tells the state of the card from the state of the bus.\<close>

definition card_bus :: "'b spibus \<Rightarrow> ('b \<Rightarrow> card) \<Rightarrow> bool" where
  "card_bus B view \<longleftrightarrow>
     (\<forall>b x b'. bus_receive B b = (x, b') \<longrightarrow> (if selected (view b) then card_shows (view b) x (view b') else card_waits (view b) (view b'))) \<and>
     (\<forall>b x. if selected (view b) then card_takes (view b) x (view (bus_send B x b)) else card_waits (view b) (view (bus_send B x b))) \<and>
     (\<forall>b pin high. card_selects (view b) high (view (bus_csWrite B pin high b))) \<and>
     (\<forall>b t b'. bus_millis B b = (t, b') \<longrightarrow> view b' = view b)"

inductive_cases shows_cases: "card_shows c x c'"
inductive_cases takes_cases: "card_takes c x c'"
inductive_cases executes_cases: "card_executes c xs c'"

end
