(* ===== verification/SdTransfers.thy ===== *)
theory SdTransfers
  imports SdProtocol
begin

text \<open>
  The driver on a bus with a card: polling until the card is ready, commands and their responses, the start and the stop
  of a multi-sector transfer. \<open>connected\<close> says that driver and card agree on the transfer that is open; every operation that
  reports success keeps it.
\<close>

section \<open>The driver on a bus with a card\<close>

text \<open>The driver's state apart from bus and status, and the card apart from its phase.\<close>

definition same_driver :: "'b sdspi \<Rightarrow> 'b sdspi \<Rightarrow> bool" where
  "same_driver c c' \<longleftrightarrow> m_curSector c' = m_curSector c \<and> m_dedicatedSpi c' = m_dedicatedSpi c \<and> m_beginCalled c' = m_beginCalled c \<and>
     m_csPin c' = m_csPin c \<and> m_errorCode c' = m_errorCode c \<and> m_spiActive c' = m_spiActive c \<and> m_state c' = m_state c \<and>
     m_type c' = m_type c"

definition card_at :: "('b \<Rightarrow> card) \<Rightarrow> 'b sdspi \<Rightarrow> card" where
  "card_at V c = V (m_bus c)"

lemma same_driver_refl [simp]: "same_driver c c"
  by (simp add: same_driver_def)

lemma same_driver_trans: "same_driver c d \<Longrightarrow> same_driver d e \<Longrightarrow> same_driver c e"
  by (simp add: same_driver_def)

lemma same_driver_update [simp]:
  "same_driver c (c\<lparr>m_bus := b\<rparr>)" "same_driver c (c\<lparr>m_status := x\<rparr>)" "same_driver c (c\<lparr>m_bus := b, m_status := x\<rparr>)"
  by (simp_all add: same_driver_def)

lemma receive_step:
  assumes "card_bus B V" "spiReceive B c = (x, c')" "selected (card_at V c)"
  shows "card_shows (card_at V c) x (card_at V c')" "same_driver c c'" "m_status c' = m_status c"
  using assms by (auto simp: spiReceive_def card_bus_def card_at_def split: prod.splits)

lemma send_step:
  assumes "card_bus B V"
  shows "if selected (card_at V c) then card_takes (card_at V c) x (card_at V (spiSend B x c))
    else card_waits (card_at V c) (card_at V (spiSend B x c))" "same_driver c (spiSend B x c)" "m_status (spiSend B x c) = m_status c"
  using assms by (simp_all add: spiSend_def card_bus_def card_at_def)

lemma millis_step:
  assumes "card_bus B V" "millis16 B c = (t, c')"
  shows "card_at V c' = card_at V c" "same_driver c c'" "m_status c' = m_status c"
  using assms by (auto simp: millis16_def card_bus_def card_at_def split: prod.splits)

lemma timed_step:
  assumes "card_bus B V" "timedOut B e c = (late, c')"
  shows "card_at V c' = card_at V c" "same_driver c c'" "m_status c' = m_status c"
  using assms millis_step [OF assms(1), of c] by (auto simp: timedOut_def split: prod.splits)

lemma timeout_step:
  assumes "card_bus B V" "timeout_set B ms c = (e, c')"
  shows "card_at V c' = card_at V c" "same_driver c c'" "m_status c' = m_status c"
  using assms millis_step [OF assms(1), of c] by (auto simp: timeout_set_def split: prod.splits)

subsection \<open>Waiting\<close>

definition waiting :: "phase \<Rightarrow> bool" where
  "waiting p \<longleftrightarrow> p = Ready \<or> p = Busy \<or> (\<exists>s. p = WriteReady s True) \<or> (\<exists>s m. p = WriteBusy s m)"

definition ready_phase :: "phase \<Rightarrow> phase" where
  "ready_phase p = (case p of Busy \<Rightarrow> Ready | WriteBusy s m \<Rightarrow> if m then WriteReady s m else Ready | _ \<Rightarrow> p)"

lemma waiting_shows:
  assumes "card_shows k x k'" "waiting (phase k)"
  shows "if x = 0xFF then k' = k\<lparr>phase := ready_phase (phase k)\<rparr> \<or> k' = k \<and> ready_phase (phase k) = phase k else k' = k"
  using assms by (cases rule: card_shows.cases) (auto simp: waiting_def ready_phase_def)

lemma wait_loop_spec:
  fixes c :: "'a sdspi"
  assumes "card_bus B V" "wait_loop B e c = Some (ok, c')" "selected (card_at V c)" "waiting (phase (card_at V c))"
  shows "same_driver c c' \<and> (if ok then card_at V c' = (card_at V c)\<lparr>phase := ready_phase (phase (card_at V c))\<rparr>
    else card_at V c' = card_at V c)"
proof -
  have "card_bus B V \<longrightarrow> selected (card_at V c) \<longrightarrow> waiting (phase (card_at V c)) \<longrightarrow>
     same_driver c (snd (ok, c')) \<and> (if fst (ok, c') then card_at V (snd (ok, c')) = (card_at V c)\<lparr>phase := ready_phase (phase (card_at V c))\<rparr>
    else card_at V (snd (ok, c')) = card_at V c)"
    using _ assms(2)
  proof (rule wait_loop.raw_induct [where P = "\<lambda>B e c r. card_bus B V \<longrightarrow> selected (card_at V c) \<longrightarrow> waiting (phase (card_at V c)) \<longrightarrow>
     same_driver c (snd r) \<and> (if fst r then card_at V (snd r) = (card_at V c)\<lparr>phase := ready_phase (phase (card_at V c))\<rparr>
    else card_at V (snd r) = card_at V c)"], intro impI)
    fix rec B e and c :: "'a sdspi" and r
    assume IH: "\<And>B e c r. rec B e c = Some r \<Longrightarrow> card_bus B V \<longrightarrow> selected (card_at V c) \<longrightarrow> waiting (phase (card_at V c)) \<longrightarrow>
       same_driver c (snd r) \<and> (if fst r then card_at V (snd r) = (card_at V c)\<lparr>phase := ready_phase (phase (card_at V c))\<rparr>
      else card_at V (snd r) = card_at V c)"
      and b: "(case spiReceive B c of (x, c) \<Rightarrow>
        if x = 0xFF then Some (True, c)
        else case timedOut B e c of (late, c) \<Rightarrow> if late then Some (False, c) else rec B e c) = Some r"
      and a: "card_bus B V" "selected (card_at V c)" "waiting (phase (card_at V c))"
    obtain x d where x: "spiReceive B c = (x, d)" by fastforce
    note R = receive_step [OF a(1) x a(2)]
    note W = waiting_shows [OF R(1) a(3)]
    show "same_driver c (snd r) \<and> (if fst r then card_at V (snd r) = (card_at V c)\<lparr>phase := ready_phase (phase (card_at V c))\<rparr>
      else card_at V (snd r) = card_at V c)"
    proof (cases "x = 0xFF")
      case True
      then show ?thesis using b x W R(2) by auto
    next
      case False
      then have k: "card_at V d = card_at V c" using W by simp
      obtain late d' where l: "timedOut B e d = (late, d')" by fastforce
      note T = timed_step [OF a(1) l]
      have sd: "same_driver c d'" using R(2) T(2) by (rule same_driver_trans)
      show ?thesis
      proof (cases late)
        case True
        then show ?thesis using b x False l sd k T(1) by auto
      next
        case False
        then have "rec B e d' = Some r" using b x \<open>x \<noteq> 0xFF\<close> l by simp
        from IH [OF this] show ?thesis using a k T(1) same_driver_trans [OF sd, of "snd r"] by simp
      qed
    qed
  qed
  then show ?thesis using assms by (simp split: if_splits)
qed

lemma waitReady_spec:
  assumes "card_bus B V" "waitReady B ms c = Some (ok, c')" "selected (card_at V c)" "waiting (phase (card_at V c))"
  shows "same_driver c c'" "if ok then card_at V c' = (card_at V c)\<lparr>phase := ready_phase (phase (card_at V c))\<rparr>
    else card_at V c' = card_at V c"
proof -
  obtain e d where e: "timeout_set B ms c = (e, d)" by fastforce
  note T = timeout_step [OF assms(1) e]
  have "wait_loop B e d = Some (ok, c')" using assms(2) e by (simp add: waitReady_def)
  from wait_loop_spec [OF assms(1) this] assms(3,4) T
  show "same_driver c c'" "if ok then card_at V c' = (card_at V c)\<lparr>phase := ready_phase (phase (card_at V c))\<rparr>
    else card_at V c' = card_at V c" using same_driver_trans by auto
qed

subsection \<open>Bytes in a row\<close>

lemma spiReceives_Suc:
  "spiReceives B (Suc n) c = (let (x, c) = spiReceive B c; (xs, c) = spiReceives B n c in (x # xs, c))"
  by (auto simp: spiReceives_def spiReceive_def split: prod.splits)

lemma spiReceives_0 [simp]: "spiReceives B 0 c = ([], c)"
  by (simp add: spiReceives_def)

lemma spiSends_simps [simp]: "spiSends B [] c = c" "spiSends B (x # xs) c = spiSends B xs (spiSend B x c)"
  by (simp_all add: spiSends_def spiSend_def)

lemma shows_data:
  assumes "card_shows k x k'" "phase k = ReadData s i"
  shows "x = medium k s ! i" "k' = k\<lparr>phase := if Suc i < 512 then ReadData s (Suc i) else ReadCrc s 1\<rparr>"
  using assms by (auto elim: shows_cases)

lemma receive_data:
  assumes "card_bus B V"
  shows "spiReceives B n c = (xs, c') \<Longrightarrow> selected (card_at V c) \<Longrightarrow> phase (card_at V c) = ReadData s i \<Longrightarrow>
    n \<noteq> 0 \<Longrightarrow> i + n \<le> 512 \<Longrightarrow>
    xs = map ((!) (medium (card_at V c) s)) [i..<i + n] \<and> same_driver c c' \<and> m_status c' = m_status c \<and>
    card_at V c' = (card_at V c)\<lparr>phase := if i + n < 512 then ReadData s (i + n) else ReadCrc s 1\<rparr>"
proof (induction n arbitrary: c xs i)
  case (Suc n)
  obtain x d ys where x: "spiReceive B c = (x, d)" "spiReceives B n d = (ys, c')" "xs = x # ys"
    using Suc.prems(1) by (auto simp: spiReceives_Suc split: prod.splits)
  note R = receive_step [OF assms x(1) Suc.prems(2)]
  note D = shows_data [OF R(1) Suc.prems(3)]
  show ?case
  proof (cases "n = 0")
    case True
    then show ?thesis using x D R Suc.prems by simp
  next
    case False
    then have i: "Suc i < 512" using Suc.prems(5) by simp
    have "ys = map ((!) (medium (card_at V d) s)) [Suc i..<Suc i + n] \<and> same_driver d c' \<and> m_status c' = m_status d \<and>
      card_at V c' = (card_at V d)\<lparr>phase := if Suc i + n < 512 then ReadData s (Suc i + n) else ReadCrc s 1\<rparr>"
      using Suc.IH [OF x(2), of "Suc i"] D(2) i False Suc.prems by simp
    moreover have "[i..<i + Suc n] = i # [Suc i..<Suc i + n]" by (simp add: upt_rec)
    ultimately show ?thesis using x(3) D R same_driver_trans [OF R(2)] i by simp
  qed
qed simp

text \<open>The six bytes of a command.\<close>

lemma takes_frame:
  assumes "card_takes k x k'" "takes_commands (phase k)" "frame k \<noteq> [] \<or> x AND 0xC0 = 0x40"
  shows "length (frame k) < 5 \<Longrightarrow> k' = k\<lparr>frame := frame k @ [x]\<rparr>" "length (frame k) = 5 \<Longrightarrow> card_executes k (frame k @ [x]) k'"
  using assms by (auto elim!: takes_cases simp: takes_commands_def)

lemma sends_frame:
  assumes "card_bus B V" "selected (card_at V c)" "takes_commands (phase (card_at V c))" "frame (card_at V c) = []"
    and "x0 AND 0xC0 = 0x40"
  shows "card_executes ((card_at V c)\<lparr>frame := [x0, x1, x2, x3, x4]\<rparr>) [x0, x1, x2, x3, x4, x5]
      (card_at V (spiSends B [x0, x1, x2, x3, x4, x5] c))" "same_driver c (spiSends B [x0, x1, x2, x3, x4, x5] c)"
proof -
  have step: "card_at V (spiSend B x d) = (card_at V c)\<lparr>frame := xs @ [x]\<rparr>"
    if "card_at V d = (card_at V c)\<lparr>frame := xs\<rparr>" "length xs < 5" "xs \<noteq> [] \<or> x AND 0xC0 = 0x40" for d x xs
    using takes_frame(1) [of "card_at V d" x "card_at V (spiSend B x d)"] send_step(1) [OF assms(1), of d x] that assms(2,3) by simp
  have 1: "card_at V (spiSend B x0 c) = (card_at V c)\<lparr>frame := [x0]\<rparr>" using step [of c "[]" x0] assms(4,5) by simp
  have 2: "card_at V (spiSend B x1 (spiSend B x0 c)) = (card_at V c)\<lparr>frame := [x0, x1]\<rparr>" using step [OF 1, of x1] by simp
  have 3: "card_at V (spiSend B x2 (spiSend B x1 (spiSend B x0 c))) = (card_at V c)\<lparr>frame := [x0, x1, x2]\<rparr>"
    using step [OF 2, of x2] by simp
  have 4: "card_at V (spiSend B x3 (spiSend B x2 (spiSend B x1 (spiSend B x0 c)))) = (card_at V c)\<lparr>frame := [x0, x1, x2, x3]\<rparr>"
    using step [OF 3, of x3] by simp
  let ?d = "spiSend B x4 (spiSend B x3 (spiSend B x2 (spiSend B x1 (spiSend B x0 c))))"
  have 5: "card_at V ?d = (card_at V c)\<lparr>frame := [x0, x1, x2, x3, x4]\<rparr>" using step [OF 4, of x4] by simp
  have "card_takes (card_at V ?d) x5 (card_at V (spiSend B x5 ?d))" using send_step(1) [OF assms(1), of ?d x5] 5 assms(2) by simp
  from takes_frame(2) [OF this] show "card_executes ((card_at V c)\<lparr>frame := [x0, x1, x2, x3, x4]\<rparr>) [x0, x1, x2, x3, x4, x5]
      (card_at V (spiSends B [x0, x1, x2, x3, x4, x5] c))" using 5 assms(3) by simp
  show "same_driver c (spiSends B [x0, x1, x2, x3, x4, x5] c)" by (simp add: same_driver_def spiSend_def)
qed

text \<open>The response.\<close>

lemma await_shows:
  assumes "card_shows k x k'" "phase k = Await r p" "\<not> bit r 7"
  shows "x = 0xFF \<and> k' = k \<or> x = r \<and> k' = k\<lparr>phase := p\<rparr>"
  using assms by (auto elim: shows_cases)

lemma bit7: "x AND 0x80 \<noteq> 0 \<longleftrightarrow> bit (x :: byte) 7"
  using bit_iff_and_push_bit_not_eq_0 [of x 7] by (simp add: push_bit_eq_mult)

lemma response_spec:
  assumes "card_bus B V"
  shows "n \<noteq> 0 \<Longrightarrow> selected (card_at V c) \<Longrightarrow> phase (card_at V c) = Await r p \<Longrightarrow> \<not> bit r 7 \<Longrightarrow>
    same_driver c (response_loop B n c) \<and>
    (bit (m_status (response_loop B n c)) 7 \<or>
     m_status (response_loop B n c) = r \<and> card_at V (response_loop B n c) = (card_at V c)\<lparr>phase := p\<rparr>)"
proof (induction n arbitrary: c)
  case (Suc n)
  obtain x d where x: "spiReceive B c = (x, d)" by fastforce
  note R = receive_step [OF assms x Suc.prems(2)]
  consider (fill) "x = 0xFF" "card_at V d = card_at V c" | (resp) "x = r" "card_at V d = (card_at V c)\<lparr>phase := p\<rparr>"
    using await_shows [OF R(1) Suc.prems(3,4)] by blast
  then show ?case
  proof cases
    case resp
    then show ?thesis using x R(2) Suc.prems(4) by (simp add: Let_def bit7 same_driver_def card_at_def)
  next
    case fill
    let ?d = "d\<lparr>m_status := x\<rparr>"
    have e: "response_loop B (Suc n) c = response_loop B n ?d" using x fill by (simp add: Let_def)
    have k: "card_at V ?d = card_at V c" "same_driver c ?d" using fill(2) R(2) by (simp_all add: card_at_def same_driver_def)
    show ?thesis
    proof (cases "n = 0")
      case True
      have "bit (0xFF :: byte) 7" by simp
      then show ?thesis using True e k fill(1) by simp
    next
      case False
      from Suc.IH [OF this, of ?d] show ?thesis
        using k Suc.prems same_driver_trans [OF k(2), of "response_loop B n ?d"] by (simp only: e) simp
    qed
  qed
qed simp

subsection \<open>Starting and stopping the port\<close>

text \<open>
  The driver agrees with the card: between transfers the card is idle, in a multi-sector transfer it is at the sector
  \<open>m_curSector\<close>.
\<close>

definition card_sane :: "'b sdspi \<Rightarrow> card \<Rightarrow> bool" where
  "card_sane c k \<longleftrightarrow> frame k = [] \<and> (m_type c = SD_CARD_TYPE_SDHC \<longleftrightarrow> highCapacity k) \<and> (\<forall>s. length (medium k s) = 512)"

definition connected :: "('b \<Rightarrow> card) \<Rightarrow> 'b sdspi \<Rightarrow> bool" where
  "connected V c \<longleftrightarrow> card_sane c (card_at V c) \<and>
     (case m_state c of
        IDLE_STATE \<Rightarrow>
          if m_spiActive c then selected (card_at V c) \<and> (phase (card_at V c) = Ready \<or> phase (card_at V c) = Busy)
          else idle_phase (phase (card_at V c))
      | READ_STATE \<Rightarrow> m_spiActive c \<and> selected (card_at V c) \<and> phase (card_at V c) = ReadGap (m_curSector c)
      | WRITE_STATE \<Rightarrow> m_spiActive c \<and> selected (card_at V c) \<and>
          (phase (card_at V c) = WriteReady (m_curSector c) True \<or> phase (card_at V c) = WriteBusy (m_curSector c) True))"

text \<open>Only the state of the port and of the transfer changed.\<close>

definition same_card :: "('b \<Rightarrow> card) \<Rightarrow> 'b sdspi \<Rightarrow> 'b sdspi \<Rightarrow> bool" where
  "same_card V c c' \<longleftrightarrow> medium (card_at V c') = medium (card_at V c) \<and> highCapacity (card_at V c') = highCapacity (card_at V c) \<and>
     m_type c' = m_type c \<and> m_dedicatedSpi c' = m_dedicatedSpi c \<and> m_curSector c' = m_curSector c"

lemma same_card_refl [simp]: "same_card V c c"
  by (simp add: same_card_def)

lemma same_card_trans: "same_card V c d \<Longrightarrow> same_card V d e \<Longrightarrow> same_card V c e"
  by (simp add: same_card_def)

lemma same_driver_card:
  "same_driver c c' \<Longrightarrow> card_at V c' = (card_at V c)\<lparr>phase := p\<rparr> \<Longrightarrow> same_card V c c'"
  "same_driver c c' \<Longrightarrow> card_at V c' = card_at V c \<Longrightarrow> same_card V c c'"
  by (simp_all add: same_card_def same_driver_def)

lemma spiStart_spec:
  assumes "card_bus B V" "connected V c" "m_state c = IDLE_STATE"
  shows "connected V (spiStart B c)" "m_spiActive (spiStart B c)" "m_state (spiStart B c) = IDLE_STATE" "same_card V c (spiStart B c)"
proof -
  have "connected V (spiStart B c) \<and> m_spiActive (spiStart B c) \<and> m_state (spiStart B c) = IDLE_STATE \<and> same_card V c (spiStart B c)"
  proof (cases "m_spiActive c")
    case True
    then show ?thesis using assms by (simp add: spiStart_def)
  next
    case False
    let ?d = "spiSelect B (c\<lparr>m_spiActive := True\<rparr>)" and ?e = "spiSend B 0xFF (spiSelect B (c\<lparr>m_spiActive := True\<rparr>))"
    have e: "spiStart B c = ?e" using False by (simp add: spiStart_def)
    have d: "card_at V ?d = (card_at V c)\<lparr>selected := True\<rparr>"
      using assms(1) by (simp add: card_bus_def card_at_def spiSelect_def card_selects_def)
    have i: "idle_phase (phase (card_at V c))" "frame (card_at V c) = []"
      using assms(2,3) False by (simp_all add: connected_def card_sane_def)
    have "card_takes (card_at V ?d) 0xFF (card_at V ?e)" using send_step(1) [OF assms(1), of ?d] d by simp
    then have "card_at V ?e = (card_at V c)\<lparr>selected := True, phase := Ready\<rparr> \<or> card_at V ?e = (card_at V c)\<lparr>selected := True, phase := Busy\<rparr>"
      using i d by (auto elim!: takes_cases shows_cases simp: idle_phase_def takes_commands_def)
    moreover have "m_spiActive ?e" "m_state ?e = IDLE_STATE" "m_type ?e = m_type c" "m_dedicatedSpi ?e = m_dedicatedSpi c"
      "m_curSector ?e = m_curSector c"
      using assms(3) by (simp_all add: spiSend_def spiSelect_def)
    ultimately show ?thesis using assms(2) e by (auto simp: connected_def card_sane_def same_card_def)
  qed
  then show "connected V (spiStart B c)" "m_spiActive (spiStart B c)" "m_state (spiStart B c) = IDLE_STATE" "same_card V c (spiStart B c)"
    by simp_all
qed

lemma spiStop_spec:
  assumes "card_bus B V" "card_sane c (card_at V c)" "idle_phase (phase (card_at V c))" "m_state c = IDLE_STATE" "m_spiActive c"
  shows "connected V (spiStop B c) \<and> m_state (spiStop B c) = IDLE_STATE \<and> same_card V c (spiStop B c)"
proof -
  let ?d = "spiUnselect B c" and ?e = "spiSend B 0xFF (spiUnselect B c)"
  have e: "spiStop B c = ?e\<lparr>m_spiActive := False\<rparr>" using assms(5) by (simp add: spiStop_def)
  have d: "card_at V ?d = (card_at V c)\<lparr>selected := False, frame := []\<rparr>"
    using assms(1-3) by (simp add: card_bus_def card_at_def spiUnselect_def card_selects_def card_sane_def)
  have "card_waits (card_at V ?d) (card_at V ?e)" using send_step(1) [OF assms(1), of ?d] d by simp
  then obtain p where "card_at V ?e = (card_at V c)\<lparr>selected := False, frame := [], phase := p\<rparr>" "idle_phase p"
    using d assms(3) by (auto simp: card_waits_def)
  then show ?thesis using assms(2,4) e
    by (simp add: connected_def card_sane_def same_card_def card_at_def spiSend_def spiUnselect_def)
qed

subsection \<open>Commands\<close>

lemma command_frame_bytes:
  "push_bit 24 (ucast (ucast (drop_bit 24 a) :: byte)) OR push_bit 16 (ucast (ucast (drop_bit 16 a) :: byte)) OR
   push_bit 8 (ucast (ucast (drop_bit 8 a) :: byte)) OR ucast (ucast a :: byte) = (a :: 32 word)" (is "?l = a")
proof (rule bit_word_eqI)
  fix n assume "n < LENGTH(32)"
  then have n: "n < 32" by simp
  have "n < 8 \<or> 8 \<le> n \<and> n < 16 \<or> 16 \<le> n \<and> n < 24 \<or> 24 \<le> n \<and> n < 32" using n by linarith
  then show "bit ?l n = bit a n"
    by (elim disjE) (auto simp: bit_simps)
qed

lemma executes_frame:
  assumes "card_executes k (command_frame cmd arg) k'" "cmd XOR 0x40 = cmd OR 0x40"
  shows "(\<exists>p. after_command k cmd arg = Some p \<and> k' = k\<lparr>phase := Pad (Await 0 p), frame := []\<rparr>) \<or>
    (\<exists>r p. r \<noteq> 0 \<and> \<not> bit r 7 \<and> k' = k\<lparr>phase := Pad (Await r p), frame := []\<rparr>) \<or> after_command k cmd arg = None"
proof -
  have "(cmd OR 0x40) XOR 0x40 = cmd" using assms(2) by (metis xor.right_neutral xor_self_eq xor.assoc)
  with assms(1) show ?thesis
    by (auto elim!: executes_cases simp: command_frame_def command_frame_bytes)
qed

lemma after_command_frame: "after_command (k\<lparr>frame := xs\<rparr>) cmd arg = after_command k cmd arg"
proof -
  have "address_sector (k\<lparr>frame := xs\<rparr>) = address_sector k" by (simp add: address_sector_def fun_eq_iff)
  then show ?thesis by (cases "phase k") (simp_all add: after_command_def)
qed

lemma send_command_spec:
  assumes "card_bus B V" "send_command B cmd arg c = Some (r, c')"
    and "m_state c = IDLE_STATE" "m_spiActive c" "card_sane c (card_at V c)" "selected (card_at V c)"
    and "if cmd = CMD12 then \<exists>s. phase (card_at V c) = ReadGap s else cmd \<noteq> CMD0 \<and> (phase (card_at V c) = Ready \<or> phase (card_at V c) = Busy)"
    and "cmd XOR 0x40 = cmd OR 0x40" "(cmd OR 0x40) AND 0xC0 = 0x40"
    and "after_command ((card_at V c)\<lparr>phase := ready_phase (phase (card_at V c))\<rparr>) cmd arg = Some p"
    and "r = 0"
  shows "same_driver c c' \<and> card_at V c' = (card_at V c)\<lparr>phase := p\<rparr>"
proof -
  have st: "spiStart B c = c" using assms(4) by (simp add: spiStart_def)
  let ?k = "(card_at V c)\<lparr>phase := ready_phase (phase (card_at V c))\<rparr>"
  obtain ok d where d: "(if cmd \<noteq> CMD0 \<and> cmd \<noteq> CMD12 then waitReady B SD_CMD_TIMEOUT c else Some (True, c)) = Some (ok, d)"
    using assms(2) st by (auto simp: send_command_def split: Option.bind_splits)
  have ok: ok
  proof (rule ccontr)
    assume "\<not> ok"
    then have "r = 0xFF" using assms(2) st d by (auto simp: send_command_def)
    then show False using assms(11) by simp
  qed
  have D: "same_driver c d" "card_at V d = ?k"
  proof (atomize (full), cases "cmd = CMD12")
    case True
    then have "d = c" "ready_phase (phase (card_at V c)) = phase (card_at V c)"
      using d assms(7) by (auto simp: ready_phase_def)
    then show "same_driver c d \<and> card_at V d = ?k" by simp
  next
    case False
    then have w: "waitReady B SD_CMD_TIMEOUT c = Some (True, d)" "waiting (phase (card_at V c))"
      using d assms(7) ok by (auto simp: waiting_def)
    show "same_driver c d \<and> card_at V d = ?k" using waitReady_spec [OF assms(1) w(1) assms(6) w(2)] by simp
  qed
  let ?f = "command_frame cmd arg"
  let ?e = "spiSends B ?f d"
  let ?g = "snd (spiReceive B ?e)"
  have r: "r = m_status (response_loop B 10 ?g)" "c' = response_loop B 10 ?g"
    using assms(2) st d ok by (auto simp: send_command_def Let_def)
  have tc: "takes_commands (phase ?k)" using assms(7) by (auto simp: takes_commands_def ready_phase_def split: if_split_asm)
  have fr: "frame (card_at V d) = []" "selected (card_at V d)" using D(2) assms(5,6) by (simp_all add: card_sane_def)
  have tcd: "takes_commands (phase (card_at V d))" using D(2) tc by simp
  obtain xs where ex: "card_executes (?k\<lparr>frame := xs\<rparr>) ?f (card_at V ?e)"
    using sends_frame(1) [OF assms(1) fr(2) tcd fr(1) assms(9), folded command_frame_def] D(2)
    by (simp add: command_frame_def) metis
  have se: "same_driver d ?e" by (simp add: same_driver_def spiSends_def)
  have ac: "after_command (?k\<lparr>frame := xs\<rparr>) cmd arg = Some p"
    using assms(10) by (simp add: after_command_frame)
  obtain q s where q: "card_at V ?e = (card_at V c)\<lparr>phase := Pad (Await q s), frame := []\<rparr>" "\<not> bit q 7" "q = 0 \<longrightarrow> s = p"
    using executes_frame [OF ex assms(8)] ac by fastforce
  have "frame (card_at V c) = []" using assms(5) by (simp add: card_sane_def)
  then have qe: "card_at V ?e = (card_at V c)\<lparr>phase := Pad (Await q s)\<rparr>" using q(1) by (cases "card_at V c") simp
  obtain x g where g: "spiReceive B ?e = (x, g)" by fastforce
  have sel: "selected (card_at V ?e)" using qe assms(6) by simp
  note R = receive_step [OF assms(1) g sel]
  have gk: "card_at V g = (card_at V c)\<lparr>phase := Await q s\<rparr>" using R(1) qe by (auto elim: shows_cases)
  have "same_driver g c' \<and> (bit (m_status c') 7 \<or> m_status c' = q \<and> card_at V c' = (card_at V g)\<lparr>phase := s\<rparr>)"
    using response_spec [OF assms(1), of 10 g q s] gk q(2) assms(6) r(2) g by simp
  moreover have "m_status c' = 0" using r assms(11) by simp
  ultimately have "same_driver g c'" "card_at V c' = (card_at V c)\<lparr>phase := p\<rparr>" using gk q(3) by auto
  then show ?thesis using D(1) se R(2) same_driver_trans by metis
qed

subsection \<open>Ending a transfer\<close>

lemma sane_phase: "card_sane c k \<Longrightarrow> card_sane c (k\<lparr>phase := p\<rparr>)"
  by (simp add: card_sane_def)

lemma sane_driver: "card_sane c k \<Longrightarrow> same_driver c c' \<Longrightarrow> card_sane c' k"
  by (simp add: card_sane_def same_driver_def)

lemma readStop_spec:
  assumes "card_bus B V" "connected V c" "m_state c = READ_STATE" "readStop B c = Some (True, c')"
  shows "connected V c' \<and> m_state c' = IDLE_STATE \<and> same_card V c c'"
proof -
  let ?c = "c\<lparr>m_state := IDLE_STATE\<rparr>"
  have k: "card_at V ?c = card_at V c" by (simp add: card_at_def)
  have C: "m_spiActive ?c" "card_sane ?c (card_at V ?c)" "selected (card_at V ?c)" "phase (card_at V c) = ReadGap (m_curSector c)"
    using assms(2,3) by (simp_all add: connected_def k card_sane_def)
  obtain d where d: "send_command B CMD12 0 ?c = Some (0, d)" "c' = spiStop B d"
    using assms(4) by (auto simp: readStop_def fail_with_def split: Option.bind_splits if_split_asm)
  have "same_driver ?c d \<and> card_at V d = (card_at V ?c)\<lparr>phase := Busy\<rparr>"
    by (rule send_command_spec [OF assms(1) d(1) _ C(1-3)]) (use C(4) k in \<open>simp_all add: after_command_def ready_phase_def\<close>)
  then have D: "same_driver ?c d" "card_at V d = (card_at V c)\<lparr>phase := Busy\<rparr>" using k by simp_all
  have "card_sane d (card_at V d)" "idle_phase (phase (card_at V d))" "m_state d = IDLE_STATE" "m_spiActive d"
    using D C k by (simp_all add: card_sane_def same_driver_def idle_phase_def)
  from spiStop_spec [OF assms(1) this] D d(2) show ?thesis by (auto simp: same_card_def same_driver_def)
qed

lemma writeStop_spec:
  assumes "card_bus B V" "connected V c" "m_state c = WRITE_STATE" "writeStop B c = Some (True, c')"
  shows "connected V c' \<and> m_state c' = IDLE_STATE \<and> same_card V c c'"
proof -
  let ?s = "m_curSector c"
  have C: "m_spiActive c" "card_sane c (card_at V c)" "selected (card_at V c)"
    "phase (card_at V c) = WriteReady ?s True \<or> phase (card_at V c) = WriteBusy ?s True"
    using assms(2,3) by (simp_all add: connected_def)
  obtain d where d: "waitReady B SD_WRITE_TIMEOUT c = Some (True, d)" "c' = (spiStop B (spiSend B STOP_TRAN_TOKEN d))\<lparr>m_state := IDLE_STATE\<rparr>"
    using assms(4) by (auto simp: writeStop_def fail_with_def split: Option.bind_splits if_split_asm)
  have "waiting (phase (card_at V c))" "ready_phase (phase (card_at V c)) = WriteReady ?s True"
    using C(4) by (auto simp: waiting_def ready_phase_def)
  with waitReady_spec [OF assms(1) d(1) C(3)]
  have W: "same_driver c d" "card_at V d = (card_at V c)\<lparr>phase := WriteReady ?s True\<rparr>" by simp_all
  let ?e = "spiSend B STOP_TRAN_TOKEN d"
  have e: "same_driver d ?e" by (rule send_step(2) [OF assms(1)])
  have "card_takes (card_at V d) 0xFD (card_at V ?e)" using send_step(1) [OF assms(1), of d] W(2) C(3) by simp
  then have ek: "card_at V ?e = (card_at V c)\<lparr>phase := Pad Busy\<rparr>"
    using W(2) C(2) by (auto elim!: takes_cases simp: takes_commands_def card_sane_def)
  let ?f = "?e\<lparr>m_state := IDLE_STATE\<rparr>"
  have f: "spiStop B ?f = (spiStop B ?e)\<lparr>m_state := IDLE_STATE\<rparr>"
    by (simp add: spiStop_def spiSend_def spiUnselect_def)
  have fk: "card_at V ?f = (card_at V c)\<lparr>phase := Pad Busy\<rparr>" using ek by (simp add: card_at_def)
  have "card_sane ?f (card_at V ?f)" "idle_phase (phase (card_at V ?f))" "m_state ?f = IDLE_STATE" "m_spiActive ?f"
    using fk C(1,2) W(1) e by (simp_all add: card_sane_def same_driver_def idle_phase_def)
  from spiStop_spec [OF assms(1) this] fk d(2) f W(1) e show ?thesis by (auto simp: same_card_def same_driver_def)
qed

lemma syncDevice_spec:
  assumes "card_bus B V" "connected V c" "syncDevice B c = Some (True, c')"
  shows "connected V c' \<and> m_state c' = IDLE_STATE \<and> same_card V c c'"
  using readStop_spec [OF assms(1,2)] writeStop_spec [OF assms(1,2)] assms(2,3)
  by (cases "m_state c") (auto simp: syncDevice_def)

subsection \<open>Starting a transfer\<close>

lemma cardCommand_spec:
  assumes "card_bus B V" "connected V c" "cardCommand B cmd arg c = Some (0, c')"
    and "cmd \<in> {CMD13, CMD18, CMD24, CMD25}"
    and "\<And>k. medium k = medium (card_at V c) \<Longrightarrow> highCapacity k = highCapacity (card_at V c) \<Longrightarrow> phase k = Ready \<Longrightarrow>
      after_command k cmd arg = Some p"
  shows "m_spiActive c' \<and> selected (card_at V c') \<and> card_sane c' (card_at V c') \<and> phase (card_at V c') = p \<and> m_state c' = IDLE_STATE \<and>
    same_card V c c'"
proof -
  obtain d where d: "syncDevice B c = Some (True, d)" "send_command B cmd arg d = Some (0, c')"
    using assms(3) by (auto simp: cardCommand_def split: Option.bind_splits if_split_asm)
  have D: "connected V d" "m_state d = IDLE_STATE" "same_card V c d" using syncDevice_spec [OF assms(1,2) d(1)] by simp_all
  let ?e = "spiStart B d"
  note E = spiStart_spec [OF assms(1) D(1,2)]
  have "send_command B cmd arg ?e = Some (0, c')"
    using d(2) E(2) by (simp add: send_command_def) (simp add: spiStart_def)
  moreover have S: "card_sane ?e (card_at V ?e)" "selected (card_at V ?e)" "phase (card_at V ?e) = Ready \<or> phase (card_at V ?e) = Busy"
    using E(1-3) by (simp_all add: connected_def)
  moreover have "after_command ((card_at V ?e)\<lparr>phase := ready_phase (phase (card_at V ?e))\<rparr>) cmd arg = Some p"
    by (rule assms(5)) (use D(3) E(4) S(3) in \<open>auto simp: same_card_def ready_phase_def\<close>)
  ultimately have "same_driver ?e c' \<and> card_at V c' = (card_at V ?e)\<lparr>phase := p\<rparr>"
    using E(2,3) assms(4) by (intro send_command_spec [OF assms(1), of cmd arg ?e 0 c' p]) auto
  then show ?thesis using E S D(3) by (auto simp: same_card_def same_driver_def card_sane_def)
qed

text \<open>The sectors that the driver can address.\<close>

definition addressable :: "'b sdspi \<Rightarrow> 32 word \<Rightarrow> bool" where
  "addressable c s \<longleftrightarrow> m_type c = SD_CARD_TYPE_SDHC \<or> unat s < 2 ^ 23"

lemma address_back:
  assumes "addressable c s" "card_sane c k"
  shows "address_sector k (card_address s c) = s"
proof (cases "m_type c = SD_CARD_TYPE_SDHC")
  case True
  then show ?thesis using assms(2) by (simp add: address_sector_def card_address_def card_sane_def)
next
  case False
  then have "unat s < 2 ^ 23" using assms(1) by (simp add: addressable_def)
  have t: "take_bit 32 (unat s * 2 ^ 9) = unat s * 2 ^ 9"
    using \<open>unat s < 2 ^ 23\<close> by (intro take_bit_nat_eq_self) simp
  have "unat (drop_bit 9 (push_bit 9 s)) = drop_bit 9 (unat s * 2 ^ 9)"
    by (simp only: unat_drop_bit_eq unsigned_push_bit_eq) (use t in \<open>simp add: push_bit_eq_mult\<close>)
  then have "unat (drop_bit 9 (push_bit 9 s)) = unat s" by (simp add: drop_bit_eq_div)
  then have "drop_bit 9 (push_bit 9 s) = s" by (simp only: word_unat_eq_iff)
  then show ?thesis using False assms(2) by (simp add: address_sector_def card_address_def card_sane_def)
qed

lemma start_command:
  assumes "card_bus B V" "connected V c" "addressable c s" "cardCommand B cmd (card_address s c) c = Some (0, c')"
    and "cmd \<in> {CMD18, CMD24, CMD25}"
  defines "p \<equiv> if cmd = CMD18 then ReadGap s else WriteReady s (cmd = CMD25)"
  shows "m_spiActive c' \<and> selected (card_at V c') \<and> card_sane c' (card_at V c') \<and> phase (card_at V c') = p \<and> m_state c' = IDLE_STATE \<and>
    same_card V c c'"
proof -
  have "after_command k cmd (card_address s c) = Some p"
    if "medium k = medium (card_at V c)" "highCapacity k = highCapacity (card_at V c)" "phase k = Ready" for k
  proof -
    have "card_sane c (k\<lparr>frame := []\<rparr>)" using assms(2) that by (simp add: connected_def card_sane_def)
    from address_back [OF assms(3) this] have "address_sector k (card_address s c) = s" by (simp add: address_sector_def)
    then show ?thesis using that(3) assms(5) by (auto simp: after_command_def p_def)
  qed
  from cardCommand_spec [OF assms(1,2,4) _ this] assms(5) show ?thesis by blast
qed

lemma readStart_spec:
  assumes "card_bus B V" "connected V c" "addressable c s" "readStart B s c = Some (True, c')"
  shows "connected V (c'\<lparr>m_curSector := s\<rparr>) \<and> m_state c' = READ_STATE \<and> same_card V c c'"
proof -
  obtain d where d: "cardCommand B CMD18 (card_address s c) c = Some (0, d)" "c' = d\<lparr>m_state := READ_STATE\<rparr>"
    using assms(4) by (auto simp: readStart_def fail_with_def split: Option.bind_splits if_split_asm)
  from start_command [OF assms(1-3) d(1)] d(2) show ?thesis
    by (auto simp: connected_def card_at_def same_card_def card_sane_def)
qed

lemma writeStart_spec:
  assumes "card_bus B V" "connected V c" "addressable c s" "writeStart B s c = Some (True, c')"
  shows "connected V (c'\<lparr>m_curSector := s\<rparr>) \<and> m_state c' = WRITE_STATE \<and> same_card V c c'"
proof -
  obtain d where d: "cardCommand B CMD25 (card_address s c) c = Some (0, d)" "c' = d\<lparr>m_state := WRITE_STATE\<rparr>"
    using assms(4) by (auto simp: writeStart_def fail_with_def split: Option.bind_splits if_split_asm)
  from start_command [OF assms(1-3) d(1)] d(2) show ?thesis
    by (auto simp: connected_def card_at_def same_card_def card_sane_def)
qed

end
