(* ===== verification/SdSectors.thy ===== *)
theory SdSectors
  imports SdTransfers SectorCache
begin

text \<open>
  Reading and writing sectors, on a bus with a card: a read that succeeds returns the contents of the medium, a write that
  succeeds has stored its sectors and no others. On a bus whose clock runs, every operation returns.
\<close>

subsection \<open>Reading sectors\<close>

lemma gap_shows:
  assumes "card_shows k x k'" "phase k = ReadGap s"
  shows "x = 0xFF \<and> k' = k \<or> x = 0xFE \<and> k' = k\<lparr>phase := ReadData s 0\<rparr> \<or> x \<noteq> 0xFF \<and> x \<noteq> 0xFE"
  using assms by (auto elim: shows_cases)

lemma token_loop_spec:
  fixes c :: "'a sdspi"
  assumes "card_bus B V" "token_loop B e c = Some (True, c')" "selected (card_at V c)" "phase (card_at V c) = ReadGap s"
    and "m_status c' = 0xFE"
  shows "same_driver c c' \<and> card_at V c' = (card_at V c)\<lparr>phase := ReadData s 0\<rparr>"
proof -
  have "card_bus B V \<longrightarrow> fst (True, c') \<longrightarrow> selected (card_at V c) \<longrightarrow> phase (card_at V c) = ReadGap s \<longrightarrow> m_status (snd (True, c')) = 0xFE \<longrightarrow>
      same_driver c (snd (True, c')) \<and> card_at V (snd (True, c')) = (card_at V c)\<lparr>phase := ReadData s 0\<rparr>"
    using _ assms(2)
  proof (rule token_loop.raw_induct [where P = "\<lambda>B e c r. card_bus B V \<longrightarrow> fst r \<longrightarrow> selected (card_at V c) \<longrightarrow>
      phase (card_at V c) = ReadGap s \<longrightarrow> m_status (snd r) = 0xFE \<longrightarrow>
      same_driver c (snd r) \<and> card_at V (snd r) = (card_at V c)\<lparr>phase := ReadData s 0\<rparr>"], intro impI)
    fix rec B e and c :: "'a sdspi" and r
    assume IH: "\<And>B e c r. rec B e c = Some r \<Longrightarrow> card_bus B V \<longrightarrow> fst r \<longrightarrow> selected (card_at V c) \<longrightarrow>
        phase (card_at V c) = ReadGap s \<longrightarrow> m_status (snd r) = 0xFE \<longrightarrow>
        same_driver c (snd r) \<and> card_at V (snd r) = (card_at V c)\<lparr>phase := ReadData s 0\<rparr>"
      and b: "(case spiReceive B c of (x, c) \<Rightarrow>
        if x \<noteq> 0xFF then Some (True, c\<lparr>m_status := x\<rparr>)
        else case timedOut B e (c\<lparr>m_status := x\<rparr>) of (late, c) \<Rightarrow>
          if late then Some (False, c) else rec B e c) = Some r"
      and a: "card_bus B V" "fst r" "selected (card_at V c)" "phase (card_at V c) = ReadGap s" "m_status (snd r) = 0xFE"
    obtain x d where x: "spiReceive B c = (x, d)" by fastforce
    note R = receive_step [OF a(1) x a(3)]
    note G = gap_shows [OF R(1) a(4)]
    let ?d = "d\<lparr>m_status := x\<rparr>"
    have k: "card_at V ?d = card_at V d" "same_driver c ?d" using R(2) by (simp_all add: card_at_def same_driver_def)
    show "same_driver c (snd r) \<and> card_at V (snd r) = (card_at V c)\<lparr>phase := ReadData s 0\<rparr>"
    proof (cases "x = 0xFF")
      case False
      then have "r = (True, ?d)" using b x by auto
      then show ?thesis using G k a(5) False by auto
    next
      case True
      obtain late f where f: "timedOut B e ?d = (late, f)" by fastforce
      note T = timed_step [OF a(1) f]
      have "rec B e f = Some r" using b x True f a(2) by (auto split: if_split_asm)
      from IH [OF this] show ?thesis
        using a G True k T(1) same_driver_trans [OF same_driver_trans [OF k(2) T(2)], of "snd r"] by simp
    qed
  qed
  then show ?thesis using assms by simp
qed

lemma crc_shows:
  assumes "card_shows k x k'" "phase k = ReadCrc s n"
  shows "k' = k\<lparr>phase := if n = 0 then ReadGap (s + 1) else ReadCrc s (n - 1)\<rparr>"
  using assms by (auto elim: shows_cases)

lemma readData_spec:
  assumes "card_bus B V" "readData B 512 c = Some (True, b, c')" "selected (card_at V c)" "phase (card_at V c) = ReadGap s"
    and "length (medium (card_at V c) s) = 512"
  shows "b = medium (card_at V c) s \<and> same_driver c c' \<and> card_at V c' = (card_at V c)\<lparr>phase := ReadGap (s + 1)\<rparr>"
proof -
  obtain e d where e: "timeout_set B SD_READ_TIMEOUT c = (e, d)" by fastforce
  note T = timeout_step [OF assms(1) e]
  obtain f where f: "token_loop B e d = Some (True, f)" "m_status f = 0xFE"
    using assms(2) e by (auto simp: readData_def Let_def split: Option.bind_splits if_split_asm)
  have sd: "selected (card_at V d)" "phase (card_at V d) = ReadGap s" using T(1) assms(3,4) by simp_all
  note F = token_loop_spec [OF assms(1) f(1) sd f(2)]
  obtain dst g where g: "spiReceives B 512 f = (dst, g)" by fastforce
  have sf: "selected (card_at V f)" "phase (card_at V f) = ReadData s 0" using F sd by simp_all
  have G: "dst = map ((!) (medium (card_at V f) s)) [0..<512]" "same_driver f g" "card_at V g = (card_at V f)\<lparr>phase := ReadCrc s 1\<rparr>"
    using receive_data [OF assms(1) g sf] by simp_all
  let ?g = "g\<lparr>m_status := 0\<rparr>"
  obtain x h where h: "spiReceive B ?g = (x, h)" by fastforce
  obtain y i where i: "spiReceive B h = (y, i)" by fastforce
  have gk: "card_at V ?g = card_at V g" by (simp add: card_at_def)
  have sg: "selected (card_at V ?g)" using gk G(3) sf by simp
  note H = receive_step [OF assms(1) h sg]
  have hk: "card_at V h = (card_at V f)\<lparr>phase := ReadCrc s 0\<rparr>" using crc_shows [OF H(1), of s 1] gk G(3) by simp
  have sh: "selected (card_at V h)" using hk sf by simp
  note I = receive_step [OF assms(1) i sh]
  have ik: "card_at V i = (card_at V f)\<lparr>phase := ReadGap (s + 1)\<rparr>" using crc_shows [OF I(1), of s 0] hk by simp
  have r: "b = dst" "c' = i" using assms(2) e f g h i by (simp_all add: readData_def Let_def)
  have m: "medium (card_at V f) = medium (card_at V c)" using F T(1) by simp
  have "map ((!) (medium (card_at V f) s)) [0..<512] = medium (card_at V c) s"
    unfolding m using map_nth [of "medium (card_at V c) s"] by (simp only: assms(5))
  then have "b = medium (card_at V c) s" using r(1) G(1) by (simp only:)
  moreover have "same_driver c c'" using T(2) F G(2) H(2) I(2) r(2) by (simp add: same_driver_def)
  moreover have "card_at V c' = (card_at V c)\<lparr>phase := ReadGap (s + 1)\<rparr>" using ik F T(1) r(2) by simp
  ultimately show ?thesis by blast
qed

lemma read_loop_sectors:
  assumes "card_bus B V"
  shows "read_sectors_loop B n dst c = Some (True, b, c') \<Longrightarrow> selected (card_at V c) \<Longrightarrow> phase (card_at V c) = ReadGap s \<Longrightarrow>
    \<forall>s. length (medium (card_at V c) s) = 512 \<Longrightarrow>
    b = dst @ concat (map (\<lambda>i. medium (card_at V c) (s + word_of_nat i)) [0..<n]) \<and> same_driver c c' \<and>
    card_at V c' = (card_at V c)\<lparr>phase := ReadGap (s + word_of_nat n)\<rparr>"
proof (induction n arbitrary: dst c s)
  case 0
  then show ?case by (cases "card_at V c'") simp
next
  case (Suc n)
  obtain x d where x: "readData B 512 c = Some (True, x, d)" "read_sectors_loop B n (dst @ x) d = Some (True, b, c')"
    using Suc.prems(1) by (auto split: Option.bind_splits if_split_asm)
  have X: "x = medium (card_at V c) s" "same_driver c d" "card_at V d = (card_at V c)\<lparr>phase := ReadGap (s + 1)\<rparr>"
    using readData_spec [OF assms x(1) Suc.prems(2,3)] Suc.prems(4) by simp_all
  have I: "b = (dst @ x) @ concat (map (\<lambda>i. medium (card_at V d) (s + 1 + word_of_nat i)) [0..<n])" "same_driver d c'"
    "card_at V c' = (card_at V d)\<lparr>phase := ReadGap (s + 1 + word_of_nat n)\<rparr>"
  proof -
    have "selected (card_at V d)" "phase (card_at V d) = ReadGap (s + 1)" "\<forall>s. length (medium (card_at V d) s) = 512"
      using X(3) Suc.prems(2,4) by simp_all
    from Suc.IH [OF x(2) this] show "b = (dst @ x) @ concat (map (\<lambda>i. medium (card_at V d) (s + 1 + word_of_nat i)) [0..<n])"
      "same_driver d c'" "card_at V c' = (card_at V d)\<lparr>phase := ReadGap (s + 1 + word_of_nat n)\<rparr>" by blast+
  qed
  have "[0..<Suc n] = 0 # map Suc [0..<n]" by (simp add: map_Suc_upt upt_conv_Cons del: upt_Suc)
  then have "map (\<lambda>i. medium (card_at V c) (s + word_of_nat i)) [0..<Suc n] =
      medium (card_at V c) s # map (\<lambda>i. medium (card_at V d) (s + 1 + word_of_nat i)) [0..<n]"
    using X(3) by (simp add: comp_def ac_simps del: upt_Suc)
  then show ?case using I X same_driver_trans [OF X(2) I(2)] by (simp add: ac_simps)
qed

lemma connected_reading:
  assumes "card_sane c (card_at V c)" "m_spiActive c" "selected (card_at V c)" "phase (card_at V c) = ReadGap s" "m_state c = READ_STATE"
  shows "connected V (c\<lparr>m_curSector := s\<rparr>)"
  using assms by (simp add: connected_def card_at_def card_sane_def)

lemma readSectors_spec:
  assumes "card_bus B V" "connected V c" "addressable c s" "readSectors B s n c = Some (True, b, c')"
  shows "b = concat (map (\<lambda>i. medium (card_at V c) (s + word_of_nat i)) [0..<n]) \<and> connected V c' \<and>
    medium (card_at V c') = medium (card_at V c) \<and> m_type c' = m_type c \<and> m_dedicatedSpi c' = m_dedicatedSpi c"
proof -
  obtain d where d: "(if m_state c \<noteq> READ_STATE \<or> s \<noteq> m_curSector c
      then do { (ok, c) \<leftarrow> readStart B s c; Some (ok, if ok then c\<lparr>m_curSector := s\<rparr> else c) }
      else Some (True, c)) = Some (True, d)"
    and l: "Option.bind (read_sectors_loop B n [] d) (\<lambda>(ok, dst, c).
       if \<not> ok then Some (False, dst, c)
       else let c = c\<lparr>m_curSector := m_curSector c + word_of_nat n\<rparr>
            in if m_dedicatedSpi c then Some (True, dst, c)
               else do { (ok, c) \<leftarrow> readStop B c; Some (ok, dst, c) }) = Some (True, b, c')"
    using assms(4) by (auto simp: readSectors_def split: Option.bind_splits if_split_asm)
  have "connected V d \<and> m_state d = READ_STATE \<and> m_curSector d = s \<and> medium (card_at V d) = medium (card_at V c) \<and>
      m_type d = m_type c \<and> m_dedicatedSpi d = m_dedicatedSpi c"
  proof (cases "m_state c \<noteq> READ_STATE \<or> s \<noteq> m_curSector c")
    case True
    then obtain e where e: "readStart B s c = Some (True, e)" "d = e\<lparr>m_curSector := s\<rparr>"
      using d by (auto split: Option.bind_splits if_split_asm)
    from readStart_spec [OF assms(1-3) e(1)] e(2) show ?thesis
      by (simp add: same_card_def card_at_def)
  next
    case False
    then show ?thesis using d assms(2) by simp
  qed
  then have D: "connected V d" "m_state d = READ_STATE" "m_curSector d = s" "medium (card_at V d) = medium (card_at V c)"
    "m_type d = m_type c" "m_dedicatedSpi d = m_dedicatedSpi c" by simp_all
  have P: "selected (card_at V d)" "phase (card_at V d) = ReadGap s" "card_sane d (card_at V d)" "m_spiActive d"
    using D(1-3) by (simp_all add: connected_def)
  obtain f where f: "read_sectors_loop B n [] d = Some (True, b, f)"
    "(let c = f\<lparr>m_curSector := m_curSector f + word_of_nat n\<rparr>
      in if m_dedicatedSpi c then Some (True, b, c) else do { (ok, c) \<leftarrow> readStop B c; Some (ok, b, c) }) = Some (True, b, c')"
    using l by (auto simp: Let_def split: Option.bind_splits if_split_asm)
  have "\<forall>s. length (medium (card_at V d) s) = 512" using P(3) by (simp add: card_sane_def)
  from read_loop_sectors [OF assms(1) f(1) P(1,2) this]
  have F: "b = concat (map (\<lambda>i. medium (card_at V c) (s + word_of_nat i)) [0..<n])" "same_driver d f"
    "card_at V f = (card_at V d)\<lparr>phase := ReadGap (s + word_of_nat n)\<rparr>" using D(4) by simp_all
  let ?f = "f\<lparr>m_curSector := m_curSector f + word_of_nat n\<rparr>"
  have cur: "m_curSector f = s" using F(2) D(3) by (simp add: same_driver_def)
  have "connected V (f\<lparr>m_curSector := s + word_of_nat n\<rparr>)"
    by (rule connected_reading) (use F(2,3) P D(2) in \<open>simp_all add: same_driver_def card_sane_def\<close>)
  then have cf: "connected V ?f" using cur by simp
  have fm: "medium (card_at V ?f) = medium (card_at V c)" "m_type ?f = m_type c" "m_dedicatedSpi ?f = m_dedicatedSpi c" "m_state ?f = READ_STATE"
    using F(2,3) D by (simp_all add: same_driver_def card_at_def)
  show ?thesis
  proof (cases "m_dedicatedSpi ?f")
    case True
    then have "c' = ?f" using f(2) by (simp add: Let_def)
    then show ?thesis using F(1) cf fm by simp
  next
    case False
    then have "readStop B ?f = Some (True, c')" using f(2) by (auto simp: Let_def split: Option.bind_splits)
    from readStop_spec [OF assms(1) cf fm(4) this] show ?thesis using F(1) fm by (simp add: same_card_def)
  qed
qed

subsection \<open>Writing sectors\<close>

lemma takes_data:
  assumes "card_takes k x k'" "phase k = WriteData s m b"
  shows "k' = k\<lparr>phase := if Suc (length b) < 512 then WriteData s m (b @ [x]) else WriteCrc s m (b @ [x]) 1\<rparr>"
  using assms by (auto elim!: takes_cases simp: takes_commands_def)

lemma takes_crc:
  assumes "card_takes k x k'" "phase k = WriteCrc s m b n"
  shows "k' = k\<lparr>phase := if n = 0 then WriteAnswer s m b else WriteCrc s m b (n - 1)\<rparr>"
  using assms by (auto elim!: takes_cases simp: takes_commands_def)

lemma takes_token:
  assumes "card_takes k x k'" "phase k = WriteReady s m" "x = (if m then 0xFC else 0xFE)"
  shows "k' = k\<lparr>phase := WriteData s m []\<rparr>"
  using assms by (auto elim!: takes_cases simp: takes_commands_def split: if_split_asm)

lemma send_data:
  assumes "card_bus B V"
  shows "selected (card_at V c) \<Longrightarrow> phase (card_at V c) = WriteData s m b \<Longrightarrow> xs \<noteq> [] \<Longrightarrow> length b + length xs \<le> 512 \<Longrightarrow>
    same_driver c (spiSends B xs c) \<and>
    card_at V (spiSends B xs c) = (card_at V c)\<lparr>phase := if length b + length xs < 512 then WriteData s m (b @ xs) else WriteCrc s m (b @ xs) 1\<rparr>"
proof (induction xs arbitrary: c b)
  case (Cons x xs)
  let ?d = "spiSend B x c"
  have t: "card_at V ?d = (card_at V c)\<lparr>phase := if Suc (length b) < 512 then WriteData s m (b @ [x]) else WriteCrc s m (b @ [x]) 1\<rparr>"
    using takes_data [OF _ Cons.prems(2), of x "card_at V ?d"] send_step(1) [OF assms, of c x] Cons.prems(1) by simp
  have sd: "same_driver c ?d" by (rule send_step(2) [OF assms])
  show ?case
  proof (cases "xs = []")
    case True
    then show ?thesis using t sd by simp
  next
    case False
    then have "Suc (length b) < 512" using Cons.prems(4) by (cases xs) auto
    then have "selected (card_at V ?d)" "phase (card_at V ?d) = WriteData s m (b @ [x])" using t Cons.prems(1) by simp_all
    from Cons.IH [OF this False] Cons.prems(4) t same_driver_trans [OF sd, of "spiSends B xs ?d"] show ?thesis by simp
  qed
qed simp

lemma answer_shows:
  assumes "card_shows k x k'" "phase k = WriteAnswer s m b" "x AND 0x1F = 5"
  shows "k' = k\<lparr>medium := (medium k)(s := b), phase := WriteBusy (s + 1) m\<rparr>"
  using assms by (auto elim: shows_cases)

lemma send_sector_spec:
  assumes "card_bus B V" "send_sector B (if m then 0xFC else 0xFE) src c = (True, c')" "selected (card_at V c)"
    and "phase (card_at V c) = WriteReady s m" "length src = 512"
  shows "same_driver c c' \<and> card_at V c' = (card_at V c)\<lparr>medium := (medium (card_at V c))(s := src), phase := WriteBusy (s + 1) m\<rparr>"
proof -
  let ?t = "spiSend B (if m then 0xFC else 0xFE) c"
  let ?d = "spiSends B src ?t"
  let ?e = "spiSend B 0xFF ?d"
  let ?f = "spiSend B 0xFF ?e"
  have t: "card_at V ?t = (card_at V c)\<lparr>phase := WriteData s m []\<rparr>"
    using takes_token [OF _ assms(4), of "if m then 0xFC else 0xFE" "card_at V ?t"] send_step(1) [OF assms(1), of c "if m then 0xFC else 0xFE"] assms(3)
    by simp
  have "src \<noteq> []" using assms(5) by auto
  have d: "same_driver ?t ?d" "card_at V ?d = (card_at V c)\<lparr>phase := WriteCrc s m src 1\<rparr>"
    using send_data [OF assms(1), of ?t s m "[]" src] t assms(3,5) \<open>src \<noteq> []\<close> by simp_all
  have e: "card_at V ?e = (card_at V c)\<lparr>phase := WriteCrc s m src 0\<rparr>"
    using takes_crc [of "card_at V ?d" "0xFF" "card_at V ?e" s m src 1] send_step(1) [OF assms(1), of ?d "0xFF"] d(2) assms(3) by simp
  have f: "card_at V ?f = (card_at V c)\<lparr>phase := WriteAnswer s m src\<rparr>"
    using takes_crc [of "card_at V ?e" "0xFF" "card_at V ?f" s m src 0] send_step(1) [OF assms(1), of ?e "0xFF"] e assms(3) by simp
  obtain x g where g: "spiReceive B ?f = (x, g)" by fastforce
  have sf: "selected (card_at V ?f)" using f assms(3) by simp
  note G = receive_step [OF assms(1) g sf]
  have x: "x AND 0x1F = 5" "c' = g\<lparr>m_status := x\<rparr>"
    using assms(2) g by (auto simp: send_sector_def Let_def fail_with_def split: if_split_asm)
  have "card_at V g = (card_at V c)\<lparr>medium := (medium (card_at V c))(s := src), phase := WriteBusy (s + 1) m\<rparr>"
    using answer_shows [OF G(1) _ x(1), of s m src] f by (cases "card_at V c") simp
  moreover have "same_driver c ?f" using send_step(2) [OF assms(1)] d(1) same_driver_trans by metis
  ultimately show ?thesis using G(2) x(2) by (simp add: card_at_def same_driver_def)
qed

lemma writeData_spec:
  assumes "card_bus B V" "writeData B src c = Some (True, c')" "selected (card_at V c)"
    and "phase (card_at V c) = WriteReady s True \<or> phase (card_at V c) = WriteBusy s True" "length src = 512"
  shows "same_driver c c' \<and> card_at V c' = (card_at V c)\<lparr>medium := (medium (card_at V c))(s := src), phase := WriteBusy (s + 1) True\<rparr>"
proof -
  obtain d where d: "waitReady B SD_WRITE_TIMEOUT c = Some (True, d)" "send_sector B WRITE_MULTIPLE_TOKEN src d = (True, c')"
    using assms(2) by (auto simp: writeData_def Let_def fail_with_def split: Option.bind_splits if_split_asm prod.splits)
  have "waiting (phase (card_at V c))" "ready_phase (phase (card_at V c)) = WriteReady s True"
    using assms(4) by (auto simp: waiting_def ready_phase_def)
  with waitReady_spec [OF assms(1) d(1) assms(3)]
  have D: "same_driver c d" "card_at V d = (card_at V c)\<lparr>phase := WriteReady s True\<rparr>" by simp_all
  then have "selected (card_at V d)" "phase (card_at V d) = WriteReady s True" using assms(3) by simp_all
  from send_sector_spec [OF assms(1) _ this assms(5), of c'] d(2) D same_driver_trans [OF D(1), of c'] show ?thesis
    by (cases "card_at V c") simp
qed

lemma put_sectors_Suc:
  assumes "n < 2 ^ 32"
  shows "put_sectors s (Suc n) bs m = put_sectors (s + 1) n (drop 512 bs) (m(s := take 512 bs))"
proof
  fix t
  show "put_sectors s (Suc n) bs m t = put_sectors (s + 1) n (drop 512 bs) (m(s := take 512 bs)) t"
  proof (cases "t = s")
    case True
    have "unat (s - (s + 1)) = 2 ^ 32 - 1" by (simp add: unsigned_minus_1_eq_mask mask_eq_exp_minus_1)
    then show ?thesis using True assms by (simp add: put_sectors_def)
  next
    case False
    have "t - s = (t - (s + 1)) + 1" "t - s \<noteq> 0" using False by simp_all
    then have u: "unat (t - s) = Suc (unat (t - (s + 1)))" using unatSuc [of "t - (s + 1)"] by (simp add: add.commute)
    define k where "k = unat (t - (s + 1))"
    show ?thesis unfolding put_sectors_def u k_def [symmetric] using False by (simp add: add.commute)
  qed
qed

lemma put_sectors_0 [simp]: "put_sectors s 0 bs m = m"
  by (simp add: put_sectors_def fun_eq_iff)

lemma write_loop_sectors:
  assumes "card_bus B V"
  shows "write_sectors_loop B n src c = Some (True, c') \<Longrightarrow> selected (card_at V c) \<Longrightarrow>
    phase (card_at V c) = WriteReady s True \<or> phase (card_at V c) = WriteBusy s True \<Longrightarrow> length src = 512 * n \<Longrightarrow> n \<le> 2 ^ 32 \<Longrightarrow>
    same_driver c c' \<and> (\<exists>p. card_at V c' = (card_at V c)\<lparr>medium := put_sectors s n src (medium (card_at V c)), phase := p\<rparr> \<and>
      (p = WriteReady (s + word_of_nat n) True \<or> p = WriteBusy (s + word_of_nat n) True))"
proof (induction n arbitrary: src c s)
  case 0
  then show ?case by (auto intro!: exI [of _ "phase (card_at V c)"])
next
  case (Suc n)
  obtain d where x: "writeData B (take 512 src) c = Some (True, d)" "write_sectors_loop B n (drop 512 src) d = Some (True, c')"
    using Suc.prems(1) by (auto split: Option.bind_splits if_split_asm)
  have X: "same_driver c d"
    "card_at V d = (card_at V c)\<lparr>medium := (medium (card_at V c))(s := take 512 src), phase := WriteBusy (s + 1) True\<rparr>"
    using writeData_spec [OF assms x(1) Suc.prems(2,3)] Suc.prems(4) by simp_all
  have "selected (card_at V d)" "phase (card_at V d) = WriteReady (s + 1) True \<or> phase (card_at V d) = WriteBusy (s + 1) True"
    "length (drop 512 src) = 512 * n" "n \<le> 2 ^ 32" using X(2) Suc.prems(2,4,5) by simp_all
  from Suc.IH [OF x(2) this] obtain p where I: "same_driver d c'"
    "card_at V c' = (card_at V d)\<lparr>medium := put_sectors (s + 1) n (drop 512 src) (medium (card_at V d)), phase := p\<rparr>"
    "p = WriteReady (s + 1 + word_of_nat n) True \<or> p = WriteBusy (s + 1 + word_of_nat n) True" by blast
  have "put_sectors s (Suc n) src (medium (card_at V c)) = put_sectors (s + 1) n (drop 512 src) (medium (card_at V d))"
    using X(2) put_sectors_Suc [of n s src] Suc.prems(5) by simp
  then show ?case using I X same_driver_trans [OF X(1) I(1)] by (auto simp: ac_simps intro!: exI [of _ p])
qed

lemma connected_writing:
  assumes "card_sane c (card_at V c)" "m_spiActive c" "selected (card_at V c)" "m_state c = WRITE_STATE"
    "phase (card_at V c) = WriteReady s True \<or> phase (card_at V c) = WriteBusy s True"
  shows "connected V (c\<lparr>m_curSector := s\<rparr>)"
  using assms by (simp add: connected_def card_at_def card_sane_def)

lemma length_put_sectors:
  assumes "\<forall>s. length (m s) = 512" "length bs = 512 * n"
  shows "length (put_sectors s n bs m t) = 512"
proof -
  have "512 * n - 512 * unat (t - s) \<ge> 512" if "unat (t - s) < n"
    using mult_le_mono2 [of "Suc (unat (t - s))" n 512] that by (simp add: algebra_simps)
  then show ?thesis using assms by (auto simp: put_sectors_def)
qed

lemma writeSectors_spec:
  assumes "card_bus B V" "connected V c" "addressable c s" "writeSectors B s n src c = Some (True, c')"
    and "length src = 512 * n" "n \<le> 2 ^ 32"
  shows "connected V c' \<and> medium (card_at V c') = put_sectors s n src (medium (card_at V c)) \<and> m_type c' = m_type c \<and>
    m_dedicatedSpi c' = m_dedicatedSpi c"
proof -
  obtain d where d: "(if m_state c \<noteq> WRITE_STATE \<or> m_curSector c \<noteq> s
      then do { (ok, c) \<leftarrow> writeStart B s c; Some (ok, if ok then c\<lparr>m_curSector := s\<rparr> else c) }
      else Some (True, c)) = Some (True, d)"
    and l: "Option.bind (write_sectors_loop B n src d) (\<lambda>(ok, c).
       if \<not> ok then Some (False, spiStop B c)
       else let c = c\<lparr>m_curSector := m_curSector c + word_of_nat n\<rparr>
            in if m_dedicatedSpi c then Some (True, c) else writeStop B c) = Some (True, c')"
    using assms(4) by (auto simp: writeSectors_def split: Option.bind_splits if_split_asm)
  have "connected V d \<and> m_state d = WRITE_STATE \<and> m_curSector d = s \<and> medium (card_at V d) = medium (card_at V c) \<and>
      m_type d = m_type c \<and> m_dedicatedSpi d = m_dedicatedSpi c"
  proof (cases "m_state c \<noteq> WRITE_STATE \<or> m_curSector c \<noteq> s")
    case True
    then obtain e where e: "writeStart B s c = Some (True, e)" "d = e\<lparr>m_curSector := s\<rparr>"
      using d by (auto split: Option.bind_splits if_split_asm)
    from writeStart_spec [OF assms(1-3) e(1)] e(2) show ?thesis by (simp add: same_card_def card_at_def)
  next
    case False
    then show ?thesis using d assms(2) by simp
  qed
  then have D: "connected V d" "m_state d = WRITE_STATE" "m_curSector d = s" "medium (card_at V d) = medium (card_at V c)"
    "m_type d = m_type c" "m_dedicatedSpi d = m_dedicatedSpi c" by simp_all
  have P: "selected (card_at V d)" "phase (card_at V d) = WriteReady s True \<or> phase (card_at V d) = WriteBusy s True"
    "card_sane d (card_at V d)" "m_spiActive d"
    using D(1-3) by (simp_all add: connected_def)
  obtain f where f: "write_sectors_loop B n src d = Some (True, f)"
    "(let c = f\<lparr>m_curSector := m_curSector f + word_of_nat n\<rparr>
      in if m_dedicatedSpi c then Some (True, c) else writeStop B c) = Some (True, c')"
    using l by (auto simp: Let_def split: Option.bind_splits if_split_asm)
  obtain p where F: "same_driver d f"
    "card_at V f = (card_at V d)\<lparr>medium := put_sectors s n src (medium (card_at V c)), phase := p\<rparr>"
    "p = WriteReady (s + word_of_nat n) True \<or> p = WriteBusy (s + word_of_nat n) True"
    using write_loop_sectors [OF assms(1) f(1) P(1,2) assms(5,6)] D(4) by auto
  let ?f = "f\<lparr>m_curSector := m_curSector f + word_of_nat n\<rparr>"
  have cur: "m_curSector f = s" using F(1) D(3) by (simp add: same_driver_def)
  have "card_sane f (card_at V f)"
    using F(1,2) P(3) D(4) length_put_sectors [OF _ assms(5)] by (simp add: card_sane_def same_driver_def)
  then have "connected V (f\<lparr>m_curSector := s + word_of_nat n\<rparr>)"
    by (rule connected_writing) (use F P D(2) in \<open>simp_all add: same_driver_def\<close>)
  then have cf: "connected V ?f" using cur by simp
  have fm: "medium (card_at V ?f) = put_sectors s n src (medium (card_at V c))" "m_type ?f = m_type c"
    "m_dedicatedSpi ?f = m_dedicatedSpi c" "m_state ?f = WRITE_STATE"
    using F(1,2) D by (simp_all add: same_driver_def card_at_def)
  show ?thesis
  proof (cases "m_dedicatedSpi ?f")
    case True
    then have "c' = ?f" using f(2) by (simp add: Let_def)
    then show ?thesis using cf fm by simp
  next
    case False
    then have "writeStop B ?f = Some (True, c')" using f(2) by (simp add: Let_def)
    from writeStop_spec [OF assms(1) cf fm(4) this] show ?thesis using fm by (simp add: same_card_def)
  qed
qed

subsection \<open>A single sector without dedicated SPI\<close>

lemma writeSector_spec:
  assumes "card_bus B V" "connected V c" "addressable c s" "writeSector B s src c = Some (True, c')" "length src = 512"
  shows "connected V c' \<and> medium (card_at V c') = (medium (card_at V c))(s := src) \<and> m_type c' = m_type c \<and>
    m_dedicatedSpi c' = m_dedicatedSpi c"
proof (cases "m_dedicatedSpi c")
  case True
  then have "writeSectors B s (Suc 0) src c = Some (True, c')" using assms(4) by (simp add: writeSector_def)
  from writeSectors_spec [OF assms(1-3) this] assms(5) show ?thesis using put_sectors_Suc [of 0 s src] by simp
next
  case False
  obtain d e where d: "cardCommand B CMD24 (card_address s c) c = Some (0, d)" "send_sector B DATA_START_SECTOR src d = (True, e)"
    and r: "Option.bind (waitReady B SD_WRITE_TIMEOUT e) (\<lambda>(ok, c).
      if \<not> ok then Some (fail_with B SD_CARD_ERROR_WRITE_PROGRAMMING c)
      else do {
        (r, c) \<leftarrow> cardCommand B CMD13 0 c;
        let (x, c) = (if r \<noteq> 0 then (r, c) else spiReceive B c);
        Some (if x \<noteq> 0 then fail_with B SD_CARD_ERROR_CMD13 c else (True, spiStop B c)) }) = Some (True, c')"
    using assms(4) False
    by (auto simp: writeSector_def Let_def fail_with_def split: Option.bind_splits if_split_asm prod.splits)
  have D: "m_spiActive d" "selected (card_at V d)" "card_sane d (card_at V d)" "phase (card_at V d) = WriteReady s False" "m_state d = IDLE_STATE"
    "same_card V c d" using start_command [OF assms(1-3) d(1)] by simp_all
  have E: "same_driver d e" "card_at V e = (card_at V d)\<lparr>medium := (medium (card_at V d))(s := src), phase := WriteBusy (s + 1) False\<rparr>"
    using send_sector_spec [OF assms(1) _ D(2,4) assms(5), of e] d(2) by simp_all
  obtain f where f: "waitReady B SD_WRITE_TIMEOUT e = Some (True, f)"
    and r2: "Option.bind (cardCommand B CMD13 0 f) (\<lambda>(r, c).
      let (x, c) = (if r \<noteq> 0 then (r, c) else spiReceive B c)
      in Some (if x \<noteq> 0 then fail_with B SD_CARD_ERROR_CMD13 c else (True, spiStop B c))) = Some (True, c')"
    using r by (auto simp: fail_with_def split: Option.bind_splits if_split_asm)
  have "selected (card_at V e)" "waiting (phase (card_at V e))" "ready_phase (phase (card_at V e)) = Ready"
    using E(2) D(2) by (auto simp: waiting_def ready_phase_def)
  with waitReady_spec [OF assms(1) f this(1,2)]
  have F: "same_driver e f" "card_at V f = (card_at V e)\<lparr>phase := Ready\<rparr>" by simp_all
  have sane: "card_sane f (card_at V f)"
    using D(3) E F assms(5) by (simp add: card_sane_def same_driver_def)
  then have cf: "connected V f" using D E F by (simp add: connected_def same_driver_def)
  obtain g x h where g: "cardCommand B CMD13 0 f = Some (0, g)" "spiReceive B g = (0, h)" "c' = spiStop B h"
    using r2 by (auto simp: fail_with_def split: Option.bind_splits if_split_asm prod.splits)
  have G: "m_spiActive g" "selected (card_at V g)" "card_sane g (card_at V g)" "phase (card_at V g) = Second" "m_state g = IDLE_STATE"
    "same_card V f g"
    using cardCommand_spec [OF assms(1) cf g(1), of Second] by (simp_all add: after_command_def)
  note H = receive_step [OF assms(1) g(2) G(2)]
  have hk: "card_at V h = (card_at V g)\<lparr>phase := Ready\<rparr>" using H(1) G(4) by (auto elim: shows_cases)
  have "card_sane h (card_at V h)" "idle_phase (phase (card_at V h))" "m_state h = IDLE_STATE" "m_spiActive h"
    using hk H(2) G by (simp_all add: card_sane_def same_driver_def idle_phase_def)
  from spiStop_spec [OF assms(1) this]
  have "connected V c'" "same_card V h c'" using g(3) by simp_all
  then show ?thesis using hk H(2) G(6) F E D(6) by (simp add: same_card_def same_driver_def)
qed

section \<open>The operations return\<close>

text \<open>
  Time as the bus passes through it, in microseconds: receiving a byte takes some, at most a second, and \<open>millis\<close> counts it.
\<close>

definition clock_runs :: "'b spibus \<Rightarrow> ('b \<Rightarrow> nat) \<Rightarrow> bool" where
  "clock_runs B T \<longleftrightarrow>
     (\<forall>b x b'. bus_receive B b = (x, b') \<longrightarrow> T b < T b' \<and> T b' \<le> T b + 1000000) \<and>
     (\<forall>b t b'. bus_millis B b = (t, b') \<longrightarrow> t = word_of_nat (T b div 1000) \<and> T b \<le> T b' \<and> T b' \<le> T b + 1000000)"

lemma late_iff:
  assumes "n \<le> e + 32768" "e \<le> n + 32767"
  shows "sint (word_of_nat e - word_of_nat n :: 16 word) < 0 \<longleftrightarrow> e < n"
proof -
  have "word_of_nat e - word_of_nat n = (word_of_int (int e - int n) :: 16 word)" by simp
  then have "sint (word_of_nat e - word_of_nat n :: 16 word) = signed_take_bit 15 (int e - int n)"
    by (simp only: sint_sbintrunc') simp
  also have "\<dots> = int e - int n" using assms by (intro signed_take_bit_int_eq_self) simp_all
  finally show ?thesis by simp
qed

lemma timed_at:
  assumes "clock_runs B T" "timedOut B (word_of_nat e) c = (late, c')" "T (m_bus c) div 1000 \<le> e + 32768"
  shows "e < T (m_bus c) div 1000 \<Longrightarrow> late" "T (m_bus c) \<le> T (m_bus c') \<and> T (m_bus c') \<le> T (m_bus c) + 1000000"
proof -
  obtain t b where m: "bus_millis B (m_bus c) = (t, b)" by fastforce
  then have t: "t = word_of_nat (T (m_bus c) div 1000)" "T (m_bus c) \<le> T b" "T b \<le> T (m_bus c) + 1000000"
    using assms(1) by (auto simp: clock_runs_def)
  have u: "ucast (word_of_nat n :: 32 word) = (word_of_nat n :: 16 word)" for n by (simp add: unsigned_of_nat word_of_nat_eq_iff)
  have r: "late = (sint (word_of_nat e - word_of_nat (T (m_bus c) div 1000) :: 16 word) < 0)" "c' = c\<lparr>m_bus := b\<rparr>"
    using assms(2) m t(1) by (auto simp: timedOut_def millis16_def u)
  show "T (m_bus c) \<le> T (m_bus c') \<and> T (m_bus c') \<le> T (m_bus c) + 1000000" using r(2) t by simp
  assume "e < T (m_bus c) div 1000"
  then show late using late_iff [of "T (m_bus c) div 1000" e] assms(3) r(1) by simp
qed

lemma receive_time:
  assumes "clock_runs B T" "spiReceive B c = (x, c')"
  shows "T (m_bus c) < T (m_bus c')" "T (m_bus c') \<le> T (m_bus c) + 1000000"
  using assms by (auto simp: spiReceive_def clock_runs_def split: prod.splits)

text \<open>Both polling loops end: the time of the last poll that is not late is at most the end time.\<close>

lemma poll_progress:
  assumes "clock_runs B T" "spiReceive B c = (x, d)" "m_bus d' = m_bus d" "timedOut B (word_of_nat e) d' = (False, f)"
    and "T (m_bus c) div 1000 \<le> e + 1001"
  shows "T (m_bus c) < T (m_bus f)" "T (m_bus c) < 1000 * e + 1000" "T (m_bus f) div 1000 \<le> e + 1001"
proof -
  note R = receive_time [OF assms(1,2)]
  have "T (m_bus d') div 1000 \<le> e + 32768" using R(2) assms(3,5) by simp
  note t = timed_at [OF assms(1,4) this]
  have now: "T (m_bus d) div 1000 \<le> e" using t(1) assms(3) by (metis not_le)
  then have "T (m_bus d) < 1000 * e + 1000" by linarith
  then show "T (m_bus c) < 1000 * e + 1000" "T (m_bus c) < T (m_bus f)" using R(1) t(2) assms(3) by simp_all
  have "T (m_bus f) \<le> T (m_bus d) + 1000000" using t(2) assms(3) by simp
  then show "T (m_bus f) div 1000 \<le> e + 1001" using \<open>T (m_bus d) < 1000 * e + 1000\<close> by linarith
qed

lemma wait_loop_returns:
  assumes "clock_runs B T"
  shows "T (m_bus c) div 1000 \<le> e + 1001 \<Longrightarrow> \<exists>r. wait_loop B (word_of_nat e) c = Some r"
proof (induction "1000 * e + 1000 - T (m_bus c)" arbitrary: c rule: less_induct)
  case less
  obtain x d where x: "spiReceive B c = (x, d)" by fastforce
  obtain late f where f: "timedOut B (word_of_nat e) d = (late, f)" by fastforce
  show ?case
  proof (cases "x \<noteq> 0xFF \<and> \<not> late")
    case True
    then have "timedOut B (word_of_nat e) d = (False, f)" using f by simp
    note P = poll_progress [OF assms x refl this less.prems]
    then have "1000 * e + 1000 - T (m_bus f) < 1000 * e + 1000 - T (m_bus c)" by linarith
    from less.hyps [OF this P(3)] True x f show ?thesis by (subst wait_loop.simps) simp
  next
    case False
    then show ?thesis using x f by (subst wait_loop.simps) auto
  qed
qed

lemma token_loop_returns:
  assumes "clock_runs B T"
  shows "T (m_bus c) div 1000 \<le> e + 1001 \<Longrightarrow> \<exists>r. token_loop B (word_of_nat e) c = Some r"
proof (induction "1000 * e + 1000 - T (m_bus c)" arbitrary: c rule: less_induct)
  case less
  obtain x d where x: "spiReceive B c = (x, d)" by fastforce
  let ?d = "d\<lparr>m_status := x\<rparr>"
  obtain late f where f: "timedOut B (word_of_nat e) ?d = (late, f)" by fastforce
  show ?case
  proof (cases "x = 0xFF \<and> \<not> late")
    case True
    then have "timedOut B (word_of_nat e) ?d = (False, f)" using f by simp
    note P = poll_progress [OF assms x _ this less.prems]
    then have "1000 * e + 1000 - T (m_bus f) < 1000 * e + 1000 - T (m_bus c)" by simp
    from less.hyps [OF this] P True x f show ?thesis by (subst token_loop.simps) simp
  next
    case False
    then show ?thesis using x f by (subst token_loop.simps) auto
  qed
qed

lemma timeout_at:
  assumes "clock_runs B T" "timeout_set B ms c = (e, c')"
  shows "\<exists>n. e = word_of_nat n \<and> T (m_bus c') div 1000 \<le> n + 1001"
proof -
  obtain t b where m: "bus_millis B (m_bus c) = (t, b)" by fastforce
  then have t: "t = word_of_nat (T (m_bus c) div 1000)" "T b \<le> T (m_bus c) + 1000000"
    using assms(1) by (auto simp: clock_runs_def)
  have u: "ucast (word_of_nat n :: 32 word) = (word_of_nat n :: 16 word)" for n
    by (simp add: unsigned_of_nat word_of_nat_eq_iff)
  have "e = word_of_nat (unat ms + T (m_bus c) div 1000)" "c' = c\<lparr>m_bus := b\<rparr>"
    using assms(2) m t(1) by (auto simp: timeout_set_def millis16_def u)
  then show ?thesis using t(2) by (intro exI [of _ "unat ms + T (m_bus c) div 1000"]) simp
qed

named_theorems returns "the operations of the driver return"

definition terminates :: "'r option \<Rightarrow> bool" where
  "terminates f \<longleftrightarrow> f \<noteq> None"

lemma terminates_simps [simp]:
  "terminates (Some r)" "terminates (Option.bind f g) \<longleftrightarrow> terminates f \<and> (\<forall>r. f = Some r \<longrightarrow> terminates (g r))"
  by (cases f; simp add: terminates_def)+

lemma waitReady_returns [returns]: "clock_runs B T \<Longrightarrow> terminates (waitReady B ms c)"
  using timeout_at wait_loop_returns by (fastforce simp: waitReady_def terminates_def split: prod.splits)

lemma send_command_returns [returns]: "clock_runs B T \<Longrightarrow> terminates (send_command B cmd arg c)"
  by (simp add: send_command_def Let_def returns split: prod.split)

lemma stop_returns [returns]: "clock_runs B T \<Longrightarrow> terminates (readStop B c)" "clock_runs B T \<Longrightarrow> terminates (writeStop B c)"
  by (simp_all add: readStop_def writeStop_def returns split: prod.split)

lemma sync_returns [returns]: "clock_runs B T \<Longrightarrow> terminates (syncDevice B c)"
  by (simp add: syncDevice_def returns split: sd_state.split)

lemma command_returns [returns]: "clock_runs B T \<Longrightarrow> terminates (cardCommand B cmd arg c)"
  by (simp add: cardCommand_def returns split: prod.split)

lemma readData_returns [returns]: "clock_runs B T \<Longrightarrow> terminates (readData B n c)"
proof -
  assume T: "clock_runs B T"
  obtain e d where e: "timeout_set B SD_READ_TIMEOUT c = (e, d)" by fastforce
  then have "terminates (token_loop B e d)" using timeout_at [OF T e] token_loop_returns [OF T, of d] by (auto simp: terminates_def)
  then show ?thesis using e by (simp add: readData_def Let_def split: prod.split)
qed

lemma writeData_returns [returns]: "clock_runs B T \<Longrightarrow> terminates (writeData B src c)"
  by (simp add: writeData_def Let_def returns split: prod.split)

lemma start_returns [returns]: "clock_runs B T \<Longrightarrow> terminates (readStart B s c)" "clock_runs B T \<Longrightarrow> terminates (writeStart B s c)"
  by (simp_all add: readStart_def writeStart_def returns split: prod.split)

lemma loops_return [returns]:
  assumes "clock_runs B T"
  shows "terminates (read_sectors_loop B n dst c)" "terminates (write_sectors_loop B n src c)"
proof -
  show "terminates (read_sectors_loop B n dst c)"
    by (induction n arbitrary: dst c) (simp_all add: returns [OF assms] split: prod.split)
  show "terminates (write_sectors_loop B n src c)"
    by (induction n arbitrary: src c) (simp_all add: returns [OF assms] split: prod.split)
qed

lemma sectors_return [returns]:
  assumes "clock_runs B T"
  shows "terminates (readSectors B s n c)" "terminates (writeSectors B s n src c)" "terminates (writeSector B s src c)"
proof -
  note R = returns [OF assms]
  show "terminates (readSectors B s n c)" by (simp add: readSectors_def Let_def R split: prod.split)
  show w: "terminates (writeSectors B s n src c)" for s n src c by (simp add: writeSectors_def Let_def R split: prod.split)
  show "terminates (writeSector B s src c)" by (simp add: writeSector_def Let_def R w split: prod.split)
qed

end
