(* ===== verification/SdDemo.thy ===== *)
theory SdDemo
  imports SdSectors
begin

text \<open>
  A card that answers at once and never fails, with the runs of the driver on it that the witnesses need.
\<close>

section \<open>A card\<close>

text \<open>A card that answers at once and never fails, with a clock of ten microseconds per byte received.\<close>

definition demo_shows :: "card \<Rightarrow> byte \<times> card" where
  "demo_shows k = (case phase k of
     Ready \<Rightarrow> (0xFF, k)
   | Busy \<Rightarrow> (0xFF, k\<lparr>phase := Ready\<rparr>)
   | Pad p \<Rightarrow> (0xFF, k\<lparr>phase := p\<rparr>)
   | Await r p \<Rightarrow> (r, k\<lparr>phase := p\<rparr>)
   | Second \<Rightarrow> (0, k\<lparr>phase := Ready\<rparr>)
   | ReadGap s \<Rightarrow> (0xFE, k\<lparr>phase := ReadData s 0\<rparr>)
   | ReadData s i \<Rightarrow> (medium k s ! i, k\<lparr>phase := if Suc i < 512 then ReadData s (Suc i) else ReadCrc s 1\<rparr>)
   | ReadCrc s n \<Rightarrow> (0, k\<lparr>phase := if n = 0 then ReadGap (s + 1) else ReadCrc s (n - 1)\<rparr>)
   | WriteReady s m \<Rightarrow> (0xFF, k)
   | WriteAnswer s m b \<Rightarrow> (5, k\<lparr>medium := (medium k)(s := b), phase := WriteBusy (s + 1) m\<rparr>)
   | WriteBusy s m \<Rightarrow> (0xFF, k\<lparr>phase := if m then WriteReady s m else Ready\<rparr>)
   | _ \<Rightarrow> (0x08, k\<lparr>phase := Lost\<rparr>))"

definition demo_executes :: "card \<Rightarrow> byte list \<Rightarrow> card" where
  "demo_executes k xs =
     (case after_command k (xs ! 0 XOR 0x40)
         (push_bit 24 (ucast (xs ! 1)) OR push_bit 16 (ucast (xs ! 2)) OR push_bit 8 (ucast (xs ! 3)) OR ucast (xs ! 4)) of
        None \<Rightarrow> k\<lparr>phase := Lost\<rparr>
      | Some p \<Rightarrow> k\<lparr>phase := Pad (Await 0 p), frame := []\<rparr>)"

definition demo_takes :: "card \<Rightarrow> byte \<Rightarrow> card" where
  "demo_takes k x =
     (if takes_commands (phase k) \<and> length (frame k) \<le> 5 \<and> (frame k \<noteq> [] \<or> x AND 0xC0 = 0x40)
      then if length (frame k) < 5 then k\<lparr>frame := frame k @ [x]\<rparr> else demo_executes k (frame k @ [x])
      else case phase k of
          WriteData s m b \<Rightarrow> k\<lparr>phase := if Suc (length b) < 512 then WriteData s m (b @ [x]) else WriteCrc s m (b @ [x]) 1\<rparr>
        | WriteCrc s m b n \<Rightarrow> k\<lparr>phase := if n = 0 then WriteAnswer s m b else WriteCrc s m b (n - 1)\<rparr>
        | WriteReady s m \<Rightarrow>
            if x = (if m then 0xFC else 0xFE) then k\<lparr>phase := WriteData s m []\<rparr>
            else if m \<and> x = 0xFD then k\<lparr>phase := Pad Busy\<rparr>
            else if x = 0xFF \<and> frame k = [] then k else k\<lparr>phase := Lost\<rparr>
        | _ \<Rightarrow> if x = 0xFF \<and> frame k = [] then snd (demo_shows k) else k\<lparr>phase := Lost\<rparr>)"

definition demo_selects :: "bool \<Rightarrow> card \<Rightarrow> card" where
  "demo_selects high k =
     (if high then k\<lparr>selected := False, phase := if idle_phase (phase k) \<and> frame k = [] then phase k else Lost, frame := []\<rparr>
      else k\<lparr>selected := True\<rparr>)"

definition demo_waits :: "card \<Rightarrow> card" where
  "demo_waits k = (if idle_phase (phase k) then k else k\<lparr>phase := Lost\<rparr>)"

definition demo_bus :: "(card \<times> nat) spibus" where
  "demo_bus = \<lparr>bus_begin = id,
     bus_receive = \<lambda>(k, t). if selected k then let (x, k) = demo_shows k in (x, (k, t + 10)) else (0xFF, (demo_waits k, t + 10)),
     bus_send = \<lambda>x (k, t). (if selected k then demo_takes k x else demo_waits k, t),
     bus_csInit = \<lambda>pin b. b,
     bus_csWrite = \<lambda>pin high (k, t). (demo_selects high k, t),
     bus_millis = \<lambda>(k, t). (word_of_nat (t div 1000), (k, t))\<rparr>"

lemma demo_shows_ok: "demo_shows k = (x, k') \<Longrightarrow> card_shows k x k'"
  using card_shows.data [of k]
  by (cases "phase k") (auto simp: demo_shows_def intro: card_shows.intros)

lemma demo_executes_ok:
  assumes "length xs = 6"
  shows "card_executes k xs (demo_executes k xs)"
proof -
  obtain a b d e f g where xs: "xs = [a, b, d, e, f, g]" using assms by (auto simp: numeral_eq_Suc length_Suc_conv)
  show ?thesis
  proof (cases "after_command k (a XOR 0x40) (push_bit 24 (ucast b) OR push_bit 16 (ucast d) OR push_bit 8 (ucast e) OR ucast f)")
    case None
    then show ?thesis by (intro card_executes.unknown) (simp_all add: xs demo_executes_def numeral_eq_Suc)
  next
    case (Some p)
    then show ?thesis using card_executes.obeyed [OF Some] by (simp add: xs demo_executes_def numeral_eq_Suc)
  qed
qed

lemma demo_takes_ok: "card_takes k x (demo_takes k x)"
proof (cases "takes_commands (phase k) \<and> length (frame k) \<le> 5 \<and> (frame k \<noteq> [] \<or> x AND 0xC0 = 0x40)")
  case True
  show ?thesis
  proof (cases "length (frame k) < 5")
    case less: True
    then show ?thesis using True card_takes.command_byte [of k x] by (simp add: demo_takes_def)
  next
    case False
    then have "length (frame k) = 5" using True by simp
    then show ?thesis using True card_takes.command_end [OF _ _ demo_executes_ok [of "frame k @ [x]" k]] by (simp add: demo_takes_def)
  qed
next
  case False
  note def = trans [OF demo_takes_def if_not_P [OF False]]
  have clock: "card_takes k 0xFF (snd (demo_shows k))"
    if "frame k = []" "\<not> (\<exists>s m b n. phase k = WriteData s m b \<or> phase k = WriteCrc s m b n)"
    using card_takes.clock [OF that demo_shows_ok [of k "fst (demo_shows k)" "snd (demo_shows k)"]] by simp
  have lost: "card_takes k x (k\<lparr>phase := Lost\<rparr>)"
    if "x \<noteq> 0xFF \<or> frame k \<noteq> []" "\<not> (\<exists>s m b n. phase k = WriteReady s m \<or> phase k = WriteData s m b \<or> phase k = WriteCrc s m b n)"
  proof (cases "frame k = []")
    case True
    then show ?thesis using that False by (intro card_takes.confused) auto
  next
    case f: False
    then show ?thesis using that(2) False by (intro card_takes.stray) auto
  qed
  show ?thesis
  proof (cases "phase k")
    case (WriteReady s m)
    have "\<not> takes_commands (phase k)" by (simp add: WriteReady takes_commands_def)
    then show ?thesis
      unfolding def using card_takes.write_token [OF WriteReady] card_takes.stop_token [of k s] clock WriteReady
        card_takes.confused [of k x "k\<lparr>phase := Lost\<rparr>"] card_takes.stray [of k x "k\<lparr>phase := Lost\<rparr>"]
      by (cases "x = 0xFF") (auto simp: demo_shows_def)
  next
    case (WriteData s m b)
    then show ?thesis using card_takes.write_data [OF WriteData, of x] by (simp add: def takes_commands_def)
  next
    case (WriteCrc s m b n)
    then show ?thesis using card_takes.write_crc [OF WriteCrc, of x] by (simp add: def takes_commands_def)
  qed (use clock lost in \<open>auto simp: def\<close>)
qed

lemma demo_card_bus: "card_bus demo_bus fst"
proof -
  have "card_waits k (demo_waits k)" for k
    by (auto simp: card_waits_def demo_waits_def intro: exI [of _ "phase k"])
  moreover have "card_selects k high (demo_selects high k)" for k high
    by (simp add: card_selects_def demo_selects_def)
  ultimately show ?thesis using demo_takes_ok demo_shows_ok
    by (auto simp: card_bus_def demo_bus_def split: prod.splits if_splits)
qed

lemma demo_clock_runs: "clock_runs demo_bus snd"
  by (auto simp: clock_runs_def demo_bus_def split: prod.splits if_splits)

text \<open>A high capacity card whose sectors hold their number, and a driver that has been initialised, with the option for dedicated SPI.\<close>

definition demo_sd :: "bool \<Rightarrow> (card \<times> nat) sdspi" where
  "demo_sd dedicated = \<lparr>m_curSector = 0, m_dedicatedSpi = dedicated, m_beginCalled = True, m_csPin = 10, m_errorCode = 0, m_spiActive = False,
     m_state = IDLE_STATE, m_status = 0, m_type = SD_CARD_TYPE_SDHC,
     m_bus = (\<lparr>medium = \<lambda>s. replicate 512 (ucast s), phase = Ready, frame = [], selected = False, highCapacity = True\<rparr>, 0)\<rparr>"

lemma demo_connected: "connected fst (demo_sd d)"
  by (simp add: connected_def demo_sd_def card_at_def card_sane_def idle_phase_def)

text \<open>The run on the demonstration card.\<close>

lemma demo_receives:
  "selected k \<Longrightarrow> phase k = ReadData s i \<Longrightarrow> n \<noteq> 0 \<Longrightarrow> i + n \<le> 512 \<Longrightarrow>
    bus_receives demo_bus n (k, t) =
      (map ((!) (medium k s)) [i..<i + n], (k\<lparr>phase := if i + n < 512 then ReadData s (i + n) else ReadCrc s 1\<rparr>, t + 10 * n))"
proof (induction n arbitrary: k i t)
  case (Suc n)
  have "[i..<i + Suc n] = i # [Suc i..<Suc i + n]" by (simp add: upt_conv_Cons del: upt_Suc)
  then show ?case
    using Suc.IH [of "k\<lparr>phase := ReadData s (Suc i)\<rparr>" "Suc i" "t + 10"] Suc.prems
    by (cases "n = 0") (simp_all add: demo_bus_def demo_shows_def)
qed simp

lemma demo_fields:
  "bus_receive demo_bus (k, t) = (if selected k then let (x, k) = demo_shows k in (x, (k, t + 10)) else (0xFF, (demo_waits k, t + 10)))"
  "bus_send demo_bus x (k, t) = (if selected k then demo_takes k x else demo_waits k, t)"
  "bus_csWrite demo_bus pin high (k, t) = (demo_selects high k, t)"
  "bus_millis demo_bus (k, t) = (word_of_nat (t div 1000), (k, t))"
  by (simp_all add: demo_bus_def)

lemmas demo_steps = demo_fields demo_selects_def demo_takes_def demo_shows_def demo_executes_def takes_commands_def
  spiReceive_def spiSend_def spiSelect_def spiStart_def

lemma demo_wait:
  assumes "m_bus c = (k, t)" "selected k" "phase k = Ready"
  shows "waitReady demo_bus ms c = Some (True, c\<lparr>m_bus := (k, t + 10)\<rparr>)"
  using assms by (simp add: waitReady_def timeout_set_def millis16_def wait_loop.simps demo_steps)

lemma demo_frame:
  assumes "selected k" "takes_commands (phase k)" "frame k = []" "after_command k cmd s = Some p" "cmd \<in> {CMD12, CMD18, CMD25}"
  shows "bus_sends demo_bus (command_frame cmd s) (k, t) = (k\<lparr>phase := Pad (Await 0 p)\<rparr>, t)"
proof -
  have c: "(cmd OR 0x40) AND 0xC0 = 0x40" "(cmd OR 0x40) XOR 0x40 = cmd" using assms(5) by auto
  obtain x0 x1 x2 x3 x4 x5 where f: "command_frame cmd s = [x0, x1, x2, x3, x4, x5]" "x0 = cmd OR 0x40" "x1 = ucast (drop_bit 24 s)"
    "x2 = ucast (drop_bit 16 s)" "x3 = ucast (drop_bit 8 s)" "x4 = ucast s" by (simp add: command_frame_def)
  have "demo_executes (k\<lparr>frame := [x0, x1, x2, x3, x4]\<rparr>) [x0, x1, x2, x3, x4, x5] = k\<lparr>phase := Pad (Await 0 p)\<rparr>"
  proof -
    have "push_bit 24 (ucast x1) OR push_bit 16 (ucast x2) OR push_bit 8 (ucast x3) OR ucast x4 = s"
      unfolding f by (rule command_frame_bytes)
    then have "after_command k ([x0, x1, x2, x3, x4, x5] ! 0 XOR 0x40) (push_bit 24 (ucast ([x0, x1, x2, x3, x4, x5] ! 1)) OR
        push_bit 16 (ucast ([x0, x1, x2, x3, x4, x5] ! 2)) OR push_bit 8 (ucast ([x0, x1, x2, x3, x4, x5] ! 3)) OR
        ucast ([x0, x1, x2, x3, x4, x5] ! 4)) = Some p"
      using c(2) assms(4) f(2) by (simp only: nth_Cons_0 nth_Cons_numeral nth_Cons_Suc One_nat_def numeral_2_eq_2 numeral_3_eq_3) simp
    then show ?thesis using assms(3) unfolding demo_executes_def after_command_frame by (simp only: option.case) (cases k, simp)
  qed
  then show ?thesis using assms(1-3) c(1) f by (simp add: demo_fields demo_takes_def)
qed

lemma demo_response:
  assumes "m_bus c = (k, t)" "selected k" "phase k = Await 0 p"
  shows "response_loop demo_bus 10 c = c\<lparr>m_status := 0, m_bus := (k\<lparr>phase := p\<rparr>, t + 10)\<rparr>"
proof -
  have ten: "(10 :: nat) = Suc 9" by simp
  show ?thesis unfolding ten response_loop.simps using assms by (simp add: demo_steps Let_def)
qed

lemma demo_command:
  assumes "m_bus c = (k, t)" "selected k" "phase k = Ready" "frame k = []" "m_spiActive c" "cmd \<in> {CMD18, CMD25}"
    and "after_command k cmd s = Some p"
  shows "send_command demo_bus cmd s c = Some (0, c\<lparr>m_status := 0, m_bus := (k\<lparr>phase := p\<rparr>, t + 30)\<rparr>)"
proof -
  have f: "bus_sends demo_bus (command_frame cmd s) (k, t + 10) = (k\<lparr>phase := Pad (Await 0 p)\<rparr>, t + 10)"
    by (rule demo_frame) (use assms in \<open>auto simp: takes_commands_def\<close>)
  let ?c = "c\<lparr>m_bus := (k\<lparr>phase := Await 0 p\<rparr>, 20 + t)\<rparr>"
  have r: "response_loop demo_bus 10 ?c = c\<lparr>m_status := 0, m_bus := (k\<lparr>phase := p\<rparr>, t + 30)\<rparr>"
    using demo_response [of ?c "k\<lparr>phase := Await 0 p\<rparr>" "20 + t" p] assms(2) by simp
  have "spiStart demo_bus c = c" using assms(5) by (simp add: spiStart_def)
  then show ?thesis
    using assms(2,6) demo_wait [OF assms(1-3)] f r
    by (auto simp: send_command_def Let_def spiSends_def spiReceive_def demo_fields demo_shows_def)
qed

text \<open>Sector 5 of the demonstration card is read, sector 7 is written.\<close>

lemma demo_start:
  assumes "cmd \<in> {CMD18, CMD25}"
  shows "\<exists>k t. cardCommand demo_bus cmd (card_address s (demo_sd d)) (demo_sd d) =
      Some (0, (demo_sd d)\<lparr>m_spiActive := True, m_status := 0, m_bus := (k, t)\<rparr>) \<and>
    k = (fst (m_bus (demo_sd d)))\<lparr>selected := True, phase := if cmd = CMD18 then ReadGap s else WriteReady s True\<rparr>"
proof -
  let ?k = "(fst (m_bus (demo_sd d)))\<lparr>selected := True\<rparr>"
  let ?c = "(demo_sd d)\<lparr>m_spiActive := True, m_bus := (?k, 0)\<rparr>"
  have e: "spiStart demo_bus (demo_sd d) = ?c"
    by (simp add: demo_sd_def demo_steps)
  have st: "spiStart demo_bus ?c = ?c" by (simp add: spiStart_def)
  have a: "card_address s (demo_sd d) = s" by (simp add: card_address_def demo_sd_def)
  let ?p = "if cmd = CMD18 then ReadGap s else WriteReady s True"
  have p: "after_command ?k cmd s = Some ?p"
    using assms by (auto simp: after_command_def address_sector_def demo_sd_def)
  have "send_command demo_bus cmd s ?c = Some (0, ?c\<lparr>m_status := 0, m_bus := (?k\<lparr>phase := ?p\<rparr>, 0 + 30)\<rparr>)"
    by (rule demo_command [OF _ _ _ _ _ assms p]) (simp_all add: demo_sd_def)
  moreover have "send_command demo_bus cmd s (demo_sd d) = send_command demo_bus cmd s ?c"
    by (simp add: send_command_def e st)
  moreover have "m_state (demo_sd d) = IDLE_STATE" by (simp add: demo_sd_def)
  ultimately show ?thesis
    by (intro exI [of _ "?k\<lparr>phase := ?p\<rparr>"] exI [of _ 30]) (simp add: cardCommand_def syncDevice_def a)
qed

lemma demo_readData:
  assumes "m_bus c = (k, t)" "selected k" "phase k = ReadGap s"
  shows "\<exists>b k' t'. readData demo_bus 512 c = Some (True, b, c\<lparr>m_status := 0, m_bus := (k', t')\<rparr>)"
proof -
  obtain e where e: "timeout_set demo_bus SD_READ_TIMEOUT c = (e, c)"
    using assms(1) by (cases c) (simp add: timeout_set_def millis16_def demo_fields)
  let ?k = "k\<lparr>phase := ReadData s 0\<rparr>"
  let ?c = "c\<lparr>m_status := 0xFE, m_bus := (?k, t + 10)\<rparr>"
  have t: "token_loop demo_bus e c = Some (True, ?c)"
    using assms by (simp add: token_loop.simps demo_steps)
  have "bus_receives demo_bus 512 (?k, t + 10) = (map ((!) (medium k s)) [0..<512], (k\<lparr>phase := ReadCrc s 1\<rparr>, t + 10 + 10 * 512))"
    using demo_receives [of ?k s 0 512 "t + 10"] assms(2) by simp
  then obtain b t' where b: "bus_receives demo_bus 512 (?k, t + 10) = (b, (k\<lparr>phase := ReadCrc s 1\<rparr>, t'))" by simp
  show ?thesis
    using e t b assms(2)
    by (simp add: readData_def Let_def spiReceives_def) (simp add: demo_steps, metis)
qed

lemma demo_read_runs: "\<exists>b c'. readSectors demo_bus 5 1 (demo_sd True) = Some (True, b, c')"
proof -
  obtain k t where c: "cardCommand demo_bus CMD18 (card_address 5 (demo_sd True)) (demo_sd True) =
      Some (0, (demo_sd True)\<lparr>m_spiActive := True, m_status := 0, m_bus := (k, t)\<rparr>)" "selected k" "phase k = ReadGap 5"
    using demo_start [of CMD18 5 True] by auto
  let ?c = "(demo_sd True)\<lparr>m_spiActive := True, m_status := 0, m_bus := (k, t), m_state := READ_STATE, m_curSector := 5\<rparr>"
  obtain b k' t' where "readData demo_bus 512 ?c = Some (True, b, ?c\<lparr>m_status := 0, m_bus := (k', t')\<rparr>)"
    using demo_readData [of ?c k t 5] c(2,3) by auto
  moreover have "m_state (demo_sd True) = IDLE_STATE" "m_dedicatedSpi (demo_sd True)" by (simp_all add: demo_sd_def)
  ultimately show ?thesis using c(1) by (simp add: readSectors_def readStart_def Let_def)
qed

lemma demo_write_data:
  "selected k \<Longrightarrow> phase k = WriteData s m b \<Longrightarrow> xs \<noteq> [] \<Longrightarrow> length b + length xs \<le> 512 \<Longrightarrow>
    bus_sends demo_bus xs (k, t) =
      (k\<lparr>phase := if length b + length xs < 512 then WriteData s m (b @ xs) else WriteCrc s m (b @ xs) 1\<rparr>, t)"
proof (induction xs arbitrary: k b)
  case (Cons x xs)
  have "xs = [] \<or> length b < 511" using Cons.prems(4) by (cases xs) auto
  then show ?case
    using Cons.IH [of "k\<lparr>phase := WriteData s m (b @ [x])\<rparr>" "b @ [x]"] Cons.prems
    by (cases "xs = []") (simp_all add: demo_fields demo_takes_def takes_commands_def)
qed simp

lemma demo_write_runs:
  assumes "length src = 512"
  shows "\<exists>c'. writeSectors demo_bus 7 1 src (demo_sd True) = Some (True, c')"
proof -
  obtain k t where c: "cardCommand demo_bus CMD25 (card_address 7 (demo_sd True)) (demo_sd True) =
      Some (0, (demo_sd True)\<lparr>m_spiActive := True, m_status := 0, m_bus := (k, t)\<rparr>)" "selected k" "phase k = WriteReady 7 True"
    using demo_start [of CMD25 7 True] by auto
  let ?c = "(demo_sd True)\<lparr>m_spiActive := True, m_status := 0, m_bus := (k, t), m_state := WRITE_STATE, m_curSector := 7\<rparr>"
  have ded: "m_dedicatedSpi (demo_sd True)" by (simp add: demo_sd_def)
  have w: "waitReady demo_bus SD_WRITE_TIMEOUT ?c = Some (True, ?c\<lparr>m_bus := (k, t + 10)\<rparr>)"
    using c(2,3) by (simp add: waitReady_def timeout_set_def millis16_def wait_loop.simps demo_steps)
  have "bus_sends demo_bus src (k\<lparr>phase := WriteData 7 True []\<rparr>, t + 10) = (k\<lparr>phase := WriteCrc 7 True src 1\<rparr>, t + 10)"
    using demo_write_data [of "k\<lparr>phase := WriteData 7 True []\<rparr>" 7 True "[]" src "t + 10"] c(2) assms by (cases "src = []") simp_all
  then have "\<exists>c'. writeData demo_bus src ?c = Some (True, c') \<and> m_dedicatedSpi c'"
    using w ded c(2,3) assms by (simp add: writeData_def send_sector_def Let_def spiSends_def) (simp add: demo_steps)
  moreover have "m_state (demo_sd True) = IDLE_STATE" by (simp add: demo_sd_def)
  ultimately show ?thesis using c(1) assms by (auto simp: writeSectors_def writeStart_def Let_def)
qed

end
