(* ===== verification/SdDevice.thy ===== *)
theory SdDevice
  imports SdFatOps SdDemo
begin

text \<open>
  The file system on the card driver: the operations of \<open>SdSpiCard\<close> as the block device of the volume (\<open>FsBlockDevice\<close> is \<open>SdCard\<close>,
  and that is \<open>SdSpiCard\<close>, in the firmware's configuration), and the start of the card and of the volume (\<open>SdFat.h\<close>, \<open>SdCard.h\<close>).
\<close>

section \<open>The block device\<close>

text \<open>
  The destination after a read of \<open>n\<close> bytes that stored \<open>b\<close>: what a failed read did not store is what the destination held
  before, a parameter. A call that does not return has no counterpart in \<open>blockdev\<close>: it is given the result of a failure.
\<close>

definition dst_after :: "byte list \<Rightarrow> nat \<Rightarrow> byte list \<Rightarrow> byte list" where
  "dst_after old n b = take n (b @ drop (length b) old @ replicate n 0)"

definition sd_read_result :: "byte list \<Rightarrow> nat \<Rightarrow> 'b sdspi \<Rightarrow> (bool \<times> byte list \<times> 'b sdspi) option \<Rightarrow> bool \<times> byte list \<times> 'b sdspi" where
  "sd_read_result old n c r = (case r of None \<Rightarrow> (False, dst_after old n [], c) | Some (ok, b, c) \<Rightarrow> (ok, dst_after old n b, c))"

definition sd_dev :: "'b spibus \<Rightarrow> ('b sdspi \<Rightarrow> byte list) \<Rightarrow> 'b sdspi blockdev" where
  "sd_dev B old = \<lparr>
     dev_read = \<lambda>c s. sd_read_result (old c) 512 c (readSector B s c),
     dev_write = \<lambda>c s b. (case writeSector B s b c of None \<Rightarrow> (False, c) | Some r \<Rightarrow> r),
     dev_reads = \<lambda>c s n. sd_read_result (old c) (512 * n) c (readSectors B s n c),
     dev_writes = \<lambda>c s n b. (case writeSectors B s n b c of None \<Rightarrow> (False, c) | Some r \<Rightarrow> r),
     dev_sync = \<lambda>c. (case syncDevice B c of None \<Rightarrow> (False, c) | Some r \<Rightarrow> r)\<rparr>"

section \<open>Start\<close>

definition cardBegin :: "'b spibus \<Rightarrow> spi_config \<Rightarrow> 'b sdspi \<Rightarrow> (bool \<times> 'b sdspi) option" where
  "cardBegin B cfg c = do { (_, c) \<leftarrow> SdSpiCard_begin B cfg c; Some (m_errorCode c = SD_CARD_ERROR_NONE, c) }"

definition volumeBegin :: "'d blockdev \<Rightarrow> 'd fsclock \<Rightarrow> 'd fatsys \<Rightarrow> bool \<times> 'd fatsys" where
  "volumeBegin D K s =
     (let (ok, s) = vol_begin D K 1 0 s in if ok then (True, s) else vol_begin D K 0 0 s)"

definition SdFat_begin ::
    "'b spibus \<Rightarrow> ('b sdspi \<Rightarrow> byte list) \<Rightarrow> 'b sdspi fsclock \<Rightarrow> spi_config \<Rightarrow> 'b sdspi \<Rightarrow> 'b sdspi fatsys \<Rightarrow> (bool \<times> 'b sdspi fatsys) option" where
  "SdFat_begin B old K cfg c s = do {
     (ok, c) \<leftarrow> cardBegin B cfg c;
     let s = s\<lparr>s_vol := (s_vol s)\<lparr>v_cache := (v_cache (s_vol s))\<lparr>c_dev := c\<rparr>\<rparr>\<rparr>;
     Some (if ok then volumeBegin (sd_dev B old) K s else (False, s)) }"

section \<open>Every read fills its destination\<close>

lemma dst_after_length [simp]: "length (dst_after old n b) = n"
  by (simp add: dst_after_def)

lemma dst_after_full: "length b = n \<Longrightarrow> dst_after old n b = b"
  by (simp add: dst_after_def)

lemma sd_dev_ok: "dev_ok (sd_dev B old)"
  by (auto simp: dev_ok_def sd_dev_def sd_read_result_def split: option.splits prod.splits)

lemma any_reachable:
  fixes D :: "'d blockdev" and K :: "'d fsclock"
  shows "\<exists>k. reachable (sdfat_ops D K) k \<and> states k = [- 1, - 2, - 2]"
proof (rule raw_reachable)
  fix s :: "'d fatsys"
  let ?t = "\<lambda>i. demo_task i (- 2) (replicate 32 0) file_zero"
  let ?k = "\<lparr>tasks = map ?t [0..<3], global_heap = replicate 1024 0, heap_bitmap = replicate 128 0,
     rx_buffer = replicate 256 0, rx_index = 0, khal = hal_zero, system_ticks = 0, sd = s\<rparr>"
  have "(47 # replicate 31 (0 :: byte)) ! 31 = 0" by (simp add: nth_Cons')
  then show "raw_kernel ?k" using wf_hal_zero by (simp add: raw_kernel_def demo_task_def)
  show "\<forall>t \<in> set (tasks ?k). \<not> fs_isOpen (sdfat_ops D K) (t_file t)"
    by (simp add: demo_task_def sdfat_ops_def isOpen_def file_zero_def)
qed



end
