(* ===== verification/SdProperties.thy ===== *)
theory SdProperties
  imports SdDemo
begin

text \<open>
  The properties of the driver's sector operations: what a success means, and what follows a failed read.
\<close>

section \<open>Sectors\<close>

text \<open>C17: on a bus with a card that follows the SD protocol and a clock that runs,
  \<open>readSectors\<close> returns, whether it goes on with an open multi-sector read, ends
  another transfer first or starts one with a command; when it reports success the bytes are those
  of the sectors asked for, the medium is unchanged, and driver and card agree on the transfer that
  stays open.\<close>

theorem sd_read_returns_sectors:
  assumes "card_bus B V" "clock_runs B T" "connected V c" "addressable c s"
  shows "\<exists>ok b c'. readSectors B s n c = Some (ok, b, c') \<and>
    (ok \<longrightarrow> b = concat (map (\<lambda>i. medium (card_at V c) (s + word_of_nat i)) [0..<n]) \<and> connected V c' \<and>
       medium (card_at V c') = medium (card_at V c))"
proof -
  have "terminates (readSectors B s n c)" by (rule sectors_return [OF assms(2)])
  then obtain ok b c' where r: "readSectors B s n c = Some (ok, b, c')" by (auto simp: terminates_def)
  then show ?thesis using readSectors_spec [OF assms(1,3,4), of n b c'] by (cases ok) auto
qed

theorem sd_read_returns_sectors_witness:
  "\<exists>c'. readSectors demo_bus 5 1 (demo_sd True) = Some (True, replicate 512 5, c')"
proof -
  have "addressable (demo_sd True) 5" by (simp add: addressable_def demo_sd_def)
  then show ?thesis
    using sd_read_returns_sectors [OF demo_card_bus demo_clock_runs demo_connected, of True 5 1] demo_read_runs
    by (auto simp: card_at_def demo_sd_def)
qed

text \<open>C18: under the same assumptions \<open>writeSectors\<close> returns, and when it reports
  success the medium holds the bytes in exactly the sectors asked for, all other sectors are
  unchanged, and driver and card agree on the transfer that stays open.\<close>

theorem sd_write_stores_sectors:
  assumes "card_bus B V" "clock_runs B T" "connected V c" "addressable c s" "length src = 512 * n" "n < 2 ^ 16"
  shows "\<exists>ok c'. writeSectors B s n src c = Some (ok, c') \<and>
    (ok \<longrightarrow> medium (card_at V c') = put_sectors s n src (medium (card_at V c)) \<and> connected V c')"
proof -
  have "terminates (writeSectors B s n src c)" by (rule sectors_return [OF assms(2)])
  then obtain ok c' where r: "writeSectors B s n src c = Some (ok, c')" by (auto simp: terminates_def)
  then show ?thesis using writeSectors_spec [OF assms(1,3,4), of n src c'] assms(5,6) by (cases ok) auto
qed

theorem sd_write_stores_sectors_witness:
  "\<exists>c'. writeSectors demo_bus 7 1 (replicate 512 1) (demo_sd True) = Some (True, c') \<and> medium (card_at fst c') 7 = replicate 512 1"
proof -
  have "addressable (demo_sd True) 7" by (simp add: addressable_def demo_sd_def)
  then show ?thesis
    using sd_write_stores_sectors [OF demo_card_bus demo_clock_runs demo_connected, of True 7 "replicate 512 1" 1]
      demo_write_runs [of "replicate 512 1"]
    by (auto simp: put_sectors_def)
qed

section \<open>After a failed read\<close>

text \<open>A bus on which the line is pulled up while the chip select is high.\<close>

definition floats :: "'b spibus \<Rightarrow> ('b \<Rightarrow> bool) \<Rightarrow> bool" where
  "floats B high \<longleftrightarrow>
     (\<forall>b x b'. high b \<longrightarrow> bus_receive B b = (x, b') \<longrightarrow> x = 0xFF \<and> high b') \<and>
     (\<forall>b x. high b \<longrightarrow> high (bus_send B x b)) \<and>
     (\<forall>b pin. high (bus_csWrite B pin True b)) \<and>
     (\<forall>b t b'. high b \<longrightarrow> bus_millis B b = (t, b') \<longrightarrow> high b')"

lemma floatsD:
  assumes "floats B high"
  shows "bus_receive B b = (x, b') \<Longrightarrow> high b \<Longrightarrow> x = 0xFF \<and> high b'" "high b \<Longrightarrow> high (bus_send B x b)"
    "high (bus_csWrite B pin True b)" "bus_millis B b = (t, b') \<Longrightarrow> high b \<Longrightarrow> high b'"
  using assms unfolding floats_def by blast+

text \<open>The driver is in a multi-sector read at sector \<open>s\<close>, and the card is not selected.\<close>

definition stuck :: "('b \<Rightarrow> bool) \<Rightarrow> 32 word \<Rightarrow> 'b sdspi \<Rightarrow> bool" where
  "stuck high s c \<longleftrightarrow> m_state c = READ_STATE \<and> m_curSector c = s \<and> \<not> m_spiActive c \<and> high (m_bus c)"

lemma token_loop_floats:
  fixes c :: "'a sdspi"
  assumes "floats B high" "high (m_bus c)" "token_loop B e c = Some r"
  shows "\<not> fst r \<and> high (m_bus (snd r)) \<and> same_driver c (snd r)"
proof -
  have "floats B high \<longrightarrow> high (m_bus c) \<longrightarrow> \<not> fst r \<and> high (m_bus (snd r)) \<and> same_driver c (snd r)"
    using _ assms(3)
  proof (rule token_loop.raw_induct [where P = "\<lambda>B e c r. floats B high \<longrightarrow> high (m_bus c) \<longrightarrow>
      \<not> fst r \<and> high (m_bus (snd r)) \<and> same_driver c (snd r)"], intro impI)
    fix rec B e and c :: "'a sdspi" and r
    assume IH: "\<And>B e c r. rec B e c = Some r \<Longrightarrow> floats B high \<longrightarrow> high (m_bus c) \<longrightarrow>
        \<not> fst r \<and> high (m_bus (snd r)) \<and> same_driver c (snd r)"
      and b: "(case spiReceive B c of (x, c) \<Rightarrow>
        if x \<noteq> 0xFF then Some (True, c\<lparr>m_status := x\<rparr>)
        else case timedOut B e (c\<lparr>m_status := x\<rparr>) of (late, c) \<Rightarrow>
          if late then Some (False, c) else rec B e c) = Some r"
      and a: "floats B high" "high (m_bus c)"
    obtain x y where x: "bus_receive B (m_bus c) = (x, y)" by fastforce
    have h: "x = 0xFF" "high y" using floatsD(1) [OF a(1) x a(2)] by simp_all
    obtain t z where t: "bus_millis B y = (t, z)" by fastforce
    have hz: "high z" by (rule floatsD(4) [OF a(1) t h(2)])
    let ?d = "c\<lparr>m_status := 0xFF, m_bus := z\<rparr>"
    let ?late = "sint (e - ucast t) < 0"
    have d: "same_driver c ?d" "m_bus ?d = z" by (simp_all add: same_driver_def)
    have r: "(if ?late then Some (False, ?d) else rec B e ?d) = Some r"
      using b x h(1) t by (simp add: spiReceive_def timedOut_def millis16_def)
    show "\<not> fst r \<and> high (m_bus (snd r)) \<and> same_driver c (snd r)"
    proof (cases ?late)
      case True
      then have "r = (False, ?d)" using r by simp
      then show ?thesis using d hz by simp
    next
      case False
      then have "rec B e ?d = Some r" using r by simp
      from IH [OF this] show ?thesis using a(1) hz d same_driver_trans [OF d(1), of "snd r"] by simp
    qed
  qed
  then show ?thesis using assms by blast
qed

lemma stop_stuck:
  assumes "floats B high" "m_spiActive c \<or> high (m_bus c)"
  shows "high (m_bus (spiStop B c)) \<and> \<not> m_spiActive (spiStop B c) \<and> m_state (spiStop B c) = m_state c \<and> m_curSector (spiStop B c) = m_curSector c"
  using floatsD(2,3) [OF assms(1)] assms(2) by (auto simp: spiStop_def spiSend_def spiUnselect_def)

lemma token_loop_driver:
  fixes c :: "'a sdspi"
  assumes "token_loop B e c = Some r"
  shows "same_driver c (snd r)"
  using _ assms
proof (rule token_loop.raw_induct [where P = "\<lambda>B e c r. same_driver c (snd r)"])
  fix rec B e and c :: "'a sdspi" and r
  assume IH: "\<And>B e c r. rec B e c = Some r \<Longrightarrow> same_driver c (snd r)"
    and b: "(case spiReceive B c of (x, c) \<Rightarrow>
      if x \<noteq> 0xFF then Some (True, c\<lparr>m_status := x\<rparr>)
      else case timedOut B e (c\<lparr>m_status := x\<rparr>) of (late, c) \<Rightarrow>
        if late then Some (False, c) else rec B e c) = Some r"
  obtain x y where x: "bus_receive B (m_bus c) = (x, y)" by fastforce
  obtain t z where t: "bus_millis B y = (t, z)" by fastforce
  let ?d = "c\<lparr>m_status := x, m_bus := z\<rparr>"
  let ?late = "sint (e - ucast t) < 0"
  have d: "same_driver c ?d" "same_driver c (c\<lparr>m_bus := y, m_status := x\<rparr>)" by (simp_all add: same_driver_def)
  have r: "(if x \<noteq> 0xFF then Some (True, c\<lparr>m_bus := y, m_status := x\<rparr>) else if ?late then Some (False, ?d) else rec B e ?d) = Some r"
    using b x t by (simp add: spiReceive_def timedOut_def millis16_def split: if_split_asm)
  show "same_driver c (snd r)"
  proof (cases "x \<noteq> 0xFF \<or> ?late")
    case True
    then have "snd r = c\<lparr>m_bus := y, m_status := x\<rparr> \<or> snd r = ?d" using r by (auto split: if_split_asm)
    then show ?thesis using d by (elim disjE) simp_all
  next
    case False
    then have "rec B e ?d = Some r" using r by simp
    from IH [OF this] show ?thesis by (rule same_driver_trans [OF d(1)])
  qed
qed

lemma readData_fails:
  assumes "readData B n c = Some (False, b, c')" "floats B high" "m_spiActive c"
  shows "b = [] \<and> high (m_bus c') \<and> \<not> m_spiActive c' \<and> m_state c' = m_state c \<and> m_curSector c' = m_curSector c"
proof -
  obtain e d where e: "timeout_set B SD_READ_TIMEOUT c = (e, d)" by fastforce
  then have d: "same_driver c d" by (auto simp: timeout_set_def millis16_def same_driver_def split: prod.splits)
  obtain ok f where f: "token_loop B e d = Some (ok, f)" "b = []" "\<exists>code. c' = spiStop B (sd_error code f)"
    using assms(1) e by (auto simp: readData_def Let_def fail_with_def split: Option.bind_splits if_split_asm prod.splits)
  then obtain code where c': "c' = spiStop B (sd_error code f)" by blast
  have sf: "same_driver c f" using token_loop_driver [OF f(1)] d same_driver_trans by fastforce
  then have "m_spiActive (sd_error code f)" using assms(3) by (simp add: sd_error_def same_driver_def)
  with stop_stuck [OF assms(2), of "sd_error code f"] show ?thesis
    using sf f(2) c' by (simp add: sd_error_def same_driver_def)
qed

text \<open>Reading the same sector again does not select the card, so it fails again and leaves the same state.\<close>

lemma stuck_again:
  assumes "floats B high" "clock_runs B T" "stuck high s c"
  shows "\<exists>c'. readSectors B s (Suc n) c = Some (False, [], c') \<and> stuck high s c'"
proof -
  have S: "m_state c = READ_STATE" "m_curSector c = s" "\<not> m_spiActive c" "high (m_bus c)"
    using assms(3) by (simp_all add: stuck_def)
  obtain e d where e: "timeout_set B SD_READ_TIMEOUT c = (e, d)" by fastforce
  have d: "same_driver c d" "high (m_bus d)"
    using e floatsD(4) [OF assms(1)] S(4) by (auto simp: timeout_set_def millis16_def same_driver_def split: prod.splits)
  have "terminates (token_loop B e d)"
    using timeout_at [OF assms(2) e] token_loop_returns [OF assms(2), of d] by (auto simp: terminates_def)
  then obtain ok f where f: "token_loop B e d = Some (ok, f)" by (auto simp: terminates_def)
  then have F: "\<not> ok" "high (m_bus f)" "same_driver d f" using token_loop_floats [OF assms(1) d(2) f] by simp_all
  let ?g = "sd_error SD_CARD_ERROR_READ_TIMEOUT f"
  have "readData B 512 c = Some (False, [], spiStop B ?g)" using e f F(1) by (simp add: readData_def fail_with_def)
  then have "readSectors B s (Suc n) c = Some (False, [], spiStop B ?g)" using S by (simp add: readSectors_def)
  moreover have "stuck high s (spiStop B ?g)"
    using stop_stuck [OF assms(1), of ?g] F S d(1) by (simp add: stuck_def sd_error_def same_driver_def)
  ultimately show ?thesis by blast
qed

fun failing_retries :: "'b spibus \<Rightarrow> 32 word \<Rightarrow> nat \<Rightarrow> nat \<Rightarrow> 'b sdspi \<Rightarrow> bool" where
  "failing_retries B s n 0 c = True"
| "failing_retries B s n (Suc k) c =
     (case readSectors B s n c of Some (False, b, c') \<Rightarrow> b = [] \<and> failing_retries B s n k c' | _ \<Rightarrow> False)"

text \<open>C19: after a data packet of an open multi-sector read has failed, the driver has
  deselected the card but is still in the read state at the same sector: every later read of that
  sector, however often it is tried and whatever the card does, goes on with a transfer that no
  longer exists, fails and stores nothing.\<close>

theorem sd_failed_read_is_final:
  assumes "floats B high" "clock_runs B T" "m_state c = READ_STATE" "m_spiActive c" "readData B 512 c = Some (False, b, c')"
  shows "failing_retries B (m_curSector c) (Suc n) k c'"
proof -
  have "failing_retries B s (Suc n) k d" if "stuck high s d" for s d
    using that
  proof (induction k arbitrary: d)
    case (Suc k)
    from stuck_again [OF assms(1,2) Suc.prems] obtain d' where
      "readSectors B s (Suc n) d = Some (False, [], d')" "stuck high s d'" by blast
    then show ?case using Suc.IH by simp
  qed simp
  moreover have "stuck high (m_curSector c) c'"
    using readData_fails [OF assms(5,1,4)] assms(3) by (simp add: stuck_def)
  ultimately show ?thesis by blast
qed

text \<open>A card that answers a read with an error token.\<close>

definition lost_sd :: "(card \<times> nat) sdspi" where
  "lost_sd = (demo_sd True)\<lparr>m_state := READ_STATE, m_spiActive := True, m_curSector := 5,
     m_bus := (\<lparr>medium = \<lambda>s. replicate 512 (ucast s), phase = Lost, frame = [], selected = True, highCapacity = True\<rparr>, 0)\<rparr>"

lemma demo_floats: "floats demo_bus (\<lambda>b. \<not> selected (fst b))"
  by (auto simp: floats_def demo_fields demo_waits_def demo_selects_def)

theorem sd_failed_read_is_final_witness:
  "\<exists>b c'. readData demo_bus 512 lost_sd = Some (False, b, c') \<and> (\<forall>n k. failing_retries demo_bus 5 (Suc n) k c')"
proof -
  have l: "m_state lost_sd = READ_STATE" "m_spiActive lost_sd" "m_curSector lost_sd = 5" by (simp_all add: lost_sd_def)
  have "\<exists>b c'. readData demo_bus 512 lost_sd = Some (False, b, c')"
    by (simp add: readData_def lost_sd_def demo_sd_def timeout_set_def millis16_def token_loop.simps demo_steps fail_with_def Let_def)
  then show ?thesis using sd_failed_read_is_final [OF demo_floats demo_clock_runs l(1,2)] l(3) by metis
qed

end
