(* ===== verification/SdCrc.thy ===== *)
theory SdCrc
  imports SdSpiCard
begin

text \<open>
  The checksums of \<open>SdSpiCard.cpp\<close>: the CRC of command frames, and the CRC of data packets in its two variants, with shifts
  and with a table. The firmware's configuration (\<open>USE_SD_CRC\<close> is 0) computes none of them and sends a constant in their place.
\<close>

section \<open>Commands\<close>

fun crc7_bits :: "nat \<Rightarrow> byte \<Rightarrow> byte \<Rightarrow> byte" where
  "crc7_bits 0 d crc = crc"
| "crc7_bits (Suc j) d crc =
     (let crc = push_bit 1 crc;
          crc = (if (d AND 0x80) XOR (crc AND 0x80) \<noteq> 0 then crc XOR 0x09 else crc)
      in crc7_bits j (push_bit 1 d) crc)"

definition CRC7 :: "byte list \<Rightarrow> byte" where
  "CRC7 data = push_bit 1 (foldl (\<lambda>crc d. crc7_bits 8 d crc) 0 data) OR 1"

section \<open>Data\<close>

definition ccitt_shift :: "16 word \<Rightarrow> byte \<Rightarrow> 16 word" where
  "ccitt_shift crc d =
     (let crc = ucast (ucast (drop_bit 8 crc) :: byte) OR push_bit 8 crc;
          crc = crc XOR ucast d;
          crc = crc XOR ucast (drop_bit 4 (ucast (crc AND 0xFF) :: byte));
          crc = crc XOR push_bit 12 crc
      in crc XOR push_bit 5 (crc AND 0xFF))"

definition CRC_CCITT_shift :: "byte list \<Rightarrow> 16 word" where
  "CRC_CCITT_shift data = foldl ccitt_shift 0 data"

definition crctab :: "16 word list" where
  "crctab = [
     0x0000, 0x1021, 0x2042, 0x3063, 0x4084, 0x50A5, 0x60C6, 0x70E7, 0x8108, 0x9129, 0xA14A, 0xB16B, 0xC18C, 0xD1AD, 0xE1CE, 0xF1EF,
     0x1231, 0x0210, 0x3273, 0x2252, 0x52B5, 0x4294, 0x72F7, 0x62D6, 0x9339, 0x8318, 0xB37B, 0xA35A, 0xD3BD, 0xC39C, 0xF3FF, 0xE3DE,
     0x2462, 0x3443, 0x0420, 0x1401, 0x64E6, 0x74C7, 0x44A4, 0x5485, 0xA56A, 0xB54B, 0x8528, 0x9509, 0xE5EE, 0xF5CF, 0xC5AC, 0xD58D,
     0x3653, 0x2672, 0x1611, 0x0630, 0x76D7, 0x66F6, 0x5695, 0x46B4, 0xB75B, 0xA77A, 0x9719, 0x8738, 0xF7DF, 0xE7FE, 0xD79D, 0xC7BC,
     0x48C4, 0x58E5, 0x6886, 0x78A7, 0x0840, 0x1861, 0x2802, 0x3823, 0xC9CC, 0xD9ED, 0xE98E, 0xF9AF, 0x8948, 0x9969, 0xA90A, 0xB92B,
     0x5AF5, 0x4AD4, 0x7AB7, 0x6A96, 0x1A71, 0x0A50, 0x3A33, 0x2A12, 0xDBFD, 0xCBDC, 0xFBBF, 0xEB9E, 0x9B79, 0x8B58, 0xBB3B, 0xAB1A,
     0x6CA6, 0x7C87, 0x4CE4, 0x5CC5, 0x2C22, 0x3C03, 0x0C60, 0x1C41, 0xEDAE, 0xFD8F, 0xCDEC, 0xDDCD, 0xAD2A, 0xBD0B, 0x8D68, 0x9D49,
     0x7E97, 0x6EB6, 0x5ED5, 0x4EF4, 0x3E13, 0x2E32, 0x1E51, 0x0E70, 0xFF9F, 0xEFBE, 0xDFDD, 0xCFFC, 0xBF1B, 0xAF3A, 0x9F59, 0x8F78,
     0x9188, 0x81A9, 0xB1CA, 0xA1EB, 0xD10C, 0xC12D, 0xF14E, 0xE16F, 0x1080, 0x00A1, 0x30C2, 0x20E3, 0x5004, 0x4025, 0x7046, 0x6067,
     0x83B9, 0x9398, 0xA3FB, 0xB3DA, 0xC33D, 0xD31C, 0xE37F, 0xF35E, 0x02B1, 0x1290, 0x22F3, 0x32D2, 0x4235, 0x5214, 0x6277, 0x7256,
     0xB5EA, 0xA5CB, 0x95A8, 0x8589, 0xF56E, 0xE54F, 0xD52C, 0xC50D, 0x34E2, 0x24C3, 0x14A0, 0x0481, 0x7466, 0x6447, 0x5424, 0x4405,
     0xA7DB, 0xB7FA, 0x8799, 0x97B8, 0xE75F, 0xF77E, 0xC71D, 0xD73C, 0x26D3, 0x36F2, 0x0691, 0x16B0, 0x6657, 0x7676, 0x4615, 0x5634,
     0xD94C, 0xC96D, 0xF90E, 0xE92F, 0x99C8, 0x89E9, 0xB98A, 0xA9AB, 0x5844, 0x4865, 0x7806, 0x6827, 0x18C0, 0x08E1, 0x3882, 0x28A3,
     0xCB7D, 0xDB5C, 0xEB3F, 0xFB1E, 0x8BF9, 0x9BD8, 0xABBB, 0xBB9A, 0x4A75, 0x5A54, 0x6A37, 0x7A16, 0x0AF1, 0x1AD0, 0x2AB3, 0x3A92,
     0xFD2E, 0xED0F, 0xDD6C, 0xCD4D, 0xBDAA, 0xAD8B, 0x9DE8, 0x8DC9, 0x7C26, 0x6C07, 0x5C64, 0x4C45, 0x3CA2, 0x2C83, 0x1CE0, 0x0CC1,
     0xEF1F, 0xFF3E, 0xCF5D, 0xDF7C, 0xAF9B, 0xBFBA, 0x8FD9, 0x9FF8, 0x6E17, 0x7E36, 0x4E55, 0x5E74, 0x2E93, 0x3EB2, 0x0ED1, 0x1EF0]"

definition ccitt_table :: "16 word \<Rightarrow> byte \<Rightarrow> 16 word" where
  "ccitt_table crc d = crctab ! unat ((drop_bit 8 crc XOR ucast d) AND 0xFF) XOR push_bit 8 crc"

definition CRC_CCITT_table :: "byte list \<Rightarrow> 16 word" where
  "CRC_CCITT_table data = foldl ccitt_table 0 data"

section \<open>The two variants agree\<close>

text \<open>Both steps add to the shifted checksum a word that depends on one byte only.\<close>

definition ccitt_byte :: "byte \<Rightarrow> 16 word" where
  "ccitt_byte x = (let y = ucast (x XOR drop_bit 4 x) in y XOR push_bit 12 y XOR push_bit 5 y)"

lemma crctab_entries: "crctab = map (\<lambda>i. ccitt_byte (word_of_nat i)) [0..<256]"
  by code_simp

lemma crctab_entry: "crctab ! unat x = ccitt_byte (ucast x)" if "unat x < 256" for x :: "16 word"
proof -
  have "crctab ! unat x = ccitt_byte (word_of_nat (unat x))" using that by (simp add: crctab_entries)
  also have "(word_of_nat (unat x) :: byte) = ucast x" by simp
  finally show ?thesis .
qed

lemma low_mask: "(0xFF :: 16 word) = mask 8"
  by (simp add: mask_eq_exp_minus_1)

lemma shifted_byte:
  fixes crc :: "16 word" and y :: byte
  shows "(push_bit 8 crc XOR ucast y) AND 0xFF = ucast y"
    and "push_bit 12 (push_bit 8 crc XOR ucast y) = push_bit 12 (ucast y :: 16 word)"
    and "((push_bit 8 crc XOR ucast y) XOR push_bit 12 (ucast y)) AND 0xFF = (ucast y :: 16 word)"
  unfolding low_mask by (rule bit_word_eqI, auto simp: bit_simps dest: bit_imp_le_length)+

lemma ccitt_shift_byte: "ccitt_shift crc d = ccitt_byte (ucast (drop_bit 8 crc) XOR d) XOR push_bit 8 crc"
proof -
  let ?x = "ucast (drop_bit 8 crc) XOR d"
  let ?y = "?x XOR drop_bit 4 ?x"
  have a: "(ucast (ucast (drop_bit 8 crc) :: byte) OR push_bit 8 crc) XOR ucast d = push_bit 8 crc XOR (ucast ?x :: 16 word)"
    by (rule bit_word_eqI) (auto simp: bit_simps dest: bit_imp_le_length)
  have b: "ucast (ucast ?x :: 16 word) = ?x" by (rule bit_word_eqI) (simp add: bit_simps)
  have c: "(push_bit 8 crc XOR ucast ?x) XOR ucast (drop_bit 4 ?x) = push_bit 8 crc XOR (ucast ?y :: 16 word)"
    by (simp only: unsigned_xor_eq xor.assoc)
  have "ccitt_shift crc d = ((push_bit 8 crc XOR ucast ?y) XOR push_bit 12 (ucast ?y)) XOR push_bit 5 (ucast ?y)"
    by (simp only: ccitt_shift_def Let_def a shifted_byte b c)
  then show ?thesis by (simp only: ccitt_byte_def Let_def ac_simps)
qed

lemma ccitt_table_byte: "ccitt_table crc d = ccitt_byte (ucast (drop_bit 8 crc) XOR d) XOR push_bit 8 crc"
proof -
  let ?x = "(drop_bit 8 crc XOR ucast d) AND 0xFF :: 16 word"
  have "unat ?x < 256"
    using word_and_le1 [of "drop_bit 8 crc XOR ucast d" "0xFF"] by (simp add: word_le_nat_alt)
  moreover have "ucast ?x = ucast (drop_bit 8 crc) XOR d"
    unfolding low_mask by (rule bit_word_eqI) (auto simp: bit_simps)
  ultimately show ?thesis using crctab_entry [of ?x] by (simp add: ccitt_table_def)
qed

text \<open>C21: the table-driven checksum of data packets, with its 256 constants, equals the
  shift-based one on every packet.\<close>

theorem crc_ccitt_variants_agree: "CRC_CCITT_table data = CRC_CCITT_shift data"
proof -
  have "ccitt_table = ccitt_shift" by (intro ext) (simp add: ccitt_table_byte ccitt_shift_byte)
  then show ?thesis by (simp add: CRC_CCITT_table_def CRC_CCITT_shift_def)
qed

theorem command_frame_crc:
  "CRC7 (take 5 (command_frame CMD0 0)) = command_frame CMD0 0 ! 5 \<and>
   CRC7 (take 5 (command_frame CMD8 0x1AA)) = command_frame CMD8 0x1AA ! 5"
  by code_simp

end
