(* ===== verification/Formatter.thy ===== *)
theory Formatter
  imports FatChains
begin

text \<open>
  The FAT formatter: \<open>lib/SdFat/src/FatLib/FatFormatter.cpp\<close>, \<open>FatFormatter.h\<close> and \<open>lbaToMbrChs\<close> of
  \<open>common/FsStructs.cpp\<close>. It works on any block device; the number of sectors is what the device's \<open>sectorCount\<close> gave.
  \<open>None\<close> is a division by zero, or a search for a layout that does not end.
\<close>

section \<open>State\<close>

text \<open>The fields of the class. \<open>f_pr\<close> is the text printed so far, when there is a device to print on.\<close>

record 'd formatter =
  f_capacityMB :: "32 word"
  f_dataStart :: "32 word"
  f_fatSize :: "32 word"
  f_fatStart :: "32 word"
  f_relativeSectors :: "32 word"
  f_sectorCount :: "32 word"
  f_totalSectors :: "32 word"
  f_dev :: 'd
  f_pr :: "string option"
  f_secBuf :: "byte list"
  f_reservedSectorCount :: "16 word"
  f_partType :: byte
  f_sectorsPerCluster :: byte

abbreviation (input) BU16 :: "32 word" where "BU16 \<equiv> 128"
abbreviation (input) BU32 :: "32 word" where "BU32 \<equiv> 8192"
abbreviation (input) SECTORS_PER_MB :: "32 word" where "SECTORS_PER_MB \<equiv> 2048"
abbreviation (input) FAT16_ROOT_SECTOR_COUNT :: "32 word" where "FAT16_ROOT_SECTOR_COUNT \<equiv> 32"

definition writeMsg :: "string \<Rightarrow> 'd formatter \<Rightarrow> 'd formatter" where
  "writeMsg str f = f\<lparr>f_pr := map_option (\<lambda>out. out @ str) (f_pr f)\<rparr>"

text \<open>A write of the sector buffer, and a list of writes that stops at the first failure.\<close>

definition put_buf :: "'d blockdev \<Rightarrow> 32 word \<Rightarrow> 'd formatter \<Rightarrow> bool \<times> 'd formatter" where
  "put_buf D sector f = (let (ok, d) = dev_write D (f_dev f) sector (f_secBuf f) in (ok, f\<lparr>f_dev := d\<rparr>))"

fun put_bufs :: "'d blockdev \<Rightarrow> 32 word list \<Rightarrow> 'd formatter \<Rightarrow> bool \<times> 'd formatter" where
  "put_bufs D [] f = (True, f)"
| "put_bufs D (s # ss) f = (let (ok, f) = put_buf D s f in if \<not> ok then (False, f) else put_bufs D ss f)"

section \<open>Cylinder, head and sector\<close>

definition numberOfHeads :: "32 word \<Rightarrow> nat" where
  "numberOfHeads capacityMB =
     (if capacityMB \<le> 16 then 2 else if capacityMB \<le> 32 then 4 else if capacityMB \<le> 128 then 8
      else if capacityMB \<le> 504 then 16 else if capacityMB \<le> 1008 then 32 else if capacityMB \<le> 2016 then 64
      else if capacityMB \<le> 4032 then 128 else 255)"

definition sectorsPerTrack :: "32 word \<Rightarrow> nat" where
  "sectorsPerTrack capacityMB = (if capacityMB \<le> 256 then 32 else 63)"

definition lbaToMbrChs :: "32 word \<Rightarrow> 32 word \<Rightarrow> byte list" where
  "lbaToMbrChs capacityMB lba =
     (let spt = word_of_nat (sectorsPerTrack capacityMB);
          hs = word_of_nat (numberOfHeads capacityMB) * spt;
          c = lba div hs;
          (c, h, s) = (if c \<le> 1023 then (c, ucast ((lba mod hs) div spt), ucast (lba mod spt) + 1) else (1023, 254, 63 :: byte))
      in [h, ucast (drop_bit 2 c AND 0xC0) OR s, ucast c])"

section \<open>Sectors\<close>

definition writeMbr :: "'d blockdev \<Rightarrow> 'd formatter \<Rightarrow> bool \<times> 'd formatter" where
  "writeMbr D f =
     (let b = replicate 512 0;
          b = put_at 447 (lbaToMbrChs (f_capacityMB f) (f_relativeSectors f)) b;
          b = put_at 451 (lbaToMbrChs (f_capacityMB f) (f_relativeSectors f + f_totalSectors f - 1)) b;
          b = put_at 450 [f_partType f] b;
          b = setLe32 454 (f_relativeSectors f) b;
          b = setLe32 458 (f_totalSectors f) b;
          b = setLe16 510 0xAA55 b
      in put_buf D 0 (f\<lparr>f_secBuf := b\<rparr>))"

definition initPbs :: "'d formatter \<Rightarrow> 'd formatter" where
  "initPbs f =
     (let b = replicate 512 0;
          b = put_at 0 [0xEB, 0x76, 0x90] b;
          b = put_at 3 (replicate 8 0x20) b;
          b = setLe16 11 512 b;
          b = put_at 13 [f_sectorsPerCluster f] b;
          b = setLe16 14 (f_reservedSectorCount f) b;
          b = put_at 16 [2] b;
          b = put_at 21 [0xF8] b;
          b = setLe32 28 (f_relativeSectors f) b;
          b = setLe32 32 (f_totalSectors f) b;
          b = setLe16 510 0xAA55 b
      in f\<lparr>f_secBuf := b\<rparr>)"

text \<open>The first sectors of FATs and directories: zeros, with a dot on the way, then the reserved entries.\<close>

fun initFatDir_loop :: "'d blockdev \<Rightarrow> 32 word \<Rightarrow> nat list \<Rightarrow> 'd formatter \<Rightarrow> bool \<times> 'd formatter" where
  "initFatDir_loop D sectorCount [] f = (True, f)"
| "initFatDir_loop D sectorCount (i # is) f =
     (let (ok, f) = put_buf D (f_fatStart f + word_of_nat i) f
      in if \<not> ok then (False, f)
         else initFatDir_loop D sectorCount is
                (if word_of_nat i mod (sectorCount div 32) = 0 then writeMsg ''.'' f else f))"

definition initFatDir :: "'d blockdev \<Rightarrow> nat \<Rightarrow> 32 word \<Rightarrow> 'd formatter \<Rightarrow> (bool \<times> 'd formatter) option" where
  "initFatDir D fatType sectorCount f =
     (if 1 < sectorCount \<and> sectorCount < 32 then None
      else let f = writeMsg ''Writing FAT '' (f\<lparr>f_secBuf := replicate 512 0\<rparr>);
               (ok, f) = initFatDir_loop D sectorCount [1..<unat sectorCount] f
           in Some (if \<not> ok then (False, f)
              else let f = writeMsg [CHR 0x0D, CHR 0x0A] f;
                       n = (if fatType = 16 then 4 else 12);
                       f = f\<lparr>f_secBuf := put_at 0 (0xF8 # replicate (n - 1) 0xFF) (f_secBuf f)\<rparr>
                   in put_bufs D [f_fatStart f, f_fatStart f + f_fatSize f] f))"

section \<open>Layout\<close>

text \<open>The search for the first data sector: its address, the number of clusters, the size of a FAT and what the loop compares.\<close>

partial_function (option) fat16_layout :: "32 word \<Rightarrow> byte \<Rightarrow> 32 word \<Rightarrow> (32 word \<times> 32 word \<times> 32 word \<times> 32 word) option" where
  "fat16_layout sectorCount spc dataStart =
     (let nc = (sectorCount - dataStart) div ucast spc;
          fatSize = (nc + 2 + 256 - 1) div 256;
          r = BU16 + 1 + 2 * fatSize + FAT16_ROOT_SECTOR_COUNT
      in if r \<le> dataStart then Some (dataStart, nc, fatSize, r) else fat16_layout sectorCount spc (dataStart + BU16))"

partial_function (option) fat32_layout :: "32 word \<Rightarrow> byte \<Rightarrow> 32 word \<Rightarrow> (32 word \<times> 32 word \<times> 32 word \<times> 32 word) option" where
  "fat32_layout sectorCount spc dataStart =
     (let nc = (sectorCount - dataStart) div ucast spc;
          fatSize = (nc + 2 + 128 - 1) div 128;
          r = BU32 + 9 + 2 * fatSize
      in if r \<le> dataStart then Some (dataStart, nc, fatSize, r) else fat32_layout sectorCount spc (dataStart + BU32))"

definition bad_cluster_count :: string where
  "bad_cluster_count = ''Bad cluster count'' @ [CHR 0x0D, CHR 0x0A]"

definition spaces :: "nat \<Rightarrow> byte list" where "spaces n = replicate n 0x20"

text \<open>The fields of a volume with this layout, the sectors written for it, and the two together.\<close>

definition fat16_fields :: "32 word \<Rightarrow> 32 word \<Rightarrow> 32 word \<Rightarrow> 'd formatter \<Rightarrow> 'd formatter" where
  "fat16_fields nc fatSize relativeSectors f =
     (let f = f\<lparr>f_reservedSectorCount := 1, f_fatStart := relativeSectors + 1,
                f_totalSectors := nc * ucast (f_sectorsPerCluster f) + 2 * fatSize + 1 + 32\<rparr>
      in f\<lparr>f_partType := (if f_totalSectors f < 65536 then 0x04 else 0x06)\<rparr>)"

definition fat16_pbs :: "'d formatter \<Rightarrow> 'd formatter" where
  "fat16_pbs f =
     (let f = initPbs f;
          b = setLe16 17 512 (f_secBuf f);
          b = setLe16 22 (ucast (f_fatSize f)) b;
          b = put_at 36 [0x80] b;
          b = put_at 38 [0x29] b;
          b = setLe32 39 1234567 b;
          b = put_at 43 (spaces 11) b;
          b = put_at 54 [0x46, 0x41, 0x54, 0x31, 0x36] b
      in f\<lparr>f_secBuf := b\<rparr>)"

definition write_fat16 :: "'d blockdev \<Rightarrow> 'd formatter \<Rightarrow> (bool \<times> 'd formatter) option" where
  "write_fat16 D f =
     (case writeMbr D f of (ok, f) \<Rightarrow>
        if \<not> ok then Some (False, f)
        else case put_buf D (f_relativeSectors f) (fat16_pbs f) of (ok, f) \<Rightarrow>
          if \<not> ok then Some (False, f) else initFatDir D 16 (f_dataStart f - f_fatStart f) f)"

definition makeFat16 :: "'d blockdev \<Rightarrow> 'd formatter \<Rightarrow> (bool \<times> 'd formatter) option" where
  "makeFat16 D f =
     (case fat16_layout (f_sectorCount f) (f_sectorsPerCluster f) (2 * BU16) of
        None \<Rightarrow> None
      | Some (dataStart, nc, fatSize, r) \<Rightarrow>
          let f = f\<lparr>f_dataStart := dataStart, f_fatSize := fatSize, f_relativeSectors := dataStart - r + BU16\<rparr>
          in if nc < 4085 \<or> 65525 \<le> nc then Some (False, writeMsg bad_cluster_count f)
             else write_fat16 D (fat16_fields nc fatSize (f_relativeSectors f) f))"

definition fat32_fields :: "32 word \<Rightarrow> 32 word \<Rightarrow> 32 word \<Rightarrow> 'd formatter \<Rightarrow> 'd formatter" where
  "fat32_fields nc fatSize dataStart f =
     (let f = f\<lparr>f_reservedSectorCount := ucast (dataStart - f_relativeSectors f - 2 * fatSize)\<rparr>;
          f = f\<lparr>f_fatStart := f_relativeSectors f + ucast (f_reservedSectorCount f),
                f_totalSectors := nc * ucast (f_sectorsPerCluster f) + dataStart - f_relativeSectors f\<rparr>
      in f\<lparr>f_partType := (if f_relativeSectors f + f_totalSectors f \<le> 16450560 then 0x0B else 0x0C)\<rparr>)"

definition fat32_pbs :: "'d formatter \<Rightarrow> 'd formatter" where
  "fat32_pbs f =
     (let f = initPbs f;
          b = setLe32 36 (f_fatSize f) (f_secBuf f);
          b = setLe32 44 2 b;
          b = setLe16 48 1 b;
          b = setLe16 50 6 b;
          b = put_at 64 [0x80] b;
          b = put_at 66 [0x29] b;
          b = setLe32 67 1234567 b;
          b = put_at 71 (spaces 11) b;
          b = put_at 82 [0x46, 0x41, 0x54, 0x33, 0x32] b
      in f\<lparr>f_secBuf := b\<rparr>)"

text \<open>The sector of the extra boot area, and the information sector made from it.\<close>

definition boot_area :: "byte list" where
  "boot_area = setLe32 508 0xAA550000 (replicate 512 0)"

definition info_sector :: "byte list \<Rightarrow> byte list" where
  "info_sector b =
     (let b = setLe32 0 0x41615252 b;
          b = setLe32 484 0x61417272 b;
          b = setLe32 488 0xFFFFFFFF b
      in setLe32 492 0xFFFFFFFF b)"

definition write_fat32 :: "'d blockdev \<Rightarrow> 'd formatter \<Rightarrow> (bool \<times> 'd formatter) option" where
  "write_fat32 D f =
     (let rel = f_relativeSectors f in
      case writeMbr D f of (ok, f) \<Rightarrow>
        if \<not> ok then Some (False, f)
        else case put_bufs D [rel, rel + 6] (fat32_pbs f) of (ok, f) \<Rightarrow>
          if \<not> ok then Some (False, f)
          else case put_bufs D [rel + 2, rel + 8] (f\<lparr>f_secBuf := boot_area\<rparr>) of (ok, f) \<Rightarrow>
            if \<not> ok then Some (False, f)
            else case put_bufs D [rel + 1, rel + 7] (f\<lparr>f_secBuf := info_sector (f_secBuf f)\<rparr>) of (ok, f) \<Rightarrow>
              if \<not> ok then Some (False, f)
              else initFatDir D 32 (2 * f_fatSize f + ucast (f_sectorsPerCluster f)) f)"

definition makeFat32 :: "'d blockdev \<Rightarrow> 'd formatter \<Rightarrow> (bool \<times> 'd formatter) option" where
  "makeFat32 D f =
     (case fat32_layout (f_sectorCount f) (f_sectorsPerCluster f) (2 * BU32) of
        None \<Rightarrow> None
      | Some (dataStart, nc, fatSize, r) \<Rightarrow>
          let f = f\<lparr>f_relativeSectors := BU32, f_dataStart := dataStart, f_fatSize := fatSize\<rparr>
          in if nc < 65525 then Some (False, writeMsg bad_cluster_count f)
             else write_fat32 D (fat32_fields nc fatSize dataStart f))"

text \<open>\<open>f\<close> holds the device, the buffer and the output as the first assignments of \<open>format\<close> leave them.\<close>

definition cluster_size :: "32 word \<Rightarrow> byte" where
  "cluster_size capacityMB =
     (if capacityMB \<le> 16 then 2 else if capacityMB \<le> 32 then 4 else if capacityMB \<le> 64 then 8
      else if capacityMB \<le> 128 then 16 else if capacityMB \<le> 1024 then 32 else if capacityMB \<le> 32768 then 64 else 128)"

definition format :: "'d blockdev \<Rightarrow> 32 word \<Rightarrow> 'd formatter \<Rightarrow> (bool \<times> 'd formatter) option" where
  "format D sectorCount f =
     (let f = f\<lparr>f_sectorCount := sectorCount, f_capacityMB := (sectorCount + SECTORS_PER_MB - 1) div SECTORS_PER_MB\<rparr>
      in if f_capacityMB f \<le> 6 then Some (False, writeMsg (''Card is too small.'' @ [CHR 0x0D, CHR 0x0A]) f)
         else do {
           (rtn, f) \<leftarrow> (let f = f\<lparr>f_sectorsPerCluster := cluster_size (f_capacityMB f)\<rparr>
                       in if sectorCount < 0x400000 then makeFat16 D f else makeFat32 D f);
           Some (rtn, writeMsg ((if rtn then ''Format Done'' else ''Format Failed'') @ [CHR 0x0D, CHR 0x0A]) f) })"

section \<open>The layout fits\<close>

lemma clusters_nat:
  assumes "ds \<le> unat sectorCount" "0 < spc"
  shows "unat ((sectorCount - word_of_nat ds) div ucast (spc :: byte) :: 32 word) = (unat sectorCount - ds) div unat spc"
proof -
  have "ds < 2 ^ LENGTH(32)" using assms(1) unat_bound [of sectorCount] by simp
  then have "unat (word_of_nat ds :: 32 word) = ds" by (rule unat_of_nat_small)
  moreover from this have "word_of_nat ds \<le> sectorCount" using assms(1) by (simp add: word_le_nat_alt)
  ultimately show ?thesis by (simp add: unat_div unat_sub unat_ucast_up)
qed

lemma fat_size_nat:
  assumes "unat (nc :: 32 word) < 2 ^ 31"
  shows "unat ((nc + 2 + 256 - 1) div 256) = (unat nc + 257) div 256" "unat ((nc + 2 + 128 - 1) div 128) = (unat nc + 129) div 128"
proof -
  have "nc + 2 + 256 - 1 = nc + 257" "nc + 2 + 128 - 1 = nc + 129" by simp_all
  moreover have "unat (nc + 257) = unat nc + 257" "unat (nc + 129) = unat nc + 129"
    using assms by (simp_all add: unat_word_ariths)
  ultimately show "unat ((nc + 2 + 256 - 1) div 256) = (unat nc + 257) div 256" "unat ((nc + 2 + 128 - 1) div 128) = (unat nc + 129) div 128"
    by (simp_all only: unat_div) simp_all
qed

text \<open>What the two loops find.\<close>

definition layout_of :: "nat \<Rightarrow> nat \<Rightarrow> nat \<Rightarrow> nat \<Rightarrow> 32 word \<Rightarrow> byte \<Rightarrow> (32 word \<times> 32 word \<times> 32 word \<times> 32 word) option \<Rightarrow> bool" where
  "layout_of e gap k j sectorCount spc x \<longleftrightarrow>
     (\<exists>ds nc fs r. x = Some (ds, nc, fs, r) \<and> unat ds = k * j \<and> unat nc = (unat sectorCount - k * j) div unat spc \<and>
        unat fs = (unat nc + (e + 1)) div e \<and> unat r = gap + 2 * unat fs \<and> unat r \<le> unat ds)"

lemma fat16_layout_found:
  assumes "768 \<le> unat sectorCount" "0 < spc" "(unat sectorCount - 256) div unat spc \<le> 65532" "2 \<le> j" "j \<le> 6"
  shows "\<exists>j'. j \<le> j' \<and> j' \<le> 6 \<and> layout_of 256 161 128 j' sectorCount spc (fat16_layout sectorCount spc (word_of_nat (128 * j)))"
  using assms(4,5)
proof (induction "6 - j" arbitrary: j rule: less_induct)
  case less
  let ?ds = "word_of_nat (128 * j) :: 32 word"
  define nc where "nc = (sectorCount - ?ds) div ucast spc"
  define fs where "fs = (nc + 2 + 256 - 1) div 256"
  define r where "r = BU16 + 1 + 2 * fs + FAT16_ROOT_SECTOR_COUNT"
  have n: "unat nc = (unat sectorCount - 128 * j) div unat spc"
    unfolding nc_def using assms(1,2) less.prems by (intro clusters_nat) simp_all
  also have "\<dots> \<le> (unat sectorCount - 256) div unat spc" using less.prems by (intro div_le_mono) simp
  finally have n32: "unat nc \<le> 65532" using assms(3) by simp
  have f: "unat fs = (unat nc + 257) div 256" unfolding fs_def using n32 by (intro fat_size_nat) simp
  then have f256: "unat fs \<le> 256" using n32 by simp
  have r: "unat r = 161 + 2 * unat fs" unfolding r_def using f256 by (simp add: unat_word_ariths)
  have d: "unat ?ds = 128 * j" by (rule unat_of_nat_small) (use less.prems in simp)
  have e: "fat16_layout sectorCount spc ?ds = (if r \<le> ?ds then Some (?ds, nc, fs, r) else fat16_layout sectorCount spc (?ds + BU16))"
    by (subst fat16_layout.simps) (simp only: Let_def nc_def fs_def r_def)
  show ?case
  proof (cases "r \<le> ?ds")
    case True
    have "layout_of 256 161 128 j sectorCount spc (Some (?ds, nc, fs, r))"
      using n f r d True by (auto simp: layout_of_def word_le_nat_alt simp del: of_nat_mult)
    then show ?thesis using True e less.prems by (intro exI [of _ j]) simp
  next
    case False
    then have "j \<noteq> 6" using r f256 d by (auto simp: word_le_nat_alt)
    then have j: "6 - Suc j < 6 - j" "2 \<le> Suc j" "Suc j \<le> 6" using less.prems by simp_all
    have "?ds + BU16 = word_of_nat (128 * Suc j)" by simp
    then have "fat16_layout sectorCount spc ?ds = fat16_layout sectorCount spc (word_of_nat (128 * Suc j))" unfolding e if_not_P [OF False] by (simp only:)
    then show ?thesis using less.hyps [OF j] by (auto dest: Suc_leD)
  qed
qed

lemma fat32_layout_found:
  assumes "540672 \<le> unat sectorCount" "0 < spc" "unat sectorCount div unat spc \<le> 33554432" "2 \<le> j" "j \<le> 66"
  shows "\<exists>j'. j \<le> j' \<and> j' \<le> 66 \<and> layout_of 128 8201 8192 j' sectorCount spc (fat32_layout sectorCount spc (word_of_nat (8192 * j))) \<and>
    (j' = j \<or> 8192 * (j' - 1) < 8201 + 2 * (((unat sectorCount - 8192 * (j' - 1)) div unat spc + 129) div 128))"
  using assms(4,5)
proof (induction "66 - j" arbitrary: j rule: less_induct)
  case less
  let ?ds = "word_of_nat (8192 * j) :: 32 word"
  define nc where "nc = (sectorCount - ?ds) div ucast spc"
  define fs where "fs = (nc + 2 + 128 - 1) div 128"
  define r where "r = BU32 + 9 + 2 * fs"
  have n: "unat nc = (unat sectorCount - 8192 * j) div unat spc"
    unfolding nc_def using assms(1,2) less.prems by (intro clusters_nat) simp_all
  also have "\<dots> \<le> unat sectorCount div unat spc" by (intro div_le_mono) simp
  finally have n32: "unat nc \<le> 33554432" using assms(3) by simp
  have f: "unat fs = (unat nc + 129) div 128" unfolding fs_def using n32 by (intro fat_size_nat) simp
  then have fb: "unat fs \<le> 262145" using n32 by simp
  have r: "unat r = 8201 + 2 * unat fs" unfolding r_def using fb by (simp add: unat_word_ariths)
  have d: "unat ?ds = 8192 * j" by (rule unat_of_nat_small) (use less.prems in simp)
  have e: "fat32_layout sectorCount spc ?ds = (if r \<le> ?ds then Some (?ds, nc, fs, r) else fat32_layout sectorCount spc (?ds + BU32))"
    by (subst fat32_layout.simps) (simp only: Let_def nc_def fs_def r_def)
  show ?case
  proof (cases "r \<le> ?ds")
    case True
    have "layout_of 128 8201 8192 j sectorCount spc (Some (?ds, nc, fs, r))"
      using n f r d True by (auto simp: layout_of_def word_le_nat_alt simp del: of_nat_mult)
    then show ?thesis using True e less.prems by (intro exI [of _ j]) simp
  next
    case False
    then have "j \<noteq> 66" using r fb d by (auto simp: word_le_nat_alt)
    then have j: "66 - Suc j < 66 - j" "2 \<le> Suc j" "Suc j \<le> 66" using less.prems by simp_all
    have "?ds + BU32 = word_of_nat (8192 * Suc j)" by simp
    then have l: "fat32_layout sectorCount spc ?ds = fat32_layout sectorCount spc (word_of_nat (8192 * Suc j))" unfolding e if_not_P [OF False] by (simp only:)
    have m: "8192 * j < 8201 + 2 * (((unat sectorCount - 8192 * j) div unat spc + 129) div 128)"
      using False d r f n by (simp add: word_le_nat_alt)
    from less.hyps [OF j] obtain j' where "Suc j \<le> j'" "j' \<le> 66"
      "layout_of 128 8201 8192 j' sectorCount spc (fat32_layout sectorCount spc (word_of_nat (8192 * Suc j)))"
      "j' = Suc j \<or> 8192 * (j' - 1) < 8201 + 2 * (((unat sectorCount - 8192 * (j' - 1)) div unat spc + 129) div 128)" by blast
    then show ?thesis using m l by (intro exI [of _ j']) auto
  qed
qed

lemma capacity_nat:
  assumes "unat sectorCount \<le> 4294965248"
  shows "unat ((sectorCount + 2048 - 1) div 2048 :: 32 word) = (unat sectorCount + 2047) div 2048"
proof -
  have "sectorCount + 2048 - 1 = sectorCount + 2047" by simp
  moreover have "unat (sectorCount + 2047) = unat sectorCount + 2047" using assms by (simp add: unat_word_ariths)
  ultimately show ?thesis by (simp only: unat_div) simp
qed

lemma div_bounds:
  fixes a b c :: nat
  assumes "0 < c"
  shows "a div c \<le> b \<longleftrightarrow> a < (b + 1) * c" "b \<le> a div c \<longleftrightarrow> b * c \<le> a"
  using assms div_less_iff_less_mult [of c a "b + 1"] less_eq_div_iff_mult_less_eq [of c b a] by auto

text \<open>Sectors of a cluster for every number of sectors.\<close>

lemma cluster_size_nat:
  assumes "unat cap = (n + 2047) div 2048" "12288 < n"
  shows "unat (cluster_size cap) = (if n \<le> 32768 then 2 else if n \<le> 65536 then 4 else if n \<le> 131072 then 8
    else if n \<le> 262144 then 16 else if n \<le> 2097152 then 32 else if n \<le> 67108864 then 64 else 128)"
proof -
  have "cap \<le> word_of_nat k \<longleftrightarrow> n \<le> 2048 * k" if "k < 2 ^ 32" for k
  proof -
    have "unat (word_of_nat k :: 32 word) = k" using that by (intro unat_of_nat_small) simp
    then have "cap \<le> word_of_nat k \<longleftrightarrow> (n + 2047) div 2048 \<le> k" using assms(1) by (simp add: word_le_nat_alt)
    also have "\<dots> \<longleftrightarrow> n \<le> 2048 * k" by (subst div_bounds(1)) auto
    finally show ?thesis .
  qed
  from this [of 16] this [of 32] this [of 64] this [of 128] this [of 1024] this [of 32768] show ?thesis
    by (simp add: cluster_size_def)
qed

lemma fat16_bounds:
  assumes "12288 < n" "n < 0x400000" "unat cap = (n + 2047) div 2048"
  shows "(n - 256) div unat (cluster_size cap) \<le> 65532" "(n - 768) div unat (cluster_size cap) \<le> 65524"
    "4085 \<le> (n - 768) div unat (cluster_size cap)" "unat (cluster_size cap) \<in> {2, 4, 8, 16, 32, 64}"
proof -
  note c = cluster_size_nat [OF assms(3,1)]
  consider "n \<le> 32768" | "32768 < n" "n \<le> 65536" | "65536 < n" "n \<le> 131072" | "131072 < n" "n \<le> 262144"
    | "262144 < n" "n \<le> 2097152" | "2097152 < n" by linarith
  then have "(n - 256) div unat (cluster_size cap) \<le> 65532 \<and> (n - 768) div unat (cluster_size cap) \<le> 65524 \<and>
    4085 \<le> (n - 768) div unat (cluster_size cap) \<and> unat (cluster_size cap) \<in> {2, 4, 8, 16, 32, 64}"
    by cases (use assms(1,2) in \<open>auto simp: c div_bounds\<close>)
  then show "(n - 256) div unat (cluster_size cap) \<le> 65532" "(n - 768) div unat (cluster_size cap) \<le> 65524"
    "4085 \<le> (n - 768) div unat (cluster_size cap)" "unat (cluster_size cap) \<in> {2, 4, 8, 16, 32, 64}" by blast+
qed

lemma fat32_bounds:
  assumes "0x400000 \<le> n" "n \<le> 4294965248" "unat cap = (n + 2047) div 2048"
  shows "n div unat (cluster_size cap) \<le> 33554432" "unat (cluster_size cap) \<in> {64, 128}"
    "n \<le> 67108864 \<Longrightarrow> unat (cluster_size cap) = 64"
proof -
  have c: "unat (cluster_size cap) = (if n \<le> 67108864 then 64 else 128)" using cluster_size_nat [OF assms(3)] assms(1) by simp
  show "n div unat (cluster_size cap) \<le> 33554432" "unat (cluster_size cap) \<in> {64, 128}" "n \<le> 67108864 \<Longrightarrow> unat (cluster_size cap) = 64"
    using assms(2) by (simp_all add: c div_bounds)
qed

section \<open>The address of a sector comes back\<close>

text \<open>How a partition table is read: the sector that a cylinder, head and sector stand for.\<close>

definition chs_lba :: "32 word \<Rightarrow> byte list \<Rightarrow> nat" where
  "chs_lba capacityMB chs =
     (let c = unat (chs ! 2) + 4 * unat (chs ! 1 AND 0xC0)
      in (c * numberOfHeads capacityMB + unat (chs ! 0)) * sectorsPerTrack capacityMB + unat (chs ! 1 AND 0x3F) - 1)"

lemma chs_cylinder:
  assumes "c < (1024 :: 32 word)" "s < (64 :: byte)"
  shows "(ucast (drop_bit 2 c AND 0xC0) OR s) AND 0x3F = s"
    "unat (ucast c :: byte) + 4 * unat ((ucast (drop_bit 2 c AND 0xC0) OR s) AND 0xC0) = unat c"
proof -
  have m: "(0x3F :: byte) = mask 6" "(0xC0 :: 32 word) = push_bit 6 (mask 2)" "(0xC0 :: byte) = push_bit 6 (mask 2)"
    by (simp_all add: mask_eq_exp_minus_1)
  have s: "s = take_bit 6 s" using assms(2) by (simp add: take_bit_word_small word_less_nat_alt)
  show "(ucast (drop_bit 2 c AND 0xC0) OR s) AND 0x3F = s"
    unfolding m by (subst (2) s, subst s) (rule bit_word_eqI, auto simp: bit_simps)
  have c: "c = take_bit 10 c" using assms(1) by (simp add: take_bit_word_small word_less_nat_alt)
  have "(ucast (drop_bit 2 c AND 0xC0) OR s) AND 0xC0 = (push_bit 6 (ucast (drop_bit 8 c)) :: byte)"
    unfolding m by (subst s, subst (2) c) (rule bit_word_eqI, auto simp: bit_simps)
  moreover have "unat (push_bit 6 (ucast (drop_bit 8 c)) :: byte) = 64 * (unat c div 256)"
  proof -
    have "unat c div 256 < 4" using assms(1) by (simp add: word_less_nat_alt less_mult_imp_div_less)
    moreover from this have "unat (ucast (drop_bit 8 c) :: byte) = unat c div 256" by (simp add: unat_ucast_down unat_drop)
    ultimately show ?thesis unfolding unsigned_push_bit_eq by (simp add: push_bit_eq_mult take_bit_nat_eq_self)
  qed
  moreover have "unat (ucast c :: byte) = unat c mod 256" by (simp add: unsigned_ucast_eq take_bit_eq_mod)
  ultimately show "unat (ucast c :: byte) + 4 * unat ((ucast (drop_bit 2 c AND 0xC0) OR s) AND 0xC0) = unat c"
    by simp
qed

lemma geometry_bounds:
  "1 < numberOfHeads cap" "numberOfHeads cap \<le> 255" "sectorsPerTrack cap = 32 \<or> sectorsPerTrack cap = 63"
  by (simp_all add: numberOfHeads_def sectorsPerTrack_def)

lemma chs_decode:
  assumes "unat lba < 1024 * (numberOfHeads cap * sectorsPerTrack cap)"
  shows "chs_lba cap (lbaToMbrChs cap lba) = unat lba"
proof -
  define H S where "H = numberOfHeads cap" and "S = sectorsPerTrack cap"
  have b: "1 < H" "H \<le> 255" "0 < S" "S < 64" using geometry_bounds [of cap] by (auto simp: H_def S_def)
  have hs: "H * S < 2 ^ 32" using mult_le_mono [of H 255 S 63] b by simp
  have uS: "unat (word_of_nat S :: 32 word) = S" using b by (intro unat_of_nat_small) simp
  have u: "unat (word_of_nat H * word_of_nat S :: 32 word) = H * S" using hs unat_of_nat_small [where 'a = 32, of "H * S"] by simp
  define c where "c = lba div (word_of_nat H * word_of_nat S)"
  define h where "h = (ucast ((lba mod (word_of_nat H * word_of_nat S)) div word_of_nat S) :: byte)"
  define s where "s = (ucast (lba mod word_of_nat S) + 1 :: byte)"
  have c: "unat c = unat lba div (H * S)" by (simp add: c_def unat_div u)
  have c1: "unat c < 1024" unfolding c using assms by (intro less_mult_imp_div_less) (simp add: H_def S_def)
  have hb: "unat lba mod (H * S) div S < H" using b by (intro less_mult_imp_div_less) simp
  have h: "unat h = unat lba mod (H * S) div S" unfolding h_def using hb b by (subst unat_ucast_down) (simp_all add: unat_div unat_mod u uS)
  have sb: "unat lba mod S < 63" using b mod_less_divisor [of S "unat lba"] by linarith
  have s: "unat s = unat lba mod S + 1"
  proof -
    have "unat (ucast (lba mod word_of_nat S) :: byte) = unat lba mod S" using sb by (subst unat_ucast_down) (simp_all add: unat_mod uS)
    then show ?thesis unfolding s_def using sb by (simp add: unat_word_ariths)
  qed
  have s64: "s < 64" using s sb by (simp add: word_less_nat_alt)
  have c1': "c < 1024" "c \<le> 1023" using c1 by (simp_all add: word_less_nat_alt word_le_nat_alt)
  have e: "lbaToMbrChs cap lba = [h, ucast (drop_bit 2 c AND 0xC0) OR s, ucast c]"
    unfolding lbaToMbrChs_def Let_def H_def [symmetric] S_def [symmetric] c_def [symmetric] h_def [symmetric] s_def [symmetric]
    using c1'(2) by simp
  have "chs_lba cap (lbaToMbrChs cap lba) = (unat c * H + unat h) * S + unat s - 1"
    unfolding chs_lba_def e H_def [symmetric] S_def [symmetric] using chs_cylinder [OF c1'(1) s64] by (simp add: Let_def)
  also have "\<dots> = unat lba div (H * S) * (H * S) + (unat lba mod (H * S) div S * S + unat lba mod S)"
    unfolding c h s by (simp add: algebra_simps)
  also have "unat lba mod S = unat lba mod (H * S) mod S" by (simp add: mod_mod_cancel)
  finally show ?thesis using div_mult_mod_eq [of "unat lba" "H * S"] by (simp only: div_mult_mod_eq)
qed

theorem chs_roundtrip:
  "chs_lba cap (lbaToMbrChs cap lba) = (if unat lba < 1024 * (numberOfHeads cap * sectorsPerTrack cap) then unat lba
     else (1023 * numberOfHeads cap + 254) * sectorsPerTrack cap + 62)"
proof (cases "unat lba < 1024 * (numberOfHeads cap * sectorsPerTrack cap)")
  case True
  then show ?thesis using chs_decode by simp
next
  case False
  have "numberOfHeads cap * sectorsPerTrack cap < 2 ^ 32" "0 < numberOfHeads cap * sectorsPerTrack cap"
    using mult_le_mono [of "numberOfHeads cap" 255 "sectorsPerTrack cap" 63] geometry_bounds [of cap] by auto
  then have "unat (word_of_nat (numberOfHeads cap) * word_of_nat (sectorsPerTrack cap) :: 32 word) = numberOfHeads cap * sectorsPerTrack cap"
    using unat_of_nat_small [where 'a = 32, of "numberOfHeads cap * sectorsPerTrack cap"] by simp
  then have "1024 \<le> unat (lba div (word_of_nat (numberOfHeads cap) * word_of_nat (sectorsPerTrack cap)))"
    using False \<open>0 < numberOfHeads cap * sectorsPerTrack cap\<close> by (simp add: unat_div div_bounds)
  then have c: "\<not> lba div (word_of_nat (numberOfHeads cap) * word_of_nat (sectorsPerTrack cap)) \<le> 1023"
    by (simp add: word_le_nat_alt)
  have "lbaToMbrChs cap lba = [254, 0xFF, 0xFF]"
    unfolding lbaToMbrChs_def Let_def if_not_P [OF c] prod.case by code_simp
  then show ?thesis unfolding if_not_P [OF False] by (simp add: chs_lba_def Let_def)
qed

end
