(* ===== verification/FormatMount.thy ===== *)
theory FormatMount
  imports Formatter DemoCard
begin

text \<open>
  What the formatter leaves on a card that works, and that the volume which \<open>FatPartition_init\<close> finds there is consistent
  and empty: it satisfies what the theorems on allocation and files assume.
\<close>

section \<open>Writes\<close>

lemma writeMsg_fields [simp]:
  "f_dev (writeMsg m f) = f_dev f" "f_secBuf (writeMsg m f) = f_secBuf f" "f_fatStart (writeMsg m f) = f_fatStart f"
  "f_fatSize (writeMsg m f) = f_fatSize f"
  by (simp_all add: writeMsg_def)

lemma put_buf_works:
  assumes "dev_works D M" "length (f_secBuf f) = 512"
  shows "\<exists>d. put_buf D s f = (True, f\<lparr>f_dev := d\<rparr>) \<and> M d = (M (f_dev f))(s := f_secBuf f)"
proof -
  obtain d where d: "dev_write D (f_dev f) s (f_secBuf f) = (True, d)" "M d = (M (f_dev f))(s := f_secBuf f)"
    using assms unfolding dev_works_def by blast
  then show ?thesis by (intro exI [of _ d]) (simp add: put_buf_def)
qed

lemma put_two_works:
  assumes "dev_works D M" "length (f_secBuf f) = 512"
  shows "\<exists>d. put_bufs D [s, t] f = (True, f\<lparr>f_dev := d\<rparr>) \<and> M d = (M (f_dev f))(s := f_secBuf f, t := f_secBuf f)"
proof -
  obtain d where d: "put_buf D s f = (True, f\<lparr>f_dev := d\<rparr>)" "M d = (M (f_dev f))(s := f_secBuf f)"
    using put_buf_works [OF assms] by blast
  obtain e where "put_buf D t (f\<lparr>f_dev := d\<rparr>) = (True, f\<lparr>f_dev := e\<rparr>)" "M e = (M d)(t := f_secBuf f)"
    using put_buf_works [OF assms(1), of "f\<lparr>f_dev := d\<rparr>" t] assms(2) by auto
  then show ?thesis using d by (intro exI [of _ e]) simp
qed

text \<open>A run of sectors that all get the contents of the buffer.\<close>

definition fill :: "32 word \<Rightarrow> nat set \<Rightarrow> byte list \<Rightarrow> (32 word \<Rightarrow> byte list) \<Rightarrow> 32 word \<Rightarrow> byte list" where
  "fill start I b m s = (if \<exists>i \<in> I. s = start + word_of_nat i then b else m s)"

lemma initFatDir_loop_works:
  assumes "dev_works D M" "length (f_secBuf f) = 512"
  shows "\<exists>d pr. initFatDir_loop D n is f = (True, f\<lparr>f_dev := d, f_pr := pr\<rparr>) \<and>
    M d = fill (f_fatStart f) (set is) (f_secBuf f) (M (f_dev f))"
  using assms(2)
proof (induction "is" arbitrary: f)
  case Nil
  show ?case by (intro exI [of _ "f_dev f"] exI [of _ "f_pr f"]) (simp add: fill_def fun_eq_iff)
next
  case (Cons i js)
  obtain d where d: "put_buf D (f_fatStart f + word_of_nat i) f = (True, f\<lparr>f_dev := d\<rparr>)"
    "M d = (M (f_dev f))(f_fatStart f + word_of_nat i := f_secBuf f)" using put_buf_works [OF assms(1) Cons.prems] by blast
  let ?f = "if word_of_nat i mod (n div 32) = 0 then writeMsg ''.'' (f\<lparr>f_dev := d\<rparr>) else f\<lparr>f_dev := d\<rparr>"
  have q: "f_secBuf ?f = f_secBuf f" "f_fatStart ?f = f_fatStart f" "f_dev ?f = d" by simp_all
  have "length (f_secBuf ?f) = 512" using Cons.prems q by simp
  from Cons.IH [OF this] obtain e pr where e: "initFatDir_loop D n js ?f = (True, ?f\<lparr>f_dev := e, f_pr := pr\<rparr>)"
    "M e = fill (f_fatStart f) (set js) (f_secBuf f) (M d)" unfolding q by blast
  have "?f\<lparr>f_dev := e, f_pr := pr\<rparr> = f\<lparr>f_dev := e, f_pr := pr\<rparr>" by (simp add: writeMsg_def)
  moreover have "M e = fill (f_fatStart f) (set (i # js)) (f_secBuf f) (M (f_dev f))"
    unfolding e(2) d(2) by (auto simp: fill_def fun_eq_iff)
  ultimately show ?case using d(1) e(1) by (intro exI [of _ e] exI [of _ pr]) simp
qed

text \<open>The first sector of a FAT.\<close>

definition first_fat :: "nat \<Rightarrow> byte list" where
  "first_fat n = put_at 0 (0xF8 # replicate (n - 1) 0xFF) (replicate 512 0)"

lemma initFatDir_works:
  assumes "dev_works D M" "32 \<le> sectorCount" "n = (if fatType = 16 then 4 else 12)"
  shows "\<exists>d pr. initFatDir D fatType sectorCount f = Some (True, f\<lparr>f_dev := d, f_pr := pr, f_secBuf := first_fat n\<rparr>) \<and>
    M d = (fill (f_fatStart f) {1..<unat sectorCount} (replicate 512 0) (M (f_dev f)))
      (f_fatStart f := first_fat n, f_fatStart f + f_fatSize f := first_fat n)"
proof -
  let ?f = "writeMsg ''Writing FAT '' (f\<lparr>f_secBuf := replicate 512 0\<rparr>)"
  have "length (f_secBuf ?f) = 512" by simp
  from initFatDir_loop_works [OF assms(1) this, of sectorCount "[1..<unat sectorCount]"] obtain d pr where
    d: "initFatDir_loop D sectorCount [1..<unat sectorCount] ?f = (True, ?f\<lparr>f_dev := d, f_pr := pr\<rparr>)"
    "M d = fill (f_fatStart f) {1..<unat sectorCount} (replicate 512 0) (M (f_dev f))" by auto
  let ?g = "(writeMsg [CHR 0x0D, CHR 0x0A] (?f\<lparr>f_dev := d, f_pr := pr\<rparr>))\<lparr>f_secBuf := first_fat n\<rparr>"
  have l: "length (f_secBuf ?g) = 512" using assms(3) by (simp add: first_fat_def)
  obtain e where e: "put_bufs D [f_fatStart f, f_fatStart f + f_fatSize f] ?g = (True, ?g\<lparr>f_dev := e\<rparr>)"
    "M e = (M d)(f_fatStart f := first_fat n, f_fatStart f + f_fatSize f := first_fat n)"
    using put_two_works [OF assms(1) l, of "f_fatStart f" "f_fatStart f + f_fatSize f"] by auto
  have "\<not> (1 < sectorCount \<and> sectorCount < 32)" using assms(2) by auto
  then have "initFatDir D fatType sectorCount f = Some (True, ?g\<lparr>f_dev := e\<rparr>)"
    using d(1) e(1) assms(3) by (simp add: initFatDir_def Let_def first_fat_def del: put_bufs.simps)
  then show ?thesis using d(2) e(2) by (intro exI [of _ e] exI [of _ "f_pr ?g"]) (simp add: writeMsg_def)
qed

section \<open>Fields of a sector\<close>

text \<open>A sector built by a list of writes, and the last bytes written to a field.\<close>

fun puts :: "(nat \<times> byte list) list \<Rightarrow> byte list \<Rightarrow> byte list" where
  "puts [] b = b"
| "puts ((off, x) # ws) b = puts ws (put_at off x b)"

fun look :: "nat \<Rightarrow> nat \<Rightarrow> (nat \<times> byte list) list \<Rightarrow> byte list option \<Rightarrow> byte list option" where
  "look off n [] y = y"
| "look off n ((off', x) # ws) y =
     look off n ws (if off' = off \<and> length x = n then Some x else if off + n \<le> off' \<or> off' + length x \<le> off then y else None)"

definition fits :: "nat \<Rightarrow> (nat \<times> byte list) list \<Rightarrow> bool" where
  "fits n ws \<longleftrightarrow> list_all (\<lambda>(off, x). off + length x \<le> n) ws"

lemma length_puts: "fits (length b) ws \<Longrightarrow> length (puts ws b) = length b"
  by (induction ws b rule: puts.induct) (simp_all add: fits_def)

lemma field_put_at:
  assumes "off' + length x \<le> length b" "off + n \<le> length b" "off + n \<le> off' \<or> off' + length x \<le> off"
  shows "take n (drop off (put_at off' x b)) = take n (drop off b)"
  by (rule nth_equalityI) (use assms in \<open>auto simp: nth_put_at\<close>)

lemma look_puts:
  assumes "fits (length b) ws" "off + n \<le> length b" "\<And>y'. y = Some y' \<Longrightarrow> take n (drop off b) = y'" "look off n ws y = Some z"
  shows "take n (drop off (puts ws b)) = z"
  using assms
proof (induction ws b arbitrary: y rule: puts.induct)
  case (1 b)
  then show ?case by simp
next
  case (2 off' x ws b)
  let ?y = "if off' = off \<and> length x = n then Some x else if off + n \<le> off' \<or> off' + length x \<le> off then y else None"
  have l: "off' + length x \<le> length b" "fits (length (put_at off' x b)) ws" using "2.prems"(1) by (simp_all add: fits_def)
  have "take n (drop off (put_at off' x b)) = y'" if y: "?y = Some y'" for y'
  proof (cases "off' = off \<and> length x = n")
    case True
    then show ?thesis using y l(1) take_drop_put_at [of off x b] by simp
  next
    case False
    then have "off + n \<le> off' \<or> off' + length x \<le> off" "y = Some y'" using y by (auto split: if_split_asm)
    then show ?thesis using field_put_at [OF l(1) "2.prems"(2)] "2.prems"(3) by simp
  qed
  then show ?case using "2.IH" [OF l(2), of ?y] "2.prems"(2,4) l(1) by simp
qed

lemma field_values:
  "take 2 (drop off b) = le_bytes 2 w \<Longrightarrow> getLe16 b off = w" "take 4 (drop off b) = le_bytes 4 d \<Longrightarrow> getLe32 b off = d"
  "take 1 (drop off b) = [x] \<Longrightarrow> b ! off = x"
proof -
  assume a: "take 2 (drop off b) = le_bytes 2 w"
  have "drop off b = le_bytes 2 w @ drop 2 (drop off b)" using append_take_drop_id [of 2 "drop off b"] unfolding a by simp
  then show "getLe16 b off = w" using le_word_le_bytes [of 2 w "drop 2 (drop off b)"] by (simp add: getLe16_def)
next
  assume a: "take 4 (drop off b) = le_bytes 4 d"
  have "drop off b = le_bytes 4 d @ drop 4 (drop off b)" using append_take_drop_id [of 4 "drop off b"] unfolding a by simp
  then show "getLe32 b off = d" using le_word_le_bytes [of 4 d "drop 4 (drop off b)"] by (simp add: getLe32_def)
next
  assume a: "take 1 (drop off b) = [x]"
  have "drop off b = x # drop 1 (drop off b)" using append_take_drop_id [of 1 "drop off b"] unfolding a by simp
  moreover from this have "off < length b" by (cases "off < length b") simp_all
  ultimately show "b ! off = x" by (metis Cons_nth_drop_Suc list.inject)
qed

lemma le_bytes_0: "le_bytes 2 (0 :: 16 word) = replicate 2 0"
  by (simp add: le_bytes_def numeral_eq_Suc)

lemma zero_fields:
  "off + n \<le> 512 \<Longrightarrow> take n (drop off (replicate 512 (0 :: byte))) = replicate n 0"
  by (simp add: min_def)

text \<open>A boot sector as the formatter writes it.\<close>

definition pbs_writes :: "'d formatter \<Rightarrow> (nat \<times> byte list) list" where
  "pbs_writes f = [(0, [0xEB, 0x76, 0x90]), (3, replicate 8 0x20), (11, le_bytes 2 (512 :: 16 word)), (13, [f_sectorsPerCluster f]),
     (14, le_bytes 2 (f_reservedSectorCount f)), (16, [2]), (21, [0xF8]), (28, le_bytes 4 (f_relativeSectors f)),
     (32, le_bytes 4 (f_totalSectors f)), (510, le_bytes 2 (0xAA55 :: 16 word))]"

definition fat16_writes :: "'d formatter \<Rightarrow> (nat \<times> byte list) list" where
  "fat16_writes f = pbs_writes f @ [(17, le_bytes 2 (512 :: 16 word)), (22, le_bytes 2 (ucast (f_fatSize f) :: 16 word)),
     (36, [0x80]), (38, [0x29]), (39, le_bytes 4 (1234567 :: 32 word)), (43, spaces 11), (54, [0x46, 0x41, 0x54, 0x31, 0x36])]"

definition fat32_writes :: "'d formatter \<Rightarrow> (nat \<times> byte list) list" where
  "fat32_writes f = pbs_writes f @ [(36, le_bytes 4 (f_fatSize f)), (44, le_bytes 4 (2 :: 32 word)), (48, le_bytes 2 (1 :: 16 word)),
     (50, le_bytes 2 (6 :: 16 word)), (64, [0x80]), (66, [0x29]), (67, le_bytes 4 (1234567 :: 32 word)), (71, spaces 11),
     (82, [0x46, 0x41, 0x54, 0x33, 0x32])]"

text \<open>What mounting reads of it.\<close>

definition boot_sector :: "byte list \<Rightarrow> byte \<Rightarrow> 16 word \<Rightarrow> 16 word \<Rightarrow> 16 word \<Rightarrow> 32 word \<Rightarrow> 32 word \<Rightarrow> bool" where
  "boot_sector b spc reserved entries spf16 sectors spf \<longleftrightarrow> length b = 512 \<and> b ! 16 = 2 \<and> getLe16 b 11 = 512 \<and> b ! 13 = spc \<and>
     getLe16 b 14 = reserved \<and> getLe16 b 17 = entries \<and> getLe16 b 19 = 0 \<and> getLe16 b 22 = spf16 \<and> getLe32 b 32 = sectors \<and>
     (spf16 = 0 \<longrightarrow> getLe32 b 36 = spf \<and> getLe32 b 44 = 2)"

lemma boot_sector16:
  assumes "ucast (f_fatSize f) \<noteq> (0 :: 16 word)"
  shows "boot_sector (puts (fat16_writes f) (replicate 512 0)) (f_sectorsPerCluster f) (f_reservedSectorCount f) 512
    (ucast (f_fatSize f)) (f_totalSectors f) (f_fatSize f)"
proof -
  let ?z = "replicate 512 (0 :: byte)" and ?b = "puts (fat16_writes f) (replicate 512 0)"
  have fit: "fits (length ?z) (fat16_writes f)" by (simp add: fits_def fat16_writes_def pbs_writes_def spaces_def)
  have F: "take n (drop off ?b) = y" if "off + n \<le> 512" "look off n (fat16_writes f) (Some (replicate n 0)) = Some y" for off n y
    using look_puts [OF fit, of off n "Some (replicate n 0)" y] that zero_fields [OF that(1)] by simp
  note L = fat16_writes_def pbs_writes_def spaces_def
  have "getLe16 ?b 11 = 512" "getLe16 ?b 14 = f_reservedSectorCount f" "getLe16 ?b 17 = 512" "getLe16 ?b 22 = ucast (f_fatSize f)"
    "getLe16 ?b 19 = 0"
    by (rule field_values, rule F; simp add: L le_bytes_0)+
  moreover have "getLe32 ?b 32 = f_totalSectors f" by (rule field_values, rule F; simp add: L)
  moreover have "?b ! 16 = 2" "?b ! 13 = f_sectorsPerCluster f" by (rule field_values, rule F; simp add: L)+
  moreover have "length ?b = 512" using length_puts [OF fit] by simp
  ultimately show ?thesis using assms by (simp add: boot_sector_def)
qed

lemma boot_sector32:
  "boot_sector (puts (fat32_writes f) (replicate 512 0)) (f_sectorsPerCluster f) (f_reservedSectorCount f) 0 0 (f_totalSectors f) (f_fatSize f)"
proof -
  let ?z = "replicate 512 (0 :: byte)" and ?b = "puts (fat32_writes f) (replicate 512 0)"
  have fit: "fits (length ?z) (fat32_writes f)" by (simp add: fits_def fat32_writes_def pbs_writes_def spaces_def)
  have F: "take n (drop off ?b) = y" if "off + n \<le> 512" "look off n (fat32_writes f) (Some (replicate n 0)) = Some y" for off n y
    using look_puts [OF fit, of off n "Some (replicate n 0)" y] that zero_fields [OF that(1)] by simp
  note L = fat32_writes_def pbs_writes_def spaces_def
  have "getLe16 ?b 11 = 512" "getLe16 ?b 14 = f_reservedSectorCount f" "getLe16 ?b 17 = 0" "getLe16 ?b 22 = 0" "getLe16 ?b 19 = 0"
    by (rule field_values, rule F; simp add: L le_bytes_0)+
  moreover have "getLe32 ?b 32 = f_totalSectors f" "getLe32 ?b 36 = f_fatSize f" "getLe32 ?b 44 = 2"
    by (rule field_values, rule F; simp add: L)+
  moreover have "?b ! 16 = 2" "?b ! 13 = f_sectorsPerCluster f" by (rule field_values, rule F; simp add: L)+
  moreover have "length ?b = 512" using length_puts [OF fit] by simp
  ultimately show ?thesis by (simp add: boot_sector_def)
qed

section \<open>The formatted card\<close>

text \<open>
  A volume of \<open>nc\<close> clusters of \<open>spc\<close> sectors with FATs of \<open>fs\<close> sectors after \<open>reserved\<close> sectors, the first partition of the card;
  \<open>fat32\<close> says of which kind it is. Nothing is allocated, except the root directory of FAT32.
\<close>

definition fresh_card :: "(32 word \<Rightarrow> byte list) \<Rightarrow> bool \<Rightarrow> nat \<Rightarrow> byte \<Rightarrow> 16 word \<Rightarrow> nat \<Rightarrow> nat \<Rightarrow> bool" where
  "fresh_card m fat32 rel spc reserved fs nc \<longleftrightarrow>
     length (m 0) = 512 \<and> m 0 ! 446 = 0 \<and> m 0 ! 450 \<noteq> 0 \<and> getLe32 (m 0) 454 = word_of_nat rel \<and>
     boot_sector (m (word_of_nat rel)) spc reserved (if fat32 then 0 else 512) (if fat32 then 0 else word_of_nat fs)
       (word_of_nat (nc * unat spc + 2 * fs + unat reserved + (if fat32 then 0 else 32))) (word_of_nat fs) \<and>
     (\<forall>i < 2 * fs + (if fat32 then unat spc else 32). m (word_of_nat (rel + unat reserved + i)) =
        (if i = 0 \<or> i = fs then first_fat (if fat32 then 12 else 4) else replicate 512 0))"

definition fresh_bounds :: "bool \<Rightarrow> nat \<Rightarrow> byte \<Rightarrow> 16 word \<Rightarrow> nat \<Rightarrow> nat \<Rightarrow> bool" where
  "fresh_bounds fat32 rel spc reserved fs nc \<longleftrightarrow>
     0 < rel \<and> 1 \<le> unat reserved \<and> 0 < fs \<and> (\<exists>k < 8. spc = push_bit k 1) \<and>
     (if fat32 then 65525 \<le> nc \<and> nc \<le> 2 ^ 26 \<and> nc + 2 \<le> 128 * fs
      else 4085 \<le> nc \<and> nc < 65525 \<and> nc + 2 \<le> 256 * fs \<and> fs < 2 ^ 16) \<and>
     rel + unat reserved + 2 * fs + 32 + nc * unat spc < 2 ^ 32 - 1"

text \<open>The partition table.\<close>

definition mbr_writes :: "'d formatter \<Rightarrow> (nat \<times> byte list) list" where
  "mbr_writes f = [(447, lbaToMbrChs (f_capacityMB f) (f_relativeSectors f)),
     (451, lbaToMbrChs (f_capacityMB f) (f_relativeSectors f + f_totalSectors f - 1)), (450, [f_partType f]),
     (454, le_bytes 4 (f_relativeSectors f)), (458, le_bytes 4 (f_totalSectors f)), (510, le_bytes 2 (0xAA55 :: 16 word))]"

lemma length_chs [simp]: "length (lbaToMbrChs c l) = 3"
  by (simp add: lbaToMbrChs_def Let_def split: prod.split)

lemma mbr_fields:
  "let b = puts (mbr_writes f) (replicate 512 0) in length b = 512 \<and> b ! 446 = 0 \<and> b ! 450 = f_partType f \<and> getLe32 b 454 = f_relativeSectors f"
proof -
  let ?z = "replicate 512 (0 :: byte)" and ?b = "puts (mbr_writes f) (replicate 512 0)"
  have fit: "fits (length ?z) (mbr_writes f)" by (simp add: fits_def mbr_writes_def)
  have F: "take n (drop off ?b) = y" if "off + n \<le> 512" "look off n (mbr_writes f) (Some (replicate n 0)) = Some y" for off n y
    using look_puts [OF fit, of off n "Some (replicate n 0)" y] that zero_fields [OF that(1)] by simp
  have "?b ! 446 = 0" "?b ! 450 = f_partType f" by (rule field_values, rule F; simp add: mbr_writes_def)+
  moreover have "getLe32 ?b 454 = f_relativeSectors f" by (rule field_values, rule F; simp add: mbr_writes_def)
  moreover have "length ?b = 512" using length_puts [OF fit] by simp
  ultimately show ?thesis by simp
qed

lemma writeMbr_works:
  assumes "dev_works D M"
  shows "\<exists>d. writeMbr D f = (True, f\<lparr>f_dev := d, f_secBuf := puts (mbr_writes f) (replicate 512 0)\<rparr>) \<and>
    M d = (M (f_dev f))(0 := puts (mbr_writes f) (replicate 512 0))"
proof -
  let ?f = "f\<lparr>f_secBuf := puts (mbr_writes f) (replicate 512 0)\<rparr>"
  have "length (f_secBuf ?f) = 512" using mbr_fields [of f] by (simp add: Let_def)
  then obtain d where "put_buf D 0 ?f = (True, ?f\<lparr>f_dev := d\<rparr>)" "M d = (M (f_dev f))(0 := puts (mbr_writes f) (replicate 512 0))"
    using put_buf_works [OF assms, of ?f 0] by auto
  moreover have "writeMbr D f = put_buf D 0 ?f"
    by (simp add: writeMbr_def mbr_writes_def setLe16_def setLe32_def Let_def)
  ultimately show ?thesis by (intro exI [of _ d]) simp
qed

lemma initPbs_puts: "initPbs f = f\<lparr>f_secBuf := puts (pbs_writes f) (replicate 512 0)\<rparr>"
  by (simp add: initPbs_def pbs_writes_def setLe16_def setLe32_def Let_def)

lemma puts_append: "puts (us @ ws) b = puts ws (puts us b)"
  by (induction us b rule: puts.induct) simp_all

lemma fresh_medium:
  assumes "m' = (fill (word_of_nat start) {1..<cnt} z m)(word_of_nat start := a, word_of_nat start + word_of_nat fs := a)"
    "start + cnt < 2 ^ 32" "0 < fs" "fs < cnt"
  shows "\<And>s. s < start \<Longrightarrow> m' (word_of_nat s) = m (word_of_nat s)"
    "\<And>i. i < cnt \<Longrightarrow> m' (word_of_nat (start + i)) = (if i = 0 \<or> i = fs then a else z)"
proof -
  have e: "(word_of_nat s :: 32 word) = word_of_nat start + word_of_nat i \<longleftrightarrow> s = start + i" if "s < 2 ^ 32" "i < cnt" for s i
    using nat_word_eq [where 'a = 32, of s "start + i"] that assms(2) by simp
  have e0: "(word_of_nat s :: 32 word) = word_of_nat start \<longleftrightarrow> s = start" if "s < 2 ^ 32" for s
    using nat_word_eq [where 'a = 32, of s start] that assms(2) by simp
  have v: "m' (word_of_nat s) = (if s = start \<or> s = start + fs then a else if \<exists>i \<in> {1..<cnt}. s = start + i then z else m (word_of_nat s))"
    if "s < 2 ^ 32" for s
  proof -
    have "(\<exists>i \<in> {1..<cnt}. (word_of_nat s :: 32 word) = word_of_nat start + word_of_nat i) \<longleftrightarrow> (\<exists>i \<in> {1..<cnt}. s = start + i)"
      using e [OF that] by auto
    then show ?thesis unfolding assms(1) fill_def using e [OF that assms(4)] e0 [OF that] by simp
  qed
  show "m' (word_of_nat s) = m (word_of_nat s)" if "s < start" for s
    using v [of s] that assms(2) by auto
  show "m' (word_of_nat (start + i)) = (if i = 0 \<or> i = fs then a else z)" if "i < cnt" for i
    using v [of "start + i"] that assms(2) by auto
qed

lemma makeFat16_works:
  assumes "dev_works D M" and l: "layout_of 256 161 128 j (f_sectorCount f) spc (fat16_layout (f_sectorCount f) spc (2 * BU16))"
    and n: "n = (unat (f_sectorCount f) - 128 * j) div unat spc" "4085 \<le> n" "n < 65525"
    and "f_sectorsPerCluster f = spc" "j \<le> 6" and b: "fs = (n + 257) div 256" "rel = 128 * j - (161 + 2 * fs) + 128"
  shows "\<exists>f'. makeFat16 D f = Some (True, f') \<and> fresh_card (M (f_dev f')) False rel spc 1 fs n"
proof -
  obtain ds nc fz r where x: "fat16_layout (f_sectorCount f) spc (2 * BU16) = Some (ds, nc, fz, r)" and
    u: "unat ds = 128 * j" "unat nc = n" "unat fz = fs" "unat r = 161 + 2 * fs" "161 + 2 * fs \<le> 128 * j"
    using l unfolding layout_of_def by (auto simp: n(1) b(1))
  have w: "ds = word_of_nat (128 * j)" "nc = word_of_nat n" "fz = word_of_nat fs" "r = word_of_nat (161 + 2 * fs)"
    by (rule word_of_unat, rule u)+
  have fs: "0 < fs" "fs < 2 ^ 16" using n(2,3) b(1) by simp_all
  have rel: "rel = 128 * j + 128 - (161 + 2 * fs)" "rel + 1 + (2 * fs + 32) = 128 * j" using b(2) u(5) by simp_all
  have rw: "ds - r + BU16 = word_of_nat rel"
  proof -
    have "unat (ds - r) = 128 * j - (161 + 2 * fs)" using u by (simp add: unat_sub word_le_nat_alt)
    then have "ds - r = word_of_nat (128 * j - (161 + 2 * fs))" by (rule word_of_unat)
    then show ?thesis unfolding b(2) by simp
  qed
  have cnt: "ds - (word_of_nat rel + 1) = word_of_nat (2 * fs + 32)"
  proof -
    have "word_of_nat (128 * j) = (word_of_nat (rel + 1 + (2 * fs + 32)) :: 32 word)" using rel u(5) by (intro arg_cong [of _ _ word_of_nat]) simp
    then show ?thesis unfolding w(1) by simp
  qed
  have uc: "unat (word_of_nat (2 * fs + 32) :: 32 word) = 2 * fs + 32" using fs by (intro unat_of_nat_small) simp
  define f0 where "f0 = f\<lparr>f_dataStart := ds, f_fatSize := fz, f_relativeSectors := ds - r + BU16\<rparr>"
  define f1 where "f1 = fat16_fields nc fz (f_relativeSectors f0) f0"
  have F1: "f_sectorsPerCluster f1 = spc" "f_fatSize f1 = fz" "f_relativeSectors f1 = word_of_nat rel" "f_dataStart f1 = ds"
    "f_reservedSectorCount f1 = 1" "f_fatStart f1 = word_of_nat rel + 1" "f_dev f1 = f_dev f" "f_partType f1 \<noteq> 0"
    "f_totalSectors f1 = nc * ucast spc + 2 * fz + 1 + 32"
    using assms(6) rw by (simp_all add: f1_def f0_def fat16_fields_def Let_def)
  let ?m1 = "puts (mbr_writes f1) (replicate 512 0)" and ?b = "puts (fat16_writes f1) (replicate 512 0)"
  obtain d1 where d1: "writeMbr D f1 = (True, f1\<lparr>f_dev := d1, f_secBuf := ?m1\<rparr>)" "M d1 = (M (f_dev f1))(0 := ?m1)"
    using writeMbr_works [OF assms(1)] by blast
  define f2 where "f2 = fat16_pbs (f1\<lparr>f_dev := d1, f_secBuf := ?m1\<rparr>)"
  have F2: "f2 = f1\<lparr>f_dev := d1, f_secBuf := ?b\<rparr>"
    by (simp add: f2_def fat16_pbs_def initPbs_puts fat16_writes_def puts_append setLe16_def setLe32_def pbs_writes_def Let_def)
  have "ucast (f_fatSize f1) = (word_of_nat fs :: 16 word)" using fs(2) by (intro word_unat_eqI) (simp add: F1 w(3) unat_ucast_down unat_of_nat_small)
  moreover have "(word_of_nat fs :: 16 word) \<noteq> 0" using fs nat_word_eq [where 'a = 16, of fs 0] by simp
  ultimately have boot: "boot_sector ?b spc 1 512 (word_of_nat fs) (f_totalSectors f1) fz"
    using boot_sector16 [of f1] F1 by simp
  obtain d2 where d2: "put_buf D (word_of_nat rel) f2 = (True, f2\<lparr>f_dev := d2\<rparr>)" "M d2 = (M d1)(word_of_nat rel := ?b)"
    using put_buf_works [OF assms(1), of f2 "word_of_nat rel"] boot by (auto simp: F2 boot_sector_def)
  obtain d3 pr where d3: "initFatDir D 16 (word_of_nat (2 * fs + 32)) (f2\<lparr>f_dev := d2\<rparr>) =
      Some (True, f2\<lparr>f_dev := d3, f_pr := pr, f_secBuf := first_fat 4\<rparr>)"
    "M d3 = (fill (f_fatStart f2) {1..<2 * fs + 32} (replicate 512 0) (M d2))
      (f_fatStart f2 := first_fat 4, f_fatStart f2 + f_fatSize f2 := first_fat 4)"
    using initFatDir_works [OF assms(1), of "word_of_nat (2 * fs + 32)" 4 16 "f2\<lparr>f_dev := d2\<rparr>"] uc by (auto simp: word_le_nat_alt)
  have "makeFat16 D f = write_fat16 D f1"
    using n(2,3) u(2) by (simp add: makeFat16_def assms(6) x [simplified] f1_def f0_def word_less_nat_alt word_le_nat_alt)
  also have "\<dots> = initFatDir D 16 (f_dataStart f1 - f_fatStart f1) (f2\<lparr>f_dev := d2\<rparr>)"
    using d1(1) d2(1) by (simp add: write_fat16_def f2_def [symmetric] F1) (simp add: F2 F1)
  also have "\<dots> = Some (True, f2\<lparr>f_dev := d3, f_pr := pr, f_secBuf := first_fat 4\<rparr>)"
    unfolding F1 cnt by (rule d3(1))
  finally have "makeFat16 D f = Some (True, f2\<lparr>f_dev := d3, f_pr := pr, f_secBuf := first_fat 4\<rparr>)" .
  moreover have "fresh_card (M d3) False rel spc 1 fs n"
  proof -
    have m: "M d3 = (fill (word_of_nat (rel + 1)) {1..<2 * fs + 32} (replicate 512 0) (M d2))
      (word_of_nat (rel + 1) := first_fat 4, word_of_nat (rel + 1) + word_of_nat fs := first_fat 4)"
      using d3(2) by (simp add: F2 F1 w(3) add.commute)
    have b: "rel + 1 + (2 * fs + 32) < 2 ^ 32" "fs < 2 * fs + 32" using rel assms(7) by simp_all
    note X = fresh_medium [OF m b(1) fs(1) b(2)]
    have r0: "0 < rel" using b(2) assms(8,9) u(5) by simp
    have z: "(word_of_nat rel :: 32 word) \<noteq> 0" using r0 b(1) nat_word_eq [where 'a = 32, of rel 0] by simp
    have "M d3 0 = ?m1" using X(1) [of 0] d1(2) d2(2) z r0 by simp
    moreover have "M d3 (word_of_nat rel) = ?b" using X(1) [of rel] d2(2) by simp
    moreover have "f_totalSectors f1 = word_of_nat (n * unat spc + 2 * fs + unat (1 :: 16 word) + 32)"
      unfolding F1 w by simp
    ultimately show ?thesis
      using mbr_fields [of f1] boot X(2) F1 w(3) by (simp add: fresh_card_def Let_def ac_simps)
  qed
  ultimately show ?thesis by (intro exI [of _ "f2\<lparr>f_dev := d3, f_pr := pr, f_secBuf := first_fat 4\<rparr>"]) simp
qed

lemma makeFat32_works:
  assumes "dev_works D M" and l: "layout_of 128 8201 8192 j (f_sectorCount f) spc (fat32_layout (f_sectorCount f) spc (2 * BU32))"
    and n: "n = (unat (f_sectorCount f) - 8192 * j) div unat spc" "65525 \<le> n" "n \<le> 33554432"
    and "f_sectorsPerCluster f = spc" "j \<le> 66" and b: "fs = (n + 129) div 128" "res = 8192 * j - 8192 - 2 * fs" "res < 2 ^ 16"
  shows "\<exists>f'. makeFat32 D f = Some (True, f') \<and> fresh_card (M (f_dev f')) True 8192 spc (word_of_nat res) fs n"
proof -
  obtain ds nc fz r where x: "fat32_layout (f_sectorCount f) spc (2 * BU32) = Some (ds, nc, fz, r)" and
    u: "unat ds = 8192 * j" "unat nc = n" "unat fz = fs" "8201 + 2 * fs \<le> 8192 * j"
    using l unfolding layout_of_def by (auto simp: n(1) b(1))
  have w: "ds = word_of_nat (8192 * j)" "nc = word_of_nat n" "fz = word_of_nat fs"
    by (rule word_of_unat, rule u)+
  have fs: "0 < fs" "fs < 2 ^ 20" using n(2,3) b(1) by simp_all
  have res: "9 \<le> res" "8192 + res + 2 * fs = 8192 * j" using b(2) u(4) by simp_all
  have ur: "unat (word_of_nat res :: 16 word) = res" using b(3) by (intro unat_of_nat_small) simp
  have rw: "ds - 8192 - 2 * fz = word_of_nat res"
  proof -
    have "ds = (word_of_nat (8192 + res + 2 * fs) :: 32 word)" unfolding w(1) res(2) ..
    then show ?thesis by (simp add: w(3))
  qed
  have rc: "ucast (word_of_nat res :: 32 word) = (word_of_nat res :: 16 word)"
    using b(3) by (intro word_unat_eqI) (simp add: ur unat_ucast_down unat_of_nat_small)
  have rd: "ucast (word_of_nat res :: 16 word) = (word_of_nat res :: 32 word)"
    by (rule word_of_unat) (simp add: ur unat_ucast_up)
  have sp: "unat spc < 256" using unat_bound [of spc] by simp
  have s32: "2 * fs + unat spc < 2 ^ LENGTH(32)"
  proof -
    have "fs < 1048576" using fs(2) by simp
    then have "2 * fs + unat spc < 4294967296" using sp by linarith
    then show ?thesis by simp
  qed
  have uc: "2 * fz + ucast spc = word_of_nat (2 * fs + unat spc)" "unat (word_of_nat (2 * fs + unat spc) :: 32 word) = 2 * fs + unat spc"
    using fs sp by (simp add: w(3)) (rule unat_of_nat_small [OF s32])
  define f0 where "f0 = f\<lparr>f_relativeSectors := BU32, f_dataStart := ds, f_fatSize := fz\<rparr>"
  define f1 where "f1 = fat32_fields nc fz ds f0"
  have F1: "f_sectorsPerCluster f1 = spc" "f_fatSize f1 = fz" "f_relativeSectors f1 = 8192"
    "f_reservedSectorCount f1 = word_of_nat res" "f_fatStart f1 = 8192 + word_of_nat res" "f_dev f1 = f_dev f" "f_partType f1 \<noteq> 0"
    "f_totalSectors f1 = nc * ucast spc + ds - 8192"
    using assms(6) by (simp_all add: f1_def f0_def fat32_fields_def Let_def rw rc rd)
  let ?m1 = "puts (mbr_writes f1) (replicate 512 0)" and ?b = "puts (fat32_writes f1) (replicate 512 0)"
  obtain d1 where d1: "writeMbr D f1 = (True, f1\<lparr>f_dev := d1, f_secBuf := ?m1\<rparr>)" "M d1 = (M (f_dev f1))(0 := ?m1)"
    using writeMbr_works [OF assms(1)] by blast
  define f2 where "f2 = fat32_pbs (f1\<lparr>f_dev := d1, f_secBuf := ?m1\<rparr>)"
  have F2: "f2 = f1\<lparr>f_dev := d1, f_secBuf := ?b\<rparr>"
    by (simp add: f2_def fat32_pbs_def initPbs_puts fat32_writes_def puts_append setLe16_def setLe32_def pbs_writes_def Let_def)
  have boot: "boot_sector ?b spc (word_of_nat res) 0 0 (f_totalSectors f1) fz"
    using boot_sector32 [of f1] F1 by simp
  have l2: "length (f_secBuf f2) = 512" using boot by (simp add: F2 boot_sector_def)
  obtain d2 where d2: "put_bufs D [8192, 8192 + 6] f2 = (True, f2\<lparr>f_dev := d2\<rparr>)" "M d2 = (M d1)(8192 := ?b, 8192 + 6 := ?b)"
    using put_two_works [OF assms(1) l2, of 8192 "8192 + 6"] by (auto simp: F2 simp del: put_bufs.simps)
  define f3 where "f3 = f2\<lparr>f_dev := d2, f_secBuf := boot_area\<rparr>"
  have l3: "length (f_secBuf f3) = 512" "length (info_sector boot_area) = 512"
    by (simp_all add: f3_def boot_area_def info_sector_def Let_def)
  obtain d3 where d3: "put_bufs D [8192 + 2, 8192 + 8] f3 = (True, f3\<lparr>f_dev := d3\<rparr>)" "M d3 = (M d2)(8192 + 2 := boot_area, 8192 + 8 := boot_area)"
    using put_two_works [OF assms(1) l3(1), of "8192 + 2" "8192 + 8"] by (auto simp: f3_def simp del: put_bufs.simps)
  define f4 where "f4 = f3\<lparr>f_dev := d3, f_secBuf := info_sector boot_area\<rparr>"
  have l4: "length (f_secBuf f4) = 512" using l3(2) by (simp add: f4_def)
  obtain d4 where d4: "put_bufs D [8192 + 1, 8192 + 7] f4 = (True, f4\<lparr>f_dev := d4\<rparr>)"
    "M d4 = (M d3)(8192 + 1 := info_sector boot_area, 8192 + 7 := info_sector boot_area)"
    using put_two_works [OF assms(1) l4, of "8192 + 1" "8192 + 7"] by (auto simp: f4_def simp del: put_bufs.simps)
  have F4: "f_fatSize f4 = fz" "f_fatStart f4 = 8192 + word_of_nat res" "f_sectorsPerCluster f4 = spc"
    by (simp_all add: f4_def f3_def F2 F1)
  obtain d5 pr where d5: "initFatDir D 32 (word_of_nat (2 * fs + unat spc)) (f4\<lparr>f_dev := d4\<rparr>) =
      Some (True, f4\<lparr>f_dev := d5, f_pr := pr, f_secBuf := first_fat 12\<rparr>)"
    "M d5 = (fill (f_fatStart f4) {1..<2 * fs + unat spc} (replicate 512 0) (M d4))
      (f_fatStart f4 := first_fat 12, f_fatStart f4 + f_fatSize f4 := first_fat 12)"
  proof -
    have "32 \<le> (word_of_nat (2 * fs + unat spc) :: 32 word)" using uc(2) n(2) b(1) by (simp add: word_le_nat_alt)
    then show thesis using initFatDir_works [OF assms(1), of "word_of_nat (2 * fs + unat spc)" 12 32 "f4\<lparr>f_dev := d4\<rparr>"] uc(2) that
      by (auto simp del: of_nat_add)
  qed
  have "makeFat32 D f = write_fat32 D f1"
    using n(2,3) u(2) by (simp add: makeFat32_def assms(6) x [simplified] f1_def f0_def word_less_nat_alt word_le_nat_alt)
  also have "\<dots> = initFatDir D 32 (2 * f_fatSize f4 + ucast (f_sectorsPerCluster f4)) (f4\<lparr>f_dev := d4\<rparr>)"
  proof -
    have e3: "f_secBuf (f3\<lparr>f_dev := d3\<rparr>) = boot_area" by (simp add: f3_def)
    show ?thesis
      unfolding write_fat32_def Let_def d1(1) F1 prod.case f2_def [symmetric] d2(1) f3_def [symmetric] d3(1)
        e3 f4_def [symmetric] d4(1) not_True_eq_False if_False by simp
  qed
  also have "\<dots> = Some (True, f4\<lparr>f_dev := d5, f_pr := pr, f_secBuf := first_fat 12\<rparr>)"
    unfolding F4 uc(1) by (rule d5(1))
  finally have "makeFat32 D f = Some (True, f4\<lparr>f_dev := d5, f_pr := pr, f_secBuf := first_fat 12\<rparr>)" .
  moreover have "fresh_card (M d5) True 8192 spc (word_of_nat res) fs n"
  proof -
    have m: "M d5 = (fill (word_of_nat (8192 + res)) {1..<2 * fs + unat spc} (replicate 512 0) (M d4))
      (word_of_nat (8192 + res) := first_fat 12, word_of_nat (8192 + res) + word_of_nat fs := first_fat 12)"
      using d5(2) by (simp add: F4 w(3))
    have b: "8192 + res + (2 * fs + unat spc) < 2 ^ 32" "fs < 2 * fs + unat spc"
    proof -
      have "fs < 1048576" "res < 65536" using fs(2) b(3) by simp_all
      then have "8192 + res + (2 * fs + unat spc) < 4294967296" using sp by linarith
      then show "8192 + res + (2 * fs + unat spc) < 2 ^ 32" by simp
    qed (use fs in simp)
    note X = fresh_medium [OF m b(1) fs(1) b(2)]
    have "M d5 0 = ?m1" using X(1) [of 0] d1(2) d2(2) d3(2) d4(2) by simp
    moreover have "M d5 8192 = ?b" using X(1) [of 8192] res(1) d2(2) d3(2) d4(2) by simp
    moreover have "f_totalSectors f1 = word_of_nat (n * unat spc + 2 * fs + unat (word_of_nat res :: 16 word) + 0)"
    proof -
      have "ds = (word_of_nat (8192 + res + 2 * fs) :: 32 word)" unfolding w(1) res(2) ..
      then show ?thesis unfolding F1 w(2) ur by simp
    qed
    ultimately show ?thesis
      using mbr_fields [of f1] boot X(2) F1 w(3) ur by (simp add: fresh_card_def Let_def add.assoc)
  qed
  ultimately show ?thesis by (intro exI [of _ "f4\<lparr>f_dev := d5, f_pr := pr, f_secBuf := first_fat 12\<rparr>"]) simp
qed

section \<open>Every size\<close>

lemma spc_power:
  assumes "unat (spc :: byte) \<in> {2, 4, 8, 16, 32, 64, 128}"
  shows "\<exists>k < 8. spc = push_bit k 1" "0 < spc"
proof -
  have "spc \<in> {2, 4, 8, 16, 32, 64, 128}" using assms by (auto dest!: word_of_unat)
  then have "spc \<in> {push_bit 1 1, push_bit 2 1, push_bit 3 1, push_bit 4 1, push_bit 5 1, push_bit 6 1, push_bit 7 1}" by simp
  then have "\<exists>k \<in> {1, 2, 3, 4, 5, 6, 7}. spc = push_bit k 1" by (simp only: bex_simps insert_iff empty_iff)
  then show "\<exists>k < 8. spc = push_bit k 1" by (rule bexE) (rule exI, rule conjI, auto)
  show "0 < spc" using assms by (auto simp: word_less_nat_alt)
qed

lemma formats_fat16:
  assumes "dev_works D M" "12288 < unat sectors" "unat sectors < 0x400000"
  shows "\<exists>f' rel spc fs nc. format D sectors f = Some (True, f') \<and> fresh_card (M (f_dev f')) False rel spc 1 fs nc \<and>
    fresh_bounds False rel spc 1 fs nc"
proof -
  define cap where "cap = (sectors + 2048 - 1) div 2048"
  define spc where "spc = cluster_size cap"
  define g where "g = f\<lparr>f_sectorCount := sectors, f_capacityMB := cap, f_sectorsPerCluster := spc\<rparr>"
  have cap: "unat cap = (unat sectors + 2047) div 2048" unfolding cap_def using assms(3) by (intro capacity_nat) simp
  note B = fat16_bounds [OF assms(2,3) cap, folded spc_def]
  have p: "\<exists>k < 8. spc = push_bit k 1" "0 < spc" using spc_power [of spc] B(4) by auto
  have c0: "0 < unat spc" using p(2) by (simp add: word_less_nat_alt)
  obtain j where j: "2 \<le> j" "j \<le> 6" "layout_of 256 161 128 j sectors spc (fat16_layout sectors spc (2 * BU16))"
    using fat16_layout_found [of sectors spc 2] assms(2) p(2) B(1) by auto
  define n where "n = (unat sectors - 128 * j) div unat spc"
  define fs where "fs = (n + 257) div 256"
  define rel where "rel = 128 * j - (161 + 2 * fs) + 128"
  have le: "161 + 2 * fs \<le> 128 * j" using j(3) unfolding layout_of_def fs_def n_def by auto
  have lo: "4085 \<le> n"
  proof -
    have "(unat sectors - 768) div unat spc \<le> n" unfolding n_def using j(2) by (intro div_le_mono) simp
    then show ?thesis using B(3) by simp
  qed
  have hi: "n < 65525"
  proof (cases "j = 6")
    case True
    then show ?thesis using B(2) by (simp add: n_def)
  next
    case False
    then have "2 * fs \<le> 479" using le j(2) by simp
    then have "fs < 240" by simp
    then show ?thesis unfolding fs_def by simp
  qed
  have g: "f_sectorCount g = sectors" "f_sectorsPerCluster g = spc" by (simp_all add: g_def)
  obtain f' where f': "makeFat16 D g = Some (True, f')" "fresh_card (M (f_dev f')) False rel spc 1 fs n"
    using makeFat16_works [OF assms(1), of j g spc n fs rel] j g n_def lo hi fs_def rel_def by auto
  have "\<not> cap \<le> 6" using cap assms(2) by (simp add: word_le_nat_alt div_bounds)
  then have "format D sectors f = Some (True, writeMsg (''Format Done'' @ [CHR 0x0D, CHR 0x0A]) f')"
    using f'(1) assms(3) by (simp add: format_def Let_def cap_def [simplified, symmetric] spc_def [symmetric] g_def word_less_nat_alt)
  moreover have "fresh_bounds False rel spc 1 fs n"
  proof -
    have "n * unat spc \<le> unat sectors - 128 * j" unfolding n_def by simp
    moreover have "128 * j \<le> unat sectors" "unat sectors < 4194304" using assms(2,3) j(2) by simp_all
    moreover have "rel + 1 + (2 * fs + 32) = 128 * j" using le by (simp add: rel_def)
    ultimately have "rel + 1 + 2 * fs + 32 + n * unat spc < 2 ^ 32 - 1" by simp
    moreover have "n + 2 \<le> 256 * fs" "0 < fs" "fs < 2 ^ 16" using hi lo unfolding fs_def by simp_all
    moreover have "0 < rel" using le by (simp add: rel_def)
    ultimately show ?thesis using p(1) lo hi by (simp add: fresh_bounds_def)
  qed
  ultimately show ?thesis using f'(2)
    by (intro exI [of _ "writeMsg (''Format Done'' @ [CHR 0x0D, CHR 0x0A]) f'"] exI [of _ rel] exI [of _ spc] exI [of _ fs] exI [of _ n]) simp
qed

lemma formats_fat32:
  assumes "dev_works D M" "4209984 \<le> unat sectors" "unat sectors \<le> 4294965248"
  shows "\<exists>f' spc res fs nc. format D sectors f = Some (True, f') \<and> fresh_card (M (f_dev f')) True 8192 spc res fs nc \<and>
    fresh_bounds True 8192 spc res fs nc"
proof -
  define cap where "cap = (sectors + 2048 - 1) div 2048"
  define spc where "spc = cluster_size cap"
  define g where "g = f\<lparr>f_sectorCount := sectors, f_capacityMB := cap, f_sectorsPerCluster := spc\<rparr>"
  have cap: "unat cap = (unat sectors + 2047) div 2048" unfolding cap_def using assms(3) by (intro capacity_nat) simp
  have "0x400000 \<le> unat sectors" using assms(2) by simp
  note B = fat32_bounds [OF this assms(3) cap, folded spc_def]
  have p: "\<exists>k < 8. spc = push_bit k 1" "0 < spc" using spc_power [of spc] B(2) by auto
  obtain j where j: "2 \<le> j" "j \<le> 66" "layout_of 128 8201 8192 j sectors spc (fat32_layout sectors spc (2 * BU32))"
    "j = 2 \<or> 8192 * (j - 1) < 8201 + 2 * (((unat sectors - 8192 * (j - 1)) div unat spc + 129) div 128)"
    using fat32_layout_found [of sectors spc 2] assms(2) p(2) B(1) by auto
  define n where "n = (unat sectors - 8192 * j) div unat spc"
  define fs where "fs = (n + 129) div 128"
  define res where "res = 8192 * j - 8192 - 2 * fs"
  have le: "8201 + 2 * fs \<le> 8192 * j" using j(3) unfolding layout_of_def fs_def n_def by auto
  have prev: "(unat sectors - 8192 * (j - 1)) div unat spc \<le> n + 128"
  proof -
    have "unat sectors - 8192 * (j - 1) = unat sectors - 8192 * j + 8192" using j(1,2) assms(2) by (cases j) simp_all
    moreover have "unat spc = 64 \<or> unat spc = 128" using B(2) by simp
    ultimately show ?thesis unfolding n_def by auto
  qed
  then have fprev: "((unat sectors - 8192 * (j - 1)) div unat spc + 129) div 128 \<le> fs + 1" unfolding fs_def by simp
  have n32: "n \<le> 33554432"
  proof -
    have "n \<le> unat sectors div unat spc" unfolding n_def by (intro div_le_mono) simp
    then show ?thesis using B(1) by simp
  qed
  have lo: "65525 \<le> n"
  proof (cases "j = 2")
    case True
    then show ?thesis
    proof (cases "unat sectors \<le> 67108864")
      case s: True
      then show ?thesis using B(3) assms(2) True by (simp add: n_def div_bounds)
    next
      case s: False
      then show ?thesis using B(2) True by (auto simp: n_def div_bounds)
    qed
  next
    case False
    then have "16384 \<le> 8192 * (j - 1)" using j(1) by simp
    moreover have "8192 * (j - 1) < 8201 + 2 * (fs + 1)" using j(4) False fprev by simp
    ultimately have "4000 \<le> fs" by simp
    then show ?thesis unfolding fs_def by simp
  qed
  have res: "res < 2 ^ 16" "9 \<le> res"
  proof -
    have "8192 * j - 8192 < 16385 \<or> 8192 * j - 8192 < 8203 + 2 * fs" using j(4) fprev by (cases "j = 2") (auto simp: diff_mult_distrib2)
    then show "res < 2 ^ 16" "9 \<le> res" using le by (auto simp: res_def)
  qed
  have ur: "unat (word_of_nat res :: 16 word) = res" using res(1) by (intro unat_of_nat_small) simp
  have g: "f_sectorCount g = sectors" "f_sectorsPerCluster g = spc" by (simp_all add: g_def)
  obtain f' where f': "makeFat32 D g = Some (True, f')" "fresh_card (M (f_dev f')) True 8192 spc (word_of_nat res) fs n"
    using makeFat32_works [OF assms(1), of j g spc n fs res] j g n_def lo n32 fs_def res_def res by auto
  have "\<not> cap \<le> 6" using cap assms(2) by (simp add: word_le_nat_alt div_bounds)
  then have "format D sectors f = Some (True, writeMsg (''Format Done'' @ [CHR 0x0D, CHR 0x0A]) f')"
    using f'(1) assms(2) by (simp add: format_def Let_def cap_def [simplified, symmetric] spc_def [symmetric] g_def word_less_nat_alt)
  moreover have "fresh_bounds True 8192 spc (word_of_nat res) fs n"
  proof -
    have "n * unat spc \<le> unat sectors - 8192 * j" unfolding n_def by simp
    moreover have "8192 * j \<le> unat sectors" using assms(2) j(2) by simp
    moreover have "8192 + res + 2 * fs = 8192 * j" using le by (simp add: res_def)
    ultimately have "8192 + res + 2 * fs + 32 + n * unat spc < 2 ^ 32 - 1" using assms(3) by simp
    moreover have "n + 2 \<le> 128 * fs" "0 < fs" using lo unfolding fs_def by simp_all
    ultimately show ?thesis using p(1) lo n32 res(2) ur by (simp add: fresh_bounds_def)
  qed
  ultimately show ?thesis using f'(2)
    by (intro exI [of _ "writeMsg (''Format Done'' @ [CHR 0x0D, CHR 0x0A]) f'"] exI [of _ spc] exI [of _ "word_of_nat res"] exI [of _ fs] exI [of _ n]) simp
qed

section \<open>Mounting\<close>

lemma zero_sector_fields:
  "off + 2 \<le> 512 \<Longrightarrow> getLe16 (replicate 512 0) off = 0" "off + 4 \<le> 512 \<Longrightarrow> getLe32 (replicate 512 0) off = 0"
proof -
  show "getLe16 (replicate 512 0) off = 0" if "off + 2 \<le> 512"
    by (rule field_values(1)) (simp only: le_bytes_0 zero_fields [OF that])
  show "getLe32 (replicate 512 0) off = 0" if "off + 4 \<le> 512"
  proof (rule field_values(2))
    show "take 4 (drop off (replicate 512 0)) = le_bytes 4 (0 :: 32 word)"
      unfolding zero_fields [OF that] by (simp add: le_bytes_def numeral_eq_Suc)
  qed
qed

lemma first_fat_fields:
  "2 \<le> c \<Longrightarrow> c < 256 \<Longrightarrow> getLe16 (first_fat 4) (2 * c) = 0"
  "3 \<le> c \<Longrightarrow> c < 128 \<Longrightarrow> getLe32 (first_fat 12) (4 * c) = 0"
  "getLe32 (first_fat 12) 8 = 0xFFFFFFFF"
proof -
  show "getLe16 (first_fat 4) (2 * c) = 0" if "2 \<le> c" "c < 256"
    unfolding first_fat_def using that by (subst getLe16_other) (simp_all add: zero_sector_fields)
  show "getLe32 (first_fat 12) (4 * c) = 0" if "3 \<le> c" "c < 128"
    unfolding first_fat_def using that by (subst getLe32_other) (simp_all add: zero_sector_fields)
  show "getLe32 (first_fat 12) 8 = 0xFFFFFFFF"
  proof (rule field_values(2))
    show "take 4 (drop 8 (first_fat 12)) = le_bytes 4 (0xFFFFFFFF :: 32 word)" by code_simp
  qed
qed

lemma shift_of_power:
  assumes "k < 8"
  shows "cluster_shift (push_bit k 1) = Some k" "unat (push_bit k 1 :: byte) = 2 ^ k"
proof -
  have "\<forall>k \<in> set [0..<8]. cluster_shift (push_bit k 1) = Some k \<and> unat (push_bit k 1 :: byte) = 2 ^ k" by code_simp
  from bspec [OF this, of k] assms show "cluster_shift (push_bit k 1) = Some k" "unat (push_bit k 1 :: byte) = 2 ^ k" by simp_all
qed

lemma drop_nat_word:
  assumes "n * 2 ^ k < 2 ^ LENGTH('a)"
  shows "drop_bit k (word_of_nat (n * 2 ^ k) :: 'a::len word) = word_of_nat n"
  by (rule word_of_unat) (use assms in \<open>simp add: unat_drop unat_of_nat_small del: of_nat_mult of_nat_power\<close>)

text \<open>The geometry that a boot sector gives.\<close>

lemma read_bpb_fresh:
  assumes "boot_sector b spc reserved (if fat32 then 0 else 512) (if fat32 then 0 else word_of_nat fs)
       (word_of_nat (nc * unat spc + 2 * fs + unat reserved + (if fat32 then 0 else 32))) (word_of_nat fs)"
    and B: "fresh_bounds fat32 rel spc reserved fs nc"
  shows "\<exists>k < 8. spc = push_bit k 1 \<and> read_bpb b (word_of_nat rel) v =
    (True, v\<lparr>v_sectorsPerCluster := spc, v_clusterSectorMask := spc - 1, v_sectorsPerClusterShift := k, v_sectorsPerFat := word_of_nat fs,
       v_fatStartSector := word_of_nat (rel + unat reserved), v_rootDirEntryCount := (if fat32 then 0 else 512),
       v_rootDirStart := (if fat32 then 2 else word_of_nat (rel + unat reserved + 2 * fs)),
       v_dataStartSector := word_of_nat (rel + unat reserved + 2 * fs + (if fat32 then 0 else 32)),
       v_lastCluster := word_of_nat (nc + 1), v_fatType := (if fat32 then 32 else 16),
       v_cache := cache_setMirrorOffset (word_of_nat fs) (v_cache v)\<rparr>)"
proof -
  obtain k where k: "k < 8" "spc = push_bit k 1" using B by (auto simp: fresh_bounds_def)
  have s: "unat spc = 2 ^ k" using shift_of_power [OF k(1)] k(2) by simp
  have fs16: "ucast (word_of_nat fs :: 16 word) = (word_of_nat fs :: 32 word)" "(word_of_nat fs :: 16 word) \<noteq> 0" if "\<not> fat32"
  proof -
    have f: "0 < fs" "fs < 2 ^ 16" using B that by (simp_all add: fresh_bounds_def)
    show "ucast (word_of_nat fs :: 16 word) = (word_of_nat fs :: 32 word)"
      by (rule word_of_unat) (use f in \<open>simp add: unat_ucast_up unat_of_nat_small\<close>)
    show "(word_of_nat fs :: 16 word) \<noteq> 0" using f nat_word_eq [where 'a = 16, of fs 0] by simp
  qed
  have spf: "(if getLe16 b 22 = 0 then getLe32 b 36 else ucast (getLe16 b 22)) = word_of_nat fs"
    using assms(1) fs16 by (cases fat32) (simp_all add: boot_sector_def)
  have r: "ucast reserved = (word_of_nat (unat reserved) :: 32 word)" by (rule word_of_unat) (simp add: unat_ucast_up)
  have n: "nc * 2 ^ k < 2 ^ LENGTH(32)" "nc < 2 ^ 32" using B s by (auto simp: fresh_bounds_def split: if_splits)
  have cl: "drop_bit k (word_of_nat (nc * 2 ^ k) :: 32 word) = word_of_nat nc" by (rule drop_nat_word [OF n(1)])
  have un: "unat (word_of_nat nc :: 32 word) = nc" using n(2) by (intro unat_of_nat_small) simp
  have b: "b ! 16 = 2" "getLe16 b 11 = 512" "b ! 13 = spc" "getLe16 b 14 = reserved" "getLe16 b 17 = (if fat32 then 0 else 512)"
    "getLe16 b 19 = 0" "getLe32 b 32 = word_of_nat (nc * unat spc + 2 * fs + unat reserved + (if fat32 then 0 else 32))"
    "fat32 \<Longrightarrow> getLe32 b 44 = 2"
    using assms(1) by (auto simp: boot_sector_def)
  let ?root = "word_of_nat (rel + unat reserved + 2 * fs) :: 32 word"
  let ?data = "word_of_nat (rel + unat reserved + 2 * fs + (if fat32 then 0 else 32)) :: 32 word"
  have v: "word_of_nat rel + (word_of_nat (unat reserved) :: 32 word) = word_of_nat (rel + unat reserved)"
    "word_of_nat (rel + unat reserved) + 2 * (word_of_nat fs :: 32 word) = ?root"
    "?root + ucast (drop_bit 9 (32 * (if fat32 then 0 else 512) + 512 - 1 :: 16 word)) = ?data"
    "(if (0 :: 16 word) = 0 then word_of_nat (nc * unat spc + 2 * fs + unat reserved + (if fat32 then 0 else 32)) else x) -
      (?data - word_of_nat rel) = (word_of_nat (nc * 2 ^ k) :: 32 word)" for x
    by (simp_all add: s)
  have ty: "\<not> word_of_nat nc < (4085 :: 32 word)" "word_of_nat nc < (65525 :: 32 word) \<longleftrightarrow> \<not> fat32"
    using B un by (auto simp: fresh_bounds_def word_less_nat_alt split: if_splits)
  have "read_bpb b (word_of_nat rel) v = (True, v\<lparr>v_sectorsPerCluster := spc, v_clusterSectorMask := spc - 1, v_sectorsPerClusterShift := k,
       v_sectorsPerFat := word_of_nat fs,
       v_fatStartSector := word_of_nat (rel + unat reserved), v_rootDirEntryCount := (if fat32 then 0 else 512),
       v_rootDirStart := (if fat32 then 2 else ?root), v_dataStartSector := ?data,
       v_lastCluster := word_of_nat (nc + 1), v_fatType := (if fat32 then 32 else 16),
       v_cache := cache_setMirrorOffset (word_of_nat fs) (v_cache v)\<rparr>)"
    unfolding read_bpb_def Let_def spf b(1-7) r v shift_of_power(1) [OF k(1), folded k(2)] option.case cl
    using ty b(8) by (cases fat32) simp_all
  then show ?thesis using k by blast
qed

text \<open>The volume as \<open>FatPartition_init\<close> finds it.\<close>

lemma mount_fresh:
  assumes W: "dev_works D M" and "fresh_card (M (c_dev (v_cache v))) fat32 rel spc reserved fs nc"
    and B: "fresh_bounds fat32 rel spc reserved fs nc" and "length (cached v) = 512"
  shows "\<exists>v'. FatPartition_init D True 1 volStart v = (True, v') \<and> fat_inv D M v' \<and> search_ok v' \<and>
    v_fatType v' = (if fat32 then 32 else 16) \<and> unat (v_lastCluster v') = nc + 1 \<and> v_sectorsPerCluster v' = spc \<and>
    (\<forall>c. valid_cluster v' c \<longrightarrow> ent M v' c = (if fat32 \<and> c = 2 then 0xFFFFFFFF else 0))"
proof -
  let ?m = "M (c_dev (v_cache v))"
  let ?c0 = "cache_init True (v_cache v)"
  define v0 where "v0 = v\<lparr>v_fatType := 0, v_allocSearchStart := 1, v_cache := ?c0\<rparr>"
  have c0: "coherent M ?c0" "\<not> cache_isDirty ?c0" "c_dev ?c0 = c_dev (v_cache v)" "c_sector ?c0 = 0xFFFFFFFF"
    using assms(4) by (simp_all add: coherent_def cache_init_def cache_invalidate_def cache_isDirty_def)
  have fl: "flushed M c = view M c" if "\<not> cache_isDirty c" for c using that by (simp add: flushed_def mirror_of_def)
  obtain c1 where c1: "FsCache_prepare D 0 CACHE_FOR_READ ?c0 = (True, c1)" "coherent M c1" "c_sector c1 = 0" "view M c1 = ?m"
    "c_buffer c1 = ?m 0" "c_status c1 = 0"
    using prepare_spec [OF W c0(1), of 0 0] c0(3,4) fl [OF c0(2)] coherent_clean [OF c0(1,2)] by auto
  have d1: "\<not> cache_isDirty c1" using c1(6) by (simp add: cache_isDirty_def)
  have rb: "0 < rel" "rel < 2 ^ 32 - 1" using B by (simp_all add: fresh_bounds_def)
  let ?rel = "word_of_nat rel :: 32 word"
  have r: "?rel \<noteq> 0" "?rel \<noteq> 0xFFFFFFFF"
    using rb nat_word_eq [where 'a = 32, of rel 0] nat_word_eq [where 'a = 32, of rel "0xFFFFFFFF"] by simp_all
  obtain c2 where c2: "FsCache_prepare D ?rel CACHE_FOR_READ c1 = (True, c2)" "coherent M c2" "view M c2 = ?m"
    "c_buffer c2 = ?m ?rel" "c_status c2 = 0"
    using prepare_spec [OF W c1(2) r(2), of 0] r(1) c1(3,4) fl [OF d1] by auto
  define v2 where "v2 = v0\<lparr>v_cache := c2\<rparr>"
  have F: "?m 0 ! 446 = 0" "?m 0 ! 450 \<noteq> 0" "length (?m 0) = 512" "getLe32 (?m 0) 454 = ?rel"
    "boot_sector (?m ?rel) spc reserved (if fat32 then 0 else 512) (if fat32 then 0 else word_of_nat fs)
       (word_of_nat (nc * unat spc + 2 * fs + unat reserved + (if fat32 then 0 else 32))) (word_of_nat fs)"
    "\<And>i. i < 2 * fs \<Longrightarrow> ?m (word_of_nat (rel + unat reserved + i)) =
       (if i = 0 \<or> i = fs then first_fat (if fat32 then 12 else 4) else replicate 512 0)"
    using assms(2) unfolding fresh_card_def by auto
  obtain k where k: "k < 8" "spc = push_bit k 1" and bpb: "read_bpb (?m ?rel) ?rel v2 =
    (True, v2\<lparr>v_sectorsPerCluster := spc, v_clusterSectorMask := spc - 1, v_sectorsPerClusterShift := k, v_sectorsPerFat := word_of_nat fs,
       v_fatStartSector := word_of_nat (rel + unat reserved), v_rootDirEntryCount := (if fat32 then 0 else 512),
       v_rootDirStart := (if fat32 then 2 else word_of_nat (rel + unat reserved + 2 * fs)),
       v_dataStartSector := word_of_nat (rel + unat reserved + 2 * fs + (if fat32 then 0 else 32)),
       v_lastCluster := word_of_nat (nc + 1), v_fatType := (if fat32 then 32 else 16),
       v_cache := cache_setMirrorOffset (word_of_nat fs) (v_cache v2)\<rparr>)" (is "_ = (True, ?v)")
    using read_bpb_fresh [OF F(5) B, of v2] by blast
  have init: "FatPartition_init D True 1 volStart v = (True, ?v)"
  proof -
    have g: "getLe32 (drop 446 (?m 0)) 8 = ?rel" using F(4) by (simp add: getLe32_def)
    have e: "dataCachePrepare D 0 CACHE_FOR_READ v0 = (True, v0\<lparr>v_cache := c1\<rparr>)"
      "dataCachePrepare D ?rel CACHE_FOR_READ (v0\<lparr>v_cache := c1\<rparr>) = (True, v2)"
      using c1(1) c2(1) by (simp_all add: dataCachePrepare_def v0_def v2_def)
    have "cached v2 = ?m ?rel" using c2(4) by (simp add: v2_def)
    then have "FatPartition_init D True 1 volStart v = read_bpb (?m ?rel) ?rel v2"
      unfolding FatPartition_init_def Let_def v0_def [symmetric] using e g F(1-3) c1(5) by simp
    then show ?thesis unfolding bpb .
  qed
  define v3 where "v3 = ?v"
  have n: "unat (word_of_nat (nc + 1) :: 32 word) = nc + 1" "unat (word_of_nat fs :: 32 word) = fs"
    "unat (word_of_nat (rel + unat reserved) :: 32 word) = rel + unat reserved"
    using B by (auto simp: fresh_bounds_def unat_of_nat_small simp del: of_nat_Suc of_nat_add split: if_splits intro!: unat_of_nat_small)
  have V: "v_cache v3 = cache_setMirrorOffset (word_of_nat fs) c2" "v_lastCluster v3 = word_of_nat (nc + 1)" "v_sectorsPerFat v3 = word_of_nat fs"
    "v_fatStartSector v3 = word_of_nat (rel + unat reserved)" "v_fatType v3 = (if fat32 then 32 else 16)" "v_allocSearchStart v3 = 1"
    "v_sectorsPerCluster v3 = spc"
    by (simp_all add: v3_def v2_def v0_def)
  have st: "store M v3 = ?m" using c2(3) V(1) view_cong [of "v_cache v3" c2 M] by (simp add: cache_setMirrorOffset_def)
  have E: "entries_per_sector v3 = (if fat32 then 128 else 256)" by (simp add: entries_per_sector_def V(5))
  have nb: "nc + 1 < fs * entries_per_sector v3" "rel + unat reserved + 2 * fs < 2 ^ 32 - 1"
    "nc + 1 < (if fat32 then 0x0FFFFFFF else 0xFFFF)"
    using B unfolding E fresh_bounds_def by (auto split: if_splits)
  have geo: "geo_ok v3"
    unfolding geo_ok_def word_less_nat_alt V n using nb by (cases fat32) simp_all
  have fat: "?m (v_fatStartSector v3 + word_of_nat i) =
      (if i = 0 \<or> i = fs then first_fat (if fat32 then 12 else 4) else replicate 512 0)" if "i < 2 * fs" for i
    using F(6) [OF that] by (simp add: V(4))
  have "vol_ok M v3"
    unfolding vol_ok_def
  proof (intro conjI ballI)
    show "geo_ok v3" by (rule geo)
    show "coherent M (v_cache v3)" using c2(2) by (simp add: V(1) cache_setMirrorOffset_def coherent_def cache_isDirty_def)
    show "c_mirror (v_cache v3) = v_sectorsPerFat v3" by (simp add: V(1,3) cache_setMirrorOffset_def)
    show "bit (c_status (v_cache v3)) 1 \<longrightarrow> c_sector (v_cache v3) \<in> fat1 v3" using c2(5) by (simp add: V(1) cache_setMirrorOffset_def)
    fix s assume "s \<in> fat1 v3"
    then obtain i where i: "i < fs" "s = v_fatStartSector v3 + word_of_nat i" by (auto simp: fat1_def V(3) n(2))
    have e: "s + v_sectorsPerFat v3 = v_fatStartSector v3 + word_of_nat (i + fs)" by (simp add: i(2) V(3))
    have l: "i + fs < 2 * fs" "i < 2 * fs" using i(1) by simp_all
    have "?m (s + v_sectorsPerFat v3) = ?m s" unfolding e fat [OF l(1)] unfolding i(2) fat [OF l(2)] using i(1) by auto
    then show "store M v3 (s + v_sectorsPerFat v3) = store M v3 s \<or>
        c_sector (v_cache v3) = s \<and> cache_isDirty (v_cache v3) \<and> bit (c_status (v_cache v3)) 1" unfolding st ..
  qed
  moreover have "search_ok v3" unfolding search_ok_def word_le_nat_alt V(2,6) n(1) by simp
  moreover have "ent M v3 c = (if fat32 \<and> c = 2 then 0xFFFFFFFF else 0)" if c: "valid_cluster v3 c" for c
  proof -
    have c2: "2 \<le> unat c" "unat c \<le> nc + 1" using c unfolding valid_cluster_def word_le_nat_alt V(2) n(1) by simp_all
    have q: "unat c div entries_per_sector v3 < fs" using c2(2) nb(1) by (intro less_mult_imp_div_less) simp
    have b: "store M v3 (fat_sector v3 c) = (if unat c div entries_per_sector v3 = 0 then first_fat (if fat32 then 12 else 4) else replicate 512 0)"
      unfolding st fat_sector_def using fat [of "unat c div entries_per_sector v3"] q by auto
    show ?thesis
    proof (cases fat32)
      case True
      have o: "4 * (unat c mod 128) + 4 \<le> 512" 
      proof -
        have "unat c mod 128 < 128" by simp
        then show ?thesis by linarith
      qed
      show ?thesis
      proof (cases "unat c < 128")
        case s: True
        then have "unat c = 2 \<or> 3 \<le> unat c" "c = 2 \<longleftrightarrow> unat c = 2" using c2(1) word_of_unat [of c 2] by auto
        then show ?thesis using True s first_fat_fields(2,3) by (auto simp: ent_def Let_def b E V(5) fat_offset_def)
      next
        case False
        then have "unat c div 128 \<noteq> 0" "c \<noteq> 2" by auto
        then show ?thesis using True o zero_sector_fields(2) by (simp add: ent_def Let_def b E V(5) fat_offset_def)
      qed
    next
      case False
      have o: "2 * (unat c mod 256) + 2 \<le> 512"
      proof -
        have "unat c mod 256 < 256" by simp
        then show ?thesis by linarith
      qed
      show ?thesis
      proof (cases "unat c < 256")
        case True
        then show ?thesis using False c2(1) first_fat_fields(1) by (simp add: ent_def Let_def b E V(5) fat_offset_def)
      next
        case s: False
        then have "unat c div 256 \<noteq> 0" by auto
        then show ?thesis using False o zero_sector_fields(1) by (simp add: ent_def Let_def b E V(5) fat_offset_def)
      qed
    qed
  qed
  moreover have "unat (v_lastCluster v3) = nc + 1" unfolding V(2) by (rule n(1))
  ultimately show ?thesis using init [folded v3_def] W V(5,7) unfolding fat_inv_def by blast
qed

section \<open>Properties\<close>

text \<open>C32: formatting and mounting together. On a device that works and has at least 12289
  sectors (and is not in the gap that \<open>format\<close> refuses),
  \<open>FatFormatter::format\<close> returns and succeeds, and \<open>FatPartition::init\<close>
  with the fresh cache then mounts partition 1: a FAT16 volume below 2 GiB and a FAT32 volume from
  there on, which satisfies the invariant of the FAT layer and in which every cluster but the root
  directory of FAT32 is free.\<close>

theorem format_gives_usable_volume:
  assumes "dev_works D M" "12288 < unat sectors" "unat sectors \<le> 4294965248" "unat sectors < 0x400000 \<or> 4209984 \<le> unat sectors"
  shows "\<exists>f'. format D sectors f = Some (True, f') \<and>
    (\<forall>v volStart. c_dev (v_cache v) = f_dev f' \<longrightarrow> length (cached v) = 512 \<longrightarrow>
      (\<exists>v'. FatPartition_init D True 1 volStart v = (True, v') \<and> fat_inv D M v' \<and> search_ok v' \<and>
        v_fatType v' = (if unat sectors < 0x400000 then 16 else 32) \<and>
        (\<forall>c. valid_cluster v' c \<longrightarrow> ent M v' c = (if v_fatType v' = 32 \<and> c = 2 then 0xFFFFFFFF else 0))))"
proof (cases "unat sectors < 0x400000")
  case True
  obtain f' rel spc fs nc where f': "format D sectors f = Some (True, f')" "fresh_card (M (f_dev f')) False rel spc 1 fs nc"
    "fresh_bounds False rel spc 1 fs nc" using formats_fat16 [OF assms(1,2) True] by blast
  have "\<exists>v'. FatPartition_init D True 1 volStart v = (True, v') \<and> fat_inv D M v' \<and> search_ok v' \<and>
      v_fatType v' = 16 \<and> (\<forall>c. valid_cluster v' c \<longrightarrow> ent M v' c = 0)"
    if "c_dev (v_cache v) = f_dev f'" "length (cached v) = 512" for v volStart
    using mount_fresh [OF assms(1) _ f'(3) that(2), of volStart] f'(2) that(1) by auto
  then show ?thesis using f'(1) True by fastforce
next
  case False
  then have "4209984 \<le> unat sectors" using assms(4) by simp
  then obtain f' spc res fs nc where f': "format D sectors f = Some (True, f')" "fresh_card (M (f_dev f')) True 8192 spc res fs nc"
    "fresh_bounds True 8192 spc res fs nc" using formats_fat32 [OF assms(1) _ assms(3)] by blast
  have "\<exists>v'. FatPartition_init D True 1 volStart v = (True, v') \<and> fat_inv D M v' \<and> search_ok v' \<and>
      v_fatType v' = 32 \<and> (\<forall>c. valid_cluster v' c \<longrightarrow> ent M v' c = (if c = 2 then 0xFFFFFFFF else 0))"
    if "c_dev (v_cache v) = f_dev f'" "length (cached v) = 512" for v volStart
    using mount_fresh [OF assms(1) _ f'(3) that(2), of volStart] f'(2) that(1) by auto
  then show ?thesis using f'(1) False by fastforce
qed

definition demo_formatter :: "(32 word \<Rightarrow> byte list) formatter" where
  "demo_formatter = \<lparr>f_capacityMB = 0, f_dataStart = 0, f_fatSize = 0, f_fatStart = 0, f_relativeSectors = 0, f_sectorCount = 0,
     f_totalSectors = 0, f_dev = (\<lambda>_. replicate 512 0), f_pr = Some [], f_secBuf = replicate 512 0, f_reservedSectorCount = 0,
     f_partType = 0, f_sectorsPerCluster = 0\<rparr>"

lemma format_gives_usable_volume_witness:
  "\<exists>f' v'. format card_ops 16384 demo_formatter = Some (True, f') \<and>
    FatPartition_init card_ops True 1 0 (demo_vol\<lparr>v_cache := (v_cache demo_vol)\<lparr>c_dev := f_dev f'\<rparr>\<rparr>) = (True, v') \<and>
    fat_inv card_ops card v' \<and> v_fatType v' = 16"
proof -
  have "length (cached demo_vol) = 512" by (simp add: demo_vol_def demo_card_def demo_fat_def)
  moreover obtain f' where f': "format card_ops 16384 demo_formatter = Some (True, f')"
    "\<And>v volStart. c_dev (v_cache v) = f_dev f' \<Longrightarrow> length (cached v) = 512 \<Longrightarrow>
      \<exists>v'. FatPartition_init card_ops True 1 volStart v = (True, v') \<and> fat_inv card_ops card v' \<and> v_fatType v' = 16"
  proof -
    have "unat (16384 :: 32 word) = 16384" by simp
    then show thesis using format_gives_usable_volume [OF card_works, of 16384 demo_formatter] that by fastforce
  qed
  ultimately show ?thesis by fastforce
qed

text \<open>The sizes that are refused, on any device: the card is left alone.\<close>

lemma fat32_too_few:
  assumes "0x400000 \<le> unat sectors" "unat sectors < 4209984"
  shows "\<exists>nc fs r. fat32_layout sectors 64 16384 = Some (16384, nc, fs, r) \<and> nc < 65525"
proof -
  define nc where "nc = (sectors - 16384) div ucast (64 :: byte)"
  define fs where "fs = (nc + 2 + 128 - 1) div 128"
  have n: "unat nc = (unat sectors - 16384) div 64"
    unfolding nc_def using clusters_nat [of 16384 sectors 64] assms(1) by simp
  then have n': "unat nc < 65525" using assms(2) by simp
  then have "unat fs = (unat nc + 129) div 128" unfolding fs_def by (intro fat_size_nat) simp
  then have "unat fs \<le> 512" using n' by simp
  then have r: "BU32 + 9 + 2 * fs \<le> 16384" by (simp add: word_le_nat_alt unat_word_ariths)
  have "fat32_layout sectors 64 16384 = Some (16384, nc, fs, BU32 + 9 + 2 * fs)"
  proof -
    show ?thesis
      by (subst fat32_layout.simps) (simp only: Let_def nc_def [symmetric] fs_def [symmetric] r if_True)
  qed
  then show ?thesis using n' by (simp add: word_less_nat_alt)
qed

text \<open>C33: cards that \<open>format\<close> refuses, without writing to them: those of at most
  6 MiB, those of 4194304 to 4209983 sectors, for which the FAT32 layout has too few clusters, and
  those of more than 4294965248 sectors, for which the capacity wraps to 0.\<close>

theorem format_refuses:
  assumes "unat sectors \<le> 12288 \<or> 0x400000 \<le> unat sectors \<and> unat sectors < 4209984 \<or> 4294965248 < unat sectors"
  shows "\<exists>f'. format D sectors f = Some (False, f') \<and> f_dev f' = f_dev f"
proof -
  define cap where "cap = (sectors + 2048 - 1) div 2048"
  have small: ?thesis if "cap \<le> 6"
    using that by (simp add: format_def Let_def cap_def [simplified, symmetric])
  consider "unat sectors \<le> 12288" | "0x400000 \<le> unat sectors" "unat sectors < 4209984" | "4294965248 < unat sectors"
    using assms by blast
  then show ?thesis
  proof cases
    case 1
    then have "unat cap = (unat sectors + 2047) div 2048" unfolding cap_def by (intro capacity_nat) simp
    then show ?thesis using 1 small by (simp add: word_le_nat_alt div_bounds)
  next
    case 2
    then have c: "unat cap = (unat sectors + 2047) div 2048" unfolding cap_def by (intro capacity_nat) simp
    have "unat (cluster_size cap) = 64" using fat32_bounds(3) [OF 2(1) _ c] 2(2) by simp
    then have s: "cluster_size cap = 64" by (rule word_of_unat [THEN trans]) simp
    have "\<not> cap \<le> 6" using c 2 by (simp add: word_le_nat_alt div_bounds)
    moreover obtain nc fs r where "fat32_layout sectors 64 16384 = Some (16384, nc, fs, r)" "nc < 65525" using fat32_too_few [OF 2] by blast
    moreover have "\<not> sectors < 0x400000" using 2(1) by (simp add: word_less_nat_alt)
    ultimately show ?thesis
      by (simp add: format_def Let_def cap_def [simplified, symmetric] s makeFat32_def)
  next
    case 3
    have "sectors + 2048 - 1 = sectors - 4294965249" by simp
    also have "unat \<dots> = unat sectors - 4294965249" using 3 by (simp add: unat_sub word_le_nat_alt)
    finally have "unat cap \<le> 0" using unat_bound [of sectors] unfolding cap_def by (simp add: unat_div)
    then show ?thesis using small by (simp add: word_le_nat_alt)
  qed
qed

lemma format_refuses_witness:
  "\<exists>f'. format card_ops 0x400000 demo_formatter = Some (False, f') \<and> f_dev f' = f_dev demo_formatter"
  using format_refuses [of "0x400000" card_ops demo_formatter] by simp

end
