(* ===== verification/Divide10.thy ===== *)
theory Divide10
  imports Prelude
begin

text \<open>
  Division by ten without a division instruction (\<open>lib/SdFat/src/common/FmtNumber.cpp\<close>): the assembler text for the AVR,
  as a program of an interpreter of the instructions it uses, and the version in C++ for other processors; both give the
  quotient and the remainder of every number of 16 and of 32 bits.
\<close>

section \<open>AVR instructions\<close>

text \<open>
  The registers of the assembler text: the bytes of \<open>in32\<close>, \<open>mod8\<close>, \<open>tmp8\<close>, and the registers that \<open>mul\<close> uses. The effect of the
  instructions is the one of the AVR instruction set; \<open>clr\<close>, \<open>ldi\<close> and \<open>mov\<close> leave the carry alone.
\<close>

datatype reg = A0 | B0 | C0 | D0 | M1 | T2 | R0 | R1

datatype instr = LDI reg byte | MUL reg reg | CLR reg | ADD reg reg | ADC reg reg | MOV reg reg | LSR reg | ROR reg

type_synonym avr = "(reg \<Rightarrow> byte) \<times> bool"

definition add_carry :: "byte \<Rightarrow> byte \<Rightarrow> bool \<Rightarrow> byte \<times> bool" where
  "add_carry x y c = (let s = unat x + unat y + of_bool c in (word_of_nat s, 256 \<le> s))"

definition mul_bytes :: "byte \<Rightarrow> byte \<Rightarrow> byte \<times> byte" where
  "mul_bytes x y = (let p = ucast x * ucast y :: 16 word in (ucast p, ucast (drop_bit 8 p)))"

fun avr_step :: "instr \<Rightarrow> avr \<Rightarrow> avr" where
  "avr_step (LDI r k) (f, c) = (f(r := k), c)"
| "avr_step (MUL r s) (f, c) = (let (lo, hi) = mul_bytes (f r) (f s) in (f(R0 := lo, R1 := hi), bit hi 7))"
| "avr_step (CLR r) (f, c) = (f(r := 0), c)"
| "avr_step (ADD r s) (f, c) = (let (x, c') = add_carry (f r) (f s) False in (f(r := x), c'))"
| "avr_step (ADC r s) (f, c) = (let (x, c') = add_carry (f r) (f s) c in (f(r := x), c'))"
| "avr_step (MOV r s) (f, c) = (f(r := f s), c)"
| "avr_step (LSR r) (f, c) = (f(r := drop_bit 1 (f r)), bit (f r) 0)"
| "avr_step (ROR r) (f, c) = (f(r := drop_bit 1 (f r) OR (if c then 0x80 else 0)), bit (f r) 0)"

fun avr_run :: "instr list \<Rightarrow> avr \<Rightarrow> avr" where
  "avr_run [] s = s"
| "avr_run (i # is) s = avr_run is (avr_step i s)"

definition divmod10_asm16_code :: "instr list" where
  "divmod10_asm16_code =
    [LDI T2 51,
     MUL A0 T2, CLR A0, ADD R0 T2, ADC A0 R1, MOV M1 R0,
     MUL B0 T2, CLR B0, ADD A0 R0, ADC B0 R1,
     CLR R1,
     ADD M1 A0, ADC A0 B0, ADC B0 R1,
     ADD M1 B0, ADC A0 R1, ADC B0 R1,
     LSR B0, ROR A0, ROR M1,
     LDI T2 10, MUL M1 T2, MOV M1 R1, CLR R1]"

definition divmod10_asm32_code :: "instr list" where
  "divmod10_asm32_code =
    [LDI T2 51,
     MUL A0 T2, CLR A0, ADD R0 T2, ADC A0 R1, MOV M1 R0,
     MUL B0 T2, CLR B0, ADD A0 R0, ADC B0 R1,
     MUL C0 T2, CLR C0, ADD B0 R0, ADC C0 R1,
     MUL D0 T2, CLR D0, ADD C0 R0, ADC D0 R1,
     CLR R1,
     ADD M1 A0, ADC A0 B0, ADC B0 C0, ADC C0 D0, ADC D0 R1,
     ADD M1 B0, ADC A0 C0, ADC B0 D0, ADC C0 R1, ADC D0 R1,
     ADD M1 D0, ADC A0 R1, ADC B0 R1, ADC C0 R1, ADC D0 R1,
     LSR D0, ROR C0, ROR B0, ROR A0, ROR M1,
     LDI T2 10, MUL M1 T2, MOV M1 R1, CLR R1]"

text \<open>The operands in and out; what the other registers hold at the start does not matter.\<close>

definition divmod10_asm16 :: "16 word \<Rightarrow> avr \<Rightarrow> 16 word \<times> byte" where
  "divmod10_asm16 n s =
     (let (f, _) = avr_run divmod10_asm16_code ((fst s)(A0 := ucast n, B0 := ucast (drop_bit 8 n)), snd s)
      in (push_bit 8 (ucast (f B0)) OR ucast (f A0), f M1))"

definition divmod10_asm32 :: "32 word \<Rightarrow> avr \<Rightarrow> 32 word \<times> byte" where
  "divmod10_asm32 n s =
     (let (f, _) = avr_run divmod10_asm32_code
        ((fst s)(A0 := ucast n, B0 := ucast (drop_bit 8 n), C0 := ucast (drop_bit 16 n), D0 := ucast (drop_bit 24 n)), snd s)
      in (push_bit 24 (ucast (f D0)) OR push_bit 16 (ucast (f C0)) OR push_bit 8 (ucast (f B0)) OR ucast (f A0), f M1))"

section \<open>The assembler divides by ten\<close>

text \<open>What additions, products and shifts do to the numbers in the registers.\<close>

lemma byte_le: "unat (x :: byte) \<le> 255"
proof -
  have "unat x < 256" by simp
  then show ?thesis by linarith
qed

lemma byte_mod: "unat (word_of_nat s :: byte) = s mod 256"
  by (simp add: unat_of_nat)

lemma add_carry_nat:
  assumes "add_carry x y c = (z, c')"
  shows "unat z + 256 * of_bool c' = unat x + unat y + of_bool c"
proof -
  define s where "s = unat x + unat y + of_bool c"
  have "s < 512" using byte_le [of x] byte_le [of y] by (cases c) (simp_all add: s_def)
  then have "s = s mod 256 + 256 * of_bool (256 \<le> s)" by (auto simp: mod_if)
  moreover have "z = word_of_nat s" "c' = (256 \<le> s)" using assms by (simp_all add: add_carry_def Let_def s_def)
  ultimately show ?thesis using byte_mod [of s] by (simp add: s_def [symmetric])
qed

lemma mul_bytes_nat:
  assumes "mul_bytes x y = (lo, hi)"
  shows "unat lo + 256 * unat hi = unat x * unat y"
proof -
  define p where "p = (ucast x * ucast y :: 16 word)"
  have b: "unat x * unat y \<le> 255 * 255" using byte_le by (intro mult_mono) auto
  then have p: "unat p = unat x * unat y" by (simp add: p_def unat_word_ariths unat_ucast_up)
  have r: "lo = ucast p" "hi = ucast (drop_bit 8 p)" using assms by (simp_all add: mul_bytes_def Let_def p_def)
  have "unat lo = unat p mod 256" by (simp add: r unsigned_ucast_eq take_bit_eq_mod)
  moreover have "unat hi = unat p div 256"
  proof -
    have d: "unat (drop_bit 8 p) = unat p div 256" unfolding unat_drop_bit_eq by (simp add: drop_bit_eq_div)
    moreover have "unat p div 256 < 256" using b p by simp
    ultimately show ?thesis by (simp add: r unat_ucast_down)
  qed
  ultimately show ?thesis using p by simp
qed

lemma shift_nat:
  fixes x :: byte
  shows "unat (drop_bit 1 x) = unat x div 2" "of_bool (bit x 0) = unat x mod 2"
    "unat (drop_bit 1 x OR (if c then 0x80 else 0)) = unat x div 2 + 128 * of_bool c"
proof -
  show d: "unat (drop_bit 1 x) = unat x div 2" unfolding unat_drop_bit_eq by (simp add: drop_bit_eq_div)
  have "bit x 0 = bit (unat x) 0" by (simp add: bit_unsigned_iff)
  then show "of_bool (bit x 0) = unat x mod 2" by (simp add: bit_0 mod_2_eq_odd)
  have "drop_bit 1 x OR 0x80 = drop_bit 1 x + 0x80"
  proof (rule disjunctive_add [symmetric])
    fix n show "\<not> bit (drop_bit 1 x) n \<or> \<not> bit (0x80 :: byte) n"
    proof (cases "n = 7")
      case False
      have "(0x80 :: byte) = push_bit 7 1" by simp
      then show ?thesis using False by (simp only: bit_push_bit_iff bit_1_iff) simp
    qed (simp add: bit_simps)
  qed
  then have "unat (drop_bit 1 x OR 0x80) = (unat (drop_bit 1 x) + 128) mod 256" by (simp only: unat_word_ariths) simp
  then have "unat (drop_bit 1 x OR 0x80) = unat x div 2 + 128" using d byte_le [of x] by simp
  then show "unat (drop_bit 1 x OR (if c then 0x80 else 0)) = unat x div 2 + 128 * of_bool c"
    using d by simp
qed

text \<open>Instructions in order; the number in the registers before and after each part of the program.\<close>

lemma avr_run_append [simp]: "avr_run (xs @ ys) s = avr_run ys (avr_run xs s)"
  by (induction xs arbitrary: s) simp_all

definition fixed :: "(reg \<Rightarrow> byte) \<Rightarrow> nat" where
  "fixed f = unat (f M1) + 256 * unat (f A0) + 65536 * unat (f B0) + 16777216 * unat (f C0) + 4294967296 * unat (f D0)"

definition scale32 :: "instr list" where
  "scale32 = [LDI T2 51,
     MUL A0 T2, CLR A0, ADD R0 T2, ADC A0 R1, MOV M1 R0,
     MUL B0 T2, CLR B0, ADD A0 R0, ADC B0 R1,
     MUL C0 T2, CLR C0, ADD B0 R0, ADC C0 R1,
     MUL D0 T2, CLR D0, ADD C0 R0, ADC D0 R1,
     CLR R1]"

lemma scale32_nat:
  "\<exists>g. fst (avr_run scale32 (f, c)) = g \<and> g R1 = 0 \<and>
    fixed g = 51 * (unat (f A0) + 256 * unat (f B0) + 65536 * unat (f C0) + 16777216 * unat (f D0) + 1)"
proof -
  obtain l0 h0 where m0: "mul_bytes (f A0) 51 = (l0, h0)" by fastforce
  obtain l1 h1 where m1: "mul_bytes (f B0) 51 = (l1, h1)" by fastforce
  obtain l2 h2 where m2: "mul_bytes (f C0) 51 = (l2, h2)" by fastforce
  obtain l3 h3 where m3: "mul_bytes (f D0) 51 = (l3, h3)" by fastforce
  obtain x0 k0 where a0: "add_carry l0 51 False = (x0, k0)" by fastforce
  obtain x1 k1 where a1: "add_carry 0 h0 k0 = (x1, k1)" by fastforce
  obtain x2 k2 where a2: "add_carry x1 l1 False = (x2, k2)" by fastforce
  obtain x3 k3 where a3: "add_carry 0 h1 k2 = (x3, k3)" by fastforce
  obtain x4 k4 where a4: "add_carry x3 l2 False = (x4, k4)" by fastforce
  obtain x5 k5 where a5: "add_carry 0 h2 k4 = (x5, k5)" by fastforce
  obtain x6 k6 where a6: "add_carry x5 l3 False = (x6, k6)" by fastforce
  obtain x7 k7 where a7: "add_carry 0 h3 k6 = (x7, k7)" by fastforce
  note M = mul_bytes_nat [OF m0] mul_bytes_nat [OF m1] mul_bytes_nat [OF m2] mul_bytes_nat [OF m3]
  note A = add_carry_nat [OF a0] add_carry_nat [OF a1] add_carry_nat [OF a2] add_carry_nat [OF a3] add_carry_nat [OF a4]
    add_carry_nat [OF a5] add_carry_nat [OF a6] add_carry_nat [OF a7]
  have s: "unat (51 :: byte) = 51" by simp
  have h: "unat h0 \<le> 50" "unat h1 \<le> 50" "unat h2 \<le> 50" "unat h3 \<le> 50"
    using M byte_le [of "f A0"] byte_le [of "f B0"] byte_le [of "f C0"] byte_le [of "f D0"] unfolding s by linarith+
  have k: "\<not> k1" "\<not> k3" "\<not> k5" "\<not> k7"
    using A h by (auto simp: of_bool_def split: if_split_asm)
  let ?g = "fst (avr_run scale32 (f, c))"
  have g: "?g M1 = x0" "?g A0 = x2" "?g B0 = x4" "?g C0 = x6" "?g D0 = x7" "?g R1 = 0"
    by (simp_all add: scale32_def m0 m1 m2 m3 a0 a1 a2 a3 a4 a5 a6 a7)
  have "fixed ?g = 51 * (unat (f A0) + 256 * unat (f B0) + 65536 * unat (f C0) + 16777216 * unat (f D0) + 1)"
    unfolding fixed_def g using M A k unfolding s by simp
  then show ?thesis using g(6) by blast
qed

text \<open>Adding a shifted number, with carry through all bytes.\<close>

lemma chain5:
  assumes "add_carry x0 y0 False = (z0, c0)" "add_carry x1 y1 c0 = (z1, c1)" "add_carry x2 y2 c1 = (z2, c2)"
    "add_carry x3 y3 c2 = (z3, c3)" "add_carry x4 y4 c3 = (z4, c4)"
  shows "unat z0 + 256 * unat z1 + 65536 * unat z2 + 16777216 * unat z3 + 4294967296 * unat z4 + 1099511627776 * of_bool c4 =
    (unat x0 + 256 * unat x1 + 65536 * unat x2 + 16777216 * unat x3 + 4294967296 * unat x4) +
    (unat y0 + 256 * unat y1 + 65536 * unat y2 + 16777216 * unat y3 + 4294967296 * unat y4)"
  using assms [THEN add_carry_nat] by simp

definition add_shifted :: "reg \<Rightarrow> reg \<Rightarrow> reg \<Rightarrow> reg \<Rightarrow> reg \<Rightarrow> instr list" where
  "add_shifted r0 r1 r2 r3 r4 = [ADD M1 r0, ADC A0 r1, ADC B0 r2, ADC C0 r3, ADC D0 r4]"

lemma add_shifted_nat:
  assumes "(r0, r1, r2, r3, r4) \<in> {(A0, B0, C0, D0, R1), (B0, C0, D0, R1, R1), (D0, R1, R1, R1, R1)}" "f R1 = 0" "fixed f < 800000000000"
    and "n = (if r0 = A0 then 256 else if r0 = B0 then 65536 else 4294967296)"
  shows "fixed (fst (avr_run (add_shifted r0 r1 r2 r3 r4) (f, c))) = fixed f + fixed f div n"
    "fst (avr_run (add_shifted r0 r1 r2 r3 r4) (f, c)) R1 = 0"
proof -
  obtain x0 k0 where a0: "add_carry (f M1) (f r0) False = (x0, k0)" by fastforce
  obtain x1 k1 where a1: "add_carry (f A0) (f r1) k0 = (x1, k1)" by fastforce
  obtain x2 k2 where a2: "add_carry (f B0) (f r2) k1 = (x2, k2)" by fastforce
  obtain x3 k3 where a3: "add_carry (f C0) (f r3) k2 = (x3, k3)" by fastforce
  obtain x4 k4 where a4: "add_carry (f D0) (f r4) k3 = (x4, k4)" by fastforce
  let ?g = "fst (avr_run (add_shifted r0 r1 r2 r3 r4) (f, c))"
  have g: "?g M1 = x0" "?g A0 = x1" "?g B0 = x2" "?g C0 = x3" "?g D0 = x4" "?g R1 = 0"
    using assms(1,2) a0 a1 a2 a3 a4 by (auto simp: add_shifted_def)
  then show "?g R1 = 0" by simp
  have d: "fixed f div n = unat (f r0) + 256 * unat (f r1) + 65536 * unat (f r2) + 16777216 * unat (f r3) + 4294967296 * unat (f r4)"
  proof -
    have b: "unat (f r) < 256" for r by simp
    have "fixed f div 256 = unat (f A0) + 256 * unat (f B0) + 65536 * unat (f C0) + 16777216 * unat (f D0)"
      "fixed f div 65536 = unat (f B0) + 256 * unat (f C0) + 65536 * unat (f D0)"
      "fixed f div 4294967296 = unat (f D0)"
      unfolding fixed_def using b [of M1] b [of A0] b [of B0] b [of C0] by linarith+
    then show ?thesis using assms(1,2,4) by auto
  qed
  have "fixed ?g + 1099511627776 * of_bool k4 = fixed f + fixed f div n"
    unfolding d unfolding fixed_def g using chain5 [OF a0 a1 a2 a3 a4] by simp
  moreover have "fixed f div n \<le> 4000000000" using assms(3,4) by auto
  ultimately show "fixed ?g = fixed f + fixed f div n" using assms(3) by (cases k4) simp_all
qed

definition halve32 :: "instr list" where
  "halve32 = [LSR D0, ROR C0, ROR B0, ROR A0, ROR M1]"

lemma halve32_nat: "fixed (fst (avr_run halve32 (f, c))) = fixed f div 2"
proof -
  let ?g = "fst (avr_run halve32 (f, c))"
  have e: "?g D0 = drop_bit 1 (f D0)" "?g C0 = drop_bit 1 (f C0) OR (if bit (f D0) 0 then 0x80 else 0)"
    "?g B0 = drop_bit 1 (f B0) OR (if bit (f C0) 0 then 0x80 else 0)" "?g A0 = drop_bit 1 (f A0) OR (if bit (f B0) 0 then 0x80 else 0)"
    "?g M1 = drop_bit 1 (f M1) OR (if bit (f A0) 0 then 0x80 else 0)"
    by (simp_all add: halve32_def)
  have g: "unat (?g D0) = unat (f D0) div 2" "unat (?g C0) = unat (f C0) div 2 + 128 * (unat (f D0) mod 2)"
    "unat (?g B0) = unat (f B0) div 2 + 128 * (unat (f C0) mod 2)" "unat (?g A0) = unat (f A0) div 2 + 128 * (unat (f B0) mod 2)"
    "unat (?g M1) = unat (f M1) div 2 + 128 * (unat (f A0) mod 2)"
    unfolding e by (simp_all only: shift_nat)
  have "fixed f = 2 * fixed ?g + unat (f M1) mod 2"
    using div_mult_mod_eq [of "unat (f D0)" 2] div_mult_mod_eq [of "unat (f C0)" 2] div_mult_mod_eq [of "unat (f B0)" 2]
      div_mult_mod_eq [of "unat (f A0)" 2] div_mult_mod_eq [of "unat (f M1)" 2]
    unfolding fixed_def g distrib_left by linarith
  then show ?thesis by simp
qed

definition remainder10 :: "instr list" where
  "remainder10 = [LDI T2 10, MUL M1 T2, MOV M1 R1, CLR R1]"

lemma remainder10_nat:
  fixes f :: "reg \<Rightarrow> byte" and c :: bool
  defines "g \<equiv> fst (avr_run remainder10 (f, c))"
  shows "unat (g M1) = 10 * unat (f M1) div 256" "g A0 = f A0" "g B0 = f B0" "g C0 = f C0" "g D0 = f D0"
proof -
  obtain lo hi where m: "mul_bytes (f M1) 10 = (lo, hi)" by fastforce
  have "unat lo + 256 * unat hi = unat (f M1) * 10" using mul_bytes_nat [OF m] by simp
  then have "unat hi = 10 * unat (f M1) div 256" using byte_le [of lo] by linarith
  then show "unat (g M1) = 10 * unat (f M1) div 256" by (simp add: g_def remainder10_def m)
  show "g A0 = f A0" "g B0 = f B0" "g C0 = f C0" "g D0 = f D0" by (simp_all add: g_def remainder10_def m)
qed

text \<open>Multiplying with 51/256 and 256/255, to enough bits: never too much, and too little by less than a tenth.\<close>

lemma tenth:
  fixes n :: nat
  assumes "256 * n \<le> 10 * v" "10 * v < 256 * n + 256"
  shows "v div 256 = n div 10" "10 * (v mod 256) div 256 = n mod 10"
proof -
  have q: "n = 10 * (n div 10) + n mod 10" "n mod 10 < 10" by simp_all
  have "256 * (n div 10) \<le> v" "v < 256 * (n div 10) + 256" using assms q by linarith+
  then show d: "v div 256 = n div 10" by (intro div_nat_eqI) simp_all
  have "v mod 256 = v - 256 * (n div 10)" using d by (simp add: minus_mult_div_eq_mod flip: d)
  then have "256 * (n mod 10) \<le> 10 * (v mod 256)" "10 * (v mod 256) < 256 * (n mod 10) + 256"
    using assms q \<open>256 * (n div 10) \<le> v\<close> by linarith+
  then show "10 * (v mod 256) div 256 = n mod 10" by (intro div_nat_eqI) simp_all
qed

lemma tenth_bounds:
  fixes n :: nat
  assumes "n < 4294967296" "x = 51 * n + 51" "256 * a \<le> x" "x < 256 * a + 256" "y = x + a" "65536 * b \<le> y" "y < 65536 * b + 65536"
    "z = y + b" "4294967296 * d \<le> z" "z < 4294967296 * d + 4294967296" "w = z + d" "2 * v \<le> w" "w < 2 * v + 2"
  shows "256 * n \<le> 10 * v" "10 * v < 256 * n + 256"
  using assms by linarith+

lemma tenth32:
  fixes n :: nat
  assumes "n < 2 ^ 32" "x = 51 * n + 51" "y = x + x div 256" "z = y + y div 65536" "w = z + z div 4294967296" "v = w div 2"
  shows "v div 256 = n div 10" "10 * (v mod 256) div 256 = n mod 10"
proof -
  have d: "k * (m div k) \<le> m" "0 < k \<Longrightarrow> m < k * (m div k) + k" for k m :: nat
    using dividend_less_times_div [of k m] by simp_all
  have n: "n < 4294967296" using assms(1) by simp
  have "256 * n \<le> 10 * v" "10 * v < 256 * n + 256"
    by (rule tenth_bounds [OF n assms(2) d(1) d(2) assms(3) d(1) d(2) assms(4) d(1) d(2) assms(5)]; use d [of 2 w] assms(6) in simp)+
  then show "v div 256 = n div 10" "10 * (v mod 256) div 256 = n mod 10" by (rule tenth)+
qed

lemma divmod10_asm32_parts:
  "divmod10_asm32_code = scale32 @ add_shifted A0 B0 C0 D0 R1 @ add_shifted B0 C0 D0 R1 R1 @ add_shifted D0 R1 R1 R1 R1 @ halve32 @ remainder10"
  by (simp add: divmod10_asm32_code_def scale32_def add_shifted_def halve32_def remainder10_def)

lemma le_bytes_nat:
  fixes n :: "32 word"
  shows "unat (ucast n :: byte) + 256 * unat (ucast (drop_bit 8 n) :: byte) + 65536 * unat (ucast (drop_bit 16 n) :: byte) +
    16777216 * unat (ucast (drop_bit 24 n) :: byte) = unat n"
proof -
  have b: "unat (ucast (drop_bit k n) :: byte) = unat n div 2 ^ k mod 256" for k
  proof -
    have "unat (ucast w :: byte) = unat w mod 256" for w :: "32 word" by (simp add: unsigned_ucast_eq take_bit_eq_mod)
    moreover have "unat (drop_bit k n) = unat n div 2 ^ k" unfolding unat_drop_bit_eq by (simp add: drop_bit_eq_div)
    ultimately show ?thesis by simp
  qed
  define q1 q2 q3 where q: "q1 = unat n div 256" "q2 = q1 div 256" "q3 = q2 div 256"
  have e: "unat (ucast n :: byte) = unat n mod 256" "unat (ucast (drop_bit 8 n) :: byte) = q1 mod 256"
    "unat (ucast (drop_bit 16 n) :: byte) = q2 mod 256" "unat (ucast (drop_bit 24 n) :: byte) = q3 mod 256"
    using b [of 0] b [of 8] b [of 16] b [of 24] by (simp_all add: q div_mult2_eq [symmetric])
  have "q3 < 256" using unat_bound [of n] by (simp add: q div_mult2_eq [symmetric])
  then have "unat n = 256 * q1 + unat n mod 256" "q1 = 256 * q2 + q1 mod 256" "q2 = 256 * q3 + q2 mod 256" "q3 mod 256 = q3"
    by (simp_all add: q)
  then show ?thesis unfolding e by linarith
qed

lemma join_bytes_nat:
  "unat (push_bit 24 (ucast d) OR push_bit 16 (ucast c) OR push_bit 8 (ucast b) OR ucast a :: 32 word) =
    unat (a :: byte) + 256 * unat (b :: byte) + 65536 * unat (c :: byte) + 16777216 * unat (d :: byte)" (is "unat ?w = _")
proof -
  have "ucast ?w = a" "ucast (drop_bit 8 ?w) = b" "ucast (drop_bit 16 ?w) = c" "ucast (drop_bit 24 ?w) = d"
    by (rule bit_word_eqI; auto simp: bit_simps)+
  then show ?thesis using le_bytes_nat [of ?w] by simp
qed

lemma divmod10_asm32_nat:
  assumes "divmod10_asm32 n s = (q, r)"
  shows "unat q = unat n div 10" "unat r = unat n mod 10"
proof -
  let ?f0 = "(fst s)(A0 := ucast n, B0 := ucast (drop_bit 8 n), C0 := ucast (drop_bit 16 n), D0 := ucast (drop_bit 24 n))"
  obtain f1 c1 where 1: "avr_run scale32 (?f0, snd s) = (f1, c1)" by fastforce
  obtain f2 c2 where 2: "avr_run (add_shifted A0 B0 C0 D0 R1) (f1, c1) = (f2, c2)" by fastforce
  obtain f3 c3 where 3: "avr_run (add_shifted B0 C0 D0 R1 R1) (f2, c2) = (f3, c3)" by fastforce
  obtain f4 c4 where 4: "avr_run (add_shifted D0 R1 R1 R1 R1) (f3, c3) = (f4, c4)" by fastforce
  obtain f5 c5 where 5: "avr_run halve32 (f4, c4) = (f5, c5)" by fastforce
  obtain f6 c6 where 6: "avr_run remainder10 (f5, c5) = (f6, c6)" by fastforce
  have n: "unat n < 4294967296" using unat_bound [of n] by simp
  have x: "fixed f1 = 51 * unat n + 51" "f1 R1 = 0"
    using scale32_nat [of ?f0 "snd s"] le_bytes_nat [of n] 1 by simp_all
  have y: "fixed f2 = fixed f1 + fixed f1 div 256" "f2 R1 = 0"
    using add_shifted_nat [of A0 B0 C0 D0 R1 f1 256 c1] x n 2 by auto
  have "fixed f2 < 440000000000" using x y(1) n div_le_dividend [of "fixed f1" 256] by linarith
  then have b: "fixed f2 < 800000000000" "fixed f2 div 65536 < 10000000" by simp_all
  have z: "fixed f3 = fixed f2 + fixed f2 div 65536" "f3 R1 = 0"
    using add_shifted_nat [of B0 C0 D0 R1 R1 f2 65536 c2] y b 3 by simp_all
  have "fixed f3 < 800000000000" using z \<open>fixed f2 < 440000000000\<close> b by linarith
  then have w: "fixed f4 = fixed f3 + fixed f3 div 4294967296"
    using add_shifted_nat [of D0 R1 R1 R1 R1 f3 4294967296 c3] z 4 by simp
  have v: "fixed f5 = fixed f4 div 2" using halve32_nat [of f4 c4] 5 by simp
  have T: "fixed f5 div 256 = unat n div 10" "10 * (fixed f5 mod 256) div 256 = unat n mod 10"
    using tenth32 [OF _ x(1) y(1) z(1) w v] n by simp_all
  have m: "unat (f6 M1) = 10 * unat (f5 M1) div 256" "f6 A0 = f5 A0" "f6 B0 = f5 B0" "f6 C0 = f5 C0" "f6 D0 = f5 D0"
    using remainder10_nat [of f5 c5] 6 by simp_all
  have p: "fixed f5 mod 256 = unat (f5 M1)"
    "fixed f5 div 256 = unat (f5 A0) + 256 * unat (f5 B0) + 65536 * unat (f5 C0) + 16777216 * unat (f5 D0)"
  proof -
    have e: "fixed f5 = unat (f5 M1) + 256 * (unat (f5 A0) + 256 * unat (f5 B0) + 65536 * unat (f5 C0) + 16777216 * unat (f5 D0))"
      by (simp add: fixed_def)
    have "unat (f5 M1) < 256" by simp
    then show "fixed f5 mod 256 = unat (f5 M1)"
      "fixed f5 div 256 = unat (f5 A0) + 256 * unat (f5 B0) + 65536 * unat (f5 C0) + 16777216 * unat (f5 D0)"
      unfolding e by (simp_all only: mod_mult_self2 div_mult_self2 mod_less div_less)
  qed
  have "q = push_bit 24 (ucast (f6 D0)) OR push_bit 16 (ucast (f6 C0)) OR push_bit 8 (ucast (f6 B0)) OR ucast (f6 A0)" "r = f6 M1"
    using assms 1 2 3 4 5 6 by (simp_all add: divmod10_asm32_def divmod10_asm32_parts)
  then show "unat q = unat n div 10" "unat r = unat n mod 10"
    using T m p by (simp_all add: join_bytes_nat)
qed

text \<open>The program for 16 bits, in the same parts.\<close>

definition fixed16 :: "(reg \<Rightarrow> byte) \<Rightarrow> nat" where
  "fixed16 f = unat (f M1) + 256 * unat (f A0) + 65536 * unat (f B0)"

definition scale16 :: "instr list" where
  "scale16 = [LDI T2 51, MUL A0 T2, CLR A0, ADD R0 T2, ADC A0 R1, MOV M1 R0, MUL B0 T2, CLR B0, ADD A0 R0, ADC B0 R1, CLR R1]"

definition add_shifted16 :: "reg \<Rightarrow> reg \<Rightarrow> reg \<Rightarrow> instr list" where
  "add_shifted16 r0 r1 r2 = [ADD M1 r0, ADC A0 r1, ADC B0 r2]"

definition halve16 :: "instr list" where
  "halve16 = [LSR B0, ROR A0, ROR M1]"

lemma scale16_nat:
  "fst (avr_run scale16 (f, c)) R1 = 0" "fixed16 (fst (avr_run scale16 (f, c))) = 51 * (unat (f A0) + 256 * unat (f B0)) + 51"
proof -
  obtain l0 h0 where m0: "mul_bytes (f A0) 51 = (l0, h0)" by fastforce
  obtain l1 h1 where m1: "mul_bytes (f B0) 51 = (l1, h1)" by fastforce
  obtain x0 k0 where a0: "add_carry l0 51 False = (x0, k0)" by fastforce
  obtain x1 k1 where a1: "add_carry 0 h0 k0 = (x1, k1)" by fastforce
  obtain x2 k2 where a2: "add_carry x1 l1 False = (x2, k2)" by fastforce
  obtain x3 k3 where a3: "add_carry 0 h1 k2 = (x3, k3)" by fastforce
  note M = mul_bytes_nat [OF m0] mul_bytes_nat [OF m1]
  note A = add_carry_nat [OF a0] add_carry_nat [OF a1] add_carry_nat [OF a2] add_carry_nat [OF a3]
  have s: "unat (51 :: byte) = 51" by simp
  have h: "unat h0 \<le> 50" "unat h1 \<le> 50"
    using M byte_le [of "f A0"] byte_le [of "f B0"] unfolding s by linarith+
  have k: "\<not> k1" "\<not> k3" using A h by (auto simp: of_bool_def split: if_split_asm)
  let ?g = "fst (avr_run scale16 (f, c))"
  have g: "?g M1 = x0" "?g A0 = x2" "?g B0 = x3" "?g R1 = 0"
    by (simp_all add: scale16_def m0 m1 a0 a1 a2 a3)
  show "?g R1 = 0" by (rule g)
  show "fixed16 ?g = 51 * (unat (f A0) + 256 * unat (f B0)) + 51"
    unfolding fixed16_def g using M A k unfolding s by simp
qed

lemma add_shifted16_nat:
  assumes "(r0, r1, r2) \<in> {(A0, B0, R1), (B0, R1, R1)}" "f R1 = 0" "fixed16 f < 10000000"
    and "n = (if r0 = A0 then 256 else 65536)"
  shows "fixed16 (fst (avr_run (add_shifted16 r0 r1 r2) (f, c))) = fixed16 f + fixed16 f div n"
    "fst (avr_run (add_shifted16 r0 r1 r2) (f, c)) R1 = 0"
proof -
  obtain x0 k0 where a0: "add_carry (f M1) (f r0) False = (x0, k0)" by fastforce
  obtain x1 k1 where a1: "add_carry (f A0) (f r1) k0 = (x1, k1)" by fastforce
  obtain x2 k2 where a2: "add_carry (f B0) (f r2) k1 = (x2, k2)" by fastforce
  let ?g = "fst (avr_run (add_shifted16 r0 r1 r2) (f, c))"
  have g: "?g M1 = x0" "?g A0 = x1" "?g B0 = x2" "?g R1 = 0"
    using assms(1,2) a0 a1 a2 by (auto simp: add_shifted16_def)
  then show "?g R1 = 0" by simp
  have d: "fixed16 f div n = unat (f r0) + 256 * unat (f r1) + 65536 * unat (f r2)"
  proof -
    have b: "unat (f r) < 256" for r by simp
    have "fixed16 f div 256 = unat (f A0) + 256 * unat (f B0)" "fixed16 f div 65536 = unat (f B0)"
      unfolding fixed16_def using b [of M1] b [of A0] by linarith+
    then show ?thesis using assms(1,2,4) by auto
  qed
  have "fixed16 ?g + 16777216 * of_bool k2 = fixed16 f + fixed16 f div n"
    unfolding d unfolding fixed16_def g using add_carry_nat [OF a0] add_carry_nat [OF a1] add_carry_nat [OF a2] by simp
  moreover have "fixed16 f div n \<le> 100000" using assms(3,4) by auto
  ultimately show "fixed16 ?g = fixed16 f + fixed16 f div n" using assms(3) by (cases k2) simp_all
qed

lemma halve16_nat: "fixed16 (fst (avr_run halve16 (f, c))) = fixed16 f div 2"
proof -
  let ?g = "fst (avr_run halve16 (f, c))"
  have e: "?g B0 = drop_bit 1 (f B0)" "?g A0 = drop_bit 1 (f A0) OR (if bit (f B0) 0 then 0x80 else 0)"
    "?g M1 = drop_bit 1 (f M1) OR (if bit (f A0) 0 then 0x80 else 0)"
    by (simp_all add: halve16_def)
  have g: "unat (?g B0) = unat (f B0) div 2" "unat (?g A0) = unat (f A0) div 2 + 128 * (unat (f B0) mod 2)"
    "unat (?g M1) = unat (f M1) div 2 + 128 * (unat (f A0) mod 2)"
    unfolding e by (simp_all only: shift_nat)
  have "fixed16 f = 2 * fixed16 ?g + unat (f M1) mod 2"
    using div_mult_mod_eq [of "unat (f B0)" 2] div_mult_mod_eq [of "unat (f A0)" 2] div_mult_mod_eq [of "unat (f M1)" 2]
    unfolding fixed16_def g distrib_left by linarith
  then show ?thesis by simp
qed

lemma tenth16:
  fixes n :: nat
  assumes "n < 65536" "x = 51 * n + 51" "y = x + x div 256" "w = y + y div 65536" "v = w div 2"
  shows "v div 256 = n div 10" "10 * (v mod 256) div 256 = n mod 10"
proof -
  have y: "y < 2 ^ 24" using assms(1-3) by simp
  then have "w < 4294967296" using assms(4) by simp
  then have w: "w = w + w div 4294967296" by simp
  have "n < 2 ^ 32" using assms(1) by simp
  note t = tenth32 [OF this assms(2,3,4) w assms(5)]
  show "v div 256 = n div 10" "10 * (v mod 256) div 256 = n mod 10" by (rule t)+
qed

lemma divmod10_asm16_parts:
  "divmod10_asm16_code = scale16 @ add_shifted16 A0 B0 R1 @ add_shifted16 B0 R1 R1 @ halve16 @ remainder10"
  by (simp add: divmod10_asm16_code_def scale16_def add_shifted16_def halve16_def remainder10_def)

lemma le_bytes16_nat:
  fixes n :: "16 word"
  shows "unat (ucast n :: byte) + 256 * unat (ucast (drop_bit 8 n) :: byte) = unat n"
proof -
  have "unat (ucast w :: byte) = unat w mod 256" for w :: "16 word" by (simp add: unsigned_ucast_eq take_bit_eq_mod)
  moreover have "unat (drop_bit 8 n) = unat n div 256" unfolding unat_drop_bit_eq by (simp add: drop_bit_eq_div)
  moreover have "unat n div 256 < 256" using unat_bound [of n] by simp
  ultimately show ?thesis by simp
qed

lemma join_bytes16_nat:
  "unat (push_bit 8 (ucast b) OR ucast a :: 16 word) = unat (a :: byte) + 256 * unat (b :: byte)" (is "unat ?w = _")
proof -
  have "ucast ?w = a" "ucast (drop_bit 8 ?w) = b" by (rule bit_word_eqI; auto simp: bit_simps)+
  then show ?thesis using le_bytes16_nat [of ?w] by simp
qed

lemma divmod10_asm16_nat:
  assumes "divmod10_asm16 n s = (q, r)"
  shows "unat q = unat n div 10" "unat r = unat n mod 10"
proof -
  let ?f0 = "(fst s)(A0 := ucast n, B0 := ucast (drop_bit 8 n))"
  obtain f1 c1 where 1: "avr_run scale16 (?f0, snd s) = (f1, c1)" by fastforce
  obtain f2 c2 where 2: "avr_run (add_shifted16 A0 B0 R1) (f1, c1) = (f2, c2)" by fastforce
  obtain f3 c3 where 3: "avr_run (add_shifted16 B0 R1 R1) (f2, c2) = (f3, c3)" by fastforce
  obtain f4 c4 where 4: "avr_run halve16 (f3, c3) = (f4, c4)" by fastforce
  obtain f5 c5 where 5: "avr_run remainder10 (f4, c4) = (f5, c5)" by fastforce
  have n: "unat n < 65536" using unat_bound [of n] by simp
  have x: "fixed16 f1 = 51 * unat n + 51" "f1 R1 = 0"
    using scale16_nat [of ?f0 "snd s"] le_bytes16_nat [of n] 1 by simp_all
  have y: "fixed16 f2 = fixed16 f1 + fixed16 f1 div 256" "f2 R1 = 0"
    using add_shifted16_nat [of A0 B0 R1 f1 256 c1] x n 2 by auto
  have "fixed16 f2 < 10000000" using x y n by simp
  then have w: "fixed16 f3 = fixed16 f2 + fixed16 f2 div 65536"
    using add_shifted16_nat [of B0 R1 R1 f2 65536 c2] y 3 by simp
  have v: "fixed16 f4 = fixed16 f3 div 2" using halve16_nat [of f3 c3] 4 by simp
  have T: "fixed16 f4 div 256 = unat n div 10" "10 * (fixed16 f4 mod 256) div 256 = unat n mod 10"
    using tenth16 [OF n x(1) y(1) w v] by simp_all
  have m: "unat (f5 M1) = 10 * unat (f4 M1) div 256" "f5 A0 = f4 A0" "f5 B0 = f4 B0"
    using remainder10_nat [of f4 c4] 5 by simp_all
  have p: "fixed16 f4 mod 256 = unat (f4 M1)" "fixed16 f4 div 256 = unat (f4 A0) + 256 * unat (f4 B0)"
  proof -
    have e: "fixed16 f4 = unat (f4 M1) + 256 * (unat (f4 A0) + 256 * unat (f4 B0))" by (simp add: fixed16_def)
    have "unat (f4 M1) < 256" by simp
    then show "fixed16 f4 mod 256 = unat (f4 M1)" "fixed16 f4 div 256 = unat (f4 A0) + 256 * unat (f4 B0)"
      unfolding e by (simp_all only: mod_mult_self2 div_mult_self2 mod_less div_less)
  qed
  have "q = push_bit 8 (ucast (f5 B0)) OR ucast (f5 A0)" "r = f5 M1"
    using assms 1 2 3 4 5 by (simp_all add: divmod10_asm16_def divmod10_asm16_parts)
  then show "unat q = unat n div 10" "unat r = unat n mod 10" using T m p by (simp_all add: join_bytes16_nat)
qed

section \<open>The version in C++\<close>

definition divmod10_c16 :: "16 word \<Rightarrow> 16 word \<times> byte" where
  "divmod10_c16 n =
     (let t = n;
          n = drop_bit 1 n + drop_bit 2 n;
          n = n + drop_bit 4 n;
          n = n + drop_bit 8 n;
          n = drop_bit 3 n;
          r = ucast (t - push_bit 1 (push_bit 2 n + n)) :: byte
      in if r > 9 then (n + 1, r - 10) else (n, r))"

definition divmod10_c32 :: "32 word \<Rightarrow> 32 word \<times> byte" where
  "divmod10_c32 n =
     (let t = n;
          n = drop_bit 1 n + drop_bit 2 n;
          n = n + drop_bit 4 n;
          n = n + drop_bit 8 n;
          n = n + drop_bit 16 n;
          n = drop_bit 3 n;
          r = ucast (t - push_bit 1 (push_bit 2 n + n)) :: byte
      in if r > 9 then (n + 1, r - 10) else (n, r))"

lemma eight_bounds:
  fixes t :: nat
  assumes "2 * h \<le> t" "t < 2 * h + 2" "4 * k \<le> t" "t < 4 * k + 4" "a = h + k" "16 * x \<le> a" "a < 16 * x + 16" "b = a + x"
    "256 * y \<le> b" "b < 256 * y + 256" "c = b + y" "65536 * z \<le> c" "c < 65536 * z + 65536" "d = c + z" "t < 4294967296"
  shows "5 * d \<le> 4 * t" "4 * t \<le> 5 * d + 25" "a \<le> t" "b \<le> t" "c \<le> t"
  using assms by linarith+

lemma eight_tenths:
  fixes t :: nat
  assumes "a = t div 2 + t div 4" "b = a + a div 16" "c = b + b div 256" "d = c + c div 65536" "t < 4294967296"
  shows "5 * d \<le> 4 * t" "4 * t \<le> 5 * d + 25" "a \<le> t" "b \<le> t" "c \<le> t"
proof -
  have m: "k * (m div k) \<le> m" "0 < k \<Longrightarrow> m < k * (m div k) + k" for k m :: nat
    using dividend_less_times_div [of k m] by simp_all
  note e = eight_bounds [OF m(1) m(2) m(1) m(2) assms(1) m(1) m(2) assms(2) m(1) m(2) assms(3) m(1) m(2) assms(4,5)]
  show "5 * d \<le> 4 * t" "4 * t \<le> 5 * d + 25" "a \<le> t" "b \<le> t" "c \<le> t" by (rule e; simp)+
qed

lemma adjust:
  fixes t q :: nat
  assumes "10 * q \<le> t" "t < 10 * q + 20"
  shows "t div 10 = (if 9 < t - 10 * q then q + 1 else q)" "t mod 10 = (if 9 < t - 10 * q then t - 10 * q - 10 else t - 10 * q)"
proof -
  have "t div 10 = (if 9 < t - 10 * q then q + 1 else q) \<and> t mod 10 = (if 9 < t - 10 * q then t - 10 * q - 10 else t - 10 * q)"
  proof (cases "9 < t - 10 * q")
    case True
    then have "t div 10 = q + 1" using assms by (intro div_nat_eqI) simp_all
    then show ?thesis using True by (simp add: minus_mult_div_eq_mod [symmetric])
  next
    case False
    then have "t div 10 = q" using assms by (intro div_nat_eqI) simp_all
    then show ?thesis using False by (simp add: minus_mult_div_eq_mod [symmetric])
  qed
  then show "t div 10 = (if 9 < t - 10 * q then q + 1 else q)" "t mod 10 = (if 9 < t - 10 * q then t - 10 * q - 10 else t - 10 * q)"
    by blast+
qed

lemma unat_add_shifted:
  "unat a = a' \<Longrightarrow> b' = a' + a' div 2 ^ k \<Longrightarrow> b' < 2 ^ LENGTH('a) \<Longrightarrow> unat (a + drop_bit k a :: 'a::len word) = b'"
  using unat_plus_small [of a "drop_bit k a"] by (simp add: unat_drop)

lemma times_ten: "push_bit 1 (push_bit 2 n + n) = 10 * (n :: 'a::len word)"
  by (simp add: push_bit_eq_mult)

text \<open>The last correction, for a word \<open>n\<close> that is at most a tenth of \<open>t\<close> and not much less.\<close>

lemma divmod10_last:
  fixes t n :: "'a::len word"
  assumes "8 \<le> LENGTH('a)" "10 * unat n \<le> unat t" "unat t < 10 * unat n + 20"
  shows "(let r = ucast (t - push_bit 1 (push_bit 2 n + n)) :: byte in if r > 9 then (n + 1, r - 10) else (n, r)) =
    (word_of_nat (unat t div 10), word_of_nat (unat t mod 10))"
proof -
  have big: "(256 :: nat) \<le> 2 ^ LENGTH('a)" using power_increasing [OF assms(1), of "2 :: nat"] by simp
  have t: "unat t < 2 ^ LENGTH('a)" by (rule unat_bound)
  have "unat (10 * n) = 10 * unat n"
  proof -
    have "10 * n = word_of_nat (10 * unat n)" by simp
    then show ?thesis using assms(2) t by (simp only: unat_of_nat_small [OF order_le_less_trans])
  qed
  then have d: "unat (t - 10 * n) = unat t - 10 * unat n" using assms(2) by (simp add: unat_sub word_le_nat_alt)
  let ?r = "ucast (t - 10 * n) :: byte"
  have r: "unat ?r = unat t - 10 * unat n" using d assms(3) by (subst unat_ucast_down) simp_all
  have gt: "?r > 9 \<longleftrightarrow> 9 < unat t - 10 * unat n" by (simp add: word_less_nat_alt r)
  have e: "?r = word_of_nat (unat t - 10 * unat n)" using r by (simp flip: r)
  show ?thesis
  proof (cases "9 < unat t - 10 * unat n")
    case True
    then have q: "unat t div 10 = unat n + 1" "unat t mod 10 = unat t - 10 * unat n - 10"
      using adjust [OF assms(2,3)] by simp_all
    have "?r - 10 = word_of_nat (unat t - 10 * unat n - 10)" using True e by (simp add: of_nat_diff)
    then show ?thesis using True gt unfolding times_ten Let_def q by simp
  next
    case False
    then have q: "unat t div 10 = unat n" "unat t mod 10 = unat t - 10 * unat n"
      using adjust [OF assms(2,3)] by simp_all
    show ?thesis using False gt e unfolding times_ten Let_def q by simp
  qed
qed

lemma divmod10_c32_nat: "divmod10_c32 n = (word_of_nat (unat n div 10), word_of_nat (unat n mod 10))"
proof -
  define a b c d where w: "a = drop_bit 1 n + drop_bit 2 n" "b = a + drop_bit 4 a" "c = b + drop_bit 8 b" "d = c + drop_bit 16 c"
  have t: "unat n < 4294967296" using unat_bound [of n] by simp
  define a' b' c' d' where w': "a' = unat n div 2 + unat n div 4" "b' = a' + a' div 16" "c' = b' + b' div 256" "d' = c' + c' div 65536"
  note E = eight_tenths [OF w' t]
  have "unat a = a'" using E(3) t unat_plus_small [of "drop_bit 1 n" "drop_bit 2 n"] by (simp add: w w' unat_drop)
  then have "unat b = b'" unfolding w(2) by (rule unat_add_shifted) (use E t in \<open>simp_all add: w'(2)\<close>)
  then have "unat c = c'" unfolding w(3) by (rule unat_add_shifted) (use E t in \<open>simp_all add: w'(3)\<close>)
  then have "unat d = d'" unfolding w(4) by (rule unat_add_shifted) (use E t in \<open>simp_all add: w'(4)\<close>)
  then have q: "unat (drop_bit 3 d) = d' div 8" by (simp add: unat_drop)
  have "8 * (d' div 8) \<le> d'" "d' < 8 * (d' div 8) + 8" using dividend_less_times_div [of 8 d'] by simp_all
  then have "10 * (d' div 8) \<le> unat n" "unat n < 10 * (d' div 8) + 20" using E by linarith+
  then have "(let r = ucast (n - push_bit 1 (push_bit 2 (drop_bit 3 d) + drop_bit 3 d)) :: byte in
      if r > 9 then (drop_bit 3 d + 1, r - 10) else (drop_bit 3 d, r)) = (word_of_nat (unat n div 10), word_of_nat (unat n mod 10))"
    by (intro divmod10_last) (simp_all only: q, simp_all)
  then show ?thesis unfolding divmod10_c32_def Let_def w .
qed

lemma divmod10_c16_nat: "divmod10_c16 n = (word_of_nat (unat n div 10), word_of_nat (unat n mod 10))"
proof -
  define a b c where w: "a = drop_bit 1 n + drop_bit 2 n" "b = a + drop_bit 4 a" "c = b + drop_bit 8 b"
  have t: "unat n < 65536" using unat_bound [of n] by simp
  then have t32: "unat n < 4294967296" by simp
  define a' b' c' where w': "a' = unat n div 2 + unat n div 4" "b' = a' + a' div 16" "c' = b' + b' div 256"
  note E = eight_tenths [OF w' refl t32]
  have z: "c' div 65536 = 0" using E(5) t by simp
  have "unat a = a'" using E(3) t unat_plus_small [of "drop_bit 1 n" "drop_bit 2 n"] by (simp add: w w' unat_drop)
  then have "unat b = b'" unfolding w(2) by (rule unat_add_shifted) (use E t in \<open>simp_all add: w'(2)\<close>)
  then have "unat c = c'" unfolding w(3) by (rule unat_add_shifted) (use E t in \<open>simp_all add: w'(3)\<close>)
  then have q: "unat (drop_bit 3 c) = c' div 8" by (simp add: unat_drop)
  have e: "5 * c' \<le> 4 * unat n" "4 * unat n \<le> 5 * c' + 25" using E(1,2) z by simp_all
  have "8 * (c' div 8) \<le> c'" "c' < 8 * (c' div 8) + 8" using dividend_less_times_div [of 8 c'] by simp_all
  with e have "10 * (c' div 8) \<le> unat n" "unat n < 10 * (c' div 8) + 20" using e by linarith+
  then have "(let r = ucast (n - push_bit 1 (push_bit 2 (drop_bit 3 c) + drop_bit 3 c)) :: byte in
      if r > 9 then (drop_bit 3 c + 1, r - 10) else (drop_bit 3 c, r)) = (word_of_nat (unat n div 10), word_of_nat (unat n mod 10))"
    by (intro divmod10_last) (simp_all only: q, simp_all)
  then show ?thesis unfolding divmod10_c16_def Let_def w .
qed

lemma divmod10_asm16_word: "divmod10_asm16 n s = (word_of_nat (unat n div 10), word_of_nat (unat n mod 10))"
proof -
  have w: "x = word_of_nat k" if "unat x = k" for x :: "'c::len word" and k using that by auto
  show ?thesis using divmod10_asm16_nat [of n s] by (cases "divmod10_asm16 n s") (simp add: w)
qed

lemma divmod10_variants:
  "divmod10_asm16 m s = divmod10_c16 m" "divmod10_asm32 n s = divmod10_c32 n"
proof -
  have w: "x = word_of_nat k" if "unat x = k" for x :: "'c::len word" and k using that by auto
  show "divmod10_asm16 m s = divmod10_c16 m" by (simp add: divmod10_asm16_word divmod10_c16_nat)
  show "divmod10_asm32 n s = divmod10_c32 n"
    using divmod10_asm32_nat [of n s] by (cases "divmod10_asm32 n s") (simp add: divmod10_c32_nat w)
qed

text \<open>C34: division by ten without a division instruction. The AVR assembler text, run
  instruction by instruction on registers and carry whatever the other registers hold, and the
  shifts and additions in C++ give the same quotient and remainder for every number of 16 and of 32
  bits.\<close>

theorem divmod10_variants_agree: "divmod10_asm16 m s = divmod10_c16 m \<and> divmod10_asm32 n s = divmod10_c32 n"
  by (simp add: divmod10_variants)

end
