(* ===== verification/FmtNumber.thy ===== *)
theory FmtNumber
  imports Divide10
begin

text \<open>
  Numbers as text (\<open>lib/SdFat/src/common/FmtNumber.cpp\<close>, and \<open>printField\<close> of \<open>FatLib/FatFile.h\<close> and \<open>common/RingBuf.h\<close>). A string
  grows to the front, as the code writes it through \<open>*--str\<close>: the last argument is what has been written so far.
\<close>

section \<open>Numbers as text\<close>

text \<open>\<open>fmtBase10\<close> as built for the AVR, with the contents \<open>s\<close> of the registers that the assembler text does not set.\<close>

function fmtBase10_16 :: "avr \<Rightarrow> 16 word \<Rightarrow> byte list \<Rightarrow> byte list" where
  "fmtBase10_16 s n str =
     (if n > 9 then let (n, r) = divmod10_asm16 n s in fmtBase10_16 s n ((r + 0x30) # str) else (ucast n + 0x30) # str)"
  by auto
termination
proof (relation "measure (\<lambda>(s, n, str). unat n)", simp, clarsimp)
  fix s :: avr and n q :: "16 word" and r
  assume "9 < n" "(q, r) = divmod10_asm16 n s"
  then show "unat q < unat n" using divmod10_asm16_nat [of n s q r] by (simp add: word_less_nat_alt)
qed

function fmtBase10_32 :: "avr \<Rightarrow> 32 word \<Rightarrow> byte list \<Rightarrow> byte list" where
  "fmtBase10_32 s n str =
     (if n > 0xFFFF then let (n, r) = divmod10_asm32 n s in fmtBase10_32 s n ((r + 0x30) # str) else fmtBase10_16 s (ucast n) str)"
  by auto
termination
proof (relation "measure (\<lambda>(s, n, str). unat n)", simp, clarsimp)
  fix s :: avr and n q :: "32 word" and r
  assume "0xFFFF < n" "(q, r) = divmod10_asm32 n s"
  then show "unat q < unat n" using divmod10_asm32_nat [of n s q r] by (simp add: word_less_nat_alt)
qed

declare fmtBase10_16.simps [simp del] fmtBase10_32.simps [simp del]

text \<open>Hexadecimal digits, and any base: a base of 0 divides by zero, and with base 1 the loop does not end.\<close>

function fmtHex :: "32 word \<Rightarrow> byte list \<Rightarrow> byte list" where
  "fmtHex n str =
     (let h = ucast (n AND 0xF) :: byte;
          str = (h + (if h < 10 then 0x30 else 0x41 - 10)) # str;
          n = drop_bit 4 n
      in if n \<noteq> 0 then fmtHex n str else str)"
  by auto
termination
proof (relation "measure (\<lambda>(n, str). unat n)", simp, clarsimp)
  fix n :: "32 word"
  assume "drop_bit 4 n \<noteq> 0"
  then have "n \<noteq> 0" by auto
  then have "unat n \<noteq> 0" by (simp add: unat_eq_zero)
  then show "unat (drop_bit 4 n) < unat n" by (simp add: unat_drop)
qed

declare fmtHex.simps [simp del]

partial_function (option) fmt_digits :: "32 word \<Rightarrow> byte \<Rightarrow> bool \<Rightarrow> byte list \<Rightarrow> byte list option" where
  "fmt_digits num base caps str =
     (let c = ucast (num mod ucast base) :: byte;
          str = (c + (if c < 10 then 0x30 else if caps then 0x41 - 10 else 0x61 - 10)) # str;
          num = num div ucast base
      in if num \<noteq> 0 then fmt_digits num base caps str else Some str)"

definition fmtUnsigned :: "avr \<Rightarrow> 32 word \<Rightarrow> byte \<Rightarrow> bool \<Rightarrow> byte list \<Rightarrow> byte list option" where
  "fmtUnsigned s num base caps str =
     (if base = 10 then Some (fmtBase10_32 s num str)
      else if base = 0 then None
      else fmt_digits num base caps str)"

text \<open>The negation of the smallest number is not defined.\<close>

definition fmtSigned :: "avr \<Rightarrow> 32 word \<Rightarrow> byte \<Rightarrow> bool \<Rightarrow> byte list \<Rightarrow> byte list option" where
  "fmtSigned s num base caps str =
     (let neg = (base = 10 \<and> num <s 0) in
      if neg \<and> num = 0x80000000 then None
      else do {
        str \<leftarrow> fmtUnsigned s (if neg then - num else num) base caps str;
        Some (if neg then 0x2D # str else str) })"

section \<open>The text of a number\<close>

text \<open>The number that a text of digits stands for.\<close>

definition digit_value :: "byte \<Rightarrow> nat" where
  "digit_value d = (if d < 0x3A then unat d - 48 else if d < 0x61 then unat d - 55 else unat d - 87)"

definition digits_value :: "nat \<Rightarrow> byte list \<Rightarrow> nat" where
  "digits_value b ds = foldl (\<lambda>v d. b * v + digit_value d) 0 ds"

definition decimal_text :: "nat \<Rightarrow> byte list \<Rightarrow> bool" where
  "decimal_text n ds \<longleftrightarrow> ds \<noteq> [] \<and> (\<forall>d \<in> set ds. 0x30 \<le> d \<and> d \<le> 0x39) \<and> digits_value 10 ds = n \<and>
     (hd ds = 0x30 \<longrightarrow> n = 0)"

lemma digits_value_append: "digits_value b (ds @ [d]) = b * digits_value b ds + digit_value d"
  by (simp add: digits_value_def)

lemma digit_byte:
  assumes "unat r < 10"
  shows "0x30 \<le> r + (0x30 :: byte)" "r + 0x30 \<le> (0x39 :: byte)" "r + 0x30 < (0x3A :: byte)" "unat (r + 0x30) = unat r + 48"
proof -
  show u: "unat (r + 0x30) = unat r + 48" using assms unat_plus_small [of r "0x30"] by simp
  then show "0x30 \<le> r + (0x30 :: byte)" "r + 0x30 \<le> (0x39 :: byte)" "r + 0x30 < (0x3A :: byte)"
    using assms by (simp_all add: word_le_nat_alt word_less_nat_alt)
qed

lemma decimal_text_digit:
  assumes "unat (r :: byte) < 10"
  shows "decimal_text (unat r) [r + 0x30]"
proof -
  have "r + 0x30 = 0x30 \<longrightarrow> unat r = 0" by auto
  then show ?thesis using digit_byte [OF assms] by (simp add: decimal_text_def digits_value_def digit_value_def)
qed

lemma decimal_text_more:
  assumes "decimal_text (n div 10) ds" "unat (r :: byte) = n mod 10" "9 < n"
  shows "decimal_text n (ds @ [r + 0x30])"
proof -
  have "unat r < 10" using assms(2) by simp
  moreover have "n div 10 \<noteq> 0" using assms(3) by simp
  ultimately show ?thesis
    using assms(1,2) digit_byte [of r] by (auto simp: decimal_text_def digits_value_append digit_value_def)
qed

lemma fmtBase10_16_text:
  "\<exists>ds. fmtBase10_16 s n str = ds @ str \<and> decimal_text (unat n) ds \<and> unat n < 10 ^ length ds \<and> 10 ^ (length ds - 1) \<le> max 1 (unat n)"
proof (induction s n str rule: fmtBase10_16.induct)
  case (1 s n str)
  show ?case
  proof (cases "n > 9")
    case True
    obtain q r where q: "divmod10_asm16 n s = (q, r)" by fastforce
    note Q = divmod10_asm16_nat [OF q]
    from "1.IH" [OF True q [symmetric] refl] obtain ds where d: "fmtBase10_16 s q ((r + 0x30) # str) = ds @ (r + 0x30) # str"
      "decimal_text (unat q) ds" "unat q < 10 ^ length ds" "10 ^ (length ds - 1) \<le> max 1 (unat q)" by auto
    have n: "9 < unat n" using True by (simp add: word_less_nat_alt)
    have l: "length ds \<noteq> 0" using d(2) by (simp add: decimal_text_def)
    have "decimal_text (unat n) (ds @ [r + 0x30])" using decimal_text_more [of "unat n" ds r] d(2) Q n by simp
    moreover have "unat n < 10 ^ length (ds @ [r + 0x30])" using d(3) Q(1) by simp
    moreover have "10 ^ (length (ds @ [r + 0x30]) - 1) \<le> max 1 (unat n)"
    proof -
      have "1 \<le> unat q" using n Q(1) by simp
      then have "10 ^ (length ds - 1) \<le> unat q" using d(4) by simp
      then have "10 * 10 ^ (length ds - 1) \<le> unat n" using Q(1) by simp
      moreover have "10 * 10 ^ (length ds - 1) = (10 :: nat) ^ length ds" using l by (cases "length ds") simp_all
      ultimately show ?thesis by simp
    qed
    moreover have "fmtBase10_16 s n str = (ds @ [r + 0x30]) @ str"
      using d(1) True q by (subst fmtBase10_16.simps) simp
    ultimately show ?thesis by blast
  next
    case False
    then have n: "unat n < 10" by (simp add: word_less_nat_alt not_less word_le_nat_alt)
    then have u: "unat (ucast n :: byte) = unat n" by (simp add: unat_ucast_down)
    have "decimal_text (unat n) [ucast n + 0x30]" using decimal_text_digit [of "ucast n"] n u by simp
    moreover have "fmtBase10_16 s n str = [ucast n + 0x30] @ str" using False by (subst fmtBase10_16.simps) simp
    ultimately show ?thesis using n by fastforce
  qed
qed

lemma fmtBase10_32_text:
  "\<exists>ds. fmtBase10_32 s n str = ds @ str \<and> decimal_text (unat n) ds \<and> 10 ^ (length ds - 1) \<le> max 1 (unat n)"
proof (induction s n str rule: fmtBase10_32.induct)
  case (1 s n str)
  show ?case
  proof (cases "n > 0xFFFF")
    case True
    obtain q r where q: "divmod10_asm32 n s = (q, r)" by fastforce
    note Q = divmod10_asm32_nat [OF q]
    from "1.IH" [OF True q [symmetric] refl] obtain ds where d: "fmtBase10_32 s q ((r + 0x30) # str) = ds @ (r + 0x30) # str"
      "decimal_text (unat q) ds" "10 ^ (length ds - 1) \<le> max 1 (unat q)" by auto
    have n: "9 < unat n" using True by (simp add: word_less_nat_alt)
    have l: "length ds \<noteq> 0" using d(2) by (simp add: decimal_text_def)
    have "decimal_text (unat n) (ds @ [r + 0x30])" using decimal_text_more [of "unat n" ds r] d(2) Q n by simp
    moreover have "10 ^ (length (ds @ [r + 0x30]) - 1) \<le> max 1 (unat n)"
    proof -
      have "1 \<le> unat q" using n Q(1) by simp
      then have "10 ^ (length ds - 1) \<le> unat q" using d(3) by simp
      then have "10 * 10 ^ (length ds - 1) \<le> unat n" using Q(1) by simp
      moreover have "10 * 10 ^ (length ds - 1) = (10 :: nat) ^ length ds" using l by (cases "length ds") simp_all
      ultimately show ?thesis by simp
    qed
    moreover have "fmtBase10_32 s n str = (ds @ [r + 0x30]) @ str"
      using d(1) True q by (subst fmtBase10_32.simps) simp
    ultimately show ?thesis by blast
  next
    case False
    then have "unat (ucast n :: 16 word) = unat n" by (simp add: unat_ucast_down word_less_nat_alt not_less word_le_nat_alt)
    then show ?thesis using False fmtBase10_16_text [of s "ucast n" str] by (subst fmtBase10_32.simps) auto
  qed
qed

lemma text_length:
  fixes n k :: nat
  assumes "10 ^ (length ds - 1) \<le> max 1 n" "n < 10 ^ k" "0 < k"
  shows "length ds \<le> k"
proof (rule ccontr)
  assume "\<not> length ds \<le> k"
  then have "(10 :: nat) ^ k \<le> 10 ^ (length ds - 1)" by (intro power_increasing) simp_all
  also have "\<dots> \<le> max 1 n" by (rule assms(1))
  also have "\<dots> < 10 ^ k" using assms(2,3) one_less_power [of "10 :: nat" k] by simp
  finally show False by simp
qed

lemma fmt_base10_decimal:
  "\<exists>ds. fmtBase10_32 s n str = ds @ str \<and> decimal_text (unat n) ds \<and> length ds \<le> 10"
  "\<exists>ds. fmtBase10_16 s m str = ds @ str \<and> decimal_text (unat m) ds \<and> length ds \<le> 5"
proof -
  obtain ds where d: "fmtBase10_32 s n str = ds @ str" "decimal_text (unat n) ds" "10 ^ (length ds - 1) \<le> max 1 (unat n)"
    using fmtBase10_32_text by blast
  have "unat n < 10 ^ 10" using unat_bound [of n] by simp
  then show "\<exists>ds. fmtBase10_32 s n str = ds @ str \<and> decimal_text (unat n) ds \<and> length ds \<le> 10"
    using d text_length [OF d(3), of 10] by auto
  obtain ds where d: "fmtBase10_16 s m str = ds @ str" "decimal_text (unat m) ds" "10 ^ (length ds - 1) \<le> max 1 (unat m)"
    using fmtBase10_16_text by blast
  have "unat m < 10 ^ 5" using unat_bound [of m] by simp
  then show "\<exists>ds. fmtBase10_16 s m str = ds @ str \<and> decimal_text (unat m) ds \<and> length ds \<le> 5"
    using d text_length [OF d(3), of 5] by auto
qed

theorem fmt_base10_prints_decimal:
  "(\<exists>ds. fmtBase10_32 s n str = ds @ str \<and> decimal_text (unat n) ds \<and> length ds \<le> 10) \<and>
   (\<exists>ds. fmtBase10_16 s m str = ds @ str \<and> decimal_text (unat m) ds \<and> length ds \<le> 5)"
  by (intro conjI fmt_base10_decimal)

text \<open>Any base with digits.\<close>

lemma base_digit:
  assumes "unat c < 36"
  shows "digit_value (c + (if c < 10 then 0x30 else if caps then 0x41 - 10 else 0x61 - 10)) = unat c"
proof -
  have c: "\<forall>k \<in> set [0..<36]. \<forall>caps \<in> {True, False}.
      digit_value (word_of_nat k + (if (word_of_nat k :: byte) < 10 then 0x30 else if caps then 0x41 - 10 else 0x61 - 10)) = k"
    by code_simp
  have "unat c \<in> set [0..<36]" using assms by simp
  from bspec [OF bspec [OF c this], of caps] show ?thesis by simp
qed

lemma fmt_digits_text:
  assumes "1 < base" "base \<le> 36"
  shows "\<exists>ds. fmt_digits num base caps str = Some (ds @ str) \<and> ds \<noteq> [] \<and> digits_value (unat base) ds = unat num"
  using assms
proof (induction "unat num" arbitrary: num str rule: less_induct)
  case less
  let ?b = "ucast base :: 32 word"
  let ?c = "ucast (num mod ?b) :: byte"
  let ?d = "?c + (if ?c < 10 then 0x30 else if caps then 0x41 - 10 else 0x61 - 10)"
  have b: "unat ?b = unat base" "1 < unat base" "unat base \<le> 36"
    using less.prems by (simp_all add: unat_ucast_up word_less_nat_alt word_le_nat_alt)
  have m: "unat num mod unat base < 36" using b by (intro less_le_trans [OF mod_less_divisor]) simp_all
  then have c: "unat ?c = unat num mod unat base" by (simp add: unat_ucast_down unat_mod b(1))
  have v: "digit_value ?d = unat num mod unat base" using base_digit [of ?c caps] m c by simp
  have q: "unat (num div ?b) = unat num div unat base" by (simp add: unat_div b(1))
  show ?case
  proof (cases "num div ?b = 0")
    case True
    then have "unat num div unat base = 0" using q by (simp add: unat_eq_zero)
    then have "digits_value (unat base) [?d] = unat num" using v mult_div_mod_eq [of "unat base" "unat num"]
      by (simp add: digits_value_def)
    moreover have "fmt_digits num base caps str = Some ([?d] @ str)" using True by (subst fmt_digits.simps) simp
    ultimately show ?thesis by blast
  next
    case False
    then have "unat num div unat base \<noteq> 0" using q by (metis unat_eq_zero)
    then have "unat num \<noteq> 0" by (intro notI) simp
    then have "unat (num div ?b) < unat num" using b(2) by (simp add: q)
    from less.hyps [OF this less.prems] obtain ds where
      d: "fmt_digits (num div ?b) base caps (?d # str) = Some (ds @ ?d # str)" "digits_value (unat base) ds = unat num div unat base"
      using q by metis
    have "digits_value (unat base) (ds @ [?d]) = unat num" unfolding digits_value_append d(2) v by simp
    moreover have "fmt_digits num base caps str = Some ((ds @ [?d]) @ str)" using False d(1) by (subst fmt_digits.simps) simp
    ultimately show ?thesis by blast
  qed
qed

lemma fmt_digits_base_one:
  assumes "fmt_digits num base caps str = Some y"
  shows "base = 1 \<longrightarrow> num = 0"
proof (rule fmt_digits.raw_induct [of "\<lambda>num base caps str y. base = 1 \<longrightarrow> num = 0", OF _ assms])
  fix f :: "32 word \<Rightarrow> byte \<Rightarrow> bool \<Rightarrow> byte list \<Rightarrow> byte list option" and num base caps str y
  assume "\<And>num base caps str y. f num base caps str = Some y \<Longrightarrow> base = 1 \<longrightarrow> num = 0"
    "(let c = ucast (num mod ucast base) :: byte;
          str = (c + (if c < 10 then 0x30 else if caps then 0x41 - 10 else 0x61 - 10)) # str;
          num = num div ucast base
      in if num \<noteq> 0 then f num base caps str else Some str) = Some y"
  then show "base = 1 \<longrightarrow> num = 0" by (auto simp: Let_def split: if_split_asm)
qed

theorem fmt_unsigned_returns:
  assumes "base \<le> 36"
  shows "(\<exists>ds. fmtUnsigned s num base caps str = Some (ds @ str) \<and> ds \<noteq> [] \<and> digits_value (unat base) ds = unat num) \<longleftrightarrow>
    1 < base \<or> base = 1 \<and> num = 0"
proof -
  consider "base = 0" | "base = 1" | "1 < base" "base \<noteq> 10" | "base = 10"
  proof -
    have "1 < base" if "base \<noteq> 0" "base \<noteq> 1"
    proof -
      have "unat base \<noteq> 0" using that(1) by (simp add: unat_eq_zero)
      moreover have "unat base \<noteq> 1" using that(2) word_unat_eqI [of base 1] by auto
      ultimately show ?thesis by (simp add: word_less_nat_alt)
    qed
    then show thesis using that by blast
  qed
  then show ?thesis
  proof cases
    case 1
    then show ?thesis by (simp add: fmtUnsigned_def)
  next
    case 2
    have "fmt_digits 0 1 caps str = Some ([0x30] @ str)" by (subst fmt_digits.simps) simp
    then show ?thesis using 2 fmt_digits_base_one [of num 1 caps str]
      by (cases "num = 0") (auto simp: fmtUnsigned_def digits_value_def digit_value_def)
  next
    case 3
    then show ?thesis using fmt_digits_text [of base num caps str] assms by (auto simp: fmtUnsigned_def)
  next
    case 4
    then show ?thesis using fmtBase10_32_text [of s num str] by (auto simp: fmtUnsigned_def decimal_text_def)
  qed
qed

lemma fmt_unsigned_returns_witness:
  "\<exists>ds. fmtUnsigned (\<lambda>_. 0, False) 255 16 True [] = Some ds \<and> digits_value 16 ds = 255"
  using fmt_unsigned_returns [of 16 "(\<lambda>_. 0, False)" 255 True "[]"] by auto

section \<open>Fields\<close>

text \<open>
  \<open>printField\<close> of \<open>FatFile\<close> and \<open>RingBuf\<close>, for an integer type of \<open>w\<close> bytes (1, 2, 4 or 8): the text that it passes to
  \<open>write\<close>. \<open>None\<close>: it writes before its buffer of \<open>3 * w + 3\<close> bytes, or negates the smallest number of a type that is at least
  as wide as \<open>int\<close>. A \<open>value\<close> of one byte is negated as \<open>int\<close> and stored back.
\<close>

definition printField :: "avr \<Rightarrow> nat \<Rightarrow> int \<Rightarrow> byte \<Rightarrow> byte list option" where
  "printField s w value term =
     (let str = (if term = 0 then [] else if term = 0x0A then [0x0D, 0x0A] else [term]);
          neg = (value < 0);
          value' = (if neg then signed_take_bit (8 * w - 1) (- value) else value)
      in if neg \<and> 2 \<le> w \<and> value = - (2 ^ (8 * w - 1)) then None
         else let str = (if w < 4 then fmtBase10_16 s (word_of_int value') str else fmtBase10_32 s (word_of_int value') str);
                  str = (if neg then 0x2D # str else str)
              in if length str \<le> 3 * w + 3 then Some str else None)"

definition terminator :: "byte \<Rightarrow> byte list" where
  "terminator term = (if term = 0 then [] else if term = 0x0A then [0x0D, 0x0A] else [term])"

lemma terminator_length: "length (terminator term) \<le> 2"
  by (simp add: terminator_def)

text \<open>The digits of a field, with the width of the conversion that is used.\<close>

lemma field_digits:
  assumes "0 \<le> v" "v < 2 ^ (if w < 4 then 16 else 32)" "v < 10 ^ k" "0 < k"
  shows "\<exists>ds. (if w < 4 then fmtBase10_16 s (word_of_int v) str else fmtBase10_32 s (word_of_int v) str) = ds @ str \<and>
    decimal_text (nat v) ds \<and> length ds \<le> k"
proof -
  have k: "nat v < 10 ^ k" using assms(1,3) by (simp add: nat_less_iff)
  show ?thesis
  proof (cases "w < 4")
    case True
    have u: "unat (word_of_int v :: 16 word) = nat v" using assms(1,2) True by (simp add: unsigned_of_int take_bit_int_eq_self)
    then show ?thesis using fmtBase10_16_text [of s "word_of_int v" str] True k assms(4) text_length by fastforce
  next
    case False
    have u: "unat (word_of_int v :: 32 word) = nat v" using assms(1,2) False by (simp add: unsigned_of_int take_bit_int_eq_self)
    then show ?thesis using fmtBase10_32_text [of s "word_of_int v" str] False k assms(4) text_length by fastforce
  qed
qed

theorem print_field_text:
  assumes "w \<in> {1, 2, 4}" "- (2 ^ (8 * w - 1)) < value" "value < 2 ^ (8 * w)"
  shows "\<exists>ds. printField s w value term = Some ((if value < 0 then [0x2D] else []) @ ds @ terminator term) \<and> decimal_text (nat \<bar>value\<bar>) ds"
proof -
  let ?v = "\<bar>value\<bar>"
  have n: "signed_take_bit (8 * w - 1) (- value) = - value" if "value < 0"
    using that assms(2) by (intro signed_take_bit_int_eq_self) auto
  obtain k where k: "?v < 10 ^ k" "0 < k" "k + of_bool (value < 0) + 2 \<le> 3 * w + 3" "?v < 2 ^ (if w < 4 then 16 else 32)"
  proof -
    have "w = 1 \<or> w = 2 \<or> w = 4" using assms(1) by simp
    then show thesis
    proof (elim disjE)
      assume "w = 1" then show thesis using assms that [of 3] by (simp add: abs_if split: if_splits)
    next
      assume "w = 2" then show thesis using assms that [of 5] by (simp add: abs_if split: if_splits)
    next
      assume "w = 4" then show thesis using assms that [of 10] by (simp add: abs_if split: if_splits)
    qed
  qed
  obtain ds where d: "(if w < 4 then fmtBase10_16 s (word_of_int ?v) (terminator term) else fmtBase10_32 s (word_of_int ?v) (terminator term)) =
      ds @ terminator term" "decimal_text (nat ?v) ds" "length ds \<le> k"
    using field_digits [of ?v w k s "terminator term"] k by auto
  have v: "(if value < 0 then signed_take_bit (8 * w - 1) (- value) else value) = ?v" using n by simp
  have l: "length ((if value < 0 then [0x2D] else []) @ ds @ terminator term) \<le> 3 * w + 3"
    using k(3) d(3) terminator_length [of "term"] by (cases "value < 0") simp_all
  have "printField s w value term = Some ((if value < 0 then [0x2D] else []) @ ds @ terminator term)"
    using assms(2) l d(1) v unfolding printField_def Let_def terminator_def [symmetric] by auto
  then show ?thesis using d(2) by blast
qed

lemma print_field_text_witness:
  "\<exists>ds. printField (\<lambda>_. 0, False) 2 (- 32767) 0x0A = Some (0x2D # ds @ [0x0D, 0x0A]) \<and> decimal_text 32767 ds"
  using print_field_text [of 2 "- 32767" "(\<lambda>_. 0, False)" "0x0A"] by (simp add: terminator_def)

lemma fmt_65408: "fmtBase10_16 s 65408 str = [0x36, 0x35, 0x34, 0x30, 0x38] @ str"
  by (simp add: fmtBase10_16.simps divmod10_asm16_word)

theorem print_field_smallest_byte:
  "printField s 1 (- 128) term = (if term = 0 then Some [0x2D, 0x36, 0x35, 0x34, 0x30, 0x38] else None)"
proof -
  have "signed_take_bit 7 128 = (- 128 :: int)" by (simp add: signed_take_bit_int_eq_self_iff signed_take_bit_def concat_bit_def mask_eq_exp_minus_1 not_int_def)
  moreover have "(- 128 :: 16 word) = 65408" by simp
  then have "fmtBase10_16 s (- 128) str = [0x36, 0x35, 0x34, 0x30, 0x38] @ str" for str by (simp only: fmt_65408)
  ultimately show ?thesis by (simp add: printField_def Let_def)
qed

end
