(* ===== verification/DateTime.thy ===== *)
theory DateTime
  imports FmtNumber FatFile
begin

text \<open>
  Dates and times of directory entries (\<open>lib/SdFat/src/common/FsDateTime.h\<close>, \<open>FsDateTime.cpp\<close>): their text. The
  packed fields themselves (\<open>FS_DATE\<close> and so on) are in \<open>FatFile\<close>. As in \<open>FmtNumber\<close> a string grows to the front; \<open>None\<close> is a text that does not fit the buffer of its function.
\<close>

section \<open>Text\<close>

definition fsFmtField :: "avr \<Rightarrow> byte list \<Rightarrow> 16 word \<Rightarrow> byte \<Rightarrow> byte list" where
  "fsFmtField s str n sep =
     (let str = (if sep \<noteq> 0 then sep # str else str);
          str = fmtBase10_16 s n str
      in if n < 10 then 0x30 # str else str)"

definition fsFmtDate :: "avr \<Rightarrow> byte list \<Rightarrow> 16 word \<Rightarrow> byte list" where
  "fsFmtDate s str date =
     (let str = fsFmtField s str (date AND 31) 0;
          date = drop_bit 5 date;
          str = fsFmtField s str (date AND 15) 0x2D;
          date = drop_bit 4 date
      in fsFmtField s str (1980 + date) 0x2D)"

definition fsFmtTime :: "avr \<Rightarrow> byte list \<Rightarrow> 16 word \<Rightarrow> byte list" where
  "fsFmtTime s str time =
     (let time = drop_bit 5 time;
          str = fsFmtField s str (time AND 63) 0
      in fsFmtField s str (drop_bit 6 time) 0x3A)"

definition fsFmtTime_sec :: "avr \<Rightarrow> byte list \<Rightarrow> 16 word \<Rightarrow> byte \<Rightarrow> byte list" where
  "fsFmtTime_sec s str time sec100 =
     (let str = fsFmtField s str (2 * (time AND 31) + (if sec100 < 100 then 0 else 1)) 0
      in fsFmtTime s (0x3A # str) time)"

text \<open>A time zone: a number of quarters of an hour in seven bits with a sign, and a bit that says it is there.\<close>

definition fsFmtTimeZone :: "avr \<Rightarrow> byte list \<Rightarrow> byte \<Rightarrow> byte list" where
  "fsFmtTimeZone s str tz =
     (if tz AND 0x80 \<noteq> 0 then
        let (sign, tz) = (if tz AND 0x40 \<noteq> 0 then (0x2D, - tz) else (0x2B, tz AND 0x7F));
            str = (if tz \<noteq> 0 then sign # fsFmtField s (fsFmtField s str (15 * (ucast tz mod 4)) 0) (ucast tz div 4) 0x3A else str)
        in 0x55 # 0x54 # 0x43 # str
      else str)"

text \<open>The functions that print: the bytes given to \<open>write\<close>.\<close>

definition in_buffer :: "nat \<Rightarrow> byte list \<Rightarrow> byte list option" where
  "in_buffer n str = (if length str \<le> n then Some str else None)"

definition fsPrintDate :: "avr \<Rightarrow> 16 word \<Rightarrow> byte list option" where
  "fsPrintDate s date = in_buffer 10 (if date \<noteq> 0 then fsFmtDate s [] date else replicate 10 0x20)"

definition fsPrintDateTime :: "avr \<Rightarrow> 16 word \<Rightarrow> 16 word \<Rightarrow> byte list option" where
  "fsPrintDateTime s date time =
     in_buffer 16 (if date \<noteq> 0 then fsFmtDate s (0x20 # fsFmtTime s [] time) date else replicate 16 0x20)"

definition fsPrintDateTime_packed :: "avr \<Rightarrow> 32 word \<Rightarrow> byte list option" where
  "fsPrintDateTime_packed s dateTime = fsPrintDateTime s (ucast (drop_bit 16 dateTime)) (ucast (dateTime AND 0xFFFF))"

definition fsPrintDateTime_zone :: "avr \<Rightarrow> 32 word \<Rightarrow> byte \<Rightarrow> byte \<Rightarrow> byte list option" where
  "fsPrintDateTime_zone s dateTime s100 tz =
     (let str = (if tz \<noteq> 0 then 0x20 # fsFmtTimeZone s [] tz else []);
          str = fsFmtTime_sec s str (ucast dateTime) s100
      in in_buffer 29 (fsFmtDate s (0x20 # str) (ucast (drop_bit 16 dateTime))))"

definition fsPrintTime :: "avr \<Rightarrow> 16 word \<Rightarrow> byte list option" where
  "fsPrintTime s time = in_buffer 5 (fsFmtTime s [] time)"

definition fsPrintTime_sec :: "avr \<Rightarrow> 16 word \<Rightarrow> byte \<Rightarrow> byte list option" where
  "fsPrintTime_sec s time sec100 = in_buffer 8 (fsFmtTime_sec s [] time sec100)"

definition fsPrintTimeZone :: "avr \<Rightarrow> byte \<Rightarrow> byte list option" where
  "fsPrintTimeZone s tz = in_buffer 9 (fsFmtTimeZone s [] tz)"

section \<open>Fields come back\<close>

lemma unat_fields:
  "unat (FS_DAY d) = unat d mod 32" "unat (FS_MONTH d) = unat d div 32 mod 16" "unat (FS_YEAR d) = 1980 + unat d div 512"
  "unat (FS_HOUR d) = unat d div 2048" "unat (FS_MINUTE d) = unat d div 32 mod 64" "unat (FS_SECOND d) = 2 * (unat d mod 32)"
proof -
  have m: "unat (w AND 0x1F) = unat w mod 32" "unat (w AND 0xF) = unat w mod 16" "unat (w AND 0x3F) = unat w mod 64" for w :: "16 word"
    unfolding and_masks unsigned_take_bit_eq by (simp_all add: take_bit_eq_mod)
  have d: "unat d < 65536" using unat_bound [of d] by simp
  then have b: "unat d div 512 < 128" "unat d div 2048 < 32" by (simp_all add: less_mult_imp_div_less)
  show "unat (FS_DAY d) = unat d mod 32" unfolding FS_DAY_def by (subst unat_ucast_down) (simp_all add: m less_trans [OF mod_less_divisor])
  have byte_mask: "ucast (drop_bit 5 d) AND (0xF :: byte) = ucast (drop_bit 5 d AND 0xF)"
    "ucast (drop_bit 5 d) AND (0x3F :: byte) = ucast (drop_bit 5 d AND 0x3F)"
    by (rule bit_word_eqI, simp add: bit_simps)+
  show "unat (FS_MONTH d) = unat d div 32 mod 16"
    unfolding FS_MONTH_def byte_mask by (subst unat_ucast_down) (simp_all add: m unat_drop less_trans [OF mod_less_divisor])
  show "unat (FS_MINUTE d) = unat d div 32 mod 64"
    unfolding FS_MINUTE_def byte_mask by (subst unat_ucast_down) (simp_all add: m unat_drop less_trans [OF mod_less_divisor])
  show "unat (FS_YEAR d) = 1980 + unat d div 512"
    unfolding FS_YEAR_def using b(1) by (subst unat_plus_small) (simp_all add: unat_drop)
  show "unat (FS_HOUR d) = unat d div 2048" unfolding FS_HOUR_def using b(2) by (subst unat_ucast_down) (simp_all add: unat_drop)
  have "unat (ucast (d AND 0x1F) :: byte) = unat d mod 32"
    by (subst unat_ucast_down) (simp_all add: m less_trans [OF mod_less_divisor])
  then have "unat (2 * ucast (d AND 0x1F) :: byte) = 2 * (unat d mod 32)"
    by (simp add: unat_word_ariths)
  then show "unat (FS_SECOND d) = 2 * (unat d mod 32)" unfolding FS_SECOND_def .
qed

lemma three_fields:
  fixes y m d :: "16 word"
  assumes "unat y < 2 ^ (16 - i - j)" "unat m < 2 ^ i" "unat d < 2 ^ j" "0 < i" "i + j < 16"
  shows "unat (push_bit (i + j) y OR push_bit j m OR d) = 2 ^ (i + j) * unat y + 2 ^ j * unat m + unat d"
proof -
  have md: "2 ^ j * unat m + unat d < 2 ^ (i + j)"
  proof -
    have "2 ^ j * (unat m + 1) \<le> 2 ^ j * 2 ^ i" using assms(2) by (intro mult_le_mono) simp_all
    then show ?thesis using assms(3) by (simp add: power_add ac_simps)
  qed
  have "(2 :: nat) ^ (i + j) \<le> 2 ^ 16" using assms(5) by (intro power_increasing) simp_all
  then have "2 ^ j * unat m < 2 ^ LENGTH(16)" using md by simp
  then have m: "unat (push_bit j m OR d) = 2 ^ j * unat m + unat d" using assms(3,5) by (intro join_bits) simp_all
  have "2 ^ (i + j) * unat y < 2 ^ (i + j) * 2 ^ (16 - i - j)" using assms(1) by simp
  also have "\<dots> = (2 :: nat) ^ 16" using assms(5) by (simp flip: power_add)
  finally have "2 ^ (i + j) * unat y < 2 ^ LENGTH(16)" by simp
  then have "unat (push_bit (i + j) y OR (push_bit j m OR d)) = 2 ^ (i + j) * unat y + unat (push_bit j m OR d)"
    using md m assms(5) by (intro join_bits) simp_all
  then show ?thesis using m by (simp add: or.assoc)
qed

lemma FS_DATE_nat:
  assumes "1980 \<le> year" "year \<le> 2107" "month \<le> 12" "day \<le> 31"
  shows "unat (FS_DATE year month day) = 512 * (unat year - 1980) + 32 * unat month + unat day"
proof -
  have b: "1980 \<le> unat year" "unat year \<le> 2107" "unat month \<le> 12" "unat day \<le> 31" using assms by (simp_all add: word_le_nat_alt)
  have y: "unat (year - 1980) = unat year - 1980" using assms(1) by (simp add: unat_sub)
  then have "\<not> year - 1980 > 127" using b by (simp add: word_less_nat_alt)
  then have "FS_DATE year month day = push_bit (4 + 5) (year - 1980) OR push_bit 5 (ucast month) OR ucast day"
    using assms(3,4) by (auto simp: FS_DATE_def Let_def not_less)
  also have "unat \<dots> = 2 ^ (4 + 5) * unat (year - 1980) + 2 ^ 5 * unat (ucast month :: 16 word) + unat (ucast day :: 16 word)"
    using b y by (intro three_fields) (simp_all add: unat_ucast_up)
  finally show ?thesis using y by (simp add: unat_ucast_up)
qed

lemma FS_TIME_nat:
  assumes "hour \<le> 23" "minute \<le> 59" "second \<le> 59"
  shows "unat (FS_TIME hour minute second) = 2048 * unat hour + 32 * unat minute + unat second div 2"
proof -
  have b: "unat hour \<le> 23" "unat minute \<le> 59" "unat second \<le> 59" using assms by (simp_all add: word_le_nat_alt)
  have d: "unat (ucast (drop_bit 1 second) :: 16 word) = unat second div 2"
  proof -
    have "unat (ucast (drop_bit 1 second) :: 16 word) = unat (drop_bit 1 second)" by (rule unat_ucast_up) simp
    then show ?thesis unfolding unat_drop by simp
  qed
  have "drop_bit 1 (ucast second) = (ucast (drop_bit 1 second) :: 16 word)" by (rule bit_word_eqI) (auto simp: bit_simps dest: bit_imp_le_length)
  then have "FS_TIME hour minute second = push_bit (6 + 5) (ucast hour) OR push_bit 5 (ucast minute) OR ucast (drop_bit 1 second)"
    using assms by (auto simp: FS_TIME_def not_less)
  also have "unat \<dots> = 2 ^ (6 + 5) * unat (ucast hour :: 16 word) + 2 ^ 5 * unat (ucast minute :: 16 word) + unat (ucast (drop_bit 1 second) :: 16 word)"
    using b d by (intro three_fields) (simp_all add: unat_ucast_up)
  finally show ?thesis using d by (simp add: unat_ucast_up)
qed

lemma packed_fields:
  fixes a y m d :: nat
  assumes "m < a" "d < 32"
  shows "(32 * a * y + 32 * m + d) mod 32 = d" "(32 * a * y + 32 * m + d) div 32 mod a = m" "(32 * a * y + 32 * m + d) div (32 * a) = y"
proof -
  have e: "32 * a * y + 32 * m + d = d + (m + y * a) * 32" by (simp add: algebra_simps)
  show "(32 * a * y + 32 * m + d) mod 32 = d" using assms(2) by (simp only: e mod_mult_self1 mod_less)
  have q: "(32 * a * y + 32 * m + d) div 32 = m + y * a" using assms(2) by (simp only: e) simp
  then show "(32 * a * y + 32 * m + d) div 32 mod a = m" using assms(1) by simp
  show "(32 * a * y + 32 * m + d) div (32 * a) = y" unfolding div_mult2_eq q using assms(1) by simp
qed

theorem date_time_roundtrip:
  assumes "1980 \<le> year" "year \<le> 2107" "month \<le> 12" "day \<le> 31" "hour \<le> 23" "minute \<le> 59" "second \<le> 59"
  shows "FS_YEAR (FS_DATE year month day) = year \<and> FS_MONTH (FS_DATE year month day) = month \<and> FS_DAY (FS_DATE year month day) = day \<and>
    FS_HOUR (FS_TIME hour minute second) = hour \<and> FS_MINUTE (FS_TIME hour minute second) = minute \<and>
    FS_SECOND (FS_TIME hour minute second) = second - second mod 2"
proof -
  have b: "1980 \<le> unat year" "unat month \<le> 12" "unat day \<le> 31" "unat minute \<le> 59" "unat second \<le> 59"
    using assms by (simp_all add: word_le_nat_alt)
  note D = FS_DATE_nat [OF assms(1-4)]
  note T = FS_TIME_nat [OF assms(5-7)]
  note split = packed_fields [where a = 16, simplified] packed_fields [where a = 64, simplified]
  have s: "unat (second - second mod 2) = 2 * (unat second div 2)"
  proof -
    have "second mod 2 \<le> second" by (simp add: word_le_nat_alt unat_mod)
    then have "unat (second - second mod 2) = unat second - unat second mod 2" by (simp only: unat_sub unat_mod) simp
    then show ?thesis by (simp only: minus_mod_eq_mult_div)
  qed
  show ?thesis
    by (intro conjI word_unat_eqI; unfold unat_fields D T s) (use b in \<open>simp_all add: split\<close>)
qed

lemma date_time_roundtrip_witness:
  "FS_DATE 2024 2 29 \<noteq> 0 \<and> FS_YEAR (FS_DATE 2024 2 29) = 2024 \<and> FS_SECOND (FS_TIME 23 59 59) = 58"
proof -
  have "FS_DATE 2024 2 29 \<noteq> 0" by code_simp
  then show ?thesis using date_time_roundtrip [of 2024 2 29 23 59 59] by simp
qed

section \<open>The text of the fields\<close>

definition two_digits :: "nat \<Rightarrow> byte list" where
  "two_digits n = [word_of_nat (n div 10 + 48), word_of_nat (n mod 10 + 48)]"

definition four_digits :: "nat \<Rightarrow> byte list" where
  "four_digits n = two_digits (n div 100) @ two_digits (n mod 100)"

lemma fmtBase10_16_step:
  assumes "k < 65536"
  shows "fmtBase10_16 s (word_of_nat k) str =
    (if 9 < k then fmtBase10_16 s (word_of_nat (k div 10)) (word_of_nat (k mod 10 + 48) # str) else word_of_nat (k + 48) # str)"
proof -
  have u: "unat (word_of_nat k :: 16 word) = k" using assms by (simp add: unat_of_nat_small)
  have "word_of_nat (k mod 10) + 0x30 = (word_of_nat (k mod 10 + 48) :: byte)" by simp
  moreover have "9 < (word_of_nat k :: 16 word) \<longleftrightarrow> 9 < k" using u by (simp add: word_less_nat_alt)
  moreover have "ucast (word_of_nat k :: 16 word) + 0x30 = (word_of_nat (k + 48) :: byte)" if "\<not> 9 < k"
  proof -
    have "ucast (word_of_nat k :: 16 word) = (word_of_nat k :: byte)" using that u by (intro word_unat_eqI) (simp add: unat_ucast_down unat_of_nat_small)
    then show ?thesis by simp
  qed
  ultimately show ?thesis by (subst fmtBase10_16.simps) (simp add: divmod10_asm16_word u)
qed

lemma field_two:
  assumes "n < 100"
  shows "fsFmtField s str (word_of_nat n) sep = two_digits n @ (if sep \<noteq> 0 then sep # str else str)"
proof -
  have "(word_of_nat n :: 16 word) < 10 \<longleftrightarrow> n < 10" using assms by (simp add: word_less_nat_alt unat_of_nat_small)
  moreover have "n div 10 \<le> 9" using assms by simp
  ultimately show ?thesis using assms by (simp add: fsFmtField_def fmtBase10_16_step two_digits_def)
qed

lemma field_four:
  assumes "1000 \<le> n" "n < 10000"
  shows "fsFmtField s str (word_of_nat n) sep = four_digits n @ (if sep \<noteq> 0 then sep # str else str)"
proof -
  have "\<not> (word_of_nat n :: 16 word) < 10" using assms by (simp add: word_less_nat_alt unat_of_nat_small)
  moreover have "100 \<le> n div 10" "10 \<le> n div 100" "n div 1000 \<le> 9" "n div 10 < 65536" "n div 100 < 65536" using assms by simp_all
  moreover have "n div 10 div 10 = n div 100" "n div 100 div 10 = n div 1000" by (simp_all flip: div_mult2_eq)
  moreover have "n mod 100 = 10 * (n div 10 mod 10) + n mod 10" using mod_mult2_eq [of n 10 10] by simp
  then have "n mod 100 div 10 = n div 10 mod 10" "n mod 100 mod 10 = n mod 10" by simp_all
  ultimately show ?thesis using assms by (simp add: fsFmtField_def fmtBase10_16_step two_digits_def four_digits_def)
qed

definition date_text :: "16 word \<Rightarrow> byte list" where
  "date_text d = four_digits (unat (FS_YEAR d)) @ [0x2D] @ two_digits (unat (FS_MONTH d)) @ [0x2D] @ two_digits (unat (FS_DAY d))"

definition time_text :: "16 word \<Rightarrow> byte list" where
  "time_text t = two_digits (unat (FS_HOUR t)) @ [0x3A] @ two_digits (unat (FS_MINUTE t))"

definition zone_quarters :: "byte \<Rightarrow> int" where "zone_quarters tz = signed_take_bit 6 (uint tz)"

definition zone_text :: "byte \<Rightarrow> byte list" where
  "zone_text tz =
     (let q = zone_quarters tz; k = nat \<bar>q\<bar>
      in if bit tz 7 then [0x55, 0x54, 0x43] @
           (if q = 0 then [] else [if q < 0 then 0x2D else 0x2B] @ two_digits (k div 4) @ [0x3A] @ two_digits (15 * (k mod 4)))
         else [])"

lemma digits_length [simp]: "length (two_digits n) = 2" "length (four_digits n) = 4"
  by (simp_all add: two_digits_def four_digits_def)

lemma fmt_date: "fsFmtDate s str date = date_text date @ str"
proof -
  have w: "date AND 31 = word_of_nat (unat (FS_DAY date))" "drop_bit 5 date AND 15 = word_of_nat (unat (FS_MONTH date))"
    "1980 + drop_bit 4 (drop_bit 5 date) = word_of_nat (unat (FS_YEAR date))"
  proof -
    have m: "unat (w AND 31) = unat w mod 32" "unat (w AND 15) = unat w mod 16" for w :: "16 word"
      unfolding and_masks unsigned_take_bit_eq by (simp_all add: take_bit_eq_mod)
    show "date AND 31 = word_of_nat (unat (FS_DAY date))"
      unfolding unat_fields by (rule word_unat_eqI) (simp add: m unat_of_nat_small less_trans [OF mod_less_divisor])
    show "drop_bit 5 date AND 15 = word_of_nat (unat (FS_MONTH date))"
      unfolding unat_fields by (rule word_unat_eqI) (simp add: m unat_drop unat_of_nat_small less_trans [OF mod_less_divisor])
    show "1980 + drop_bit 4 (drop_bit 5 date) = word_of_nat (unat (FS_YEAR date))"
      by (simp add: FS_YEAR_def)
  qed
  have d: "unat date div 512 < 128" using unat_bound [of date] by (simp add: less_mult_imp_div_less)
  have "unat (FS_DAY date) < 100" "unat (FS_MONTH date) < 100" "1000 \<le> unat (FS_YEAR date)" "unat (FS_YEAR date) < 10000"
    using d unfolding unat_fields by (simp_all add: less_trans [OF mod_less_divisor])
  then show ?thesis unfolding fsFmtDate_def Let_def w date_text_def by (simp only: field_two field_four) simp
qed

lemma fmt_time: "fsFmtTime s str time = time_text time @ str"
proof -
  have w: "drop_bit 5 time AND 63 = word_of_nat (unat (FS_MINUTE time))" "drop_bit 6 (drop_bit 5 time) = word_of_nat (unat (FS_HOUR time))"
  proof -
    have m: "unat (w AND 63) = unat w mod 64" for w :: "16 word"
      unfolding and_masks unsigned_take_bit_eq by (simp_all add: take_bit_eq_mod)
    show "drop_bit 5 time AND 63 = word_of_nat (unat (FS_MINUTE time))"
      unfolding unat_fields by (rule word_unat_eqI) (simp add: m unat_drop unat_of_nat_small less_trans [OF mod_less_divisor])
    have "unat time div 2048 < 65536" using unat_bound [of time] by (simp add: less_mult_imp_div_less)
    then show "drop_bit 6 (drop_bit 5 time) = word_of_nat (unat (FS_HOUR time))"
      unfolding unat_fields by (intro word_unat_eqI) (simp add: unat_drop unat_of_nat_small)
  qed
  have "unat time div 2048 < 32" using unat_bound [of time] by (simp add: less_mult_imp_div_less)
  then have "unat (FS_MINUTE time) < 100" "unat (FS_HOUR time) < 100"
    unfolding unat_fields by (simp_all add: less_trans [OF mod_less_divisor])
  then show ?thesis unfolding fsFmtTime_def Let_def w time_text_def by (simp only: field_two) simp
qed

lemma fmt_time_sec:
  "fsFmtTime_sec s str time sec100 = time_text time @ 0x3A # two_digits (unat (FS_SECOND time) + (if sec100 < 100 then 0 else 1)) @ str"
proof -
  have m: "unat (w AND 31) = unat w mod 32" for w :: "16 word"
    unfolding and_masks unsigned_take_bit_eq by (simp_all add: take_bit_eq_mod)
  let ?n = "unat (FS_SECOND time) + (if sec100 < 100 then 0 else 1)"
  have b: "unat time mod 32 < 32" by simp
  have w: "2 * (time AND 31) + (if sec100 < 100 then 0 else 1) = word_of_nat ?n"
  proof -
    have "time AND 31 = word_of_nat (unat time mod 32)" using b by (intro word_unat_eqI) (simp add: m unat_of_nat_small)
    then show ?thesis unfolding unat_fields by simp
  qed
  have "?n < 100" using b unfolding unat_fields by (cases "sec100 < 100") simp_all
  then show ?thesis unfolding fsFmtTime_sec_def Let_def w by (simp only: field_two fmt_time) simp
qed

lemma byte_all:
  assumes "\<forall>k \<in> set [0..<256]. P (word_of_nat k)"
  shows "P (b :: byte)"
proof -
  have "unat b \<in> set [0..<256]" using unat_bound [of b] by simp
  from bspec [OF assms this] show ?thesis by simp
qed

lemma zone_byte:
  "(bit tz 7 \<longleftrightarrow> tz AND 0x80 \<noteq> 0) \<and> (bit tz 7 \<longrightarrow> (tz AND 0x40 \<noteq> 0 \<longleftrightarrow> zone_quarters tz < 0) \<and>
     unat (if tz AND 0x40 \<noteq> 0 then - tz else tz AND 0x7F) = nat \<bar>zone_quarters tz\<bar> \<and> nat \<bar>zone_quarters tz\<bar> \<le> 64)"
  by (rule byte_all) code_simp

lemma fmt_zone: "fsFmtTimeZone s str tz = zone_text tz @ str"
proof (cases "bit tz 7")
  case False
  then show ?thesis using zone_byte [of tz] by (simp add: fsFmtTimeZone_def zone_text_def)
next
  case True
  define t where "t = (if tz AND 0x40 \<noteq> 0 then - tz else tz AND 0x7F)"
  define k where "k = nat \<bar>zone_quarters tz\<bar>"
  have z: "tz AND 0x80 \<noteq> 0" "tz AND 0x40 \<noteq> 0 \<longleftrightarrow> zone_quarters tz < 0" "unat t = k" "k \<le> 64"
    using zone_byte [of tz] True unfolding t_def k_def by auto
  have t: "ucast t = (word_of_nat k :: 16 word)" using z(3,4) by (intro word_unat_eqI) (simp add: unat_ucast_up unat_of_nat_small)
  have k4: "k mod 4 < 4" by simp
  have m: "15 * (ucast t mod 4) = (word_of_nat (15 * (k mod 4)) :: 16 word)" "ucast t div 4 = (word_of_nat (k div 4) :: 16 word)"
  proof -
    have "(word_of_nat k :: 16 word) mod 4 = word_of_nat (k mod 4)"
      using z(4) k4 by (intro word_unat_eqI) (simp add: unat_mod unat_of_nat_small)
    then show "15 * (ucast t mod 4) = (word_of_nat (15 * (k mod 4)) :: 16 word)" unfolding t by simp
    show "ucast t div 4 = (word_of_nat (k div 4) :: 16 word)"
      unfolding t using z(4) by (intro word_unat_eqI) (simp add: unat_div unat_of_nat_small)
  qed
  have "15 * (k mod 4) < 100" "k div 4 < 100" using k4 z(4) by linarith+
  then have f: "fsFmtField s (fsFmtField s str (15 * (ucast t mod 4)) 0) (ucast t div 4) 0x3A =
      two_digits (k div 4) @ 0x3A # two_digits (15 * (k mod 4)) @ str"
    unfolding m by (simp only: field_two) simp
  have n: "t = 0 \<longleftrightarrow> zone_quarters tz = 0" using z(3) unfolding k_def by (metis abs_eq_0 int_nat_eq nat_0 abs_ge_zero of_nat_0 unat_eq_zero)
  have "(if tz AND 0x40 \<noteq> 0 then (0x2D, - tz) else (0x2B, tz AND 0x7F)) = (if zone_quarters tz < 0 then 0x2D else 0x2B :: byte, t)"
    using z(2) by (simp add: t_def)
  then show ?thesis using True z(1) n by (simp add: fsFmtTimeZone_def f zone_text_def Let_def k_def [symmetric])
qed

lemma zone_text_length: "length (zone_text tz) \<le> 9"
  by (simp add: zone_text_def Let_def)

text \<open>Every text fits its buffer, whatever the fields hold, and the fields in it are those that \<open>FS_YEAR\<close> and so on give.\<close>

lemma printed_texts:
  "fsPrintDateTime s date time = Some (if date = 0 then replicate 16 0x20 else date_text date @ 0x20 # time_text time)"
  "fsPrintDate s date = Some (if date = 0 then replicate 10 0x20 else date_text date)"
  "fsPrintTime s time = Some (time_text time)"
  "fsPrintTime_sec s time sec100 = Some (time_text time @ 0x3A # two_digits (unat (FS_SECOND time) + (if sec100 < 100 then 0 else 1)))"
  "fsPrintTimeZone s tz = Some (zone_text tz)"
  "fsPrintDateTime_zone s dateTime s100 tz =
     Some (date_text (ucast (drop_bit 16 dateTime)) @ 0x20 # time_text (ucast dateTime) @ 0x3A #
       two_digits (unat (FS_SECOND (ucast dateTime)) + (if s100 < 100 then 0 else 1)) @
       (if tz = 0 then [] else 0x20 # zone_text tz))"
  using zone_text_length [of tz]
  by (simp_all add: fsPrintDateTime_def fsPrintDate_def fsPrintTime_def fsPrintTime_sec_def fsPrintTimeZone_def fsPrintDateTime_zone_def Let_def in_buffer_def
    fmt_date fmt_time fmt_time_sec fmt_zone date_text_def time_text_def)

text \<open>C35: the texts of dates, times and time zones fit the buffers of their functions, which
  have no room to spare, whatever the packed fields hold, and they show the fields that
  \<open>FS_YEAR\<close> and so on read.\<close>

theorem print_date_time_text:
  "fsPrintDateTime s date time = Some (if date = 0 then replicate 16 0x20 else date_text date @ 0x20 # time_text time) \<and>
   fsPrintDate s date = Some (if date = 0 then replicate 10 0x20 else date_text date) \<and>
   fsPrintTime s time = Some (time_text time) \<and>
   fsPrintTime_sec s time sec100 = Some (time_text time @ 0x3A # two_digits (unat (FS_SECOND time) + (if sec100 < 100 then 0 else 1))) \<and>
   fsPrintTimeZone s tz = Some (zone_text tz) \<and>
   fsPrintDateTime_zone s dateTime s100 tz =
     Some (date_text (ucast (drop_bit 16 dateTime)) @ 0x20 # time_text (ucast dateTime) @ 0x3A #
       two_digits (unat (FS_SECOND (ucast dateTime)) + (if s100 < 100 then 0 else 1)) @
       (if tz = 0 then [] else 0x20 # zone_text tz))"
  by (intro conjI printed_texts)

end
