(* ===== verification/Unicode.thy ===== *)
theory Unicode
  imports Prelude
begin

text \<open>
  Unicode in SdFat: UTF-8 and UTF-16 (\<open>lib/SdFat/src/common/FsUtf.h\<close>, \<open>FsUtf.cpp\<close>) and the upper case of UTF-16 characters
  by two tables (\<open>common/upcase.cpp\<close>), which exFAT names and, with the option for UTF-8, long FAT names use.
\<close>

section \<open>Code points\<close>

definition highSurrogate :: "32 word \<Rightarrow> 16 word" where
  "highSurrogate cp = ucast (drop_bit 10 cp + (0xD800 - drop_bit 10 0x10000))"

definition lowSurrogate :: "32 word \<Rightarrow> 16 word" where
  "lowSurrogate cp = ucast ((cp AND 0x3FF) + 0xDC00)"

definition isValidCp :: "32 word \<Rightarrow> bool" where
  "isValidCp cp \<longleftrightarrow> cp \<le> 0x10FFFF \<and> (cp < 0xD800 \<or> cp > 0xDFFF)"

definition isSurrogate :: "16 word \<Rightarrow> bool" where "isSurrogate c \<longleftrightarrow> 0xD800 \<le> c \<and> c \<le> 0xDFFF"
definition isHighSurrogate :: "16 word \<Rightarrow> bool" where "isHighSurrogate c \<longleftrightarrow> 0xD800 \<le> c \<and> c \<le> 0xDBFF"
definition isLowSurrogate :: "16 word \<Rightarrow> bool" where "isLowSurrogate c \<longleftrightarrow> 0xDC00 \<le> c \<and> c \<le> 0xDFFF"

definition u16ToCp :: "16 word \<Rightarrow> 16 word \<Rightarrow> 32 word" where
  "u16ToCp hs ls = 0x10000 + (push_bit 10 (ucast hs AND 0x3FF) OR (ucast ls AND 0x3FF))"

section \<open>UTF-8\<close>

text \<open>\<open>n\<close> is the room in the destination; the result is what is stored there.\<close>

definition cpToMb :: "32 word \<Rightarrow> nat \<Rightarrow> byte list option" where
  "cpToMb cp n =
     (if cp < 0x80 then if n < 1 then None else Some [ucast cp]
      else if cp < 0x800 then
        if n < 2 then None else Some [ucast (drop_bit 6 cp OR 0xC0), ucast ((cp AND 0x3F) OR 0x80)]
      else if cp < 0x10000 then
        if n < 3 then None
        else Some [ucast (drop_bit 12 cp OR 0xE0), ucast ((drop_bit 6 cp AND 0x3F) OR 0x80), ucast ((cp AND 0x3F) OR 0x80)]
      else
        if n < 4 then None
        else Some [ucast (drop_bit 18 cp OR 0xF0), ucast ((drop_bit 12 cp AND 0x3F) OR 0x80),
                   ucast ((drop_bit 6 cp AND 0x3F) OR 0x80), ucast ((cp AND 0x3F) OR 0x80)])"

text \<open>The loop over the bytes that follow the first one.\<close>

fun mb_tail :: "byte list \<Rightarrow> 32 word \<Rightarrow> 32 word option" where
  "mb_tail [] cp = Some cp"
| "mb_tail (ch # chs) cp = (if ch AND 0xC0 \<noteq> 0x80 then None else mb_tail chs (push_bit 6 cp OR ucast (ch AND 0x3F)))"

text \<open>The code point and the rest of the text, from the text up to \<open>end\<close>.\<close>

definition mbToCp :: "byte list \<Rightarrow> (32 word \<times> byte list) option" where
  "mbToCp str =
     (case str of
        [] \<Rightarrow> None
      | ch # _ \<Rightarrow>
          if ch AND 0x80 = 0 then Some (ucast ch, tl str)
          else do {
            (cp, n) \<leftarrow> (if ch AND 0xE0 = 0xC0 then Some (ucast (ch AND 0x1F), 2 :: nat)
                        else if ch AND 0xF0 = 0xE0 then Some (ucast (ch AND 0x0F), 3)
                        else if ch AND 0xF8 = 0xF0 then Some (ucast (ch AND 0x07), 4)
                        else None);
            if n > length str then None
            else do {
              cp \<leftarrow> mb_tail (take (n - 1) (tl str)) cp;
              if cp < 0x80 \<or> \<not> isValidCp cp then None else Some (cp, drop n str) } })"

text \<open>The character, or the pair of surrogates.\<close>

definition mbToU16 :: "byte list \<Rightarrow> (16 word \<times> 16 word \<times> byte list) option" where
  "mbToU16 str = do {
     (cp, str) \<leftarrow> mbToCp str;
     Some (if cp \<le> 0xFFFF then (ucast cp, 0, str) else (highSurrogate cp, lowSurrogate cp, str)) }"

section \<open>Upper case\<close>

definition mapTable :: "(16 word \<times> int \<times> nat) list" where
  "mapTable = [
     (0x0061, - 32, 26), (0x00E0, - 32, 23), (0x00F8, - 32, 7), (0x0100, 1, 48), (0x0132, 1, 6), (0x0139, 1, 16),
     (0x014A, 1, 46), (0x0179, 1, 6), (0x0182, 1, 4), (0x01A0, 1, 6), (0x01B3, 1, 4), (0x01CD, 1, 16),
     (0x01DE, 1, 18), (0x01F8, 1, 40), (0x0222, 1, 18), (0x0246, 1, 10), (0x03AD, - 37, 3), (0x03B1, - 32, 17),
     (0x03C3, - 32, 9), (0x03D8, 1, 24), (0x0430, - 32, 32), (0x0450, - 80, 16), (0x0460, 1, 34), (0x048A, 1, 54),
     (0x04C1, 1, 14), (0x04D0, 1, 68), (0x0561, - 48, 38), (0x1E00, 1, 150), (0x1EA0, 1, 90), (0x1F00, 8, 8),
     (0x1F10, 8, 6), (0x1F20, 8, 8), (0x1F30, 8, 8), (0x1F40, 8, 6), (0x1F60, 8, 8), (0x1F70, 74, 2),
     (0x1F72, 86, 4), (0x1F76, 100, 2), (0x1F7A, 112, 2), (0x1F7C, 126, 2), (0x1F80, 8, 8), (0x1F90, 8, 8),
     (0x1FA0, 8, 8), (0x1FB0, 8, 2), (0x1FD0, 8, 2), (0x1FE0, 8, 2), (0x2170, - 16, 16), (0x24D0, - 26, 26),
     (0x2C30, - 48, 47), (0x2C67, 1, 6), (0x2C80, 1, 100), (0x2D00, 0, 38), (0xFF41, - 32, 26)]"

definition lookupTable :: "(16 word \<times> 16 word) list" where
  "lookupTable = [
     (0x00FF, 0x0178), (0x0180, 0x0243), (0x0188, 0x0187), (0x018C, 0x018B), (0x0192, 0x0191), (0x0195, 0x01F6), (0x0199, 0x0198),
     (0x019A, 0x023D), (0x019E, 0x0220), (0x01A8, 0x01A7), (0x01AD, 0x01AC), (0x01B0, 0x01AF), (0x01B9, 0x01B8), (0x01BD, 0x01BC),
     (0x01BF, 0x01F7), (0x01C6, 0x01C4), (0x01C9, 0x01C7), (0x01CC, 0x01CA), (0x01DD, 0x018E), (0x01F3, 0x01F1), (0x01F5, 0x01F4),
     (0x023A, 0x2C65), (0x023C, 0x023B), (0x023E, 0x2C66), (0x0242, 0x0241), (0x0253, 0x0181), (0x0254, 0x0186), (0x0256, 0x0189),
     (0x0257, 0x018A), (0x0259, 0x018F), (0x025B, 0x0190), (0x0260, 0x0193), (0x0263, 0x0194), (0x0268, 0x0197), (0x0269, 0x0196),
     (0x026B, 0x2C62), (0x026F, 0x019C), (0x0272, 0x019D), (0x0275, 0x019F), (0x027D, 0x2C64), (0x0280, 0x01A6), (0x0283, 0x01A9),
     (0x0288, 0x01AE), (0x0289, 0x0244), (0x028A, 0x01B1), (0x028B, 0x01B2), (0x028C, 0x0245), (0x0292, 0x01B7), (0x037B, 0x03FD),
     (0x037C, 0x03FE), (0x037D, 0x03FF), (0x03AC, 0x0386), (0x03C2, 0x03A3), (0x03CC, 0x038C), (0x03CD, 0x038E), (0x03CE, 0x038F),
     (0x03F2, 0x03F9), (0x03F8, 0x03F7), (0x03FB, 0x03FA), (0x04CF, 0x04C0), (0x1D7D, 0x2C63), (0x1F51, 0x1F59), (0x1F53, 0x1F5B),
     (0x1F55, 0x1F5D), (0x1F57, 0x1F5F), (0x1F78, 0x1FF8), (0x1F79, 0x1FF9), (0x1FB3, 0x1FBC), (0x1FCC, 0x1FC3), (0x1FE5, 0x1FEC),
     (0x1FFC, 0x1FF3), (0x214E, 0x2132), (0x2184, 0x2183), (0x2C61, 0x2C60), (0x2C76, 0x2C75)]"

function search16_loop :: "16 word list \<Rightarrow> 16 word \<Rightarrow> nat \<Rightarrow> nat \<Rightarrow> nat" where
  "search16_loop keys key left right =
     (if right - left > 1 then
        let mid = left + (right - left) div 2
        in if keys ! mid \<le> key then search16_loop keys key mid right else search16_loop keys key left mid
      else left)"
  by auto
termination by (relation "measure (\<lambda>(keys, key, left, right). right - left)") auto

declare search16_loop.simps [simp del]

definition searchPair16 :: "16 word list \<Rightarrow> nat \<Rightarrow> 16 word \<Rightarrow> nat" where
  "searchPair16 keys dim key = search16_loop keys key 0 dim"

definition toUpcase :: "16 word \<Rightarrow> 16 word" where
  "toUpcase chr =
     (if chr < 127 then chr - (if 0x61 \<le> chr \<and> chr \<le> 0x7A then 0x20 else 0)
      else
        let i = searchPair16 (map fst mapTable) (length mapTable) chr;
            (first, off, count) = mapTable ! i
        in if first \<le> chr \<and> unat (chr - first) < count then
             if off = 1 then chr - ((chr - first) AND 1)
             else chr + word_of_int (if off \<noteq> 0 then off else - 0x1C60)
           else
             let i = searchPair16 (map fst lookupTable) (length lookupTable) chr
             in if fst (lookupTable ! i) = chr then snd (lookupTable ! i) else chr)"

definition upcaseChecksum :: "16 word \<Rightarrow> 32 word \<Rightarrow> 32 word" where
  "upcaseChecksum uc acc =
     (let acc = push_bit 31 acc + drop_bit 1 acc + ucast (uc AND 0xFF)
      in push_bit 31 acc + drop_bit 1 acc + ucast (drop_bit 8 uc))"

section \<open>Round trips\<close>

lemma surrogate_pair:
  assumes "0x10000 \<le> cp" "cp \<le> 0x10FFFF"
  shows "u16ToCp (highSurrogate cp) (lowSurrogate cp) = cp" "isHighSurrogate (highSurrogate cp)" "isLowSurrogate (lowSurrogate cp)"
proof -
  have c: "65536 \<le> unat cp" "unat cp \<le> 1114111" using assms by (simp_all add: word_le_nat_alt)
  then have r: "64 \<le> unat cp div 1024" "unat cp div 1024 \<le> 1087" by linarith+
  have d: "unat (drop_bit 10 cp) = unat cp div 1024" unfolding unat_drop_bit_eq by (simp add: drop_bit_eq_div)
  have m: "unat (cp AND 0x3FF) = unat cp mod 1024" unfolding and_masks unsigned_take_bit_eq by (simp add: take_bit_eq_mod)
  have h: "unat (highSurrogate cp) = unat cp div 1024 + 55232"
  proof -
    have "unat (drop_bit 10 cp + (0xD800 - drop_bit 10 0x10000)) = unat cp div 1024 + 55232"
      using d c by (simp add: unat_word_ariths)
    then show ?thesis using c unfolding highSurrogate_def by (subst unat_ucast_down) simp_all
  qed
  have l: "unat (lowSurrogate cp) = unat cp mod 1024 + 56320"
  proof -
    have "unat ((cp AND 0x3FF) + 0xDC00) = unat cp mod 1024 + 56320"
      using m by (simp only: unat_word_ariths) simp
    then show ?thesis unfolding lowSurrogate_def by (subst unat_ucast_down) simp_all
  qed
  show "isHighSurrogate (highSurrogate cp)" "isLowSurrogate (lowSurrogate cp)"
    using h l c r by (simp_all add: isHighSurrogate_def isLowSurrogate_def word_le_nat_alt)
  obtain j where j: "unat cp div 1024 = j + 64" "j < 1024" using r that [of "unat cp div 1024 - 64"] by simp
  have "(j + 64 + 55232) mod 1024 = (j + 54 * 1024) mod 1024" by (simp add: ac_simps)
  then have m64: "(unat cp div 1024 + 55232) mod 1024 = j" unfolding j using j(2) by (simp only: mod_mult_self1 mod_less)
  have am: "unat (ucast u AND 0x3FF :: 32 word) = unat u mod 1024" for u :: "16 word"
    unfolding and_masks unsigned_take_bit_eq by (simp add: take_bit_eq_mod unat_ucast_up)
  have x: "unat (ucast (highSurrogate cp) AND 0x3FF :: 32 word) = j" "unat (ucast (lowSurrogate cp) AND 0x3FF :: 32 word) = unat cp mod 1024"
  proof -
    have "(unat cp mod 1024 + 55 * 1024) mod 1024 = unat cp mod 1024" by (simp only: mod_mult_self1 mod_mod_trivial)
    then show "unat (ucast (highSurrogate cp) AND 0x3FF :: 32 word) = j" "unat (ucast (lowSurrogate cp) AND 0x3FF :: 32 word) = unat cp mod 1024"
      unfolding am h l using m64 by simp_all
  qed
  have "unat (push_bit 10 (ucast (highSurrogate cp) AND 0x3FF) OR (ucast (lowSurrogate cp) AND 0x3FF) :: 32 word) =
      2 ^ 10 * j + unat cp mod 1024"
    using j(2) by (subst join_bits) (simp_all add: x)
  also have "\<dots> = unat cp - 65536"
  proof -
    have "1024 * (j + 64) + unat cp mod 1024 = unat cp" using mult_div_mod_eq [of 1024 "unat cp"] unfolding j .
    then show ?thesis by simp
  qed
  finally have "unat (u16ToCp (highSurrogate cp) (lowSurrogate cp)) = unat cp" using c by (simp add: u16ToCp_def unat_word_ariths)
  then show "u16ToCp (highSurrogate cp) (lowSurrogate cp) = cp" by (rule word_unat_eqI)
qed

text \<open>First bytes and following bytes, checked for every value they can carry.\<close>

lemma below_word:
  assumes "w < word_of_nat n" "n < 2 ^ 32" "\<forall>k \<in> set [0..<n]. P (word_of_nat k)"
  shows "P (w :: 32 word)"
proof -
  have "unat w < n" using assms(1,2) by (simp add: word_less_nat_alt unat_of_nat_small)
  then have "unat w \<in> set [0..<n]" by simp
  from bspec [OF assms(3) this] show ?thesis by simp
qed

definition first_ok :: "nat \<Rightarrow> byte \<Rightarrow> 32 word \<Rightarrow> bool" where
  "first_ok n ch w \<longleftrightarrow> ch AND 0x80 \<noteq> 0 \<and>
     (if ch AND 0xE0 = 0xC0 then Some (ucast (ch AND 0x1F), 2 :: nat)
      else if ch AND 0xF0 = 0xE0 then Some (ucast (ch AND 0x0F), 3)
      else if ch AND 0xF8 = 0xF0 then Some (ucast (ch AND 0x07), 4)
      else None) = Some (w, n)"

definition next_ok :: "byte \<Rightarrow> 32 word \<Rightarrow> bool" where
  "next_ok ch w \<longleftrightarrow> ch AND 0xC0 = 0x80 \<and> ucast (ch AND 0x3F) = w"

lemma utf8_bytes:
  "w < 0x20 \<Longrightarrow> first_ok 2 (ucast (w OR 0xC0)) w" "w < 0x10 \<Longrightarrow> first_ok 3 (ucast (w OR 0xE0)) w"
  "w < 0x08 \<Longrightarrow> first_ok 4 (ucast (w OR 0xF0)) w" "w < 0x40 \<Longrightarrow> next_ok (ucast (w OR 0x80)) w"
proof -
  have c: "\<forall>k \<in> set [0..<32]. first_ok 2 (ucast ((word_of_nat k :: 32 word) OR 0xC0)) (word_of_nat k)"
    "\<forall>k \<in> set [0..<16]. first_ok 3 (ucast ((word_of_nat k :: 32 word) OR 0xE0)) (word_of_nat k)"
    "\<forall>k \<in> set [0..<8]. first_ok 4 (ucast ((word_of_nat k :: 32 word) OR 0xF0)) (word_of_nat k)"
    "\<forall>k \<in> set [0..<64]. next_ok (ucast ((word_of_nat k :: 32 word) OR 0x80)) (word_of_nat k)"
    by code_simp+
  show "w < 0x20 \<Longrightarrow> first_ok 2 (ucast (w OR 0xC0)) w" using below_word [of w 32, OF _ _ c(1)] by simp
  show "w < 0x10 \<Longrightarrow> first_ok 3 (ucast (w OR 0xE0)) w" using below_word [of w 16, OF _ _ c(2)] by simp
  show "w < 0x08 \<Longrightarrow> first_ok 4 (ucast (w OR 0xF0)) w" using below_word [of w 8, OF _ _ c(3)] by simp
  show "w < 0x40 \<Longrightarrow> next_ok (ucast (w OR 0x80)) w" using below_word [of w 64, OF _ _ c(4)] by simp
qed

lemma mbToCp_more:
  assumes "first_ok n ch w" "length chs + 1 = n"
  shows "mbToCp ((ch # chs) @ rest) = do { cp \<leftarrow> mb_tail chs w; if cp < 0x80 \<or> \<not> isValidCp cp then None else Some (cp, rest) }"
  using assms by (auto simp: mbToCp_def first_ok_def cong: if_cong)

text \<open>Six bits at a time.\<close>

lemma six_bits:
  fixes cp :: "32 word"
  shows "push_bit 6 (drop_bit (k + 6) cp) OR (drop_bit k cp AND 0x3F) = drop_bit k cp" "drop_bit k cp AND 0x3F < 0x40"
proof -
  have m: "(0x3F :: 32 word) = mask 6" by (simp add: mask_eq_exp_minus_1)
  show "push_bit 6 (drop_bit (k + 6) cp) OR (drop_bit k cp AND 0x3F) = drop_bit k cp"
    unfolding m
  proof (rule bit_word_eqI)
    fix n assume "n < LENGTH(32)"
    then show "bit (push_bit 6 (drop_bit (k + 6) cp) OR (drop_bit k cp AND mask 6)) n = bit (drop_bit k cp) n"
      by (cases "n < 6") (auto simp: bit_simps ac_simps)
  qed
  show "drop_bit k cp AND 0x3F < 0x40" using word_and_le1 [of "drop_bit k cp" "0x3F"] by (simp add: word_le_nat_alt word_less_nat_alt)
qed

lemma ascii_byte: "w < 0x80 \<Longrightarrow> (ucast (w :: 32 word) :: byte) AND 0x80 = 0 \<and> ucast (ucast w :: byte) = w"
proof -
  have "\<forall>k \<in> set [0..<128]. (ucast (word_of_nat k :: 32 word) :: byte) AND 0x80 = 0 \<and>
    ucast (ucast (word_of_nat k :: 32 word) :: byte) = (word_of_nat k :: 32 word)" by code_simp
  then show "w < 0x80 \<Longrightarrow> ?thesis" using below_word [of w 128] by simp
qed

lemma mb_tail_step: "next_ok ch w \<Longrightarrow> mb_tail (ch # chs) cp = mb_tail chs (push_bit 6 cp OR w)"
  by (simp add: next_ok_def)

lemma drop_small: "cp < 2 ^ n \<Longrightarrow> k \<le> n \<Longrightarrow> n < 32 \<Longrightarrow> drop_bit k cp < (2 ^ (n - k) :: 32 word)"
proof -
  assume a: "cp < 2 ^ n" "k \<le> n" "n < 32"
  have "unat ((2 :: 32 word) ^ i) = 2 ^ i" if "i < 32" for i 
  proof -
    have "(2 :: 32 word) ^ i = word_of_nat (2 ^ i)" by simp
    moreover have "(2 :: nat) ^ i < 2 ^ 32" using that by (intro power_strict_increasing) simp_all
    ultimately show ?thesis by (simp only: unat_of_nat) simp
  qed
  then show ?thesis using a by (simp add: word_less_nat_alt unat_drop less_mult_imp_div_less flip: power_add)
qed

lemma utf8_decodes:
  assumes "isValidCp cp" "cpToMb cp n = Some bs"
  shows "mbToCp (bs @ rest) = Some (cp, rest) \<and> length bs \<le> n"
proof -
  note S = six_bits [where cp = cp, of 0, simplified] six_bits [where cp = cp, of 6, simplified] six_bits [where cp = cp, of 12, simplified]
  note N = utf8_bytes(4) [OF S(2)] utf8_bytes(4) [OF S(4)] utf8_bytes(4) [OF S(6)]
  note T = N [unfolded next_ok_def]
  consider "cp < 0x80" | "0x80 \<le> cp" "cp < 0x800" | "0x800 \<le> cp" "cp < 0x10000" | "0x10000 \<le> cp" by fastforce
  then show ?thesis
  proof cases
    case 1
    then show ?thesis using assms(2) ascii_byte [OF 1] by (auto simp: cpToMb_def mbToCp_def split: if_split_asm)
  next
    case 2
    have o: "\<not> cp < 0x80" "cp < 0x800 \<Longrightarrow> \<not> 0x800 \<le> cp" "cp < 0x800 \<Longrightarrow> \<not> 0x10000 \<le> cp" "cp < 0x10000 \<Longrightarrow> \<not> 0x10000 \<le> cp"
      using 2 by (simp_all add: word_le_nat_alt word_less_nat_alt)
    have "drop_bit 6 cp < 0x20" using drop_small [of cp 11 6] 2(2) by simp
    note mbToCp_more [OF utf8_bytes(1) [OF this], of "[ucast ((cp AND 0x3F) OR 0x80)]" rest]
    then show ?thesis
      using 2 assms S T o by (auto simp: cpToMb_def split: if_split_asm)
  next
    case 3
    have o: "\<not> cp < 0x80" "cp < 0x800 \<Longrightarrow> \<not> 0x800 \<le> cp" "cp < 0x800 \<Longrightarrow> \<not> 0x10000 \<le> cp" "cp < 0x10000 \<Longrightarrow> \<not> 0x10000 \<le> cp"
      using 3 by (simp_all add: word_le_nat_alt word_less_nat_alt)
    have "drop_bit 12 cp < 0x10" using drop_small [of cp 16 12] 3(2) by simp
    note mbToCp_more [OF utf8_bytes(2) [OF this], of "[ucast ((drop_bit 6 cp AND 0x3F) OR 0x80), ucast ((cp AND 0x3F) OR 0x80)]" rest]
    then show ?thesis
      using 3 assms S T o by (auto simp: cpToMb_def split: if_split_asm)
  next
    case 4
    have o: "\<not> cp < 0x80" "cp < 0x800 \<Longrightarrow> \<not> 0x800 \<le> cp" "cp < 0x800 \<Longrightarrow> \<not> 0x10000 \<le> cp" "cp < 0x10000 \<Longrightarrow> \<not> 0x10000 \<le> cp"
      using 4 by (simp_all add: word_le_nat_alt word_less_nat_alt)
    have "cp < 2 ^ 21" using assms(1) by (auto simp: isValidCp_def word_le_nat_alt word_less_nat_alt)
    then have "drop_bit 18 cp < 0x08" using drop_small [of cp 21 18] by simp
    note mbToCp_more [OF utf8_bytes(3) [OF this], of "[ucast ((drop_bit 12 cp AND 0x3F) OR 0x80),
      ucast ((drop_bit 6 cp AND 0x3F) OR 0x80), ucast ((cp AND 0x3F) OR 0x80)]" rest]
    then show ?thesis
      using 4 assms S T o by (auto simp: cpToMb_def split: if_split_asm)
  qed
qed

text \<open>C36: a valid code point that \<open>cpToMb\<close> encodes is decoded by
  \<open>mbToCp\<close>, with any bytes behind it, and the encoding fits the buffer.\<close>

theorem utf8_roundtrip:
  assumes "isValidCp cp" "cpToMb cp n = Some bs"
  shows "mbToCp (bs @ rest) = Some (cp, rest) \<and> length bs \<le> n"
  using assms by (rule utf8_decodes)

lemma utf8_roundtrip_witness:
  "\<exists>bs. cpToMb 0x20AC 3 = Some bs \<and> bs = [0xE2, 0x82, 0xAC] \<and> mbToCp (bs @ [0x21]) = Some (0x20AC, [0x21])"
proof -
  have "isValidCp 0x20AC" "cpToMb 0x20AC 3 = Some [0xE2, 0x82, 0xAC]" by code_simp+
  from utf8_roundtrip [OF this, of "[0x21]"] this(2) show ?thesis by simp
qed

text \<open>A pair of surrogates for a code point beyond the basic plane.\<close>



section \<open>The tables\<close>

lemma search16_loop_last:
  assumes "left < right" "right \<le> length keys" "sorted keys" "left = 0 \<or> keys ! left \<le> key" "right = length keys \<or> key < keys ! right"
  shows "search16_loop keys key left right < length keys \<and>
    (search16_loop keys key left right = 0 \<or> keys ! search16_loop keys key left right \<le> key) \<and>
    (\<forall>j. search16_loop keys key left right < j \<longrightarrow> j < length keys \<longrightarrow> key < keys ! j)"
  using assms
proof (induction keys key left right rule: search16_loop.induct)
  case (1 keys key left right)
  show ?case
  proof (cases "right - left > 1")
    case True
    let ?mid = "left + (right - left) div 2"
    have mid: "left < ?mid" "?mid < right" using True by linarith+
    show ?thesis
    proof (cases "keys ! ?mid \<le> key")
      case m: True
      from "1.IH"(1) [OF True refl m mid(2) "1.prems"(2,3)] m "1.prems"(5) True show ?thesis
        by (subst (1 2 3 4) search16_loop.simps) (simp add: Let_def)
    next
      case m: False
      then have "key < keys ! ?mid" by simp
      with "1.IH"(2) [OF True refl m mid(1)] mid "1.prems" m True show ?thesis
        by (subst (1 2 3 4) search16_loop.simps) (simp add: Let_def)
    qed
  next
    case False
    then have "right = Suc left" using "1.prems"(1) by simp
    moreover have "key < keys ! j" if "left < j" "j < length keys" for j
    proof -
      have "right < length keys" using that \<open>right = Suc left\<close> by simp
      then have "key < keys ! right" using "1.prems"(5) by simp
      also have "\<dots> \<le> keys ! j" using that \<open>right = Suc left\<close> "1.prems"(3) by (intro sorted_nth_mono) simp_all
      finally show ?thesis .
    qed
    ultimately show ?thesis using False "1.prems" by (subst (1 2 3 4) search16_loop.simps) auto
  qed
qed

text \<open>What the tables say, without search: the ranges first, then the pairs.\<close>

definition in_range :: "16 word \<Rightarrow> 16 word \<times> int \<times> nat \<Rightarrow> bool" where
  "in_range c = (\<lambda>(first, off, count). first \<le> c \<and> unat (c - first) < count)"

definition range_upcase :: "16 word \<Rightarrow> 16 word \<times> int \<times> nat \<Rightarrow> 16 word" where
  "range_upcase c = (\<lambda>(first, off, count).
     if off = 1 then c - ((c - first) AND 1) else c + word_of_int (if off \<noteq> 0 then off else - 0x1C60))"

definition table_upcase :: "16 word \<Rightarrow> 16 word" where
  "table_upcase c =
     (case find (in_range c) mapTable of
        Some r \<Rightarrow> range_upcase c r
      | None \<Rightarrow> (case map_of lookupTable c of Some d \<Rightarrow> d | None \<Rightarrow> c))"

lemma tables_sorted:
  "sorted_wrt (\<lambda>(b, _, n) (b', _, _). unat b + n \<le> unat b' \<and> b < b') mapTable" "sorted_wrt (\<lambda>p q. fst p < fst q) lookupTable"
proof -
  have t: "transp (\<lambda>(b :: 16 word, _ :: int, n) (b', _ :: int, _ :: nat). unat b + n \<le> unat b' \<and> b < b')"
    by (rule transpI) (auto simp: word_less_nat_alt)
  show "sorted_wrt (\<lambda>(b, _, n) (b', _, _). unat b + n \<le> unat b' \<and> b < b') mapTable"
    by (simp only: mapTable_def sorted_wrt2 [OF t] sorted_wrt1 prod.case) simp
  have u: "transp (\<lambda>p q :: 16 word \<times> 16 word. fst p < fst q)" by (rule transpI) auto
  show "sorted_wrt (\<lambda>p q. fst p < fst q) lookupTable"
    by (simp only: lookupTable_def sorted_wrt2 [OF u] sorted_wrt1 fst_conv) simp
qed

lemma table_keys: "sorted (map fst mapTable)" "sorted (map fst lookupTable)" "distinct (map fst lookupTable)"
proof -
  have "sorted_wrt (<) (map fst lookupTable)" using tables_sorted(2) by (simp add: sorted_wrt_map)
  then show "sorted (map fst lookupTable)" "distinct (map fst lookupTable)" by (simp_all add: strict_sorted_iff)
  show "sorted (map fst mapTable)"
    unfolding sorted_wrt_map by (rule sorted_wrt_mono_rel [OF _ tables_sorted(1)]) auto
qed

lemma range_unique:
  assumes "i < length mapTable" "i = 0 \<or> fst (mapTable ! i) \<le> c" "\<And>j. i < j \<Longrightarrow> j < length mapTable \<Longrightarrow> c < fst (mapTable ! j)"
  shows "find (in_range c) mapTable = (if in_range c (mapTable ! i) then Some (mapTable ! i) else None)"
proof -
  have u: "j = i" if "j < length mapTable" "in_range c (mapTable ! j)" for j
  proof (rule ccontr)
    obtain b off n where r: "mapTable ! j = (b, off, n)" by (cases "mapTable ! j")
    have b: "b \<le> c" "unat (c - b) < n" using that(2) r by (simp_all add: in_range_def)
    assume "j \<noteq> i"
    then consider "i < j" | "j < i" by linarith
    then show False
    proof cases
      case 1
      then show False using assms(3) [OF 1 that(1)] b(1) r by simp
    next
      case 2
      obtain b' off' n' where r': "mapTable ! i = (b', off', n')" by (cases "mapTable ! i")
      have "unat b + n \<le> unat b'" using sorted_wrt_nth_less [OF tables_sorted(1) 2 assms(1)] r r' by simp
      moreover have "unat b' \<le> unat c" using assms(2) 2 r' by (simp add: word_le_nat_alt)
      moreover have "unat (c - b) = unat c - unat b" using b(1) by (simp add: unat_sub word_le_nat_alt)
      ultimately show False using b by (simp add: word_le_nat_alt)
    qed
  qed
  show ?thesis
  proof (cases "in_range c (mapTable ! i)")
    case True
    have "find (in_range c) mapTable = Some (mapTable ! i)"
      unfolding find_Some_iff
    proof (intro exI conjI allI impI notI)
      show "i < length mapTable" "in_range c (mapTable ! i)" "mapTable ! i = mapTable ! i" using assms(1) True by (simp_all only:)
      fix j assume "j < i" "in_range c (mapTable ! j)"
      then show False using u [of j] assms(1) by (simp only: less_irrefl less_trans [OF \<open>j < i\<close> assms(1)])
    qed
    then show ?thesis using True by simp
  next
    case False
    have "\<not> in_range c r" if r: "r \<in> set mapTable" for r
    proof -
      obtain j where "j < length mapTable" "r = mapTable ! j" using r by (auto simp: in_set_conv_nth)
      then show ?thesis using False u by auto
    qed
    then show ?thesis using False by (simp add: find_None_iff)
  qed
qed

lemma table_ascii:
  assumes "c < 127"
  shows "table_upcase c = c - (if 0x61 \<le> c \<and> c \<le> 0x7A then 0x20 else 0)"
proof -
  have m: "mapTable ! 0 = (0x61, - 32, 26)" "mapTable ! 1 = (0xE0, - 32, 23)" "1 < length mapTable" by (simp_all add: mapTable_def)
  have l: "c \<notin> fst ` set lookupTable"
  proof
    assume "c \<in> fst ` set lookupTable"
    then obtain j where j: "j < length lookupTable" "fst (lookupTable ! j) = c" by (auto simp: in_set_conv_nth)
    have "fst (lookupTable ! 0) \<le> fst (lookupTable ! j)"
      using sorted_nth_mono [OF table_keys(2), of 0 j] j(1) by (simp only: nth_map length_map)
    moreover have "fst (lookupTable ! 0) = 0xFF" by (simp add: lookupTable_def)
    ultimately show False using assms j(2) by (simp add: word_le_nat_alt word_less_nat_alt)
  qed
  have "c < fst (mapTable ! j)" if j: "0 < j" "j < length mapTable" for j
  proof -
    have "fst (mapTable ! 1) \<le> fst (mapTable ! j)" using sorted_nth_mono [OF table_keys(1), of 1 j] j m(3) by simp
    then show ?thesis using assms m(2) by (simp add: word_le_nat_alt word_less_nat_alt)
  qed
  moreover have "mapTable \<noteq> []" by (simp add: mapTable_def)
  ultimately have "find (in_range c) mapTable = (if in_range c (mapTable ! 0) then Some (mapTable ! 0) else None)"
    by (intro range_unique) auto
  moreover have "in_range c (mapTable ! 0) \<longleftrightarrow> 0x61 \<le> c \<and> c \<le> 0x7A"
    unfolding m(1) in_range_def by (auto simp: word_le_nat_alt unat_sub)
  moreover have "map_of lookupTable c = None" using l by (simp add: map_of_eq_None_iff)
  ultimately show ?thesis by (simp add: table_upcase_def m(1) range_upcase_def)
qed

lemma toUpcase_table: "toUpcase c = table_upcase c"
proof (cases "c < 127")
  case True
  then show ?thesis by (simp add: toUpcase_def table_ascii)
next
  case False
  let ?i = "searchPair16 (map fst mapTable) (length mapTable) c"
  let ?k = "searchPair16 (map fst lookupTable) (length lookupTable) c"
  have n: "0 < length mapTable" "0 < length lookupTable" by (simp_all add: mapTable_def lookupTable_def)
  have I: "?i < length mapTable" "?i = 0 \<or> fst (mapTable ! ?i) \<le> c" "\<And>j. ?i < j \<Longrightarrow> j < length mapTable \<Longrightarrow> c < fst (mapTable ! j)"
    using search16_loop_last [of 0 "length mapTable" "map fst mapTable" c] n table_keys(1) by (auto simp: searchPair16_def)
  have K: "?k < length lookupTable" "?k = 0 \<or> fst (lookupTable ! ?k) \<le> c"
    "\<And>j. ?k < j \<Longrightarrow> j < length lookupTable \<Longrightarrow> c < fst (lookupTable ! j)"
    using search16_loop_last [of 0 "length lookupTable" "map fst lookupTable" c] n table_keys(2) by (auto simp: searchPair16_def)
  have "map_of lookupTable c = (if fst (lookupTable ! ?k) = c then Some (snd (lookupTable ! ?k)) else None)"
  proof (cases "fst (lookupTable ! ?k) = c")
    case True
    then have "(c, snd (lookupTable ! ?k)) \<in> set lookupTable" 
      using nth_mem [OF K(1)] prod.collapse [of "lookupTable ! ?k"] by simp
    then show ?thesis using True table_keys(3) by simp
  next
    case False
    have "c \<notin> fst ` set lookupTable"
    proof
      assume "c \<in> fst ` set lookupTable"
      then obtain j where j: "j < length lookupTable" "fst (lookupTable ! j) = c" by (auto simp: in_set_conv_nth)
      have "\<not> ?k < j" using K(3) [of j] j by auto
      then have "j < ?k" using False j(2) by (cases "j = ?k") auto
      then have "fst (lookupTable ! j) < fst (lookupTable ! ?k)"
        by (intro sorted_wrt_nth_less [OF tables_sorted(2) _ K(1)])
      then show False using K(2) j(2) \<open>j < ?k\<close> by simp
    qed
    then show ?thesis using False by (simp add: map_of_eq_None_iff)
  qed
  then have m: "(case map_of lookupTable c of Some d \<Rightarrow> d | None \<Rightarrow> c) = (if fst (lookupTable ! ?k) = c then snd (lookupTable ! ?k) else c)"
    by simp
  obtain b off n where r: "mapTable ! ?i = (b, off, n)" by (cases "mapTable ! ?i")
  have f: "find (in_range c) mapTable = (if in_range c (mapTable ! ?i) then Some (mapTable ! ?i) else None)"
    by (rule range_unique [OF I(1,2)], rule I(3))
  have "table_upcase c = (if in_range c (mapTable ! ?i) then range_upcase c (mapTable ! ?i)
      else if fst (lookupTable ! ?k) = c then snd (lookupTable ! ?k) else c)"
    unfolding table_upcase_def f m by simp
  moreover have "toUpcase c = (if in_range c (mapTable ! ?i) then range_upcase c (mapTable ! ?i)
      else if fst (lookupTable ! ?k) = c then snd (lookupTable ! ?k) else c)"
    unfolding toUpcase_def Let_def r prod.case if_not_P [OF False] in_range_def range_upcase_def by (rule refl)
  ultimately show ?thesis by (simp only:)
qed

text \<open>C38: \<open>toUpcase\<close> with its two binary searches is the table without search,
  for all 65536 characters: the range that contains the character gives the upper case, and
  otherwise the pair with the character as key.\<close>

theorem upcase_search_is_lookup: "toUpcase c = table_upcase c"
  by (rule toUpcase_table)

end
