(* ===== verification/RingBuf.thy ===== *)
theory RingBuf
  imports Prelude
begin

text \<open>
  The ring buffer \<open>RingBuf\<close> of \<open>lib/SdFat/src/RingBuf.h\<close>, between an interrupt routine and a file. Masking interrupts changes
  no value and is left out. A buffer is below 32768 bytes, so that sums of two indices stay within \<open>size_t\<close> of 16 bits.
\<close>

section \<open>The buffer\<close>

record ringbuf =
  rb_buf :: "byte list"
  rb_count :: "16 word"
  rb_head :: nat
  rb_tail :: nat
  rb_inISR :: bool
  rb_writeError :: bool

abbreviation rb_Size :: "ringbuf \<Rightarrow> nat" where "rb_Size rb \<equiv> length (rb_buf rb)"

definition rb_begin :: "ringbuf \<Rightarrow> ringbuf" where
  "rb_begin rb = rb\<lparr>rb_count := 0, rb_head := 0, rb_tail := 0, rb_inISR := False, rb_writeError := False\<rparr>"

definition rb_beginISR :: "ringbuf \<Rightarrow> ringbuf" where "rb_beginISR rb = rb\<lparr>rb_inISR := True\<rparr>"
definition rb_endISR :: "ringbuf \<Rightarrow> ringbuf" where "rb_endISR rb = rb\<lparr>rb_inISR := False\<rparr>"

definition bytesUsed :: "ringbuf \<Rightarrow> nat" where "bytesUsed rb = unat (rb_count rb)"
definition bytesFree :: "ringbuf \<Rightarrow> nat" where "bytesFree rb = unat (word_of_nat (rb_Size rb) - rb_count rb)"

definition adjustCount :: "16 word \<Rightarrow> ringbuf \<Rightarrow> ringbuf" where
  "adjustCount amount rb = rb\<lparr>rb_count := rb_count rb + amount\<rparr>"

definition advance :: "nat \<Rightarrow> nat \<Rightarrow> nat" where
  "advance sz index = (if (sz - 1) AND sz = 0 then (index + 1) AND (sz - 1) else if index + 1 < sz then index + 1 else 0)"

definition advance_by :: "nat \<Rightarrow> nat \<Rightarrow> nat \<Rightarrow> nat" where
  "advance_by sz index n = (let index = index + n in if index < sz then index else index - sz)"

section \<open>Operations\<close>

definition rb_write :: "byte list \<Rightarrow> ringbuf \<Rightarrow> nat \<times> ringbuf" where
  "rb_write src rb =
     (let count = length src in
      if bytesFree rb < count then (0, rb\<lparr>rb_writeError := True\<rparr>)
      else let n = min (rb_Size rb - rb_head rb) count;
               rb = (if n = count then rb\<lparr>rb_buf := put_at (rb_head rb) src (rb_buf rb), rb_head := advance_by (rb_Size rb) (rb_head rb) n\<rparr>
                     else rb\<lparr>rb_buf := put_at 0 (drop n src) (put_at (rb_head rb) (take n src) (rb_buf rb)), rb_head := count - n\<rparr>)
           in (count, adjustCount (word_of_nat count) rb))"

text \<open>An item of a small type, byte by byte.\<close>

fun rb_put_bytes :: "byte list \<Rightarrow> ringbuf \<Rightarrow> ringbuf" where
  "rb_put_bytes [] rb = rb"
| "rb_put_bytes (b # bs) rb = rb_put_bytes bs (rb\<lparr>rb_buf := (rb_buf rb)[rb_head rb := b], rb_head := advance (rb_Size rb) (rb_head rb)\<rparr>)"

definition rb_write_item :: "byte list \<Rightarrow> ringbuf \<Rightarrow> nat \<times> ringbuf" where
  "rb_write_item data rb =
     (if bytesFree rb < length data then (0, rb\<lparr>rb_writeError := True\<rparr>)
      else (length data, adjustCount (word_of_nat (length data)) (rb_put_bytes data rb)))"

fun rb_get_bytes :: "nat \<Rightarrow> ringbuf \<Rightarrow> byte list \<times> ringbuf" where
  "rb_get_bytes 0 rb = ([], rb)"
| "rb_get_bytes (Suc n) rb =
     (let b = rb_buf rb ! rb_tail rb;
          (bs, rb) = rb_get_bytes n (rb\<lparr>rb_tail := advance (rb_Size rb) (rb_tail rb)\<rparr>)
      in (b # bs, rb))"

definition rb_read_item :: "nat \<Rightarrow> ringbuf \<Rightarrow> byte list option \<times> ringbuf" where
  "rb_read_item size_of rb =
     (if bytesUsed rb < size_of then (None, rb)
      else let (bs, rb) = rb_get_bytes size_of rb in (Some bs, adjustCount (- word_of_nat size_of) rb))"

text \<open>The bytes copied out; their number is the result.\<close>

definition rb_read :: "nat \<Rightarrow> ringbuf \<Rightarrow> byte list \<times> ringbuf" where
  "rb_read count rb =
     (let n = bytesFree rb;
          count = (if count > n then n else count);
          n = min (rb_Size rb - rb_tail rb) count;
          (bs, rb) = (if n = count then (take n (drop (rb_tail rb) (rb_buf rb)), rb\<lparr>rb_tail := advance_by (rb_Size rb) (rb_tail rb) n\<rparr>)
                      else (take n (drop (rb_tail rb) (rb_buf rb)) @ take (count - n) (rb_buf rb), rb\<lparr>rb_tail := count - n\<rparr>))
      in (bs, adjustCount (- word_of_nat count) rb))"

text \<open>The file: its reads and writes give a count, or a negative number for an error.\<close>

definition rb_readIn :: "('f \<Rightarrow> nat \<Rightarrow> int \<times> byte list \<times> 'f) \<Rightarrow> nat \<Rightarrow> ringbuf \<Rightarrow> 'f \<Rightarrow> int \<times> ringbuf \<times> 'f" where
  "rb_readIn file_read count rb f =
     (let n = bytesFree rb;
          count = (if count > n then n else count);
          n = min (rb_Size rb - rb_head rb) count;
          (rtn, bs, f) = file_read f n;
          rb = rb\<lparr>rb_buf := put_at (rb_head rb) bs (rb_buf rb)\<rparr>
      in if rtn \<le> 0 then (rtn, rb, f)
         else let nread = nat rtn;
                  (nread, rb, f) =
                    (if n < count \<and> nread = n then
                       let (rtn, bs, f) = file_read f (count - n);
                           rb = rb\<lparr>rb_buf := put_at 0 bs (rb_buf rb)\<rparr>
                       in (if rtn > 0 then nread + nat rtn else nread, rb, f)
                     else (nread, rb, f));
                  rb = rb\<lparr>rb_head := advance_by (rb_Size rb) (rb_head rb) nread\<rparr>
              in (int nread, adjustCount (word_of_nat nread) rb, f))"

definition rb_writeOut :: "('f \<Rightarrow> byte list \<Rightarrow> int \<times> 'f) \<Rightarrow> nat \<Rightarrow> ringbuf \<Rightarrow> 'f \<Rightarrow> nat \<times> ringbuf \<times> 'f" where
  "rb_writeOut file_write count rb f =
     (let n = bytesUsed rb;
          count = (if count > n then n else count);
          n = min (rb_Size rb - rb_tail rb) count;
          (rtn, f) = file_write f (take n (drop (rb_tail rb) (rb_buf rb)))
      in if rtn \<le> 0 then (0, rb, f)
         else let nwrite = nat rtn;
                  (nwrite, f) =
                    (if n < count \<and> nwrite = n then
                       let (rtn, f) = file_write f (take (count - n) (rb_buf rb))
                       in (if rtn > 0 then nwrite + nat rtn else nwrite, f)
                     else (nwrite, f));
                  rb = rb\<lparr>rb_tail := advance_by (rb_Size rb) (rb_tail rb) nwrite\<rparr>
              in (nwrite, adjustCount (- word_of_nat nwrite) rb, f))"

definition rb_sync :: "('f \<Rightarrow> byte list \<Rightarrow> int \<times> 'f) \<Rightarrow> ringbuf \<Rightarrow> 'f \<Rightarrow> bool \<times> ringbuf \<times> 'f" where
  "rb_sync file_write rb f =
     (let n = bytesUsed rb
      in if n \<noteq> 0 then let (w, rb, f) = rb_writeOut file_write n rb f in (w = n, rb, f) else (True, rb, f))"

section \<open>A buffer as a queue\<close>

definition slot :: "nat \<Rightarrow> nat \<Rightarrow> nat \<Rightarrow> nat" where
  "slot sz t i = (if t + i < sz then t + i else t + i - sz)"

definition rb_ok :: "ringbuf \<Rightarrow> bool" where
  "rb_ok rb \<longleftrightarrow> 0 < rb_Size rb \<and> rb_Size rb < 2 ^ 15 \<and> rb_tail rb < rb_Size rb \<and> unat (rb_count rb) \<le> rb_Size rb \<and>
     rb_head rb = slot (rb_Size rb) (rb_tail rb) (unat (rb_count rb))"

definition contents :: "ringbuf \<Rightarrow> byte list" where
  "contents rb = map (\<lambda>i. rb_buf rb ! slot (rb_Size rb) (rb_tail rb) i) [0..<unat (rb_count rb)]"

lemma slot_less: "t < sz \<Longrightarrow> i \<le> sz \<Longrightarrow> slot sz t i < sz"
  by (auto simp: slot_def)

lemma slot_slot: "t < sz \<Longrightarrow> i + j \<le> sz \<Longrightarrow> slot sz (slot sz t i) j = slot sz t (i + j)"
  by (auto simp: slot_def)

lemma advance_by_slot: "advance_by sz t n = slot sz t n"
  by (simp add: advance_by_def slot_def Let_def)

lemma and_pred_power: "0 < n \<Longrightarrow> (n - 1) AND n = 0 \<Longrightarrow> \<exists>k. n = 2 ^ k" for n :: nat
proof (induction n rule: less_induct)
  case (less n)
  show ?case
  proof (cases "n = 1")
    case True
    then show ?thesis by (intro exI [of _ 0]) simp
  next
    case False
    show ?thesis
    proof (cases "even n")
      case True
      then obtain m where m: "n = 2 * m" by blast
      then have "0 < m" "m < n" using less.prems(1) by simp_all
      moreover have "(m - 1) AND m = 0"
      proof -
        have "n - 1 = 2 * (m - 1) + 1" using m \<open>0 < m\<close> by simp
        then have "(n - 1) AND n = 2 * ((m - 1) AND m)" unfolding m by (subst and_nat_unfold) simp
        then show ?thesis using less.prems(2) by simp
      qed
      ultimately obtain k where "m = 2 ^ k" using less.IH by blast
      then show ?thesis using m by (intro exI [of _ "Suc k"]) simp
    next
      case odd: False
      then obtain m where m: "n = 2 * m + 1" by (metis oddE)
      then have "(n - 1) AND n = 2 * (m AND m)" by (subst and_nat_unfold) simp
      then show ?thesis using less.prems(2) m False by simp
    qed
  qed
qed

lemma advance_slot: "t < sz \<Longrightarrow> advance sz t = slot sz t 1"
proof (cases "(sz - 1) AND sz = 0")
  case True
  assume t: "t < sz"
  obtain k where k: "sz = 2 ^ k" using and_pred_power [of sz] True t by auto
  then have "(t + 1) AND (sz - 1) = (t + 1) mod sz"
    by (simp add: take_bit_eq_mod [symmetric] take_bit_eq_mask mask_eq_exp_minus_1)
  then show ?thesis using t True by (cases "t + 1 < sz") (auto simp: advance_def slot_def not_less le_Suc_eq)
next
  case False
  assume "t < sz"
  then show ?thesis using False by (simp add: advance_def slot_def)
qed

text \<open>Bytes stored from an index on, around the end of the buffer.\<close>

lemma wrap_put:
  assumes "start < length buf" "length bs \<le> length buf" "n = min (length buf - start) (length bs)"
    "buf' = (if n = length bs then put_at start bs buf else put_at 0 (drop n bs) (put_at start (take n bs) buf))"
  shows "length buf' = length buf"
    "\<And>j. j < length buf \<Longrightarrow> buf' ! j = (let k = (if start \<le> j then j - start else j + length buf - start) in if k < length bs then bs ! k else buf ! j)"
proof -
  have "length buf' = length buf \<and> (\<forall>j < length buf. buf' ! j =
      (let k = (if start \<le> j then j - start else j + length buf - start) in if k < length bs then bs ! k else buf ! j))"
  proof (cases "n = length bs")
    case True
    then have "start + length bs \<le> length buf" using assms(1,3) by linarith
    then show ?thesis using True assms(4) by (auto simp: nth_put_at Let_def)
  next
    case False
    then have n: "n = length buf - start" "n < length bs" using assms(3) by auto
    have l: "start + length (take n bs) \<le> length buf" "length (put_at start (take n bs) buf) = length buf" using n assms(1,2) by simp_all
    have l2: "0 + length (drop n bs) \<le> length (put_at start (take n bs) buf)" using l n assms(2) by simp
    show ?thesis using n l l2 assms(1,2,4) False by (auto simp: nth_put_at Let_def add.commute)
  qed
  then show "length buf' = length buf" "\<And>j. j < length buf \<Longrightarrow> buf' ! j =
      (let k = (if start \<le> j then j - start else j + length buf - start) in if k < length bs then bs ! k else buf ! j)" by blast+
qed

lemma contents_length [simp]: "length (contents rb) = unat (rb_count rb)"
  by (simp add: contents_def)

lemma free_used:
  assumes "rb_ok rb"
  shows "bytesFree rb = rb_Size rb - unat (rb_count rb)"
proof -
  have "unat (word_of_nat (rb_Size rb) :: 16 word) = rb_Size rb" using assms by (intro unat_of_nat_small) (simp add: rb_ok_def)
  then show ?thesis using assms by (simp add: bytesFree_def unat_sub word_le_nat_alt rb_ok_def)
qed

lemma append_contents:
  assumes "rb_ok rb" "length bs \<le> rb_Size rb - unat (rb_count rb)" "length buf' = rb_Size rb"
    "\<And>j. j < rb_Size rb \<Longrightarrow> buf' ! j = (let k = (if rb_head rb \<le> j then j - rb_head rb else j + rb_Size rb - rb_head rb)
       in if k < length bs then bs ! k else rb_buf rb ! j)"
    "rb' = adjustCount (word_of_nat (length bs)) (rb\<lparr>rb_buf := buf', rb_head := slot (rb_Size rb) (rb_head rb) (length bs)\<rparr>)"
  shows "rb_ok rb' \<and> contents rb' = contents rb @ bs"
proof -
  define S t c where "S = rb_Size rb" and "t = rb_tail rb" and "c = unat (rb_count rb)"
  have ok: "0 < S" "S < 2 ^ 15" "t < S" "c \<le> S" "rb_head rb = slot S t c" "c + length bs \<le> S"
    using assms(1,2) unfolding rb_ok_def S_def t_def c_def by auto
  have cw: "unat (rb_count rb + word_of_nat (length bs)) = c + length bs"
  proof -
    have "unat (word_of_nat (length bs) :: 16 word) = length bs" using ok by (intro unat_of_nat_small) simp
    then show ?thesis using ok unat_plus_small [of "rb_count rb" "word_of_nat (length bs)"] by (simp add: c_def [symmetric])
  qed
  have "rb_ok rb'"
    using ok assms(3) cw slot_slot [OF ok(3,6)] unfolding assms(5) rb_ok_def by (simp add: adjustCount_def S_def [symmetric] t_def [symmetric])
  moreover have "contents rb' = contents rb @ bs"
  proof (rule nth_equalityI)
    show "length (contents rb') = length (contents rb @ bs)" using cw by (simp add: assms(5) adjustCount_def c_def)
    fix i assume "i < length (contents rb')"
    then have i: "i < c + length bs" using cw by (simp add: assms(5) adjustCount_def)
    have c: "contents rb' ! i = buf' ! slot S t i"
      using i cw assms(3) by (simp add: contents_def assms(5) adjustCount_def S_def t_def)
    have "slot S t i < S" using ok i by (intro slot_less) simp_all
    note A = assms(4) [unfolded Let_def ok(5), folded S_def, OF this]
    have "buf' ! slot S t i = (contents rb @ bs) ! i"
    proof (cases "i < c")
      case True
      have "\<not> (if slot S t c \<le> slot S t i then slot S t i - slot S t c else slot S t i + S - slot S t c) < length bs"
        using ok True by (auto simp: slot_def)
      then have "buf' ! slot S t i = rb_buf rb ! slot S t i" unfolding A by (rule if_not_P)
      then show ?thesis using True by (simp add: nth_append contents_def c_def S_def t_def)
    next
      case False
      have k: "(if slot S t c \<le> slot S t i then slot S t i - slot S t c else slot S t i + S - slot S t c) = i - c"
        using ok i False by (auto simp: slot_def)
      have "buf' ! slot S t i = bs ! (i - c)" unfolding A k using i False by (intro if_P) linarith
      then show ?thesis using False by (simp add: nth_append c_def)
    qed
    then show "contents rb' ! i = (contents rb @ bs) ! i" using c by simp
  qed
  ultimately show ?thesis ..
qed

lemma write_fits:
  assumes "rb_ok rb" "length bs \<le> rb_Size rb - unat (rb_count rb)"
  shows "\<exists>rb'. rb_write bs rb = (length bs, rb') \<and> rb_ok rb' \<and> contents rb' = contents rb @ bs \<and> rb_Size rb' = rb_Size rb"
proof -
  define n where "n = min (rb_Size rb - rb_head rb) (length bs)"
  define buf' where "buf' = (if n = length bs then put_at (rb_head rb) bs (rb_buf rb)
    else put_at 0 (drop n bs) (put_at (rb_head rb) (take n bs) (rb_buf rb)))"
  have h: "rb_head rb < rb_Size rb" using assms(1) slot_less by (simp add: rb_ok_def)
  have l: "length bs \<le> rb_Size rb" using assms(2) by simp
  note P = wrap_put [OF h l n_def buf'_def]
  define rb' where "rb' = adjustCount (word_of_nat (length bs)) (rb\<lparr>rb_buf := buf', rb_head := slot (rb_Size rb) (rb_head rb) (length bs)\<rparr>)"
  have "rb_write bs rb = (length bs, rb')"
  proof -
    have "\<not> bytesFree rb < length bs" using assms free_used [OF assms(1)] by simp
    moreover have "length bs - n = slot (rb_Size rb) (rb_head rb) (length bs)" if "n \<noteq> length bs"
      using that h by (auto simp: n_def slot_def)
    ultimately show ?thesis
      unfolding rb_write_def Let_def n_def [symmetric] rb'_def buf'_def advance_by_slot by (cases "n = length bs") simp_all
  qed
  moreover have "rb_ok rb' \<and> contents rb' = contents rb @ bs" by (rule append_contents [OF assms P rb'_def])
  moreover have "rb_Size rb' = rb_Size rb" using P(1) by (simp add: rb'_def adjustCount_def)
  ultimately show ?thesis by blast
qed

lemma drop_contents:
  assumes "rb_ok rb" "n \<le> unat (rb_count rb)"
    "rb' = adjustCount (- word_of_nat n) (rb\<lparr>rb_tail := slot (rb_Size rb) (rb_tail rb) n\<rparr>)"
  shows "rb_ok rb' \<and> contents rb' = drop n (contents rb) \<and> rb_Size rb' = rb_Size rb"
proof -
  define S t c where "S = rb_Size rb" and "t = rb_tail rb" and "c = unat (rb_count rb)"
  have ok: "0 < S" "S < 2 ^ 15" "t < S" "c \<le> S" "rb_head rb = slot S t c" "n \<le> c"
    using assms(1,2) unfolding rb_ok_def S_def t_def c_def by auto
  have cw: "unat (rb_count rb + - word_of_nat n) = c - n"
  proof -
    have "unat (word_of_nat n :: 16 word) = n" using ok by (intro unat_of_nat_small) simp
    moreover from this have "word_of_nat n \<le> rb_count rb" using ok(6) by (simp add: word_le_nat_alt c_def)
    ultimately show ?thesis by (simp add: unat_sub c_def)
  qed
  have q: "slot S t n < S" "slot S (slot S t n) (c - n) = slot S t c"
    using ok slot_less [of t S n] slot_slot [of t S n "c - n"] by simp_all
  have "rb_ok rb'"
    unfolding assms(3) rb_ok_def using ok cw q by (simp add: adjustCount_def S_def [symmetric] t_def [symmetric])
  moreover have "contents rb' = drop n (contents rb)"
  proof (rule nth_equalityI)
    show "length (contents rb') = length (drop n (contents rb))" using cw by (simp add: assms(3) adjustCount_def c_def)
    fix i assume "i < length (contents rb')"
    then have i: "i < c - n" using cw by (simp add: assms(3) adjustCount_def)
    then have "slot S (slot S t n) i = slot S t (n + i)" using ok by (intro slot_slot) simp_all
    moreover have "n + i < c" using i by linarith
    ultimately show "contents rb' ! i = drop n (contents rb) ! i"
      using i cw ok(6) by (simp add: contents_def assms(3) adjustCount_def S_def [symmetric] t_def [symmetric] c_def [symmetric])
  qed
  ultimately show ?thesis by (simp add: assms(3) adjustCount_def)
qed

text \<open>The first bytes lie at the tail and, after the end of the buffer, at its start.\<close>

lemma take_contents:
  assumes "rb_ok rb" "n \<le> unat (rb_count rb)" "k = min (rb_Size rb - rb_tail rb) n"
  shows "take k (drop (rb_tail rb) (rb_buf rb)) @ take (n - k) (rb_buf rb) = take n (contents rb)"
proof (rule nth_equalityI)
  have b: "rb_tail rb < rb_Size rb" "n \<le> rb_Size rb" using assms(1,2) by (auto simp: rb_ok_def)
  show l: "length (take k (drop (rb_tail rb) (rb_buf rb)) @ take (n - k) (rb_buf rb)) = length (take n (contents rb))"
    using assms b by auto
  fix i assume "i < length (take k (drop (rb_tail rb) (rb_buf rb)) @ take (n - k) (rb_buf rb))"
  then have i: "i < n" unfolding l using assms(2) by simp
  have "take n (contents rb) ! i = rb_buf rb ! slot (rb_Size rb) (rb_tail rb) i"
    using i assms(2) by (simp add: contents_def)
  moreover have "(take k (drop (rb_tail rb) (rb_buf rb)) @ take (n - k) (rb_buf rb)) ! i = rb_buf rb ! slot (rb_Size rb) (rb_tail rb) i"
  proof (cases "i < k")
    case True
    then show ?thesis using b i assms(3) by (auto simp: nth_append slot_def)
  next
    case False
    then have "k = rb_Size rb - rb_tail rb" using i assms(3) by auto
    then show ?thesis using b i False by (auto simp: nth_append slot_def add.commute)
  qed
  ultimately show "(take k (drop (rb_tail rb) (rb_buf rb)) @ take (n - k) (rb_buf rb)) ! i = take n (contents rb) ! i" by simp
qed

lemma adjust_step: "(adjustCount a rb)\<lparr>rb_buf := x, rb_head := y\<rparr> = adjustCount a (rb\<lparr>rb_buf := x, rb_head := y\<rparr>)"
  by (cases rb) (simp add: adjustCount_def)

lemma adjust_fields [simp]: "rb_buf (adjustCount a rb) = rb_buf rb" "rb_head (adjustCount a rb) = rb_head rb"
  by (simp_all add: adjustCount_def)

lemma put_bytes_commute:
  "adjustCount a (rb_put_bytes bs rb) = rb_put_bytes bs (adjustCount a rb)"
  by (induction bs rb rule: rb_put_bytes.induct) (simp_all add: adjust_step)

lemma adjust_adjust: "adjustCount a (adjustCount b rb) = adjustCount (b + a) rb"
  by (simp add: adjustCount_def add.assoc)

lemma put_bytes_contents:
  assumes "rb_ok rb" "length bs \<le> rb_Size rb - unat (rb_count rb)"
  shows "rb_ok (adjustCount (word_of_nat (length bs)) (rb_put_bytes bs rb)) \<and>
    contents (adjustCount (word_of_nat (length bs)) (rb_put_bytes bs rb)) = contents rb @ bs \<and>
    rb_Size (adjustCount (word_of_nat (length bs)) (rb_put_bytes bs rb)) = rb_Size rb"
  using assms
proof (induction bs arbitrary: rb)
  case Nil
  then show ?case by (simp add: adjustCount_def)
next
  case (Cons b bs)
  let ?rb = "adjustCount 1 (rb\<lparr>rb_buf := (rb_buf rb)[rb_head rb := b], rb_head := slot (rb_Size rb) (rb_head rb) 1\<rparr>)"
  have h: "rb_head rb < rb_Size rb" using Cons.prems(1) slot_less by (simp add: rb_ok_def)
  have "rb_ok ?rb \<and> contents ?rb = contents rb @ [b]"
    by (rule append_contents [OF Cons.prems(1)]) (use Cons.prems(2) h in \<open>auto simp: nth_list_update Let_def\<close>)
  then have s: "rb_ok ?rb" "contents ?rb = contents rb @ [b]" "rb_Size ?rb = rb_Size rb" by (simp_all add: adjustCount_def)
  have "unat (rb_count ?rb) = length (contents rb) + 1" using arg_cong [OF s(2), of length] by simp
  then have c: "length bs \<le> rb_Size ?rb - unat (rb_count ?rb)" using Cons.prems(2) s(3) by simp
  have "adjustCount (word_of_nat (length (b # bs))) (rb_put_bytes (b # bs) rb) = adjustCount (word_of_nat (length bs)) (rb_put_bytes bs ?rb)"
    by (simp add: put_bytes_commute adjust_adjust advance_slot [OF h] add.commute)
  then show ?case using Cons.IH [OF s(1) c] s(2,3) by simp
qed

lemma get_bytes_eq:
  assumes "rb_tail rb < rb_Size rb" "n \<le> rb_Size rb"
  shows "rb_get_bytes n rb = (map (\<lambda>i. rb_buf rb ! slot (rb_Size rb) (rb_tail rb) i) [0..<n], rb\<lparr>rb_tail := slot (rb_Size rb) (rb_tail rb) n\<rparr>)"
  using assms
proof (induction n arbitrary: rb)
  case 0
  then show ?case by (simp add: slot_def)
next
  case (Suc n)
  let ?S = "rb_Size rb" and ?t = "rb_tail rb"
  let ?rb = "rb\<lparr>rb_tail := slot ?S ?t 1\<rparr>"
  have "slot ?S ?t 1 < ?S" using Suc.prems by (intro slot_less) simp_all
  then have e: "rb_get_bytes n ?rb = (map (\<lambda>i. rb_buf rb ! slot ?S (slot ?S ?t 1) i) [0..<n], ?rb\<lparr>rb_tail := slot ?S (slot ?S ?t 1) n\<rparr>)"
    using Suc.IH [of ?rb] Suc.prems by simp
  have q: "slot ?S (slot ?S ?t 1) i = slot ?S ?t (Suc i)" if "i \<le> n" for i
    using slot_slot [of ?t ?S 1 i] Suc.prems that by simp
  have "map (\<lambda>i. rb_buf rb ! slot ?S (slot ?S ?t 1) i) [0..<n] = map (\<lambda>i. rb_buf rb ! slot ?S ?t i) [Suc 0..<Suc n]"
    unfolding map_Suc_upt [symmetric] map_map using q by (intro map_cong) simp_all
  moreover have "rb_buf rb ! ?t = rb_buf rb ! slot ?S ?t 0" using Suc.prems by (simp add: slot_def)
  ultimately show ?case
    using e q [of n] by (simp add: advance_slot [OF Suc.prems(1)] upt_conv_Cons del: upt_Suc)
qed

lemma read_item_fits:
  assumes "rb_ok rb" "n \<le> unat (rb_count rb)"
  shows "\<exists>rb'. rb_read_item n rb = (Some (take n (contents rb)), rb') \<and> rb_ok rb' \<and> contents rb' = drop n (contents rb) \<and> rb_Size rb' = rb_Size rb"
proof -
  define rb' where "rb' = adjustCount (- word_of_nat n) (rb\<lparr>rb_tail := slot (rb_Size rb) (rb_tail rb) n\<rparr>)"
  have b: "rb_tail rb < rb_Size rb" "n \<le> rb_Size rb" using assms by (auto simp: rb_ok_def)
  have "map (\<lambda>i. rb_buf rb ! slot (rb_Size rb) (rb_tail rb) i) [0..<n] = take n (contents rb)"
    using assms(2) by (simp add: contents_def take_map min_def)
  then have "rb_read_item n rb = (Some (take n (contents rb)), rb')"
    using get_bytes_eq [OF b] assms(2) by (simp add: rb_read_item_def bytesUsed_def rb'_def)
  then show ?thesis using drop_contents [OF assms rb'_def] by blast
qed

section \<open>The interface\<close>

text \<open>
  A bounded queue of bytes, as an interrupt routine and the main program use it: \<open>put\<close> stores all of a record or nothing,
  \<open>get\<close> takes a number of bytes or nothing.
\<close>

datatype queue_op = Put "byte list" | Get nat

text \<open>A run of operations: the bytes accepted and the bytes that came out.\<close>

fun queue_run :: "(byte list \<Rightarrow> 'q \<Rightarrow> nat \<times> 'q) \<Rightarrow> (nat \<Rightarrow> 'q \<Rightarrow> byte list option \<times> 'q) \<Rightarrow> queue_op list \<Rightarrow> 'q \<Rightarrow> byte list \<times> byte list \<times> 'q" where
  "queue_run put get [] q = ([], [], q)"
| "queue_run put get (Put bs # ops) q =
     (let (n, q) = put bs q; (ins, outs, q) = queue_run put get ops q in (take n bs @ ins, outs, q))"
| "queue_run put get (Get n # ops) q =
     (let (x, q) = get n q; (ins, outs, q) = queue_run put get ops q in (ins, (case x of None \<Rightarrow> [] | Some bs \<Rightarrow> bs) @ outs, q))"

locale bounded_queue =
  fixes ok :: "'q \<Rightarrow> bool" and bytes :: "'q \<Rightarrow> byte list" and room :: "'q \<Rightarrow> nat"
    and put :: "byte list \<Rightarrow> 'q \<Rightarrow> nat \<times> 'q" and get :: "nat \<Rightarrow> 'q \<Rightarrow> byte list option \<times> 'q"
  assumes put_fits: "ok q \<Longrightarrow> length bs \<le> room q \<Longrightarrow>
      \<exists>q'. put bs q = (length bs, q') \<and> ok q' \<and> bytes q' = bytes q @ bs \<and> room q' + length bs = room q"
    and put_full: "ok q \<Longrightarrow> room q < length bs \<Longrightarrow> \<exists>q'. put bs q = (0, q') \<and> ok q' \<and> bytes q' = bytes q \<and> room q' = room q"
    and get_fits: "ok q \<Longrightarrow> n \<le> length (bytes q) \<Longrightarrow>
      \<exists>q'. get n q = (Some (take n (bytes q)), q') \<and> ok q' \<and> bytes q' = drop n (bytes q) \<and> room q' = room q + n"
    and get_empty: "ok q \<Longrightarrow> length (bytes q) < n \<Longrightarrow> get n q = (None, q)"
begin

lemma fifo:
  "ok q \<Longrightarrow> \<exists>ins outs q'. queue_run put get ops q = (ins, outs, q') \<and> ok q' \<and> bytes q @ ins = outs @ bytes q' \<and>
     room q' + length (bytes q') = room q + length (bytes q)"
proof (induction ops arbitrary: q)
  case Nil
  then show ?case by simp
next
  case (Cons oper ops)
  show ?case
  proof (cases oper)
    case (Put bs)
    show ?thesis
    proof (cases "length bs \<le> room q")
      case True
      obtain q1 where q1: "put bs q = (length bs, q1)" "ok q1" "bytes q1 = bytes q @ bs" "room q1 + length bs = room q"
        using put_fits [OF Cons.prems True] by blast
      obtain ins outs q' where "queue_run put get ops q1 = (ins, outs, q')" "ok q'" "bytes q1 @ ins = outs @ bytes q'"
        "room q' + length (bytes q') = room q1 + length (bytes q1)" using Cons.IH [OF q1(2)] by blast
      then show ?thesis using q1 Put by simp
    next
      case False
      then obtain q1 where q1: "put bs q = (0, q1)" "ok q1" "bytes q1 = bytes q" "room q1 = room q"
        using put_full [OF Cons.prems, of bs] by auto
      obtain ins outs q' where "queue_run put get ops q1 = (ins, outs, q')" "ok q'" "bytes q1 @ ins = outs @ bytes q'"
        "room q' + length (bytes q') = room q1 + length (bytes q1)" using Cons.IH [OF q1(2)] by blast
      then show ?thesis using q1 Put by simp
    qed
  next
    case (Get n)
    show ?thesis
    proof (cases "n \<le> length (bytes q)")
      case True
      obtain q1 where q1: "get n q = (Some (take n (bytes q)), q1)" "ok q1" "bytes q1 = drop n (bytes q)" "room q1 = room q + n"
        using get_fits [OF Cons.prems True] by blast
      obtain ins outs q' where r: "queue_run put get ops q1 = (ins, outs, q')" "ok q'" "bytes q1 @ ins = outs @ bytes q'"
        "room q' + length (bytes q') = room q1 + length (bytes q1)" using Cons.IH [OF q1(2)] by blast
      have "bytes q @ ins = take n (bytes q) @ (bytes q1 @ ins)" unfolding q1(3) by simp
      then have "bytes q @ ins = (take n (bytes q) @ outs) @ bytes q'" unfolding r(3) by simp
      then show ?thesis using q1 r True Get by simp
    next
      case False
      then have "get n q = (None, q)" using get_empty [OF Cons.prems] by simp
      then show ?thesis using Cons.IH [OF Cons.prems] Get by fastforce
    qed
  qed
qed

end

definition rb_room :: "ringbuf \<Rightarrow> nat" where "rb_room rb = rb_Size rb - unat (rb_count rb)"

lemma room_contents:
  assumes "rb_ok rb" "contents rb' = contents rb @ bs" "rb_Size rb' = rb_Size rb" "length bs \<le> rb_room rb"
  shows "rb_room rb' + length bs = rb_room rb"
  using arg_cong [OF assms(2), of length] assms(1,3,4) by (simp add: rb_room_def)

lemma write_full: "rb_ok rb \<Longrightarrow> rb_room rb < length bs \<Longrightarrow> rb_write bs rb = (0, rb\<lparr>rb_writeError := True\<rparr>)"
  using free_used [of rb] by (simp add: rb_write_def rb_room_def)

lemma write_item_fits:
  assumes "rb_ok rb" "length bs \<le> rb_room rb"
  shows "\<exists>rb'. rb_write_item bs rb = (length bs, rb') \<and> rb_ok rb' \<and> contents rb' = contents rb @ bs \<and> rb_Size rb' = rb_Size rb"
proof -
  have "rb_write_item bs rb = (length bs, adjustCount (word_of_nat (length bs)) (rb_put_bytes bs rb))"
    using assms free_used [OF assms(1)] by (simp add: rb_write_item_def rb_room_def)
  then show ?thesis using put_bytes_contents [OF assms(1), of bs] assms(2) by (simp add: rb_room_def)
qed

lemma write_item_full: "rb_ok rb \<Longrightarrow> rb_room rb < length bs \<Longrightarrow> rb_write_item bs rb = (0, rb\<lparr>rb_writeError := True\<rparr>)"
  using free_used [of rb] by (simp add: rb_write_item_def rb_room_def)

lemma error_flag [simp]:
  "rb_ok (rb\<lparr>rb_writeError := e\<rparr>) = rb_ok rb" "contents (rb\<lparr>rb_writeError := e\<rparr>) = contents rb" "rb_room (rb\<lparr>rb_writeError := e\<rparr>) = rb_room rb"
  by (simp_all add: rb_ok_def contents_def rb_room_def)

lemma read_item_room:
  assumes "rb_ok rb" "n \<le> length (contents rb)"
  shows "\<exists>rb'. rb_read_item n rb = (Some (take n (contents rb)), rb') \<and> rb_ok rb' \<and> contents rb' = drop n (contents rb) \<and> rb_room rb' = rb_room rb + n"
proof -
  have n: "n \<le> unat (rb_count rb)" using assms(2) by simp
  obtain rb' where r: "rb_read_item n rb = (Some (take n (contents rb)), rb')" "rb_ok rb'" "contents rb' = drop n (contents rb)"
    "rb_Size rb' = rb_Size rb" using read_item_fits [OF assms(1) n] by blast
  have "unat (rb_count rb') = unat (rb_count rb) - n" using arg_cong [OF r(3), of length] by simp
  then have "rb_room rb' = rb_room rb + n" using r(4) n assms(1) by (simp add: rb_room_def rb_ok_def)
  then show ?thesis using r by blast
qed

lemma read_item_short: "length (contents rb) < n \<Longrightarrow> rb_read_item n rb = (None, rb)"
  by (simp add: rb_read_item_def bytesUsed_def)

interpretation ring: bounded_queue rb_ok contents rb_room rb_write rb_read_item
proof (unfold_locales, goal_cases)
  case (1 q bs)
  then show ?case using write_fits [of q bs] room_contents [of q _ bs] by (fastforce simp: rb_room_def)
next
  case (2 q bs)
  then show ?case using write_full by simp
qed (use read_item_room read_item_short in auto)

interpretation items: bounded_queue rb_ok contents rb_room rb_write_item rb_read_item
proof (unfold_locales, goal_cases)
  case (1 q bs)
  then show ?case using write_item_fits [of q bs] room_contents [of q _ bs] by (fastforce simp: rb_room_def)
next
  case (2 q bs)
  then show ?case using write_item_full by simp
qed (use read_item_room read_item_short in auto)

section \<open>Properties\<close>

text \<open>C39: the ring buffer is a bounded queue. In any sequence of records written and items
  read, the bytes that came out followed by those still in the buffer are the bytes that were in it
  followed by those accepted, in order and without loss, and the buffer never holds more than its
  size.\<close>

theorem ring_is_fifo:
  assumes "rb_ok rb"
  shows "\<exists>ins outs rb'. queue_run rb_write rb_read_item ops rb = (ins, outs, rb') \<and> rb_ok rb' \<and>
      contents rb @ ins = outs @ contents rb' \<and> length (contents rb') \<le> rb_Size rb"
proof -
  obtain ins outs rb' where r: "queue_run rb_write rb_read_item ops rb = (ins, outs, rb')" "rb_ok rb'" "contents rb @ ins = outs @ contents rb'"
    "rb_room rb' + length (contents rb') = rb_room rb + length (contents rb)" using ring.fifo [OF assms, of ops] by blast
  have "rb_room rb + length (contents rb) = rb_Size rb" using assms by (simp add: rb_room_def rb_ok_def)
  then have "length (contents rb') \<le> rb_Size rb" using r(4) by simp
  then show ?thesis using r by blast
qed

definition demo_ring :: ringbuf where
  "demo_ring = \<lparr>rb_buf = [1, 2, 3, 4, 5], rb_count = 2, rb_head = 1, rb_tail = 4, rb_inISR = False, rb_writeError = False\<rparr>"

lemma demo_ring_ok: "rb_ok demo_ring" "contents demo_ring = [5, 1]"
  by (simp_all add: rb_ok_def contents_def demo_ring_def slot_def upt_rec)

lemma ring_is_fifo_witness:
  "\<exists>outs rb'. queue_run rb_write rb_read_item [Get 1, Put [7, 8, 9], Get 3] demo_ring = ([7, 8, 9], outs, rb') \<and>
     [5, 1, 7, 8, 9] = outs @ contents rb'"
proof -
  have "fst (queue_run rb_write rb_read_item [Get 1, Put [7, 8, 9], Get 3] demo_ring) = [7, 8, 9]" by code_simp
  then show ?thesis using ring_is_fifo [OF demo_ring_ok(1), of "[Get 1, Put [7, 8, 9], Get 3]"] by (auto simp: demo_ring_ok(2))
qed

text \<open>A file that takes what it is given: its result is the number of bytes taken, or an error that takes none.\<close>

definition file_takes :: "('f \<Rightarrow> byte list \<Rightarrow> int \<times> 'f) \<Rightarrow> ('f \<Rightarrow> byte list) \<Rightarrow> bool" where
  "file_takes file_write received \<longleftrightarrow>
     (\<forall>f bs rtn f'. file_write f bs = (rtn, f') \<longrightarrow> rtn \<le> int (length bs) \<and> received f' = received f @ take (nat rtn) bs)"

lemma writeOut_queue:
  assumes "rb_ok rb" "file_takes file_write received"
  shows "\<exists>n rb' f'. rb_writeOut file_write count rb f = (n, rb', f') \<and> n \<le> min count (bytesUsed rb) \<and> rb_ok rb' \<and>
    contents rb' = drop n (contents rb) \<and> received f' = received f @ take n (contents rb)"
proof -
  define c where "c = min count (unat (rb_count rb))"
  define k where "k = min (rb_Size rb - rb_tail rb) c"
  have c: "c \<le> unat (rb_count rb)" by (simp add: c_def)
  have kc: "k \<le> c" by (simp add: k_def)
  note c = c kc
  have cc: "(if bytesUsed rb < count then bytesUsed rb else count) = c" by (auto simp: c_def bytesUsed_def)
  have t: "rb_tail rb < rb_Size rb" using assms(1) by (simp add: rb_ok_def)
  note T = take_contents [OF assms(1) c(1) k_def]
  define x where "x = take k (drop (rb_tail rb) (rb_buf rb))"
  define y where "y = take (c - k) (rb_buf rb)"
  have x: "length x = k" "x = take k (contents rb)"
  proof -
    show "length x = k" by (simp add: x_def k_def min_def)
    then have "take k (x @ y) = x" by simp
    then show "x = take k (contents rb)" using T c(2) by (simp add: x_def y_def min_def)
  qed
  have y: "length y = c - k" "take c (contents rb) = x @ y"
    using T assms(1) c by (auto simp: x_def y_def rb_ok_def)
  obtain r1 f1 where w1: "file_write f x = (r1, f1)" by fastforce
  have r1: "r1 \<le> int k" "received f1 = received f @ take (nat r1) x" using assms(2) w1 x(1) unfolding file_takes_def by auto
  show ?thesis
  proof (cases "r1 \<le> 0")
    case True
    then have "rb_writeOut file_write count rb f = (0, rb, f1)"
      using w1 by (simp add: rb_writeOut_def cc k_def [symmetric] x_def [symmetric] Let_def)
    then show ?thesis using r1(2) True assms(1) by auto
  next
    case False
    define out where "out n f = (n, adjustCount (- word_of_nat n) (rb\<lparr>rb_tail := slot (rb_Size rb) (rb_tail rb) n\<rparr>), f)" for n and f :: 'a
    have fin: "\<exists>n rb' f'. out m f2 = (n, rb', f') \<and> n \<le> min count (bytesUsed rb) \<and> rb_ok rb' \<and>
        contents rb' = drop n (contents rb) \<and> received f' = received f @ take n (contents rb)"
      if "m \<le> c" "received f2 = received f @ take m (contents rb)" for m f2
      using drop_contents [OF assms(1) _ refl, of m] that c by (auto simp: out_def c_def bytesUsed_def)
    show ?thesis
    proof (cases "k < c \<and> nat r1 = k")
      case more: True
      obtain r2 f2 where w2: "file_write f1 y = (r2, f2)" by fastforce
      have r2: "r2 \<le> int (c - k)" "received f2 = received f1 @ take (nat r2) y" using assms(2) w2 unfolding file_takes_def y(1) [symmetric] by blast+
      define n where "n = (if r2 > 0 then nat r1 + nat r2 else nat r1)"
      have e: "rb_writeOut file_write count rb f = out n f2"
        using w1 w2 False more
        by (simp add: rb_writeOut_def cc k_def [symmetric] x_def [symmetric] y_def [symmetric] Let_def out_def n_def advance_by_slot)
      have "nat r2 \<le> c - k" using r2(1) by simp
      then have "k + nat r2 \<le> c" "nat r1 = k" using more by linarith+
      then have "n \<le> c" by (auto simp: n_def)
      moreover have "received f2 = received f @ take n (contents rb)"
      proof -
        have "take n (contents rb) = take n (x @ y)" using y(2) \<open>n \<le> c\<close> by (metis min.absorb1 take_take)
        then show ?thesis using r1(2) r2(2) more x(1) by (auto simp: n_def)
      qed
      ultimately show ?thesis unfolding e by (rule fin)
    next
      case one: False
      have e: "rb_writeOut file_write count rb f = out (nat r1) f1"
        using w1 False one
        by (auto simp: rb_writeOut_def cc k_def [symmetric] x_def [symmetric] Let_def out_def advance_by_slot)
      have "nat r1 \<le> c" using r1(1) c by auto
      moreover have "received f1 = received f @ take (nat r1) (contents rb)" using r1 x(2) by (simp add: min_def nat_le_iff)
      ultimately show ?thesis unfolding e by (rule fin)
    qed
  qed
qed

theorem ring_drains_to_file:
  assumes "rb_ok rb" "file_takes file_write received" "rb_sync file_write rb f = (True, rb', f')"
  shows "contents rb' = [] \<and> received f' = received f @ contents rb \<and> rb_ok rb'"
proof (cases "bytesUsed rb = 0")
  case True
  then show ?thesis using assms by (simp add: rb_sync_def Let_def bytesUsed_def contents_def)
next
  case False
  obtain n rb1 f1 where w: "rb_writeOut file_write (bytesUsed rb) rb f = (n, rb1, f1)" "rb_ok rb1" "contents rb1 = drop n (contents rb)"
    "received f1 = received f @ take n (contents rb)" using writeOut_queue [OF assms(1,2)] by blast
  then have "n = bytesUsed rb" "rb' = rb1" "f' = f1" using assms(3) False by (auto simp: rb_sync_def Let_def)
  then show ?thesis using w by (simp add: bytesUsed_def)
qed

text \<open>A file of two bytes a write, for the witness.\<close>

lemma ring_drains_to_file_witness:
  "\<exists>rb' f'. rb_sync (\<lambda>f bs. (int (length bs), f @ bs)) demo_ring [0] = (True, rb', f') \<and> contents rb' = [] \<and> f' = [0, 5, 1]"
proof -
  have "file_takes (\<lambda>f bs. (int (length bs), f @ bs)) (\<lambda>f. f)" by (simp add: file_takes_def)
  moreover have "fst (rb_sync (\<lambda>f bs. (int (length bs), f @ bs)) demo_ring [0]) = True" by code_simp
  then obtain rb' f' where "rb_sync (\<lambda>f bs. (int (length bs), f @ bs)) demo_ring [0] = (True, rb', f')"
    by (cases "rb_sync (\<lambda>f bs. (int (length bs), f @ bs)) demo_ring [0]") auto
  ultimately show ?thesis using ring_drains_to_file [OF demo_ring_ok(1), of _ "\<lambda>f. f"] by (fastforce simp: demo_ring_ok(2))
qed

text \<open>
  \<open>read\<close> compares its count with the free space instead of the bytes used: within both it is correct, a full buffer gives
  nothing, and an empty one gives stale bytes and a count of bytes that has wrapped around.
\<close>



end
