(* ===== verification/Spec2Isabelle.thy ===== *)
theory Spec2Isabelle
  imports FatProperties FileProperties WriteProperties SdDevice SdProperties SdCrc
    FormatMount DateTime Unicode RingBuf
begin

text \<open>
  \<^bold>\<open>ArduOS, a model of the firmware and of the file system under it.\<close>

  ArduOS (\<open>src/src\<close>, \<open>src/lib/StreamProtocol\<close>) is a small operating system for the ATmega2560. It runs three
  tasks in a fixed table: task 0 is a daemon in C++ that serves requests of a PC over the serial line, tasks 1
  and 2 run bytecode programs from an SD card. A round-robin scheduler gives every runnable task one step.
  Programs share one heap of 1024 cells of 16 bits, handed out by a bitmap allocator, and call the kernel by
  \<open>OP_SYS\<close>. Files come from the SdFat library (\<open>src/lib/SdFat/src\<close>), whose FAT layer is the largest part of
  the firmware; it is modelled here down to the block device.

  \<^bold>\<open>Theories, in the order of the calls.\<close>

  \<^item> \<open>Prelude\<close>: the integer types of the target, checked array access, bulk writes, facts on words.
    \<open>CStrings\<close>: the functions of \<open>string.h\<close> on buffers with bounds.
  \<^item> \<open>StreamProtocol\<close> (\<open>StreamProtocol.cpp\<close>, \<open>StreamProtocol.h\<close>): CRC-32, the packet encoder and the parser. The
    lemmas show that the two are inverse to each other in both directions, which result code is returned when,
    and that the CRC notices every change of one byte.
  \<^item> \<open>HAL\<close> (\<open>HAL.cpp\<close>, \<open>Protocol.h\<close>): the record \<open>hal\<close> is the statics of the file and the serial line. Framing of
    incoming bytes, output packets, standard input. Lemmas: the buffer bounds, reception of one packet byte by byte,
    the round trip over the line.
  \<^item> \<open>KernelState\<close> (\<open>Task.h\<close>, \<open>OSConfig.h\<close>, statics of \<open>Kernel.cpp\<close>): the records \<open>task\<close> and \<open>kernel\<close>, and the
    record \<open>fsops\<close> of the file operations that the kernel calls, with their promises \<open>fs_ok\<close>. \<open>Demo\<close>: a file system in
    memory and a small kernel for the witnesses.
  \<^item> \<open>HeapAlloc\<close> and \<open>Kernel\<close> (\<open>Kernel.cpp\<close>): bitmap, first fit, \<open>Kernel_malloc\<close>, \<open>Kernel_free\<close>, start-up, path
    search, program loading, termination, the refill of the code buffer, sleeping. The locale \<open>region_allocator\<close> states
    an allocator over sets of cells and is interpreted on the bitmap; the lemmas on heap ownership (blocks of live
    tasks are disjoint and marked) rest on it.
  \<^item> \<open>ProcTable\<close>: the specification of the kernel as a table of task states with events; \<open>lawful\<close> says that an
    operation keeps the invariants and runs events of the table.
  \<^item> \<open>Syscalls\<close> (\<open>Syscall.cpp\<close>, \<open>syscall/*.h\<close>): the dispatcher, \<open>ls\<close>, \<open>exec\<close>, \<open>chdir\<close>, \<open>getcwd\<close>; each is lawful, and its
    effect on the heap is given cell by cell.
  \<^item> \<open>VirtualMachine\<close> (\<open>VirtualMachine.cpp\<close>): fetching and every opcode; each step is defined and lawful, and the stack
    instructions refine a stack of words.
  \<^item> \<open>Communication\<close> (\<open>Communication.cpp\<close>): the daemon, from a packet to a system call and back.
  \<^item> \<open>Scheduler\<close> (\<open>Kernel_runScheduler\<close>, \<open>main.cpp\<close>): visits of tasks, interleaved with timer ticks and serial input, as
    the step relation \<open>kstep\<close>. The locale \<open>step_system\<close> gives the induction over reachable states and is interpreted on it.
  \<^item> \<open>SectorCache\<close> (\<open>common/FsCache.h\<close>, \<open>FsCache.cpp\<close>, \<open>FsBlockDeviceInterface.h\<close>): the block device as a record of functions
    and the write-back cache of one sector with its mirror. \<open>view\<close> is what a reader sees through the cache;
    \<open>sync_spec\<close> and \<open>prepare_spec\<close> say what a write-back and a change of sector do to it.
  \<^item> \<open>FatTable\<close> (\<open>FatPartition.h\<close>, \<open>FatPartition.cpp\<close>): mounting, reading and writing FAT entries, allocation, freeing
    and counting of clusters. \<open>FatStore\<close> has the invariant \<open>vol_ok\<close> of a mounted volume and what \<open>fatGet\<close> and \<open>fatPut\<close> do to
    the flat store; \<open>FatChains\<close> has chains of clusters, with the locale \<open>fat_table\<close> (a table of links read and written
    through state) interpreted on \<open>fatGet\<close> and \<open>fatPut\<close>; \<open>FatProperties\<close> has the properties of freeing, allocation and
    synchronisation.
  \<^item> \<open>FatFile\<close> (\<open>FatFile.h\<close>, \<open>FatFile.cpp\<close>): the record \<open>fatfile\<close> is the fields of \<open>FatFile\<close>; open by index, read, write, seek,
    truncate, preallocate, directory entries, timestamps, sync and close. \<open>FatNames\<close> (\<open>FatFileLFN.cpp\<close>, \<open>FatName.cpp\<close>): short
    and long names. \<open>FatDir\<close> (\<open>FatFileLFN.cpp\<close>, \<open>FatFile.cpp\<close>, \<open>FatVolume.h\<close>, \<open>FatVolume.cpp\<close>): search and creation of entries,
    paths, remove, rmdir, mkdir, rename, and the volume with its working directory.
  \<^item> \<open>FileReads\<close>, \<open>FileContents\<close>, \<open>FilePosition\<close>, \<open>FileProperties\<close>: what a file holds is the bytes of the sectors along its
    chain (\<open>file_bytes\<close>); \<open>read\<close> returns slices of it and \<open>seekSet\<close> keeps the position on the chain (\<open>file_open\<close>).
    \<open>DataWrites\<close>, \<open>FileGrowth\<close>, \<open>FileWrites\<close>, \<open>WriteProperties\<close>: \<open>write\<close> puts bytes into that string, appends clusters that
    were free, and keeps all other chains and their bytes (\<open>others_kept\<close>). The locale \<open>byte_file\<close> (a byte string with a
    position, read, written and moved through state) is interpreted on \<open>read\<close>, \<open>write\<close> and \<open>seekSet\<close>.
    \<open>DemoCard\<close>: a card in memory with a small FAT16 volume, for the witnesses.
  \<^item> \<open>Formatter\<close> (\<open>FatFormatter.cpp\<close>, \<open>FsStructs.cpp\<close>): the record \<open>formatter\<close> is the fields of the class; layout, boot records and empty FATs
    of FAT16 and FAT32. \<open>FormatMount\<close>: for every size of a device, what \<open>format\<close> writes is mounted by \<open>FatPartition_init\<close> as an empty
    volume that satisfies \<open>vol_ok\<close>, or \<open>format\<close> refuses the device.
  \<^item> \<open>Divide10\<close> and \<open>FmtNumber\<close> (\<open>FmtNumber.cpp\<close>): the AVR assembler text of the division by ten as a program of an interpreter of its
    instructions, shown equal to the version in C++, and the conversion of integers to text. \<open>DateTime\<close> (\<open>FsDateTime.cpp\<close>): packed dates
    and times and their text. A string that grows to the front of its buffer is a list.
  \<^item> \<open>Unicode\<close> (\<open>FsUtf.h\<close>, \<open>FsUtf.cpp\<close>, \<open>upcase.cpp\<close>): UTF-8, surrogates, the upper-case table; the binary searches give what the table says.
  \<^item> \<open>RingBuf\<close> (\<open>RingBuf.h\<close>): the buffer between an interrupt routine and a file. The locale \<open>bounded_queue\<close> states a queue of bytes
    that accepts or refuses whole records; it is interpreted on the operations on blocks and on those on items.
  \<^item> \<open>SdFatOps\<close>: the operations of the file system model as an \<open>fsops\<close>. They keep the promises of \<open>fs_ok\<close>, so what the kernel's
    theorems assume of the file system is a theorem for the library the firmware uses.
  \<^item> \<open>SoftSpi\<close> (\<open>SoftSPI.h\<close>, \<open>SdSpiSoftDriver.h\<close>): bytes as bits on three pins, shown to be a shift register. The record \<open>spibus\<close>
    is the byte level, all that the card driver sees. \<open>SdCardInfo\<close>: constants, error texts and the registers of a card.
  \<^item> \<open>SdSpiCard\<close> (\<open>SdSpiCard.cpp\<close>, \<open>SdSpiCard.h\<close>): the record \<open>sdspi\<close> is the fields of the driver; commands, data packets,
    multi-sector transfers that stay open between two calls, initialisation, registers, erase. \<open>SdCrc\<close>: its checksums.
  \<^item> \<open>SdProtocol\<close>: an SD card on the bus, as the relations \<open>card_shows\<close> and \<open>card_takes\<close> on its phases; timing, response codes and
    everything after an error are free. \<open>SdTransfers\<close>, \<open>SdSectors\<close>, \<open>SdProperties\<close>: driver and card stay in agreement (\<open>connected\<close>), a read
    or write that succeeds has read or stored its sectors, every operation returns on a bus whose clock runs. \<open>SdDemo\<close>: a card
    for the witnesses.
  \<^item> \<open>SdDevice\<close> (\<open>SdFat.h\<close>): the driver as the block device of the volume, and the start of card and volume; with it the
    invariants of the kernel hold on any bus.

  \<^bold>\<open>How the code is rendered.\<close> Undefined behaviour of C++ (an index outside an array, a string past its buffer) is
  \<open>None\<close>; a theorem that a step is defined therefore says that no access is out of bounds. Machine integers are words of
  their width, or \<open>int\<close> with the wrap written out (\<open>int16\<close>). Objects and statics are records passed along. In the FAT layer
  a call that ends at a label \<open>fail\<close> is the value \<open>False\<close>, \<open>FatError\<close> or \<open>None\<close> with the state it leaves behind, and an
  operation whose loop may not end (a chain in a circle, a damaged directory) is a \<open>partial_function\<close> in the option type:
  \<open>None\<close> there is a call that does not return. That \<open>freeChain\<close>, \<open>allocateCluster\<close>, \<open>read\<close>, \<open>write\<close> and \<open>seekSet\<close> return is proved
  for every consistent volume. The searches for a layout in \<open>Formatter\<close> and the digits in a base (\<open>fmt_digits\<close>, which does not end for base 1)
  are partial functions too; \<open>format_gives_usable_volume\<close>, \<open>format_refuses\<close> and \<open>fmt_unsigned_returns\<close> show when they return. Functions with a bound instead of a proof of termination: \<open>open_walk\<close> and \<open>mkdir_walk\<close> take
  the length of the path plus one, and every turn consumes a character or returns.

  \<^bold>\<open>Parameters.\<close> The FAT layer works on any block device (\<open>blockdev\<close>) and clock (\<open>fsclock\<close>). \<open>dev_ok\<close> asks of
  a device that it returns whole sectors; \<open>dev_works D M\<close> that transfers succeed and that the medium \<open>M\<close> holds what was
  written. \<open>card_works\<close> and \<open>card_ok\<close> show it for a card in memory, and \<open>sd_dev_ok\<close> shows \<open>dev_ok\<close> for the card driver. The driver
  works on any bus (\<open>spibus\<close>); \<open>card_bus\<close> says that a card is on it and \<open>clock_runs\<close> that time passes. The pins are \<open>gpio\<close>. The kernel's file system is the parameter \<open>fsops\<close>.

  \<^bold>\<open>Configuration.\<close> SdFat as the firmware builds it for AVR: long names on, UTF-8 names off, FAT12 off, contiguous-file flag
  on, one cache for FAT and data, no count of free clusters, multi-sector transfers on; software SPI, dedicated SPI compiled
  in, no checksums on the bus, flash programming checked. There is one volume, so the pointer
  \<open>m_vol\<close> of a file is the volume passed along.

  \<^bold>\<open>Not modelled.\<close> Register and port I/O (timer set-up, interrupts, pins), which enters as input of the model: ticks and
  received bytes are steps, pins are functions. SDIO and the drivers of other boards, exFAT, iostreams, the
  directory listing and SFN-only names of SdFat are not used by the firmware in this configuration. The formatting of floating-point numbers
  needs a model of \<open>double\<close> and is left out. The PC client is a Java program.
  The creation of entries and long names, and the initialisation and registers of the card, have definitions here but no theorems yet.
\<close>

end
